(* ===== verification/Prelude.thy ===== *)
theory Prelude
  imports Main "HOL-Library.Word" "HOL-Library.Signed_Division"
begin

unbundle bit_operations_syntax

text \<open>
  Shared vocabulary of the development: the machine integer types of the C code
  (x86-64, so \<open>int\<close> has 32 bits, \<open>char\<close> is signed and pointers have 64 bits), the
  outcomes of a C function that does not return normally, and generic lemmas on lists,
  folds and words that several components use.
\<close>

section \<open>Machine types\<close>

type_synonym u8 = "8 word"
type_synonym u16 = "16 word"
type_synonym u32 = "32 word"
type_synonym u64 = "64 word"

text \<open>A C string is the list of its characters before the terminating NUL.\<close>

type_synonym cstring = string

definition cstring_ok :: "cstring \<Rightarrow> bool" where
  "cstring_ok s \<longleftrightarrow> CHR 0x00 \<notin> set s"

text \<open>The value of a (signed) \<open>char\<close> promoted to \<open>int\<close>.\<close>

definition schar :: "char \<Rightarrow> int" where
  "schar c = (let n = (of_char c :: int) in if n < 128 then n else n - 256)"

section \<open>Outcomes of C code\<close>

text \<open>
  A function of the program returns \<open>Inr v\<close>, or ends the process or runs into undefined
  behaviour with one of these.
\<close>

datatype cerror =
    NullDeref        \<comment> \<open>a NULL pointer is dereferenced\<close>
  | OutOfBounds      \<comment> \<open>an array is indexed outside its bounds\<close>
  | DivByZero        \<comment> \<open>an integer is divided by zero\<close>
  | ExitWith int     \<comment> \<open>\<open>exit\<close> or \<open>_exit\<close> is called with this status\<close>
  | Aborted          \<comment> \<open>\<open>abort\<close> is called\<close>
  | ThreadExit       \<comment> \<open>\<open>pthread_exit\<close> is called\<close>

type_synonym 'a res = "cerror + 'a"

definition EXIT_FAILURE :: int where "EXIT_FAILURE = 1"

definition res_bind :: "'a res \<Rightarrow> ('a \<Rightarrow> 'b res) \<Rightarrow> 'b res" where
  "res_bind r f = (case r of Inl e \<Rightarrow> Inl e | Inr v \<Rightarrow> f v)"

lemma res_bind_simps [simp]:
  "res_bind (Inl e) f = Inl e" "res_bind (Inr v) f = f v"
  by (simp_all add: res_bind_def)

lemma res_bind_Inr_iff: "res_bind r f = Inr y \<longleftrightarrow> (\<exists>v. r = Inr v \<and> f v = Inr y)"
  by (cases r) auto

lemma res_bind_Inl_iff:
  "res_bind r f = Inl e \<longleftrightarrow> r = Inl e \<or> (\<exists>v. r = Inr v \<and> f v = Inl e)"
  by (cases r) auto

text \<open>A loop over a list whose body may fail.\<close>

fun res_fold :: "('a \<Rightarrow> 's \<Rightarrow> 's res) \<Rightarrow> 'a list \<Rightarrow> 's \<Rightarrow> 's res" where
  "res_fold f [] s = Inr s"
| "res_fold f (x # xs) s = res_bind (f x s) (res_fold f xs)"

lemma res_fold_Inr:
  assumes "P s" and "\<And>x s. x \<in> set xs \<Longrightarrow> P s \<Longrightarrow> f x s = Inr (g x s) \<and> P (g x s)"
  shows "res_fold f xs s = Inr (fold g xs s) \<and> P (fold g xs s)"
  using assms by (induction xs arbitrary: s) auto

text \<open>The value of an \<open>int\<close> computation, which wraps around on x86-64.\<close>

definition i32 :: "int \<Rightarrow> int" where
  "i32 x = signed_take_bit 31 x"

lemma i32_id [simp]: "- (2 ^ 31) \<le> x \<Longrightarrow> x < 2 ^ 31 \<Longrightarrow> i32 x = x"
  by (simp add: i32_def signed_take_bit_int_eq_self)

section \<open>Collections of simplification rules\<close>

named_theorems mem_simps \<open>reads and writes of the byte memory\<close>
named_theorems step_elims \<open>inversion rules of the step relations\<close>

section \<open>Lists\<close>

text \<open>The first element that satisfies a predicate, mapped: the shape of the search loops.\<close>

lemma find_SomeD:
  "find P xs = Some x \<Longrightarrow> \<exists>ys zs. xs = ys @ x # zs \<and> P x \<and> (\<forall>y\<in>set ys. \<not> P y)"
proof (induction xs)
  case Nil
  then show ?case by simp
next
  case (Cons a xs)
  show ?case
  proof (cases "P a")
    case True
    with Cons.prems show ?thesis by fastforce
  next
    case False
    with Cons obtain ys zs where "xs = ys @ x # zs" "P x" "\<forall>y\<in>set ys. \<not> P y" by auto
    with False have "a # xs = (a # ys) @ x # zs \<and> P x \<and> (\<forall>y\<in>set (a # ys). \<not> P y)" by simp
    then show ?thesis by blast
  qed
qed

lemma find_append:
  "find P (xs @ ys) = (case find P xs of None \<Rightarrow> find P ys | Some x \<Rightarrow> Some x)"
  by (induction xs) auto

text \<open>Folds that keep an invariant.\<close>

lemma fold_invariant:
  assumes "P s" and "\<And>x s. x \<in> set xs \<Longrightarrow> P s \<Longrightarrow> P (f x s)"
  shows "P (fold f xs s)"
  using assms by (induction xs arbitrary: s) auto

section \<open>Words\<close>

lemma unat_bound8: "unat (b :: u8) < 256"
  using unsigned_less [of b, where ?'a = nat] by simp

lemma unat_bound32: "unat (w :: u32) < 2 ^ 32"
  using unsigned_less [of w, where ?'a = nat] by simp

lemma unat_bound64: "unat (w :: u64) < 2 ^ 64"
  using unsigned_less [of w, where ?'a = nat] by simp

lemma unat_add_le: "unat (x + y) \<le> unat x + unat y"
  by (simp add: unat_word_ariths)

lemma unat_plus64: "unat x + unat y < 2 ^ 64 \<Longrightarrow> unat (x + y :: u64) = unat x + unat y"
  by (simp add: unat_word_ariths)

lemma unat_two_power: "n < 64 \<Longrightarrow> unat (2 ^ n :: u64) = 2 ^ n"
proof -
  assume "n < 64"
  then have lt: "(2 :: nat) ^ n < 2 ^ 64" by (rule power_strict_increasing) simp
  have "unat (of_nat (2 ^ n) :: u64) = 2 ^ n" using lt by (simp only: unat_of_nat) simp
  then show ?thesis by simp
qed

lemma unat_mask:
  assumes "n < 64"
  shows "unat (mask n :: u64) = 2 ^ n - 1"
proof -
  have "unat (mask n :: u64) = unat (of_nat (mask n) :: u64)" by (simp only: of_nat_mask_eq)
  also have "\<dots> = mask n" using assms by (simp add: unsigned_of_nat take_bit_of_mask min_def)
  finally show ?thesis by (simp add: mask_eq_exp_minus_1)
qed

lemma unat_of_nat_le: "unat (of_nat n :: 'a::len word) \<le> n"
  by (simp add: unat_of_nat)

lemma word_sub_offset:
  fixes a x :: u64
  shows "x - (a + 1) = x - a - 1"
  by (simp add: algebra_simps)

lemma unat_sub_one:
  fixes x :: "'a::len word"
  shows "x \<noteq> 0 \<Longrightarrow> unat (x - 1) = unat x - 1"
  by (simp add: unat_minus_one)

lemma of_nat_unat_sub:
  fixes a x :: u64
  shows "a + of_nat (unat (x - a)) = x"
  by simp

end
