(* ===== verification/HashTable.thy ===== *)
theory HashTable
  imports Prelude
begin

text \<open>
  \<open>lilith/hash.c\<close>: the string table behind the kernel symbol table (\<open>symbols\<close>) and the
  path interning table (\<open>paths_table\<close>). A slot of the array holds its first entry inline
  (\<open>key == NULL\<close> when empty) and chains further entries behind it; \<open>hash_put\<close> never looks
  for duplicates and inserts right after the inline entry. The interface its clients rely
  on is the locale \<open>symbol_table\<close>.
\<close>

section \<open>Interface\<close>

locale symbol_table =
  fixes get :: "'t \<Rightarrow> cstring \<Rightarrow> 'v option res"
    and put :: "'t \<Rightarrow> cstring \<Rightarrow> 'v \<Rightarrow> 't res"
    and inv :: "'t \<Rightarrow> bool"
    and key_ok :: "cstring \<Rightarrow> bool"
  assumes get_total: "inv t \<Longrightarrow> key_ok k \<Longrightarrow> \<exists>r. get t k = Inr r"
    and put_total: "inv t \<Longrightarrow> key_ok k \<Longrightarrow> \<exists>t'. put t k v = Inr t' \<and> inv t'"
    and get_put_fresh:
      "inv t \<Longrightarrow> key_ok k \<Longrightarrow> get t k = Inr None \<Longrightarrow> put t k v = Inr t' \<Longrightarrow>
       get t' k = Inr (Some v)"
    and get_put_again:
      "inv t \<Longrightarrow> key_ok k \<Longrightarrow> get t k = Inr (Some w) \<Longrightarrow> put t k v = Inr t' \<Longrightarrow>
       get t' k = Inr (Some w) \<or> get t' k = Inr (Some v)"
    and get_put_other:
      "inv t \<Longrightarrow> key_ok k \<Longrightarrow> key_ok k' \<Longrightarrow> k' \<noteq> k \<Longrightarrow> put t k v = Inr t' \<Longrightarrow>
       get t' k' = get t k'"
begin

lemma inv_put: "inv t \<Longrightarrow> key_ok k \<Longrightarrow> put t k v = Inr t' \<Longrightarrow> inv t'"
  using put_total [of t k v] by auto

lemma present_put:
  assumes "inv t" "key_ok k" "key_ok k'" "put t k v = Inr t'" "get t k' = Inr (Some w)"
  shows "\<exists>u. get t' k' = Inr (Some u)"
proof (cases "k' = k")
  case True
  with assms get_put_again [of t k w v t'] show ?thesis by auto
next
  case False
  with assms get_put_other [of t k k' v t'] show ?thesis by simp
qed

lemma put_then_present:
  assumes "inv t" "key_ok k" "put t k v = Inr t'"
  shows "\<exists>u. get t' k = Inr (Some u)"
proof -
  obtain r where r: "get t k = Inr r" using get_total assms(1,2) by blast
  show ?thesis
  proof (cases r)
    case None
    with assms r get_put_fresh show ?thesis by blast
  next
    case (Some w)
    with assms r get_put_again [of t k w v t'] show ?thesis by auto
  qed
qed

end

section \<open>The table\<close>

type_synonym 'v hentry = "cstring \<times> 'v"

record 'v hash_t =
  hh :: "'v hentry list list"  \<comment> \<open>one chain per slot, \<open>[]\<close> for a slot whose inline key is NULL\<close>
  hsz :: int

definition hash_init :: "int \<Rightarrow> 'v hash_t" where
  "hash_init sz = \<lparr>hh = replicate (nat sz) [], hsz = sz\<rparr>"

text \<open>
  \<open>hashfn\<close> adds the characters up in a 32-bit \<open>int\<close>. A \<open>char\<close> is signed, so bytes from
  128 up count as negative numbers.
\<close>

definition hashfn :: "cstring \<Rightarrow> int" where
  "hashfn key = sint (fold (\<lambda>c r. r + word_of_int (schar c)) key (0 :: u32))"

text \<open>\<open>&(h->h[hashfn(key) % h->sz])\<close>; C's \<open>%\<close> takes the sign of the dividend.\<close>

definition hash_slot :: "'v hash_t \<Rightarrow> cstring \<Rightarrow> nat res" where
  "hash_slot h key =
     (if hsz h = 0 then Inl DivByZero
      else let idx = hashfn key smod hsz h in
        if 0 \<le> idx \<and> idx < int (length (hh h)) then Inr (nat idx) else Inl OutOfBounds)"

fun chain_get :: "'v hentry list \<Rightarrow> cstring \<Rightarrow> 'v option" where
  "chain_get [] key = None"
| "chain_get ((k, v) # e) key = (if k = key then Some v else chain_get e key)"

definition hash_get :: "'v hash_t \<Rightarrow> cstring \<Rightarrow> 'v option res" where
  "hash_get h key = res_bind (hash_slot h key) (\<lambda>idx. Inr (chain_get (hh h ! idx) key))"

fun chain_put :: "'v hentry list \<Rightarrow> cstring \<Rightarrow> 'v \<Rightarrow> 'v hentry list" where
  "chain_put [] key val = [(key, val)]"
| "chain_put (e # es) key val = e # (key, val) # es"

definition hash_put :: "'v hash_t \<Rightarrow> cstring \<Rightarrow> 'v \<Rightarrow> 'v hash_t res" where
  "hash_put h key val = res_bind (hash_slot h key) (\<lambda>idx.
     Inr (h\<lparr>hh := (hh h)[idx := chain_put (hh h ! idx) key val]\<rparr>))"

text \<open>
  \<open>hash_find_closest_entry_before\<close> walks the slots and chains in order; \<open>valof\<close> reads
  \<open>e->val->val\<close>. It keeps the first entry among those with the smallest distance.
\<close>

definition closest_step ::
  "('v \<Rightarrow> u64) \<Rightarrow> u64 \<Rightarrow> 'v hentry \<Rightarrow> 'v hentry option \<Rightarrow> 'v hentry option" where
  "closest_step valof v e best =
     (if valof (snd e) > v then best
      else case best of
        None \<Rightarrow> Some e
      | Some b \<Rightarrow>
          let best_dist = v - valof (snd b); cur_dist = v - valof (snd e)
          in if cur_dist < best_dist then Some e else best)"

definition hash_find_closest_entry_before ::
  "('v \<Rightarrow> u64) \<Rightarrow> 'v hash_t \<Rightarrow> u64 \<Rightarrow> 'v hentry option" where
  "hash_find_closest_entry_before valof h v =
     fold (\<lambda>i best. fold (closest_step valof v) (hh h ! i) best) [0..<nat (hsz h)] None"

section \<open>Invariant\<close>

text \<open>The slots are as many as the size says, and every entry is in its key's slot.\<close>

definition hash_inv :: "'v hash_t \<Rightarrow> bool" where
  "hash_inv h \<longleftrightarrow> 0 < hsz h \<and> length (hh h) = nat (hsz h) \<and>
     (\<forall>i < length (hh h). \<forall>e \<in> set (hh h ! i). hashfn (fst e) smod hsz h = int i)"

text \<open>Keys the table can hold: the hash is not negative.\<close>

definition hash_key_ok :: "cstring \<Rightarrow> bool" where
  "hash_key_ok k \<longleftrightarrow> 0 \<le> hashfn k"

definition hash_entries :: "'v hash_t \<Rightarrow> 'v hentry list" where
  "hash_entries h = concat (hh h)"

lemma smod_nonneg:
  fixes a n :: int
  assumes "0 \<le> a" "0 < n"
  shows "a smod n = a mod n"
proof (cases "a = 0")
  case True
  then show ?thesis by (simp add: signed_modulo_int_def signed_divide_int_def)
next
  case False
  with assms show ?thesis
    by (simp add: signed_modulo_int_def signed_divide_int_def minus_div_mult_eq_mod)
qed

lemma hash_slot_ok:
  assumes "hash_inv h" "hash_key_ok k"
  obtains i where "hash_slot h k = Inr i" "i < length (hh h)" "hashfn k smod hsz h = int i"
proof -
  from assms have "0 \<le> hashfn k mod hsz h" "hashfn k mod hsz h < hsz h"
    "hashfn k smod hsz h = hashfn k mod hsz h"
    by (auto simp: hash_inv_def hash_key_ok_def smod_nonneg)
  with assms(1) show ?thesis
    by (intro that [of "nat (hashfn k mod hsz h)"]) (auto simp: hash_slot_def hash_inv_def Let_def)
qed

lemma hash_slot_length:
  "hsz h' = hsz h \<Longrightarrow> length (hh h') = length (hh h) \<Longrightarrow> hash_slot h' k = hash_slot h k"
  by (simp add: hash_slot_def)

lemma hash_inv_init: "0 < sz \<Longrightarrow> hash_inv (hash_init sz)"
  by (simp add: hash_inv_def hash_init_def)

lemma hash_get_init: "hash_get (hash_init sz) k = Inr r \<Longrightarrow> r = None"
  by (auto simp: hash_get_def hash_slot_def hash_init_def Let_def res_bind_Inr_iff split: if_splits)

lemma set_chain_put: "set (chain_put es k v) = insert (k, v) (set es)"
  by (cases es) auto

lemma chain_get_put:
  "chain_get (chain_put es k v) k' =
     (if k' = k then (case es of [] \<Rightarrow> Some v | e # _ \<Rightarrow> if fst e = k then Some (snd e) else Some v)
      else chain_get es k')"
  by (cases es) (auto split: prod.splits)

lemma hash_inv_put:
  assumes inv: "hash_inv h" and k: "hash_key_ok k" and p: "hash_put h k v = Inr h'"
  shows "hash_inv h'"
proof -
  obtain i where s: "hash_slot h k = Inr i" "i < length (hh h)" "hashfn k smod hsz h = int i"
    by (rule hash_slot_ok [OF inv k])
  have h': "h' = h\<lparr>hh := (hh h)[i := chain_put (hh h ! i) k v]\<rparr>"
    using p s by (simp add: hash_put_def)
  show ?thesis
    using inv s(2,3) unfolding h' hash_inv_def
    by (auto simp: nth_list_update set_chain_put)
qed

section \<open>Behaviour\<close>

text \<open>What a lookup returns after an insertion, for every pair of keys.\<close>

definition slot_head_is :: "'v hash_t \<Rightarrow> cstring \<Rightarrow> bool" where
  "slot_head_is h k =
     (case hash_slot h k of Inl _ \<Rightarrow> False
      | Inr i \<Rightarrow> (case hh h ! i of [] \<Rightarrow> False | e # _ \<Rightarrow> fst e = k))"

lemma hash_get_put:
  assumes inv: "hash_inv h" and k: "hash_key_ok k" and k': "hash_key_ok k'"
    and p: "hash_put h k v = Inr h'"
  shows "hash_get h' k' = (if k' = k \<and> \<not> slot_head_is h k then Inr (Some v) else hash_get h k')"
proof -
  obtain i where s: "hash_slot h k = Inr i" "i < length (hh h)"
    by (rule hash_slot_ok [OF inv k])
  obtain j where s': "hash_slot h k' = Inr j" "j < length (hh h)"
    by (rule hash_slot_ok [OF inv k'])
  have h': "h' = h\<lparr>hh := (hh h)[i := chain_put (hh h ! i) k v]\<rparr>"
    using p s by (simp add: hash_put_def)
  have slot': "hash_slot h' k' = Inr j"
    using s' by (subst hash_slot_length [of h' h]) (auto simp: h')
  have "k' = k \<Longrightarrow> j = i" using s s' by simp
  moreover have "hh h' ! j = (if j = i then chain_put (hh h ! i) k v else hh h ! j)"
    using s s' by (simp add: h' nth_list_update)
  ultimately show ?thesis
    using s(1) s'(1) slot'
    by (cases "hh h ! i") (auto simp: hash_get_def chain_get_put slot_head_is_def)
qed

lemma hash_put_ok:
  assumes "hash_inv h" "hash_key_ok k"
  shows "\<exists>h'. hash_put h k v = Inr h' \<and> hash_inv h'"
proof -
  obtain i where "hash_slot h k = Inr i" by (rule hash_slot_ok [OF assms])
  then have "\<exists>h'. hash_put h k v = Inr h'" by (simp add: hash_put_def)
  with hash_inv_put [OF assms] show ?thesis by blast
qed

lemma hash_get_ok:
  assumes "hash_inv h" "hash_key_ok k"
  shows "\<exists>r. hash_get h k = Inr r"
proof -
  obtain i where "hash_slot h k = Inr i" by (rule hash_slot_ok [OF assms])
  then show ?thesis by (simp add: hash_get_def)
qed

lemma slot_head_present: "slot_head_is h k \<Longrightarrow> \<exists>w. hash_get h k = Inr (Some w)"
  by (auto simp: slot_head_is_def hash_get_def split: sum.splits list.splits)

interpretation ht: symbol_table hash_get hash_put hash_inv hash_key_ok
proof
  fix t :: "'a hash_t" and k k' v w t'
  show "\<exists>r. hash_get t k = Inr r" if "hash_inv t" "hash_key_ok k"
    by (rule hash_get_ok [OF that])
  show "\<exists>t'. hash_put t k v = Inr t' \<and> hash_inv t'" if "hash_inv t" "hash_key_ok k"
    by (rule hash_put_ok [OF that])
  show "hash_get t' k = Inr (Some v)"
    if "hash_inv t" "hash_key_ok k" "hash_get t k = Inr None" "hash_put t k v = Inr t'"
    using hash_get_put [OF that(1,2,2,4)] slot_head_present [of t k] that(3) by auto
  show "hash_get t' k = Inr (Some w) \<or> hash_get t' k = Inr (Some v)"
    if "hash_inv t" "hash_key_ok k" "hash_get t k = Inr (Some w)" "hash_put t k v = Inr t'"
    using hash_get_put [OF that(1,2,2,4)] that(3) by simp
  show "hash_get t' k' = hash_get t k'"
    if "hash_inv t" "hash_key_ok k" "hash_key_ok k'" "k' \<noteq> k" "hash_put t k v = Inr t'"
    using hash_get_put [OF that(1,2,3,5)] that(4) by simp
qed

text \<open>ASCII keys of any practical length have a non-negative hash.\<close>

lemma fold_hash_ascii:
  "(\<forall>c \<in> set k. of_char c < (128 :: nat)) \<Longrightarrow>
   fold (\<lambda>c r. r + word_of_int (schar c)) k r =
     r + (of_nat (sum_list (map of_char k)) :: u32)"
proof (induction k arbitrary: r)
  case Nil
  then show ?case by simp
next
  case (Cons c k)
  then have "schar c = of_char c"
    by (auto simp: schar_def Let_def)
      (metis of_nat_less_iff of_nat_numeral of_nat_of_char)
  moreover have "(word_of_int (of_char c) :: u32) = of_nat (of_char c)"
    by (metis of_int_of_nat_eq of_nat_of_char)
  ultimately show ?case
    using Cons by (simp add: algebra_simps)
qed

lemma hashfn_ascii:
  assumes "\<forall>c \<in> set k. of_char c < (128 :: nat)" and "length k < 2 ^ 24"
  shows "hashfn k = int (sum_list (map of_char k))"
proof -
  have "sum_list (map of_char k) \<le> 127 * length k"
    using assms(1) by (induction k) auto
  with assms(2) have "sum_list (map of_char k) < (2 ^ 31 :: nat)" by simp
  then have "sint (of_nat (sum_list (map of_char k)) :: u32) = int (sum_list (map of_char k))"
    by (simp add: sint_uint signed_take_bit_int_eq_self take_bit_nat_eq_self uint_nat unat_of_nat)
  with fold_hash_ascii [OF assms(1)] show ?thesis by (simp add: hashfn_def)
qed

lemma hash_key_ok_ascii:
  "\<forall>c \<in> set k. of_char c < (128 :: nat) \<Longrightarrow> length k < 2 ^ 24 \<Longrightarrow> hash_key_ok k"
  by (simp add: hash_key_ok_def hashfn_ascii)

section \<open>The closest entry\<close>

lemma fold_concat: "fold (\<lambda>i. fold f (xss ! i)) [0..<length xss] s = fold f (concat xss) s"
proof (induction xss rule: rev_induct)
  case Nil
  show ?case by simp
next
  case (snoc xs xss)
  have "fold (\<lambda>i. fold f ((xss @ [xs]) ! i)) [0..<length xss] s =
        fold (\<lambda>i. fold f (xss ! i)) [0..<length xss] s"
    by (intro fold_cong) (auto simp: nth_append)
  with snoc show ?case by simp
qed

lemma closest_eq:
  "hash_inv h \<Longrightarrow>
   hash_find_closest_entry_before valof h v = fold (closest_step valof v) (hash_entries h) None"
  by (simp add: hash_find_closest_entry_before_def hash_entries_def hash_inv_def
      fold_concat [symmetric])

definition is_closest ::
  "('v \<Rightarrow> u64) \<Rightarrow> u64 \<Rightarrow> 'v hentry list \<Rightarrow> 'v hentry option \<Rightarrow> bool" where
  "is_closest valof v es r =
     (case r of
        None \<Rightarrow> (\<forall>e \<in> set es. v < valof (snd e))
      | Some b \<Rightarrow> b \<in> set es \<and> valof (snd b) \<le> v \<and>
          (\<forall>e \<in> set es. valof (snd e) \<le> v \<longrightarrow> valof (snd e) \<le> valof (snd b)))"

lemma word_dist_less:
  fixes a b v :: u64
  assumes "a \<le> v" "b \<le> v"
  shows "v - a < v - b \<longleftrightarrow> b < a"
  using assms by (simp add: word_less_nat_alt word_le_nat_alt unat_sub_if_size) arith

lemma is_closest_step:
  assumes "is_closest valof v es best"
  shows "is_closest valof v (es @ [e]) (closest_step valof v e best)"
proof (cases best)
  case None
  with assms show ?thesis by (auto simp: is_closest_def closest_step_def)
next
  case (Some b)
  with assms have b: "valof (snd b) \<le> v" by (simp add: is_closest_def)
  show ?thesis
  proof (cases "valof (snd e) > v")
    case True
    with assms Some show ?thesis by (auto simp: is_closest_def closest_step_def)
  next
    case False
    then have "v - valof (snd e) < v - valof (snd b) \<longleftrightarrow> valof (snd b) < valof (snd e)"
      using b by (simp add: word_dist_less)
    with False assms Some show ?thesis
      by (auto simp: is_closest_def closest_step_def Let_def)
  qed
qed

lemma fold_closest: "is_closest valof v es (fold (closest_step valof v) es None)"
proof (induction es rule: rev_induct)
  case Nil
  show ?case by (simp add: is_closest_def)
next
  case (snoc e es)
  then show ?case by (simp add: is_closest_step)
qed

section \<open>Sequences of insertions\<close>

fun hash_puts :: "'v hash_t \<Rightarrow> 'v hentry list \<Rightarrow> 'v hash_t res" where
  "hash_puts h [] = Inr h"
| "hash_puts h ((k, v) # es) = res_bind (hash_put h k v) (\<lambda>h'. hash_puts h' es)"

lemma hash_puts_present:
  assumes "hash_inv h" and "\<forall>e \<in> set es. hash_key_ok (fst e)"
  shows "\<exists>h'. hash_puts h es = Inr h' \<and> hash_inv h' \<and>
     (\<forall>k. hash_key_ok k \<longrightarrow> (\<exists>u. hash_get h k = Inr (Some u)) \<or> k \<in> fst ` set es \<longrightarrow>
        (\<exists>u. hash_get h' k = Inr (Some u)))"
  using assms
proof (induction es arbitrary: h)
  case Nil
  then show ?case by simp
next
  case (Cons e es)
  obtain k v where e: "e = (k, v)" by fastforce
  from Cons.prems e have k: "hash_key_ok k" by simp
  obtain h1 where h1: "hash_put h k v = Inr h1" "hash_inv h1"
    using hash_put_ok [OF Cons.prems(1) k] by blast
  with Cons.prems obtain h' where h': "hash_puts h1 es = Inr h'" "hash_inv h'"
    "\<forall>k. hash_key_ok k \<longrightarrow> (\<exists>u. hash_get h1 k = Inr (Some u)) \<or> k \<in> fst ` set es \<longrightarrow>
        (\<exists>u. hash_get h' k = Inr (Some u))"
    using Cons.IH [OF h1(2)] by auto
  have "\<exists>u. hash_get h1 k = Inr (Some u)"
    by (rule ht.put_then_present [OF Cons.prems(1) k h1(1)])
  moreover have "\<exists>u. hash_get h1 k' = Inr (Some u)"
    if "hash_key_ok k'" "hash_get h k' = Inr (Some w)" for k' w
    by (rule ht.present_put [OF Cons.prems(1) k that(1) h1(1) that(2)])
  ultimately show ?case
    using h' h1 e by (intro exI [of _ h']) auto
qed

section \<open>Properties\<close>

text \<open>C2: an insertion into a well-formed table succeeds and keeps it well formed, and a
  lookup afterwards returns the new value for the inserted key, unless the inline entry of
  the slot already has that key (then the old value stays visible), and is unchanged for
  every other key.\<close>
theorem hash_put_get:
  assumes "hash_inv h" "hash_key_ok k" "hash_key_ok k'"
  shows "\<exists>h'. hash_put h k v = Inr h' \<and> hash_inv h' \<and>
    hash_get h' k' = (if k' = k \<and> \<not> slot_head_is h k then Inr (Some v) else hash_get h k')"
  using hash_put_ok [OF assms(1,2), of v] hash_get_put [OF assms] by blast

theorem hash_put_get_witness:
  "\<exists>h'. hash_put (hash_init 4096) ''Print'' (7 :: nat) = Inr h' \<and> hash_inv h' \<and>
    hash_get h' ''Print'' =
      (if ''Print'' = ''Print'' \<and> \<not> slot_head_is (hash_init 4096 :: nat hash_t) ''Print''
       then Inr (Some 7) else hash_get (hash_init 4096) ''Print'')"
proof -
  have "hash_key_ok ''Print''" by (rule hash_key_ok_ascii) simp_all
  then show ?thesis by (intro hash_put_get hash_inv_init) simp_all
qed

text \<open>After any sequence of insertions into an initialised table of positive size,
  every inserted key is found; insertion order and duplicates do not lose a key.\<close>
theorem hash_no_key_lost:
  fixes es :: "'v hentry list"
  assumes "0 < sz" and "\<forall>e \<in> set es. hash_key_ok (fst e)"
  shows "\<exists>h'. hash_puts (hash_init sz) es = Inr h' \<and> hash_inv h' \<and>
    (\<forall>e \<in> set es. \<exists>u. hash_get h' (fst e) = Inr (Some u))"
proof -
  obtain h' where "hash_puts (hash_init sz) es = Inr h'" "hash_inv h'"
    "\<forall>k. hash_key_ok k \<longrightarrow> (\<exists>u. hash_get (hash_init sz :: 'v hash_t) k = Inr (Some u)) \<or> k \<in> fst ` set es \<longrightarrow>
      (\<exists>u. hash_get h' k = Inr (Some u))"
    using hash_puts_present [OF hash_inv_init [OF assms(1)] assms(2)] by (elim exE conjE) (rule that)
  with assms(2) show ?thesis by (intro exI [of _ h']) simp
qed

theorem hash_no_key_lost_witness:
  "\<exists>h'. hash_puts (hash_init 16) [(''ab'', 1 :: nat), (''ba'', 2), (''ab'', 3)] = Inr h' \<and> hash_inv h' \<and>
    (\<forall>e \<in> set [(''ab'', 1 :: nat), (''ba'', 2), (''ab'', 3)]. \<exists>u. hash_get h' (fst e) = Inr (Some u))"
  by (rule hash_no_key_lost) (simp_all add: hash_key_ok_ascii)

text \<open>C31: \<open>hash_find_closest_entry_before\<close> returns an entry of the table whose value is the
  largest one not above the given address, and NULL exactly when every value is above it.\<close>
theorem hash_closest_correct:
  assumes "hash_inv h"
  shows "is_closest valof v (hash_entries h) (hash_find_closest_entry_before valof h v)"
  by (simp add: closest_eq [OF assms] fold_closest)

theorem hash_closest_correct_witness:
  "is_closest id 5 (hash_entries (hash_init 2)) (hash_find_closest_entry_before id (hash_init 2) 5)"
  by (rule hash_closest_correct [OF hash_inv_init]) simp

text \<open>A key whose bytes add up to a negative number (the characters of a UTF-8 path are
  negative as \<open>char\<close>) makes \<open>hash_get\<close> read outside the array, unless the sum is a
  multiple of the table size.\<close>
theorem hash_negative_key_out_of_bounds:
  assumes "hash_inv h" and "hashfn k < 0" and "\<not> hsz h dvd hashfn k"
  shows "hash_get h k = Inl OutOfBounds"
proof -
  have "hashfn k smod hsz h = - ((- hashfn k) mod hsz h)"
    using assms(1,2)
    by (simp add: hash_inv_def signed_modulo_int_def signed_divide_int_def)
  moreover have "(- hashfn k) mod hsz h > 0"
    using assms by (metis dvd_minus_iff hash_inv_def mod_0_imp_dvd order_le_less pos_mod_sign)
  ultimately show ?thesis
    using assms(1) by (simp add: hash_get_def hash_slot_def hash_inv_def Let_def)
qed

theorem hash_negative_key_out_of_bounds_witness:
  "hash_get (hash_init 4096 :: nat hash_t) (''/tmp/'' @ replicate 8 (CHR 0xC3)) = Inl OutOfBounds"
proof (rule hash_negative_key_out_of_bounds)
  show "hash_inv (hash_init 4096 :: nat hash_t)" by (simp add: hash_inv_init)
  have "hashfn (''/tmp/'' @ replicate 8 (CHR 0xC3)) = - 57"
    by (simp add: hashfn_def schar_def Let_def numeral_eq_Suc)
  then show "hashfn (''/tmp/'' @ replicate 8 (CHR 0xC3)) < 0"
    and "\<not> hsz (hash_init 4096 :: nat hash_t) dvd hashfn (''/tmp/'' @ replicate 8 (CHR 0xC3))"
    by (simp_all add: hash_init_def)
qed

end
