(* ===== verification/MemMap.thy ===== *)
theory MemMap
  imports Prelude
begin

text \<open>
  The registry of memory that belongs to TempleOS (\<open>lilith/task.c\<close>:
  \<open>templeos_mem_map\<close>, \<open>register_templeos_memory\<close>, \<open>unregister_templeos_memory\<close>,
  \<open>get_templeos_memory\<close>, \<open>is_templeos_memory\<close>). The array is represented by its
  initialised prefix \<open>mm_v\<close>, whose length is \<open>len\<close>; \<open>mm_alloc\<close> says that the pointer
  \<open>v\<close> is not NULL and \<open>mm_cap\<close> is the number of slots allocated.
\<close>

section \<open>State and operations\<close>

record mem_entry =
  me_mem :: u64
  me_sz :: u64
  me_used :: bool
  me_mmapped :: bool

record mem_map =
  mm_alloc :: bool
  mm_v :: "mem_entry list"
  mm_cap :: nat

definition TEMPLEOS_MEM_MAP_INITIAL_SIZE :: nat where
  "TEMPLEOS_MEM_MAP_INITIAL_SIZE = 20"

definition mem_map_init :: mem_map where
  "mem_map_init = \<lparr>mm_alloc = False, mm_v = [], mm_cap = 0\<rparr>"

abbreviation mm_len :: "mem_map \<Rightarrow> nat" where
  "mm_len m \<equiv> length (mm_v m)"

text \<open>The array before the new entry is stored: allocated on first use, doubled when full.\<close>

definition mem_map_grow :: "mem_map \<Rightarrow> mem_map" where
  "mem_map_grow m =
     (let m1 = (if \<not> mm_alloc m
                then \<lparr>mm_alloc = True, mm_v = [], mm_cap = TEMPLEOS_MEM_MAP_INITIAL_SIZE\<rparr>
                else m)
      in if mm_len m1 = mm_cap m1 then m1\<lparr>mm_cap := mm_cap m1 * 2\<rparr> else m1)"

definition register_templeos_memory :: "u64 \<Rightarrow> u64 \<Rightarrow> bool \<Rightarrow> mem_map \<Rightarrow> mem_map res" where
  "register_templeos_memory p sz is_mmapped m =
     (let m1 = mem_map_grow m
      in if mm_len m1 < mm_cap m1
         then Inr (m1\<lparr>mm_v := mm_v m1 @
                [\<lparr>me_mem = p, me_sz = sz, me_used = True, me_mmapped = is_mmapped\<rparr>]\<rparr>)
         else Inl OutOfBounds)"

definition entry_covers :: "u64 \<Rightarrow> mem_entry \<Rightarrow> bool" where
  "entry_covers p e \<longleftrightarrow> me_used e \<and> me_mem e \<le> p \<and> p < me_mem e + me_sz e"

text \<open>The pointer \<open>get_templeos_memory\<close> returns is the index of the entry.\<close>

fun find_index :: "('a \<Rightarrow> bool) \<Rightarrow> nat \<Rightarrow> 'a list \<Rightarrow> nat option" where
  "find_index P i [] = None"
| "find_index P i (x # xs) = (if P x then Some i else find_index P (Suc i) xs)"

definition get_templeos_memory :: "mem_map \<Rightarrow> u64 \<Rightarrow> nat option" where
  "get_templeos_memory m p = find_index (entry_covers p) 0 (mm_v m)"

definition is_templeos_memory :: "mem_map \<Rightarrow> u64 \<Rightarrow> bool" where
  "is_templeos_memory m p = (get_templeos_memory m p \<noteq> None)"

definition unregister_templeos_memory :: "u64 \<Rightarrow> mem_map \<Rightarrow> mem_map res" where
  "unregister_templeos_memory p m =
     (case get_templeos_memory m p of
        None \<Rightarrow> Inl NullDeref
      | Some i \<Rightarrow> Inr (m\<lparr>mm_v := (mm_v m)[i := (mm_v m ! i)\<lparr>me_used := False\<rparr>]\<rparr>))"

section \<open>Invariant and search\<close>

definition mem_map_inv :: "mem_map \<Rightarrow> bool" where
  "mem_map_inv m \<longleftrightarrow>
     (if mm_alloc m then TEMPLEOS_MEM_MAP_INITIAL_SIZE \<le> mm_cap m \<and> mm_len m \<le> mm_cap m
      else mm_v m = [])"

lemma mem_map_inv_init: "mem_map_inv mem_map_init"
  by (simp add: mem_map_inv_def mem_map_init_def)

lemma mem_map_grow:
  assumes "mem_map_inv m"
  shows "mm_v (mem_map_grow m) = mm_v m" "mm_len m < mm_cap (mem_map_grow m)"
    "mem_map_inv (mem_map_grow m)" "mm_alloc (mem_map_grow m)"
  using assms
  by (auto simp: mem_map_grow_def mem_map_inv_def TEMPLEOS_MEM_MAP_INITIAL_SIZE_def Let_def)

lemma register_ok:
  assumes "mem_map_inv m"
  obtains m' where "register_templeos_memory p sz b m = Inr m'" "mem_map_inv m'"
    "mm_v m' = mm_v m @ [\<lparr>me_mem = p, me_sz = sz, me_used = True, me_mmapped = b\<rparr>]"
  using mem_map_grow [OF assms] that
  by (auto simp: register_templeos_memory_def mem_map_inv_def Let_def)

lemma find_index_Some:
  "find_index P k xs = Some i \<longleftrightarrow>
     k \<le> i \<and> i - k < length xs \<and> P (xs ! (i - k)) \<and> (\<forall>j < i - k. \<not> P (xs ! j))"
proof (induction xs arbitrary: k)
  case Nil
  show ?case by simp
next
  case (Cons x xs)
  show ?case
  proof (cases "P x")
    case True
    have "i - k = 0" if "\<forall>j < i - k. \<not> P ((x # xs) ! j)"
      using that True by (metis gr0I nth_Cons_0)
    with True show ?thesis by auto
  next
    case False
    show ?thesis
    proof (cases "Suc k \<le> i")
      case True
      then obtain d where d: "i = Suc k + d" using le_Suc_ex by blast
      then show ?thesis using False Cons.IH [of "Suc k"]
        by (auto simp: less_Suc_eq_0_disj)
    next
      case F: False
      then show ?thesis using False Cons.IH [of "Suc k"] by (auto simp: not_le less_Suc_eq)
    qed
  qed
qed

lemma find_index_None: "find_index P k xs = None \<longleftrightarrow> (\<forall>x \<in> set xs. \<not> P x)"
  by (induction xs arbitrary: k) auto

lemma is_templeos_memory_iff:
  "is_templeos_memory m p \<longleftrightarrow> (\<exists>e \<in> set (mm_v m). entry_covers p e)"
  by (simp add: is_templeos_memory_def get_templeos_memory_def) (metis find_index_None not_None_eq)

lemma entry_covers_interval:
  assumes "unat p + unat sz < 2 ^ 64"
  shows "entry_covers q \<lparr>me_mem = p, me_sz = sz, me_used = True, me_mmapped = b\<rparr> \<longleftrightarrow>
    unat p \<le> unat q \<and> unat q < unat p + unat sz"
proof -
  have "unat (p + sz) = unat p + unat sz"
    using assms by (simp add: unat_word_ariths)
  then show ?thesis by (simp add: entry_covers_def word_le_nat_alt word_less_nat_alt)
qed

section \<open>Properties\<close>

text \<open>Registering a block (whose end does not wrap around) always succeeds without
  writing past the array, keeps the registry well formed, and makes exactly the addresses
  of the block TempleOS memory in addition to those that were.\<close>
theorem register_memory_covers:
  assumes "mem_map_inv m" and "unat p + unat sz < 2 ^ 64"
  shows "\<exists>m'. register_templeos_memory p sz b m = Inr m' \<and> mem_map_inv m' \<and>
    (\<forall>q. is_templeos_memory m' q \<longleftrightarrow>
       is_templeos_memory m q \<or> (unat p \<le> unat q \<and> unat q < unat p + unat sz))"
proof -
  obtain m' where m': "register_templeos_memory p sz b m = Inr m'" "mem_map_inv m'"
    "mm_v m' = mm_v m @ [\<lparr>me_mem = p, me_sz = sz, me_used = True, me_mmapped = b\<rparr>]"
    using register_ok [OF assms(1)] by blast
  then show ?thesis
    by (auto simp: is_templeos_memory_iff entry_covers_interval [OF assms(2)])
qed

theorem register_memory_covers_witness:
  "\<exists>m'. register_templeos_memory 0x40000 0x1000 True mem_map_init = Inr m' \<and> mem_map_inv m' \<and>
    (\<forall>q. is_templeos_memory m' q \<longleftrightarrow>
       is_templeos_memory mem_map_init q \<or>
       (unat (0x40000 :: u64) \<le> unat q \<and> unat q < unat (0x40000 :: u64) + unat (0x1000 :: u64)))"
  by (rule register_memory_covers) (simp_all add: mem_map_inv_init)

text \<open>Unregistering the address of a block frees the first used entry that covers it
  and no other; with no such entry the code dereferences NULL.\<close>
theorem unregister_memory_frees_first:
  assumes "mem_map_inv m"
  shows "if is_templeos_memory m p
    then \<exists>m' i. unregister_templeos_memory p m = Inr m' \<and> mem_map_inv m' \<and>
      i < length (mm_v m) \<and> entry_covers p (mm_v m ! i) \<and>
      (\<forall>j < i. \<not> entry_covers p (mm_v m ! j)) \<and>
      \<not> me_used (mm_v m' ! i) \<and> (\<forall>j. j \<noteq> i \<longrightarrow> mm_v m' ! j = mm_v m ! j)
    else unregister_templeos_memory p m = Inl NullDeref"
proof (cases "get_templeos_memory m p")
  case None
  then show ?thesis by (simp add: is_templeos_memory_def unregister_templeos_memory_def)
next
  case (Some i)
  then have i: "i < length (mm_v m)" "entry_covers p (mm_v m ! i)"
    "\<forall>j < i. \<not> entry_covers p (mm_v m ! j)"
    by (auto simp: get_templeos_memory_def find_index_Some)
  have "unregister_templeos_memory p m =
    Inr (m\<lparr>mm_v := (mm_v m)[i := (mm_v m ! i)\<lparr>me_used := False\<rparr>]\<rparr>)"
    using Some by (simp add: unregister_templeos_memory_def)
  moreover have "mem_map_inv (m\<lparr>mm_v := (mm_v m)[i := (mm_v m ! i)\<lparr>me_used := False\<rparr>]\<rparr>)"
    using assms by (auto simp: mem_map_inv_def)
  ultimately show ?thesis
    using Some i by (auto simp: is_templeos_memory_def nth_list_update)
qed

definition one_block_map :: mem_map where
  "one_block_map = \<lparr>mm_alloc = True,
     mm_v = [\<lparr>me_mem = 0x40000, me_sz = 0x1000, me_used = True, me_mmapped = True\<rparr>], mm_cap = 20\<rparr>"

theorem unregister_memory_frees_first_witness:
  "\<exists>m'. unregister_templeos_memory 0x40010 one_block_map = Inr m' \<and> mem_map_inv m' \<and>
     \<not> is_templeos_memory m' 0x40010"
proof -
  have inv: "mem_map_inv one_block_map"
    by (simp add: mem_map_inv_def one_block_map_def TEMPLEOS_MEM_MAP_INITIAL_SIZE_def)
  have cov: "is_templeos_memory one_block_map 0x40010"
    by (simp add: is_templeos_memory_iff one_block_map_def entry_covers_def)
  obtain m' i where "unregister_templeos_memory 0x40010 one_block_map = Inr m'" "mem_map_inv m'"
    using unregister_memory_frees_first [OF inv, of "0x40010"] cov by auto
  then show ?thesis
    by (auto simp: unregister_templeos_memory_def get_templeos_memory_def one_block_map_def
        is_templeos_memory_iff entry_covers_def)
qed

end
