(* ===== verification/TosTable.thy ===== *)
theory TosTable
  imports Prelude
begin

text \<open>
  TempleOS symbol tables as the C code sees them (\<open>lilith/templeos_hash_table.c\<close>,
  \<open>lilith/templeos_defs.h\<close>). A task has a chain of hash tables (its own, its parent's,
  \<dots>); each table is an array of \<open>mask + 1\<close> slots and each slot a list of entries linked by
  \<open>next\<close>. Entries are objects in a store, named by their address, because the program
  overwrites some of their fields. The iterator \<open>thiter\<close> walks all of them.
\<close>

unbundle bit_operations_syntax

section \<open>Entry types and flags\<close>

definition HTT_EXPORT_SYS_SYM :: u32 where "HTT_EXPORT_SYS_SYM = 0x00001"
definition HTT_IMPORT_SYS_SYM :: u32 where "HTT_IMPORT_SYS_SYM = 0x00002"
definition HTT_DEFINE_STR :: u32 where "HTT_DEFINE_STR = 0x00004"
definition HTT_GLBL_VAR :: u32 where "HTT_GLBL_VAR = 0x00008"
definition HTT_FUN :: u32 where "HTT_FUN = 0x00040"
definition HTT_MODULE :: u32 where "HTT_MODULE = 0x04000"
definition HTF_PUBLIC :: u32 where "HTF_PUBLIC = 0x01000000"
definition HTF_IMM :: u32 where "HTF_IMM = 0x08000000"

lemmas htt_defs = HTT_EXPORT_SYS_SYM_def HTT_IMPORT_SYS_SYM_def HTT_DEFINE_STR_def
  HTT_GLBL_VAR_def HTT_FUN_def HTT_MODULE_def HTF_PUBLIC_def HTF_IMM_def

text \<open>
  An entry. The C code casts a \<open>CHash *\<close> to \<open>CHashExport\<close>, \<open>CHashFun\<close>, \<open>CHashGeneric\<close> or
  \<open>CHashGlblVar\<close> and reads a field of that struct; the record has one field for each field
  the code reads after such a cast.
\<close>

record chash =
  he_str :: cstring
  he_type :: u32
  ex_val :: u64       \<comment> \<open>\<open>((struct CHashExport *)he)->val\<close>\<close>
  fn_exe_addr :: u64  \<comment> \<open>\<open>((struct CHashFun *)he)->exe_addr\<close>\<close>
  mod_data0 :: u64    \<comment> \<open>\<open>((struct CHashGeneric *)he)->user_data0\<close>\<close>
  gv_data_addr :: u64 \<comment> \<open>\<open>((struct CHashGlblVar *)he)->data_addr\<close>\<close>

type_synonym hstore = "u64 \<Rightarrow> chash"

record chashtable =
  ht_mask :: int
  ht_body :: "u64 list list"

text \<open>A chain of tables, linked by \<open>next\<close>; \<open>[]\<close> is NULL.\<close>

type_synonym tables = "chashtable list"

definition table_ok :: "chashtable \<Rightarrow> bool" where
  "table_ok h \<longleftrightarrow> int (length (ht_body h)) = ht_mask h + 1"

definition is_hash_type :: "chash \<Rightarrow> u32 \<Rightarrow> bool" where
  "is_hash_type he type = ((he_type he AND type) = type)"

section \<open>The iterator\<close>

record thiter =
  it_h :: tables       \<comment> \<open>the current table and those after it\<close>
  it_i :: int
  it_first :: bool
  it_he :: "u64 list"  \<comment> \<open>the current entry and those after it in its chain; \<open>[]\<close> is NULL\<close>

definition thiter_new :: "tables \<Rightarrow> thiter" where
  "thiter_new hash_table = \<lparr>it_h = hash_table, it_i = -1, it_first = True, it_he = []\<rparr>"

definition thiter_valid :: "thiter \<Rightarrow> bool" where
  "thiter_valid it = (it_h it \<noteq> [])"

definition thiter_next :: "thiter \<Rightarrow> thiter res" where
  "thiter_next it =
     (case it_h it of
        [] \<Rightarrow> Inr it
      | h # hs \<Rightarrow>
          (case it_he it of
             e # e' # es \<Rightarrow> Inr (it\<lparr>it_he := e' # es, it_first := False\<rparr>)
           | _ \<Rightarrow>
             (let i = it_i it + 1
              in if i \<ge> ht_mask h + 1
                 then Inr (it\<lparr>it_h := hs, it_i := -1, it_he := [], it_first := True\<rparr>)
                 else if 0 \<le> i \<and> i < int (length (ht_body h))
                 then Inr (it\<lparr>it_i := i, it_he := ht_body h ! nat i, it_first := True\<rparr>)
                 else Inl OutOfBounds)))"

text \<open>
  The loop \<open>for (it = thiter_new(..); thiter_valid(&it); thiter_next(&it))\<close> of all the
  clients: the body ends the loop with \<open>Inl\<close> (a \<open>return\<close> inside it) or goes on with \<open>Inr\<close>.
  It terminates because each step of the iterator moves on.
\<close>

definition table_room :: "thiter \<Rightarrow> nat" where
  "table_room it = (case it_h it of [] \<Rightarrow> 0 | h # _ \<Rightarrow> nat (ht_mask h + 1 - it_i it))"

lemma thiter_next_decreases:
  assumes "thiter_valid it" "thiter_next it = Inr it'"
  shows "(it', it) \<in> measures [\<lambda>it. length (it_h it), table_room, \<lambda>it. length (it_he it)]"
proof -
  obtain h hs where h: "it_h it = h # hs" using assms(1) by (cases "it_h it") (auto simp: thiter_valid_def)
  show ?thesis
    using assms(2)
    by (auto simp: thiter_next_def h table_room_def Let_def split: list.splits if_splits)
qed

function thiter_for :: "('s \<Rightarrow> thiter \<Rightarrow> 'r + 's) \<Rightarrow> 's \<Rightarrow> thiter \<Rightarrow> ('r + 's) res" where
  "thiter_for body s it =
     (if thiter_valid it then
        (case body s it of
           Inl r \<Rightarrow> Inr (Inl r)
         | Inr s' \<Rightarrow> (case thiter_next it of Inl e \<Rightarrow> Inl e | Inr it' \<Rightarrow> thiter_for body s' it'))
      else Inr (Inr s))"
  by pat_completeness auto
termination
  by (relation "inv_image (measures [\<lambda>it. length (it_h it), table_room, \<lambda>it. length (it_he it)])
        (\<lambda>(body, s, it). it)")
     (auto dest: thiter_next_decreases)

declare thiter_for.simps [simp del]

section \<open>What the iterator visits\<close>

text \<open>All entries of a chain of tables in the order of the walk, and a fold with early exit.\<close>

definition table_elems :: "tables \<Rightarrow> u64 list" where
  "table_elems hs = concat (map (\<lambda>h. concat (ht_body h)) hs)"

fun fold_exit :: "('s \<Rightarrow> 'a \<Rightarrow> 'r + 's) \<Rightarrow> 's \<Rightarrow> 'a list \<Rightarrow> 'r + 's" where
  "fold_exit f s [] = Inr s"
| "fold_exit f s (x # xs) = (case f s x of Inl r \<Rightarrow> Inl r | Inr s' \<Rightarrow> fold_exit f s' xs)"

text \<open>The entries that remain to be visited from a state of the iterator, the current one first.\<close>

definition iter_rest :: "thiter \<Rightarrow> u64 list" where
  "iter_rest it =
     (case it_h it of
        [] \<Rightarrow> []
      | h # hs \<Rightarrow> it_he it @ concat (drop (nat (it_i it + 1)) (ht_body h)) @ table_elems hs)"

definition iter_ok :: "thiter \<Rightarrow> bool" where
  "iter_ok it \<longleftrightarrow> (\<forall>h \<in> set (it_h it). table_ok h) \<and> -1 \<le> it_i it"

lemma iter_rest_new: "iter_rest (thiter_new hs) = table_elems hs"
  by (cases hs) (auto simp: iter_rest_def thiter_new_def table_elems_def)

lemma iter_ok_new: "\<forall>h \<in> set hs. table_ok h \<Longrightarrow> iter_ok (thiter_new hs)"
  by (simp add: iter_ok_def thiter_new_def)

lemma thiter_next_ok:
  assumes ok: "iter_ok it" and v: "thiter_valid it"
  shows "\<exists>it'. thiter_next it = Inr it' \<and> iter_ok it' \<and>
    iter_rest it' = (if it_he it = [] then iter_rest it else tl (iter_rest it))"
proof -
  obtain h hs where h: "it_h it = h # hs" using v by (cases "it_h it") (auto simp: thiter_valid_def)
  have tok: "int (length (ht_body h)) = ht_mask h + 1" and lo: "-1 \<le> it_i it"
    using ok h by (auto simp: iter_ok_def table_ok_def)
  let ?i = "it_i it + 1"
  show ?thesis
  proof (cases "\<exists>e e' es. it_he it = e # e' # es")
    case True
    then show ?thesis using ok h by (auto simp: thiter_next_def iter_ok_def iter_rest_def)
  next
    case False
    then have short: "it_he it = [] \<or> (\<exists>e. it_he it = [e])"
      by (metis neq_Nil_conv)
    show ?thesis
    proof (cases "?i \<ge> ht_mask h + 1")
      case True
      then have "drop (nat ?i) (ht_body h) = []" using tok by simp
      with True short ok h show ?thesis
        by (cases hs) (auto simp: thiter_next_def iter_ok_def iter_rest_def table_elems_def Let_def)
    next
      case F: False
      then have i: "nat ?i < length (ht_body h)" "0 \<le> ?i" using tok lo by auto
      have "drop (nat ?i) (ht_body h) = ht_body h ! nat ?i # drop (Suc (nat ?i)) (ht_body h)"
        by (rule Cons_nth_drop_Suc [OF i(1), symmetric])
      moreover have "nat (?i + 1) = Suc (nat ?i)" using i(2) by simp
      ultimately show ?thesis using F i short ok h
        by (auto simp: thiter_next_def iter_ok_def iter_rest_def Let_def)
    qed
  qed
qed

text \<open>
  A loop whose body does nothing at the positions without an entry is a fold over all the
  entries, with the early exits of the body.
\<close>

lemma thiter_for_fold:
  assumes "iter_ok it"
    and "\<And>s it. body s it = (case it_he it of [] \<Rightarrow> Inr s | e # _ \<Rightarrow> f s e)"
  shows "thiter_for body s it = Inr (fold_exit f s (iter_rest it))"
  using assms(1)
proof (induction it arbitrary: s rule: wf_induct_rule [OF wf_measures
    [of "[\<lambda>it. length (it_h it), table_room, \<lambda>it. length (it_he it)]"]])
  case (1 it)
  show ?case
  proof (cases "thiter_valid it")
    case False
    then show ?thesis
      by (subst thiter_for.simps) (auto simp: thiter_valid_def iter_rest_def)
  next
    case v: True
    from thiter_next_ok [OF "1.prems" v] obtain it' where it': "thiter_next it = Inr it'"
      "iter_ok it'"
      "iter_rest it' = (if it_he it = [] then iter_rest it else tl (iter_rest it))"
      by blast
    have IH: "thiter_for body s' it' = Inr (fold_exit f s' (iter_rest it'))" for s'
      by (rule "1.IH" [OF thiter_next_decreases [OF v it'(1)] it'(2)])
    show ?thesis
    proof (cases "it_he it")
      case Nil
      with IH it' v show ?thesis by (subst thiter_for.simps) (simp add: assms(2))
    next
      case (Cons e es)
      with v have "iter_rest it = e # iter_rest it'"
        using it'(3) by (auto simp: iter_rest_def thiter_valid_def split: list.splits)
      moreover have "body s it = f s e" by (simp add: assms(2) Cons)
      ultimately show ?thesis
        using IH it'(1) v by (subst thiter_for.simps) (cases "f s e"; simp)
    qed
  qed
qed

lemma thiter_for_new:
  assumes "\<forall>h \<in> set hs. table_ok h"
    and "\<And>s it. body s it = (case it_he it of [] \<Rightarrow> Inr s | e # _ \<Rightarrow> f s e)"
  shows "thiter_for body s (thiter_new hs) = Inr (fold_exit f s (table_elems hs))"
  using thiter_for_fold [OF iter_ok_new [OF assms(1)] assms(2)] by (simp add: iter_rest_new)

text \<open>A search: leave the loop at the first entry with a property.\<close>

lemma fold_exit_find:
  "fold_exit (\<lambda>s e. if P e then Inl (g e) else Inr s) s xs =
     (case find P xs of None \<Rightarrow> Inr s | Some e \<Rightarrow> Inl (g e))"
  by (induction xs) auto

lemma fold_exit_find_at:
  assumes "\<And>e. f s e = (if P e then Inl (g e) else Inr s)"
  shows "fold_exit f s xs = (case find P xs of None \<Rightarrow> Inr s | Some e \<Rightarrow> Inl (g e))"
  by (induction xs) (auto simp: assms)

lemma fold_exit_fold: "fold_exit (\<lambda>s e. Inr (f e s)) s xs = Inr (fold f xs s)"
  by (induction xs arbitrary: s) auto

section \<open>Properties\<close>

text \<open>C32: over well-formed tables the iterator loop always ends, never reads outside a
  bucket array, and visits every entry of every table of the chain exactly once, in slot
  and chain order.\<close>
theorem thiter_visits_all:
  assumes "\<forall>h \<in> set hs. table_ok h"
  shows "thiter_for (\<lambda>acc it. Inr (case it_he it of [] \<Rightarrow> acc | e # _ \<Rightarrow> acc @ [e])) []
     (thiter_new hs) = Inr (Inr (table_elems hs) :: unit + u64 list)"
proof -
  have "thiter_for (\<lambda>acc it. Inr (case it_he it of [] \<Rightarrow> acc | e # _ \<Rightarrow> acc @ [e])) []
     (thiter_new hs) =
     Inr (fold_exit (\<lambda>acc e. Inr (acc @ [e])) [] (table_elems hs) :: unit + u64 list)"
    by (rule thiter_for_new [OF assms]) (simp split: list.splits)
  moreover have "fold (\<lambda>e acc. acc @ [e]) xs ys = ys @ xs" for xs ys :: "u64 list"
    by (induction xs arbitrary: ys) auto
  ultimately show ?thesis by (simp add: fold_exit_fold)
qed

definition two_tables :: tables where
  "two_tables = [\<lparr>ht_mask = 1, ht_body = [[16, 32], []]\<rparr>, \<lparr>ht_mask = 0, ht_body = [[48]]\<rparr>]"

theorem thiter_visits_all_witness:
  "thiter_for (\<lambda>acc it. Inr (case it_he it of [] \<Rightarrow> acc | e # _ \<Rightarrow> acc @ [e])) []
     (thiter_new two_tables) = Inr (Inr [16, 32, 48] :: unit + u64 list)"
proof -
  have "\<forall>h \<in> set two_tables. table_ok h" by (simp add: two_tables_def table_ok_def)
  then show ?thesis
    using thiter_visits_all [of two_tables] by (simp add: two_tables_def table_elems_def)
qed

end
