(* ===== verification/CMem.thy ===== *)
theory CMem
  imports Prelude
begin

text \<open>
  The byte memory the program reads and writes through pointers: 64-bit addresses that
  wrap around, little-endian loads and stores of 8, 32 and 64 bits, and NUL-terminated
  strings in memory. The laws are collected in \<open>mem_simps\<close>: a load sees the last store
  to the same region, and no store outside it.
\<close>

section \<open>Bytes of integers\<close>

type_synonym mem = "u64 \<Rightarrow> u8"

fun le_val :: "u8 list \<Rightarrow> nat" where
  "le_val [] = 0"
| "le_val (b # bs) = unat b + 256 * le_val bs"

fun le_bytes :: "nat \<Rightarrow> nat \<Rightarrow> u8 list" where
  "le_bytes 0 v = []"
| "le_bytes (Suc n) v = of_nat v # le_bytes n (v div 256)"

lemma length_le_bytes [simp]: "length (le_bytes n v) = n"
  by (induction n v rule: le_bytes.induct) auto

lemma le_val_le_bytes: "le_val (le_bytes n v) = v mod 256 ^ n"
proof (induction n v rule: le_bytes.induct)
  case (1 v)
  show ?case by simp
next
  case (2 n v)
  then show ?case
    by (simp add: unat_of_nat mod_mult2_eq)
qed

lemma le_val_bound: "le_val bs < 256 ^ length bs"
proof (induction bs)
  case Nil
  show ?case by simp
next
  case (Cons b bs)
  with unat_bound8 [of b] show ?case by simp
qed

lemma le_bytes_le_val: "le_bytes (length bs) (le_val bs) = bs"
proof (induction bs)
  case Nil
  show ?case by simp
next
  case (Cons b bs)
  note b = unat_bound8 [of b]
  have "(unat b + 256 * le_val bs) div 256 = le_val bs" using b by simp
  moreover have "(of_nat (unat b + 256 * le_val bs) :: u8) = b"
  proof -
    have z: "(of_nat 256 :: u8) = 0" by simp
    show ?thesis by (simp only: of_nat_add of_nat_mult z) simp
  qed
  ultimately show ?case using Cons by simp
qed

lemma le_bytes_4: "le_bytes 4 v =
   [of_nat v, of_nat (v div 256), of_nat (v div 256 div 256), of_nat (v div 256 div 256 div 256)]"
proof -
  have "(4 :: nat) = Suc (Suc (Suc (Suc 0)))" by simp
  then show ?thesis by (simp only: le_bytes.simps)
qed

section \<open>Regions\<close>

text \<open>\<open>in_region a n x\<close>: the address \<open>x\<close> is one of the \<open>n\<close> addresses from \<open>a\<close>.\<close>

definition in_region :: "u64 \<Rightarrow> nat \<Rightarrow> u64 \<Rightarrow> bool" where
  "in_region a n x \<longleftrightarrow> unat (x - a) < n"

definition disjoint_regions :: "u64 \<Rightarrow> nat \<Rightarrow> u64 \<Rightarrow> nat \<Rightarrow> bool" where
  "disjoint_regions a n b k \<longleftrightarrow> (\<forall>x. \<not> (in_region a n x \<and> in_region b k x))"

lemma in_region_0 [simp]: "\<not> in_region a 0 x"
  by (simp add: in_region_def)

lemma in_region_Suc: "in_region a (Suc n) x \<longleftrightarrow> x = a \<or> (in_region (a + 1) n x \<and> x \<noteq> a)"
proof (cases "x = a")
  case True
  then show ?thesis by (simp add: in_region_def)
next
  case False
  then have "x - a \<noteq> 0" by simp
  then have "unat (x - (a + 1)) = unat (x - a) - 1" "unat (x - a) > 0"
    by (simp_all add: word_sub_offset unat_sub_one unat_gt_0)
  with False show ?thesis by (auto simp: in_region_def)
qed

lemma in_region_add:
  "i < n \<Longrightarrow> n \<le> 2 ^ 64 \<Longrightarrow> in_region a n (a + of_nat i)"
  by (simp add: in_region_def unat_of_nat)

lemma in_region_shift:
  assumes "in_region (a + of_nat i) n x" and "i + n \<le> m" and "m \<le> 2 ^ 64"
  shows "in_region a m x"
proof -
  have x: "x - a = of_nat i + (x - (a + of_nat i))" by simp
  have "unat (x - a) \<le> unat (of_nat i :: u64) + unat (x - (a + of_nat i))"
    by (subst x) (rule unat_add_le)
  with unat_of_nat_le [of i, where ?'a = 64] assms show ?thesis by (simp add: in_region_def)
qed

section \<open>Loads and stores\<close>

fun ld_bytes :: "mem \<Rightarrow> u64 \<Rightarrow> nat \<Rightarrow> u8 list" where
  "ld_bytes m a 0 = []"
| "ld_bytes m a (Suc n) = m a # ld_bytes m (a + 1) n"

fun st_bytes :: "mem \<Rightarrow> u64 \<Rightarrow> u8 list \<Rightarrow> mem" where
  "st_bytes m a [] = m"
| "st_bytes m a (b # bs) = st_bytes (m(a := b)) (a + 1) bs"

definition ld32 :: "mem \<Rightarrow> u64 \<Rightarrow> u32" where
  "ld32 m a = of_nat (le_val (ld_bytes m a 4))"

definition ld64 :: "mem \<Rightarrow> u64 \<Rightarrow> u64" where
  "ld64 m a = of_nat (le_val (ld_bytes m a 8))"

definition st32 :: "mem \<Rightarrow> u64 \<Rightarrow> u32 \<Rightarrow> mem" where
  "st32 m a v = st_bytes m a (le_bytes 4 (unat v))"

definition st64 :: "mem \<Rightarrow> u64 \<Rightarrow> u64 \<Rightarrow> mem" where
  "st64 m a v = st_bytes m a (le_bytes 8 (unat v))"

lemma length_ld_bytes [simp]: "length (ld_bytes m a n) = n"
  by (induction m a n rule: ld_bytes.induct) auto

lemma ld_bytes_nth: "i < n \<Longrightarrow> ld_bytes m a n ! i = m (a + of_nat i)"
proof (induction m a n arbitrary: i rule: ld_bytes.induct)
  case (1 m a)
  then show ?case by simp
next
  case (2 m a n)
  then show ?case by (cases i) (auto simp: algebra_simps)
qed

lemma ld_bytes_append:
  "ld_bytes m a (i + j) = ld_bytes m a i @ ld_bytes m (a + of_nat i) j"
  by (induction m a i rule: ld_bytes.induct) (auto simp: algebra_simps)

lemma ld_bytes_cong:
  "(\<And>x. in_region a n x \<Longrightarrow> m x = m' x) \<Longrightarrow> n \<le> 2 ^ 64 \<Longrightarrow> ld_bytes m a n = ld_bytes m' a n"
  by (rule nth_equalityI) (auto simp: ld_bytes_nth in_region_add)

lemma st_bytes_apply:
  "length bs \<le> 2 ^ 64 \<Longrightarrow>
   st_bytes m a bs x = (if in_region a (length bs) x then bs ! unat (x - a) else m x)"
proof (induction bs arbitrary: m a)
  case Nil
  then show ?case by simp
next
  case (Cons b bs)
  show ?case
  proof (cases "x = a")
    case True
    have "unat (a - (a + 1)) = 2 ^ 64 - 1"
      by (simp add: unsigned_minus_1_eq_mask mask_eq_exp_minus_1)
    with Cons True show ?thesis by (auto simp: in_region_def)
  next
    case False
    then have "x - a \<noteq> 0" by simp
    then have "unat (x - (a + 1)) = unat (x - a) - 1" "unat (x - a) > 0"
      by (simp_all add: word_sub_offset unat_sub_one unat_gt_0)
    with False Cons show ?thesis by (auto simp: in_region_def nth_Cons')
  qed
qed

lemma st_bytes_other [mem_simps]:
  "\<not> in_region a (length bs) x \<Longrightarrow> length bs \<le> 2 ^ 64 \<Longrightarrow> st_bytes m a bs x = m x"
  by (simp add: st_bytes_apply)

lemma ld_st_bytes_same [mem_simps]:
  "length bs \<le> 2 ^ 64 \<Longrightarrow> ld_bytes (st_bytes m a bs) a (length bs) = bs"
  by (rule nth_equalityI)
     (auto simp: ld_bytes_nth st_bytes_apply in_region_def unat_of_nat)

lemma ld_st_bytes_other [mem_simps]:
  assumes "disjoint_regions a n b (length bs)" "length bs \<le> 2 ^ 64" "n \<le> 2 ^ 64"
  shows "ld_bytes (st_bytes m b bs) a n = ld_bytes m a n"
  using assms by (intro ld_bytes_cong) (auto simp: st_bytes_apply disjoint_regions_def)

lemma ld64_st64 [mem_simps]: "ld64 (st64 m a v) a = v"
  using ld_st_bytes_same [of "le_bytes 8 (unat v)" m a] unat_bound64 [of v]
  by (simp add: ld64_def st64_def le_val_le_bytes)

lemma ld32_st32 [mem_simps]: "ld32 (st32 m a v) a = v"
  using ld_st_bytes_same [of "le_bytes 4 (unat v)" m a] unat_bound32 [of v]
  by (simp add: ld32_def st32_def le_val_le_bytes)

lemma st64_other [mem_simps]: "\<not> in_region a 8 x \<Longrightarrow> st64 m a v x = m x"
  by (simp add: st64_def st_bytes_other)

lemma st32_other [mem_simps]: "\<not> in_region a 4 x \<Longrightarrow> st32 m a v x = m x"
  by (simp add: st32_def st_bytes_other)

lemma ld64_cong: "(\<And>x. in_region a 8 x \<Longrightarrow> m x = m' x) \<Longrightarrow> ld64 m a = ld64 m' a"
  unfolding ld64_def by (subst ld_bytes_cong [of a 8 m m']) auto

lemma ld32_cong: "(\<And>x. in_region a 4 x \<Longrightarrow> m x = m' x) \<Longrightarrow> ld32 m a = ld32 m' a"
  unfolding ld32_def by (subst ld_bytes_cong [of a 4 m m']) auto

section \<open>NUL-terminated strings in memory\<close>

text \<open>
  Reading the string at an address is the loop of \<open>strlen\<close>, \<open>strcmp\<close> and \<open>strcpy\<close>; it does
  not return when no NUL byte follows, so it is a partial function.
\<close>

partial_function (option) cstr_at :: "mem \<Rightarrow> u64 \<Rightarrow> cstring option" where
  "cstr_at m a =
     (if m a = 0 then Some []
      else Option.bind (cstr_at m (a + 1)) (\<lambda>s. Some (char_of (unat (m a)) # s)))"

definition cstr_bytes :: "cstring \<Rightarrow> u8 list" where
  "cstr_bytes s = map (\<lambda>c. of_nat (of_char c)) s @ [0]"

lemma length_cstr_bytes [simp]: "length (cstr_bytes s) = Suc (length s)"
  by (simp add: cstr_bytes_def)

lemma char_of_byte [simp]: "char_of (unat (of_nat (of_char c) :: u8)) = c"
  by (simp add: unat_of_nat)

lemma byte_of_char_eq_0: "(of_nat (of_char c) :: u8) = 0 \<longleftrightarrow> c = CHR 0x00"
proof
  assume z: "(of_nat (of_char c) :: u8) = 0"
  have "c = char_of (unat (of_nat (of_char c) :: u8))" by simp
  then show "c = CHR 0x00" unfolding z by (simp add: char_of_def)
qed simp

lemma cstr_at_ld:
  "cstring_ok s \<Longrightarrow> ld_bytes m a (Suc (length s)) = cstr_bytes s \<Longrightarrow> cstr_at m a = Some s"
proof (induction s arbitrary: a)
  case Nil
  then show ?case by (subst cstr_at.simps) (simp add: cstr_bytes_def)
next
  case (Cons c s)
  from Cons.prems have a: "m a = of_nat (of_char c)" and c: "c \<noteq> CHR 0x00" and s: "cstring_ok s"
    and rest: "ld_bytes m (a + 1) (Suc (length s)) = cstr_bytes s"
    by (auto simp: cstr_bytes_def cstring_ok_def)
  from Cons.IH [OF s rest] a c show ?case
    by (subst cstr_at.simps) (simp add: byte_of_char_eq_0)
qed

section \<open>Known bytes at an address\<close>

definition bytes_at :: "mem \<Rightarrow> u64 \<Rightarrow> u8 list \<Rightarrow> bool" where
  "bytes_at m a bs \<longleftrightarrow> ld_bytes m a (length bs) = bs"

lemma bytes_at_Nil [simp]: "bytes_at m a []"
  by (simp add: bytes_at_def)

lemma bytes_at_Cons: "bytes_at m a (b # bs) \<longleftrightarrow> m a = b \<and> bytes_at m (a + 1) bs"
  by (simp add: bytes_at_def)

lemma bytes_at_append:
  "bytes_at m a (xs @ ys) \<longleftrightarrow> bytes_at m a xs \<and> bytes_at m (a + of_nat (length xs)) ys"
  by (simp add: bytes_at_def ld_bytes_append)

lemma ld32_bytes_at: "bytes_at m a (le_bytes 4 (unat v)) \<Longrightarrow> ld32 m a = v"
  using unat_bound32 [of v] by (simp add: bytes_at_def ld32_def le_val_le_bytes)

lemma ld64_bytes_at: "bytes_at m a (le_bytes 8 (unat v)) \<Longrightarrow> ld64 m a = v"
  using unat_bound64 [of v] by (simp add: bytes_at_def ld64_def le_val_le_bytes)

lemma cstr_at_bytes_at: "cstring_ok s \<Longrightarrow> bytes_at m a (cstr_bytes s) \<Longrightarrow> cstr_at m a = Some s"
  by (rule cstr_at_ld) (simp_all add: bytes_at_def)

lemma bytes_at_st32:
  assumes "bytes_at m p bs" "disjoint_regions a 4 p (length bs)" "length bs \<le> 2 ^ 64"
  shows "bytes_at (st32 m a v) p bs"
proof -
  have "ld_bytes (st32 m a v) p (length bs) = ld_bytes m p (length bs)"
    using assms(2,3) by (intro ld_bytes_cong st32_other) (auto simp: disjoint_regions_def)
  with assms(1) show ?thesis by (simp add: bytes_at_def)
qed

lemma disjoint_regions_sub:
  assumes "disjoint_regions a n p k" "i + j \<le> k" "k \<le> 2 ^ 64"
  shows "disjoint_regions a n (p + of_nat i) j"
  using assms in_region_shift [of p i j _ k] by (auto simp: disjoint_regions_def)

lemma disjoint_regions_sym: "disjoint_regions a n p k \<longleftrightarrow> disjoint_regions p k a n"
  by (auto simp: disjoint_regions_def)

lemma ld32_st32_other:
  assumes "disjoint_regions a 4 b 4"
  shows "ld32 (st32 m b v) a = ld32 m a"
  using assms by (intro ld32_cong) (auto simp: st32_other disjoint_regions_def)

text \<open>Regions that do not wrap around are intervals.\<close>

lemma in_region_interval:
  assumes "unat a + n \<le> 2 ^ 64"
  shows "in_region a n x \<longleftrightarrow> unat a \<le> unat x \<and> unat x < unat a + n"
proof (cases "unat a \<le> unat x")
  case True
  then have "unat (x - a) = unat x - unat a" by (simp add: unat_sub_if_size)
  with True show ?thesis by (auto simp: in_region_def)
next
  case False
  then have "unat (x - a) = 2 ^ 64 + unat x - unat a" by (simp add: unat_sub_if_size word_size)
  with False assms show ?thesis by (simp add: in_region_def)
qed

lemma disjoint_regionsI:
  assumes "unat a + n \<le> unat b" "unat b + k \<le> 2 ^ 64"
  shows "disjoint_regions a n b k"
proof -
  have "unat a + n \<le> 2 ^ 64" using assms(1) unat_bound64 [of b] by linarith
  with assms show ?thesis
    unfolding disjoint_regions_def by (auto simp: in_region_interval)
qed

lemma st_bytes_append: "st_bytes (st_bytes m a xs) (a + of_nat (length xs)) ys = st_bytes m a (xs @ ys)"
  by (induction xs arbitrary: m a) (simp_all flip: add.assoc)

lemma bytes_at_st_bytes_same: "length bs \<le> 2 ^ 64 \<Longrightarrow> bytes_at (st_bytes m a bs) a bs"
  by (simp add: bytes_at_def ld_st_bytes_same)

lemma bytes_at_st_bytes_other:
  "bytes_at m p bs \<Longrightarrow> disjoint_regions p (length bs) a (length cs) \<Longrightarrow> length bs \<le> 2 ^ 64 \<Longrightarrow>
   length cs \<le> 2 ^ 64 \<Longrightarrow> bytes_at (st_bytes m a cs) p bs"
  by (simp add: bytes_at_def ld_st_bytes_other)

lemma bytes_at_st64:
  "bytes_at m p bs \<Longrightarrow> disjoint_regions p (length bs) a 8 \<Longrightarrow> length bs \<le> 2 ^ 64 \<Longrightarrow>
   bytes_at (st64 m a w) p bs"
  unfolding st64_def by (rule bytes_at_st_bytes_other) simp_all

lemma ld64_st64_other: "disjoint_regions a 8 b 8 \<Longrightarrow> ld64 (st64 m b v) a = ld64 m a"
  by (rule ld64_cong) (auto simp: st64_other disjoint_regions_def)

lemma ld64_eq_iff: "ld64 m a = v \<longleftrightarrow> bytes_at m a (le_bytes 8 (unat v))"
proof
  assume v: "ld64 m a = v"
  have "le_val (ld_bytes m a 8) < 2 ^ 64" using le_val_bound [of "ld_bytes m a 8"] by simp
  then have "unat v = le_val (ld_bytes m a 8)"
    unfolding v [symmetric] ld64_def by (simp only: unat_of_nat) simp
  then have "le_bytes 8 (unat v) = ld_bytes m a 8"
    using le_bytes_le_val [of "ld_bytes m a 8"] by simp
  then show "bytes_at m a (le_bytes 8 (unat v))" by (simp add: bytes_at_def)
qed (rule ld64_bytes_at)

lemma le_bytes_8: "le_bytes 8 v = le_bytes 4 v @ le_bytes 4 (v div 2 ^ 32)"
proof -
  have "(8 :: nat) = Suc (Suc (Suc (Suc (Suc (Suc (Suc (Suc 0)))))))"
    "(4 :: nat) = Suc (Suc (Suc (Suc 0)))" by simp_all
  then show ?thesis by (simp only: le_bytes.simps append.simps) (simp add: div_mult2_eq [symmetric])
qed

end
