(* ===== verification/Machine.thy ===== *)
theory Machine
  imports CMem HashTable MemMap TosTable
begin

text \<open>
  The state the C code of Lilith works on: the byte memory shared with TempleOS, the kernel
  symbol table \<open>symbols\<close> with the \<open>export_t\<close> objects it points to (\<open>lilith/load.c\<close>,
  \<open>lilith/defs.h\<close>), the registry of TempleOS memory, the TempleOS symbol table objects,
  and what was printed. A pointer to an \<open>export_t\<close> is its index in \<open>exports\<close>. Memory
  handed out by \<open>mmap\<close> and \<open>malloc\<close> comes from the environment: \<open>alloc n sz\<close> is the
  address returned by the \<open>n\<close>-th request, which asks for \<open>sz\<close> bytes.
\<close>

unbundle bit_operations_syntax

section \<open>State\<close>

record export_t =
  ex_type :: u32
  ex_value :: u64
  ex_module_base :: u64

record machine =
  mmem :: mem
  symbols :: "nat hash_t"
  exports :: "export_t list"
  memmap :: mem_map
  allocs :: nat
  hobjs :: hstore
  task_tables :: "u64 \<Rightarrow> tables"
  console :: "cstring list"

type_synonym allocator = "nat \<Rightarrow> u64 \<Rightarrow> u64"

definition say :: "cstring \<Rightarrow> machine \<Rightarrow> machine" where
  "say msg s = s\<lparr>console := console s @ [msg]\<rparr>"

text \<open>\<open>mmap\<close> and \<open>malloc\<close>.\<close>

definition os_alloc :: "allocator \<Rightarrow> u64 \<Rightarrow> machine \<Rightarrow> u64 \<times> machine" where
  "os_alloc alloc sz s = (alloc (allocs s) sz, s\<lparr>allocs := Suc (allocs s)\<rparr>)"

definition mregister :: "u64 \<Rightarrow> u64 \<Rightarrow> bool \<Rightarrow> machine \<Rightarrow> machine res" where
  "mregister p sz is_mmapped s =
     res_bind (register_templeos_memory p sz is_mmapped (memmap s)) (\<lambda>mm. Inr (s\<lparr>memmap := mm\<rparr>))"

section \<open>The kernel symbol table\<close>

definition symbols_put :: "cstring \<Rightarrow> u32 \<Rightarrow> u64 \<Rightarrow> u64 \<Rightarrow> machine \<Rightarrow> (nat \<times> machine) res" where
  "symbols_put key type val module_base s =
     (let ex = length (exports s);
          s1 = s\<lparr>exports := exports s @
                 [\<lparr>ex_type = type, ex_value = val, ex_module_base = module_base\<rparr>]\<rparr>
      in res_bind (hash_put (symbols s1) key ex) (\<lambda>h. Inr (ex, s1\<lparr>symbols := h\<rparr>)))"

text \<open>\<open>ex->val = v\<close>\<close>

definition set_export_val :: "nat \<Rightarrow> u64 \<Rightarrow> machine \<Rightarrow> machine" where
  "set_export_val ex v s = s\<lparr>exports := (exports s)[ex := (exports s ! ex)\<lparr>ex_value := v\<rparr>]\<rparr>"

text \<open>\<open>hash_get(&symbols, name)\<close> and \<open>hash_get(&symbols, name)->val\<close>\<close>

definition sym_get :: "machine \<Rightarrow> cstring \<Rightarrow> export_t option res" where
  "sym_get s name = res_bind (hash_get (symbols s) name)
     (\<lambda>r. Inr (map_option (\<lambda>p. exports s ! p) r))"

definition sym_val :: "machine \<Rightarrow> cstring \<Rightarrow> u64 res" where
  "sym_val s name = res_bind (sym_get s name)
     (\<lambda>r. case r of None \<Rightarrow> Inl NullDeref | Some e \<Rightarrow> Inr (ex_value e))"

section \<open>Invariant\<close>

text \<open>The table is well formed and its pointers point to \<open>export_t\<close> objects.\<close>

definition syms_inv :: "machine \<Rightarrow> bool" where
  "syms_inv s \<longleftrightarrow> hash_inv (symbols s) \<and>
     (\<forall>k p. hash_key_ok k \<longrightarrow> hash_get (symbols s) k = Inr (Some p) \<longrightarrow> p < length (exports s))"

lemma sym_get_cong:
  "symbols s' = symbols s \<Longrightarrow> exports s' = exports s \<Longrightarrow> sym_get s' = sym_get s"
  by (rule ext) (simp add: sym_get_def)

lemma symbols_put_ok:
  assumes inv: "syms_inv s" and k: "hash_key_ok k" and fresh: "sym_get s k = Inr None"
  obtains s' where "symbols_put k t v b s = Inr (length (exports s), s')" "syms_inv s'"
    "exports s' = exports s @ [\<lparr>ex_type = t, ex_value = v, ex_module_base = b\<rparr>]"
    "s' = s\<lparr>exports := exports s', symbols := symbols s'\<rparr>"
    "hash_get (symbols s') k = Inr (Some (length (exports s)))"
    "\<And>k'. hash_key_ok k' \<Longrightarrow> k' \<noteq> k \<Longrightarrow> hash_get (symbols s') k' = hash_get (symbols s) k'"
proof -
  have hi: "hash_inv (symbols s)" using inv by (simp add: syms_inv_def)
  obtain h where h: "hash_put (symbols s) k (length (exports s)) = Inr h" "hash_inv h"
    using ht.put_total [OF hi k] by blast
  have f: "hash_get (symbols s) k = Inr None"
    using fresh by (auto simp: sym_get_def res_bind_Inr_iff)
  have g: "hash_get h k = Inr (Some (length (exports s)))"
    by (rule ht.get_put_fresh [OF hi k f h(1)])
  have o: "hash_get h k' = hash_get (symbols s) k'" if "hash_key_ok k'" "k' \<noteq> k" for k'
    by (rule ht.get_put_other [OF hi k that h(1)])
  have b: "p < Suc (length (exports s))"
    if "hash_key_ok k'" "hash_get h k' = Inr (Some p)" for k' p
    using that g o inv by (cases "k' = k") (auto simp: syms_inv_def less_Suc_eq)
  show ?thesis
    by (rule that [of "s\<lparr>exports := exports s @
        [\<lparr>ex_type = t, ex_value = v, ex_module_base = b\<rparr>], symbols := h\<rparr>"])
       (use h g o b in \<open>auto simp: symbols_put_def syms_inv_def\<close>)
qed

lemma symbols_put_values:
  assumes inv: "syms_inv s" and k: "hash_key_ok k" and fresh: "sym_get s k = Inr None"
    and put: "symbols_put k t v b s = Inr (ex, s1)"
    and s2: "s2 = set_export_val ex w s1"
  shows "sym_val s2 k = Inr w"
    and "syms_inv s2"
    and "\<And>k'. hash_key_ok k' \<Longrightarrow> k' \<noteq> k \<Longrightarrow> sym_get s2 k' = sym_get s k'"
    and "sym_get s2 k = Inr (Some \<lparr>ex_type = t, ex_value = w, ex_module_base = b\<rparr>)"
proof -
  obtain s' where s': "symbols_put k t v b s = Inr (length (exports s), s')" "syms_inv s'"
    "exports s' = exports s @ [\<lparr>ex_type = t, ex_value = v, ex_module_base = b\<rparr>]"
    "hash_get (symbols s') k = Inr (Some (length (exports s)))"
    "\<And>k'. hash_key_ok k' \<Longrightarrow> k' \<noteq> k \<Longrightarrow> hash_get (symbols s') k' = hash_get (symbols s) k'"
    using symbols_put_ok [OF inv k fresh] by metis
  have eq: "ex = length (exports s)" "s1 = s'" using put s'(1) by auto
  have exp: "exports s2 = exports s @ [\<lparr>ex_type = t, ex_value = w, ex_module_base = b\<rparr>]"
    using s'(3) by (simp add: s2 eq set_export_val_def list_update_append)
  have sym: "symbols s2 = symbols s'" by (simp add: s2 eq set_export_val_def)
  show g: "sym_get s2 k = Inr (Some \<lparr>ex_type = t, ex_value = w, ex_module_base = b\<rparr>)"
    using s'(4) by (simp add: sym_get_def sym exp)
  then show "sym_val s2 k = Inr w" by (simp add: sym_val_def)
  show "syms_inv s2" using s'(2,3) by (simp add: syms_inv_def sym exp)
  show "sym_get s2 k' = sym_get s k'" if kk: "hash_key_ok k'" "k' \<noteq> k" for k'
  proof -
    obtain r where r: "hash_get (symbols s) k' = Inr r"
      using hash_get_ok [of "symbols s" k'] inv kk(1) by (auto simp: syms_inv_def)
    then have "\<And>p. r = Some p \<Longrightarrow> p < length (exports s)"
      using inv kk(1) by (auto simp: syms_inv_def)
    with r s'(5) [OF kk] show ?thesis
      by (cases r) (auto simp: sym_get_def sym exp nth_append)
  qed
qed

end
