(* ===== verification/Loader.thy ===== *)
theory Loader
  imports Machine
begin

text \<open>
  \<open>lilith/load.c\<close>: the first relocation pass over the patch table of a TempleOS binary
  (\<open>load_pass1\<close>, \<open>load_one_import\<close>), which reads the table from memory while it patches
  the module and fills the symbol table. The patch table format is the datatype \<open>pentry\<close>
  with its byte encoding, and the main theorem says that running the parser on an encoded
  table performs the entries in order.
\<close>

unbundle bit_operations_syntax

section \<open>Entry types\<close>

definition IET_END :: u8 where "IET_END = 0"
definition IET_REL_I0 :: u8 where "IET_REL_I0 = 2"
definition IET_IMM_I64 :: u8 where "IET_IMM_I64 = 11"
definition IET_REL32_EXPORT :: u8 where "IET_REL32_EXPORT = 16"
definition IET_IMM32_EXPORT :: u8 where "IET_IMM32_EXPORT = 17"
definition IET_REL64_EXPORT :: u8 where "IET_REL64_EXPORT = 18"
definition IET_IMM64_EXPORT :: u8 where "IET_IMM64_EXPORT = 19"
definition IET_ABS_ADDR :: u8 where "IET_ABS_ADDR = 20"
definition IET_CODE_HEAP :: u8 where "IET_CODE_HEAP = 21"
definition IET_ZEROED_CODE_HEAP :: u8 where "IET_ZEROED_CODE_HEAP = 22"
definition IET_DATA_HEAP :: u8 where "IET_DATA_HEAP = 23"
definition IET_ZEROED_DATA_HEAP :: u8 where "IET_ZEROED_DATA_HEAP = 24"
definition IET_MAIN :: u8 where "IET_MAIN = 25"

lemmas iet_defs = IET_END_def IET_REL_I0_def IET_IMM_I64_def IET_REL32_EXPORT_def
  IET_IMM32_EXPORT_def IET_REL64_EXPORT_def IET_IMM64_EXPORT_def IET_ABS_ADDR_def
  IET_CODE_HEAP_def IET_ZEROED_CODE_HEAP_def IET_DATA_HEAP_def IET_ZEROED_DATA_HEAP_def
  IET_MAIN_def

definition EXPORT_TYPE :: u32 where
  "EXPORT_TYPE = HTT_EXPORT_SYS_SYM OR HTF_IMM"

text \<open>The case labels 16 to 19 and 2 to 11 of the \<open>switch\<close>.\<close>

definition is_export_type :: "u8 \<Rightarrow> bool" where
  "is_export_type et \<longleftrightarrow> IET_REL32_EXPORT \<le> et \<and> et \<le> IET_IMM64_EXPORT"

definition is_import_type :: "u8 \<Rightarrow> bool" where
  "is_import_type et \<longleftrightarrow> IET_REL_I0 \<le> et \<and> et \<le> IET_IMM_I64"

section \<open>The parser\<close>

text \<open>
  \<open>load_one_import\<close> skips an import entry and the nameless entries after it. It returns the
  new value of \<open>*psrc\<close>: the next named entry, or the byte before the terminator.
\<close>

partial_function (option) load_one_import_loop :: "mem \<Rightarrow> u64 \<Rightarrow> bool \<Rightarrow> u64 option" where
  "load_one_import_loop m src first =
     (if m src = 0 then Some (src - 1)
      else Option.bind (cstr_at m (src + 5)) (\<lambda>st.
        if st \<noteq> [] \<and> \<not> first then Some (src + 5 - 5)
        else load_one_import_loop m (src + 5 + (of_nat (length st) + 1)) (first \<and> st = [])))"

definition load_one_import :: "mem \<Rightarrow> u64 \<Rightarrow> u64 option" where
  "load_one_import m psrc = load_one_import_loop m psrc True"

text \<open>The loop of an \<open>IET_ABS_ADDR\<close> entry: \<open>cnt\<close> offsets follow, each relocated.\<close>

fun abs_addr_loop :: "nat \<Rightarrow> u64 \<Rightarrow> u64 \<Rightarrow> mem \<Rightarrow> u64 \<times> mem" where
  "abs_addr_loop 0 module_base cur m = (cur, m)"
| "abs_addr_loop (Suc cnt) module_base cur m =
     (let off = ld32 m cur;
          ptr2 = module_base + ucast off
      in abs_addr_loop cnt module_base (cur + 4)
           (st32 m ptr2 (ld32 m ptr2 + ucast module_base)))"

definition add_heap_symbol :: "cstring \<Rightarrow> u64 \<Rightarrow> machine \<Rightarrow> machine res" where
  "add_heap_symbol st ptr3 s =
     (if st \<noteq> [] then res_bind (symbols_put st EXPORT_TYPE ptr3 0 s) (\<lambda>r. Inr (snd r)) else Inr s)"

text \<open>
  The body of the loop of \<open>load_pass1\<close> for one entry at \<open>cur\<close>, whose type byte is not
  \<open>IET_END\<close>: the new position and state. \<open>None\<close> when a string has no terminator.
\<close>

definition load_entry :: "allocator \<Rightarrow> u64 \<Rightarrow> u64 \<Rightarrow> machine \<Rightarrow> (u64 \<times> machine) res option" where
  "load_entry alloc module_base cur s =
     (let etype = mmem s cur;
          i = ld32 (mmem s) (cur + 1);
          st_ptr = cur + 5
      in Option.bind (cstr_at (mmem s) st_ptr) (\<lambda>st.
        let cur = st_ptr + (of_nat (length st) + 1)
        in if is_export_type etype then
             Some (res_bind (symbols_put st EXPORT_TYPE 0 module_base s) (\<lambda>(ex, s1).
               Inr (cur,
                 if etype = IET_IMM32_EXPORT \<or> etype = IET_IMM64_EXPORT
                 then set_export_val ex (ucast i) s1
                 else set_export_val ex (module_base + ucast i) s1)))
           else if is_import_type etype then
             Option.bind (load_one_import (mmem s) (st_ptr - 5)) (\<lambda>cur. Some (Inr (cur, s)))
           else if etype = IET_ABS_ADDR then
             (let (cur', m) = abs_addr_loop (unat i) module_base cur (mmem s)
              in Some (Inr (cur', s\<lparr>mmem := m\<rparr>)))
           else if etype = IET_CODE_HEAP \<or> etype = IET_ZEROED_CODE_HEAP then
             (let sz = ld32 (mmem s) cur;
                  (ptr3, s1) = os_alloc alloc (scast sz) s
              in Some (res_bind (add_heap_symbol st ptr3 s1) (\<lambda>s2.
                   Inr (cur + 4 + 4 * ucast i, s2))))
           else if etype = IET_DATA_HEAP \<or> etype = IET_ZEROED_DATA_HEAP then
             (let sz = ld64 (mmem s) cur;
                  (ptr3, s1) = os_alloc alloc sz s
              in Some (res_bind (mregister ptr3 sz False s1) (\<lambda>s2.
                   res_bind (add_heap_symbol st ptr3 s2) (\<lambda>s3.
                     Inr (cur + 8 + 4 * ucast i, s3)))))
           else if etype = IET_MAIN then Some (Inr (cur, s))
           else Some (Inl (ExitWith EXIT_FAILURE))))"

partial_function (option) load_pass1_loop ::
  "allocator \<Rightarrow> u64 \<Rightarrow> u64 \<Rightarrow> machine \<Rightarrow> machine res option" where
  "load_pass1_loop alloc module_base cur s =
     (if mmem s cur = IET_END then Some (Inr s)
      else Option.bind (load_entry alloc module_base cur s) (\<lambda>r.
        case r of Inl e \<Rightarrow> Some (Inl e)
        | Inr (cur', s') \<Rightarrow> load_pass1_loop alloc module_base cur' s'))"

definition load_pass1 :: "allocator \<Rightarrow> u64 \<Rightarrow> u64 \<Rightarrow> machine \<Rightarrow> machine res option" where
  "load_pass1 alloc patch_table module_base s = load_pass1_loop alloc module_base patch_table s"

section \<open>The patch table format\<close>

text \<open>
  The entries of a patch table (the format is described in \<open>lilith/README.md\<close>). An import
  entry names a symbol; the places of further uses of the same symbol follow as entries
  without a name.
\<close>

datatype pentry =
    PExport u8 u32 cstring
  | PImport u8 u32 cstring "(u8 \<times> u32) list"
  | PAbs "u32 list"
  | PCodeHeap u8 u32 cstring "u32 list"
  | PDataHeap u8 u64 cstring "u32 list"
  | PMain u32

definition enc_head :: "u8 \<Rightarrow> u32 \<Rightarrow> cstring \<Rightarrow> u8 list" where
  "enc_head et i st = et # le_bytes 4 (unat i) @ cstr_bytes st"

definition enc_uses :: "(u8 \<times> u32) list \<Rightarrow> u8 list" where
  "enc_uses uses = concat (map (\<lambda>(et, i). enc_head et i []) uses)"

definition enc_offs :: "u32 list \<Rightarrow> u8 list" where
  "enc_offs offs = concat (map (\<lambda>off. le_bytes 4 (unat off)) offs)"

fun enc_entry :: "pentry \<Rightarrow> u8 list" where
  "enc_entry (PExport et i n) = enc_head et i n"
| "enc_entry (PImport et i n uses) = enc_head et i n @ enc_uses uses"
| "enc_entry (PAbs offs) = enc_head IET_ABS_ADDR (of_nat (length offs)) [] @ enc_offs offs"
| "enc_entry (PCodeHeap et sz n offs) =
     enc_head et (of_nat (length offs)) n @ le_bytes 4 (unat sz) @ enc_offs offs"
| "enc_entry (PDataHeap et sz n offs) =
     enc_head et (of_nat (length offs)) n @ le_bytes 8 (unat sz) @ enc_offs offs"
| "enc_entry (PMain i) = enc_head IET_MAIN i []"

definition enc_table :: "pentry list \<Rightarrow> u8 list" where
  "enc_table es = concat (map enc_entry es) @ [IET_END]"

fun entry_ok :: "pentry \<Rightarrow> bool" where
  "entry_ok (PExport et i n) \<longleftrightarrow> is_export_type et \<and> n \<noteq> [] \<and> cstring_ok n"
| "entry_ok (PImport et i n uses) \<longleftrightarrow>
     is_import_type et \<and> n \<noteq> [] \<and> cstring_ok n \<and> (\<forall>(et', i') \<in> set uses. is_import_type et')"
| "entry_ok (PAbs offs) \<longleftrightarrow> length offs < 2 ^ 32"
| "entry_ok (PCodeHeap et sz n offs) \<longleftrightarrow>
     (et = IET_CODE_HEAP \<or> et = IET_ZEROED_CODE_HEAP) \<and> cstring_ok n \<and> length offs < 2 ^ 32"
| "entry_ok (PDataHeap et sz n offs) \<longleftrightarrow>
     (et = IET_DATA_HEAP \<or> et = IET_ZEROED_DATA_HEAP) \<and> cstring_ok n \<and> length offs < 2 ^ 32"
| "entry_ok (PMain i) \<longleftrightarrow> True"

text \<open>
  The skipping of nameless entries after an import would swallow a nameless entry with a
  body; such an entry must not follow an import (and main entries) directly.
\<close>

fun nameless_body :: "pentry \<Rightarrow> bool" where
  "nameless_body (PAbs offs) = True"
| "nameless_body (PCodeHeap et sz n offs) = (n = [])"
| "nameless_body (PDataHeap et sz n offs) = (n = [])"
| "nameless_body _ = False"

fun order_ok :: "bool \<Rightarrow> pentry list \<Rightarrow> bool" where
  "order_ok after_import [] = True"
| "order_ok after_import (PMain i # es) = order_ok after_import es"
| "order_ok after_import (PImport et i n uses # es) = order_ok True es"
| "order_ok after_import (e # es) = (\<not> (after_import \<and> nameless_body e) \<and> order_ok False es)"

section \<open>What an entry does\<close>

fun perform_abs :: "u64 \<Rightarrow> u32 list \<Rightarrow> mem \<Rightarrow> mem" where
  "perform_abs module_base [] m = m"
| "perform_abs module_base (off # offs) m =
     perform_abs module_base offs
       (st32 m (module_base + ucast off) (ld32 m (module_base + ucast off) + ucast module_base))"

definition export_value :: "u64 \<Rightarrow> u8 \<Rightarrow> u32 \<Rightarrow> u64" where
  "export_value module_base et i =
     (if et = IET_IMM32_EXPORT \<or> et = IET_IMM64_EXPORT then ucast i else module_base + ucast i)"

fun perform :: "allocator \<Rightarrow> u64 \<Rightarrow> pentry \<Rightarrow> machine \<Rightarrow> machine res" where
  "perform alloc base (PExport et i n) s =
     res_bind (symbols_put n EXPORT_TYPE 0 base s) (\<lambda>(ex, s1).
       Inr (set_export_val ex (export_value base et i) s1))"
| "perform alloc base (PImport et i n uses) s = Inr s"
| "perform alloc base (PAbs offs) s = Inr (s\<lparr>mmem := perform_abs base offs (mmem s)\<rparr>)"
| "perform alloc base (PCodeHeap et sz n offs) s =
     (let (p, s1) = os_alloc alloc (scast sz) s in add_heap_symbol n p s1)"
| "perform alloc base (PDataHeap et sz n offs) s =
     (let (p, s1) = os_alloc alloc sz s in
      res_bind (mregister p sz False s1) (add_heap_symbol n p))"
| "perform alloc base (PMain i) s = Inr s"

fun perform_all :: "allocator \<Rightarrow> u64 \<Rightarrow> pentry list \<Rightarrow> machine \<Rightarrow> machine res" where
  "perform_all alloc base [] s = Inr s"
| "perform_all alloc base (e # es) s =
     res_bind (perform alloc base e s) (perform_all alloc base es)"

fun entry_offs :: "pentry \<Rightarrow> u32 list" where
  "entry_offs (PAbs offs) = offs"
| "entry_offs _ = []"

definition table_offs :: "pentry list \<Rightarrow> u32 list" where
  "table_offs es = concat (map entry_offs es)"

section \<open>Parsing encoded entries\<close>

lemma length_enc_head [simp]: "length (enc_head et i st) = 6 + length st"
  by (simp add: enc_head_def)

lemma length_enc_offs [simp]: "length (enc_offs offs) = 4 * length offs"
  by (induction offs) (auto simp: enc_offs_def)

lemma enc_uses_simps [simp]:
  "enc_uses [] = []" "enc_uses ((et, i) # us) = enc_head et i [] @ enc_uses us"
  by (simp_all add: enc_uses_def)

lemma enc_uses_append: "enc_uses (us @ vs) = enc_uses us @ enc_uses vs"
  by (simp add: enc_uses_def)

lemma enc_head_bytes:
  assumes "bytes_at m cur (enc_head et i st)" "cstring_ok st"
  shows "m cur = et" "ld32 m (cur + 1) = i" "cstr_at m (cur + 5) = Some st"
proof -
  have "m cur = et \<and> bytes_at m (cur + 1) (le_bytes 4 (unat i)) \<and>
      bytes_at m (cur + 5) (cstr_bytes st)"
    using assms(1) by (simp add: enc_head_def bytes_at_Cons bytes_at_append add.commute)
  with assms(2) show "m cur = et" "ld32 m (cur + 1) = i" "cstr_at m (cur + 5) = Some st"
    by (auto intro: ld32_bytes_at cstr_at_bytes_at)
qed

lemma head_next: "(cur :: u64) + 5 + (of_nat (length st) + 1) = cur + of_nat (6 + length st)"
  by simp

lemma cstring_ok_Nil [simp]: "cstring_ok []"
  by (simp add: cstring_ok_def)

lemma import_skip_uses:
  assumes "bytes_at m src (enc_uses us)" "\<forall>(et, i) \<in> set us. et \<noteq> 0"
  shows "load_one_import_loop m src False =
    load_one_import_loop m (src + of_nat (length (enc_uses us))) False"
  using assms
proof (induction us arbitrary: src)
  case Nil
  then show ?case by simp
next
  case (Cons u us)
  obtain et i where u: "u = (et, i)" by fastforce
  with Cons.prems have hd: "bytes_at m src (enc_head et i [])" and et: "et \<noteq> 0"
    and tl: "bytes_at m (src + 6) (enc_uses us)"
    by (auto simp: bytes_at_append)
  have "load_one_import_loop m src False = load_one_import_loop m (src + 6) False"
    using enc_head_bytes [OF hd] et
    by (subst load_one_import_loop.simps) (simp add: add.commute)
  also have "\<dots> = load_one_import_loop m (src + 6 + of_nat (length (enc_uses us))) False"
    by (rule Cons.IH [OF tl]) (use Cons.prems in auto)
  finally show ?case by (simp add: u add.assoc)
qed

lemma import_skip_group:
  assumes "bytes_at m src (enc_head et i n @ enc_uses us)" "cstring_ok n" "n \<noteq> []" "et \<noteq> 0"
    and "\<forall>(et, i) \<in> set us. et \<noteq> 0"
  shows "load_one_import m src =
    load_one_import_loop m (src + of_nat (length (enc_head et i n @ enc_uses us))) False"
proof -
  have hd: "bytes_at m src (enc_head et i n)"
    and tl: "bytes_at m (src + of_nat (6 + length n)) (enc_uses us)"
    using assms(1) by (simp_all add: bytes_at_append)
  have "load_one_import m src = load_one_import_loop m (src + of_nat (6 + length n)) False"
    using enc_head_bytes [OF hd assms(2)] assms(3,4)
    unfolding load_one_import_def head_next [symmetric]
    by (subst load_one_import_loop.simps) simp
  also note import_skip_uses [OF tl assms(5)]
  finally show ?thesis by (simp add: add.assoc)
qed

lemma import_stop_end: "m src = 0 \<Longrightarrow> load_one_import_loop m src False = Some (src - 1)"
  by (subst load_one_import_loop.simps) simp

lemma import_stop_named:
  assumes "bytes_at m src (enc_head et i n)" "cstring_ok n" "n \<noteq> []" "et \<noteq> 0"
  shows "load_one_import_loop m src False = Some src"
  using enc_head_bytes [OF assms(1,2)] assms(3,4)
  by (subst load_one_import_loop.simps) simp

lemma bytes_at_last:
  assumes "bytes_at m a bs" "bs \<noteq> []"
  shows "m (a + of_nat (length bs) - 1) = last bs"
proof -
  obtain xs x where bs: "bs = xs @ [x]" using assms(2) by (metis rev_exhaust)
  with assms(1) show ?thesis by (simp add: bytes_at_append bytes_at_Cons)
qed

lemma last_enc_head: "last (enc_head et i n) = 0"
  by (simp add: enc_head_def cstr_bytes_def)

lemma last_enc_group: "last (enc_head et i n @ enc_uses us) = 0"
proof (induction us rule: rev_induct)
  case Nil
  show ?case by (simp add: last_enc_head)
next
  case (snoc u us)
  obtain e j where "u = (e, j)" by fastforce
  then have "enc_head et i n @ enc_uses (us @ [u]) = (enc_head et i n @ enc_uses us) @ enc_head e j []"
    by (simp add: enc_uses_append)
  moreover have "enc_head e j [] \<noteq> []" by (simp add: enc_head_def)
  ultimately show ?case by (metis last_appendR last_enc_head)
qed

section \<open>The relocation loop\<close>

lemma bytes_at_perform_abs:
  assumes "bytes_at m p bs" "length bs \<le> 2 ^ 64"
    and "\<forall>off \<in> set offs. disjoint_regions (base + ucast off) 4 p (length bs)"
  shows "bytes_at (perform_abs base offs m) p bs"
  using assms by (induction offs arbitrary: m) (auto simp: bytes_at_st32)

lemma abs_addr_loop_eq:
  assumes "bytes_at m cur (enc_offs offs)" "4 * length offs \<le> 2 ^ 64"
    and "\<forall>off \<in> set offs. disjoint_regions (base + ucast off) 4 cur (4 * length offs)"
  shows "abs_addr_loop (length offs) base cur m =
    (cur + of_nat (4 * length offs), perform_abs base offs m)"
  using assms
proof (induction offs arbitrary: cur m)
  case Nil
  then show ?case by simp
next
  case (Cons off offs)
  let ?m = "st32 m (base + ucast off) (ld32 m (base + ucast off) + ucast base)"
  have hd: "ld32 m cur = off" and tl: "bytes_at m (cur + 4) (enc_offs offs)"
    using Cons.prems(1) by (auto simp: enc_offs_def bytes_at_append intro: ld32_bytes_at)
  have sub: "\<forall>o' \<in> set (off # offs). disjoint_regions (base + ucast o') 4 (cur + 4) (4 * length offs)"
    using Cons.prems(2,3) disjoint_regions_sub [of _ 4 cur _ 4] by fastforce
  have "bytes_at ?m (cur + 4) (enc_offs offs)"
    using tl sub Cons.prems(2) by (intro bytes_at_st32) auto
  from Cons.IH [OF this] sub Cons.prems(2) hd show ?case
    by (simp add: Let_def algebra_simps)
qed

section \<open>One entry\<close>

lemma export_type_facts: "is_export_type et \<Longrightarrow> et \<noteq> 0"
  by (auto simp: is_export_type_def iet_defs)

lemma import_type_facts:
  assumes "is_import_type et"
  shows "et \<noteq> 0" "\<not> is_export_type et"
proof -
  from assms have "2 \<le> et" "et \<le> 11" by (auto simp: is_import_type_def iet_defs)
  then have "unat et \<ge> 2" "unat et \<le> 11" by (auto simp: word_le_nat_alt)
  then show "et \<noteq> 0" "\<not> is_export_type et"
    by (auto simp: is_export_type_def iet_defs word_le_nat_alt)
qed

fun is_import :: "pentry \<Rightarrow> bool" where
  "is_import (PImport et i n us) = True"
| "is_import _ = False"

lemma ucast_len: "l < 2 ^ 32 \<Longrightarrow> (ucast (of_nat l :: u32) :: u64) = of_nat l"
  by (simp add: unsigned_of_nat take_bit_nat_eq_self)

lemma code_heap_facts:
  "et = IET_CODE_HEAP \<or> et = IET_ZEROED_CODE_HEAP \<Longrightarrow>
   \<not> is_export_type et \<and> \<not> is_import_type et \<and> et \<noteq> IET_ABS_ADDR \<and> et \<noteq> 0"
  by (auto simp: iet_defs is_export_type_def is_import_type_def)

lemma data_heap_facts:
  "et = IET_DATA_HEAP \<or> et = IET_ZEROED_DATA_HEAP \<Longrightarrow>
   \<not> is_export_type et \<and> \<not> is_import_type et \<and> et \<noteq> IET_ABS_ADDR \<and>
   \<not> (et = IET_CODE_HEAP \<or> et = IET_ZEROED_CODE_HEAP) \<and> et \<noteq> 0"
  by (auto simp: iet_defs is_export_type_def is_import_type_def)

lemma code_heap_next:
  "l < 2 ^ 32 \<Longrightarrow> cur + of_nat (6 + k) + 4 + 4 * ucast (of_nat l :: u32) =
     (cur + of_nat (10 + k + 4 * l) :: u64)"
  by (simp add: ucast_len)

lemma data_heap_next:
  "l < 2 ^ 32 \<Longrightarrow> cur + of_nat (6 + k) + 8 + 4 * ucast (of_nat l :: u32) =
     (cur + of_nat (14 + k + 4 * l) :: u64)"
  by (simp add: ucast_len)

lemma unat_len: "l < 2 ^ 32 \<Longrightarrow> unat (of_nat l :: u32) = l"
  by (simp add: unat_of_nat)

lemma load_entry_export:
  assumes "bytes_at (mmem s) cur (enc_head et i n)" "entry_ok (PExport et i n)"
  shows "load_entry alloc base cur s =
    Some (res_bind (perform alloc base (PExport et i n) s)
      (\<lambda>s'. Inr (cur + of_nat (length (enc_entry (PExport et i n))), s')))"
proof -
  have n: "cstring_ok n" using assms(2) by simp
  note hd = enc_head_bytes [OF assms(1) n]
  note ty = export_type_facts [of et]
  show ?thesis
    using assms(2) hd ty
    by (cases "symbols_put n EXPORT_TYPE 0 base s")
       (auto simp: load_entry_def export_value_def Let_def head_next)
qed

lemma load_entry_main:
  assumes "bytes_at (mmem s) cur (enc_head IET_MAIN i [])"
  shows "load_entry alloc base cur s =
    Some (res_bind (perform alloc base (PMain i) s)
      (\<lambda>s'. Inr (cur + of_nat (length (enc_entry (PMain i))), s')))"
  using enc_head_bytes [OF assms]
  by (simp add: load_entry_def Let_def head_next iet_defs is_export_type_def is_import_type_def)

lemma load_entry_abs:
  assumes "bytes_at (mmem s) cur (enc_entry (PAbs offs))" "length offs < 2 ^ 32"
    and "\<forall>off \<in> set offs. disjoint_regions (base + ucast off) 4 cur (6 + 4 * length offs)"
  shows "load_entry alloc base cur s =
    Some (res_bind (perform alloc base (PAbs offs) s)
      (\<lambda>s'. Inr (cur + of_nat (length (enc_entry (PAbs offs))), s')))"
proof -
  have hd: "bytes_at (mmem s) cur (enc_head IET_ABS_ADDR (of_nat (length offs)) [])"
    and tl: "bytes_at (mmem s) (cur + 6) (enc_offs offs)"
    using assms(1) by (simp_all add: bytes_at_append)
  have "\<forall>off \<in> set offs. disjoint_regions (base + ucast off) 4 (cur + 6) (4 * length offs)"
    using assms(2,3) disjoint_regions_sub [of _ 4 cur "6 + 4 * length offs" 6 "4 * length offs"]
    by fastforce
  from abs_addr_loop_eq [OF tl _ this] assms(2)
  have "abs_addr_loop (length offs) base (cur + 6) (mmem s) =
    (cur + 6 + of_nat (4 * length offs), perform_abs base offs (mmem s))" by simp
  with enc_head_bytes [OF hd] show ?thesis
    by (simp add: load_entry_def Let_def head_next iet_defs is_export_type_def is_import_type_def unat_len [OF assms(2)] add.assoc)
qed

lemma load_entry_code_heap:
  assumes "bytes_at (mmem s) cur (enc_entry (PCodeHeap et sz n offs))"
    and "entry_ok (PCodeHeap et sz n offs)"
  shows "load_entry alloc base cur s =
    Some (res_bind (perform alloc base (PCodeHeap et sz n offs) s)
      (\<lambda>s'. Inr (cur + of_nat (length (enc_entry (PCodeHeap et sz n offs))), s')))"
proof -
  have n: "cstring_ok n" and l: "length offs < 2 ^ 32" using assms(2) by auto
  have hd: "bytes_at (mmem s) cur (enc_head et (of_nat (length offs)) n)"
    and sz: "ld32 (mmem s) (cur + of_nat (6 + length n)) = sz"
    using assms(1) by (auto simp: bytes_at_append intro: ld32_bytes_at)
  have ty: "et = IET_CODE_HEAP \<or> et = IET_ZEROED_CODE_HEAP" using assms(2) by simp
  then have f: "\<not> is_export_type et" "\<not> is_import_type et" "et \<noteq> IET_ABS_ADDR"
    using code_heap_facts by blast+
  have len: "length (enc_entry (PCodeHeap et sz n offs)) = 10 + length n + 4 * length offs" by simp
  show ?thesis
    unfolding load_entry_def Let_def enc_head_bytes [OF hd n] bind.bind_lunit head_next sz len
      if_not_P [OF f(1)] if_not_P [OF f(2)] if_not_P [OF f(3)] if_P [OF ty] code_heap_next [OF l]
    by (simp add: os_alloc_def)
qed

lemma load_entry_data_heap:
  assumes "bytes_at (mmem s) cur (enc_entry (PDataHeap et sz n offs))"
    and "entry_ok (PDataHeap et sz n offs)"
  shows "load_entry alloc base cur s =
    Some (res_bind (perform alloc base (PDataHeap et sz n offs) s)
      (\<lambda>s'. Inr (cur + of_nat (length (enc_entry (PDataHeap et sz n offs))), s')))"
proof -
  have n: "cstring_ok n" and l: "length offs < 2 ^ 32" using assms(2) by auto
  have hd: "bytes_at (mmem s) cur (enc_head et (of_nat (length offs)) n)"
    and sz: "ld64 (mmem s) (cur + of_nat (6 + length n)) = sz"
    using assms(1) by (auto simp: bytes_at_append intro: ld64_bytes_at)
  have bb: "res_bind (res_bind r f) g = res_bind r (\<lambda>x. res_bind (f x) g)"
    for r :: "machine res" and f :: "machine \<Rightarrow> machine res" and g :: "machine \<Rightarrow> (u64 \<times> machine) res"
    by (cases r) auto
  have ty: "et = IET_DATA_HEAP \<or> et = IET_ZEROED_DATA_HEAP" using assms(2) by simp
  then have f: "\<not> is_export_type et" "\<not> is_import_type et" "et \<noteq> IET_ABS_ADDR"
    "\<not> (et = IET_CODE_HEAP \<or> et = IET_ZEROED_CODE_HEAP)"
    using data_heap_facts by blast+
  have len: "length (enc_entry (PDataHeap et sz n offs)) = 14 + length n + 4 * length offs" by simp
  show ?thesis
    unfolding load_entry_def Let_def enc_head_bytes [OF hd n] bind.bind_lunit head_next sz len
      if_not_P [OF f(1)] if_not_P [OF f(2)] if_not_P [OF f(3)] if_not_P [OF f(4)] if_P [OF ty] data_heap_next [OF l]
    by (simp add: os_alloc_def bb)
qed

lemma load_entry_perform:
  assumes "bytes_at (mmem s) cur (enc_entry e)" "entry_ok e" "\<not> is_import e"
    and "\<forall>off \<in> set (entry_offs e). disjoint_regions (base + ucast off) 4 cur (length (enc_entry e))"
  shows "load_entry alloc base cur s =
    Some (res_bind (perform alloc base e s) (\<lambda>s'. Inr (cur + of_nat (length (enc_entry e)), s')))"
proof (cases e)
  case (PExport et i n)
  with assms show ?thesis using load_entry_export [of s cur et i n] by simp
next
  case (PImport et i n us)
  with assms(3) show ?thesis by simp
next
  case (PAbs offs)
  with assms show ?thesis using load_entry_abs [of s cur offs base] by (simp del: enc_entry.simps) simp
next
  case (PCodeHeap et sz n offs)
  with assms show ?thesis using load_entry_code_heap [of s cur et sz n offs] by simp
next
  case (PDataHeap et sz n offs)
  with assms show ?thesis using load_entry_data_heap [of s cur et sz n offs] by simp
next
  case (PMain i)
  with assms show ?thesis using load_entry_main [of s cur i] by simp
qed

lemma entry_type_nonzero:
  assumes "bytes_at m cur (enc_entry e)" "entry_ok e"
  shows "m cur \<noteq> IET_END"
  using assms export_type_facts import_type_facts(1)
  by (cases e) (auto simp: enc_head_def bytes_at_Cons bytes_at_append iet_defs)

lemma symbols_put_mmem: "symbols_put k t v b s = Inr (ex, s') \<Longrightarrow> mmem s' = mmem s"
  by (auto simp: symbols_put_def res_bind_Inr_iff Let_def)

lemma add_heap_symbol_mmem: "add_heap_symbol n p s = Inr s' \<Longrightarrow> mmem s' = mmem s"
  by (auto simp: add_heap_symbol_def res_bind_Inr_iff symbols_put_mmem split: if_splits)

lemma perform_mmem:
  assumes "perform alloc base e s = Inr s'"
  shows "mmem s' = perform_abs base (entry_offs e) (mmem s)"
  using assms
  by (cases e) (auto simp: res_bind_Inr_iff os_alloc_def mregister_def set_export_val_def
      dest!: symbols_put_mmem add_heap_symbol_mmem)

lemma nameless_named:
  assumes "entry_ok e" "\<not> nameless_body e" "\<And>i. e \<noteq> PMain i"
  obtains et i n r where "enc_entry e = enc_head et i n @ r" "cstring_ok n" "n \<noteq> []" "et \<noteq> 0"
proof (cases e)
  case (PExport et i n)
  with assms that [of et i n "[]"] export_type_facts show ?thesis by auto
next
  case (PImport et i n us)
  with assms that [of et i n "enc_uses us"] import_type_facts show ?thesis by auto
next
  case (PCodeHeap et sz n offs)
  with assms that [of et "of_nat (length offs)" n "le_bytes 4 (unat sz) @ enc_offs offs"]
    code_heap_facts [of et] show ?thesis by auto
next
  case (PDataHeap et sz n offs)
  with assms that [of et "of_nat (length offs)" n "le_bytes 8 (unat sz) @ enc_offs offs"]
    data_heap_facts [of et] show ?thesis by auto
qed (use assms in auto)

text \<open>The main entries that follow an import are skipped by \<open>load_one_import\<close> too.\<close>

fun mains :: "pentry list \<Rightarrow> (u8 \<times> u32) list" where
  "mains (PMain i # es) = (IET_MAIN, i) # mains es"
| "mains es = []"

fun after_mains :: "pentry list \<Rightarrow> pentry list" where
  "after_mains (PMain i # es) = after_mains es"
| "after_mains es = es"

lemma mains_enc:
  "concat (map enc_entry es) = enc_uses (mains es) @ concat (map enc_entry (after_mains es))"
  by (induction es rule: mains.induct) auto

lemma mains_facts:
  "perform_all alloc base (after_mains es) s = perform_all alloc base es s"
  "length (after_mains es) \<le> length es" "set (after_mains es) \<subseteq> set es"
  "\<forall>(et, i) \<in> set (mains es). et \<noteq> 0"
  "table_offs (after_mains es) = table_offs es"
  "order_ok b es = order_ok b (after_mains es)"
  by (induction es rule: mains.induct) (auto simp: iet_defs table_offs_def)

lemma after_mains_head: "after_mains es = e # es' \<Longrightarrow> e \<noteq> PMain i"
  by (induction es rule: mains.induct) auto

lemma order_after_import:
  assumes "order_ok True (e # es)" "\<And>i. e \<noteq> PMain i"
  shows "\<not> nameless_body e" "order_ok False (e # es)"
  using assms by (cases e; auto)+

lemma import_next:
  assumes b: "bytes_at m cur (enc_head et i n @ enc_uses us @ concat (map enc_entry es) @ [0])"
    and n: "cstring_ok n" "n \<noteq> []" "et \<noteq> 0" and us: "\<forall>(et, i) \<in> set us. et \<noteq> 0"
    and ok: "\<forall>e \<in> set es. entry_ok e" and ord: "order_ok True es"
    and hd: "\<And>e es' i. es = e # es' \<Longrightarrow> e \<noteq> PMain i"
  shows "if es = [] then \<exists>cur'. load_one_import m cur = Some cur' \<and> m cur' = 0
     else load_one_import m cur = Some (cur + of_nat (length (enc_head et i n @ enc_uses us)))"
proof -
  let ?g = "enc_head et i n @ enc_uses us"
  let ?c = "cur + of_nat (length ?g)"
  have g: "bytes_at m cur ?g" and r: "bytes_at m ?c (concat (map enc_entry es) @ [0])"
    using b by (auto simp: bytes_at_append add.assoc)
  have skip: "load_one_import m cur = load_one_import_loop m ?c False"
    by (rule import_skip_group [OF g n us])
  show ?thesis
  proof (cases es)
    case Nil
    have "m (?c - 1) = last ?g" by (rule bytes_at_last [OF g]) (simp add: enc_head_def)
    moreover have "m ?c = 0" using r Nil by (simp add: bytes_at_Cons)
    ultimately show ?thesis using Nil skip last_enc_group import_stop_end by metis
  next
    case (Cons e es')
    have nl: "\<not> nameless_body e" using order_after_import(1) ord hd Cons by blast
    obtain et' i' n' r' where e: "enc_entry e = enc_head et' i' n' @ r'" "cstring_ok n'" "n' \<noteq> []" "et' \<noteq> 0"
      using nameless_named [of e] ok hd nl Cons by (metis list.set_intros(1))
    have "bytes_at m ?c (enc_head et' i' n')"
      using r Cons e(1) by (simp add: bytes_at_append)
    from import_stop_named [OF this e(2-4)] skip Cons show ?thesis by simp
  qed
qed

text \<open>
  What the entries of a table need at address \<open>cur\<close>: they are encoded there in a
  permissible order, and no relocation target overlaps their bytes.
\<close>

definition table_at :: "mem \<Rightarrow> u64 \<Rightarrow> u64 \<Rightarrow> pentry list \<Rightarrow> bool" where
  "table_at m base cur es \<longleftrightarrow>
     (\<forall>e \<in> set es. entry_ok e) \<and> order_ok False es \<and> bytes_at m cur (enc_table es) \<and>
     length (enc_table es) \<le> 2 ^ 64 \<and>
     (\<forall>off \<in> set (table_offs es).
        disjoint_regions (base + ucast off) 4 cur (length (enc_table es)))"

lemma enc_table_Cons: "enc_table (e # es) = enc_entry e @ enc_table es"
  by (simp add: enc_table_def)

lemma enc_table_import:
  "enc_table (PImport et i n us # es) =
     (enc_head et i n @ enc_uses (us @ mains es)) @ enc_table (after_mains es)"
  by (simp add: enc_table_def mains_enc [of es] enc_uses_append)

lemma table_disjoint:
  assumes "table_at m base cur es" "off \<in> set (table_offs es)" "k + j \<le> length (enc_table es)"
  shows "disjoint_regions (base + ucast off) 4 (cur + of_nat k) j"
  using assms disjoint_regions_sub [OF _ assms(3)] by (auto simp: table_at_def)

lemma table_at_Cons:
  assumes t: "table_at (mmem s) base cur (e # es)" and ni: "\<not> is_import e"
  shows "load_entry alloc base cur s =
      Some (res_bind (perform alloc base e s) (\<lambda>s'. Inr (cur + of_nat (length (enc_entry e)), s')))"
    and "perform alloc base e s = Inr s' \<Longrightarrow>
      table_at (mmem s') base (cur + of_nat (length (enc_entry e))) es"
proof -
  let ?c = "cur + of_nat (length (enc_entry e))"
  have be: "bytes_at (mmem s) cur (enc_entry e)" and br: "bytes_at (mmem s) ?c (enc_table es)"
    and len: "length (enc_table (e # es)) \<le> 2 ^ 64" and ok: "entry_ok e"
    using t by (auto simp: table_at_def enc_table_Cons bytes_at_append)
  have offs: "set (table_offs (e # es)) = set (entry_offs e) \<union> set (table_offs es)"
    by (simp add: table_offs_def)
  have d: "disjoint_regions (base + ucast off) 4 ?c (length (enc_table es))"
    if "off \<in> set (table_offs (e # es))" for off
    using table_disjoint [OF t that] by (simp add: enc_table_Cons)
  have "\<forall>off \<in> set (entry_offs e). disjoint_regions (base + ucast off) 4 cur (length (enc_entry e))"
    using table_disjoint [OF t, of _ 0 "length (enc_entry e)"] offs by (simp add: enc_table_Cons)
  then show "load_entry alloc base cur s =
      Some (res_bind (perform alloc base e s) (\<lambda>s'. Inr (?c, s')))"
    by (rule load_entry_perform [OF be ok ni])
  show "table_at (mmem s') base ?c es" if p: "perform alloc base e s = Inr s'"
  proof -
    have "bytes_at (mmem s') ?c (enc_table es)"
      unfolding perform_mmem [OF p]
      using br offs d len by (intro bytes_at_perform_abs) (auto simp: enc_table_Cons)
    moreover have "order_ok False es" using t ni by (cases e) (auto simp: table_at_def)
    ultimately show ?thesis using t d offs by (auto simp: table_at_def enc_table_Cons)
  qed
qed

lemma table_at_import:
  assumes t: "table_at (mmem s) base cur (PImport et i n us # es)"
  defines "g \<equiv> enc_head et i n @ enc_uses (us @ mains es)"
  shows "load_entry alloc base cur s =
      Option.bind (load_one_import (mmem s) cur) (\<lambda>cur. Some (Inr (cur, s)))"
    and "if after_mains es = [] then \<exists>cur'. load_one_import (mmem s) cur = Some cur' \<and> mmem s cur' = 0
      else load_one_import (mmem s) cur = Some (cur + of_nat (length g)) \<and>
        table_at (mmem s) base (cur + of_nat (length g)) (after_mains es)"
proof -
  let ?us = "us @ mains es" and ?as = "after_mains es"
  have ok: "is_import_type et" "n \<noteq> []" "cstring_ok n" "\<forall>(et', i') \<in> set us. is_import_type et'"
    "\<forall>e \<in> set ?as. entry_ok e" and ord: "order_ok True ?as"
    and b: "bytes_at (mmem s) cur (enc_table (PImport et i n us # es))"
    using t mains_facts(3) [of es] mains_facts(6) [of True es] by (auto simp: table_at_def)
  have us: "\<forall>(et, i) \<in> set ?us. et \<noteq> 0"
    using ok(4) import_type_facts(1) mains_facts(4) [of es] by fastforce
  have b': "bytes_at (mmem s) cur (enc_head et i n @ enc_uses ?us @ concat (map enc_entry ?as) @ [0])"
    using b unfolding enc_table_import by (simp add: enc_table_def iet_defs)
  have hd: "bytes_at (mmem s) cur (enc_head et i n)" using b' by (simp add: bytes_at_append)
  show "load_entry alloc base cur s =
      Option.bind (load_one_import (mmem s) cur) (\<lambda>cur. Some (Inr (cur, s)))"
    using ok(1) enc_head_bytes [OF hd ok(3)] import_type_facts(2) [OF ok(1)]
    by (simp add: load_entry_def Let_def)
  note nxt = import_next [OF b' ok(3,2) import_type_facts(1) [OF ok(1)] us ok(5) ord after_mains_head]
  have "table_at (mmem s) base (cur + of_nat (length g)) ?as" if ne: "?as \<noteq> []"
  proof -
    have len: "length (enc_table (PImport et i n us # es)) = length g + length (enc_table ?as)"
      by (simp add: enc_table_import g_def)
    have offs: "table_offs ?as = table_offs (PImport et i n us # es)"
      by (simp add: mains_facts(5)) (simp add: table_offs_def)
    have "order_ok False ?as"
      using ne order_after_import(2) ord after_mains_head by (metis neq_Nil_conv)
    moreover have "bytes_at (mmem s) (cur + of_nat (length g)) (enc_table ?as)"
      using b unfolding enc_table_import g_def by (simp only: bytes_at_append)
    ultimately show ?thesis
      using t ok(5) table_disjoint [OF t] len offs by (auto simp: table_at_def)
  qed
  with nxt show "if ?as = [] then \<exists>cur'. load_one_import (mmem s) cur = Some cur' \<and> mmem s cur' = 0
      else load_one_import (mmem s) cur = Some (cur + of_nat (length g)) \<and>
        table_at (mmem s) base (cur + of_nat (length g)) ?as"
    by (simp add: g_def)
qed

lemma load_pass1_loop_eq:
  "table_at (mmem s) base cur es \<Longrightarrow>
   load_pass1_loop alloc base cur s = Some (perform_all alloc base es s)"
proof (induction "length es" arbitrary: es cur s rule: less_induct)
  case less
  show ?case
  proof (cases es)
    case Nil
    then show ?thesis using less.prems
      by (subst load_pass1_loop.simps) (simp add: table_at_def enc_table_def bytes_at_Cons)
  next
    case (Cons e es')
    note t = less.prems [unfolded Cons]
    have "bytes_at (mmem s) cur (enc_entry e)" "entry_ok e"
      using t by (auto simp: table_at_def enc_table_Cons bytes_at_append)
    then have nz: "mmem s cur \<noteq> IET_END" by (rule entry_type_nonzero)
    show ?thesis
    proof (cases "is_import e")
      case True
      then obtain et i n us where e: "e = PImport et i n us" by (cases e) auto
      note im = table_at_import [OF t [unfolded e]]
      have perf: "perform_all alloc base es s = perform_all alloc base (after_mains es') s"
        by (simp add: Cons e mains_facts(1))
      show ?thesis
      proof (cases "after_mains es' = []")
        case True
        with im(2) obtain cur' where "load_one_import (mmem s) cur = Some cur'" "mmem s cur' = 0"
          by auto
        then show ?thesis using nz im(1) perf True
          by (simp add: load_pass1_loop.simps [of alloc base] iet_defs)
      next
        case False
        with im(2) less.hyps mains_facts(2) [of es'] Cons nz im(1) perf show ?thesis
          by (subst load_pass1_loop.simps) simp
      qed
    next
      case False
      with table_at_Cons [OF t False] less.hyps Cons nz show ?thesis
        by (subst load_pass1_loop.simps) (cases "perform alloc base e s"; simp)
    qed
  qed
qed

section \<open>Effect on the symbol table and on the module\<close>

fun entry_names :: "pentry \<Rightarrow> cstring list" where
  "entry_names (PExport et i n) = [n]"
| "entry_names (PCodeHeap et sz n offs) = (if n = [] then [] else [n])"
| "entry_names (PDataHeap et sz n offs) = (if n = [] then [] else [n])"
| "entry_names _ = []"

definition table_names :: "pentry list \<Rightarrow> cstring list" where
  "table_names es = concat (map entry_names es)"

definition loader_inv :: "machine \<Rightarrow> bool" where
  "loader_inv s \<longleftrightarrow> syms_inv s \<and> mem_map_inv (memmap s)"

lemma symbols_put_step:
  assumes inv: "loader_inv s" and k: "hash_key_ok k" and fresh: "sym_get s k = Inr None"
  obtains ex s1 where "symbols_put k t v b s = Inr (ex, s1)"
    "\<And>w. loader_inv (set_export_val ex w s1)" "loader_inv s1"
    "\<And>w. sym_val (set_export_val ex w s1) k = Inr w"
    "\<And>w k'. hash_key_ok k' \<Longrightarrow> k' \<noteq> k \<Longrightarrow> sym_get (set_export_val ex w s1) k' = sym_get s k'"
    "\<And>k'. hash_key_ok k' \<Longrightarrow> k' \<noteq> k \<Longrightarrow> sym_get s1 k' = sym_get s k'"
proof -
  have si: "syms_inv s" using inv by (simp add: loader_inv_def)
  obtain s1 where s1: "symbols_put k t v b s = Inr (length (exports s), s1)" "syms_inv s1"
      "s1 = s\<lparr>exports := exports s1, symbols := symbols s1\<rparr>"
      "exports s1 = exports s @ [\<lparr>ex_type = t, ex_value = v, ex_module_base = b\<rparr>]"
    using symbols_put_ok [OF si k fresh] by metis
  let ?ex = "length (exports s)"
  have mm: "memmap s1 = memmap s" by (subst s1(3)) simp
  note vals = symbols_put_values [OF si k fresh s1(1) refl]
  have id: "set_export_val ?ex v s1 = s1"
    by (simp add: set_export_val_def s1(4) list_update_append)
  have other: "sym_get s1 k' = sym_get s k'" if "hash_key_ok k'" "k' \<noteq> k" for k'
    using vals(3) [OF that, of v] by (simp add: id)
  have frame: "memmap (set_export_val ?ex w s1) = memmap s" for w
    by (simp add: set_export_val_def mm)
  show ?thesis
    by (rule that [OF s1(1)])
       (use vals(1-3) other frame mm inv s1(2) in \<open>auto simp: loader_inv_def\<close>)
qed

lemma sym_get_memmap: "sym_get (s\<lparr>memmap := m\<rparr>) = sym_get s" "sym_get (s\<lparr>allocs := n\<rparr>) = sym_get s"
  "sym_get (s\<lparr>mmem := mm\<rparr>) = sym_get s"
  by (rule sym_get_cong; simp)+

lemma loader_inv_update [simp]:
  "loader_inv (s\<lparr>allocs := n\<rparr>) = loader_inv s" "loader_inv (s\<lparr>mmem := m\<rparr>) = loader_inv s"
  by (simp_all add: loader_inv_def syms_inv_def)

lemma mregister_ok:
  assumes "loader_inv s"
  obtains m where "mregister p sz b s = Inr (s\<lparr>memmap := m\<rparr>)" "loader_inv (s\<lparr>memmap := m\<rparr>)"
proof -
  obtain m where "register_templeos_memory p sz b (memmap s) = Inr m" "mem_map_inv m"
    using register_ok assms by (metis loader_inv_def)
  with assms that [of m] show ?thesis by (simp add: mregister_def loader_inv_def syms_inv_def)
qed

lemma add_heap_symbol_ok:
  assumes "loader_inv s" "n \<noteq> [] \<Longrightarrow> hash_key_ok n" "n \<noteq> [] \<Longrightarrow> sym_get s n = Inr None"
  shows "\<exists>s'. add_heap_symbol n p s = Inr s' \<and> loader_inv s' \<and>
    (\<forall>k. hash_key_ok k \<longrightarrow> k \<noteq> n \<or> n = [] \<longrightarrow> sym_get s' k = sym_get s k)"
proof (cases "n = []")
  case True
  with assms show ?thesis by (simp add: add_heap_symbol_def)
next
  case False
  obtain ex s1 where "symbols_put n EXPORT_TYPE p 0 s = Inr (ex, s1)" "loader_inv s1"
    "\<And>k'. hash_key_ok k' \<Longrightarrow> k' \<noteq> n \<Longrightarrow> sym_get s1 k' = sym_get s k'"
    by (rule symbols_put_step [OF assms(1) assms(2,3) [OF False]]) blast
  with False show ?thesis by (simp add: add_heap_symbol_def)
qed

fun exported_value :: "u64 \<Rightarrow> pentry \<Rightarrow> u64 option" where
  "exported_value base (PExport et i n) = Some (export_value base et i)"
| "exported_value base _ = None"

lemma perform_ok:
  assumes inv: "loader_inv s" and keys: "\<forall>n \<in> set (entry_names e). hash_key_ok n"
    and fresh: "\<forall>n \<in> set (entry_names e). sym_get s n = Inr None"
  shows "\<exists>s'. perform alloc base e s = Inr s' \<and> loader_inv s' \<and>
    (\<forall>k. hash_key_ok k \<longrightarrow> k \<notin> set (entry_names e) \<longrightarrow> sym_get s' k = sym_get s k) \<and>
    (\<forall>v. exported_value base e = Some v \<longrightarrow> sym_val s' (hd (entry_names e)) = Inr v)"
proof (cases e)
  case (PExport et i n)
  with keys fresh have n: "hash_key_ok n" "sym_get s n = Inr None" by auto
  obtain ex s1 where "symbols_put n EXPORT_TYPE 0 base s = Inr (ex, s1)"
    "\<And>w. loader_inv (set_export_val ex w s1)"
    "\<And>w. sym_val (set_export_val ex w s1) n = Inr w"
    "\<And>w k'. hash_key_ok k' \<Longrightarrow> k' \<noteq> n \<Longrightarrow> sym_get (set_export_val ex w s1) k' = sym_get s k'"
    by (rule symbols_put_step [OF inv n]) blast
  with PExport show ?thesis by simp
next
  case (PCodeHeap et sz n offs)
  have "\<exists>s'. add_heap_symbol n p (s\<lparr>allocs := a\<rparr>) = Inr s' \<and> loader_inv s' \<and>
    (\<forall>k. hash_key_ok k \<longrightarrow> k \<noteq> n \<or> n = [] \<longrightarrow> sym_get s' k = sym_get s k)" for p a
    using add_heap_symbol_ok [of "s\<lparr>allocs := a\<rparr>" n p] inv keys fresh PCodeHeap
    by (auto simp: sym_get_memmap)
  with PCodeHeap show ?thesis by (auto simp: os_alloc_def split: if_splits)
next
  case (PDataHeap et sz n offs)
  have "\<exists>s'. add_heap_symbol n p (s\<lparr>allocs := a, memmap := m\<rparr>) = Inr s' \<and> loader_inv s' \<and>
    (\<forall>k. hash_key_ok k \<longrightarrow> k \<noteq> n \<or> n = [] \<longrightarrow> sym_get s' k = sym_get s k)"
    if "loader_inv (s\<lparr>allocs := a, memmap := m\<rparr>)" for p a m
    using add_heap_symbol_ok [OF that, of n p] keys fresh PDataHeap
    by (auto simp: sym_get_memmap)
  moreover obtain m where "mregister (alloc (allocs s) sz) sz False (s\<lparr>allocs := Suc (allocs s)\<rparr>) =
      Inr (s\<lparr>allocs := Suc (allocs s), memmap := m\<rparr>)"
      "loader_inv (s\<lparr>allocs := Suc (allocs s), memmap := m\<rparr>)"
    using mregister_ok [of "s\<lparr>allocs := Suc (allocs s)\<rparr>"] inv by (metis loader_inv_update(1))
  ultimately show ?thesis using PDataHeap by (auto simp: os_alloc_def split: if_splits)
qed (use inv in \<open>auto simp: sym_get_memmap\<close>)

lemma perform_all_ok:
  assumes "loader_inv s" "distinct (table_names es)" "\<forall>n \<in> set (table_names es). hash_key_ok n"
    and "\<forall>n \<in> set (table_names es). sym_get s n = Inr None"
  shows "\<exists>s'. perform_all alloc base es s = Inr s' \<and> loader_inv s' \<and>
    (\<forall>k. hash_key_ok k \<longrightarrow> k \<notin> set (table_names es) \<longrightarrow> sym_get s' k = sym_get s k) \<and>
    (\<forall>et i n. PExport et i n \<in> set es \<longrightarrow> sym_val s' n = Inr (export_value base et i))"
  using assms
proof (induction es arbitrary: s)
  case Nil
  then show ?case by simp
next
  case (Cons e es)
  have nm: "table_names (e # es) = entry_names e @ table_names es" by (simp add: table_names_def)
  obtain s1 where s1: "perform alloc base e s = Inr s1" "loader_inv s1"
    "\<forall>k. hash_key_ok k \<longrightarrow> k \<notin> set (entry_names e) \<longrightarrow> sym_get s1 k = sym_get s k"
    "\<forall>v. exported_value base e = Some v \<longrightarrow> sym_val s1 (hd (entry_names e)) = Inr v"
    using perform_ok [OF Cons.prems(1), of e] Cons.prems(3,4) nm by (metis Un_iff set_append)
  have "\<forall>n \<in> set (table_names es). sym_get s1 n = Inr None"
    using Cons.prems(2-4) s1(3) nm by (auto simp: disjoint_iff)
  then obtain s' where s': "perform_all alloc base es s1 = Inr s'" "loader_inv s'"
    "\<forall>k. hash_key_ok k \<longrightarrow> k \<notin> set (table_names es) \<longrightarrow> sym_get s' k = sym_get s1 k"
    "\<forall>et i n. PExport et i n \<in> set es \<longrightarrow> sym_val s' n = Inr (export_value base et i)"
    using Cons.IH [OF s1(2)] Cons.prems(2,3) nm by auto
  have "sym_val s' n = Inr (export_value base et i)" if "e = PExport et i n" for et i n
  proof -
    have "hash_key_ok n" "n \<notin> set (table_names es)" using that Cons.prems(2,3) nm by auto
    with s'(3) s1(4) that show ?thesis by (simp add: sym_val_def)
  qed
  with s' s1 nm show ?case by auto
qed

lemma perform_all_mmem:
  "perform_all alloc base es s = Inr s' \<Longrightarrow> mmem s' = perform_abs base (table_offs es) (mmem s)"
proof (induction es arbitrary: s)
  case Nil
  then show ?case by (simp add: table_offs_def)
next
  case (Cons e es)
  have app: "perform_abs base (xs @ ys) m = perform_abs base ys (perform_abs base xs m)" for xs ys m
    by (induction base xs m rule: perform_abs.induct) auto
  from Cons show ?case
    by (auto simp: res_bind_Inr_iff table_offs_def app dest!: perform_mmem)
qed

text \<open>Relocation of pairwise disjoint words.\<close>

definition targets_ok :: "u64 \<Rightarrow> u32 list \<Rightarrow> bool" where
  "targets_ok base offs \<longleftrightarrow>
     sorted_wrt (\<lambda>a b. disjoint_regions (base + ucast a) 4 (base + ucast b) 4) offs"

lemma perform_abs_other:
  "\<forall>off \<in> set offs. \<not> in_region (base + ucast off) 4 x \<Longrightarrow> perform_abs base offs m x = m x"
  by (induction offs arbitrary: m) (auto simp: st32_other)

lemma perform_abs_word:
  assumes "\<forall>off \<in> set offs. disjoint_regions a 4 (base + ucast off) 4"
  shows "ld32 (perform_abs base offs m) a = ld32 m a"
  using assms by (induction offs arbitrary: m) (auto simp: ld32_st32_other)

lemma perform_abs_target:
  "targets_ok base offs \<Longrightarrow> off \<in> set offs \<Longrightarrow>
   ld32 (perform_abs base offs m) (base + ucast off) = ld32 m (base + ucast off) + ucast base"
proof (induction offs arbitrary: m)
  case Nil
  then show ?case by simp
next
  case (Cons o' offs)
  have tl: "targets_ok base offs"
    and hd: "\<forall>b \<in> set offs. disjoint_regions (base + ucast o') 4 (base + ucast b) 4"
    using Cons.prems(1) by (auto simp: targets_ok_def)
  show ?case
  proof (cases "off \<in> set offs")
    case True
    with hd have "disjoint_regions (base + ucast off) 4 (base + ucast o') 4"
      by (subst disjoint_regions_sym) blast
    with Cons.IH [OF tl True] show ?thesis by (simp add: ld32_st32_other)
  next
    case False
    with Cons.prems(2) have "off = o'" by simp
    with hd show ?thesis by (simp add: perform_abs_word ld32_st32)
  qed
qed

section \<open>Properties\<close>

text \<open>
  The example of \<open>lilith/README.md\<close>: the 96 bytes of \<open>HelloWorld.BIN\<close>, whose patch table
  has a relocation, the main entry and the import of \<open>Print\<close>, loaded at \<open>0x40000\<close>.
\<close>

definition hello_code :: "u8 list" where
  "hello_code =
     [0xeb, 0x1e, 0x00, 0x00, 0x54, 0x4f, 0x53, 0x42,
      0xff, 0xff, 0xff, 0xff, 0xff, 0xff, 0xff, 0x7f,
      0x40, 0, 0, 0, 0, 0, 0, 0,  0x60, 0, 0, 0, 0, 0, 0, 0,
      0x6a, 0x00, 0x68, 0x11, 0x00, 0x00, 0x00, 0xe8, 0x00, 0x00, 0x00, 0x00,
      0x48, 0x83, 0xc4, 0x10, 0xc3] @ cstr_bytes (''Hello Mr. God'' @ [CHR 0x0A])"

definition hello_table :: "pentry list" where
  "hello_table = [PAbs [3], PMain 0, PImport 8 8 ''Print'' []]"

definition hello_machine :: machine where
  "hello_machine = \<lparr>mmem = st_bytes (\<lambda>_. 0) 0x40000 (hello_code @ enc_table hello_table),
     symbols = hash_init 4096, exports = [], memmap = mem_map_init, allocs = 0,
     hobjs = (\<lambda>_. \<lparr>he_str = [], he_type = 0, ex_val = 0, fn_exe_addr = 0, mod_data0 = 0,
       gv_data_addr = 0\<rparr>), task_tables = (\<lambda>_. []), console = []\<rparr>"

lemma hello_lengths: "length hello_code = 64" "length (enc_table hello_table) = 28"
  by (simp_all add: hello_code_def hello_table_def enc_table_def enc_head_def enc_offs_def cstr_bytes_def)

lemma hello_table_at: "table_at (mmem hello_machine) 0x40020 0x40040 hello_table"
proof -
  have "bytes_at (mmem hello_machine) 0x40000 (hello_code @ enc_table hello_table)"
    using ld_st_bytes_same [of "hello_code @ enc_table hello_table" "\<lambda>_. 0" "0x40000"]
    by (simp add: bytes_at_def hello_machine_def hello_lengths)
  then have "bytes_at (mmem hello_machine) 0x40040 (enc_table hello_table)"
    by (simp add: bytes_at_append hello_lengths)
  moreover have "disjoint_regions (0x40020 + ucast (3 :: u32)) 4 0x40040 28"
    by (rule disjoint_regionsI) simp_all
  ultimately show ?thesis
    by (auto simp: table_at_def hello_lengths)
       (auto simp: hello_table_def iet_defs is_import_type_def cstring_ok_def table_offs_def)
qed

lemma hello_machine_inv: "loader_inv hello_machine"
  by (auto simp: loader_inv_def syms_inv_def hello_machine_def hash_inv_init mem_map_inv_init
      dest: hash_get_init)

text \<open>C1: on a patch table encoded in memory (in a permissible order, its relocation
  targets outside the table) \<open>load_pass1\<close> returns, and what it does is exactly the actions
  of the entries in the order of the table: parsing loses, adds and reorders nothing, also
  where \<open>load_one_import\<close> stops one byte before the terminator.\<close>
theorem load_pass1_performs_table:
  assumes "table_at (mmem s) base p es"
  shows "load_pass1 alloc p base s = Some (perform_all alloc base es s)"
  unfolding load_pass1_def by (rule load_pass1_loop_eq [OF assms])

theorem load_pass1_performs_table_witness:
  "load_pass1 (\<lambda>_ _. 0) 0x40040 0x40020 hello_machine =
     Some (Inr (hello_machine\<lparr>mmem := perform_abs 0x40020 [3] (mmem hello_machine)\<rparr>))"
  using load_pass1_performs_table [OF hello_table_at, of "\<lambda>_ _. 0"] by (simp add: hello_table_def)

text \<open>Loading a table whose symbol names are new and distinct ends normally, keeps the
  symbol table and the memory registry well formed, makes every exported symbol resolve to
  its value (relative to the module, or the immediate), and leaves other symbols alone.\<close>
theorem load_pass1_exports:
  assumes "table_at (mmem s) base p es" "loader_inv s"
    and "distinct (table_names es)" "\<forall>n \<in> set (table_names es). hash_key_ok n"
    and "\<forall>n \<in> set (table_names es). sym_get s n = Inr None"
  shows "\<exists>s'. load_pass1 alloc p base s = Some (Inr s') \<and> loader_inv s' \<and>
    (\<forall>et i n. PExport et i n \<in> set es \<longrightarrow> sym_val s' n = Inr (export_value base et i)) \<and>
    (\<forall>k. hash_key_ok k \<longrightarrow> k \<notin> set (table_names es) \<longrightarrow> sym_get s' k = sym_get s k)"
  using load_pass1_loop_eq [OF assms(1), of alloc] perform_all_ok [OF assms(2-5), of alloc base]
  by (auto simp: load_pass1_def)

definition export_table :: "pentry list" where
  "export_table = [PExport 16 0x40 ''MAlloc'', PExport 17 7 ''VER'', PMain 0]"

definition export_machine :: machine where
  "export_machine = hello_machine\<lparr>mmem := st_bytes (\<lambda>_. 0) 0x5000 (enc_table export_table)\<rparr>"

lemma export_table_at: "table_at (mmem export_machine) 0x4000 0x5000 export_table"
  using ld_st_bytes_same [of "enc_table export_table" "\<lambda>_. 0" "0x5000"]
  by (simp add: table_at_def export_machine_def bytes_at_def export_table_def iet_defs enc_table_def
      is_export_type_def cstring_ok_def table_offs_def)

theorem load_pass1_exports_witness:
  "\<exists>s'. load_pass1 (\<lambda>_ _. 0) 0x5000 0x4000 export_machine = Some (Inr s') \<and>
     sym_val s' ''MAlloc'' = Inr 0x4040 \<and> sym_val s' ''VER'' = Inr 7"
proof -
  have e: "sym_get export_machine n = Inr None" if kn: "hash_key_ok n" for n
  proof -
    obtain r where "hash_get (hash_init 4096 :: nat hash_t) n = Inr r"
      using hash_get_ok [OF hash_inv_init kn, of 4096] by auto
    with hash_get_init [OF this] show ?thesis
      by (simp add: sym_get_def export_machine_def hello_machine_def)
  qed
  have k: "hash_key_ok ''MAlloc''" "hash_key_ok ''VER''" by (simp_all add: hash_key_ok_ascii)
  have inv: "loader_inv export_machine" by (simp add: export_machine_def hello_machine_inv)
  have n: "table_names export_table = [''MAlloc'', ''VER'']"
    by (simp add: table_names_def export_table_def)
  obtain s' where "load_pass1 (\<lambda>_ _. 0) 0x5000 0x4000 export_machine = Some (Inr s')"
    "\<forall>et i n. PExport et i n \<in> set export_table \<longrightarrow> sym_val s' n = Inr (export_value 0x4000 et i)"
    using load_pass1_exports [OF export_table_at inv, of "\<lambda>_ _. 0"] e k n by auto
  then show ?thesis by (auto simp: export_table_def export_value_def iet_defs)
qed

text \<open>Loading adds the module base to every word the relocation entries name (when the
  words do not overlap) and changes no other byte of memory.\<close>
theorem load_pass1_relocates:
  assumes "table_at (mmem s) base p es" "targets_ok base (table_offs es)"
    and "load_pass1 alloc p base s = Some (Inr s')"
  shows "(\<forall>off \<in> set (table_offs es).
      ld32 (mmem s') (base + ucast off) = ld32 (mmem s) (base + ucast off) + ucast base) \<and>
    (\<forall>x. (\<forall>off \<in> set (table_offs es). \<not> in_region (base + ucast off) 4 x) \<longrightarrow>
      mmem s' x = mmem s x)"
proof -
  have "perform_all alloc base es s = Inr s'"
    using load_pass1_loop_eq [OF assms(1), of alloc] assms(3) by (simp add: load_pass1_def)
  then have m: "mmem s' = perform_abs base (table_offs es) (mmem s)" by (rule perform_all_mmem)
  show ?thesis by (simp add: m perform_abs_target [OF assms(2)] perform_abs_other)
qed

theorem load_pass1_relocates_witness:
  "\<exists>s'. load_pass1 (\<lambda>_ _. 0) 0x40040 0x40020 hello_machine = Some (Inr s') \<and>
     ld32 (mmem s') 0x40023 = 0x40031"
proof -
  obtain s' where s': "load_pass1 (\<lambda>_ _. 0) 0x40040 0x40020 hello_machine = Some (Inr s')"
    using load_pass1_loop_eq [OF hello_table_at, of "\<lambda>_ _. 0"] by (simp add: load_pass1_def hello_table_def)
  have offs: "table_offs hello_table = [3]" by (simp add: table_offs_def hello_table_def)
  have "targets_ok 0x40020 (table_offs hello_table)" by (simp add: targets_ok_def offs)
  from load_pass1_relocates [OF hello_table_at this s'] have
    "ld32 (mmem s') 0x40023 = ld32 (mmem hello_machine) 0x40023 + 0x40020" by (simp add: offs)
  moreover have "ld32 (mmem hello_machine) 0x40023 = 0x11"
  proof -
    have "bytes_at (mmem hello_machine) 0x40000 (hello_code @ enc_table hello_table)"
      using ld_st_bytes_same [of "hello_code @ enc_table hello_table" "\<lambda>_. 0" "0x40000"]
      by (simp add: bytes_at_def hello_machine_def hello_lengths)
    moreover have "hello_code = take 35 hello_code @ le_bytes 4 (unat (0x11 :: u32)) @ drop 39 hello_code"
      by (simp add: hello_code_def le_bytes_4)
    moreover have "length (take 35 hello_code) = 35" by (simp add: hello_lengths)
    ultimately have "bytes_at (mmem hello_machine) (0x40000 + of_nat 35) (le_bytes 4 (unat (0x11 :: u32)))"
      by (metis append.assoc bytes_at_append)
    then have "bytes_at (mmem hello_machine) 0x40023 (le_bytes 4 (unat (0x11 :: u32)))" by simp
    then show ?thesis by (rule ld32_bytes_at)
  qed
  ultimately show ?thesis using s' by auto
qed

text \<open>An entry of a type the loader does not know ends the process with
  \<open>EXIT_FAILURE\<close>.\<close>
theorem load_pass1_unknown_type:
  assumes "mmem s p \<notin> {IET_END, IET_ABS_ADDR, IET_CODE_HEAP, IET_ZEROED_CODE_HEAP,
      IET_DATA_HEAP, IET_ZEROED_DATA_HEAP, IET_MAIN}"
    and "\<not> is_export_type (mmem s p)" "\<not> is_import_type (mmem s p)"
    and "cstr_at (mmem s) (p + 5) = Some st"
  shows "load_pass1 alloc p base s = Some (Inl (ExitWith EXIT_FAILURE))"
  using assms by (simp add: load_pass1_def load_pass1_loop.simps [of alloc] load_entry_def Let_def)

theorem load_pass1_unknown_type_witness:
  "load_pass1 (\<lambda>_ _. 0) 0x100 0x4000 (hello_machine\<lparr>mmem := (\<lambda>_. 0)(0x100 := 99)\<rparr>) =
     Some (Inl (ExitWith EXIT_FAILURE))"
proof (rule load_pass1_unknown_type)
  show "cstr_at (mmem (hello_machine\<lparr>mmem := (\<lambda>_. 0)(0x100 := 99)\<rparr>)) (0x100 + 5) = Some []"
    by (subst cstr_at.simps) simp
qed (simp_all add: iet_defs is_export_type_def is_import_type_def)

end
