(* ===== verification/KernelPatch.thy ===== *)
theory KernelPatch
  imports Loader
begin

text \<open>
  The rest of \<open>lilith/load.c\<close> with \<open>malloc_executable_aligned\<close> and \<open>read_uint64\<close> of
  \<open>lilith/utils.c\<close> and \<open>lilith/syscalls_tramp.c\<close>: placing the kernel image, patching
  instructions and variables of the loaded kernel, and redirecting kernel functions to
  Lilith's system calls with jumps written over their entry points.
\<close>

unbundle bit_operations_syntax

section \<open>Patching by name\<close>

definition patch_error :: "cstring \<Rightarrow> cstring" where
  "patch_error name = ''Error patching instruction at '' @ name"

definition kernel_patch_instruction :: "cstring \<Rightarrow> u64 \<Rightarrow> u8 \<Rightarrow> u8 \<Rightarrow> machine \<Rightarrow> machine res" where
  "kernel_patch_instruction name off original replacement s =
     res_bind (sym_val s name) (\<lambda>val.
       let p = val + off in
       if mmem s p = original then Inr (s\<lparr>mmem := (mmem s)(p := replacement)\<rparr>)
       else Inr (say (patch_error name) s))"

definition kernel_patch_var64 :: "cstring \<Rightarrow> u64 \<Rightarrow> machine \<Rightarrow> machine res" where
  "kernel_patch_var64 name v s =
     res_bind (sym_val s name) (\<lambda>val. Inr (s\<lparr>mmem := st64 (mmem s) val v\<rparr>))"

definition kernel_patch_var64_off :: "cstring \<Rightarrow> u64 \<Rightarrow> u64 \<Rightarrow> machine \<Rightarrow> machine res" where
  "kernel_patch_var64_off name off v s =
     res_bind (sym_val s name) (\<lambda>val. Inr (s\<lparr>mmem := st64 (mmem s) (val + off) v\<rparr>))"

definition kernel_patch_var32 :: "cstring \<Rightarrow> u32 \<Rightarrow> machine \<Rightarrow> machine res" where
  "kernel_patch_var32 name v s =
     res_bind (sym_val s name) (\<lambda>val. Inr (s\<lparr>mmem := st32 (mmem s) val v\<rparr>))"

definition kernel_var64_ptr :: "cstring \<Rightarrow> machine \<Rightarrow> u64 res" where
  "kernel_var64_ptr name s = sym_val s name"

section \<open>Trampolines\<close>

definition write_trampoline_jmp :: "u64 \<Rightarrow> u64 \<Rightarrow> mem \<Rightarrow> mem" where
  "write_trampoline_jmp x d m =
     st64 (st_bytes m x [0xff, 0x25, 0x00, 0x00, 0x00, 0x00]) (x + 6) d"

text \<open>
  The late form, used once TempleOS has its own symbol table: the walk over the tables of
  the task stops at the first exported system symbol or function of that name.
\<close>

definition trampoline_body :: "cstring \<Rightarrow> u64 \<Rightarrow> machine \<Rightarrow> u64 \<Rightarrow> machine + machine" where
  "trampoline_body name dest s e =
     (let he = hobjs s e in
      if is_hash_type he (HTT_EXPORT_SYS_SYM OR HTF_IMM) then
        (if he_str he \<noteq> name then Inr s
         else let s1 = s\<lparr>mmem := write_trampoline_jmp (ex_val he) dest (mmem s)\<rparr> in
           if dest < 0x100000000
           then Inl (s1\<lparr>hobjs := (hobjs s1)(e := he\<lparr>ex_val := dest\<rparr>)\<rparr>) else Inl s1)
      else if is_hash_type he HTT_FUN then
        (if he_str he \<noteq> name then Inr s
         else let s1 = s\<lparr>mmem := write_trampoline_jmp (fn_exe_addr he) dest (mmem s)\<rparr> in
           if dest < 0x100000000
           then Inl (s1\<lparr>hobjs := (hobjs s1)(e := he\<lparr>fn_exe_addr := dest\<rparr>)\<rparr>) else Inl s1)
      else Inr s)"

definition trampoline_kernel_patch ::
  "u64 option \<Rightarrow> cstring \<Rightarrow> u64 \<Rightarrow> machine \<Rightarrow> machine res" where
  "trampoline_kernel_patch t name dest s =
     (case t of
        None \<Rightarrow>
          res_bind (sym_get s name) (\<lambda>h. case h of
            None \<Rightarrow> Inl (ExitWith 1)
          | Some e \<Rightarrow> Inr (s\<lparr>mmem := write_trampoline_jmp (ex_value e) dest (mmem s)\<rparr>))
      | Some Fs \<Rightarrow>
          res_bind (thiter_for
            (\<lambda>s it. case it_he it of [] \<Rightarrow> Inr s | e # _ \<Rightarrow> trampoline_body name dest s e)
            s (thiter_new (task_tables s Fs))) (\<lambda>r. case r of
              Inl s' \<Rightarrow> Inr s'
            | Inr _ \<Rightarrow> Inl (ExitWith 1)))"

text \<open>
  The kernel functions that Lilith replaces, each with the assembly stub that takes over
  (\<open>setup_syscall_trampolines\<close>). The addresses of the stubs come from the linker.
\<close>

definition syscall_trampolines :: "(cstring \<times> cstring) list" where
  "syscall_trampolines =
     [(''RawPutChar'', ''asm_syscall_RawPutChar''),
      (''DrvLock'', ''asm_syscall_DrvLock''),
      (''_MALLOC'', ''asm_syscall_MAlloc''),
      (''_FREE'', ''asm_syscall_Free''),
      (''RedSeaFileFind'', ''asm_syscall_RedSeaFileFind''),
      (''RedSeaFileRead'', ''asm_syscall_RedSeaFileRead''),
      (''RedSeaFilesFind'', ''asm_syscall_RedSeaFilesFind''),
      (''RedSeaFileWrite'', ''asm_syscall_RedSeaFileWrite''),
      (''RedSeaMkDir'', ''asm_syscall_RedSeaMkDir''),
      (''SysTimerRead'', ''asm_syscall_SysTimerRead''),
      (''Snd'', ''asm_syscall_Snd''),
      (''_MHEAP_CTRL'', ''asm_syscall_MHeapCtrl''),
      (''_MSIZE'', ''asm_syscall_MSize''),
      (''NowDateTimeStruct'', ''asm_syscall_NowDateTimeStruct''),
      (''GetS'', ''asm_syscall_GetS''),
      (''Busy'', ''asm_syscall_Busy''),
      (''TaskDerivedValsUpdate'', ''asm_syscall_TaskDerivedValsUpdate''),
      (''_YIELD'', ''asm_syscall_Yield''),
      (''KbdTypeMatic'', ''asm_syscall_KbdTypeMatic''),
      (''Spawn'', ''asm_syscall_Spawn''),
      (''TaskStkNew'', ''asm_syscall_TaskStkNew''),
      (''CallStkGrow'', ''asm_syscall_CallStkGrow'')]"

fun patch_trampolines :: "(cstring \<Rightarrow> u64) \<Rightarrow> (cstring \<times> cstring) list \<Rightarrow> machine \<Rightarrow> machine res" where
  "patch_trampolines stub [] s = Inr s"
| "patch_trampolines stub ((name, dest) # ts) s =
     res_bind (trampoline_kernel_patch None name (stub dest) s) (patch_trampolines stub ts)"

definition setup_syscall_trampolines :: "(cstring \<Rightarrow> u64) \<Rightarrow> machine \<Rightarrow> machine res" where
  "setup_syscall_trampolines stub s = patch_trampolines stub syscall_trampolines s"

section \<open>Loading the kernel\<close>

definition read_uint64 :: "mem \<Rightarrow> u64 \<Rightarrow> u64 \<Rightarrow> u64" where
  "read_uint64 m p off = ld64 m (p + off)"

definition malloc_executable_aligned ::
  "allocator \<Rightarrow> u64 \<Rightarrow> u64 \<Rightarrow> u64 \<Rightarrow> machine \<Rightarrow> (u64 \<times> machine) res" where
  "malloc_executable_aligned alloc sz alignment misalignment s =
     (let mask = alignment - 1;
          (ptr, s1) = os_alloc alloc (sz + mask + 8 + misalignment) s;
          r = ((ptr + 8 + mask) AND NOT mask) + misalignment
      in res_bind (mregister r sz True s1) (\<lambda>s2. Inr (r, s2)))"

definition KERNEL_BIN_C_SIZE :: u64 where "KERNEL_BIN_C_SIZE = 189760"
definition TOSB_HEADER_SIZE :: u64 where "TOSB_HEADER_SIZE = 32"
definition TOSB_SIGNATURE :: cstring where "TOSB_SIGNATURE = ''TOSB''"

text \<open>
  \<open>1 << module_align_bits\<close> is a shift of an \<open>int\<close>; on x86 the count is taken modulo 32 and
  the result is sign-extended to \<open>int64_t\<close>.
\<close>

definition module_align_of :: "u8 \<Rightarrow> u64" where
  "module_align_of bits = scast (push_bit (unat bits mod 32) (1 :: u32))"

text \<open>Alignment and misalignment passed to \<open>malloc_executable_aligned\<close>.\<close>

definition placement :: "u64 \<Rightarrow> u64 \<times> u64" where
  "placement module_align =
     (let misalignment = module_align - TOSB_HEADER_SIZE;
          misalignment = (if misalignment <s 0 then misalignment AND (module_align - 1) else misalignment)
      in (if module_align <s 16 then 16 else module_align, misalignment))"

definition kernel_patches :: "(cstring \<times> u64 \<times> u8 \<times> u8) list" where
  "kernel_patches =
     [(''_HASH_ADD'', 0x1c, 0xfa, 0x90),
      (''ChkOnStk'', 0x17, 0xfa, 0x90),
      (''Panic'', 0x16, 0xfa, 0x90),
      (''HashTablePurge'', 0x26, 0xfa, 0x90),
      (''_HASH_REM_DEL'', 0x2c, 0xfa, 0x90),
      (''RawPrint'', 0x32, 0xfa, 0x90),
      (''WinDerivedValsUpdate'', 0x18, 0xfa, 0x90),
      (''TaskInit'', 0x136, 0xe8, 0x90),
      (''TaskInit'', 0x137, 0x55, 0x90),
      (''TaskInit'', 0x138, 0xd2, 0x90),
      (''TaskInit'', 0x139, 0xfe, 0x90),
      (''TaskInit'', 0x13a, 0xff, 0x90)]"

fun apply_patches :: "(cstring \<times> u64 \<times> u8 \<times> u8) list \<Rightarrow> machine \<Rightarrow> machine res" where
  "apply_patches [] s = Inr s"
| "apply_patches ((name, off, original, replacement) # ps) s =
     res_bind (kernel_patch_instruction name off original replacement s) (apply_patches ps)"

text \<open>The header checks: what \<open>load_kernel\<close> requires of the image at \<open>kernel_bin_c\<close>.\<close>

definition kernel_header_ok :: "mem \<Rightarrow> u64 \<Rightarrow> bool" where
  "kernel_header_ok m kernel_bin_c \<longleftrightarrow>
     ld_bytes m (kernel_bin_c + 4) 4 = map (\<lambda>c. of_nat (of_char c)) TOSB_SIGNATURE \<and>
     read_uint64 m kernel_bin_c 24 = KERNEL_BIN_C_SIZE \<and>
     module_align_of (m (kernel_bin_c + 2)) \<noteq> 0 \<and>
     read_uint64 m kernel_bin_c 8 = 0x7fffffffffffffff"

text \<open>The patches made after the relocation pass.\<close>

definition patch_kernel :: "(cstring \<Rightarrow> u64) \<Rightarrow> u64 \<Rightarrow> u64 \<Rightarrow> machine \<Rightarrow> machine res" where
  "patch_kernel stub module_base patch_table s =
     res_bind (apply_patches kernel_patches s) (\<lambda>s.
     res_bind (setup_syscall_trampolines stub s) (\<lambda>s.
     res_bind (kernel_patch_var64 ''mem_boot_base'' module_base s) (\<lambda>s.
     res_bind (kernel_patch_var64 ''sys_boot_patch_table_base'' patch_table s) (\<lambda>s.
       kernel_patch_var64 ''mem_mapped_space'' 4294967296 s))))"

definition load_kernel ::
  "(cstring \<Rightarrow> u64) \<Rightarrow> allocator \<Rightarrow> u64 \<Rightarrow> machine \<Rightarrow> machine res option" where
  "load_kernel stub alloc kernel_bin_c s =
     (if \<not> kernel_header_ok (mmem s) kernel_bin_c then Some (Inl (ExitWith EXIT_FAILURE))
      else
        let patch_table_offset = read_uint64 (mmem s) kernel_bin_c 16;
            (module_align, misalignment) = placement (module_align_of (mmem s (kernel_bin_c + 2)))
        in case malloc_executable_aligned alloc KERNEL_BIN_C_SIZE module_align misalignment s of
             Inl e \<Rightarrow> Some (Inl e)
           | Inr (p, s1) \<Rightarrow>
               let s2 = s1\<lparr>mmem := st_bytes (mmem s1) p
                          (ld_bytes (mmem s1) kernel_bin_c (unat KERNEL_BIN_C_SIZE))\<rparr>;
                   module_base = p + TOSB_HEADER_SIZE
               in Option.bind (load_pass1 alloc (p + patch_table_offset) module_base s2) (\<lambda>r.
                    case r of
                      Inl e \<Rightarrow> Some (Inl e)
                    | Inr s3 \<Rightarrow> Some (patch_kernel stub module_base (p + patch_table_offset) s3)))"

section \<open>Names that resolve\<close>

lemma sym_val_cong:
  "symbols s' = symbols s \<Longrightarrow> exports s' = exports s \<Longrightarrow> sym_val s' = sym_val s"
  by (rule ext) (simp add: sym_val_def sym_get_def)

lemma sym_val_mem [simp]: "sym_val (s\<lparr>mmem := m\<rparr>) = sym_val s" "sym_val (say msg s) = sym_val s"
  by (rule sym_val_cong, simp_all add: say_def)+

lemma sym_get_mem [simp]: "sym_get (s\<lparr>mmem := m\<rparr>) = sym_get s"
  by (rule sym_get_cong) simp_all

section \<open>Placement of the image\<close>

lemma word_clear_low:
  "unat (x AND NOT (mask n) :: 'a::len word) = unat x - unat x mod 2 ^ n"
proof -
  have "x AND NOT (mask n) = push_bit n (drop_bit n x)"
    by (rule bit_word_eqI) (auto simp: bit_simps)
  then have "x AND NOT (mask n) = x - take_bit n x"
    using bits_ident [of n x] by (simp add: algebra_simps)
  moreover have "take_bit n x \<le> x"
    by (simp add: word_le_nat_alt unsigned_take_bit_eq take_bit_nat_less_eq_self)
  ultimately have "unat (x AND NOT (mask n)) = unat x - unat (take_bit n x)"
    by (simp only: unat_sub)
  moreover have "unat (take_bit n x) = unat x mod 2 ^ n"
    by (simp only: unsigned_take_bit_eq) (simp add: take_bit_eq_mod)
  ultimately show ?thesis by simp
qed


text \<open>What \<open>placement\<close> computes from the alignment bits of the header.\<close>

lemma placement_eq:
  assumes "unat bits \<le> 30"
  shows "placement (module_align_of bits) =
    (if unat bits < 4 then 16 else 2 ^ unat bits,
     if unat bits < 5 then 0 else 2 ^ unat bits - 32)"
proof -
  have "bits = of_nat (unat bits)" by simp
  moreover have "unat bits \<in> {0,1,2,3,4,5,6,7,8,9,10,11,12,13,14,15,16,17,18,19,20,21,22,23,24,25,26,27,28,29,30}"
    using assms by (simp only: insert_iff empty_iff) presburger
  ultimately show ?thesis
    by (elim insertE emptyE)
       (simp_all add: placement_def module_align_of_def TOSB_HEADER_SIZE_def word_sless_alt)
qed


text \<open>
  The address arithmetic of \<open>malloc_executable_aligned\<close> for a mask of low bits, with no
  wrap-around: the result is in the mapping and aligned up to the misalignment.
\<close>

lemma aligned_address:
  fixes ptr sz mis :: u64
  assumes fit: "unat ptr + unat sz + (2 ^ n - 1) + 8 + unat mis < 2 ^ 64" and n: "n < 64"
  defines "r \<equiv> ((ptr + 8 + mask n) AND NOT (mask n)) + mis"
  shows "unat r = (unat ptr + 7 + 2 ^ n) div 2 ^ n * 2 ^ n + unat mis"
    and "unat ptr + 8 \<le> unat r"
    and "unat r + unat sz \<le> unat ptr + unat (sz + mask n + 8 + mis)"
proof -
  note m = unat_mask [OF n]
  have e8: "unat (8 :: u64) = 8" by simp
  have one: "(1 :: nat) \<le> 2 ^ n" by simp
  have p8: "unat ptr + unat (8 :: u64) < 2 ^ 64" using fit one e8 by linarith
  then have "unat (ptr + 8) = unat ptr + 8" by (simp only: unat_plus64 e8)
  then have q: "unat (ptr + 8 + mask n) = unat ptr + 7 + 2 ^ n"
    using fit one m by (subst unat_plus64) auto
  let ?b = "(unat ptr + 7 + 2 ^ n) div 2 ^ n * 2 ^ n"
  have b: "unat ((ptr + 8 + mask n) AND NOT (mask n)) = ?b"
    by (simp only: word_clear_low q minus_mod_eq_div_mult)
  have le: "?b \<le> unat ptr + 7 + 2 ^ n" by (rule div_times_less_eq_dividend)
  have ge: "unat ptr + 7 + 2 ^ n < ?b + 2 ^ n"
  proof -
    have "(unat ptr + 7 + 2 ^ n) mod 2 ^ n < 2 ^ n" by simp
    with div_mod_decomp [of "unat ptr + 7 + 2 ^ n" "2 ^ n"] show ?thesis by linarith
  qed
  show r: "unat r = ?b + unat mis"
  proof -
    have "?b + unat mis < 2 ^ 64" using le fit one by linarith
    with b show ?thesis by (simp only: r_def unat_plus64)
  qed
  show "unat ptr + 8 \<le> unat r" using r ge by linarith
  have "unat (sz + mask n) = unat sz + (2 ^ n - 1)"
    using fit one m by (subst unat_plus64) auto
  then have "unat (sz + mask n + 8) = unat sz + (2 ^ n - 1) + 8"
    using fit one e8 by (subst unat_plus64) auto
  then have "unat (sz + mask n + 8 + mis) = unat sz + (2 ^ n - 1) + 8 + unat mis"
    using fit one by (subst unat_plus64) auto
  then show "unat r + unat sz \<le> unat ptr + unat (sz + mask n + 8 + mis)"
    using r le one by linarith
qed

section \<open>What a trampoline does\<close>

text \<open>
  The processor's view: a \<open>JMP QWORD PTR [RIP+disp32]\<close> at \<open>a\<close> (opcode \<open>ff 25\<close>, six bytes
  long) goes to the address stored \<open>disp32\<close> bytes after the instruction.
\<close>

definition decode_jmp :: "mem \<Rightarrow> u64 \<Rightarrow> u64 option" where
  "decode_jmp m a =
     (if m a = 0xff \<and> m (a + 1) = 0x25 then Some (ld64 m (a + 6 + scast (ld32 m (a + 2)))) else None)"

definition jmp_bytes :: "u64 \<Rightarrow> u8 list" where
  "jmp_bytes d = [0xff, 0x25, 0, 0, 0, 0] @ le_bytes 8 (unat d)"

lemma length_jmp_bytes [simp]: "length (jmp_bytes d) = 14"
  by (simp add: jmp_bytes_def)

lemma write_trampoline_eq: "write_trampoline_jmp x d m = st_bytes m x (jmp_bytes d)"
  using st_bytes_append [of m x "[0xff, 0x25, 0, 0, 0, 0]" "le_bytes 8 (unat d)"]
  by (simp add: write_trampoline_jmp_def st64_def jmp_bytes_def)

lemma decode_jmp_bytes_at:
  assumes "bytes_at m x (jmp_bytes d)"
  shows "decode_jmp m x = Some d"
proof -
  have a: "bytes_at m x [0xff, 0x25, 0, 0, 0, 0]" "bytes_at m (x + 6) (le_bytes 8 (unat d))"
    using assms unfolding jmp_bytes_def bytes_at_append by simp_all
  have "bytes_at m (x + 2) (le_bytes 4 (unat (0 :: u32)))"
    using a(1) by (simp add: bytes_at_Cons le_bytes_4 add.assoc)
  then have "ld32 m (x + 2) = 0" by (rule ld32_bytes_at)
  moreover have "ld64 m (x + 6) = d" by (rule ld64_bytes_at [OF a(2)])
  ultimately show ?thesis using a(1) by (simp add: decode_jmp_def bytes_at_Cons)
qed

lemma trampoline_early:
  "sym_get s name = Inr (Some e) \<Longrightarrow> trampoline_kernel_patch None name dest s =
     Inr (s\<lparr>mmem := st_bytes (mmem s) (ex_value e) (jmp_bytes dest)\<rparr>)"
  by (simp add: trampoline_kernel_patch_def write_trampoline_eq)

lemma patch_trampolines_ok:
  assumes "\<forall>(n, d) \<in> set ts. \<exists>e. sym_get s n = Inr (Some e) \<and> ex_value e = v n"
    and "sorted_wrt (\<lambda>a b. disjoint_regions (v (fst a)) 14 (v (fst b)) 14) ts"
  shows "\<exists>m'. patch_trampolines stub ts s = Inr (s\<lparr>mmem := m'\<rparr>) \<and>
     (\<forall>(n, d) \<in> set ts. bytes_at m' (v n) (jmp_bytes (stub d))) \<and>
     (\<forall>x. (\<forall>(n, d) \<in> set ts. \<not> in_region (v n) 14 x) \<longrightarrow> m' x = mmem s x) \<and>
     (\<forall>p bs. bytes_at (mmem s) p bs \<longrightarrow> length bs \<le> 2 ^ 64 \<longrightarrow>
       (\<forall>(n, d) \<in> set ts. disjoint_regions p (length bs) (v n) 14) \<longrightarrow> bytes_at m' p bs)"
  using assms
proof (induction ts arbitrary: s)
  case Nil
  have "s\<lparr>mmem := mmem s\<rparr> = s" by simp
  then show ?case by (auto intro: exI [of _ "mmem s"])
next
  case (Cons t ts)
  obtain n d where t: "t = (n, d)" by fastforce
  obtain e where e: "sym_get s n = Inr (Some e)" "ex_value e = v n" using Cons.prems(1) t by auto
  let ?s = "s\<lparr>mmem := st_bytes (mmem s) (v n) (jmp_bytes (stub d))\<rparr>"
  have r: "trampoline_kernel_patch None n (stub d) s = Inr ?s"
    using trampoline_early [OF e(1)] e(2) by simp
  obtain m' where m': "patch_trampolines stub ts ?s = Inr (?s\<lparr>mmem := m'\<rparr>)"
    "\<forall>(n, d) \<in> set ts. bytes_at m' (v n) (jmp_bytes (stub d))"
    "\<forall>x. (\<forall>(n, d) \<in> set ts. \<not> in_region (v n) 14 x) \<longrightarrow> m' x = mmem ?s x"
    "\<forall>p bs. bytes_at (mmem ?s) p bs \<longrightarrow> length bs \<le> 2 ^ 64 \<longrightarrow>
       (\<forall>(n, d) \<in> set ts. disjoint_regions p (length bs) (v n) 14) \<longrightarrow> bytes_at m' p bs"
    using Cons.IH [of ?s] Cons.prems by (auto simp: split_beta)
  have dj: "\<forall>(n', d') \<in> set ts. disjoint_regions (v n) 14 (v n') 14"
    using Cons.prems(2) t by auto
  have "bytes_at m' (v n) (jmp_bytes (stub d))"
    using m'(4) dj by (auto simp: bytes_at_st_bytes_same)
  moreover have "\<forall>x. (\<forall>(n', d') \<in> set (t # ts). \<not> in_region (v n') 14 x) \<longrightarrow> m' x = mmem s x"
    using m'(3) by (auto simp: t st_bytes_other)
  moreover have "\<forall>p bs. bytes_at (mmem s) p bs \<longrightarrow> length bs \<le> 2 ^ 64 \<longrightarrow>
       (\<forall>(n', d') \<in> set (t # ts). disjoint_regions p (length bs) (v n') 14) \<longrightarrow> bytes_at m' p bs"
    using m'(4) by (auto simp: t bytes_at_st_bytes_other)
  moreover have "patch_trampolines stub (t # ts) s = Inr (s\<lparr>mmem := m'\<rparr>)"
    using m'(1) r by (simp add: t)
  ultimately show ?case using m'(2) by (intro exI [of _ m']) (simp add: t)
qed

lemma patch_trampolines_missing:
  assumes "\<forall>(n, d) \<in> set ts. \<exists>r. sym_get s n = Inr r"
    and "\<exists>(n, d) \<in> set ts. sym_get s n = Inr None"
  shows "patch_trampolines stub ts s = Inl (ExitWith 1)"
  using assms
proof (induction ts arbitrary: s)
  case Nil
  then show ?case by simp
next
  case (Cons t ts)
  obtain n d where t: "t = (n, d)" by fastforce
  obtain r where r: "sym_get s n = Inr r" using Cons.prems(1) t by auto
  show ?case
  proof (cases r)
    case None
    with r show ?thesis by (simp add: t trampoline_kernel_patch_def)
  next
    case (Some e)
    let ?s = "s\<lparr>mmem := st_bytes (mmem s) (ex_value e) (jmp_bytes (stub d))\<rparr>"
    have "patch_trampolines stub ts ?s = Inl (ExitWith 1)"
      using Cons.prems r Some by (intro Cons.IH) (auto simp: t)
    with r Some show ?thesis by (simp add: t trampoline_early)
  qed
qed

section \<open>Properties\<close>

text \<open>The block that holds the kernel lies inside the mapping that was requested, is
  registered as TempleOS memory, and the module (which starts after the 32 bytes of header)
  is aligned as the header asks, for every alignment a header can ask for up to
  \<open>2 ^ 30\<close>, also those smaller than the header.\<close>
theorem kernel_placed_aligned:
  assumes bits: "unat bits \<le> 30"
    and pl: "placement (module_align_of bits) = (a, mis)"
    and inv: "mem_map_inv (memmap s)"
    and sz: "32 \<le> unat sz"
    and ptr: "ptr = alloc (allocs s) (sz + (a - 1) + 8 + mis)"
    and fit: "unat ptr + unat sz + (unat a - 1) + 8 + unat mis < 2 ^ 64"
  shows "\<exists>r s'. malloc_executable_aligned alloc sz a mis s = Inr (r, s') \<and>
    2 ^ unat bits dvd unat (r + TOSB_HEADER_SIZE) \<and>
    unat ptr \<le> unat r \<and> unat r + unat sz \<le> unat ptr + unat (sz + (a - 1) + 8 + mis) \<and>
    is_templeos_memory (memmap s') r"
proof -
  define n where "n = (if unat bits < 4 then 4 else unat bits)"
  have n: "n < 64" "unat bits \<le> n" using bits by (auto simp: n_def)
  have a: "a = 2 ^ n" and mis: "mis = (if unat bits < 5 then 0 else 2 ^ unat bits - 32)"
    using pl placement_eq [OF bits] by (auto simp: n_def split: if_splits)
  have ma: "a - 1 = mask n" by (simp add: a mask_eq_exp_minus_1)
  have ua: "unat a = 2 ^ n" using n(1) by (simp add: a unat_two_power)
  define r where "r = ((ptr + 8 + mask n) AND NOT (mask n)) + mis"
  have fit': "unat ptr + unat sz + (2 ^ n - 1) + 8 + unat mis < 2 ^ 64" using fit ua by simp
  note al = aligned_address [OF fit' n(1), folded r_def]
  obtain mm where mm: "register_templeos_memory r sz True (memmap s) = Inr mm"
    "mm_v mm = mm_v (memmap s) @ [\<lparr>me_mem = r, me_sz = sz, me_used = True, me_mmapped = True\<rparr>]"
    using register_ok [OF inv] by metis
  have run: "malloc_executable_aligned alloc sz a mis s =
      Inr (r, s\<lparr>allocs := Suc (allocs s), memmap := mm\<rparr>)"
    using mm(1) by (simp add: malloc_executable_aligned_def os_alloc_def mregister_def ptr [symmetric]
        ma r_def Let_def ptr)
  have one: "(1 :: nat) \<le> 2 ^ n" by simp
  have top: "unat r + unat sz < 2 ^ 64"
  proof -
    have "unat (sz + mask n + 8 + mis) \<le> unat sz + (2 ^ n - 1) + 8 + unat mis"
      using unat_add_le [of "sz + mask n + 8" mis] unat_add_le [of "sz + mask n" 8]
        unat_add_le [of sz "mask n"] unat_mask [OF n(1)] by simp
    with al(3) fit' show ?thesis by linarith
  qed
  have e32: "unat (32 :: u64) = 32" by simp
  have up: "unat (r + TOSB_HEADER_SIZE) = unat r + 32"
    using top sz e32 unfolding TOSB_HEADER_SIZE_def by (subst unat_plus64) linarith+
  have dv: "(2 :: nat) ^ unat bits dvd (unat ptr + 7 + 2 ^ n) div 2 ^ n * 2 ^ n"
    by (rule dvd_mult) (simp add: le_imp_power_dvd n(2))
  have "(2 :: nat) ^ unat bits dvd unat mis + 32"
  proof (cases "unat bits < 5")
    case True
    have "(2 :: nat) ^ unat bits dvd 2 ^ 5" using True by (intro le_imp_power_dvd) simp
    with True mis show ?thesis by simp
  next
    case False
    then have "(2 :: nat) ^ 5 \<le> 2 ^ unat bits" by (intro power_increasing) simp_all
    moreover have u: "unat (2 ^ unat bits :: u64) = 2 ^ unat bits"
      using bits by (intro unat_two_power) simp
    ultimately have le: "(32 :: u64) \<le> 2 ^ unat bits" by (simp add: word_le_nat_alt)
    from False mis have m: "mis = 2 ^ unat bits - 32" by simp
    have "unat mis = 2 ^ unat bits - 32" unfolding m by (simp only: unat_sub [OF le] u e32)
    with \<open>(2 :: nat) ^ 5 \<le> 2 ^ unat bits\<close> show ?thesis by simp
  qed
  with dv have "2 ^ unat bits dvd unat (r + TOSB_HEADER_SIZE)"
    unfolding up al(1) add.assoc by (rule dvd_add)
  moreover have "is_templeos_memory mm r"
  proof -
    have "unat (r + sz) = unat r + unat sz" using top by (rule unat_plus64)
    with sz have "r < r + sz" by (simp add: word_less_nat_alt)
    then show ?thesis by (simp add: is_templeos_memory_iff mm(2) entry_covers_def)
  qed
  ultimately show ?thesis using run al(2,3) ma by simp
qed

text \<open>The alignment of the kernel image in \<open>static.c\<close> (its header says 7 bits).\<close>

definition bare_machine :: machine where
  "bare_machine = hello_machine\<lparr>mmem := (\<lambda>_. 0)\<rparr>"

theorem kernel_placed_aligned_witness:
  "\<exists>r s'. malloc_executable_aligned (\<lambda>_ _. 0x40000000) 189760 128 96 bare_machine = Inr (r, s') \<and>
    (128 :: nat) dvd unat (r + TOSB_HEADER_SIZE) \<and> is_templeos_memory (memmap s') r"
proof -
  have "placement (module_align_of 7) = (128, 96)"
    by (simp add: placement_eq)
  moreover have "mem_map_inv (memmap bare_machine)"
    by (simp add: bare_machine_def hello_machine_def mem_map_inv_init)
  ultimately show ?thesis
    using kernel_placed_aligned [of 7 128 96 bare_machine 189760 "0x40000000" "\<lambda>_ _. 0x40000000"]
    by auto
qed

text \<open>The fourteen bytes \<open>write_trampoline_jmp\<close> stores are, for the processor, a jump
  to exactly the given address, and no other byte changes.\<close>
theorem trampoline_jumps:
  "decode_jmp (write_trampoline_jmp x d m) x = Some d \<and>
   (\<forall>y. \<not> in_region x 14 y \<longrightarrow> write_trampoline_jmp x d m y = m y)"
  by (simp add: write_trampoline_eq decode_jmp_bytes_at bytes_at_st_bytes_same st_bytes_other)

theorem trampoline_jumps_witness:
  "decode_jmp (write_trampoline_jmp 0x1000 0x1234567890 (\<lambda>_. 7)) 0x1000 = Some 0x1234567890 \<and>
   write_trampoline_jmp 0x1000 0x1234567890 (\<lambda>_. 7) 0x100e = 7"
  using trampoline_jumps [of "0x1000" "0x1234567890" "\<lambda>_. 7"] by (simp add: in_region_def)

text \<open>The addresses of the symbols a list of patches or trampolines names.\<close>

definition resolves :: "machine \<Rightarrow> (cstring \<Rightarrow> u64) \<Rightarrow> cstring list \<Rightarrow> bool" where
  "resolves s v ns \<longleftrightarrow> (\<forall>n \<in> set ns. sym_val s n = Inr (v n))"

lemma sym_val_InrD: "sym_val s n = Inr w \<Longrightarrow> \<exists>e. sym_get s n = Inr (Some e) \<and> ex_value e = w"
  by (auto simp: sym_val_def res_bind_Inr_iff split: option.splits)

lemma resolves_mem [simp]:
  "resolves (s\<lparr>mmem := m\<rparr>) v ns = resolves s v ns" "resolves (say msg s) v ns = resolves s v ns"
  by (simp_all add: resolves_def)

definition apart :: "(cstring \<Rightarrow> u64) \<Rightarrow> cstring list \<Rightarrow> bool" where
  "apart v ns \<longleftrightarrow> sorted_wrt (\<lambda>a b. disjoint_regions (v a) 14 (v b) 14) ns"

lemma setup_ok:
  assumes "resolves s v (map fst syscall_trampolines)" "apart v (map fst syscall_trampolines)"
  shows "\<exists>m'. setup_syscall_trampolines stub s = Inr (s\<lparr>mmem := m'\<rparr>) \<and>
     (\<forall>(n, d) \<in> set syscall_trampolines. bytes_at m' (v n) (jmp_bytes (stub d))) \<and>
     (\<forall>x. (\<forall>(n, d) \<in> set syscall_trampolines. \<not> in_region (v n) 14 x) \<longrightarrow> m' x = mmem s x)"
proof -
  have "\<forall>(n, d) \<in> set syscall_trampolines. \<exists>e. sym_get s n = Inr (Some e) \<and> ex_value e = v n"
    using assms(1) by (force simp: resolves_def dest!: sym_val_InrD)
  moreover have "sorted_wrt (\<lambda>a b. disjoint_regions (v (fst a)) 14 (v (fst b)) 14) syscall_trampolines"
    using assms(2) by (simp add: apart_def sorted_wrt_map)
  ultimately show ?thesis
    using patch_trampolines_ok [of syscall_trampolines s v stub]
    unfolding setup_syscall_trampolines_def by blast
qed

text \<open>When the replaced kernel functions are all in the symbol table and lie at least
  fourteen bytes apart, afterwards the entry of each is a jump to its own stub, nothing
  else in memory and no other part of the state changes.\<close>
theorem setup_trampolines_installs:
  assumes "resolves s v (map fst syscall_trampolines)" "apart v (map fst syscall_trampolines)"
  shows "\<exists>m'. setup_syscall_trampolines stub s = Inr (s\<lparr>mmem := m'\<rparr>) \<and>
     (\<forall>(n, d) \<in> set syscall_trampolines. decode_jmp m' (v n) = Some (stub d)) \<and>
     (\<forall>x. (\<forall>(n, d) \<in> set syscall_trampolines. \<not> in_region (v n) 14 x) \<longrightarrow> m' x = mmem s x)"
proof -
  obtain m' where m': "setup_syscall_trampolines stub s = Inr (s\<lparr>mmem := m'\<rparr>)"
    "\<forall>(n, d) \<in> set syscall_trampolines. bytes_at m' (v n) (jmp_bytes (stub d))"
    "\<forall>x. (\<forall>(n, d) \<in> set syscall_trampolines. \<not> in_region (v n) 14 x) \<longrightarrow> m' x = mmem s x"
    using setup_ok [OF assms, of stub] by blast
  have "\<forall>(n, d) \<in> set syscall_trampolines. decode_jmp m' (v n) = Some (stub d)"
    using m'(2) decode_jmp_bytes_at by blast
  with m'(1,3) show ?thesis by blast
qed

text \<open>When one of the functions is missing from the symbol table, setting up the
  trampolines ends the process with status 1.\<close>
theorem setup_trampolines_missing:
  assumes "hash_inv (symbols s)" "(n, d) \<in> set syscall_trampolines" "sym_get s n = Inr None"
  shows "setup_syscall_trampolines stub s = Inl (ExitWith 1)"
proof -
  have "\<exists>r. sym_get s k = Inr r" if "hash_key_ok k" for k
    using hash_get_ok [OF assms(1) that] by (auto simp: sym_get_def)
  moreover have "hash_key_ok k" if "(k, d) \<in> set syscall_trampolines" for k d
    using that by (auto simp: syscall_trampolines_def intro!: hash_key_ok_ascii)
  ultimately show ?thesis
    using assms(2,3) unfolding setup_syscall_trampolines_def
    by (intro patch_trampolines_missing) auto
qed

theorem setup_trampolines_missing_witness:
  "setup_syscall_trampolines (\<lambda>_. 0x1000) bare_machine = Inl (ExitWith 1)"
proof (rule setup_trampolines_missing)
  show i: "hash_inv (symbols bare_machine)"
    by (simp add: bare_machine_def hello_machine_def hash_inv_init)
  show "(''GetS'', ''asm_syscall_GetS'') \<in> set syscall_trampolines"
    by (simp add: syscall_trampolines_def)
  show "sym_get bare_machine ''GetS'' = Inr None"
    using hash_get_ok [OF i, of "''GetS''"] hash_get_init [of 4096 "''GetS''"]
    by (auto simp: sym_get_def bare_machine_def hello_machine_def hash_key_ok_ascii)
qed

text \<open>
  An example: a symbol table with one chain that holds all the names the loader patches,
  the functions and variables 4096 bytes apart.
\<close>

definition kernel_vars :: "cstring list" where
  "kernel_vars = [''mem_boot_base'', ''sys_boot_patch_table_base'', ''mem_mapped_space'']"

definition kernel_names :: "cstring list" where
  "kernel_names = map fst syscall_trampolines @ kernel_vars @
     [''_HASH_ADD'', ''ChkOnStk'', ''Panic'', ''HashTablePurge'', ''_HASH_REM_DEL'', ''RawPrint'',
      ''WinDerivedValsUpdate'', ''TaskInit'']"

definition kernel_addr_at :: "nat \<Rightarrow> u64" where
  "kernel_addr_at i = of_nat (0x10000 + 0x1000 * i)"

definition kernel_addr :: "cstring \<Rightarrow> u64" where
  "kernel_addr n = (case map_of (zip kernel_names [0..<33]) n of None \<Rightarrow> 0 | Some i \<Rightarrow> kernel_addr_at i)"

definition named_machine :: machine where
  "named_machine = bare_machine\<lparr>
     symbols := \<lparr>hh = [zip kernel_names [0..<33]], hsz = 1\<rparr>,
     exports := map (\<lambda>i. \<lparr>ex_type = 1, ex_value = kernel_addr_at i, ex_module_base = 0\<rparr>) [0..<33]\<rparr>"

lemma length_kernel_names: "length kernel_names = 33"
  by (simp add: kernel_names_def syscall_trampolines_def kernel_vars_def)

lemma distinct_kernel_names: "distinct kernel_names"
  by (simp add: kernel_names_def syscall_trampolines_def kernel_vars_def)

lemma chain_get_map_of: "chain_get es k = map_of es k"
  by (induction es k rule: chain_get.induct) auto

lemma kernel_name_index:
  "i < 33 \<Longrightarrow> map_of (zip kernel_names [0..<33]) (kernel_names ! i) = Some i"
  using map_of_zip_nth [of kernel_names "[0..<33]" i]
  by (simp add: length_kernel_names distinct_kernel_names)

lemma kernel_addr_nth: "i < 33 \<Longrightarrow> kernel_addr (kernel_names ! i) = kernel_addr_at i"
  by (simp add: kernel_addr_def kernel_name_index)

lemma named_machine_resolves: "set ns \<subseteq> set kernel_names \<Longrightarrow> resolves named_machine kernel_addr ns"
proof (unfold resolves_def, intro ballI)
  fix n
  assume "set ns \<subseteq> set kernel_names" "n \<in> set ns"
  then obtain i where i: "i < 33" "n = kernel_names ! i"
    by (metis in_set_conv_nth length_kernel_names subsetD)
  have "hash_slot (symbols named_machine) n = Inr 0"
    by (simp add: named_machine_def hash_slot_def signed_modulo_int_def signed_divide_int_def sgn_if)
  then show "sym_val named_machine n = Inr (kernel_addr n)"
    using i kernel_name_index [OF i(1)] kernel_addr_nth [OF i(1)]
    by (simp add: sym_val_def sym_get_def hash_get_def named_machine_def chain_get_map_of)
qed

lemma kernel_addr_apart:
  assumes "i < j" "j < 33" "k \<le> 14" "l \<le> 14"
  shows "disjoint_regions (kernel_addr_at i) k (kernel_addr_at j) l"
proof -
  have "unat (kernel_addr_at m) = 0x10000 + 0x1000 * m" if "m < 33" for m
    using that unfolding kernel_addr_at_def by (subst unat_of_nat) simp
  with assms show ?thesis by (intro disjoint_regionsI) simp_all
qed

theorem setup_trampolines_installs_witness:
  "\<exists>m'. setup_syscall_trampolines (\<lambda>d. of_nat (length d)) named_machine = Inr (named_machine\<lparr>mmem := m'\<rparr>) \<and>
     decode_jmp m' 0x10000 = Some 22"
proof -
  have "resolves named_machine kernel_addr (map fst syscall_trampolines)"
    by (rule named_machine_resolves) (auto simp: kernel_names_def)
  moreover have "apart kernel_addr (map fst syscall_trampolines)"
  proof -
    have len: "length syscall_trampolines = 22" by (simp add: syscall_trampolines_def)
    have n: "map fst syscall_trampolines ! i = kernel_names ! i" if "i < 22" for i
      using that len by (simp add: kernel_names_def nth_append)
    then show ?thesis
      unfolding apart_def sorted_wrt_iff_nth_less
      by (auto simp: n len kernel_addr_nth simp del: nth_map intro!: kernel_addr_apart)
  qed
  ultimately obtain m' where m': "setup_syscall_trampolines (\<lambda>d. of_nat (length d)) named_machine
      = Inr (named_machine\<lparr>mmem := m'\<rparr>)"
    "\<forall>(n, d) \<in> set syscall_trampolines. decode_jmp m' (kernel_addr n) = Some (of_nat (length d))"
    using setup_trampolines_installs [of named_machine kernel_addr "\<lambda>d. of_nat (length d)"] by blast
  have "(''RawPutChar'', ''asm_syscall_RawPutChar'') \<in> set syscall_trampolines"
    by (simp add: syscall_trampolines_def)
  with m'(2) have "decode_jmp m' (kernel_addr ''RawPutChar'') = Some 22" by fastforce
  moreover have "kernel_addr ''RawPutChar'' = 0x10000"
    using kernel_addr_nth [of 0] by (simp add: kernel_names_def syscall_trampolines_def kernel_addr_at_def)
  ultimately show ?thesis using m'(1) by auto
qed

subsection \<open>Instruction patches\<close>

definition patch_addr :: "(cstring \<Rightarrow> u64) \<Rightarrow> cstring \<times> u64 \<times> u8 \<times> u8 \<Rightarrow> u64" where
  "patch_addr v p = v (fst p) + fst (snd p)"

definition patch_hits :: "mem \<Rightarrow> (cstring \<Rightarrow> u64) \<Rightarrow> cstring \<times> u64 \<times> u8 \<times> u8 \<Rightarrow> bool" where
  "patch_hits m v p \<longleftrightarrow> m (patch_addr v p) = fst (snd (snd p))"

definition patched :: "mem \<Rightarrow> (cstring \<Rightarrow> u64) \<Rightarrow> (cstring \<times> u64 \<times> u8 \<times> u8) list \<Rightarrow> mem" where
  "patched m v ps =
     fold (\<lambda>p m'. m'(patch_addr v p := snd (snd (snd p)))) (filter (patch_hits m v) ps) m"

lemma patched_other: "\<forall>p \<in> set ps. patch_addr v p \<noteq> x \<Longrightarrow> patched m v ps x = m x"
proof -
  assume a: "\<forall>p \<in> set ps. patch_addr v p \<noteq> x"
  have "fold (\<lambda>p m'. m'(patch_addr v p := snd (snd (snd p)))) qs m x = m x"
    if "\<forall>p \<in> set qs. patch_addr v p \<noteq> x" for qs m
    using that by (induction qs arbitrary: m) auto
  with a show ?thesis by (simp add: patched_def)
qed

lemma patched_Cons:
  assumes "\<forall>q \<in> set ps. patch_addr v q \<noteq> patch_addr v p"
  shows "patched m v (p # ps) =
    patched (if patch_hits m v p then m(patch_addr v p := snd (snd (snd p))) else m) v ps"
proof -
  have "filter (patch_hits (m(patch_addr v p := b)) v) ps = filter (patch_hits m v) ps" for b
    using assms by (intro filter_cong) (auto simp: patch_hits_def)
  then show ?thesis by (simp add: patched_def)
qed

lemma patched_site:
  assumes "distinct (map (patch_addr v) ps)" "p \<in> set ps"
  shows "patched m v ps (patch_addr v p) =
    (if patch_hits m v p then snd (snd (snd p)) else m (patch_addr v p))"
  using assms
proof (induction ps arbitrary: m)
  case Nil
  then show ?case by simp
next
  case (Cons q ps)
  have d: "\<forall>r \<in> set ps. patch_addr v r \<noteq> patch_addr v q"
    using Cons.prems(1) by simp (metis image_eqI)
  show ?case
  proof (cases "p = q")
    case True
    with d show ?thesis by (simp add: patched_Cons [OF d] patched_other)
  next
    case False
    with Cons.prems have "p \<in> set ps" by simp
    moreover from this d have "patch_addr v p \<noteq> patch_addr v q" by blast
    ultimately show ?thesis
      using Cons.IH Cons.prems(1) by (simp add: patched_Cons [OF d] patch_hits_def)
  qed
qed

lemma apply_patches_eq:
  assumes "resolves s v (map fst ps)" "distinct (map (patch_addr v) ps)"
  shows "apply_patches ps s = Inr (s\<lparr>mmem := patched (mmem s) v ps,
    console := console s @ map (\<lambda>p. patch_error (fst p))
      (filter (\<lambda>p. \<not> patch_hits (mmem s) v p) ps)\<rparr>)"
  using assms
proof (induction ps arbitrary: s)
  case Nil
  then show ?case by (simp add: patched_def)
next
  case (Cons p ps)
  obtain n off orig repl where p: "p = (n, off, orig, repl)" by (cases p) auto
  have v: "sym_val s n = Inr (v n)" using Cons.prems(1) by (simp add: resolves_def p)
  have d: "\<forall>q \<in> set ps. patch_addr v q \<noteq> patch_addr v p"
    using Cons.prems(2) by simp (metis image_eqI)
  have r: "resolves s v (map fst ps)" "distinct (map (patch_addr v) ps)"
    using Cons.prems by (auto simp: resolves_def)
  have g: "\<not> patch_hits ((mmem s)(patch_addr v p := b)) v q \<longleftrightarrow> \<not> patch_hits (mmem s) v q"
    if "q \<in> set ps" for q b using d that by (auto simp: patch_hits_def)
  show ?case
  proof (cases "patch_hits (mmem s) v p")
    case True
    let ?s = "s\<lparr>mmem := (mmem s)(patch_addr v p := repl)\<rparr>"
    have "apply_patches (p # ps) s = apply_patches ps ?s"
      using True by (simp add: p kernel_patch_instruction_def v patch_hits_def patch_addr_def Let_def)
    also have "\<dots> = Inr (?s\<lparr>mmem := patched (mmem ?s) v ps,
      console := console s @ map (\<lambda>p. patch_error (fst p))
        (filter (\<lambda>p. \<not> patch_hits (mmem s) v p) ps)\<rparr>)"
    proof -
      have fl: "filter (\<lambda>p. \<not> patch_hits (mmem ?s) v p) ps = filter (\<lambda>p. \<not> patch_hits (mmem s) v p) ps"
        using g by (intro filter_cong) simp_all
      have "console ?s = console s" by simp
      with Cons.IH [of ?s] r show ?thesis unfolding fl by (simp only: resolves_mem simp_thms)
    qed
    finally have run: "apply_patches (p # ps) s = Inr (?s\<lparr>mmem := patched (mmem ?s) v ps,
      console := console s @ map (\<lambda>p. patch_error (fst p))
        (filter (\<lambda>p. \<not> patch_hits (mmem s) v p) ps)\<rparr>)" .
    have "snd (snd (snd p)) = repl" by (simp add: p)
    then have "patched (mmem s) v (p # ps) = patched (mmem ?s) v ps"
      using True by (simp add: patched_Cons [OF d])
    with run True show ?thesis by simp
  next
    case False
    let ?s = "say (patch_error n) s"
    have "apply_patches (p # ps) s = apply_patches ps ?s"
      using False by (simp add: p kernel_patch_instruction_def v patch_hits_def patch_addr_def Let_def)
    also have "\<dots> = Inr (?s\<lparr>mmem := patched (mmem s) v ps,
      console := console ?s @ map (\<lambda>p. patch_error (fst p))
        (filter (\<lambda>p. \<not> patch_hits (mmem s) v p) ps)\<rparr>)"
    proof -
      have "resolves ?s v (map fst ps)" using r(1) by simp
      from Cons.IH [OF this r(2)] show ?thesis by (simp add: say_def)
    qed
    finally have "apply_patches (p # ps) s = Inr (?s\<lparr>mmem := patched (mmem s) v ps,
      console := console ?s @ map (\<lambda>p. patch_error (fst p))
        (filter (\<lambda>p. \<not> patch_hits (mmem s) v p) ps)\<rparr>)" .
    moreover have "patched (mmem s) v (p # ps) = patched (mmem s) v ps"
      using False by (simp add: patched_Cons [OF d])
    moreover have "fst p = n" by (simp add: p)
    ultimately show ?thesis using False by (simp add: say_def)
  qed
qed

text \<open>Patching instructions at distinct addresses replaces a byte exactly where the byte
  that was expected is found, keeps every other byte, and reports each mismatch; a symbol
  that is missing makes the loader dereference NULL.\<close>
theorem patches_guarded:
  assumes "resolves s v (map fst ps)" "distinct (map (patch_addr v) ps)"
  shows "\<exists>s'. apply_patches ps s = Inr s' \<and>
    (\<forall>p \<in> set ps. mmem s' (patch_addr v p) =
       (if patch_hits (mmem s) v p then snd (snd (snd p)) else mmem s (patch_addr v p))) \<and>
    (\<forall>x. (\<forall>p \<in> set ps. patch_addr v p \<noteq> x) \<longrightarrow> mmem s' x = mmem s x) \<and>
    length (console s') = length (console s) + length (filter (\<lambda>p. \<not> patch_hits (mmem s) v p) ps) \<and>
    (\<forall>n off a b qs. sym_get s' n = Inr None \<longrightarrow>
       apply_patches ((n, off, a, b) # qs) s' = Inl NullDeref)"
  using apply_patches_eq [OF assms] patched_site [OF assms(2), of _ "mmem s"]
    patched_other [of ps v _ "mmem s"]
  by (auto simp: kernel_patch_instruction_def sym_val_def)

theorem patches_guarded_witness:
  "\<exists>s'. apply_patches [(''Panic'', 0x16, 0, 0x90), (''TaskInit'', 0x136, 0xe8, 0x90)] named_machine = Inr s' \<and>
     length (console s') = 1 \<and> mmem s' (kernel_addr ''Panic'' + 0x16) = 0x90"
proof -
  let ?ps = "[(''Panic'', 0x16, 0, 0x90), (''TaskInit'', 0x136, 0xe8, 0x90)] :: (cstring \<times> u64 \<times> u8 \<times> u8) list"
  have r: "resolves named_machine kernel_addr (map fst ?ps)"
    by (rule named_machine_resolves) (simp add: kernel_names_def)
  have k: "kernel_addr ''Panic'' = kernel_addr_at 27" "kernel_addr ''TaskInit'' = kernel_addr_at 32"
    using kernel_addr_nth [of 27] kernel_addr_nth [of 32]
    by (simp_all add: kernel_names_def syscall_trampolines_def kernel_vars_def)
  have d: "distinct (map (patch_addr kernel_addr) ?ps)"
    by (simp add: patch_addr_def k kernel_addr_at_def)
  have m: "mmem named_machine = (\<lambda>_. 0)" "console named_machine = []"
    by (simp_all add: named_machine_def bare_machine_def hello_machine_def)
  from patches_guarded [OF r d] show ?thesis
    by (auto simp: patch_hits_def patch_addr_def m)
qed

subsection \<open>The whole patching step\<close>

text \<open>The places written: 14 bytes for a trampoline, 8 for a variable; no two overlap.\<close>

definition patch_places :: "(cstring \<times> nat) list" where
  "patch_places = map (\<lambda>t. (fst t, 14)) syscall_trampolines @ map (\<lambda>n. (n, 8)) kernel_vars"

definition places_apart :: "(cstring \<Rightarrow> u64) \<Rightarrow> bool" where
  "places_apart v \<longleftrightarrow>
     sorted_wrt (\<lambda>a b. disjoint_regions (v (fst a)) (snd a) (v (fst b)) (snd b)) patch_places"

text \<open>C6: when all names resolve and the places do not overlap, patching the loaded kernel
  succeeds; afterwards every replaced function jumps to its stub and the kernel variables
  hold the module base, the address of the patch table and the size of mapped memory.\<close>
theorem patch_kernel_installs:
  assumes p: "resolves s v (map fst kernel_patches)" "distinct (map (patch_addr v) kernel_patches)"
    and t: "resolves s v (map fst patch_places)" "places_apart v"
  shows "\<exists>s'. patch_kernel stub base pt s = Inr s' \<and> symbols s' = symbols s \<and> exports s' = exports s \<and>
    (\<forall>(n, d) \<in> set syscall_trampolines. decode_jmp (mmem s') (v n) = Some (stub d)) \<and>
    ld64 (mmem s') (v ''mem_boot_base'') = base \<and>
    ld64 (mmem s') (v ''sys_boot_patch_table_base'') = pt \<and>
    ld64 (mmem s') (v ''mem_mapped_space'') = 4294967296"
proof -
  obtain s1 where s1: "apply_patches kernel_patches s = Inr s1"
    and same: "symbols s1 = symbols s" "exports s1 = exports s"
    using apply_patches_eq [OF p] by auto
  then have val: "sym_val s1 = sym_val s" by (intro sym_val_cong)
  have r1: "resolves s1 v (map fst syscall_trampolines)" "resolves s1 v kernel_vars"
    using t(1) by (auto simp: resolves_def val patch_places_def)
  have ap: "apart v (map fst syscall_trampolines)"
    using t(2) by (simp add: places_apart_def patch_places_def apart_def sorted_wrt_append sorted_wrt_map)
  have dv: "disjoint_regions (v n) 14 (v x) 8" if "(n, d) \<in> set syscall_trampolines" "x \<in> set kernel_vars" for n d x
    using t(2) that by (fastforce simp: places_apart_def patch_places_def sorted_wrt_append)
  have vv: "sorted_wrt (\<lambda>a b. disjoint_regions (v a) 8 (v b) 8) kernel_vars"
    using t(2) by (simp add: places_apart_def patch_places_def sorted_wrt_append sorted_wrt_map)
  obtain m where m: "setup_syscall_trampolines stub s1 = Inr (s1\<lparr>mmem := m\<rparr>)"
    "\<forall>(n, d) \<in> set syscall_trampolines. bytes_at m (v n) (jmp_bytes (stub d))"
    using setup_ok [OF r1(1) ap, of stub] by blast
  let ?m = "st64 (st64 (st64 m (v ''mem_boot_base'') base) (v ''sys_boot_patch_table_base'') pt)
    (v ''mem_mapped_space'') 4294967296"
  have "patch_kernel stub base pt s = Inr (s1\<lparr>mmem := ?m\<rparr>)"
    using s1 m(1) r1(2) by (simp add: patch_kernel_def kernel_patch_var64_def resolves_def kernel_vars_def)
  moreover have "decode_jmp ?m (v n) = Some (stub d)" if nd: "(n, d) \<in> set syscall_trampolines" for n d
    using nd m(2) dv [OF nd]
    by (intro decode_jmp_bytes_at bytes_at_st64) (auto simp: kernel_vars_def)
  moreover have "ld64 ?m (v ''mem_boot_base'') = base" "ld64 ?m (v ''sys_boot_patch_table_base'') = pt"
    "ld64 ?m (v ''mem_mapped_space'') = 4294967296"
    using vv by (simp_all add: kernel_vars_def ld64_st64_other ld64_st64)
  ultimately show ?thesis using same by auto
qed

theorem patch_kernel_installs_witness:
  "\<exists>s'. patch_kernel (\<lambda>d. of_nat (length d)) 0x40 0x50 named_machine = Inr s' \<and>
     ld64 (mmem s') (kernel_addr ''mem_boot_base'') = 0x40 \<and>
     decode_jmp (mmem s') (kernel_addr ''Spawn'') = Some 17"
proof -
  have r: "resolves named_machine kernel_addr (map fst kernel_patches)"
    "resolves named_machine kernel_addr (map fst patch_places)"
    by (rule named_machine_resolves,
        auto simp: kernel_patches_def kernel_names_def patch_places_def)+
  have k: "map (patch_addr kernel_addr) kernel_patches =
      [0x2901c, 0x2a017, 0x2b016, 0x2c026, 0x2d02c, 0x2e032, 0x2f018,
       0x30136, 0x30137, 0x30138, 0x30139, 0x3013a]"
    using kernel_addr_nth [of 25] kernel_addr_nth [of 26] kernel_addr_nth [of 27] kernel_addr_nth [of 28]
      kernel_addr_nth [of 29] kernel_addr_nth [of 30] kernel_addr_nth [of 31] kernel_addr_nth [of 32]
    by (simp add: kernel_patches_def patch_addr_def kernel_names_def syscall_trampolines_def
        kernel_vars_def kernel_addr_at_def)
  then have d: "distinct (map (patch_addr kernel_addr) kernel_patches)" by simp
  have "places_apart kernel_addr"
  proof -
    have len: "length patch_places = 25" by (simp add: patch_places_def syscall_trampolines_def kernel_vars_def)
    have n: "kernel_addr (fst (patch_places ! i)) = kernel_addr_at i" "snd (patch_places ! i) \<le> 14"
      if "i < 25" for i
    proof -
      have st: "length syscall_trampolines = 22" "length kernel_vars = 3"
        by (simp_all add: syscall_trampolines_def kernel_vars_def)
      have "fst (patch_places ! i) = kernel_names ! i" "snd (patch_places ! i) \<le> 14"
        using that st by (auto simp: patch_places_def kernel_names_def nth_append)
      then show "kernel_addr (fst (patch_places ! i)) = kernel_addr_at i" "snd (patch_places ! i) \<le> 14"
        using that by (simp_all add: kernel_addr_nth)
    qed
    show ?thesis
      unfolding places_apart_def sorted_wrt_iff_nth_less len by (auto simp: n intro!: kernel_addr_apart)
  qed
  then obtain s' where s': "patch_kernel (\<lambda>d. of_nat (length d)) 0x40 0x50 named_machine = Inr s'"
    "ld64 (mmem s') (kernel_addr ''mem_boot_base'') = 0x40"
    "\<forall>(n, d) \<in> set syscall_trampolines. decode_jmp (mmem s') (kernel_addr n) = Some (of_nat (length d))"
    using patch_kernel_installs [OF r(1) d r(2), of "\<lambda>d. of_nat (length d)" "0x40" "0x50"] by blast
  have "(''Spawn'', ''asm_syscall_Spawn'') \<in> set syscall_trampolines"
    by (simp add: syscall_trampolines_def)
  with s'(3) have "decode_jmp (mmem s') (kernel_addr ''Spawn'') = Some 17" by fastforce
  with s'(1,2) show ?thesis by blast
qed

subsection \<open>The header\<close>

lemma module_align_nonzero: "module_align_of bits \<noteq> 0"
proof -
  define n where "n = unat bits mod 32"
  then have "n \<le> 31" by simp
  then have "n \<in> {0,1,2,3,4,5,6,7,8,9,10,11,12,13,14,15,16,17,18,19,20,21,22,23,24,25,26,27,28,29,30,31}"
    by (simp only: insert_iff empty_iff) presburger
  then show ?thesis unfolding module_align_of_def n_def [symmetric] by (elim insertE emptyE) simp_all
qed

text \<open>The loader accepts an image exactly when it has the signature, the origin of a
  position independent module and the size it was built with; any other image ends the
  process with \<open>EXIT_FAILURE\<close>. The check of the alignment never fails.\<close>
theorem load_kernel_header_check:
  "(kernel_header_ok m k \<longleftrightarrow>
     bytes_at m (k + 4) [0x54, 0x4f, 0x53, 0x42] \<and>
     bytes_at m (k + 8) [0xff, 0xff, 0xff, 0xff, 0xff, 0xff, 0xff, 0x7f] \<and>
     bytes_at m (k + 24) [0x40, 0xe5, 0x02, 0, 0, 0, 0, 0]) \<and>
   (kernel_header_ok (mmem s) k \<or> load_kernel stub alloc k s = Some (Inl (ExitWith EXIT_FAILURE)))"
proof -
  have b: "le_bytes 8 0x7fffffffffffffff = [0xff, 0xff, 0xff, 0xff, 0xff, 0xff, 0xff, 0x7f]"
    "le_bytes 8 189760 = [0x40, 0xe5, 0x02, 0, 0, 0, 0, 0]"
    by (simp_all add: le_bytes_8 le_bytes_4)
  have "ld_bytes m (k + 4) 4 = map (\<lambda>c. of_nat (of_char c)) TOSB_SIGNATURE \<longleftrightarrow>
      bytes_at m (k + 4) [0x54, 0x4f, 0x53, 0x42]"
  proof -
    have "(4 :: nat) = Suc (Suc (Suc (Suc 0)))" by simp
    then show ?thesis by (simp only: ld_bytes.simps) (simp add: bytes_at_def TOSB_SIGNATURE_def)
  qed
  then have "kernel_header_ok m k \<longleftrightarrow>
     bytes_at m (k + 4) [0x54, 0x4f, 0x53, 0x42] \<and>
     bytes_at m (k + 8) [0xff, 0xff, 0xff, 0xff, 0xff, 0xff, 0xff, 0x7f] \<and>
     bytes_at m (k + 24) [0x40, 0xe5, 0x02, 0, 0, 0, 0, 0]"
    by (auto simp: kernel_header_ok_def read_uint64_def ld64_eq_iff b module_align_nonzero
        KERNEL_BIN_C_SIZE_def)
  moreover have "kernel_header_ok (mmem s) k \<or>
      load_kernel stub alloc k s = Some (Inl (ExitWith EXIT_FAILURE))"
    by (simp add: load_kernel_def)
  ultimately show ?thesis by blast
qed

text \<open>The first 32 bytes of \<open>kernel_bin_c\<close> in \<open>static.c\<close>.\<close>

definition kernel_bin_c_header :: "u8 list" where
  "kernel_bin_c_header =
     [0xeb, 0x1e, 0x07, 0x00, 0x54, 0x4f, 0x53, 0x42, 0xff, 0xff, 0xff, 0xff, 0xff, 0xff, 0xff, 0x7f,
      0xc0, 0x99, 0x02, 0x00, 0, 0, 0, 0, 0x40, 0xe5, 0x02, 0x00, 0, 0, 0, 0]"

theorem load_kernel_header_check_witness:
  "kernel_header_ok (st_bytes (\<lambda>_. 0) 0x1000 kernel_bin_c_header) 0x1000 \<and>
   load_kernel (\<lambda>_. 0) (\<lambda>_ _. 0) 0x1000 bare_machine = Some (Inl (ExitWith EXIT_FAILURE))"
proof -
  have "bytes_at (st_bytes (\<lambda>_. 0) 0x1000 kernel_bin_c_header) 0x1000 kernel_bin_c_header"
    by (rule bytes_at_st_bytes_same) (simp add: kernel_bin_c_header_def)
  then have "kernel_header_ok (st_bytes (\<lambda>_. 0) 0x1000 kernel_bin_c_header) 0x1000"
    using load_kernel_header_check [of "st_bytes (\<lambda>_. 0) 0x1000 kernel_bin_c_header" "0x1000"]
    by (auto simp: kernel_bin_c_header_def bytes_at_Cons)
  moreover have "\<not> kernel_header_ok (mmem bare_machine) 0x1000"
    using load_kernel_header_check [of "mmem bare_machine" "0x1000"]
    by (simp add: bare_machine_def bytes_at_Cons)
  ultimately show ?thesis using load_kernel_header_check [of _ "0x1000" bare_machine] by blast
qed

subsection \<open>Late patching\<close>

definition late_target :: "chash \<Rightarrow> bool" where
  "late_target he \<longleftrightarrow> is_hash_type he (HTT_EXPORT_SYS_SYM OR HTF_IMM) \<or> is_hash_type he HTT_FUN"

definition late_addr :: "chash \<Rightarrow> u64" where
  "late_addr he = (if is_hash_type he (HTT_EXPORT_SYS_SYM OR HTF_IMM) then ex_val he else fn_exe_addr he)"

text \<open>On a running system the first entry of the task's symbol tables with the name that
  is a system symbol or a function gets the jump; when the stub's address fits in 32 bits
  the symbol itself is redirected too; without such an entry the process exits.\<close>
theorem late_trampoline_patches_first:
  assumes tabs: "\<forall>h \<in> set (task_tables s Fs). table_ok h"
  shows "(case find (\<lambda>e. late_target (hobjs s e) \<and> he_str (hobjs s e) = name)
                (table_elems (task_tables s Fs)) of
      None \<Rightarrow> trampoline_kernel_patch (Some Fs) name dest s = Inl (ExitWith 1)
    | Some e \<Rightarrow> \<exists>s'. trampoline_kernel_patch (Some Fs) name dest s = Inr s' \<and>
        decode_jmp (mmem s') (late_addr (hobjs s e)) = Some dest \<and>
        (\<forall>x. \<not> in_region (late_addr (hobjs s e)) 14 x \<longrightarrow> mmem s' x = mmem s x) \<and>
        late_addr (hobjs s' e) = (if dest < 0x100000000 then dest else late_addr (hobjs s e)) \<and>
        (\<forall>e'. e' \<noteq> e \<longrightarrow> hobjs s' e' = hobjs s e'))"
proof -
  let ?P = "\<lambda>e. late_target (hobjs s e) \<and> he_str (hobjs s e) = name"
  let ?g = "\<lambda>e. case trampoline_body name dest s e of Inl s' \<Rightarrow> s' | Inr s' \<Rightarrow> s'"
  have body: "trampoline_body name dest s e = (if ?P e then Inl (?g e) else Inr s)" for e
    by (auto simp: trampoline_body_def late_target_def Let_def)
  have "thiter_for (\<lambda>s it. case it_he it of [] \<Rightarrow> Inr s | e # _ \<Rightarrow> trampoline_body name dest s e)
      s (thiter_new (task_tables s Fs)) =
      Inr (fold_exit (trampoline_body name dest) s (table_elems (task_tables s Fs)))"
    by (rule thiter_for_new [OF tabs]) (rule refl)
  then have run: "trampoline_kernel_patch (Some Fs) name dest s =
      (case find ?P (table_elems (task_tables s Fs)) of
         None \<Rightarrow> Inl (ExitWith 1) | Some e \<Rightarrow> Inr (?g e))"
    using fold_exit_find_at [where f = "trampoline_body name dest" and s = s and P = ?P and g = ?g, OF body]
    by (simp add: trampoline_kernel_patch_def split: option.splits)
  show ?thesis
  proof (cases "find ?P (table_elems (task_tables s Fs))")
    case None
    with run show ?thesis by simp
  next
    case (Some e)
    then have P: "?P e" by (auto dest: find_SomeD)
    have m: "mmem (?g e) = write_trampoline_jmp (late_addr (hobjs s e)) dest (mmem s)"
      using P by (auto simp: trampoline_body_def late_target_def late_addr_def Let_def)
    have h: "late_addr (hobjs (?g e) e) = (if dest < 0x100000000 then dest else late_addr (hobjs s e))"
      "\<forall>e'. e' \<noteq> e \<longrightarrow> hobjs (?g e) e' = hobjs s e'"
      using P by (auto simp: trampoline_body_def late_target_def late_addr_def Let_def is_hash_type_def)
    have j: "decode_jmp (mmem (?g e)) (late_addr (hobjs s e)) = Some dest"
      "\<forall>x. \<not> in_region (late_addr (hobjs s e)) 14 x \<longrightarrow> mmem (?g e) x = mmem s x"
      by (simp_all add: m write_trampoline_eq decode_jmp_bytes_at bytes_at_st_bytes_same st_bytes_other)
    from Some run show ?thesis by (simp only: option.simps) (intro exI [of _ "?g e"] conjI refl j h)
  qed
qed

definition late_machine :: machine where
  "late_machine = bare_machine\<lparr>task_tables := (\<lambda>_. [\<lparr>ht_mask = 0, ht_body = [[32, 48]]\<rparr>]),
     hobjs := (\<lambda>_. \<lparr>he_str = ''KbdMsHndlr'', he_type = HTT_GLBL_VAR, ex_val = 0, fn_exe_addr = 0x7000,
       mod_data0 = 0, gv_data_addr = 0\<rparr>)(48 := \<lparr>he_str = ''KbdMsHndlr'', he_type = HTT_FUN, ex_val = 0,
       fn_exe_addr = 0x7000, mod_data0 = 0, gv_data_addr = 0\<rparr>)\<rparr>"

theorem late_trampoline_patches_first_witness:
  "\<exists>s'. trampoline_kernel_patch (Some 0) ''KbdMsHndlr'' 0x5000 late_machine = Inr s' \<and>
     decode_jmp (mmem s') 0x7000 = Some 0x5000"
  using late_trampoline_patches_first [of late_machine 0 "''KbdMsHndlr''" "0x5000"]
  by (auto simp: late_machine_def table_ok_def table_elems_def late_target_def late_addr_def
      is_hash_type_def htt_defs)

end
