(* ===== verification/Utils.thy ===== *)
theory Utils
  imports Machine
begin

text \<open>
  \<open>lilith/utils.c\<close>: string helpers, \<open>writestr\<close>, the bit operations \<open>Bt\<close> and \<open>Bts\<close> with
  the two bit tables that \<open>main\<close> (\<open>lilith/lilith.c\<close>) builds with them, and the interning of
  paths, whose results are the cluster numbers TempleOS gets to see.
\<close>

unbundle bit_operations_syntax

section \<open>Strings\<close>

definition extension_is :: "cstring \<Rightarrow> cstring \<Rightarrow> bool" where
  "extension_is s ext =
     (if length s \<le> length ext then False
      else let p = drop (length s - length ext) s in p = ext)"

definition fileconcat :: "cstring \<Rightarrow> cstring \<Rightarrow> cstring" where
  "fileconcat p1 p2 =
     (let p = p1;
          p = (if length p = 0 \<or> p ! (length p - 1) \<noteq> CHR ''/'' then p @ ''/'' else p)
      in p @ p2)"

text \<open>The size of the buffer \<open>fileconcat\<close> allocates.\<close>

definition fileconcat_size :: "cstring \<Rightarrow> cstring \<Rightarrow> nat" where
  "fileconcat_size p1 p2 = length p1 + length p2 + 2"

lemma extension_is_iff: "extension_is s ext \<longleftrightarrow> (\<exists>base. base \<noteq> [] \<and> s = base @ ext)"
proof
  assume e: "extension_is s ext"
  then have "s = take (length s - length ext) s @ ext" "\<not> length s \<le> length ext"
    by (auto simp: extension_is_def Let_def split: if_splits) (metis append_take_drop_id)
  then show "\<exists>base. base \<noteq> [] \<and> s = base @ ext"
    by (intro exI [of _ "take (length s - length ext) s"]) auto
next
  assume "\<exists>base. base \<noteq> [] \<and> s = base @ ext"
  then show "extension_is s ext" by (auto simp: extension_is_def)
qed

lemma fileconcat_eq:
  "fileconcat p1 p2 = (if p1 \<noteq> [] \<and> last p1 = CHR ''/'' then p1 @ p2 else p1 @ ''/'' @ p2)"
  by (auto simp: fileconcat_def Let_def last_conv_nth)

lemma cstring_ok_fileconcat [simp]:
  "cstring_ok p1 \<Longrightarrow> cstring_ok p2 \<Longrightarrow> cstring_ok (fileconcat p1 p2)"
  by (auto simp: fileconcat_eq cstring_ok_def)

section \<open>Writing a string to a file descriptor\<close>

text \<open>
  The results of the successive calls of \<open>write\<close> are given by the environment; the value is
  what the calls took, or \<open>None\<close> when the environment has no further result (the call
  blocks). \<open>n\<close> is an \<open>int\<close>.
\<close>

fun writestr_loop :: "int list \<Rightarrow> cstring \<Rightarrow> int \<Rightarrow> cstring \<Rightarrow> cstring res option" where
  "writestr_loop [] p n out = (if n > 0 then None else Some (Inr out))"
| "writestr_loop (r # rs) p n out =
     (if n > 0 then
        if r = -1 then Some (Inl (ExitWith EXIT_FAILURE))
        else writestr_loop rs (drop (nat r) p) (n - r) (out @ take (nat r) p)
      else Some (Inr out))"

definition writestr :: "int list \<Rightarrow> cstring \<Rightarrow> cstring res option" where
  "writestr rs s = writestr_loop rs s (sint (of_nat (length s) :: u32)) []"

text \<open>
  What \<open>write\<close> promises of a blocking descriptor: each call takes at least one byte and no
  more than it was asked to, and there are enough calls.
\<close>

fun writes_ok :: "int list \<Rightarrow> int \<Rightarrow> bool" where
  "writes_ok [] n = (n = 0)"
| "writes_ok (r # rs) n = (n = 0 \<or> (0 < r \<and> r \<le> n \<and> writes_ok rs (n - r)))"

lemma writestr_loop_complete:
  "writes_ok rs (int (length p)) \<Longrightarrow>
   writestr_loop rs p (int (length p)) out = Some (Inr (out @ p))"
proof (induction rs arbitrary: p out)
  case Nil
  then show ?case by simp
next
  case (Cons r rs)
  show ?case
  proof (cases "p = []")
    case True
    then show ?thesis by simp
  next
    case False
    with Cons.prems have r: "0 < r" "r \<le> int (length p)" "writes_ok rs (int (length p) - r)" by auto
    then have len: "int (length p) - r = int (length (drop (nat r) p))" by simp
    have "writestr_loop (r # rs) p (int (length p)) out =
        writestr_loop rs (drop (nat r) p) (int (length p) - r) (out @ take (nat r) p)"
      using False r(1) by simp
    also have "\<dots> = Some (Inr ((out @ take (nat r) p) @ drop (nat r) p))"
      using Cons.IH r(3) unfolding len by blast
    finally show ?thesis by simp
  qed
qed

section \<open>Bit fields\<close>

definition Bt :: "mem \<Rightarrow> u64 \<Rightarrow> int \<Rightarrow> int" where
  "Bt m bit_field bit_num =
     (let bit_field = bit_field + of_int (bit_num div 8);
          bit_num = bit_num mod 8
      in if m bit_field AND push_bit (nat bit_num) 1 \<noteq> 0 then 1 else 0)"

definition Bts :: "mem \<Rightarrow> u64 \<Rightarrow> int \<Rightarrow> int \<times> mem" where
  "Bts m bit_field bit_num =
     (let bit_field = bit_field + of_int (bit_num div 8);
          bit_num = bit_num mod 8;
          result = m bit_field AND push_bit (nat bit_num) 1
      in (if result \<noteq> 0 then 1 else 0, m(bit_field := m bit_field OR push_bit (nat bit_num) 1)))"

lemma Bt_bit: "Bt m p b = (if bit (m (p + of_int (b div 8))) (nat (b mod 8)) then 1 else 0)"
  by (simp only: Bt_def Let_def bit_iff_and_push_bit_not_eq_0)

lemma Bts_bit:
  "fst (Bts m p b) = Bt m p b"
  "snd (Bts m p b) =
     m(p + of_int (b div 8) := m (p + of_int (b div 8)) OR push_bit (nat (b mod 8)) 1)"
  by (simp_all add: Bts_def Bt_def Let_def)

lemma of_int_inj64:
  assumes "(of_int a :: u64) = of_int b" "- (2 ^ 62) \<le> a" "a < 2 ^ 62" "- (2 ^ 62) \<le> b" "b < 2 ^ 62"
  shows "a = b"
proof -
  have "a mod 2 ^ 64 = b mod 2 ^ 64"
    using assms(1) by (simp add: word_of_int_eq_iff take_bit_eq_mod)
  then have "2 ^ 64 dvd a - b" by (simp only: mod_eq_dvd_iff)
  then obtain k where "a - b = 2 ^ 64 * k" by (rule dvdE)
  then have k: "a - b = 18446744073709551616 * k" by simp
  have "- 18446744073709551616 < a - b" "a - b < 18446744073709551616"
    using assms(2-5) by simp_all
  with k have "-1 < k" "k < 1" by linarith+
  with k show ?thesis by simp
qed

lemma bit_or_push:
  "n < 8 \<Longrightarrow> k < 8 \<Longrightarrow> bit (x OR 2 ^ n :: u8) k \<longleftrightarrow> bit x k \<or> k = n"
  by (auto simp: bit_simps)

text \<open>\<open>Bts\<close> returns the old value of the bit and sets exactly this bit of the field:
  \<open>Bt\<close> reads every other bit of it as before.\<close>
theorem Bts_sets_one_bit:
  assumes "- (2 ^ 31) \<le> a" "a < 2 ^ 31" "- (2 ^ 31) \<le> b" "b < 2 ^ 31"
  shows "fst (Bts m p a) = Bt m p a \<and> Bt (snd (Bts m p a)) p b = (if a = b then 1 else Bt m p b)"
proof -
  have eq: "p + of_int (a div 8) = p + of_int (b div 8) \<longleftrightarrow> a div 8 = b div 8"
    using of_int_inj64 [of "a div 8" "b div 8"] assms by auto
  have lt: "nat (a mod 8) < 8" "nat (b mod 8) < 8" by auto
  have ab: "a = b \<longleftrightarrow> a div 8 = b div 8 \<and> nat (b mod 8) = nat (a mod 8)"
    by (metis div_mult_mod_eq eq_nat_nat_iff pos_mod_sign zero_less_numeral)
  show ?thesis
  proof (cases "a div 8 = b div 8")
    case True
    then have "a = b \<longleftrightarrow> nat (b mod 8) = nat (a mod 8)" using ab by simp
    with True lt show ?thesis by (simp add: Bts_bit Bt_bit bit_or_push)
  next
    case False
    then have "p + of_int (a div 8) \<noteq> p + of_int (b div 8)" "a \<noteq> b" using eq by auto
    then show ?thesis by (simp add: Bts_bit Bt_bit)
  qed
qed

theorem Bts_sets_one_bit_witness:
  "Bt (snd (Bts (\<lambda>_. 0) 0x1000 9)) 0x1000 9 = 1 \<and> Bt (snd (Bts (\<lambda>_. 0) 0x1000 9)) 0x1000 10 = 0"
  using Bts_sets_one_bit [of 9 9 "\<lambda>_. 0" "0x1000"] Bts_sets_one_bit [of 9 10 "\<lambda>_. 0" "0x1000"]
  by (simp add: Bt_def)

section \<open>The bit tables of the kernel\<close>

text \<open>
  The loop in \<open>main\<close> that fills \<open>rev_bits_table\<close> and \<open>set_bits_table\<close>; \<open>(uint8_t *)(&i)\<close>
  points to the bytes of the \<open>int\<close> variable \<open>i\<close>, here at address 0 of a memory of its own.
\<close>

definition int_var :: "nat \<Rightarrow> mem" where
  "int_var i = st32 (\<lambda>_. 0) 0 (of_nat i)"

definition bit_tables_step :: "u64 \<Rightarrow> u64 \<Rightarrow> nat \<Rightarrow> nat \<Rightarrow> mem \<Rightarrow> mem" where
  "bit_tables_step rev_bits_table set_bits_table i j m =
     (let m = (if Bt (int_var i) 0 (7 - int j) \<noteq> 0
               then snd (Bts m (rev_bits_table + of_nat i) (int j)) else m)
      in if Bt (int_var i) 0 (int j) \<noteq> 0
         then m(set_bits_table + of_nat i := m (set_bits_table + of_nat i) + 1) else m)"

definition bit_tables :: "u64 \<Rightarrow> u64 \<Rightarrow> mem \<Rightarrow> mem" where
  "bit_tables rev_bits_table set_bits_table m =
     fold (\<lambda>i. fold (bit_tables_step rev_bits_table set_bits_table i) [0..<8]) [0..<256] m"

text \<open>The same on single bytes.\<close>

definition rev_step :: "u8 \<Rightarrow> nat \<Rightarrow> u8 \<Rightarrow> u8" where
  "rev_step x j b = (if bit x (7 - j) then b OR 2 ^ j else b)"

definition count_step :: "u8 \<Rightarrow> nat \<Rightarrow> u8 \<Rightarrow> u8" where
  "count_step x j c = (if bit x j then c + 1 else c)"

lemma int_var_0: "int_var i 0 = of_nat i"
proof -
  have "int_var i 0 = le_bytes 4 (unat (of_nat i :: u32)) ! 0"
    by (simp add: int_var_def st32_def st_bytes_apply in_region_def)
  also have "\<dots> = of_nat i" by (simp add: le_bytes_4) (rule bit_word_eqI, auto simp: bit_simps)
  finally show ?thesis .
qed

lemma Bt_int_var:
  assumes "j < 8"
  shows "Bt (int_var i) 0 (int j) \<noteq> 0 \<longleftrightarrow> bit (of_nat i :: u8) j"
    "Bt (int_var i) 0 (7 - int j) \<noteq> 0 \<longleftrightarrow> bit (of_nat i :: u8) (7 - j)"
proof -
  have "int j div 8 = 0" "(7 - int j) div 8 = 0" "nat (int j mod 8) = j" "nat ((7 - int j) mod 8) = 7 - j"
    using assms by auto
  then show "Bt (int_var i) 0 (int j) \<noteq> 0 \<longleftrightarrow> bit (of_nat i :: u8) j"
    "Bt (int_var i) 0 (7 - int j) \<noteq> 0 \<longleftrightarrow> bit (of_nat i :: u8) (7 - j)"
    by (simp_all add: Bt_bit int_var_0)
qed

lemma bit_tables_row:
  assumes "r + of_nat i \<noteq> s + of_nat i" "\<forall>j \<in> set js. j < 8"
  shows "fold (bit_tables_step r s i) js m =
    m(r + of_nat i := fold (rev_step (of_nat i)) js (m (r + of_nat i)),
      s + of_nat i := fold (count_step (of_nat i)) js (m (s + of_nat i)))"
  using assms(2)
proof (induction js arbitrary: m)
  case Nil
  then show ?case by simp
next
  case (Cons j js)
  then have j: "j < 8" "int j div 8 = 0" "nat (int j mod 8) = j" by auto
  have "bit_tables_step r s i j m =
      m(r + of_nat i := rev_step (of_nat i) j (m (r + of_nat i)),
        s + of_nat i := count_step (of_nat i) j (m (s + of_nat i)))"
    using assms(1) unfolding bit_tables_step_def Let_def Bt_int_var [OF j(1)]
    by (auto simp: Bts_bit rev_step_def count_step_def j fun_eq_iff)
  moreover have "\<forall>j \<in> set js. j < 8" using Cons.prems by simp
  ultimately show ?case using assms(1) by (simp add: Cons.IH) (rule ext, simp)
qed

lemma fold_rows:
  assumes "\<forall>i \<in> set is. \<forall>k \<in> set is. r + of_nat i \<noteq> (s :: u64) + of_nat k"
    and "\<forall>i \<in> set is. i < 2 ^ 64" "distinct is"
  shows "fold (\<lambda>i m. m(r + of_nat i := f i (m (r + of_nat i)), s + of_nat i := g i (m (s + of_nat i)))) is m =
    (\<lambda>x. if \<exists>i \<in> set is. x = r + of_nat i then f (unat (x - r)) (m x)
         else if \<exists>i \<in> set is. x = s + of_nat i then g (unat (x - s)) (m x) else m x)"
  using assms
proof (induction "is" arbitrary: m)
  case Nil
  then show ?case by simp
next
  case (Cons i "is")
  have u: "unat (of_nat k :: u64) = k" if "k \<in> set (i # is)" for k
    using Cons.prems(2) that by (auto simp: unat_of_nat)
  have inj: "(of_nat k :: u64) \<noteq> of_nat i" if "k \<in> set is" for k
  proof
    assume "(of_nat k :: u64) = of_nat i"
    then have "unat (of_nat k :: u64) = unat (of_nat i :: u64)" by simp
    moreover have "unat (of_nat k :: u64) = k" "unat (of_nat i :: u64) = i"
      using that by (auto intro!: u)
    ultimately have "k = i" by (simp only:)
    with that Cons.prems(3) show False by simp
  qed
  have h1: "\<forall>a \<in> set is. \<forall>k \<in> set is. r + of_nat a \<noteq> s + of_nat k"
    using Cons.prems(1) by (meson list.set_intros(2))
  have h2: "\<forall>a \<in> set is. a < 2 ^ 64" using Cons.prems(2) by (meson list.set_intros(2))
  have h3: "distinct is" using Cons.prems(3) by (rule distinct.simps(2) [THEN iffD1, THEN conjunct2])
  note hyp = h1 h2 h3
  have d: "r + of_nat i \<noteq> s + of_nat i" "\<And>k. k \<in> set is \<Longrightarrow> r + of_nat i \<noteq> s + of_nat k"
    "\<And>k. k \<in> set is \<Longrightarrow> s + of_nat i \<noteq> r + of_nat k"
    using Cons.prems(1) by (metis list.set_intros)+
  have o: "unat (r + of_nat i - r) = i" "unat (s + of_nat i - s) = i" using u [of i] by simp_all
  show ?case
  proof (rule ext)
    fix x
    let ?m = "m(r + of_nat i := f i (m (r + of_nat i)), s + of_nat i := g i (m (s + of_nat i)))"
    have e: "fold (\<lambda>i m. m(r + of_nat i := f i (m (r + of_nat i)), s + of_nat i := g i (m (s + of_nat i))))
        (i # is) m x =
      (if \<exists>i \<in> set is. x = r + of_nat i then f (unat (x - r)) (?m x)
       else if \<exists>i \<in> set is. x = s + of_nat i then g (unat (x - s)) (?m x) else ?m x)"
      by (simp add: Cons.IH [OF hyp])
    consider "x = r + of_nat i" | "x = s + of_nat i" | "x \<noteq> r + of_nat i" "x \<noteq> s + of_nat i" by blast
    then show "fold (\<lambda>i m. m(r + of_nat i := f i (m (r + of_nat i)), s + of_nat i := g i (m (s + of_nat i))))
        (i # is) m x =
      (if \<exists>i \<in> set (i # is). x = r + of_nat i then f (unat (x - r)) (m x)
       else if \<exists>i \<in> set (i # is). x = s + of_nat i then g (unat (x - s)) (m x) else m x)"
    proof cases
      case 1
      then have "\<not> (\<exists>i \<in> set is. x = r + of_nat i)" using inj by (metis add_left_cancel)
      moreover have "\<not> (\<exists>i \<in> set is. x = s + of_nat i)" using 1 d(2) by metis
      ultimately show ?thesis using 1 e o d(1) by simp
    next
      case 2
      then have "\<not> (\<exists>i \<in> set is. x = s + of_nat i)" using inj by (metis add_left_cancel)
      moreover have "\<not> (\<exists>i \<in> set is. x = r + of_nat i)" using 2 d(3) by metis
      ultimately show ?thesis using 2 e o d(1) by simp
    next
      case 3
      with e show ?thesis by simp
    qed
  qed
qed


lemma rev_steps: "k < 8 \<Longrightarrow> bit (fold (rev_step x) [0..<8] 0) k \<longleftrightarrow> bit x (7 - k)"
proof -
  assume k: "k < 8"
  have st: "bit (rev_step x j b) k \<longleftrightarrow> bit b k \<or> (k = j \<and> bit x (7 - j))" if "j < 8" for j b
    using bit_or_push [OF that k, of b] by (simp add: rev_step_def)
  have "bit (fold (rev_step x) js b) k \<longleftrightarrow> bit b k \<or> (k \<in> set js \<and> bit x (7 - k))"
    if "\<forall>j \<in> set js. j < 8" for js b
    using that by (induction js arbitrary: b) (auto simp: st)
  from this [of "[0..<8]" 0] k show ?thesis by simp
qed

lemma count_steps: "unat (fold (count_step x) [0..<8] 0) = length (filter (bit x) [0..<8])"
proof -
  have "fold (count_step x) js c = c + of_nat (length (filter (bit x) js))" for js c
    by (induction js arbitrary: c) (auto simp: count_step_def algebra_simps)
  moreover have "length (filter (bit x) [0..<8]) \<le> 8" by (metis length_filter_le length_upt diff_zero)
  ultimately show ?thesis by (simp add: unat_of_nat)
qed

text \<open>C34: the table loop of \<open>main\<close> leaves in \<open>rev_bits_table\<close> the bits of each byte value in
  reverse order and in \<open>set_bits_table\<close> the number of its set bits, and writes nothing
  outside the two tables.\<close>
theorem bit_tables_correct:
  assumes "disjoint_regions r 256 s 256"
    and "\<forall>i < 256. m (r + of_nat i) = 0 \<and> m (s + of_nat i) = 0"
  shows "(\<forall>i < 256. \<forall>k < 8. bit (bit_tables r s m (r + of_nat i)) k \<longleftrightarrow> bit (of_nat i :: u8) (7 - k)) \<and>
    (\<forall>i < 256. unat (bit_tables r s m (s + of_nat i)) = length (filter (bit (of_nat i :: u8)) [0..<8])) \<and>
    (\<forall>x. \<not> in_region r 256 x \<and> \<not> in_region s 256 x \<longrightarrow> bit_tables r s m x = m x)"
proof -
  have d: "r + of_nat i \<noteq> s + of_nat k" if "i < 256" "k < 256" for i k
  proof
    assume e: "r + of_nat i = s + of_nat k"
    have "in_region r 256 (r + of_nat i)" "in_region s 256 (s + of_nat k)"
      using that by (auto intro: in_region_add)
    with e assms(1) show False unfolding disjoint_regions_def by metis
  qed
  have "r \<noteq> s" using d [of 0 0] by simp
  note rs = this
  have rows: "bit_tables r s m = fold (\<lambda>i m. m(r + of_nat i := fold (rev_step (of_nat i)) [0..<8] (m (r + of_nat i)),
      s + of_nat i := fold (count_step (of_nat i)) [0..<8] (m (s + of_nat i)))) [0..<256] m"
    unfolding bit_tables_def
    by (rule fold_cong [OF refl refl]) (rule ext, rule bit_tables_row, simp_all add: rs)
  have "\<forall>i \<in> set [0..<256]. \<forall>k \<in> set [0..<256]. r + of_nat i \<noteq> s + of_nat k"
    using d by simp
  note eq = fold_rows [OF this, where f = "\<lambda>i. fold (rev_step (of_nat i)) [0..<8]"
      and g = "\<lambda>i. fold (count_step (of_nat i)) [0..<8]" and m = m, folded rows]
  have eq: "bit_tables r s m = (\<lambda>x.
      if \<exists>i \<in> set [0..<256]. x = r + of_nat i then fold (rev_step (of_nat (unat (x - r)))) [0..<8] (m x)
      else if \<exists>i \<in> set [0..<256]. x = s + of_nat i then fold (count_step (of_nat (unat (x - s)))) [0..<8] (m x)
      else m x)"
    by (rule eq) simp_all
  have u: "unat (of_nat i :: u64) = i" if "i < 256" for i
    using that by (simp add: unat_of_nat)
  have R: "bit_tables r s m (r + of_nat i) = fold (rev_step (of_nat i)) [0..<8] 0" if i: "i < 256" for i
  proof -
    have "\<exists>k \<in> set [0..<256]. r + of_nat i = r + of_nat k" using i by auto
    then show ?thesis using assms(2) i u [OF i] by (subst eq) simp
  qed
  have S: "bit_tables r s m (s + of_nat i) = fold (count_step (of_nat i)) [0..<8] 0" if i: "i < 256" for i
  proof -
    have "\<exists>k \<in> set [0..<256]. s + of_nat i = s + of_nat k" using i by auto
    moreover have "\<not> (\<exists>k \<in> set [0..<256]. s + of_nat i = r + of_nat k)" using d i by fastforce
    ultimately show ?thesis using assms(2) i u [OF i] by (subst eq) simp
  qed
  have O: "bit_tables r s m x = m x" if "\<not> in_region r 256 x" "\<not> in_region s 256 x" for x
  proof -
    have "x \<noteq> r + of_nat i" "x \<noteq> s + of_nat i" if "i < 256" for i
      using that \<open>\<not> in_region r 256 x\<close> \<open>\<not> in_region s 256 x\<close> by (auto intro: in_region_add)
    then show ?thesis by (subst eq) auto
  qed
  show ?thesis by (intro conjI allI impI) (simp_all add: R S O rev_steps count_steps)
qed

theorem bit_tables_correct_witness:
  "bit (bit_tables 0x1000 0x2000 (\<lambda>_. 0) 0x1003) 7 \<and>
   unat (bit_tables 0x1000 0x2000 (\<lambda>_. 0) 0x207f) = 7"
proof -
  have "disjoint_regions 0x1000 256 0x2000 256" by (rule disjoint_regionsI) simp_all
  note c = bit_tables_correct [OF this, of "\<lambda>_. 0"]
  have "bit (bit_tables 0x1000 0x2000 (\<lambda>_. 0) (0x1000 + of_nat 3)) 7 \<longleftrightarrow> bit (of_nat 3 :: u8) (7 - 7)"
    by (rule c [THEN conjunct1, rule_format]) simp_all
  moreover have "unat (bit_tables 0x1000 0x2000 (\<lambda>_. 0) (0x2000 + of_nat 0x7f)) =
      length (filter (bit (of_nat 0x7f :: u8)) [0..<8])"
    by (rule c [THEN conjunct2, THEN conjunct1, rule_format]) simp_all
  ultimately show ?thesis by (simp add: upt_rec)
qed

section \<open>Interned paths\<close>

text \<open>
  \<open>intern_path\<close> keeps a copy of each path it is given; the address of the copy is the value
  of the \<open>export_t\<close> stored in \<open>paths_table\<close>. The function asks \<open>malloc\<close> for the
  \<open>export_t\<close> and for the copy; the table stores the values of the \<open>export_t\<close> objects.
  Calls are serialised by \<open>paths_table_mutex\<close>.
\<close>

record path_state =
  pmem :: mem
  ptable :: "u64 hash_t"
  pallocs :: nat

definition strclone :: "allocator \<Rightarrow> nat \<Rightarrow> cstring \<Rightarrow> mem \<Rightarrow> u64 \<times> mem" where
  "strclone alloc n s m = (let r = alloc n (of_nat (length s) + 1) in (r, st_bytes m r (cstr_bytes s)))"

definition intern_path :: "allocator \<Rightarrow> cstring \<Rightarrow> path_state \<Rightarrow> (u64 \<times> path_state) res" where
  "intern_path alloc p s =
     res_bind (hash_get (ptable s) p) (\<lambda>e. case e of
       Some val \<Rightarrow> Inr (val, s)
     | None \<Rightarrow>
         (let (k, m) = strclone alloc (pallocs s + 1) p (pmem s)
          in res_bind (hash_put (ptable s) p k) (\<lambda>h.
               Inr (k, \<lparr>pmem = m, ptable = h, pallocs = pallocs s + 2\<rparr>))))"

text \<open>
  What \<open>malloc\<close> promises for the first \<open>N\<close> requests of at most \<open>L\<close> bytes each, none of
  which is freed: the blocks do not overlap.
\<close>

definition blocks_apart :: "allocator \<Rightarrow> nat \<Rightarrow> nat \<Rightarrow> bool" where
  "blocks_apart alloc N L \<longleftrightarrow>
     (\<forall>j < N. \<forall>i < j. \<forall>a b. unat a \<le> L \<longrightarrow> unat b \<le> L \<longrightarrow>
        disjoint_regions (alloc i a) (unat a) (alloc j b) (unat b))"

lemma blocks_apartD:
  "blocks_apart alloc N L \<Longrightarrow> i < j \<Longrightarrow> j < N \<Longrightarrow> unat a \<le> L \<Longrightarrow> unat b \<le> L \<Longrightarrow>
   disjoint_regions (alloc i a) (unat a) (alloc j b) (unat b)"
  by (simp add: blocks_apart_def)

definition interned :: "allocator \<Rightarrow> nat \<Rightarrow> path_state \<Rightarrow> cstring \<Rightarrow> u64 \<Rightarrow> bool" where
  "interned alloc L s k a \<longleftrightarrow> cstring_ok k \<and> length k < L \<and>
     (\<exists>i < pallocs s. a = alloc i (of_nat (length k) + 1)) \<and> bytes_at (pmem s) a (cstr_bytes k)"

definition paths_inv :: "allocator \<Rightarrow> nat \<Rightarrow> path_state \<Rightarrow> bool" where
  "paths_inv alloc L s \<longleftrightarrow> hash_inv (ptable s) \<and> L < 2 ^ 32 \<and>
     (\<forall>k a. hash_key_ok k \<longrightarrow> hash_get (ptable s) k = Inr (Some a) \<longrightarrow> interned alloc L s k a)"

lemma interned_cstr: "interned alloc L s k a \<Longrightarrow> cstr_at (pmem s) a = Some k"
  by (auto simp: interned_def intro: cstr_at_bytes_at)

lemma intern_again: "hash_get (ptable s) p = Inr (Some a) \<Longrightarrow> intern_path alloc p s = Inr (a, s)"
  by (simp add: intern_path_def)

lemma unat_len_1: "n < 2 ^ 32 \<Longrightarrow> unat (of_nat n + 1 :: u64) = n + 1"
  by (simp add: unat_word_ariths unat_of_nat)

lemma intern_new:
  assumes inv: "paths_inv alloc L s" and p: "hash_key_ok p" "cstring_ok p" "length p < L"
    and n: "pallocs s + 2 \<le> N" "blocks_apart alloc N L"
    and new: "hash_get (ptable s) p = Inr None"
  shows "\<exists>a s'. intern_path alloc p s = Inr (a, s') \<and> paths_inv alloc L s' \<and>
    hash_get (ptable s') p = Inr (Some a) \<and>
    (\<forall>q. hash_key_ok q \<longrightarrow> q \<noteq> p \<longrightarrow> hash_get (ptable s') q = hash_get (ptable s) q)"
proof -
  have hi: "hash_inv (ptable s)" and L: "L < 2 ^ 32" using inv by (auto simp: paths_inv_def)
  let ?a = "alloc (pallocs s + 1) (of_nat (length p) + 1)"
  obtain h where h: "hash_put (ptable s) p ?a = Inr h" "hash_inv h" using ht.put_total [OF hi p(1)] by blast
  have g: "hash_get h p = Inr (Some ?a)" by (rule ht.get_put_fresh [OF hi p(1) new h(1)])
  have o: "hash_get h q = hash_get (ptable s) q" if "hash_key_ok q" "q \<noteq> p" for q
    by (rule ht.get_put_other [OF hi p(1) that h(1)])
  let ?s = "\<lparr>pmem = st_bytes (pmem s) ?a (cstr_bytes p), ptable = h, pallocs = pallocs s + 2\<rparr>"
  have "interned alloc L ?s k a" if k: "hash_key_ok k" "hash_get h k = Inr (Some a)" for k a
  proof (cases "k = p")
    case True
    have "bytes_at (st_bytes (pmem s) ?a (cstr_bytes p)) ?a (cstr_bytes p)"
      using p(3) L by (intro bytes_at_st_bytes_same) simp
    moreover have "a = ?a" using True k g by simp
    ultimately show ?thesis using True p by (auto simp: interned_def)
  next
    case False
    with k o inv have i: "interned alloc L s k a" by (auto simp: paths_inv_def)
    then obtain j where j: "j < pallocs s" "a = alloc j (of_nat (length k) + 1)" "length k < L"
      by (auto simp: interned_def)
    have "disjoint_regions a (unat (of_nat (length k) + 1 :: u64)) ?a (unat (of_nat (length p) + 1 :: u64))"
      unfolding j(2) using n j p(3) L
      by (intro blocks_apartD [OF n(2)]) (simp_all add: unat_len_1)
    then have "disjoint_regions a (length (cstr_bytes k)) ?a (length (cstr_bytes p))"
      using j(3) p(3) L by (simp add: unat_len_1)
    then have "bytes_at (st_bytes (pmem s) ?a (cstr_bytes p)) a (cstr_bytes k)"
      using i j(3) p(3) L by (intro bytes_at_st_bytes_other) (simp_all add: interned_def)
    moreover have "\<exists>i < pallocs s + 2. a = alloc i (of_nat (length k) + 1)"
      using j(1,2) by (intro exI [of _ j]) simp
    ultimately show ?thesis using i by (simp add: interned_def)
  qed
  then have "paths_inv alloc L ?s" using h L by (simp add: paths_inv_def)
  with new h g o show ?thesis by (auto simp: intern_path_def strclone_def Let_def)
qed

text \<open>The contract of \<open>intern_path\<close> for the file system.\<close>

lemma intern_path_ok:
  assumes "paths_inv alloc L s" "hash_key_ok p" "cstring_ok p" "length p < L"
    and "pallocs s + 2 \<le> N" "blocks_apart alloc N L"
  shows "\<exists>a s'. intern_path alloc p s = Inr (a, s') \<and> paths_inv alloc L s' \<and>
    cstr_at (pmem s') a = Some p \<and> intern_path alloc p s' = Inr (a, s') \<and>
    (\<forall>q b. hash_key_ok q \<longrightarrow> hash_get (ptable s) q = Inr (Some b) \<longrightarrow>
       intern_path alloc q s' = Inr (b, s') \<and> cstr_at (pmem s') b = Some q)"
proof -
  have hi: "hash_inv (ptable s)" using assms(1) by (simp add: paths_inv_def)
  obtain r where r: "hash_get (ptable s) p = Inr r" using hash_get_ok [OF hi assms(2)] by blast
  obtain a s' where s': "intern_path alloc p s = Inr (a, s')" "paths_inv alloc L s'"
    "hash_get (ptable s') p = Inr (Some a)"
    "\<forall>q. hash_key_ok q \<longrightarrow> q \<noteq> p \<longrightarrow> hash_get (ptable s') q = hash_get (ptable s) q"
  proof (cases r)
    case None
    with r show ?thesis using intern_new [OF assms] that by blast
  next
    case (Some a)
    with r show ?thesis using intern_again [of s p a alloc] assms(1) by (intro that) auto
  qed
  have old: "hash_get (ptable s') q = Inr (Some b)"
    if qq: "hash_key_ok q" "hash_get (ptable s) q = Inr (Some b)" for q b
  proof (cases "q = p")
    case True
    with qq have "intern_path alloc p s = Inr (b, s)" by (simp add: intern_again)
    with s'(1) True qq show ?thesis by simp
  next
    case False
    with qq s'(4) show ?thesis by simp
  qed
  have c: "cstr_at (pmem s') b = Some q" if "hash_key_ok q" "hash_get (ptable s') q = Inr (Some b)" for q b
    using that s'(2) interned_cstr by (auto simp: paths_inv_def)
  show ?thesis
    using s' old c assms(2) by (intro exI [of _ a] exI [of _ s']) (simp add: intern_again)
qed

text \<open>C35: interning a path returns the address of a NUL-terminated copy of it; a second call
  returns the same address, addresses given out before still hold their paths, and the
  invariant is kept. So the cluster number of a file is a stable name for its path.\<close>
theorem intern_path_stable:
  assumes "paths_inv alloc L s" "hash_key_ok p" "cstring_ok p" "length p < L"
    and "pallocs s + 2 \<le> N" "blocks_apart alloc N L"
  shows "\<exists>a s'. intern_path alloc p s = Inr (a, s') \<and> paths_inv alloc L s' \<and>
    cstr_at (pmem s') a = Some p \<and> intern_path alloc p s' = Inr (a, s') \<and>
    (\<forall>q b. hash_key_ok q \<longrightarrow> hash_get (ptable s) q = Inr (Some b) \<longrightarrow>
       intern_path alloc q s' = Inr (b, s') \<and> cstr_at (pmem s') b = Some q)"
  using intern_path_ok [OF assms] .

definition bump_alloc :: allocator where
  "bump_alloc n sz = of_nat (0x10000 * (n + 1))"

lemma bump_alloc_apart: "blocks_apart bump_alloc 1000 4096"
proof -
  have u: "unat (bump_alloc n sz) = 0x10000 * (n + 1)" if "n < 1000" for n sz
    using that unfolding bump_alloc_def by (subst unat_of_nat) simp
  show ?thesis
    unfolding blocks_apart_def by (auto intro!: disjoint_regionsI simp: u)
qed

theorem intern_path_stable_witness:
  "\<exists>a s'. intern_path bump_alloc ''/Home'' \<lparr>pmem = (\<lambda>_. 0), ptable = hash_init 4096, pallocs = 0\<rparr> = Inr (a, s') \<and>
    cstr_at (pmem s') a = Some ''/Home'' \<and> intern_path bump_alloc ''/Home'' s' = Inr (a, s')"
proof -
  have "paths_inv bump_alloc 4096 \<lparr>pmem = (\<lambda>_. 0), ptable = hash_init 4096, pallocs = 0\<rparr>"
    by (auto simp: paths_inv_def hash_inv_init dest: hash_get_init)
  moreover have "hash_key_ok ''/Home''" by (rule hash_key_ok_ascii) simp_all
  ultimately show ?thesis
    using intern_path_stable [of bump_alloc 4096 _ "''/Home''" 1000] bump_alloc_apart
    by (fastforce simp: cstring_ok_def)
qed

text \<open>\<open>writestr\<close> hands the whole string to \<open>write\<close>, in order and exactly once, however
  \<open>write\<close> splits it; a failing \<open>write\<close> ends the process.\<close>
theorem writestr_writes_all:
  assumes "length s < 2 ^ 31" "writes_ok rs (int (length s))"
  shows "writestr rs s = Some (Inr s) \<and> (s = [] \<or> writestr (-1 # rs) s = Some (Inl (ExitWith EXIT_FAILURE)))"
proof -
  have "sint (of_nat (length s) :: u32) = int (length s)"
    using assms(1) by (simp add: sint_uint signed_take_bit_int_eq_self take_bit_nat_eq_self uint_nat unat_of_nat)
  then show ?thesis using writestr_loop_complete [OF assms(2), of "[]"] by (simp add: writestr_def)
qed

theorem writestr_writes_all_witness:
  "writestr [3, 1, 6] ''could not '' = Some (Inr ''could not '')"
  using writestr_writes_all [of "''could not ''" "[3, 1, 6]"] by simp

text \<open>\<open>extension_is\<close> accepts exactly the strings that end in the extension and have
  something before it, and the buffer of \<open>fileconcat\<close> holds its result with the final NUL,
  which is the two parts with a slash between them unless the first one ends in a slash.\<close>
theorem path_helpers_correct:
  "(extension_is s ext \<longleftrightarrow> (\<exists>base. base \<noteq> [] \<and> s = base @ ext)) \<and>
   length (fileconcat p1 p2) + 1 \<le> fileconcat_size p1 p2 \<and>
   fileconcat p1 p2 = (if p1 \<noteq> [] \<and> last p1 = CHR ''/'' then p1 @ p2 else p1 @ ''/'' @ p2)"
  unfolding extension_is_iff by (auto simp: fileconcat_eq fileconcat_size_def)

end
