(* ===== verification/Layout.thy ===== *)
theory Layout
  imports CMem
begin

text \<open>
  The data TempleOS and Lilith share in memory: the C declarations of
  \<open>lilith/templeos_defs.h\<close>, of \<open>lilith/task.c\<close> and of \<open>lilith/syscalls.c\<close> as values of a
  type of C types, with the size, alignment and field offsets the x86-64 ABI gives them.
  TempleOS lays its structs out without padding, so the declarations are right where the
  two layouts coincide. Signed and unsigned fields of a size are not distinguished.
\<close>

section \<open>C types\<close>

datatype ctype =
    Prim nat            \<comment> \<open>a scalar, aligned to its size\<close>
  | Arr ctype nat
  | Struct fields
and fields =
    NoFields
  | Field string ctype fields

primrec struct_fields :: "(string \<times> ctype) list \<Rightarrow> fields" where
  "struct_fields [] = NoFields"
| "struct_fields (f # fs) = Field (fst f) (snd f) (struct_fields fs)"

definition struct_of :: "(string \<times> ctype) list \<Rightarrow> ctype" where
  "struct_of fs = Struct (struct_fields fs)"

definition round_up :: "nat \<Rightarrow> nat \<Rightarrow> nat" where
  "round_up off a = (off + (a - 1)) div a * a"

primrec calign :: "ctype \<Rightarrow> nat" and falign :: "fields \<Rightarrow> nat" where
  "calign (Prim n) = n"
| "calign (Arr t k) = calign t"
| "calign (Struct fs) = falign fs"
| "falign NoFields = 1"
| "falign (Field n t fs) = max (calign t) (falign fs)"

primrec csize :: "ctype \<Rightarrow> nat" and fend :: "fields \<Rightarrow> nat \<Rightarrow> nat" where
  "csize (Prim n) = n"
| "csize (Arr t k) = csize t * k"
| "csize (Struct fs) = round_up (fend fs 0) (falign fs)"
| "fend NoFields off = off"
| "fend (Field n t fs) off = fend fs (round_up off (calign t) + csize t)"

text \<open>Fields with their offsets, as the ABI lays them out and without any padding.\<close>

primrec offsets :: "fields \<Rightarrow> nat \<Rightarrow> (string \<times> nat) list" where
  "offsets NoFields off = []"
| "offsets (Field n t fs) off =
     (n, round_up off (calign t)) # offsets fs (round_up off (calign t) + csize t)"

primrec packed_size :: "ctype \<Rightarrow> nat" and packed_end :: "fields \<Rightarrow> nat" where
  "packed_size (Prim n) = n"
| "packed_size (Arr t k) = packed_size t * k"
| "packed_size (Struct fs) = packed_end fs"
| "packed_end NoFields = 0"
| "packed_end (Field n t fs) = packed_size t + packed_end fs"

primrec packed_offsets :: "fields \<Rightarrow> nat \<Rightarrow> (string \<times> nat) list" where
  "packed_offsets NoFields off = []"
| "packed_offsets (Field n t fs) off = (n, off) # packed_offsets fs (off + packed_size t)"

fun struct_offsets :: "ctype \<Rightarrow> (string \<times> nat) list" where
  "struct_offsets (Struct fs) = offsets fs 0"
| "struct_offsets _ = []"

fun struct_packed_offsets :: "ctype \<Rightarrow> (string \<times> nat) list" where
  "struct_packed_offsets (Struct fs) = packed_offsets fs 0"
| "struct_packed_offsets _ = []"

definition offsetof :: "ctype \<Rightarrow> string \<Rightarrow> nat" where
  "offsetof t f = (case map_of (struct_offsets t) f of None \<Rightarrow> 0 | Some n \<Rightarrow> n)"

definition U8 :: ctype where "U8 = Prim 1"
definition U16 :: ctype where "U16 = Prim 2"
definition U32 :: ctype where "U32 = Prim 4"
definition I64 :: ctype where "I64 = Prim 8"
definition F64 :: ctype where "F64 = Prim 8"
definition PTR :: ctype where "PTR = Prim 8"

text \<open>The sizes of the pthread types are those of glibc on x86-64.\<close>

definition PTHREAD_MUTEX_T :: ctype where "PTHREAD_MUTEX_T = Arr I64 5"
definition PTHREAD_COND_T :: ctype where "PTHREAD_COND_T = Arr I64 6"

lemmas scalar_defs = U8_def U16_def U32_def I64_def F64_def PTR_def PTHREAD_MUTEX_T_def PTHREAD_COND_T_def

section \<open>The declarations\<close>

definition CHashTable :: ctype where
  "CHashTable = struct_of
     [(''next'', PTR), (''mask'', I64), (''locked_flags'', I64), (''body'', PTR)]"

definition CHash :: ctype where
  "CHash = struct_of
     [(''next'', PTR), (''str'', PTR), (''type'', U32), (''use_cnt'', U32)]"

definition CHashSrcSym :: ctype where
  "CHashSrcSym = struct_of
     [(''super'', CHash), (''src_link'', PTR), (''idx'', PTR), (''dbg_info'', PTR),
      (''import_name'', PTR), (''ie_lst'', PTR)]"

definition CHashExport :: ctype where
  "CHashExport = struct_of
     [(''super'', CHashSrcSym), (''val'', I64)]"

definition CHashGeneric :: ctype where
  "CHashGeneric = struct_of
     [(''super'', CHash), (''user_data0'', I64), (''user_data1'', I64), (''user_data2'', I64)]"

definition CHashClass :: ctype where
  "CHashClass = struct_of
     [(''super'', CHashSrcSym), (''size'', I64), (''neg_offset'', I64), (''member_cnt'', U32),
      (''ptr_stars_cnt'', U8), (''raw_type'', U8), (''flags'', U16),
      (''member_lst_and_root'', PTR), (''member_class_base_root'', PTR),
      (''last_in_member_lst'', PTR), (''base_class'', PTR), (''fwd_class'', PTR)]"

definition CHashFun :: ctype where
  "CHashFun = struct_of
     [(''super'', CHashClass), (''return_class'', PTR), (''arg_cnt'', U32), (''pad'', U32),
      (''used_reg_mask'', U32), (''clobbered_reg_mask'', U32), (''exe_addr'', PTR),
      (''ext_lst'', PTR)]"

definition CArrayDim :: ctype where
  "CArrayDim = struct_of
     [(''next'', PTR), (''cnt'', I64), (''total_cnt'', I64)]"

definition CHashGlblVar :: ctype where
  "CHashGlblVar = struct_of
     [(''super'', CHashSrcSym), (''size'', I64), (''flags'', I64), (''var_class'', PTR),
      (''fun_ptr'', PTR), (''dim'', CArrayDim), (''data_addr'', PTR), (''data_addr_rip'', I64)]"

definition CJobCtrl :: ctype where
  "CJobCtrl = struct_of
     [(''next_waiting'', PTR), (''last_waiting'', PTR), (''next_done'', PTR),
      (''last_done'', PTR), (''flags'', I64)]"

definition CWinScroll :: ctype where
  "CWinScroll = struct_of
     [(''min'', I64), (''pos'', I64), (''max'', I64), (''flags'', U32), (''color'', U8),
      (''pad'', (Arr U8 3))]"

definition CTask :: ctype where
  "CTask = struct_of
     [(''addr'', PTR), (''task_signature'', U32), (''win_inhibit'', U32),
      (''wake_jiffy'', I64), (''task_flags'', U32), (''display_flags'', U32),
      (''code_heap'', I64), (''data_heap'', I64), (''put_doc'', PTR), (''display_doc'', PTR),
      (''border_doc'', PTR), (''win_left'', I64), (''win_right'', I64), (''win_top'', I64),
      (''win_bottom'', I64), (''cur_dv'', PTR), (''cur_dir'', PTR), (''parent_task'', PTR),
      (''next_task'', PTR), (''last_task'', PTR), (''next_input_filter_task'', PTR),
      (''last_input_filter_task'', PTR), (''next_sibling_task'', PTR),
      (''last_sibling_task'', PTR), (''next_child_task'', PTR), (''last_child_task'', PTR),
      (''win_width'', I64), (''win_height'', I64), (''pix_left'', I64), (''pix_right'', I64),
      (''pix_width'', I64), (''pix_top'', I64), (''pix_bottom'', I64), (''pix_height'', I64),
      (''scroll_x'', I64), (''scroll_y'', I64), (''scroll_z'', I64), (''rip'', I64),
      (''rflags'', I64), (''rsp'', I64), (''rsi'', I64), (''rax'', I64), (''rcx'', I64),
      (''rdx'', I64), (''rbx'', I64), (''rbp'', I64), (''rdi'', I64), (''r8'', I64),
      (''r9'', I64), (''r10'', I64), (''r11'', I64), (''r12'', I64), (''r13'', I64),
      (''r14'', I64), (''r15'', I64), (''gs'', PTR), (''fpu_mmx'', PTR), (''swap_cnter'', I64),
      (''draw_it'', PTR), (''task_title'', (Arr U8 144)), (''task_name'', (Arr U8 32)),
      (''wallpaper_data'', (Arr U8 144)), (''title_src'', U8), (''border_src'', U8),
      (''text_attr'', U8), (''border_attr'', U8), (''win_z_num'', U16), (''pad'', U16),
      (''stk'', PTR), (''next_except'', PTR), (''last_except'', PTR), (''except_rbp'', I64),
      (''except_ch'', I64), (''except_callers'', (Arr PTR 8)), (''catch_except'', U8),
      (''new_answer'', U8), (''answer_type'', U8), (''pad2'', (Arr U8 5)), (''answer'', I64),
      (''answer_time'', F64), (''bpt_lst'', PTR), (''next_ctrl'', PTR), (''last_ctrl'', PTR),
      (''cur_menu'', PTR), (''next_settings'', PTR), (''next_ode'', PTR), (''last_ode'', PTR),
      (''last_ode_time'', F64), (''hash_table'', PTR), (''srv_ctrl'', CJobCtrl),
      (''next_cc'', PTR), (''last_cc'', PTR), (''last_fun'', PTR), (''task_end_cb'', PTR),
      (''song_task'', PTR), (''animate_task'', PTR), (''rand_seed'', I64), (''task_num'', I64),
      (''fault_num'', I64), (''fault_err_code'', I64), (''popup_task'', PTR),
      (''dbg_task'', PTR), (''horz_scroll'', CWinScroll), (''vert_scroll'', CWinScroll),
      (''user_data'', I64), (''lilith_task_mutex'', PTHREAD_MUTEX_T),
      (''lilith_enqueued_cond'', PTHREAD_COND_T), (''lilith_idle_cond'', PTHREAD_COND_T)]"

definition CGrGlbls :: ctype where
  "CGrGlbls = struct_of
     [(''to_8_bits'', PTR), (''to_8_colors'', PTR), (''scrn_image'', PTR), (''dc'', PTR),
      (''dc1'', PTR), (''dc2'', PTR), (''dc_cache'', PTR), (''zoomed_dc'', PTR),
      (''text_base'', PTR), (''win_z_buf'', PTR), (''sprite_hash'', PTR),
      (''win_uncovered_bitmap'', PTR), (''highest_uncovered'', I64), (''vga_text_cache'', PTR),
      (''pan_text_x'', I64), (''pan_text_y'', I64), (''fp_final_scrn_update'', PTR),
      (''fp_wall_paper'', PTR), (''fp_draw_ms'', PTR), (''fp_draw_grab_ms'', PTR),
      (''empty_sprite'', PTR), (''pen_brushes'', (Arr PTR 64)),
      (''collision_pen_brushes'', (Arr PTR 64)), (''even_pen_brushes'', (Arr PTR 64)),
      (''odd_pen_brushes'', (Arr PTR 64)), (''circle_lo'', (Arr (Arr U8 64) 64)),
      (''circle_hi'', (Arr (Arr U8 64) 64)), (''scrn_zoom_tables'', (Arr PTR 9)),
      (''scrn_zoom'', I64), (''sx'', I64), (''sy'', I64), (''continuous_scroll'', U8),
      (''hide_row'', U8), (''hide_col'', U8)]"

definition CD3I32 :: ctype where
  "CD3I32 = struct_of
     [(''x'', U32), (''y'', U32), (''z'', U32)]"

definition CGrSym :: ctype where
  "CGrSym = struct_of
     [(''sx'', U32), (''sy'', U32), (''sz'', U32), (''pad'', U32), (''snx'', I64),
      (''sny'', I64), (''snz'', I64)]"

definition CDC :: ctype where
  "CDC = struct_of
     [(''cdate'', I64), (''x0'', U32), (''y0'', U32), (''width'', U32),
      (''width_internal'', U32), (''height'', U32), (''flags'', U32),
      (''palette'', (Arr I64 16)), (''color'', U32), (''bkcolor'', U32), (''color2'', U32),
      (''ls'', CD3I32), (''dither_probability_u16'', I64), (''brush'', PTR), (''r'', PTR),
      (''r_norm'', I64), (''x'', U32), (''y'', U32), (''z'', U32), (''thick'', U32),
      (''transform'', PTR), (''lighting'', PTR), (''sym'', CGrSym), (''cur_x'', U32),
      (''cur_y'', U32), (''cur_z'', U32), (''pad'', U32), (''collision_cnt'', I64),
      (''nearest_dist'', I64), (''min_x'', I64), (''max_x'', I64), (''min_y'', I64),
      (''max_y'', I64), (''dc_signature'', U32), (''pad2'', U32), (''mem_task'', PTR),
      (''win_task'', PTR), (''alias'', PTR), (''body'', PTR), (''depth_buf'', PTR),
      (''db_z'', I64)]"

definition CTextGlbls :: ctype where
  "CTextGlbls = struct_of
     [(''raw_col'', I64), (''raw_flags'', I64), (''raw_scrn_image'', PTR), (''rows'', I64),
      (''cols'', I64), (''font'', PTR), (''aux_font'', PTR), (''vga_alias'', PTR),
      (''vga_text_alias'', PTR), (''border_chars'', (Arr U8 16))]"

definition CCPU :: ctype where
  "CCPU = struct_of
     [(''addr'', PTR), (''num'', I64), (''cpu_flags'', I64), (''startup_rip'', I64),
      (''idle_pt_hits'', I64), (''idle_factor'', F64), (''total_jiffies'', I64),
      (''seth_task'', PTR), (''idle_task'', PTR), (''tr'', I64), (''swap_cnter'', I64),
      (''profiler_timer_irq'', PTR), (''next_dying'', PTR), (''last_dying'', PTR),
      (''kill_jiffy'', I64), (''tss'', PTR), (''start_stk'', (Arr I64 16)),
      (''glibc_fs'', I64), (''glibc_gs'', I64)]"

definition CTSS :: ctype where
  "CTSS = struct_of
     [(''res1'', U32), (''rsp0'', I64), (''rsp1'', I64), (''rsp2'', I64), (''res2'', I64),
      (''ist1'', I64), (''ist2'', I64), (''ist3'', I64), (''ist4'', I64), (''ist5'', I64),
      (''ist6'', I64), (''ist7'', I64), (''res3'', I64), (''res4'', U16),
      (''io_map_offset'', U16), (''io_map'', (Arr U8 8192)), (''st0'', PTR), (''st1'', PTR),
      (''st2'', PTR), (''tr'', U16), (''tr_ring3'', U16)]"

definition CDrv :: ctype where
  "CDrv = struct_of
     [(''locked_flags'', I64), (''dv_signature'', U32), (''drv_let'', U8), (''pad'', U8),
      (''fs_type'', U16), (''drv_offset'', I64), (''size'', I64), (''prt_num'', I64),
      (''file_system_info_sect'', I64), (''fat1'', I64), (''fat2'', I64), (''root_clus'', I64),
      (''data_area'', I64), (''spc'', I64), (''fat32_local_time_offset'', I64),
      (''owning_task'', PTR), (''bd'', PTR), (''fis'', PTR), (''fat_blk_dirty'', I64),
      (''cur_fat_blk_num'', I64), (''cur_fat_blk'', PTR), (''next_free'', PTR),
      (''last_free'', PTR)]"

definition CBlkDev :: ctype where
  "CBlkDev = struct_of
     [(''lock_fwding'', PTR), (''locked_flags'', I64), (''bd_signature'', U32),
      (''type'', U32), (''flags'', U32), (''first_drv_let'', U8), (''unit'', U8),
      (''pad'', (Arr U8 2)), (''base0'', U32), (''base1'', U32), (''blk_size'', U32),
      (''drv_offset'', I64), (''init_root_dir_blks'', I64), (''max_blk'', I64),
      (''dev_id_record'', PTR), (''RAM_dsk'', PTR), (''file_dsk_name'', PTR),
      (''file_dsk'', PTR), (''owning_task'', PTR), (''last_time'', F64), (''max_reads'', U32),
      (''max_writes'', U32)]"

definition CBlkDevGlbls :: ctype where
  "CBlkDevGlbls = struct_of
     [(''blkdevs'', PTR), (''dft_iso_filename'', PTR), (''dft_iso_c_filename'', PTR),
      (''tmp_filename'', PTR), (''home_dir'', PTR), (''cache_base'', PTR),
      (''cache_ctrl'', PTR), (''cache_hash_table'', PTR), (''cache_size'', I64),
      (''read_cnt'', I64), (''write_cnt'', I64), (''drvs'', PTR),
      (''let_to_drv'', (Arr PTR 32)), (''mount_ide_auto_cnt'', I64), (''ins_base0'', I64),
      (''ins_base1'', I64), (''boot_drv_let'', U8), (''first_hd_drv_let'', U8),
      (''first_dvd_drv_let'', U8), (''dvd_boot_is_good'', U8), (''ins_unit'', U8),
      (''pad'', (Arr U8 3))]"

definition CTaskStk :: ctype where
  "CTaskStk = struct_of
     [(''next_stk'', PTR), (''stk_size'', I64), (''stk_ptr'', I64), (''stk_base'', PTR)]"

definition CDirEntry :: ctype where
  "CDirEntry = struct_of
     [(''next'', PTR), (''parent'', PTR), (''sub'', PTR), (''full_name'', PTR),
      (''user_data'', I64), (''user_data2'', I64), (''attr'', U16), (''name'', (Arr U8 38)),
      (''clus'', I64), (''size'', I64), (''time'', U32), (''date'', U32)]"

definition CDateStruct :: ctype where
  "CDateStruct = struct_of
     [(''sec10000'', U8), (''sec100'', U8), (''sec'', U8), (''min'', U8), (''hour'', U8),
      (''day_of_week'', U8), (''day_of_mon'', U8), (''mon'', U8), (''year'', U32)]"

section \<open>The layouts\<close>

lemma Field_cong: "t = t' \<Longrightarrow> fs = fs' \<Longrightarrow> Field n t fs = Field n t' fs'"
  by simp

lemma field_pair_cong: "t = t' \<Longrightarrow> (n :: string, t :: ctype) = (n, t')"
  by simp

named_theorems layout_simps \<open>sizes, alignments and field offsets\<close>

lemma CHashTable_size [layout_simps]: "csize CHashTable = 32" "calign CHashTable = 8" "packed_size CHashTable = 32"
  by (simp_all add: CHashTable_def struct_of_def scalar_defs round_up_def layout_simps cong: Field_cong field_pair_cong)+

lemma CHashTable_offsets [layout_simps]: "struct_offsets CHashTable =
    [(''next'', 0), (''mask'', 8), (''locked_flags'', 16), (''body'', 24)]"
  by (simp add: CHashTable_def struct_of_def scalar_defs round_up_def layout_simps cong: Field_cong field_pair_cong)

lemma CHashTable_packed: "struct_packed_offsets CHashTable =
    [(''next'', 0), (''mask'', 8), (''locked_flags'', 16), (''body'', 24)]"
  by (simp add: CHashTable_def struct_of_def scalar_defs round_up_def layout_simps cong: Field_cong field_pair_cong)

lemma CHash_size [layout_simps]: "csize CHash = 24" "calign CHash = 8" "packed_size CHash = 24"
  by (simp_all add: CHash_def struct_of_def scalar_defs round_up_def layout_simps cong: Field_cong field_pair_cong)+

lemma CHash_offsets [layout_simps]: "struct_offsets CHash =
    [(''next'', 0), (''str'', 8), (''type'', 16), (''use_cnt'', 20)]"
  by (simp add: CHash_def struct_of_def scalar_defs round_up_def layout_simps cong: Field_cong field_pair_cong)

lemma CHash_packed: "struct_packed_offsets CHash =
    [(''next'', 0), (''str'', 8), (''type'', 16), (''use_cnt'', 20)]"
  by (simp add: CHash_def struct_of_def scalar_defs round_up_def layout_simps cong: Field_cong field_pair_cong)

lemma CHashSrcSym_size [layout_simps]: "csize CHashSrcSym = 64" "calign CHashSrcSym = 8" "packed_size CHashSrcSym = 64"
  by (simp_all add: CHashSrcSym_def struct_of_def scalar_defs round_up_def layout_simps cong: Field_cong field_pair_cong)+

lemma CHashSrcSym_offsets [layout_simps]: "struct_offsets CHashSrcSym =
    [(''super'', 0), (''src_link'', 24), (''idx'', 32), (''dbg_info'', 40),
     (''import_name'', 48), (''ie_lst'', 56)]"
  by (simp add: CHashSrcSym_def struct_of_def scalar_defs round_up_def layout_simps cong: Field_cong field_pair_cong)

lemma CHashSrcSym_packed: "struct_packed_offsets CHashSrcSym =
    [(''super'', 0), (''src_link'', 24), (''idx'', 32), (''dbg_info'', 40),
     (''import_name'', 48), (''ie_lst'', 56)]"
  by (simp add: CHashSrcSym_def struct_of_def scalar_defs round_up_def layout_simps cong: Field_cong field_pair_cong)

lemma CHashExport_size [layout_simps]: "csize CHashExport = 72" "calign CHashExport = 8" "packed_size CHashExport = 72"
  by (simp_all add: CHashExport_def struct_of_def scalar_defs round_up_def layout_simps cong: Field_cong field_pair_cong)+

lemma CHashExport_offsets [layout_simps]: "struct_offsets CHashExport =
    [(''super'', 0), (''val'', 64)]"
  by (simp add: CHashExport_def struct_of_def scalar_defs round_up_def layout_simps cong: Field_cong field_pair_cong)

lemma CHashExport_packed: "struct_packed_offsets CHashExport =
    [(''super'', 0), (''val'', 64)]"
  by (simp add: CHashExport_def struct_of_def scalar_defs round_up_def layout_simps cong: Field_cong field_pair_cong)

lemma CHashGeneric_size [layout_simps]: "csize CHashGeneric = 48" "calign CHashGeneric = 8" "packed_size CHashGeneric = 48"
  by (simp_all add: CHashGeneric_def struct_of_def scalar_defs round_up_def layout_simps cong: Field_cong field_pair_cong)+

lemma CHashGeneric_offsets [layout_simps]: "struct_offsets CHashGeneric =
    [(''super'', 0), (''user_data0'', 24), (''user_data1'', 32), (''user_data2'', 40)]"
  by (simp add: CHashGeneric_def struct_of_def scalar_defs round_up_def layout_simps cong: Field_cong field_pair_cong)

lemma CHashGeneric_packed: "struct_packed_offsets CHashGeneric =
    [(''super'', 0), (''user_data0'', 24), (''user_data1'', 32), (''user_data2'', 40)]"
  by (simp add: CHashGeneric_def struct_of_def scalar_defs round_up_def layout_simps cong: Field_cong field_pair_cong)

lemma CHashClass_size [layout_simps]: "csize CHashClass = 128" "calign CHashClass = 8" "packed_size CHashClass = 128"
  by (simp_all add: CHashClass_def struct_of_def scalar_defs round_up_def layout_simps cong: Field_cong field_pair_cong)+

lemma CHashClass_offsets [layout_simps]: "struct_offsets CHashClass =
    [(''super'', 0), (''size'', 64), (''neg_offset'', 72), (''member_cnt'', 80),
     (''ptr_stars_cnt'', 84), (''raw_type'', 85), (''flags'', 86),
     (''member_lst_and_root'', 88), (''member_class_base_root'', 96),
     (''last_in_member_lst'', 104), (''base_class'', 112), (''fwd_class'', 120)]"
  by (simp add: CHashClass_def struct_of_def scalar_defs round_up_def layout_simps cong: Field_cong field_pair_cong)

lemma CHashClass_packed: "struct_packed_offsets CHashClass =
    [(''super'', 0), (''size'', 64), (''neg_offset'', 72), (''member_cnt'', 80),
     (''ptr_stars_cnt'', 84), (''raw_type'', 85), (''flags'', 86),
     (''member_lst_and_root'', 88), (''member_class_base_root'', 96),
     (''last_in_member_lst'', 104), (''base_class'', 112), (''fwd_class'', 120)]"
  by (simp add: CHashClass_def struct_of_def scalar_defs round_up_def layout_simps cong: Field_cong field_pair_cong)

lemma CHashFun_size [layout_simps]: "csize CHashFun = 168" "calign CHashFun = 8" "packed_size CHashFun = 168"
  by (simp_all add: CHashFun_def struct_of_def scalar_defs round_up_def layout_simps cong: Field_cong field_pair_cong)+

lemma CHashFun_offsets [layout_simps]: "struct_offsets CHashFun =
    [(''super'', 0), (''return_class'', 128), (''arg_cnt'', 136), (''pad'', 140),
     (''used_reg_mask'', 144), (''clobbered_reg_mask'', 148), (''exe_addr'', 152),
     (''ext_lst'', 160)]"
  by (simp add: CHashFun_def struct_of_def scalar_defs round_up_def layout_simps cong: Field_cong field_pair_cong)

lemma CHashFun_packed: "struct_packed_offsets CHashFun =
    [(''super'', 0), (''return_class'', 128), (''arg_cnt'', 136), (''pad'', 140),
     (''used_reg_mask'', 144), (''clobbered_reg_mask'', 148), (''exe_addr'', 152),
     (''ext_lst'', 160)]"
  by (simp add: CHashFun_def struct_of_def scalar_defs round_up_def layout_simps cong: Field_cong field_pair_cong)

lemma CArrayDim_size [layout_simps]: "csize CArrayDim = 24" "calign CArrayDim = 8" "packed_size CArrayDim = 24"
  by (simp_all add: CArrayDim_def struct_of_def scalar_defs round_up_def layout_simps cong: Field_cong field_pair_cong)+

lemma CArrayDim_offsets [layout_simps]: "struct_offsets CArrayDim =
    [(''next'', 0), (''cnt'', 8), (''total_cnt'', 16)]"
  by (simp add: CArrayDim_def struct_of_def scalar_defs round_up_def layout_simps cong: Field_cong field_pair_cong)

lemma CArrayDim_packed: "struct_packed_offsets CArrayDim =
    [(''next'', 0), (''cnt'', 8), (''total_cnt'', 16)]"
  by (simp add: CArrayDim_def struct_of_def scalar_defs round_up_def layout_simps cong: Field_cong field_pair_cong)

lemma CHashGlblVar_size [layout_simps]: "csize CHashGlblVar = 136" "calign CHashGlblVar = 8" "packed_size CHashGlblVar = 136"
  by (simp_all add: CHashGlblVar_def struct_of_def scalar_defs round_up_def layout_simps cong: Field_cong field_pair_cong)+

lemma CHashGlblVar_offsets [layout_simps]: "struct_offsets CHashGlblVar =
    [(''super'', 0), (''size'', 64), (''flags'', 72), (''var_class'', 80), (''fun_ptr'', 88),
     (''dim'', 96), (''data_addr'', 120), (''data_addr_rip'', 128)]"
  by (simp add: CHashGlblVar_def struct_of_def scalar_defs round_up_def layout_simps cong: Field_cong field_pair_cong)

lemma CHashGlblVar_packed: "struct_packed_offsets CHashGlblVar =
    [(''super'', 0), (''size'', 64), (''flags'', 72), (''var_class'', 80), (''fun_ptr'', 88),
     (''dim'', 96), (''data_addr'', 120), (''data_addr_rip'', 128)]"
  by (simp add: CHashGlblVar_def struct_of_def scalar_defs round_up_def layout_simps cong: Field_cong field_pair_cong)

lemma CJobCtrl_size [layout_simps]: "csize CJobCtrl = 40" "calign CJobCtrl = 8" "packed_size CJobCtrl = 40"
  by (simp_all add: CJobCtrl_def struct_of_def scalar_defs round_up_def layout_simps cong: Field_cong field_pair_cong)+

lemma CJobCtrl_offsets [layout_simps]: "struct_offsets CJobCtrl =
    [(''next_waiting'', 0), (''last_waiting'', 8), (''next_done'', 16), (''last_done'', 24),
     (''flags'', 32)]"
  by (simp add: CJobCtrl_def struct_of_def scalar_defs round_up_def layout_simps cong: Field_cong field_pair_cong)

lemma CJobCtrl_packed: "struct_packed_offsets CJobCtrl =
    [(''next_waiting'', 0), (''last_waiting'', 8), (''next_done'', 16), (''last_done'', 24),
     (''flags'', 32)]"
  by (simp add: CJobCtrl_def struct_of_def scalar_defs round_up_def layout_simps cong: Field_cong field_pair_cong)

lemma CWinScroll_size [layout_simps]: "csize CWinScroll = 32" "calign CWinScroll = 8" "packed_size CWinScroll = 32"
  by (simp_all add: CWinScroll_def struct_of_def scalar_defs round_up_def layout_simps cong: Field_cong field_pair_cong)+

lemma CWinScroll_offsets [layout_simps]: "struct_offsets CWinScroll =
    [(''min'', 0), (''pos'', 8), (''max'', 16), (''flags'', 24), (''color'', 28),
     (''pad'', 29)]"
  by (simp add: CWinScroll_def struct_of_def scalar_defs round_up_def layout_simps cong: Field_cong field_pair_cong)

lemma CWinScroll_packed: "struct_packed_offsets CWinScroll =
    [(''min'', 0), (''pos'', 8), (''max'', 16), (''flags'', 24), (''color'', 28),
     (''pad'', 29)]"
  by (simp add: CWinScroll_def struct_of_def scalar_defs round_up_def layout_simps cong: Field_cong field_pair_cong)

lemma CTask_size [layout_simps]: "csize CTask = 1328" "calign CTask = 8" "packed_size CTask = 1328"
  by (simp_all add: CTask_def struct_of_def scalar_defs round_up_def layout_simps cong: Field_cong field_pair_cong)+

lemma CTask_offsets [layout_simps]: "struct_offsets CTask =
    [(''addr'', 0), (''task_signature'', 8), (''win_inhibit'', 12), (''wake_jiffy'', 16),
     (''task_flags'', 24), (''display_flags'', 28), (''code_heap'', 32), (''data_heap'', 40),
     (''put_doc'', 48), (''display_doc'', 56), (''border_doc'', 64), (''win_left'', 72),
     (''win_right'', 80), (''win_top'', 88), (''win_bottom'', 96), (''cur_dv'', 104),
     (''cur_dir'', 112), (''parent_task'', 120), (''next_task'', 128), (''last_task'', 136),
     (''next_input_filter_task'', 144), (''last_input_filter_task'', 152),
     (''next_sibling_task'', 160), (''last_sibling_task'', 168), (''next_child_task'', 176),
     (''last_child_task'', 184), (''win_width'', 192), (''win_height'', 200),
     (''pix_left'', 208), (''pix_right'', 216), (''pix_width'', 224), (''pix_top'', 232),
     (''pix_bottom'', 240), (''pix_height'', 248), (''scroll_x'', 256), (''scroll_y'', 264),
     (''scroll_z'', 272), (''rip'', 280), (''rflags'', 288), (''rsp'', 296), (''rsi'', 304),
     (''rax'', 312), (''rcx'', 320), (''rdx'', 328), (''rbx'', 336), (''rbp'', 344),
     (''rdi'', 352), (''r8'', 360), (''r9'', 368), (''r10'', 376), (''r11'', 384),
     (''r12'', 392), (''r13'', 400), (''r14'', 408), (''r15'', 416), (''gs'', 424),
     (''fpu_mmx'', 432), (''swap_cnter'', 440), (''draw_it'', 448), (''task_title'', 456),
     (''task_name'', 600), (''wallpaper_data'', 632), (''title_src'', 776),
     (''border_src'', 777), (''text_attr'', 778), (''border_attr'', 779),
     (''win_z_num'', 780), (''pad'', 782), (''stk'', 784), (''next_except'', 792),
     (''last_except'', 800), (''except_rbp'', 808), (''except_ch'', 816),
     (''except_callers'', 824), (''catch_except'', 888), (''new_answer'', 889),
     (''answer_type'', 890), (''pad2'', 891), (''answer'', 896), (''answer_time'', 904),
     (''bpt_lst'', 912), (''next_ctrl'', 920), (''last_ctrl'', 928), (''cur_menu'', 936),
     (''next_settings'', 944), (''next_ode'', 952), (''last_ode'', 960),
     (''last_ode_time'', 968), (''hash_table'', 976), (''srv_ctrl'', 984),
     (''next_cc'', 1024), (''last_cc'', 1032), (''last_fun'', 1040), (''task_end_cb'', 1048),
     (''song_task'', 1056), (''animate_task'', 1064), (''rand_seed'', 1072),
     (''task_num'', 1080), (''fault_num'', 1088), (''fault_err_code'', 1096),
     (''popup_task'', 1104), (''dbg_task'', 1112), (''horz_scroll'', 1120),
     (''vert_scroll'', 1152), (''user_data'', 1184), (''lilith_task_mutex'', 1192),
     (''lilith_enqueued_cond'', 1232), (''lilith_idle_cond'', 1280)]"
  by (simp add: CTask_def struct_of_def scalar_defs round_up_def layout_simps cong: Field_cong field_pair_cong)

lemma CTask_packed: "struct_packed_offsets CTask =
    [(''addr'', 0), (''task_signature'', 8), (''win_inhibit'', 12), (''wake_jiffy'', 16),
     (''task_flags'', 24), (''display_flags'', 28), (''code_heap'', 32), (''data_heap'', 40),
     (''put_doc'', 48), (''display_doc'', 56), (''border_doc'', 64), (''win_left'', 72),
     (''win_right'', 80), (''win_top'', 88), (''win_bottom'', 96), (''cur_dv'', 104),
     (''cur_dir'', 112), (''parent_task'', 120), (''next_task'', 128), (''last_task'', 136),
     (''next_input_filter_task'', 144), (''last_input_filter_task'', 152),
     (''next_sibling_task'', 160), (''last_sibling_task'', 168), (''next_child_task'', 176),
     (''last_child_task'', 184), (''win_width'', 192), (''win_height'', 200),
     (''pix_left'', 208), (''pix_right'', 216), (''pix_width'', 224), (''pix_top'', 232),
     (''pix_bottom'', 240), (''pix_height'', 248), (''scroll_x'', 256), (''scroll_y'', 264),
     (''scroll_z'', 272), (''rip'', 280), (''rflags'', 288), (''rsp'', 296), (''rsi'', 304),
     (''rax'', 312), (''rcx'', 320), (''rdx'', 328), (''rbx'', 336), (''rbp'', 344),
     (''rdi'', 352), (''r8'', 360), (''r9'', 368), (''r10'', 376), (''r11'', 384),
     (''r12'', 392), (''r13'', 400), (''r14'', 408), (''r15'', 416), (''gs'', 424),
     (''fpu_mmx'', 432), (''swap_cnter'', 440), (''draw_it'', 448), (''task_title'', 456),
     (''task_name'', 600), (''wallpaper_data'', 632), (''title_src'', 776),
     (''border_src'', 777), (''text_attr'', 778), (''border_attr'', 779),
     (''win_z_num'', 780), (''pad'', 782), (''stk'', 784), (''next_except'', 792),
     (''last_except'', 800), (''except_rbp'', 808), (''except_ch'', 816),
     (''except_callers'', 824), (''catch_except'', 888), (''new_answer'', 889),
     (''answer_type'', 890), (''pad2'', 891), (''answer'', 896), (''answer_time'', 904),
     (''bpt_lst'', 912), (''next_ctrl'', 920), (''last_ctrl'', 928), (''cur_menu'', 936),
     (''next_settings'', 944), (''next_ode'', 952), (''last_ode'', 960),
     (''last_ode_time'', 968), (''hash_table'', 976), (''srv_ctrl'', 984),
     (''next_cc'', 1024), (''last_cc'', 1032), (''last_fun'', 1040), (''task_end_cb'', 1048),
     (''song_task'', 1056), (''animate_task'', 1064), (''rand_seed'', 1072),
     (''task_num'', 1080), (''fault_num'', 1088), (''fault_err_code'', 1096),
     (''popup_task'', 1104), (''dbg_task'', 1112), (''horz_scroll'', 1120),
     (''vert_scroll'', 1152), (''user_data'', 1184), (''lilith_task_mutex'', 1192),
     (''lilith_enqueued_cond'', 1232), (''lilith_idle_cond'', 1280)]"
  by (simp add: CTask_def struct_of_def scalar_defs round_up_def layout_simps cong: Field_cong field_pair_cong)

lemma CGrGlbls_size [layout_simps]: "csize CGrGlbls = 10512" "calign CGrGlbls = 8" "packed_size CGrGlbls = 10507"
  by (simp_all add: CGrGlbls_def struct_of_def scalar_defs round_up_def layout_simps cong: Field_cong field_pair_cong)+

lemma CGrGlbls_offsets [layout_simps]: "struct_offsets CGrGlbls =
    [(''to_8_bits'', 0), (''to_8_colors'', 8), (''scrn_image'', 16), (''dc'', 24),
     (''dc1'', 32), (''dc2'', 40), (''dc_cache'', 48), (''zoomed_dc'', 56),
     (''text_base'', 64), (''win_z_buf'', 72), (''sprite_hash'', 80),
     (''win_uncovered_bitmap'', 88), (''highest_uncovered'', 96), (''vga_text_cache'', 104),
     (''pan_text_x'', 112), (''pan_text_y'', 120), (''fp_final_scrn_update'', 128),
     (''fp_wall_paper'', 136), (''fp_draw_ms'', 144), (''fp_draw_grab_ms'', 152),
     (''empty_sprite'', 160), (''pen_brushes'', 168), (''collision_pen_brushes'', 680),
     (''even_pen_brushes'', 1192), (''odd_pen_brushes'', 1704), (''circle_lo'', 2216),
     (''circle_hi'', 6312), (''scrn_zoom_tables'', 10408), (''scrn_zoom'', 10480),
     (''sx'', 10488), (''sy'', 10496), (''continuous_scroll'', 10504), (''hide_row'', 10505),
     (''hide_col'', 10506)]"
  by (simp add: CGrGlbls_def struct_of_def scalar_defs round_up_def layout_simps cong: Field_cong field_pair_cong)

lemma CGrGlbls_packed: "struct_packed_offsets CGrGlbls =
    [(''to_8_bits'', 0), (''to_8_colors'', 8), (''scrn_image'', 16), (''dc'', 24),
     (''dc1'', 32), (''dc2'', 40), (''dc_cache'', 48), (''zoomed_dc'', 56),
     (''text_base'', 64), (''win_z_buf'', 72), (''sprite_hash'', 80),
     (''win_uncovered_bitmap'', 88), (''highest_uncovered'', 96), (''vga_text_cache'', 104),
     (''pan_text_x'', 112), (''pan_text_y'', 120), (''fp_final_scrn_update'', 128),
     (''fp_wall_paper'', 136), (''fp_draw_ms'', 144), (''fp_draw_grab_ms'', 152),
     (''empty_sprite'', 160), (''pen_brushes'', 168), (''collision_pen_brushes'', 680),
     (''even_pen_brushes'', 1192), (''odd_pen_brushes'', 1704), (''circle_lo'', 2216),
     (''circle_hi'', 6312), (''scrn_zoom_tables'', 10408), (''scrn_zoom'', 10480),
     (''sx'', 10488), (''sy'', 10496), (''continuous_scroll'', 10504), (''hide_row'', 10505),
     (''hide_col'', 10506)]"
  by (simp add: CGrGlbls_def struct_of_def scalar_defs round_up_def layout_simps cong: Field_cong field_pair_cong)

lemma CD3I32_size [layout_simps]: "csize CD3I32 = 12" "calign CD3I32 = 4" "packed_size CD3I32 = 12"
  by (simp_all add: CD3I32_def struct_of_def scalar_defs round_up_def layout_simps cong: Field_cong field_pair_cong)+

lemma CD3I32_offsets [layout_simps]: "struct_offsets CD3I32 =
    [(''x'', 0), (''y'', 4), (''z'', 8)]"
  by (simp add: CD3I32_def struct_of_def scalar_defs round_up_def layout_simps cong: Field_cong field_pair_cong)

lemma CD3I32_packed: "struct_packed_offsets CD3I32 =
    [(''x'', 0), (''y'', 4), (''z'', 8)]"
  by (simp add: CD3I32_def struct_of_def scalar_defs round_up_def layout_simps cong: Field_cong field_pair_cong)

lemma CGrSym_size [layout_simps]: "csize CGrSym = 40" "calign CGrSym = 8" "packed_size CGrSym = 40"
  by (simp_all add: CGrSym_def struct_of_def scalar_defs round_up_def layout_simps cong: Field_cong field_pair_cong)+

lemma CGrSym_offsets [layout_simps]: "struct_offsets CGrSym =
    [(''sx'', 0), (''sy'', 4), (''sz'', 8), (''pad'', 12), (''snx'', 16), (''sny'', 24),
     (''snz'', 32)]"
  by (simp add: CGrSym_def struct_of_def scalar_defs round_up_def layout_simps cong: Field_cong field_pair_cong)

lemma CGrSym_packed: "struct_packed_offsets CGrSym =
    [(''sx'', 0), (''sy'', 4), (''sz'', 8), (''pad'', 12), (''snx'', 16), (''sny'', 24),
     (''snz'', 32)]"
  by (simp add: CGrSym_def struct_of_def scalar_defs round_up_def layout_simps cong: Field_cong field_pair_cong)

lemma CDC_size [layout_simps]: "csize CDC = 408" "calign CDC = 8" "packed_size CDC = 408"
  by (simp_all add: CDC_def struct_of_def scalar_defs round_up_def layout_simps cong: Field_cong field_pair_cong)+

lemma CDC_offsets [layout_simps]: "struct_offsets CDC =
    [(''cdate'', 0), (''x0'', 8), (''y0'', 12), (''width'', 16), (''width_internal'', 20),
     (''height'', 24), (''flags'', 28), (''palette'', 32), (''color'', 160),
     (''bkcolor'', 164), (''color2'', 168), (''ls'', 172), (''dither_probability_u16'', 184),
     (''brush'', 192), (''r'', 200), (''r_norm'', 208), (''x'', 216), (''y'', 220),
     (''z'', 224), (''thick'', 228), (''transform'', 232), (''lighting'', 240),
     (''sym'', 248), (''cur_x'', 288), (''cur_y'', 292), (''cur_z'', 296), (''pad'', 300),
     (''collision_cnt'', 304), (''nearest_dist'', 312), (''min_x'', 320), (''max_x'', 328),
     (''min_y'', 336), (''max_y'', 344), (''dc_signature'', 352), (''pad2'', 356),
     (''mem_task'', 360), (''win_task'', 368), (''alias'', 376), (''body'', 384),
     (''depth_buf'', 392), (''db_z'', 400)]"
  by (simp add: CDC_def struct_of_def scalar_defs round_up_def layout_simps cong: Field_cong field_pair_cong)

lemma CDC_packed: "struct_packed_offsets CDC =
    [(''cdate'', 0), (''x0'', 8), (''y0'', 12), (''width'', 16), (''width_internal'', 20),
     (''height'', 24), (''flags'', 28), (''palette'', 32), (''color'', 160),
     (''bkcolor'', 164), (''color2'', 168), (''ls'', 172), (''dither_probability_u16'', 184),
     (''brush'', 192), (''r'', 200), (''r_norm'', 208), (''x'', 216), (''y'', 220),
     (''z'', 224), (''thick'', 228), (''transform'', 232), (''lighting'', 240),
     (''sym'', 248), (''cur_x'', 288), (''cur_y'', 292), (''cur_z'', 296), (''pad'', 300),
     (''collision_cnt'', 304), (''nearest_dist'', 312), (''min_x'', 320), (''max_x'', 328),
     (''min_y'', 336), (''max_y'', 344), (''dc_signature'', 352), (''pad2'', 356),
     (''mem_task'', 360), (''win_task'', 368), (''alias'', 376), (''body'', 384),
     (''depth_buf'', 392), (''db_z'', 400)]"
  by (simp add: CDC_def struct_of_def scalar_defs round_up_def layout_simps cong: Field_cong field_pair_cong)

lemma CTextGlbls_size [layout_simps]: "csize CTextGlbls = 88" "calign CTextGlbls = 8" "packed_size CTextGlbls = 88"
  by (simp_all add: CTextGlbls_def struct_of_def scalar_defs round_up_def layout_simps cong: Field_cong field_pair_cong)+

lemma CTextGlbls_offsets [layout_simps]: "struct_offsets CTextGlbls =
    [(''raw_col'', 0), (''raw_flags'', 8), (''raw_scrn_image'', 16), (''rows'', 24),
     (''cols'', 32), (''font'', 40), (''aux_font'', 48), (''vga_alias'', 56),
     (''vga_text_alias'', 64), (''border_chars'', 72)]"
  by (simp add: CTextGlbls_def struct_of_def scalar_defs round_up_def layout_simps cong: Field_cong field_pair_cong)

lemma CTextGlbls_packed: "struct_packed_offsets CTextGlbls =
    [(''raw_col'', 0), (''raw_flags'', 8), (''raw_scrn_image'', 16), (''rows'', 24),
     (''cols'', 32), (''font'', 40), (''aux_font'', 48), (''vga_alias'', 56),
     (''vga_text_alias'', 64), (''border_chars'', 72)]"
  by (simp add: CTextGlbls_def struct_of_def scalar_defs round_up_def layout_simps cong: Field_cong field_pair_cong)

lemma CCPU_size [layout_simps]: "csize CCPU = 272" "calign CCPU = 8" "packed_size CCPU = 272"
  by (simp_all add: CCPU_def struct_of_def scalar_defs round_up_def layout_simps cong: Field_cong field_pair_cong)+

lemma CCPU_offsets [layout_simps]: "struct_offsets CCPU =
    [(''addr'', 0), (''num'', 8), (''cpu_flags'', 16), (''startup_rip'', 24),
     (''idle_pt_hits'', 32), (''idle_factor'', 40), (''total_jiffies'', 48),
     (''seth_task'', 56), (''idle_task'', 64), (''tr'', 72), (''swap_cnter'', 80),
     (''profiler_timer_irq'', 88), (''next_dying'', 96), (''last_dying'', 104),
     (''kill_jiffy'', 112), (''tss'', 120), (''start_stk'', 128), (''glibc_fs'', 256),
     (''glibc_gs'', 264)]"
  by (simp add: CCPU_def struct_of_def scalar_defs round_up_def layout_simps cong: Field_cong field_pair_cong)

lemma CCPU_packed: "struct_packed_offsets CCPU =
    [(''addr'', 0), (''num'', 8), (''cpu_flags'', 16), (''startup_rip'', 24),
     (''idle_pt_hits'', 32), (''idle_factor'', 40), (''total_jiffies'', 48),
     (''seth_task'', 56), (''idle_task'', 64), (''tr'', 72), (''swap_cnter'', 80),
     (''profiler_timer_irq'', 88), (''next_dying'', 96), (''last_dying'', 104),
     (''kill_jiffy'', 112), (''tss'', 120), (''start_stk'', 128), (''glibc_fs'', 256),
     (''glibc_gs'', 264)]"
  by (simp add: CCPU_def struct_of_def scalar_defs round_up_def layout_simps cong: Field_cong field_pair_cong)

lemma CTSS_size [layout_simps]: "csize CTSS = 8336" "calign CTSS = 8" "packed_size CTSS = 8324"
  by (simp_all add: CTSS_def struct_of_def scalar_defs round_up_def layout_simps cong: Field_cong field_pair_cong)+

lemma CTSS_offsets [layout_simps]: "struct_offsets CTSS =
    [(''res1'', 0), (''rsp0'', 8), (''rsp1'', 16), (''rsp2'', 24), (''res2'', 32),
     (''ist1'', 40), (''ist2'', 48), (''ist3'', 56), (''ist4'', 64), (''ist5'', 72),
     (''ist6'', 80), (''ist7'', 88), (''res3'', 96), (''res4'', 104),
     (''io_map_offset'', 106), (''io_map'', 108), (''st0'', 8304), (''st1'', 8312),
     (''st2'', 8320), (''tr'', 8328), (''tr_ring3'', 8330)]"
  by (simp add: CTSS_def struct_of_def scalar_defs round_up_def layout_simps cong: Field_cong field_pair_cong)

lemma CTSS_packed: "struct_packed_offsets CTSS =
    [(''res1'', 0), (''rsp0'', 4), (''rsp1'', 12), (''rsp2'', 20), (''res2'', 28),
     (''ist1'', 36), (''ist2'', 44), (''ist3'', 52), (''ist4'', 60), (''ist5'', 68),
     (''ist6'', 76), (''ist7'', 84), (''res3'', 92), (''res4'', 100),
     (''io_map_offset'', 102), (''io_map'', 104), (''st0'', 8296), (''st1'', 8304),
     (''st2'', 8312), (''tr'', 8320), (''tr_ring3'', 8322)]"
  by (simp add: CTSS_def struct_of_def scalar_defs round_up_def layout_simps cong: Field_cong field_pair_cong)

lemma CDrv_size [layout_simps]: "csize CDrv = 160" "calign CDrv = 8" "packed_size CDrv = 160"
  by (simp_all add: CDrv_def struct_of_def scalar_defs round_up_def layout_simps cong: Field_cong field_pair_cong)+

lemma CDrv_offsets [layout_simps]: "struct_offsets CDrv =
    [(''locked_flags'', 0), (''dv_signature'', 8), (''drv_let'', 12), (''pad'', 13),
     (''fs_type'', 14), (''drv_offset'', 16), (''size'', 24), (''prt_num'', 32),
     (''file_system_info_sect'', 40), (''fat1'', 48), (''fat2'', 56), (''root_clus'', 64),
     (''data_area'', 72), (''spc'', 80), (''fat32_local_time_offset'', 88),
     (''owning_task'', 96), (''bd'', 104), (''fis'', 112), (''fat_blk_dirty'', 120),
     (''cur_fat_blk_num'', 128), (''cur_fat_blk'', 136), (''next_free'', 144),
     (''last_free'', 152)]"
  by (simp add: CDrv_def struct_of_def scalar_defs round_up_def layout_simps cong: Field_cong field_pair_cong)

lemma CDrv_packed: "struct_packed_offsets CDrv =
    [(''locked_flags'', 0), (''dv_signature'', 8), (''drv_let'', 12), (''pad'', 13),
     (''fs_type'', 14), (''drv_offset'', 16), (''size'', 24), (''prt_num'', 32),
     (''file_system_info_sect'', 40), (''fat1'', 48), (''fat2'', 56), (''root_clus'', 64),
     (''data_area'', 72), (''spc'', 80), (''fat32_local_time_offset'', 88),
     (''owning_task'', 96), (''bd'', 104), (''fis'', 112), (''fat_blk_dirty'', 120),
     (''cur_fat_blk_num'', 128), (''cur_fat_blk'', 136), (''next_free'', 144),
     (''last_free'', 152)]"
  by (simp add: CDrv_def struct_of_def scalar_defs round_up_def layout_simps cong: Field_cong field_pair_cong)

lemma CBlkDev_size [layout_simps]: "csize CBlkDev = 128" "calign CBlkDev = 8" "packed_size CBlkDev = 124"
  by (simp_all add: CBlkDev_def struct_of_def scalar_defs round_up_def layout_simps cong: Field_cong field_pair_cong)+

lemma CBlkDev_offsets [layout_simps]: "struct_offsets CBlkDev =
    [(''lock_fwding'', 0), (''locked_flags'', 8), (''bd_signature'', 16), (''type'', 20),
     (''flags'', 24), (''first_drv_let'', 28), (''unit'', 29), (''pad'', 30), (''base0'', 32),
     (''base1'', 36), (''blk_size'', 40), (''drv_offset'', 48), (''init_root_dir_blks'', 56),
     (''max_blk'', 64), (''dev_id_record'', 72), (''RAM_dsk'', 80), (''file_dsk_name'', 88),
     (''file_dsk'', 96), (''owning_task'', 104), (''last_time'', 112), (''max_reads'', 120),
     (''max_writes'', 124)]"
  by (simp add: CBlkDev_def struct_of_def scalar_defs round_up_def layout_simps cong: Field_cong field_pair_cong)

lemma CBlkDev_packed: "struct_packed_offsets CBlkDev =
    [(''lock_fwding'', 0), (''locked_flags'', 8), (''bd_signature'', 16), (''type'', 20),
     (''flags'', 24), (''first_drv_let'', 28), (''unit'', 29), (''pad'', 30), (''base0'', 32),
     (''base1'', 36), (''blk_size'', 40), (''drv_offset'', 44), (''init_root_dir_blks'', 52),
     (''max_blk'', 60), (''dev_id_record'', 68), (''RAM_dsk'', 76), (''file_dsk_name'', 84),
     (''file_dsk'', 92), (''owning_task'', 100), (''last_time'', 108), (''max_reads'', 116),
     (''max_writes'', 120)]"
  by (simp add: CBlkDev_def struct_of_def scalar_defs round_up_def layout_simps cong: Field_cong field_pair_cong)

lemma CBlkDevGlbls_size [layout_simps]: "csize CBlkDevGlbls = 384" "calign CBlkDevGlbls = 8" "packed_size CBlkDevGlbls = 384"
  by (simp_all add: CBlkDevGlbls_def struct_of_def scalar_defs round_up_def layout_simps cong: Field_cong field_pair_cong)+

lemma CBlkDevGlbls_offsets [layout_simps]: "struct_offsets CBlkDevGlbls =
    [(''blkdevs'', 0), (''dft_iso_filename'', 8), (''dft_iso_c_filename'', 16),
     (''tmp_filename'', 24), (''home_dir'', 32), (''cache_base'', 40), (''cache_ctrl'', 48),
     (''cache_hash_table'', 56), (''cache_size'', 64), (''read_cnt'', 72),
     (''write_cnt'', 80), (''drvs'', 88), (''let_to_drv'', 96), (''mount_ide_auto_cnt'', 352),
     (''ins_base0'', 360), (''ins_base1'', 368), (''boot_drv_let'', 376),
     (''first_hd_drv_let'', 377), (''first_dvd_drv_let'', 378), (''dvd_boot_is_good'', 379),
     (''ins_unit'', 380), (''pad'', 381)]"
  by (simp add: CBlkDevGlbls_def struct_of_def scalar_defs round_up_def layout_simps cong: Field_cong field_pair_cong)

lemma CBlkDevGlbls_packed: "struct_packed_offsets CBlkDevGlbls =
    [(''blkdevs'', 0), (''dft_iso_filename'', 8), (''dft_iso_c_filename'', 16),
     (''tmp_filename'', 24), (''home_dir'', 32), (''cache_base'', 40), (''cache_ctrl'', 48),
     (''cache_hash_table'', 56), (''cache_size'', 64), (''read_cnt'', 72),
     (''write_cnt'', 80), (''drvs'', 88), (''let_to_drv'', 96), (''mount_ide_auto_cnt'', 352),
     (''ins_base0'', 360), (''ins_base1'', 368), (''boot_drv_let'', 376),
     (''first_hd_drv_let'', 377), (''first_dvd_drv_let'', 378), (''dvd_boot_is_good'', 379),
     (''ins_unit'', 380), (''pad'', 381)]"
  by (simp add: CBlkDevGlbls_def struct_of_def scalar_defs round_up_def layout_simps cong: Field_cong field_pair_cong)

lemma CTaskStk_size [layout_simps]: "csize CTaskStk = 32" "calign CTaskStk = 8" "packed_size CTaskStk = 32"
  by (simp_all add: CTaskStk_def struct_of_def scalar_defs round_up_def layout_simps cong: Field_cong field_pair_cong)+

lemma CTaskStk_offsets [layout_simps]: "struct_offsets CTaskStk =
    [(''next_stk'', 0), (''stk_size'', 8), (''stk_ptr'', 16), (''stk_base'', 24)]"
  by (simp add: CTaskStk_def struct_of_def scalar_defs round_up_def layout_simps cong: Field_cong field_pair_cong)

lemma CTaskStk_packed: "struct_packed_offsets CTaskStk =
    [(''next_stk'', 0), (''stk_size'', 8), (''stk_ptr'', 16), (''stk_base'', 24)]"
  by (simp add: CTaskStk_def struct_of_def scalar_defs round_up_def layout_simps cong: Field_cong field_pair_cong)

lemma CDirEntry_size [layout_simps]: "csize CDirEntry = 112" "calign CDirEntry = 8" "packed_size CDirEntry = 112"
  by (simp_all add: CDirEntry_def struct_of_def scalar_defs round_up_def layout_simps cong: Field_cong field_pair_cong)+

lemma CDirEntry_offsets [layout_simps]: "struct_offsets CDirEntry =
    [(''next'', 0), (''parent'', 8), (''sub'', 16), (''full_name'', 24), (''user_data'', 32),
     (''user_data2'', 40), (''attr'', 48), (''name'', 50), (''clus'', 88), (''size'', 96),
     (''time'', 104), (''date'', 108)]"
  by (simp add: CDirEntry_def struct_of_def scalar_defs round_up_def layout_simps cong: Field_cong field_pair_cong)

lemma CDirEntry_packed: "struct_packed_offsets CDirEntry =
    [(''next'', 0), (''parent'', 8), (''sub'', 16), (''full_name'', 24), (''user_data'', 32),
     (''user_data2'', 40), (''attr'', 48), (''name'', 50), (''clus'', 88), (''size'', 96),
     (''time'', 104), (''date'', 108)]"
  by (simp add: CDirEntry_def struct_of_def scalar_defs round_up_def layout_simps cong: Field_cong field_pair_cong)

lemma CDateStruct_size [layout_simps]: "csize CDateStruct = 12" "calign CDateStruct = 4" "packed_size CDateStruct = 12"
  by (simp_all add: CDateStruct_def struct_of_def scalar_defs round_up_def layout_simps cong: Field_cong field_pair_cong)+

lemma CDateStruct_offsets [layout_simps]: "struct_offsets CDateStruct =
    [(''sec10000'', 0), (''sec100'', 1), (''sec'', 2), (''min'', 3), (''hour'', 4),
     (''day_of_week'', 5), (''day_of_mon'', 6), (''mon'', 7), (''year'', 8)]"
  by (simp add: CDateStruct_def struct_of_def scalar_defs round_up_def layout_simps cong: Field_cong field_pair_cong)

lemma CDateStruct_packed: "struct_packed_offsets CDateStruct =
    [(''sec10000'', 0), (''sec100'', 1), (''sec'', 2), (''min'', 3), (''hour'', 4),
     (''day_of_week'', 5), (''day_of_mon'', 6), (''mon'', 7), (''year'', 8)]"
  by (simp add: CDateStruct_def struct_of_def scalar_defs round_up_def layout_simps cong: Field_cong field_pair_cong)

definition fld :: "ctype \<Rightarrow> string \<Rightarrow> u64" where
  "fld t f = of_nat (offsetof t f)"

named_theorems off_simps \<open>offsets of the fields the program uses\<close>

lemma CTask_off_addr [off_simps]: "offsetof CTask ''addr'' = 0"
  by (simp add: offsetof_def CTask_offsets)

lemma CTask_off_task_signature [off_simps]: "offsetof CTask ''task_signature'' = 8"
  by (simp add: offsetof_def CTask_offsets)

lemma CTask_off_display_flags [off_simps]: "offsetof CTask ''display_flags'' = 28"
  by (simp add: offsetof_def CTask_offsets)

lemma CTask_off_data_heap [off_simps]: "offsetof CTask ''data_heap'' = 40"
  by (simp add: offsetof_def CTask_offsets)

lemma CTask_off_code_heap [off_simps]: "offsetof CTask ''code_heap'' = 32"
  by (simp add: offsetof_def CTask_offsets)

lemma CTask_off_win_left [off_simps]: "offsetof CTask ''win_left'' = 72"
  by (simp add: offsetof_def CTask_offsets)

lemma CTask_off_win_right [off_simps]: "offsetof CTask ''win_right'' = 80"
  by (simp add: offsetof_def CTask_offsets)

lemma CTask_off_win_top [off_simps]: "offsetof CTask ''win_top'' = 88"
  by (simp add: offsetof_def CTask_offsets)

lemma CTask_off_win_bottom [off_simps]: "offsetof CTask ''win_bottom'' = 96"
  by (simp add: offsetof_def CTask_offsets)

lemma CTask_off_cur_dv [off_simps]: "offsetof CTask ''cur_dv'' = 104"
  by (simp add: offsetof_def CTask_offsets)

lemma CTask_off_cur_dir [off_simps]: "offsetof CTask ''cur_dir'' = 112"
  by (simp add: offsetof_def CTask_offsets)

lemma CTask_off_parent_task [off_simps]: "offsetof CTask ''parent_task'' = 120"
  by (simp add: offsetof_def CTask_offsets)

lemma CTask_off_next_task [off_simps]: "offsetof CTask ''next_task'' = 128"
  by (simp add: offsetof_def CTask_offsets)

lemma CTask_off_last_task [off_simps]: "offsetof CTask ''last_task'' = 136"
  by (simp add: offsetof_def CTask_offsets)

lemma CTask_off_next_input_filter_task [off_simps]: "offsetof CTask ''next_input_filter_task'' = 144"
  by (simp add: offsetof_def CTask_offsets)

lemma CTask_off_last_input_filter_task [off_simps]: "offsetof CTask ''last_input_filter_task'' = 152"
  by (simp add: offsetof_def CTask_offsets)

lemma CTask_off_rip [off_simps]: "offsetof CTask ''rip'' = 280"
  by (simp add: offsetof_def CTask_offsets)

lemma CTask_off_rsp [off_simps]: "offsetof CTask ''rsp'' = 296"
  by (simp add: offsetof_def CTask_offsets)

lemma CTask_off_rbp [off_simps]: "offsetof CTask ''rbp'' = 344"
  by (simp add: offsetof_def CTask_offsets)

lemma CTask_off_gs [off_simps]: "offsetof CTask ''gs'' = 424"
  by (simp add: offsetof_def CTask_offsets)

lemma CTask_off_task_title [off_simps]: "offsetof CTask ''task_title'' = 456"
  by (simp add: offsetof_def CTask_offsets)

lemma CTask_off_task_name [off_simps]: "offsetof CTask ''task_name'' = 600"
  by (simp add: offsetof_def CTask_offsets)

lemma CTask_off_title_src [off_simps]: "offsetof CTask ''title_src'' = 776"
  by (simp add: offsetof_def CTask_offsets)

lemma CTask_off_stk [off_simps]: "offsetof CTask ''stk'' = 784"
  by (simp add: offsetof_def CTask_offsets)

lemma CTask_off_next_except [off_simps]: "offsetof CTask ''next_except'' = 792"
  by (simp add: offsetof_def CTask_offsets)

lemma CTask_off_last_except [off_simps]: "offsetof CTask ''last_except'' = 800"
  by (simp add: offsetof_def CTask_offsets)

lemma CTask_off_next_ctrl [off_simps]: "offsetof CTask ''next_ctrl'' = 920"
  by (simp add: offsetof_def CTask_offsets)

lemma CTask_off_last_ctrl [off_simps]: "offsetof CTask ''last_ctrl'' = 928"
  by (simp add: offsetof_def CTask_offsets)

lemma CTask_off_hash_table [off_simps]: "offsetof CTask ''hash_table'' = 976"
  by (simp add: offsetof_def CTask_offsets)

lemma CTask_off_srv_ctrl [off_simps]: "offsetof CTask ''srv_ctrl'' = 984"
  by (simp add: offsetof_def CTask_offsets)

lemma CTask_off_next_cc [off_simps]: "offsetof CTask ''next_cc'' = 1024"
  by (simp add: offsetof_def CTask_offsets)

lemma CTask_off_last_cc [off_simps]: "offsetof CTask ''last_cc'' = 1032"
  by (simp add: offsetof_def CTask_offsets)

lemma CCPU_off_addr [off_simps]: "offsetof CCPU ''addr'' = 0"
  by (simp add: offsetof_def CCPU_offsets)

lemma CCPU_off_glibc_fs [off_simps]: "offsetof CCPU ''glibc_fs'' = 256"
  by (simp add: offsetof_def CCPU_offsets)

lemma CCPU_off_glibc_gs [off_simps]: "offsetof CCPU ''glibc_gs'' = 264"
  by (simp add: offsetof_def CCPU_offsets)

lemma CDrv_off_dv_signature [off_simps]: "offsetof CDrv ''dv_signature'' = 8"
  by (simp add: offsetof_def CDrv_offsets)

lemma CDrv_off_drv_let [off_simps]: "offsetof CDrv ''drv_let'' = 12"
  by (simp add: offsetof_def CDrv_offsets)

lemma CDrv_off_fs_type [off_simps]: "offsetof CDrv ''fs_type'' = 14"
  by (simp add: offsetof_def CDrv_offsets)

lemma CDrv_off_bd [off_simps]: "offsetof CDrv ''bd'' = 104"
  by (simp add: offsetof_def CDrv_offsets)

lemma CBlkDev_off_bd_signature [off_simps]: "offsetof CBlkDev ''bd_signature'' = 16"
  by (simp add: offsetof_def CBlkDev_offsets)

lemma CBlkDev_off_type [off_simps]: "offsetof CBlkDev ''type'' = 20"
  by (simp add: offsetof_def CBlkDev_offsets)

lemma CBlkDevGlbls_off_tmp_filename [off_simps]: "offsetof CBlkDevGlbls ''tmp_filename'' = 24"
  by (simp add: offsetof_def CBlkDevGlbls_offsets)

lemma CBlkDevGlbls_off_home_dir [off_simps]: "offsetof CBlkDevGlbls ''home_dir'' = 32"
  by (simp add: offsetof_def CBlkDevGlbls_offsets)

lemma CBlkDevGlbls_off_let_to_drv [off_simps]: "offsetof CBlkDevGlbls ''let_to_drv'' = 96"
  by (simp add: offsetof_def CBlkDevGlbls_offsets)

lemma CBlkDevGlbls_off_boot_drv_let [off_simps]: "offsetof CBlkDevGlbls ''boot_drv_let'' = 376"
  by (simp add: offsetof_def CBlkDevGlbls_offsets)

lemma CBlkDevGlbls_off_first_hd_drv_let [off_simps]: "offsetof CBlkDevGlbls ''first_hd_drv_let'' = 377"
  by (simp add: offsetof_def CBlkDevGlbls_offsets)

lemma CTaskStk_off_next_stk [off_simps]: "offsetof CTaskStk ''next_stk'' = 0"
  by (simp add: offsetof_def CTaskStk_offsets)

lemma CTaskStk_off_stk_size [off_simps]: "offsetof CTaskStk ''stk_size'' = 8"
  by (simp add: offsetof_def CTaskStk_offsets)

lemma CTaskStk_off_stk_ptr [off_simps]: "offsetof CTaskStk ''stk_ptr'' = 16"
  by (simp add: offsetof_def CTaskStk_offsets)

lemma CTaskStk_off_stk_base [off_simps]: "offsetof CTaskStk ''stk_base'' = 24"
  by (simp add: offsetof_def CTaskStk_offsets)

lemma CJobCtrl_off_next_waiting [off_simps]: "offsetof CJobCtrl ''next_waiting'' = 0"
  by (simp add: offsetof_def CJobCtrl_offsets)

lemma CJobCtrl_off_last_waiting [off_simps]: "offsetof CJobCtrl ''last_waiting'' = 8"
  by (simp add: offsetof_def CJobCtrl_offsets)

lemma CJobCtrl_off_next_done [off_simps]: "offsetof CJobCtrl ''next_done'' = 16"
  by (simp add: offsetof_def CJobCtrl_offsets)

lemma CJobCtrl_off_last_done [off_simps]: "offsetof CJobCtrl ''last_done'' = 24"
  by (simp add: offsetof_def CJobCtrl_offsets)

lemma CDirEntry_off_next [off_simps]: "offsetof CDirEntry ''next'' = 0"
  by (simp add: offsetof_def CDirEntry_offsets)

lemma CDirEntry_off_parent [off_simps]: "offsetof CDirEntry ''parent'' = 8"
  by (simp add: offsetof_def CDirEntry_offsets)

lemma CDirEntry_off_sub [off_simps]: "offsetof CDirEntry ''sub'' = 16"
  by (simp add: offsetof_def CDirEntry_offsets)

lemma CDirEntry_off_full_name [off_simps]: "offsetof CDirEntry ''full_name'' = 24"
  by (simp add: offsetof_def CDirEntry_offsets)

lemma CDirEntry_off_user_data [off_simps]: "offsetof CDirEntry ''user_data'' = 32"
  by (simp add: offsetof_def CDirEntry_offsets)

lemma CDirEntry_off_user_data2 [off_simps]: "offsetof CDirEntry ''user_data2'' = 40"
  by (simp add: offsetof_def CDirEntry_offsets)

lemma CDirEntry_off_attr [off_simps]: "offsetof CDirEntry ''attr'' = 48"
  by (simp add: offsetof_def CDirEntry_offsets)

lemma CDirEntry_off_name [off_simps]: "offsetof CDirEntry ''name'' = 50"
  by (simp add: offsetof_def CDirEntry_offsets)

lemma CDirEntry_off_clus [off_simps]: "offsetof CDirEntry ''clus'' = 88"
  by (simp add: offsetof_def CDirEntry_offsets)

lemma CDirEntry_off_size [off_simps]: "offsetof CDirEntry ''size'' = 96"
  by (simp add: offsetof_def CDirEntry_offsets)

lemma CDirEntry_off_time [off_simps]: "offsetof CDirEntry ''time'' = 104"
  by (simp add: offsetof_def CDirEntry_offsets)

lemma CDirEntry_off_date [off_simps]: "offsetof CDirEntry ''date'' = 108"
  by (simp add: offsetof_def CDirEntry_offsets)

lemma CDateStruct_off_sec10000 [off_simps]: "offsetof CDateStruct ''sec10000'' = 0"
  by (simp add: offsetof_def CDateStruct_offsets)

lemma CDateStruct_off_sec100 [off_simps]: "offsetof CDateStruct ''sec100'' = 1"
  by (simp add: offsetof_def CDateStruct_offsets)

lemma CDateStruct_off_sec [off_simps]: "offsetof CDateStruct ''sec'' = 2"
  by (simp add: offsetof_def CDateStruct_offsets)

lemma CDateStruct_off_min [off_simps]: "offsetof CDateStruct ''min'' = 3"
  by (simp add: offsetof_def CDateStruct_offsets)

lemma CDateStruct_off_hour [off_simps]: "offsetof CDateStruct ''hour'' = 4"
  by (simp add: offsetof_def CDateStruct_offsets)

lemma CDateStruct_off_day_of_week [off_simps]: "offsetof CDateStruct ''day_of_week'' = 5"
  by (simp add: offsetof_def CDateStruct_offsets)

lemma CDateStruct_off_day_of_mon [off_simps]: "offsetof CDateStruct ''day_of_mon'' = 6"
  by (simp add: offsetof_def CDateStruct_offsets)

lemma CDateStruct_off_mon [off_simps]: "offsetof CDateStruct ''mon'' = 7"
  by (simp add: offsetof_def CDateStruct_offsets)

lemma CDateStruct_off_year [off_simps]: "offsetof CDateStruct ''year'' = 8"
  by (simp add: offsetof_def CDateStruct_offsets)

section \<open>Properties\<close>

definition unpadded_structs :: "ctype list" where
  "unpadded_structs = [CHashTable, CHash, CHashSrcSym, CHashExport, CHashGeneric, CHashClass,
     CHashFun, CArrayDim, CHashGlblVar, CJobCtrl, CWinScroll, CTask, CGrGlbls, CD3I32, CGrSym,
     CDC, CTextGlbls, CCPU, CDrv, CBlkDevGlbls, CTaskStk, CDirEntry, CDateStruct]"

text \<open>The C declarations of the structs shared with TempleOS put every field where a
  layout without padding puts it (the explicit \<open>pad\<close> fields do the aligning); the exceptions
  are \<open>CTSS\<close> and the fields of \<open>CBlkDev\<close> after \<open>blk_size\<close>. The self pointers that
  \<open>exit_templeos\<close> reads through the segment registers are at offset 0.\<close>
lemma shared_structs_unpadded:
  "list_all (\<lambda>t. struct_offsets t = struct_packed_offsets t) unpadded_structs \<and>
   take 11 (struct_offsets CBlkDev) = take 11 (struct_packed_offsets CBlkDev) \<and>
   struct_offsets CBlkDev \<noteq> struct_packed_offsets CBlkDev \<and>
   struct_offsets CTSS \<noteq> struct_packed_offsets CTSS \<and>
   offsetof CTask ''addr'' = 0 \<and> offsetof CCPU ''addr'' = 0"
proof -
  have "list_all (\<lambda>t. struct_offsets t = struct_packed_offsets t) unpadded_structs"
    unfolding unpadded_structs_def
    by (simp only: list.pred_inject simp_thms
      CHashTable_offsets CHash_offsets CHashSrcSym_offsets CHashExport_offsets CHashGeneric_offsets
      CHashClass_offsets CHashFun_offsets CArrayDim_offsets CHashGlblVar_offsets CJobCtrl_offsets
      CWinScroll_offsets CTask_offsets CGrGlbls_offsets CD3I32_offsets CGrSym_offsets CDC_offsets
      CTextGlbls_offsets CCPU_offsets CDrv_offsets CBlkDevGlbls_offsets CTaskStk_offsets
      CDirEntry_offsets CDateStruct_offsets
      CHashTable_packed CHash_packed CHashSrcSym_packed CHashExport_packed CHashGeneric_packed
      CHashClass_packed CHashFun_packed CArrayDim_packed CHashGlblVar_packed CJobCtrl_packed
      CWinScroll_packed CTask_packed CGrGlbls_packed CD3I32_packed CGrSym_packed CDC_packed
      CTextGlbls_packed CCPU_packed CDrv_packed CBlkDevGlbls_packed CTaskStk_packed
      CDirEntry_packed CDateStruct_packed)
  moreover have "take 11 (struct_offsets CBlkDev) = take 11 (struct_packed_offsets CBlkDev)"
    "struct_offsets CBlkDev \<noteq> struct_packed_offsets CBlkDev"
    by (simp_all add: CBlkDev_offsets CBlkDev_packed)
  moreover have "struct_offsets CTSS \<noteq> struct_packed_offsets CTSS"
    by (simp add: CTSS_offsets CTSS_packed)
  ultimately show ?thesis by (simp add: offsetof_def CTask_offsets CCPU_offsets)
qed

end
