(* ===== verification/Task.thy ===== *)
theory Task
  imports KernelPatch Layout Utils
begin

text \<open>
  \<open>lilith/task.c\<close>: the two worlds a thread lives in. In the C world the FS and GS base
  registers are those of glibc, in the TempleOS world they point to the current \<open>CTask\<close> and
  \<open>CCPU\<close>. \<open>enter_templeos\<close> and \<open>exit_templeos\<close> switch; every call of a TempleOS function and
  every system call is a pair of switches, so their contract is the locale \<open>world_switch\<close>.
  The registers are \<open>fs_base\<close> and \<open>gs_base\<close>, and the structs are read in the byte memory at the
  offsets of \<open>Layout\<close>.
\<close>

unbundle bit_operations_syntax

section \<open>The contract of the switches\<close>

locale world_switch =
  fixes enter :: "'t \<Rightarrow> 's \<Rightarrow> 's res"
    and leave :: "'s \<Rightarrow> ('t \<times> 's) res"
    and in_temple :: "'t \<Rightarrow> 's \<Rightarrow> bool"
    and in_host :: "'t \<Rightarrow> 's \<Rightarrow> bool"
  assumes enter_ok: "in_host t s \<Longrightarrow> \<exists>s'. enter t s = Inr s' \<and> in_temple t s'"
    and leave_ok: "in_temple t s \<Longrightarrow> \<exists>s'. leave s = Inr (t, s') \<and> in_host t s'"
    and enter_leave: "in_temple t s \<Longrightarrow> leave s = Inr (t, s') \<Longrightarrow> enter t s' = Inr s"
    and leave_enter: "in_host t s \<Longrightarrow> enter t s = Inr s' \<Longrightarrow> leave s' = Inr (t, s)"
begin

text \<open>A call from C into TempleOS.\<close>

lemma call_ok:
  assumes "in_host t s"
    and "\<And>s1. enter t s = Inr s1 \<Longrightarrow> in_temple t s1 \<Longrightarrow> \<exists>r s2. f s1 = Inr (r, s2) \<and> in_temple t s2"
  shows "\<exists>s1 r s2 s'. enter t s = Inr s1 \<and> f s1 = Inr (r, s2) \<and> leave s2 = Inr (t, s') \<and> in_host t s'"
proof -
  obtain s1 where s1: "enter t s = Inr s1" "in_temple t s1" using enter_ok [OF assms(1)] by blast
  obtain r s2 where s2: "f s1 = Inr (r, s2)" "in_temple t s2" using assms(2) [OF s1] by blast
  obtain s' where "leave s2 = Inr (t, s')" "in_host t s'" using leave_ok [OF s2(2)] by blast
  with s1 s2 show ?thesis by blast
qed

text \<open>A system call: from TempleOS into C and back; a body that changes nothing is invisible.\<close>

lemma syscall_ok:
  assumes "in_temple t s"
    and "\<And>s1. leave s = Inr (t, s1) \<Longrightarrow> in_host t s1 \<Longrightarrow> \<exists>r s2. f s1 = Inr (r, s2) \<and> in_host t s2"
  shows "\<exists>s1 r s2 s'. leave s = Inr (t, s1) \<and> f s1 = Inr (r, s2) \<and> enter t s2 = Inr s' \<and> in_temple t s'"
proof -
  obtain s1 where s1: "leave s = Inr (t, s1)" "in_host t s1" using leave_ok [OF assms(1)] by blast
  obtain r s2 where s2: "f s1 = Inr (r, s2)" "in_host t s2" using assms(2) [OF s1] by blast
  obtain s' where "enter t s2 = Inr s'" "in_temple t s'" using enter_ok [OF s2(2)] by blast
  with s1 s2 show ?thesis by blast
qed

lemma syscall_nop:
  assumes "in_temple t s"
  shows "\<exists>s1. leave s = Inr (t, s1) \<and> enter t s1 = Inr s"
proof -
  obtain s1 where "leave s = Inr (t, s1)" using leave_ok [OF assms] by blast
  with enter_leave [OF assms this] show ?thesis by blast
qed

end

section \<open>State\<close>

record tthread =
  t_Gs :: u64
  t_Fs :: u64

record thread_info =
  ti_t :: tthread
  ti_fp :: u64
  ti_data :: u64
  ti_stk_size :: u64

record tstate =
  mach :: machine
  fs_base :: u64
  gs_base :: u64
  first_templeos_task :: "thread_info list"  \<comment> \<open>the list linked by \<open>next\<close>, its head first\<close>

abbreviation tmem :: "tstate \<Rightarrow> mem" where
  "tmem s \<equiv> mmem (mach s)"

definition set_tmem :: "mem \<Rightarrow> tstate \<Rightarrow> tstate" where
  "set_tmem m s = s\<lparr>mach := (mach s)\<lparr>mmem := m\<rparr>\<rparr>"

lemma set_tmem_simps [simp]:
  "tmem (set_tmem m s) = m" "fs_base (set_tmem m s) = fs_base s" "gs_base (set_tmem m s) = gs_base s"
  "first_templeos_task (set_tmem m s) = first_templeos_task s"
  "set_tmem m (set_tmem m' s) = set_tmem m s" "set_tmem (tmem s) s = s"
  by (simp_all add: set_tmem_def)

section \<open>Entering and leaving TempleOS\<close>

text \<open>
  \<open>arch_prctl(ARCH_SET_GS, v)\<close> and \<open>arch_prctl(ARCH_SET_FS, v)\<close> fail for the addresses the
  kernel refuses (\<open>prctl_ok\<close>); reading a base does not fail. The \<open>checks\<close> argument is
  \<open>TEMPLEOS_ENTER_EXIT_CHECKS\<close>. A failure writes a message and calls \<open>_exit\<close>.
\<close>

abbreviation glibc_fs_of :: "mem \<Rightarrow> tthread \<Rightarrow> u64" where
  "glibc_fs_of m t \<equiv> ld64 m (t_Gs t + fld CCPU ''glibc_fs'')"

abbreviation glibc_gs_of :: "mem \<Rightarrow> tthread \<Rightarrow> u64" where
  "glibc_gs_of m t \<equiv> ld64 m (t_Gs t + fld CCPU ''glibc_gs'')"

definition switch_failed :: "'a res" where
  "switch_failed = Inl (ExitWith EXIT_FAILURE)"

definition enter_templeos :: "bool \<Rightarrow> (u64 \<Rightarrow> bool) \<Rightarrow> tthread \<Rightarrow> tstate \<Rightarrow> tstate res" where
  "enter_templeos checks prctl_ok t s =
     (if t_Gs t = 0 \<or> t_Fs t = 0 then Inl Aborted
      else
        let s = (if checks
                 then let m = st64 (tmem s) (t_Gs t + fld CCPU ''glibc_gs'') (gs_base s);
                          m = st64 m (t_Gs t + fld CCPU ''glibc_fs'') (fs_base s)
                      in set_tmem m s
                 else s)
        in if \<not> prctl_ok (t_Gs t) then switch_failed
           else let s = s\<lparr>gs_base := t_Gs t\<rparr> in
             if \<not> prctl_ok (t_Fs t) then switch_failed
             else let s = s\<lparr>fs_base := t_Fs t\<rparr> in
               if checks \<and> (gs_base s \<noteq> t_Gs t \<or> fs_base s \<noteq> t_Fs t) then switch_failed
               else Inr s)"

definition exit_templeos :: "bool \<Rightarrow> (u64 \<Rightarrow> bool) \<Rightarrow> tstate \<Rightarrow> (tthread \<times> tstate) res" where
  "exit_templeos checks prctl_ok s =
     (let t = (if checks then \<lparr>t_Gs = gs_base s, t_Fs = fs_base s\<rparr>
               else \<lparr>t_Gs = ld64 (tmem s) (gs_base s), t_Fs = ld64 (tmem s) (fs_base s)\<rparr>)
      in if \<not> prctl_ok (glibc_gs_of (tmem s) t) then switch_failed
         else let s = s\<lparr>gs_base := glibc_gs_of (tmem s) t\<rparr> in
           if \<not> prctl_ok (glibc_fs_of (tmem s) t) then switch_failed
           else Inr (t, s\<lparr>fs_base := glibc_fs_of (tmem s) t\<rparr>))"

text \<open>The structs of a thread are set up: self pointers, saved glibc bases, valid addresses.\<close>

definition thread_ok :: "(u64 \<Rightarrow> bool) \<Rightarrow> tthread \<Rightarrow> mem \<Rightarrow> bool" where
  "thread_ok prctl_ok t m \<longleftrightarrow>
     t_Gs t \<noteq> 0 \<and> t_Fs t \<noteq> 0 \<and>
     ld64 m (t_Gs t + fld CCPU ''addr'') = t_Gs t \<and> ld64 m (t_Fs t + fld CTask ''addr'') = t_Fs t \<and>
     prctl_ok (t_Gs t) \<and> prctl_ok (t_Fs t) \<and> prctl_ok (glibc_gs_of m t) \<and> prctl_ok (glibc_fs_of m t)"

definition in_temple :: "(u64 \<Rightarrow> bool) \<Rightarrow> tthread \<Rightarrow> tstate \<Rightarrow> bool" where
  "in_temple prctl_ok t s \<longleftrightarrow>
     thread_ok prctl_ok t (tmem s) \<and> gs_base s = t_Gs t \<and> fs_base s = t_Fs t"

definition in_host :: "(u64 \<Rightarrow> bool) \<Rightarrow> tthread \<Rightarrow> tstate \<Rightarrow> bool" where
  "in_host prctl_ok t s \<longleftrightarrow>
     thread_ok prctl_ok t (tmem s) \<and> gs_base s = glibc_gs_of (tmem s) t \<and>
     fs_base s = glibc_fs_of (tmem s) t"

lemma st64_ld64_same: "st64 m a (ld64 m a) = m"
proof
  fix x
  have "le_bytes 8 (unat (ld64 m a)) = ld_bytes m a 8"
    using ld64_eq_iff [of m a "ld64 m a"] by (simp add: bytes_at_def)
  then show "st64 m a (ld64 m a) x = m x"
    by (simp add: st64_def st_bytes_apply ld_bytes_nth in_region_def)
qed

lemma fld_glibc: "fld CCPU ''glibc_fs'' = 256" "fld CCPU ''glibc_gs'' = 264"
  by (simp_all add: fld_def off_simps)

lemma fld_addr: "fld CCPU ''addr'' = 0" "fld CTask ''addr'' = 0"
  by (simp_all add: fld_def off_simps)

lemma enter_host:
  assumes "in_host prctl_ok t s"
  shows "enter_templeos checks prctl_ok t s = Inr (s\<lparr>gs_base := t_Gs t, fs_base := t_Fs t\<rparr>)"
  using assms by (simp add: enter_templeos_def in_host_def thread_ok_def st64_ld64_same Let_def)

lemma exit_temple:
  assumes "in_temple prctl_ok t s"
  shows "exit_templeos checks prctl_ok s =
    Inr (t, s\<lparr>gs_base := glibc_gs_of (tmem s) t, fs_base := glibc_fs_of (tmem s) t\<rparr>)"
proof -
  have "t = \<lparr>t_Gs = t_Gs t, t_Fs = t_Fs t\<rparr>" by simp
  with assms show ?thesis
    by (simp add: exit_templeos_def in_temple_def thread_ok_def fld_addr Let_def)
qed

interpretation ws: world_switch "enter_templeos checks prctl_ok" "exit_templeos checks prctl_ok"
  "in_temple prctl_ok" "in_host prctl_ok" for checks prctl_ok
proof
  fix t s s'
  show "\<exists>s'. enter_templeos checks prctl_ok t s = Inr s' \<and> in_temple prctl_ok t s'"
    if "in_host prctl_ok t s"
    using enter_host [OF that] that by (simp add: in_temple_def in_host_def)
  show "\<exists>s'. exit_templeos checks prctl_ok s = Inr (t, s') \<and> in_host prctl_ok t s'"
    if "in_temple prctl_ok t s"
    using exit_temple [OF that] that by (simp add: in_temple_def in_host_def)
  show "enter_templeos checks prctl_ok t s' = Inr s"
    if a: "in_temple prctl_ok t s" "exit_templeos checks prctl_ok s = Inr (t, s')"
  proof -
    have s': "s' = s\<lparr>gs_base := glibc_gs_of (tmem s) t, fs_base := glibc_fs_of (tmem s) t\<rparr>"
      using exit_temple [OF a(1), of checks] a(2) by simp
    have "in_host prctl_ok t s'" using a(1) by (simp add: s' in_host_def in_temple_def)
    from enter_host [OF this, of checks] a(1) show ?thesis by (simp add: s' in_temple_def)
  qed
  show "exit_templeos checks prctl_ok s' = Inr (t, s)"
    if a: "in_host prctl_ok t s" "enter_templeos checks prctl_ok t s = Inr s'"
  proof -
    have s': "s' = s\<lparr>gs_base := t_Gs t, fs_base := t_Fs t\<rparr>"
      using enter_host [OF a(1), of checks] a(2) by simp
    have "in_temple prctl_ok t s'" using a(1) by (simp add: s' in_host_def in_temple_def)
    from exit_temple [OF this, of checks] a(1) show ?thesis by (simp add: s' in_host_def)
  qed
qed

section \<open>Calling TempleOS functions\<close>

text \<open>
  The environment: whether the checks are compiled in, which bases \<open>arch_prctl\<close> accepts,
  and the TempleOS code: \<open>e_code a args\<close> is
  the effect of calling the machine code at \<open>a\<close> (through \<open>call_templeos1_asm\<close> and so on).
\<close>

record env =
  e_checks :: bool
  e_prctl :: "u64 \<Rightarrow> bool"
  e_code :: "u64 \<Rightarrow> u64 list \<Rightarrow> tstate \<Rightarrow> (u64 \<times> tstate) res"

definition entry_body :: "cstring \<Rightarrow> hstore \<Rightarrow> u64 \<Rightarrow> u64 + unit" where
  "entry_body name objs e =
     (let he = objs e in
      if is_hash_type he (HTT_EXPORT_SYS_SYM OR HTF_IMM) then
        (if he_str he \<noteq> name then Inr () else Inl (ex_val he))
      else if is_hash_type he HTT_FUN then
        (if he_str he \<noteq> name then Inr () else Inl (fn_exe_addr he))
      else Inr ())"

definition find_entry_point :: "tthread \<Rightarrow> cstring \<Rightarrow> machine \<Rightarrow> u64 res" where
  "find_entry_point t name s =
     res_bind (sym_get s name) (\<lambda>e. case e of
       Some e \<Rightarrow> Inr (ex_value e)
     | None \<Rightarrow>
         res_bind (thiter_for
           (\<lambda>u it. case it_he it of [] \<Rightarrow> Inr u | e # _ \<Rightarrow> entry_body name (hobjs s) e)
           () (thiter_new (task_tables s (t_Fs t))))
         (\<lambda>r. Inr (case r of Inl a \<Rightarrow> a | Inr _ \<Rightarrow> 0)))"

text \<open>The common body of the \<open>call_templeos\<close> functions; it also returns \<open>*t\<close>.\<close>

definition call_with ::
  "env \<Rightarrow> tthread \<Rightarrow> cstring \<Rightarrow> u64 list \<Rightarrow> tstate \<Rightarrow> (u64 \<times> tthread \<times> tstate) res" where
  "call_with env t name args s =
     res_bind (find_entry_point t name (mach s)) (\<lambda>entry.
       if entry = 0 then Inl (ExitWith EXIT_FAILURE)
       else
         res_bind (enter_templeos (e_checks env) (e_prctl env) t s) (\<lambda>s.
         res_bind (e_code env entry args s) (\<lambda>(r, s).
         res_bind (exit_templeos (e_checks env) (e_prctl env) s) (\<lambda>(t, s). Inr (r, t, s)))))"

definition call_templeos where "call_templeos env t name = call_with env t name []"
definition call_templeos1 where "call_templeos1 env t name a = call_with env t name [a]"
definition call_templeos2 where "call_templeos2 env t name a b = call_with env t name [a, b]"
definition call_templeos3 where "call_templeos3 env t name a b c = call_with env t name [a, b, c]"
definition call_templeos4 where
  "call_templeos4 env t name a b c d = call_with env t name [a, b, c, d]"
definition call_templeos6 where
  "call_templeos6 env t name a b c d e f = call_with env t name [a, b, c, d, e, f]"

lemma find_entry_point_eq:
  assumes get: "sym_get s name = Inr r" and tabs: "\<forall>h \<in> set (task_tables s (t_Fs t)). table_ok h"
  shows "find_entry_point t name s = Inr (case r of
      Some e \<Rightarrow> ex_value e
    | None \<Rightarrow> (case find (\<lambda>e. late_target (hobjs s e) \<and> he_str (hobjs s e) = name)
                      (table_elems (task_tables s (t_Fs t))) of
          None \<Rightarrow> 0
        | Some e \<Rightarrow> late_addr (hobjs s e)))"
proof (cases r)
  case (Some e)
  with get show ?thesis by (simp add: find_entry_point_def)
next
  case None
  have body: "entry_body name (hobjs s) e =
      (if late_target (hobjs s e) \<and> he_str (hobjs s e) = name then Inl (late_addr (hobjs s e)) else Inr ())" for e
    by (auto simp: entry_body_def late_target_def late_addr_def Let_def)
  have "thiter_for (\<lambda>u it. case it_he it of [] \<Rightarrow> Inr u | e # _ \<Rightarrow> entry_body name (hobjs s) e)
      () (thiter_new (task_tables s (t_Fs t))) =
      Inr (fold_exit (\<lambda>_. entry_body name (hobjs s)) () (table_elems (task_tables s (t_Fs t))))"
    by (rule thiter_for_new [OF tabs]) (simp split: list.splits)
  moreover have "fold_exit (\<lambda>_. entry_body name (hobjs s)) () xs =
      (case find (\<lambda>e. late_target (hobjs s e) \<and> he_str (hobjs s e) = name) xs of
         None \<Rightarrow> Inr () | Some e \<Rightarrow> Inl (late_addr (hobjs s e)))" for xs
    by (rule fold_exit_find_at) (rule body)
  ultimately show ?thesis
    using get None by (simp add: find_entry_point_def split: option.splits)
qed

text \<open>C24: looking up an entry point, a symbol of the kernel table wins; otherwise the first
  exported symbol (with its value fixed) or function of that name in the task's symbol tables (its own, then its
  parents') is taken, and the result is NULL when there is none. The name is one the kernel table can
  look up (\<open>hash_key_ok\<close>, as every ASCII name), and each table of the chain has as many slots as its mask says.\<close>
theorem find_entry_point_resolves:
  assumes "hash_inv (symbols s)" "hash_key_ok name" "\<forall>h \<in> set (task_tables s (t_Fs t)). table_ok h"
  shows "\<exists>r. sym_get s name = Inr r \<and> find_entry_point t name s = Inr (case r of
      Some e \<Rightarrow> ex_value e
    | None \<Rightarrow> (case find (\<lambda>e. late_target (hobjs s e) \<and> he_str (hobjs s e) = name)
                      (table_elems (task_tables s (t_Fs t))) of
          None \<Rightarrow> 0
        | Some e \<Rightarrow> late_addr (hobjs s e)))"
proof -
  obtain r where "sym_get s name = Inr r"
    using hash_get_ok [OF assms(1,2)] by (auto simp: sym_get_def)
  with find_entry_point_eq [OF this assms(3)] show ?thesis by blast
qed

theorem find_entry_point_resolves_witness:
  "find_entry_point \<lparr>t_Gs = 0, t_Fs = 0\<rparr> ''KbdMsHndlr'' late_machine = Inr 0x7000"
proof -
  have i: "hash_inv (symbols late_machine)"
    by (simp add: late_machine_def bare_machine_def hello_machine_def hash_inv_init)
  have "sym_get late_machine ''KbdMsHndlr'' = Inr None"
    using hash_get_ok [OF i, of "''KbdMsHndlr''"] hash_get_init [of 4096 "''KbdMsHndlr''"]
    by (auto simp: sym_get_def late_machine_def bare_machine_def hello_machine_def hash_key_ok_ascii)
  then show ?thesis
    using find_entry_point_resolves [OF i, of "''KbdMsHndlr''" "\<lparr>t_Gs = 0, t_Fs = 0\<rparr>"]
    by (auto simp: late_machine_def table_ok_def hash_key_ok_ascii table_elems_def late_target_def
        late_addr_def is_hash_type_def htt_defs)
qed

text \<open>C3: the switches between C and TempleOS are inverse to each other: with the structs of
  the thread set up, leaving TempleOS and entering it again (a system call with an empty
  body) restores the state exactly, and so does entering and leaving.\<close>
theorem world_switch_roundtrip:
  "(in_temple ok t s \<longrightarrow> (\<exists>s'. exit_templeos checks ok s = Inr (t, s') \<and> in_host ok t s' \<and>
      enter_templeos checks ok t s' = Inr s)) \<and>
   (in_host ok t s \<longrightarrow> (\<exists>s'. enter_templeos checks ok t s = Inr s' \<and> in_temple ok t s' \<and>
      exit_templeos checks ok s' = Inr (t, s)))"
  using ws.leave_ok [of ok t s checks] ws.enter_leave [of ok t s checks]
    ws.enter_ok [of ok t s checks] ws.leave_enter [of ok t s checks] by blast

text \<open>A thread whose \<open>CCPU\<close> is at \<open>0x1000\<close> and \<open>CTask\<close> at \<open>0x2000\<close>.\<close>

definition demo_thread :: tthread where
  "demo_thread = \<lparr>t_Gs = 0x1000, t_Fs = 0x2000\<rparr>"

definition demo_state :: tstate where
  "demo_state = \<lparr>mach = late_machine\<lparr>mmem := st64 (st64 (st64 (\<lambda>_. 0) 0x1000 0x1000) 0x2000 0x2000)
       0x1100 0x7f00\<rparr>, fs_base = 0x7f00, gs_base = 0, first_templeos_task = []\<rparr>"

lemma demo_disjoint: "unat a + 8 \<le> unat b \<Longrightarrow> unat b + 8 \<le> 2 ^ 64 \<Longrightarrow>
   disjoint_regions a 8 b 8 \<and> disjoint_regions b 8 a 8"
  using disjoint_regionsI [of a 8 b 8] disjoint_regions_sym by blast

lemma ld64_zero: "ld64 (\<lambda>_. 0) a = 0"
proof -
  have "(8 :: nat) = Suc (Suc (Suc (Suc (Suc (Suc (Suc (Suc 0)))))))" by simp
  then have "ld_bytes (\<lambda>_. 0) a 8 = [0, 0, 0, 0, 0, 0, 0, 0]" by (simp only: ld_bytes.simps)
  then show ?thesis by (simp add: ld64_def)
qed

lemma demo_in_host: "in_host (\<lambda>_. True) demo_thread demo_state"
  by (simp add: in_host_def thread_ok_def demo_thread_def demo_state_def fld_addr fld_glibc
      ld64_st64 ld64_st64_other demo_disjoint ld64_zero)

theorem world_switch_roundtrip_witness:
  "\<exists>s'. enter_templeos False (\<lambda>_. True) demo_thread demo_state = Inr s' \<and>
     fs_base s' = 0x2000 \<and> exit_templeos False (\<lambda>_. True) s' = Inr (demo_thread, demo_state)"
  using world_switch_roundtrip [of "\<lambda>_. True" demo_thread demo_state False] demo_in_host
  by (auto simp: in_temple_def demo_thread_def)

text \<open>C5: a call of a TempleOS function by name runs the code at its entry point with FS and
  GS pointing to the thread's \<open>CTask\<close> and \<open>CCPU\<close>, returns its result with the bases of
  glibc restored, and ends the process when the name has no entry point.\<close>
theorem call_templeos_runs:
  assumes host: "in_host (e_prctl env) t s" and e: "find_entry_point t name (mach s) = Inr entry"
    and code: "\<And>s1. in_temple (e_prctl env) t s1 \<Longrightarrow>
      \<exists>r s2. e_code env entry args s1 = Inr (r, s2) \<and> in_temple (e_prctl env) t s2"
  shows "if entry = 0 then call_with env t name args s = Inl (ExitWith EXIT_FAILURE)
    else \<exists>r s2 s'. e_code env entry args (s\<lparr>gs_base := t_Gs t, fs_base := t_Fs t\<rparr>) = Inr (r, s2) \<and>
      call_with env t name args s = Inr (r, t, s') \<and> in_host (e_prctl env) t s' \<and> mach s' = mach s2"
proof (cases "entry = 0")
  case True
  with e show ?thesis by (simp add: call_with_def)
next
  case False
  obtain s1 r s2 s' where c: "enter_templeos (e_checks env) (e_prctl env) t s = Inr s1"
    "e_code env entry args s1 = Inr (r, s2)"
    "exit_templeos (e_checks env) (e_prctl env) s2 = Inr (t, s')" "in_host (e_prctl env) t s'"
    using ws.call_ok [OF host, of "e_checks env" "e_code env entry args"] code by blast
  have "s1 = s\<lparr>gs_base := t_Gs t, fs_base := t_Fs t\<rparr>"
    using enter_host [OF host, of "e_checks env"] c(1) by simp
  moreover have "mach s' = mach s2"
    using c(3) by (auto simp: exit_templeos_def Let_def switch_failed_def split: if_splits)
  ultimately show ?thesis using False e c by (auto simp: call_with_def)
qed

theorem call_templeos_runs_witness:
  "\<exists>s'. call_templeos1 \<lparr>e_checks = True, e_prctl = (\<lambda>_. True),  e_code = (\<lambda>a args s. Inr (a + sum_list args, s))\<rparr> demo_thread ''KbdMsHndlr'' 5 demo_state =
    Inr (0x7005, demo_thread, s') \<and> fs_base s' = 0x7f00"
proof -
  let ?env = "\<lparr>e_checks = True, e_prctl = (\<lambda>_. True),  e_code = (\<lambda>a args s. Inr (a + sum_list args, s))\<rparr> :: env"
  have i: "hash_inv (symbols (mach demo_state))"
    by (simp add: demo_state_def late_machine_def bare_machine_def hello_machine_def hash_inv_init)
  have g: "sym_get (mach demo_state) ''KbdMsHndlr'' = Inr None"
    using hash_get_ok [OF i, of "''KbdMsHndlr''"] hash_get_init [of 4096 "''KbdMsHndlr''"]
    by (auto simp: sym_get_def demo_state_def late_machine_def bare_machine_def hello_machine_def hash_key_ok_ascii)
  have tabs: "\<forall>h \<in> set (task_tables (mach demo_state) (t_Fs demo_thread)). table_ok h"
    by (simp add: demo_state_def late_machine_def table_ok_def)
  have e: "find_entry_point demo_thread ''KbdMsHndlr'' (mach demo_state) = Inr 0x7000"
    by (simp add: find_entry_point_eq [OF g tabs])
       (simp add: demo_state_def late_machine_def table_elems_def late_target_def late_addr_def is_hash_type_def htt_defs)
  have "if (0x7000 :: u64) = 0 then call_with ?env demo_thread ''KbdMsHndlr'' [5] demo_state = Inl (ExitWith EXIT_FAILURE)
    else \<exists>r s2 s'. e_code ?env 0x7000 [5] (demo_state\<lparr>gs_base := t_Gs demo_thread, fs_base := t_Fs demo_thread\<rparr>) = Inr (r, s2) \<and>
      call_with ?env demo_thread ''KbdMsHndlr'' [5] demo_state = Inr (r, demo_thread, s') \<and>
      in_host (e_prctl ?env) demo_thread s' \<and> mach s' = mach s2"
    by (rule call_templeos_runs) (simp_all add: demo_in_host e)
  then obtain s' where s': "call_with ?env demo_thread ''KbdMsHndlr'' [5] demo_state = Inr (0x7005, demo_thread, s')"
    "in_host (\<lambda>_. True) demo_thread s'" "mach s' = mach demo_state"
    by auto
  have "glibc_fs_of (tmem demo_state) demo_thread = 0x7f00"
    using demo_in_host by (simp add: in_host_def demo_state_def)
  then have "fs_base s' = 0x7f00" using s'(2,3) by (simp add: in_host_def)
  with s'(1) show ?thesis by (simp add: call_templeos1_def)
qed

end
