(* ===== verification/TosAlloc.thy ===== *)
theory TosAlloc
  imports Machine
begin

text \<open>
  Memory for TempleOS: \<open>malloc_for_templeos\<close> and \<open>free_for_templeos\<close> of \<open>lilith/task.c\<close> and the
  system calls \<open>MAlloc\<close>, \<open>Free\<close>, \<open>MHeapCtrl\<close> and \<open>MSize\<close> of \<open>lilith/syscalls.c\<close>, in both
  configurations of \<open>lilith/lilith.c\<close>: on the two heaps of \<open>stb_malloc\<close> (the default) or on
  glibc (\<open>USE_GLIBC_MALLOC\<close>), where executable memory is mapped and registered. What
  \<open>malloc\<close> and \<open>mmap\<close> return comes from the environment; what \<open>stb_malloc\<close> returns does so here (its model is
  \<open>StbmApi\<close>). The switches to the world of C at the start of these system calls and back at their end are those of
  \<open>Task\<close> and are left out.
\<close>

section \<open>Configuration\<close>

record heap_conf =
  USE_GLIBC_MALLOC :: bool
  DEBUG_REGISTER_ALL_ALLOCATIONS :: bool
  code_heap :: u64
  data_heap :: u64
  heap_alloc :: allocator                       \<comment> \<open>\<open>stbm_alloc\<close>, \<open>malloc\<close> and \<open>mmap\<close>\<close>
  stbm_get_heap :: "u64 \<Rightarrow> u64"
  stbm_get_allocation_size :: "u64 \<Rightarrow> u64"

section \<open>Operations\<close>

definition memset0 :: "u64 \<Rightarrow> u64 \<Rightarrow> machine \<Rightarrow> machine res" where
  "memset0 p sz s =
     (if p = 0 \<and> sz \<noteq> 0 then Inl NullDeref
      else Inr (s\<lparr>mmem := st_bytes (mmem s) p (replicate (unat sz) 0)\<rparr>))"

definition malloc_for_templeos :: "heap_conf \<Rightarrow> u64 \<Rightarrow> u64 \<Rightarrow> bool \<Rightarrow> machine \<Rightarrow> (u64 \<times> machine) res" where
  "malloc_for_templeos c sz heap zero s =
     (let (p, s) = os_alloc (heap_alloc c) sz s
      in if USE_GLIBC_MALLOC c then
           let executable = (heap = code_heap c); is_mmapped = executable
           in res_bind (if zero then memset0 p sz s else Inr s) (\<lambda>s.
                if p = 0 then Inr (p, s)
                else if is_mmapped \<or> DEBUG_REGISTER_ALL_ALLOCATIONS c
                then res_bind (mregister p sz is_mmapped s) (\<lambda>s. Inr (p, s))
                else Inr (p, s))
         else res_bind (if zero then memset0 p sz s else Inr s) (\<lambda>s. Inr (p, s)))"

text \<open>What is given back to the operating system or the heap.\<close>

datatype release =
    NothingFreed
  | Munmap u64 u64
  | LibcFree u64
  | StbmFree u64 u64    \<comment> \<open>heap and block\<close>

definition free_for_templeos :: "heap_conf \<Rightarrow> u64 \<Rightarrow> machine \<Rightarrow> (release \<times> machine) res" where
  "free_for_templeos c p s =
     (if p = 0 then Inr (NothingFreed, s)
      else if USE_GLIBC_MALLOC c then
        let e = (if DEBUG_REGISTER_ALL_ALLOCATIONS c \<or> p < 0x100000000
                 then get_templeos_memory (memmap s) p else None)
        in if e = None \<and> DEBUG_REGISTER_ALL_ALLOCATIONS c
           then Inl (ExitWith 0)
           else case e of
             None \<Rightarrow> Inr (LibcFree p, s)
           | Some i \<Rightarrow>
               let en = mm_v (memmap s) ! i
               in if DEBUG_REGISTER_ALL_ALLOCATIONS c \<and> me_mem en \<noteq> p then Inl (ExitWith 0)
                  else res_bind (unregister_templeos_memory p (memmap s)) (\<lambda>mm.
                    Inr (if me_mmapped en then Munmap (me_mem en) (me_sz en) else LibcFree (me_mem en),
                         s\<lparr>memmap := mm\<rparr>))
      else Inr (StbmFree (stbm_get_heap c p) p, s))"

definition syscall_MAlloc :: "heap_conf \<Rightarrow> u64 \<Rightarrow> u64 \<Rightarrow> machine \<Rightarrow> (u64 \<times> machine) res" where
  "syscall_MAlloc c sz mem_task s =
     (let heap = mem_task;
          heap = (if heap = 0 \<or> (heap \<noteq> code_heap c \<and> heap \<noteq> data_heap c) then data_heap c else heap)
      in malloc_for_templeos c sz heap False s)"

definition syscall_Free :: "heap_conf \<Rightarrow> u64 \<Rightarrow> machine \<Rightarrow> (release \<times> machine) res" where
  "syscall_Free c p s = (if p = 0 then Inr (NothingFreed, s) else free_for_templeos c p s)"

definition syscall_MHeapCtrl :: "heap_conf \<Rightarrow> u64 \<Rightarrow> machine \<Rightarrow> u64" where
  "syscall_MHeapCtrl c p s =
     (if USE_GLIBC_MALLOC c then
        let e = (if DEBUG_REGISTER_ALL_ALLOCATIONS c \<or> p < 0x100000000
                 then get_templeos_memory (memmap s) p else None)
        in case e of
             None \<Rightarrow> data_heap c
           | Some i \<Rightarrow> if me_mmapped (mm_v (memmap s) ! i) then code_heap c else data_heap c
      else stbm_get_heap c p)"

definition syscall_MSize :: "heap_conf \<Rightarrow> u64 \<Rightarrow> machine \<Rightarrow> u64 res" where
  "syscall_MSize c p s =
     (if USE_GLIBC_MALLOC c then
        (case get_templeos_memory (memmap s) p of
           None \<Rightarrow> Inl NullDeref
         | Some i \<Rightarrow> Inr (me_sz (mm_v (memmap s) ! i)))
      else Inr (stbm_get_allocation_size c p))"

section \<open>Properties\<close>

lemma memset0_ok: "p \<noteq> 0 \<Longrightarrow> memset0 p sz s = Inr (s\<lparr>mmem := st_bytes (mmem s) p (replicate (unat sz) 0)\<rparr>)"
  by (simp add: memset0_def)

text \<open>A block allocated with \<open>zero\<close> on the heaps is zero, and allocating it changes no
  byte outside it and no registered memory.\<close>
theorem malloc_for_templeos_zeroes:
  assumes "\<not> USE_GLIBC_MALLOC c" "heap_alloc c (allocs s) sz \<noteq> 0"
  shows "\<exists>p s'. malloc_for_templeos c sz heap True s = Inr (p, s') \<and> memmap s' = memmap s \<and>
    bytes_at (mmem s') p (replicate (unat sz) 0) \<and>
    (\<forall>x. \<not> in_region p (unat sz) x \<longrightarrow> mmem s' x = mmem s x)"
proof -
  have l: "unat sz \<le> 2 ^ 64" using unat_bound64 [of sz] by simp
  then have "bytes_at (st_bytes m p (replicate (unat sz) 0)) p (replicate (unat sz) 0)" for m p
    by (intro bytes_at_st_bytes_same) simp
  with assms l show ?thesis
    by (simp add: malloc_for_templeos_def os_alloc_def memset0_ok st_bytes_other)
qed

definition stbm_conf :: heap_conf where
  "stbm_conf = \<lparr>USE_GLIBC_MALLOC = False, DEBUG_REGISTER_ALL_ALLOCATIONS = False, code_heap = 0x1000,
     data_heap = 0x2000, heap_alloc = (\<lambda>n sz. 0x10000), stbm_get_heap = (\<lambda>_. 0x2000),
     stbm_get_allocation_size = (\<lambda>_. 16)\<rparr>"

definition empty_machine :: machine where
  "empty_machine = \<lparr>mmem = (\<lambda>_. 7), symbols = hash_init 4096, exports = [], memmap = mem_map_init,
     allocs = 0, hobjs = (\<lambda>_. \<lparr>he_str = [], he_type = 0, ex_val = 0, fn_exe_addr = 0, mod_data0 = 0,
       gv_data_addr = 0\<rparr>), task_tables = (\<lambda>_. []), console = []\<rparr>"

theorem malloc_for_templeos_zeroes_witness:
  "\<exists>s'. malloc_for_templeos stbm_conf 2 0x2000 True empty_machine = Inr (0x10000, s') \<and>
     mmem s' 0x10001 = 0 \<and> mmem s' 0x10002 = 7"
proof -
  have "unat (2 :: u64) = Suc (Suc 0)" by simp
  then have r: "replicate (unat (2 :: u64)) (0 :: u8) = [0, 0]" by (simp only: replicate.simps)
  obtain p s' where s': "malloc_for_templeos stbm_conf 2 0x2000 True empty_machine = Inr (p, s')"
    "bytes_at (mmem s') p [0, 0]" "\<forall>x. \<not> in_region p (unat (2 :: u64)) x \<longrightarrow> mmem s' x = mmem empty_machine x"
    using malloc_for_templeos_zeroes [of stbm_conf empty_machine 2 "0x2000"] r
    by (auto simp: stbm_conf_def)
  moreover have "p = 0x10000"
    using s'(1) by (simp add: malloc_for_templeos_def os_alloc_def memset0_ok stbm_conf_def)
  ultimately show ?thesis by (auto simp: bytes_at_Cons in_region_def empty_machine_def)
qed

lemma find_index_snoc:
  "\<forall>y \<in> set xs. \<not> P y \<Longrightarrow> P x \<Longrightarrow> find_index P k (xs @ [x]) = Some (k + length xs)"
  by (induction xs arbitrary: k) auto

text \<open>C38: in the glibc configuration a mapped block whose start is in no registered block is
  registered when it is allocated, the size and heap queries know it, and, freed, it is
  unmapped once with its own address and size, after which the registry covers the same
  addresses as before.\<close>
theorem malloc_free_unmaps:
  assumes c: "USE_GLIBC_MALLOC c" "p = heap_alloc c (allocs s) sz"
    and p: "p \<noteq> 0" "p < 0x100000000" "0 < sz" "unat p + unat sz < 2 ^ 64"
    and inv: "mem_map_inv (memmap s)"
    and fresh: "\<not> is_templeos_memory (memmap s) p"
  shows "\<exists>s1 s2. malloc_for_templeos c sz (code_heap c) False s = Inr (p, s1) \<and>
    is_templeos_memory (memmap s1) p \<and> syscall_MSize c p s1 = Inr sz \<and>
    syscall_MHeapCtrl c p s1 = code_heap c \<and>
    syscall_Free c p s1 = Inr (Munmap p sz, s2) \<and>
    (\<forall>q. is_templeos_memory (memmap s2) q = is_templeos_memory (memmap s) q)"
proof -
  let ?e = "\<lparr>me_mem = p, me_sz = sz, me_used = True, me_mmapped = True\<rparr>"
  obtain mm where mm: "register_templeos_memory p sz True (memmap s) = Inr mm"
    "mm_v mm = mm_v (memmap s) @ [?e]"
    using register_ok [OF inv] by metis
  let ?s1 = "s\<lparr>allocs := Suc (allocs s), memmap := mm\<rparr>"
  have m: "malloc_for_templeos c sz (code_heap c) False s = Inr (p, ?s1)"
    using c p(1) mm(1) by (simp add: malloc_for_templeos_def os_alloc_def mregister_def Let_def)
  have "unat p < unat p + unat sz" using p(3) by (simp add: word_less_nat_alt)
  then have cov: "entry_covers p ?e" by (simp add: entry_covers_interval [OF p(4)])
  have get: "get_templeos_memory mm p = Some (mm_len (memmap s))"
    using fresh cov find_index_snoc [of "mm_v (memmap s)" "entry_covers p" ?e 0]
    by (simp add: get_templeos_memory_def mm(2) is_templeos_memory_iff)
  let ?s2 = "?s1\<lparr>memmap := mm\<lparr>mm_v := mm_v (memmap s) @ [?e\<lparr>me_used := False\<rparr>]\<rparr>\<rparr>"
  have nth: "mm_v mm ! mm_len (memmap s) = ?e" by (simp add: mm(2))
  have "unregister_templeos_memory p mm =
      Inr (mm\<lparr>mm_v := mm_v (memmap s) @ [?e\<lparr>me_used := False\<rparr>]\<rparr>)"
    by (simp add: unregister_templeos_memory_def get nth) (simp add: mm(2))
  then have f: "syscall_Free c p ?s1 = Inr (Munmap p sz, ?s2)"
    using c(1) p(1,2) by (simp add: syscall_Free_def free_for_templeos_def get nth Let_def)
  have q: "is_templeos_memory (memmap ?s2) q = is_templeos_memory (memmap s) q" for q
    by (auto simp: is_templeos_memory_iff entry_covers_def)
  have "syscall_MSize c p ?s1 = Inr sz" "syscall_MHeapCtrl c p ?s1 = code_heap c"
    using c(1) p(2) by (simp_all add: syscall_MSize_def syscall_MHeapCtrl_def get nth Let_def)
  moreover have "is_templeos_memory (memmap ?s1) p" by (simp add: is_templeos_memory_def get)
  ultimately show ?thesis using m f q by blast
qed

theorem malloc_free_unmaps_witness:
  "\<exists>s1 s2. malloc_for_templeos (stbm_conf\<lparr>USE_GLIBC_MALLOC := True\<rparr>) 0x800 0x1000 False empty_machine =
      Inr (0x10000, s1) \<and>
    syscall_Free (stbm_conf\<lparr>USE_GLIBC_MALLOC := True\<rparr>) 0x10000 s1 = Inr (Munmap 0x10000 0x800, s2)"
proof -
  have "mem_map_inv (memmap empty_machine)" by (simp add: empty_machine_def mem_map_inv_init)
  moreover have "\<not> is_templeos_memory (memmap empty_machine) 0x10000"
    by (simp add: is_templeos_memory_iff empty_machine_def mem_map_init_def)
  moreover have unat_small: "(0x10000 :: u64) \<noteq> 0" "(0x10000 :: u64) < 0x100000000" "(0 :: u64) < 0x800"
    "unat (0x10000 :: u64) + unat (0x800 :: u64) < 2 ^ 64" by simp_all
  moreover have "USE_GLIBC_MALLOC (stbm_conf\<lparr>USE_GLIBC_MALLOC := True\<rparr>)"
    "(0x10000 :: u64) = heap_alloc (stbm_conf\<lparr>USE_GLIBC_MALLOC := True\<rparr>) (allocs empty_machine) 0x800"
    by (simp_all add: stbm_conf_def)
  ultimately obtain s1 s2 where
    "malloc_for_templeos (stbm_conf\<lparr>USE_GLIBC_MALLOC := True\<rparr>) 0x800
       (code_heap (stbm_conf\<lparr>USE_GLIBC_MALLOC := True\<rparr>)) False empty_machine = Inr (0x10000, s1)"
    "syscall_Free (stbm_conf\<lparr>USE_GLIBC_MALLOC := True\<rparr>) 0x10000 s1 = Inr (Munmap 0x10000 0x800, s2)"
    using malloc_free_unmaps [of "stbm_conf\<lparr>USE_GLIBC_MALLOC := True\<rparr>" "0x10000" empty_machine "0x800"]
    unat_small by blast
  moreover have "code_heap (stbm_conf\<lparr>USE_GLIBC_MALLOC := True\<rparr>) = 0x1000" by (simp add: stbm_conf_def)
  ultimately show ?thesis by metis
qed

end
