(* ===== verification/TaskInit.thy ===== *)
theory TaskInit
  imports Task TosAlloc
begin

text \<open>
  The creation of tasks: \<open>init_templeos\<close> and \<open>templeos_task_start\<close> of \<open>lilith/task.c\<close> and
  \<open>syscall_Spawn\<close> and \<open>syscall_TaskStkNew\<close> of \<open>lilith/syscalls.c\<close>. The fields of the new
  structs are written in the order of the code, as lists of writes.
\<close>

unbundle bit_operations_syntax

section \<open>Writes\<close>

datatype mwrite =
    W64 u64 u64
  | W32 u64 u32
  | W16 u64 u16
  | W8 u64 u8
  | WBytes u64 "u8 list"
  | WStr u64 cstring      \<comment> \<open>\<open>strcpy\<close>\<close>

fun write_bytes :: "mwrite \<Rightarrow> u64 \<times> u8 list" where
  "write_bytes (W64 a v) = (a, le_bytes 8 (unat v))"
| "write_bytes (W32 a v) = (a, le_bytes 4 (unat v))"
| "write_bytes (W16 a v) = (a, le_bytes 2 (unat v))"
| "write_bytes (W8 a v) = (a, [v])"
| "write_bytes (WBytes a bs) = (a, bs)"
| "write_bytes (WStr a s) = (a, cstr_bytes s)"

definition writes :: "mwrite list \<Rightarrow> machine \<Rightarrow> machine" where
  "writes ws s = s\<lparr>mmem := fold (\<lambda>w m. st_bytes m (fst (write_bytes w)) (snd (write_bytes w))) ws (mmem s)\<rparr>"

definition write_off :: "mwrite \<Rightarrow> u64 \<Rightarrow> nat \<Rightarrow> bool" where
  "write_off w a n \<longleftrightarrow> length (snd (write_bytes w)) \<le> 2 ^ 64 \<and>
     disjoint_regions a n (fst (write_bytes w)) (length (snd (write_bytes w)))"

lemma writes_Nil [simp]: "writes [] s = s"
  by (simp add: writes_def)

lemma writes_frame [simp]:
  "symbols (writes ws s) = symbols s" "exports (writes ws s) = exports s"
  "memmap (writes ws s) = memmap s" "allocs (writes ws s) = allocs s"
  "hobjs (writes ws s) = hobjs s" "task_tables (writes ws s) = task_tables s"
  by (simp_all add: writes_def)

lemma writes_bytes_at:
  assumes "\<forall>w \<in> set ws. write_off w a (length bs)" "length bs \<le> 2 ^ 64" "bytes_at (mmem s) a bs"
  shows "bytes_at (mmem (writes ws s)) a bs"
proof -
  have "bytes_at (fold (\<lambda>w m. st_bytes m (fst (write_bytes w)) (snd (write_bytes w))) ws (mmem s)) a bs"
    by (rule fold_invariant [where P = "\<lambda>m. bytes_at m a bs"])
       (use assms in \<open>auto simp: write_off_def intro!: bytes_at_st_bytes_other\<close>)
  then show ?thesis by (simp add: writes_def)
qed

lemma writes_ld64:
  assumes "\<forall>w \<in> set ws. write_off w a 8"
  shows "ld64 (mmem (writes ws s)) a = ld64 (mmem s) a"
proof -
  have "bytes_at (mmem s) a (le_bytes 8 (unat (ld64 (mmem s) a)))" by (simp flip: ld64_eq_iff)
  then have "bytes_at (mmem (writes ws s)) a (le_bytes 8 (unat (ld64 (mmem s) a)))"
    using assms by (intro writes_bytes_at) simp_all
  then show ?thesis by (rule ld64_bytes_at)
qed

text \<open>The last write to a place is what is found there.\<close>

lemma writes_last:
  assumes "ws = us @ w # vs" "\<forall>x \<in> set vs. write_off x (fst (write_bytes w)) (length (snd (write_bytes w)))"
    and "length (snd (write_bytes w)) \<le> 2 ^ 64"
  shows "bytes_at (mmem (writes ws s)) (fst (write_bytes w)) (snd (write_bytes w))"
proof -
  have "writes ws s = writes vs (writes (us @ [w]) s)" by (simp add: assms(1) writes_def)
  moreover have "bytes_at (mmem (writes (us @ [w]) s)) (fst (write_bytes w)) (snd (write_bytes w))"
    using assms(3) by (simp add: writes_def bytes_at_st_bytes_same)
  ultimately show ?thesis using writes_bytes_at [OF assms(2,3)] by simp
qed

text \<open>Fields of one block.\<close>

lemma disjoint_fields:
  assumes "i + n \<le> j \<or> j + k \<le> i" "i + n \<le> 2 ^ 63" "j + k \<le> 2 ^ 63"
  shows "disjoint_regions (a + of_nat i) n (a + of_nat j) k"
proof -
  have "\<not> (in_region (a + of_nat i) n x \<and> in_region (a + of_nat j) k x)" for x
  proof
    assume x: "in_region (a + of_nat i) n x \<and> in_region (a + of_nat j) k x"
    define d where "d = x - a"
    have "unat (d - of_nat i) < n" "unat (d - of_nat j) < k"
      using x by (simp_all add: in_region_def d_def algebra_simps)
    moreover have "unat d = unat (d - of_nat i) + i" if "unat (d - of_nat i) < n"
    proof -
      have "unat (of_nat i :: u64) = i" using assms(2) by (simp add: unat_of_nat)
      moreover have "unat (d - of_nat i + of_nat i) = unat (d - of_nat i) + unat (of_nat i :: u64)"
        using that assms(2) calculation by (intro unat_plus64) simp
      ultimately show ?thesis by simp
    qed
    moreover have "unat d = unat (d - of_nat j) + j" if "unat (d - of_nat j) < k"
    proof -
      have "unat (of_nat j :: u64) = j" using assms(3) by (simp add: unat_of_nat)
      moreover have "unat (d - of_nat j + of_nat j) = unat (d - of_nat j) + unat (of_nat j :: u64)"
        using that assms(3) calculation by (intro unat_plus64) simp
      ultimately show ?thesis by simp
    qed
    ultimately show False using assms(1) by linarith
  qed
  then show ?thesis by (auto simp: disjoint_regions_def)
qed

lemma disjoint_blocks:
  assumes "disjoint_regions a n b k" "i + l \<le> n" "j + m \<le> k" "n \<le> 2 ^ 64" "k \<le> 2 ^ 64"
  shows "disjoint_regions (a + of_nat i) l (b + of_nat j) m"
  using disjoint_regions_sub [OF assms(1,3,5)] disjoint_regions_sub [of _ _ a n i l] assms
  by (metis disjoint_regions_sym)

section \<open>The first task\<close>

definition TASK_SIGNATURE :: u32 where "TASK_SIGNATURE = 0x536b7354"
definition DRIVE_LETTER :: u8 where "DRIVE_LETTER = 0x43"
definition DRIVE_ROOT_PATH :: cstring where "DRIVE_ROOT_PATH = ''C:''"
definition TMP_FILE_NAME :: cstring where "TMP_FILE_NAME = ''~/Tmp.DD.Z''"

abbreviation sizeof :: "ctype \<Rightarrow> u64" where
  "sizeof t \<equiv> of_nat (csize t)"

definition calloc :: "heap_conf \<Rightarrow> u64 \<Rightarrow> machine \<Rightarrow> (u64 \<times> machine) res" where
  "calloc c sz s = (let (p, s) = os_alloc (heap_alloc c) sz s in
     res_bind (memset0 p sz s) (\<lambda>s. Inr (p, s)))"

text \<open>\<open>fileconcat(p1, p2, true)\<close>\<close>

definition fileconcat_templeos :: "heap_conf \<Rightarrow> cstring \<Rightarrow> cstring \<Rightarrow> machine \<Rightarrow> (u64 \<times> machine) res" where
  "fileconcat_templeos c p1 p2 s =
     res_bind (malloc_for_templeos c (of_nat (length p1 + length p2 + 2)) (data_heap c) False s)
       (\<lambda>(p, s). if p = 0 then Inl NullDeref else Inr (p, writes [WStr p (fileconcat p1 p2)] s))"

definition adam_links :: "heap_conf \<Rightarrow> u64 \<Rightarrow> u64 \<Rightarrow> mwrite list" where
  "adam_links c Gs Fs =
     [W64 (Fs + fld CTask ''addr'') Fs,
      W64 (Fs + fld CTask ''last_input_filter_task'') Fs,
      W64 (Fs + fld CTask ''next_input_filter_task'') Fs,
      W64 (Fs + fld CTask ''last_task'') Fs,
      W64 (Fs + fld CTask ''next_task'') Fs,
      W64 (Fs + fld CTask ''gs'') Gs,
      W32 (Fs + fld CTask ''task_signature'') TASK_SIGNATURE,
      W64 (Fs + fld CTask ''data_heap'') (data_heap c),
      W64 (Fs + fld CTask ''code_heap'') (code_heap c)]"

definition adam_drive :: "u64 \<Rightarrow> u64 \<Rightarrow> mwrite list" where
  "adam_drive Fs cur_dv =
     [W64 (Fs + fld CTask ''cur_dv'') cur_dv,
      W32 (cur_dv + fld CDrv ''dv_signature'') 0x56535644,
      W16 (cur_dv + fld CDrv ''fs_type'') 1,
      W8 (cur_dv + fld CDrv ''drv_let'') DRIVE_LETTER]"

definition adam_blkdev :: "u64 \<Rightarrow> u64 \<Rightarrow> mwrite list" where
  "adam_blkdev cur_dv bd =
     [W64 (cur_dv + fld CDrv ''bd'') bd,
      W32 (bd + fld CBlkDev ''bd_signature'') 0x56534442,
      W32 (bd + fld CBlkDev ''type'') 1]"

text \<open>The \<open>que_init\<close> assignments: empty queues whose heads point to themselves.\<close>

definition srv_fld :: "string \<Rightarrow> u64" where
  "srv_fld f = fld CTask ''srv_ctrl'' + fld CJobCtrl f"

definition adam_queues :: "u64 \<Rightarrow> mwrite list" where
  "adam_queues Fs =
     [W64 (Fs + fld CTask ''next_except'') (Fs + fld CTask ''next_except''),
      W64 (Fs + fld CTask ''last_except'') (Fs + fld CTask ''next_except''),
      W64 (Fs + fld CTask ''next_cc'') (Fs + fld CTask ''next_cc''),
      W64 (Fs + fld CTask ''last_cc'') (Fs + fld CTask ''next_cc''),
      W64 (Fs + srv_fld ''next_waiting'') (Fs + srv_fld ''next_waiting''),
      W64 (Fs + srv_fld ''last_waiting'') (Fs + srv_fld ''next_waiting''),
      W64 (Fs + srv_fld ''next_done'') (Fs + srv_fld ''next_done''),
      W64 (Fs + srv_fld ''last_done'') (Fs + srv_fld ''next_done''),
      W64 (Fs + fld CTask ''next_ctrl'') (Fs + fld CTask ''next_ctrl''),
      W64 (Fs + fld CTask ''last_ctrl'') (Fs + fld CTask ''next_ctrl'')]"

definition adam_stack :: "u64 \<Rightarrow> u64 \<Rightarrow> u64 \<Rightarrow> mwrite list" where
  "adam_stack Fs stk stk_base_estimate =
     [W64 (Fs + fld CTask ''stk'') stk,
      W64 (stk + fld CTaskStk ''stk_base'') stk_base_estimate,
      W64 (stk + fld CTaskStk ''stk_size'') 4194304,
      WStr (Fs + fld CTask ''task_name'') ''ADAM'']"

definition glibc_saved :: "u64 \<Rightarrow> tstate \<Rightarrow> mwrite list" where
  "glibc_saved Gs s =
     [W64 (Gs + fld CCPU ''glibc_gs'') (gs_base s), W64 (Gs + fld CCPU ''glibc_fs'') (fs_base s)]"

definition init_blkdev :: "heap_conf \<Rightarrow> u64 \<Rightarrow> u64 \<Rightarrow> cstring option \<Rightarrow> machine \<Rightarrow> machine res" where
  "init_blkdev c blkdev cur_dv home s =
     (let s = writes [W8 (blkdev + fld CBlkDevGlbls ''boot_drv_let'') DRIVE_LETTER,
                      W8 (blkdev + fld CBlkDevGlbls ''first_hd_drv_let'') DRIVE_LETTER] s
      in case home of
           None \<Rightarrow> Inl NullDeref
         | Some [] \<Rightarrow> Inl OutOfBounds
         | Some (_ # home1) \<Rightarrow>
             res_bind (fileconcat_templeos c DRIVE_ROOT_PATH home1 s) (\<lambda>(homep, s).
             let s = writes [W64 (blkdev + fld CBlkDevGlbls ''home_dir'') homep,
                             W64 (blkdev + fld CBlkDevGlbls ''let_to_drv'' + 8 * 2) cur_dv] s
             in res_bind (malloc_for_templeos c (of_nat (length TMP_FILE_NAME + 1)) (data_heap c) False s)
               (\<lambda>(tmp, s).
                 let s = writes [W64 (blkdev + fld CBlkDevGlbls ''tmp_filename'') tmp] s
                 in if tmp = 0 then Inl NullDeref else Inr (writes [WStr tmp TMP_FILE_NAME] s))))"

definition init_templeos ::
  "heap_conf \<Rightarrow> u64 \<Rightarrow> cstring \<Rightarrow> cstring option \<Rightarrow> tstate \<Rightarrow> (tthread \<times> tstate) res" where
  "init_templeos c stk_base_estimate w home s0 =
     res_bind (calloc c (sizeof CCPU) (mach s0)) (\<lambda>(Gs, s).
     let s = writes [W64 (Gs + fld CCPU ''addr'') Gs] s in
     res_bind (malloc_for_templeos c (sizeof CTask) (code_heap c) True s) (\<lambda>(Fs, s).
     let s = writes (adam_links c Gs Fs) s in
     res_bind (malloc_for_templeos c (sizeof CDrv) (data_heap c) True s) (\<lambda>(cur_dv, s).
     let s = writes (adam_drive Fs cur_dv) s in
     res_bind (malloc_for_templeos c (sizeof CBlkDev) (data_heap c) True s) (\<lambda>(bd, s).
     let s = writes (adam_blkdev cur_dv bd) s in
     res_bind (fileconcat_templeos c DRIVE_ROOT_PATH w s) (\<lambda>(cur_dir, s).
     let s = writes [W64 (Fs + fld CTask ''cur_dir'') cur_dir] s in
     res_bind (sym_get s ''blkdev'') (\<lambda>blkdev_export. case blkdev_export of
       None \<Rightarrow> Inl (ExitWith EXIT_FAILURE)
     | Some ex \<Rightarrow>
         res_bind (init_blkdev c (ex_value ex) cur_dv home s) (\<lambda>s.
         let s = writes (adam_queues Fs) s in
         res_bind (malloc_for_templeos c (sizeof CTaskStk) (data_heap c) True s) (\<lambda>(stk, s).
         let s = writes (adam_stack Fs stk stk_base_estimate) s;
             s = writes (glibc_saved Gs s0) s;
             t = \<lparr>t_Gs = Gs, t_Fs = Fs\<rparr>
         in Inr (t, s0\<lparr>mach := s, first_templeos_task :=
              \<lparr>ti_t = t, ti_fp = 0, ti_data = 0, ti_stk_size = 0\<rparr> # first_templeos_task s0\<rparr>)))))))))"

section \<open>Starting a task\<close>

text \<open>
  The thread function, up to the call of the task's own function: save the bases of glibc,
  let TempleOS initialise the task, continue its symbol tables with those of the parent,
  and put the task on the list. (The broadcast on \<open>lilith_idle_cond\<close> is in \<open>SpawnProtocol\<close>.)
\<close>

definition task_start_setup :: "env \<Rightarrow> thread_info \<Rightarrow> tstate \<Rightarrow> (thread_info \<times> tstate) res" where
  "task_start_setup env ti s =
     (let s = s\<lparr>mach := writes (glibc_saved (t_Gs (ti_t ti)) s) (mach s)\<rparr> in
      res_bind (call_templeos2 env (ti_t ti) ''TaskInit'' (t_Fs (ti_t ti)) 0 s) (\<lambda>(r, t, s).
      let ti = ti\<lparr>ti_t := t\<rparr>; Fs = t_Fs t;
          parent_task = ld64 (tmem s) (Fs + fld CTask ''parent_task'')
      in case task_tables (mach s) Fs of
           [] \<Rightarrow> Inl NullDeref
         | h # _ \<Rightarrow>
             let tabs = (task_tables (mach s))(Fs := h # task_tables (mach s) parent_task)
             in Inr (ti, s\<lparr>mach := (mach s)\<lparr>task_tables := tabs\<rparr>,
                  first_templeos_task := ti # first_templeos_task s\<rparr>)))"

definition templeos_task_start :: "env \<Rightarrow> thread_info \<Rightarrow> tstate \<Rightarrow> tstate res" where
  "templeos_task_start env ti s =
     res_bind (task_start_setup env ti s) (\<lambda>(ti, s).
     res_bind (enter_templeos (e_checks env) (e_prctl env) (ti_t ti) s) (\<lambda>s.
     res_bind (e_code env (ti_fp ti) [ti_data ti] s) (\<lambda>(r, s).
     res_bind (exit_templeos (e_checks env) (e_prctl env) s) (\<lambda>(t, s). Inr s))))"

section \<open>Spawn\<close>

text \<open>The outcomes of the pthread calls.\<close>

record pthread_results =
  attr_init_ok :: bool
  attr_stacksize_ok :: bool
  attr_detach_ok :: bool
  create_ok :: bool

definition TASK_NAME_LEN :: nat where "TASK_NAME_LEN = 32"
definition TTS_TASK_NAME :: u8 where "TTS_TASK_NAME = 2"

text \<open>\<open>strncpy(dst, src, n)\<close>: at most \<open>n\<close> bytes, the rest filled with NUL bytes.\<close>

definition strncpy_bytes :: "cstring \<Rightarrow> nat \<Rightarrow> u8 list" where
  "strncpy_bytes src n = take n (map (\<lambda>c. of_nat (of_char c)) src @ replicate n 0)"

definition spawn_fields ::
  "u64 \<Rightarrow> u64 \<Rightarrow> u64 \<Rightarrow> u64 \<Rightarrow> u64 \<Rightarrow> cstring \<Rightarrow> mwrite list" where
  "spawn_fields task parent parent_gs code_hp data_hp task_name =
     [W32 (task + fld CTask ''task_signature'') TASK_SIGNATURE,
      W64 (task + fld CTask ''parent_task'') parent,
      W64 (task + fld CTask ''gs'') parent_gs,
      W64 (task + fld CTask ''code_heap'') code_hp,
      W64 (task + fld CTask ''data_heap'') data_hp,
      WBytes (task + fld CTask ''task_name'') (strncpy_bytes task_name TASK_NAME_LEN),
      W8 (task + fld CTask ''task_name'' + (of_nat TASK_NAME_LEN - 1)) 0]"

definition spawn_prepare ::
  "heap_conf \<Rightarrow> u64 \<Rightarrow> cstring option \<Rightarrow> u64 \<Rightarrow> machine \<Rightarrow> (u64 \<times> machine) res" where
  "spawn_prepare c adam_task task_name parent s =
     res_bind (malloc_for_templeos c (sizeof CTask) (code_heap c) True s) (\<lambda>(task, s).
     let name = (case task_name of None \<Rightarrow> ''Unnamed Task'' | Some n \<Rightarrow> n);
         parent = (if parent = 0 then adam_task else parent)
     in if parent = 0 \<or> adam_task = 0 then Inl NullDeref
        else
          let s = writes (spawn_fields task parent
                    (ld64 (mmem s) (parent + fld CTask ''gs''))
                    (ld64 (mmem s) (adam_task + fld CTask ''code_heap''))
                    (ld64 (mmem s) (adam_task + fld CTask ''data_heap'')) name) s
          in case cstr_at (mmem s) (task + fld CTask ''task_name'') of
               None \<Rightarrow> Inl OutOfBounds
             | Some n \<Rightarrow> Inr (task, writes
                 [WStr (task + fld CTask ''task_title'') n, W8 (task + fld CTask ''title_src'') TTS_TASK_NAME] s))"

text \<open>
  The rest of the system call without the final wait: the result is the task (0 when a
  pthread call fails), with the description of the thread that was started.
\<close>

definition syscall_Spawn ::
  "heap_conf \<Rightarrow> pthread_results \<Rightarrow> u64 \<Rightarrow> u64 \<Rightarrow> u64 \<Rightarrow> cstring option \<Rightarrow> u64 \<Rightarrow> u64 \<Rightarrow> machine \<Rightarrow>
   (u64 \<times> thread_info option \<times> machine) res" where
  "syscall_Spawn c pt adam_task fp data task_name parent stk_size s =
     res_bind (spawn_prepare c adam_task task_name parent s) (\<lambda>(task, s).
     let failed = (\<lambda>s. res_bind (free_for_templeos c task s) (\<lambda>(_, s). Inr (0, None, s)))
     in if \<not> attr_init_ok pt then failed s
        else
          let stk_size = (if stk_size <=s 0 then 512 * 512 else stk_size)
          in if \<not> attr_stacksize_ok pt then failed s
             else if \<not> attr_detach_ok pt then failed s
             else
               res_bind (calloc c (sizeof CCPU) s) (\<lambda>(Gs, s).
               let s = writes [W64 (Gs + fld CCPU ''addr'') Gs] s;
                   ti = \<lparr>ti_t = \<lparr>t_Gs = Gs, t_Fs = task\<rparr>, ti_fp = fp, ti_data = data, ti_stk_size = stk_size\<rparr>
               in if \<not> create_ok pt then failed s else Inr (task, Some ti, s)))"

definition syscall_TaskStkNew :: "heap_conf \<Rightarrow> machine \<Rightarrow> (u64 \<times> machine) res" where
  "syscall_TaskStkNew c s =
     (let (stk, s) = os_alloc (heap_alloc c) (sizeof CTaskStk) s
      in if stk = 0 then Inl NullDeref
         else Inr (stk, writes [W64 (stk + fld CTaskStk ''stk_size'') 0, W64 (stk + fld CTaskStk ''stk_ptr'') 0,
           W64 (stk + fld CTaskStk ''next_stk'') 0] s))"

section \<open>Where the writes go\<close>

definition within :: "u64 \<Rightarrow> nat \<Rightarrow> nat \<Rightarrow> mwrite \<Rightarrow> bool" where
  "within b lo n w \<longleftrightarrow> (\<exists>off. fst (write_bytes w) = b + of_nat off \<and> lo \<le> off \<and>
     off + length (snd (write_bytes w)) \<le> n)"

lemma within_field:
  "lo \<le> offsetof t f \<Longrightarrow> offsetof t f + 8 \<le> n \<Longrightarrow> within b lo n (W64 (b + fld t f) v)"
  "lo \<le> offsetof t f \<Longrightarrow> offsetof t f + 4 \<le> n \<Longrightarrow> within b lo n (W32 (b + fld t f) v4)"
  "lo \<le> offsetof t f \<Longrightarrow> offsetof t f + 2 \<le> n \<Longrightarrow> within b lo n (W16 (b + fld t f) v2)"
  "lo \<le> offsetof t f \<Longrightarrow> offsetof t f + 1 \<le> n \<Longrightarrow> within b lo n (W8 (b + fld t f) v1)"
  "lo \<le> offsetof t f \<Longrightarrow> offsetof t f + Suc (length cs) \<le> n \<Longrightarrow> within b lo n (WStr (b + fld t f) cs)"
  "lo \<le> offsetof t f \<Longrightarrow> offsetof t f + length bs \<le> n \<Longrightarrow> within b lo n (WBytes (b + fld t f) bs)"
  by (auto simp: within_def fld_def intro!: exI [of _ "offsetof t f"])

lemma within_field2:
  "lo \<le> offsetof t f + offsetof t' f' \<Longrightarrow> offsetof t f + offsetof t' f' + 8 \<le> n \<Longrightarrow>
   within b lo n (W64 (b + (fld t f + fld t' f')) v)"
  by (auto simp: within_def fld_def intro!: exI [of _ "offsetof t f + offsetof t' f'"])

lemma within_weaken: "within b lo n w \<Longrightarrow> lo' \<le> lo \<Longrightarrow> within b lo' n w"
  by (auto simp: within_def)

lemma within_off_word:
  assumes "within b 8 n w" "n \<le> 2 ^ 32"
  shows "write_off w b 8"
proof -
  obtain off where o: "fst (write_bytes w) = b + of_nat off" "8 \<le> off"
    "off + length (snd (write_bytes w)) \<le> n" using assms(1) by (auto simp: within_def)
  have "disjoint_regions (b + of_nat 0) 8 (b + of_nat off) (length (snd (write_bytes w)))"
    using o(2,3) assms(2) by (intro disjoint_fields) auto
  with o assms(2) show ?thesis by (simp add: write_off_def)
qed

lemma within_off_block:
  assumes "within b lo n w" "n \<le> 2 ^ 32" "disjoint_regions a k b n" "8 \<le> k" "k \<le> 2 ^ 32"
  shows "write_off w a 8"
proof -
  obtain off where o: "fst (write_bytes w) = b + of_nat off"
    "off + length (snd (write_bytes w)) \<le> n" using assms(1) by (auto simp: within_def)
  have "disjoint_regions (a + of_nat 0) 8 (b + of_nat off) (length (snd (write_bytes w)))"
    using o assms by (intro disjoint_blocks [OF assms(3)]) auto
  with o assms(2) show ?thesis by (simp add: write_off_def)
qed

lemmas ctask_within = within_field within_field2

lemma adam_links_within:
  "adam_links c Gs Fs = W64 (Fs + fld CTask ''addr'') Fs # tl (adam_links c Gs Fs)"
  "\<forall>w \<in> set (tl (adam_links c Gs Fs)). within Fs 8 1328 w"
  by (simp_all add: adam_links_def)
     (intro conjI ctask_within; simp add: off_simps)

lemma adam_drive_within:
  "\<forall>w \<in> set (adam_drive Fs cur_dv). within Fs 8 1328 w \<or> within cur_dv 0 160 w"
proof -
  have "within Fs 8 1328 (W64 (Fs + fld CTask ''cur_dv'') cur_dv)"
    by (rule within_field; simp add: off_simps)
  moreover have "within cur_dv 0 160 (W32 (cur_dv + fld CDrv ''dv_signature'') 0x56535644)"
    "within cur_dv 0 160 (W16 (cur_dv + fld CDrv ''fs_type'') 1)"
    "within cur_dv 0 160 (W8 (cur_dv + fld CDrv ''drv_let'') DRIVE_LETTER)"
    by (rule within_field; simp add: off_simps)+
  ultimately show ?thesis by (simp add: adam_drive_def)
qed

lemma adam_blkdev_within:
  "\<forall>w \<in> set (adam_blkdev cur_dv bd). within cur_dv 0 160 w \<or> within bd 0 128 w"
proof -
  have "within cur_dv 0 160 (W64 (cur_dv + fld CDrv ''bd'') bd)"
    by (rule within_field; simp add: off_simps)
  moreover have "within bd 0 128 (W32 (bd + fld CBlkDev ''bd_signature'') 0x56534442)"
    "within bd 0 128 (W32 (bd + fld CBlkDev ''type'') 1)"
    by (rule within_field; simp add: off_simps)+
  ultimately show ?thesis by (simp add: adam_blkdev_def)
qed

lemma adam_queues_within: "\<forall>w \<in> set (adam_queues Fs). within Fs 8 1328 w"
  by (simp add: adam_queues_def srv_fld_def)
     (intro conjI ctask_within; simp add: off_simps)

lemma adam_stack_within:
  "\<forall>w \<in> set (adam_stack Fs stk base). within Fs 8 1328 w \<or> within stk 0 32 w"
proof -
  have "within Fs 8 1328 (W64 (Fs + fld CTask ''stk'') stk)"
    "within Fs 8 1328 (WStr (Fs + fld CTask ''task_name'') ''ADAM'')"
    by (rule within_field; simp add: off_simps)+
  moreover have "within stk 0 32 (W64 (stk + fld CTaskStk ''stk_base'') base)"
    "within stk 0 32 (W64 (stk + fld CTaskStk ''stk_size'') 4194304)"
    by (rule within_field; simp add: off_simps)+
  ultimately show ?thesis by (simp add: adam_stack_def)
qed

section \<open>Allocation steps keep words of other blocks\<close>

lemma malloc_effect:
  assumes "malloc_for_templeos c sz h z s = Inr (p, s1)"
  shows "p = heap_alloc c (allocs s) sz" "allocs s1 = Suc (allocs s)"
    "symbols s1 = symbols s" "exports s1 = exports s"
    "mmem s1 = (if z then st_bytes (mmem s) p (replicate (unat sz) 0) else mmem s)"
    "z \<Longrightarrow> sz \<noteq> 0 \<Longrightarrow> p \<noteq> 0"
  using assms
  by (auto simp: malloc_for_templeos_def os_alloc_def memset0_def mregister_def Let_def
      res_bind_Inr_iff split: if_splits)

lemma calloc_effect:
  assumes "calloc c sz s = Inr (p, s1)"
  shows "p = heap_alloc c (allocs s) sz" "allocs s1 = Suc (allocs s)"
    "symbols s1 = symbols s" "exports s1 = exports s"
    "mmem s1 = st_bytes (mmem s) p (replicate (unat sz) 0)" "sz \<noteq> 0 \<Longrightarrow> p \<noteq> 0"
  using assms
  by (auto simp: calloc_def os_alloc_def memset0_def Let_def res_bind_Inr_iff split: if_splits)

text \<open>The words a thread depends on: both self pointers.\<close>

definition self_words :: "u64 \<Rightarrow> u64 \<Rightarrow> mem \<Rightarrow> bool" where
  "self_words Gs Fs m \<longleftrightarrow> ld64 m Gs = Gs \<and> ld64 m Fs = Fs"

definition off_words :: "u64 \<Rightarrow> u64 \<Rightarrow> mwrite \<Rightarrow> bool" where
  "off_words Gs Fs w \<longleftrightarrow> write_off w Gs 8 \<and> write_off w Fs 8"

lemma self_words_writes:
  "self_words Gs Fs (mmem s) \<Longrightarrow> \<forall>w \<in> set ws. off_words Gs Fs w \<Longrightarrow>
   self_words Gs Fs (mmem (writes ws s))"
  by (simp add: self_words_def off_words_def writes_ld64)

lemma ld64_st_bytes_off:
  assumes "disjoint_regions a 8 p (length bs)" "length bs \<le> 2 ^ 64"
  shows "ld64 (st_bytes m p bs) a = ld64 m a"
proof -
  have "bytes_at (st_bytes m p bs) a (le_bytes 8 (unat (ld64 m a)))"
    using assms by (intro bytes_at_st_bytes_other) (simp_all flip: ld64_eq_iff)
  then show ?thesis by (rule ld64_bytes_at)
qed

text \<open>
  A block obtained later than the \<open>CCPU\<close> and the \<open>CTask\<close>: it overlaps neither, so
  allocating it and writing inside it keeps the two words.
\<close>

definition later_block :: "u64 \<Rightarrow> u64 \<Rightarrow> u64 \<Rightarrow> nat \<Rightarrow> bool" where
  "later_block Gs Fs p n \<longleftrightarrow> n \<le> 2 ^ 32 \<and> disjoint_regions Gs 272 p n \<and> disjoint_regions Fs 1328 p n"

lemma later_block_words:
  assumes "later_block Gs Fs p n"
  shows "disjoint_regions Gs 8 p n" "disjoint_regions Fs 8 p n"
  using assms disjoint_blocks [of Gs 272 p n 0 8 0 n] disjoint_blocks [of Fs 1328 p n 0 8 0 n]
  by (simp_all add: later_block_def)

lemma malloc_self_words:
  assumes "malloc_for_templeos c sz h z s = Inr (p, s1)" "later_block Gs Fs p (unat sz)"
    and "self_words Gs Fs (mmem s)"
  shows "self_words Gs Fs (mmem s1)"
proof -
  have "unat sz \<le> 2 ^ 64" using unat_bound64 [of sz] by simp
  then show ?thesis
    using assms(3) later_block_words [OF assms(2)]
    by (simp add: self_words_def malloc_effect(5) [OF assms(1)] ld64_st_bytes_off)
qed

lemma later_block_within:
  assumes "later_block Gs Fs p n" "within p lo n w"
  shows "off_words Gs Fs w"
  unfolding off_words_def
  using assms within_off_block [of p lo n w Gs 272] within_off_block [of p lo n w Fs 1328]
  by (simp add: later_block_def)

lemma ctask_within_off:
  assumes "disjoint_regions Gs 272 Fs 1328" "within Fs 8 1328 w"
  shows "off_words Gs Fs w"
  unfolding off_words_def
  using assms within_off_word [of Fs 1328 w] within_off_block [of Fs 8 1328 w Gs 272] by simp

text \<open>What the environment promises: the blocks it hands out do not overlap each other, and
  none of them overlaps the \<open>blkdev\<close> variable of the kernel image.\<close>

definition heap_ok :: "heap_conf \<Rightarrow> nat \<Rightarrow> nat \<Rightarrow> u64 \<Rightarrow> bool" where
  "heap_ok c N L bk \<longleftrightarrow> blocks_apart (heap_alloc c) N L \<and> 1328 \<le> L \<and> L < 2 ^ 32 \<and>
     (\<forall>i < N. \<forall>a. unat a \<le> L \<longrightarrow> disjoint_regions (heap_alloc c i a) (unat a) bk 384)"

lemma heap_ok_later:
  assumes "heap_ok c N L bk" "Gs = heap_alloc c n0 272" "Fs = heap_alloc c (n0 + 1) 1328"
    and "n0 + 1 < k" "k < N" "unat sz \<le> L"
  shows "later_block Gs Fs (heap_alloc c k sz) (unat sz)"
proof -
  have b: "blocks_apart (heap_alloc c) N L" "1328 \<le> L" "L < 2 ^ 32" using assms(1) by (auto simp: heap_ok_def)
  have "disjoint_regions Gs (unat (272 :: u64)) (heap_alloc c k sz) (unat sz)"
    "disjoint_regions Fs (unat (1328 :: u64)) (heap_alloc c k sz) (unat sz)"
    unfolding assms(2,3) using assms(4-6) b by (intro blocks_apartD [OF b(1)]; simp)+
  then show ?thesis using assms(6) b(3) by (simp add: later_block_def)
qed

lemma heap_ok_blkdev:
  assumes "heap_ok c N L bk" "Gs = heap_alloc c n0 272" "Fs = heap_alloc c (n0 + 1) 1328" "n0 + 1 < N"
  shows "later_block Gs Fs bk 384"
proof -
  have b: "1328 \<le> L" "\<forall>i < N. \<forall>a. unat a \<le> L \<longrightarrow> disjoint_regions (heap_alloc c i a) (unat a) bk 384"
    using assms(1) by (auto simp: heap_ok_def)
  have "disjoint_regions Gs (unat (272 :: u64)) bk 384" "disjoint_regions Fs (unat (1328 :: u64)) bk 384"
    unfolding assms(2,3) using assms(4) b(1) by (intro b(2) [rule_format]; simp)+
  then show ?thesis by (simp add: later_block_def)
qed

lemma fileconcat_effect:
  assumes "fileconcat_templeos c p1 p2 s = Inr (p, s1)"
  obtains s0 where "malloc_for_templeos c (of_nat (length p1 + length p2 + 2)) (data_heap c) False s = Inr (p, s0)"
    "s1 = writes [WStr p (fileconcat p1 p2)] s0"
  using assms by (auto simp: fileconcat_templeos_def res_bind_Inr_iff split: if_splits prod.splits)

text \<open>Strings copied into a fresh block stay inside it.\<close>

lemma wstr_within: "Suc (length cs) \<le> n \<Longrightarrow> within p 0 n (WStr p cs)"
  by (auto simp: within_def intro!: exI [of _ 0])

lemma fileconcat_self_words:
  assumes f: "fileconcat_templeos c p1 p2 s = Inr (p, s1)"
    and h: "heap_ok c N L bk" "Gs = heap_alloc c n0 272" "Fs = heap_alloc c (n0 + 1) 1328"
    and a: "n0 + 1 < allocs s" "allocs s < N" "length p1 + length p2 + 2 \<le> L"
    and w: "self_words Gs Fs (mmem s)"
  shows "self_words Gs Fs (mmem s1) \<and> allocs s1 = Suc (allocs s) \<and> symbols s1 = symbols s \<and> exports s1 = exports s"
proof -
  obtain s0 where m: "malloc_for_templeos c (of_nat (length p1 + length p2 + 2)) (data_heap c) False s = Inr (p, s0)"
    "s1 = writes [WStr p (fileconcat p1 p2)] s0"
    using fileconcat_effect [OF f] by blast
  have L: "L < 2 ^ 32" using h(1) by (simp add: heap_ok_def)
  have u: "unat (of_nat (length p1 + length p2 + 2) :: u64) = length p1 + length p2 + 2"
    using a(3) L by (subst unat_of_nat) simp
  have lb: "later_block Gs Fs p (length p1 + length p2 + 2)"
    using heap_ok_later [OF h a(1,2), of "of_nat (length p1 + length p2 + 2)"] a(3) u
    by (simp add: malloc_effect(1) [OF m(1)])
  have "self_words Gs Fs (mmem s0)"
    using malloc_self_words [OF m(1) _ w] lb u by simp
  moreover have "off_words Gs Fs (WStr p (fileconcat p1 p2))"
    using lb by (rule later_block_within) (auto intro!: wstr_within simp: fileconcat_eq)
  ultimately show ?thesis
    using malloc_effect [OF m(1)] by (simp add: m(2) self_words_writes)
qed

lemma zmalloc_self_words:
  assumes m: "malloc_for_templeos c sz hp z s = Inr (p, s1)"
    and h: "heap_ok c N L bk" "Gs = heap_alloc c n0 272" "Fs = heap_alloc c (n0 + 1) 1328"
    and a: "n0 + 1 < allocs s" "allocs s < N" "unat sz \<le> L"
    and w: "self_words Gs Fs (mmem s)"
  shows "self_words Gs Fs (mmem s1) \<and> allocs s1 = Suc (allocs s) \<and> symbols s1 = symbols s \<and>
    exports s1 = exports s \<and> later_block Gs Fs p (unat sz)"
proof -
  have lb: "later_block Gs Fs p (unat sz)"
    using heap_ok_later [OF h a] by (simp add: malloc_effect(1) [OF m])
  with malloc_self_words [OF m lb w] malloc_effect [OF m] show ?thesis by simp
qed

lemma init_blkdev_self_words:
  assumes i: "init_blkdev c bk cur_dv home s = Inr s1"
    and h: "heap_ok c N L bk" "Gs = heap_alloc c n0 272" "Fs = heap_alloc c (n0 + 1) 1328"
    and a: "n0 + 1 < allocs s" "allocs s + 1 < N" "length (the home) + 5 \<le> L"
    and w: "self_words Gs Fs (mmem s)"
  shows "self_words Gs Fs (mmem s1) \<and> allocs s1 = allocs s + 2 \<and> symbols s1 = symbols s \<and> exports s1 = exports s"
proof -
  let ?b = "writes [W8 (bk + fld CBlkDevGlbls ''boot_drv_let'') DRIVE_LETTER,
      W8 (bk + fld CBlkDevGlbls ''first_hd_drv_let'') DRIVE_LETTER]"
  have bk: "later_block Gs Fs bk 384" using heap_ok_blkdev [OF h] a(1,2) by simp
  have wb: "off_words Gs Fs (W8 (bk + fld CBlkDevGlbls ''boot_drv_let'') v)"
    "off_words Gs Fs (W8 (bk + fld CBlkDevGlbls ''first_hd_drv_let'') v)"
    "off_words Gs Fs (W64 (bk + fld CBlkDevGlbls ''home_dir'') v8)"
    "off_words Gs Fs (W64 (bk + fld CBlkDevGlbls ''tmp_filename'') v8)" for v v8
    by (rule later_block_within [OF bk, of 0], rule within_field; simp add: off_simps)+
  have "within bk 0 384 (W64 (bk + fld CBlkDevGlbls ''let_to_drv'' + 8 * 2) v)" for v
    by (auto simp: within_def fld_def off_simps intro!: exI [of _ "offsetof CBlkDevGlbls ''let_to_drv'' + 16"])
  note wl = later_block_within [OF bk this]
  obtain ch home1 where hm: "home = Some (ch # home1)"
    using i by (auto simp: init_blkdev_def Let_def split: option.splits list.splits)
  obtain homep s2 tmp s3 where
    f: "fileconcat_templeos c DRIVE_ROOT_PATH home1 (?b s) = Inr (homep, s2)"
    and m: "malloc_for_templeos c (of_nat (length TMP_FILE_NAME + 1)) (data_heap c) False
       (writes [W64 (bk + fld CBlkDevGlbls ''home_dir'') homep,
                W64 (bk + fld CBlkDevGlbls ''let_to_drv'' + 8 * 2) cur_dv] s2) = Inr (tmp, s3)"
    and s1: "s1 = writes [WStr tmp TMP_FILE_NAME] (writes [W64 (bk + fld CBlkDevGlbls ''tmp_filename'') tmp] s3)"
    using i by (auto simp: init_blkdev_def hm Let_def res_bind_Inr_iff split: if_splits prod.splits)
  have len: "length DRIVE_ROOT_PATH = 2" "length TMP_FILE_NAME = 10"
    by (simp_all add: DRIVE_ROOT_PATH_def TMP_FILE_NAME_def)
  have 1: "self_words Gs Fs (mmem (?b s))" using w wb by (intro self_words_writes) simp_all
  have 2: "self_words Gs Fs (mmem s2) \<and> allocs s2 = Suc (allocs s) \<and> symbols s2 = symbols s \<and> exports s2 = exports s"
    using fileconcat_self_words [OF f h _ _ _ 1] a len by (simp add: hm)
  let ?s2 = "writes [W64 (bk + fld CBlkDevGlbls ''home_dir'') homep,
                W64 (bk + fld CBlkDevGlbls ''let_to_drv'' + 8 * 2) cur_dv] s2"
  have 3: "self_words Gs Fs (mmem ?s2)" using 2 wb wl by (intro self_words_writes) simp_all
  have L: "11 \<le> L" using h(1) by (simp add: heap_ok_def)
  have 4: "self_words Gs Fs (mmem s3) \<and> allocs s3 = Suc (allocs ?s2) \<and> symbols s3 = symbols ?s2 \<and>
      exports s3 = exports ?s2 \<and> later_block Gs Fs tmp (unat (of_nat (length TMP_FILE_NAME + 1) :: u64))"
    using zmalloc_self_words [OF m h _ _ _ 3] 2 a L by (simp add: len)
  have "off_words Gs Fs (WStr tmp TMP_FILE_NAME)"
    using conjunct2 [OF conjunct2 [OF conjunct2 [OF conjunct2 [OF 4]]]]
    by (rule later_block_within [of _ _ _ _ 0]) (simp add: wstr_within len)
  with 4 2 show ?thesis unfolding s1 using wb
    by (simp add: self_words_writes)
qed

section \<open>The first task is ready to run\<close>

text \<open>In the configuration of the build, allocations from a heap that never returns NULL succeed.\<close>

definition after_malloc :: "heap_conf \<Rightarrow> u64 \<Rightarrow> bool \<Rightarrow> machine \<Rightarrow> machine" where
  "after_malloc c sz z s = s\<lparr>allocs := Suc (allocs s), mmem :=
     (if z then st_bytes (mmem s) (heap_alloc c (allocs s) sz) (replicate (unat sz) 0) else mmem s)\<rparr>"

lemma after_malloc_frame [simp]:
  "symbols (after_malloc c sz z s) = symbols s" "exports (after_malloc c sz z s) = exports s"
  "allocs (after_malloc c sz z s) = Suc (allocs s)"
  "hobjs (after_malloc c sz z s) = hobjs s" "task_tables (after_malloc c sz z s) = task_tables s"
  by (simp_all add: after_malloc_def)

definition heap_serves :: "heap_conf \<Rightarrow> bool" where
  "heap_serves c \<longleftrightarrow> \<not> USE_GLIBC_MALLOC c \<and> (\<forall>i a. heap_alloc c i a \<noteq> 0)"

lemma malloc_serves:
  "heap_serves c \<Longrightarrow> malloc_for_templeos c sz h z s =
     Inr (heap_alloc c (allocs s) sz, after_malloc c sz z s)"
  by (simp add: heap_serves_def malloc_for_templeos_def os_alloc_def memset0_def after_malloc_def Let_def)

lemma calloc_serves:
  "heap_serves c \<Longrightarrow> calloc c sz s = Inr (heap_alloc c (allocs s) sz, after_malloc c sz True s)"
  by (simp add: heap_serves_def calloc_def os_alloc_def memset0_def after_malloc_def Let_def)

lemma fileconcat_serves:
  "heap_serves c \<Longrightarrow> \<exists>p s1. fileconcat_templeos c p1 p2 s = Inr (p, s1) \<and>
     symbols s1 = symbols s \<and> exports s1 = exports s"
  by (simp add: fileconcat_templeos_def malloc_serves) (simp add: heap_serves_def)

lemma init_blkdev_serves:
  assumes "heap_serves c"
  shows "\<exists>s1. init_blkdev c bk cur_dv (Some (ch # home1)) s = Inr s1"
proof -
  let ?b = "writes [W8 (bk + fld CBlkDevGlbls ''boot_drv_let'') DRIVE_LETTER,
      W8 (bk + fld CBlkDevGlbls ''first_hd_drv_let'') DRIVE_LETTER]"
  obtain p s1 where "fileconcat_templeos c DRIVE_ROOT_PATH home1 (?b s) = Inr (p, s1)"
    using fileconcat_serves [OF assms] by blast
  moreover have "heap_alloc c i a \<noteq> 0" for i a using assms by (simp add: heap_serves_def)
  ultimately show ?thesis by (simp add: init_blkdev_def Let_def malloc_serves [OF assms])
qed

lemma init_templeos_serves:
  assumes h: "heap_serves c" and bk: "sym_get (mach s0) ''blkdev'' = Inr (Some ex)"
  shows "\<exists>t s1. init_templeos c base w (Some (ch # home1)) s0 = Inr (t, s1)"
proof -
  let ?n = "allocs (mach s0)"
  let ?Gs = "heap_alloc c ?n 272" let ?Fs = "heap_alloc c (Suc ?n) 1328"
  let ?dv = "heap_alloc c (Suc (Suc ?n)) 160" let ?bd = "heap_alloc c (Suc (Suc (Suc ?n))) 128"
  define s where "s = writes (adam_blkdev ?dv ?bd) (after_malloc c 128 True
    (writes (adam_drive ?Fs ?dv) (after_malloc c 160 True (writes (adam_links c ?Gs ?Fs)
      (after_malloc c 1328 True (writes [W64 (?Gs + fld CCPU ''addr'') ?Gs]
        (after_malloc c 272 True (mach s0))))))))"
  have sz: "csize CCPU = 272" "csize CTask = 1328" "csize CDrv = 160" "csize CBlkDev = 128"
    "csize CTaskStk = 32" by (simp_all add: off_simps layout_simps)
  obtain p s1 where f: "fileconcat_templeos c DRIVE_ROOT_PATH w s = Inr (p, s1)"
    "symbols s1 = symbols s" "exports s1 = exports s"
    using fileconcat_serves [OF h] by blast
  let ?s1 = "writes [W64 (?Fs + fld CTask ''cur_dir'') p] s1"
  have "sym_get ?s1 = sym_get (mach s0)" using f by (intro sym_get_cong) (simp_all add: s_def)
  then have g: "sym_get ?s1 ''blkdev'' = Inr (Some ex)" using bk by simp
  obtain s2 where b: "init_blkdev c (ex_value ex) ?dv (Some (ch # home1)) ?s1 = Inr s2"
    using init_blkdev_serves [OF h] by blast
  show ?thesis
    using f(1) g b
    by (simp add: init_templeos_def Let_def malloc_serves [OF h] calloc_serves [OF h] sz s_def)
qed

lemma glibc_saved_words:
  assumes "self_words Gs Fs (mmem s)" "disjoint_regions Gs 272 Fs 1328"
  shows "self_words Gs Fs (mmem (writes (glibc_saved Gs s0) s))"
    "ld64 (mmem (writes (glibc_saved Gs s0) s)) (Gs + fld CCPU ''glibc_gs'') = gs_base s0"
    "ld64 (mmem (writes (glibc_saved Gs s0) s)) (Gs + fld CCPU ''glibc_fs'') = fs_base s0"
proof -
  have w: "within Gs 8 272 (W64 (Gs + fld CCPU ''glibc_gs'') v)"
    "within Gs 8 272 (W64 (Gs + fld CCPU ''glibc_fs'') v)" for v
    by (rule within_field; simp add: off_simps)+
  have "off_words Gs Fs x" if "within Gs 8 272 x" for x
    unfolding off_words_def
    using that assms(2) within_off_word [of Gs 272 x] within_off_block [of Gs 8 272 x Fs 1328]
    by (simp add: disjoint_regions_sym)
  then show "self_words Gs Fs (mmem (writes (glibc_saved Gs s0) s))"
    using w by (intro self_words_writes [OF assms(1)]) (simp add: glibc_saved_def)
  have "bytes_at (mmem (writes (glibc_saved Gs s0) s)) (Gs + fld CCPU ''glibc_fs'') (le_bytes 8 (unat (fs_base s0)))"
    using writes_last [of "glibc_saved Gs s0" "[W64 (Gs + fld CCPU ''glibc_gs'') (gs_base s0)]"
        "W64 (Gs + fld CCPU ''glibc_fs'') (fs_base s0)" "[]" s] by (simp add: glibc_saved_def)
  then show "ld64 (mmem (writes (glibc_saved Gs s0) s)) (Gs + fld CCPU ''glibc_fs'') = fs_base s0"
    by (rule ld64_bytes_at)
  have "disjoint_regions (Gs + of_nat 264) 8 (Gs + of_nat 256) 8" by (rule disjoint_fields) simp_all
  then have "bytes_at (mmem (writes (glibc_saved Gs s0) s)) (Gs + fld CCPU ''glibc_gs'') (le_bytes 8 (unat (gs_base s0)))"
    using writes_last [of "glibc_saved Gs s0" "[]" "W64 (Gs + fld CCPU ''glibc_gs'') (gs_base s0)"
        "[W64 (Gs + fld CCPU ''glibc_fs'') (fs_base s0)]" s]
    by (simp add: glibc_saved_def write_off_def fld_glibc)
  then show "ld64 (mmem (writes (glibc_saved Gs s0) s)) (Gs + fld CCPU ''glibc_gs'') = gs_base s0"
    by (rule ld64_bytes_at)
qed

lemma init_templeos_steps:
  assumes i: "init_templeos c base w home s0 = Inr (t, s1)"
    and bk: "sym_get (mach s0) ''blkdev'' = Inr (Some ex)"
    and h: "heap_ok c N L (ex_value ex)" "allocs (mach s0) + 8 \<le> N" "length w + 4 \<le> L"
      "length (the home) + 5 \<le> L"
  shows "\<exists>s. self_words (t_Gs t) (t_Fs t) (mmem s) \<and> t_Gs t \<noteq> 0 \<and> t_Fs t \<noteq> 0 \<and>
    t_Gs t = heap_alloc c (allocs (mach s0)) 272 \<and> t_Fs t = heap_alloc c (allocs (mach s0) + 1) 1328 \<and>
    s1 = s0\<lparr>mach := writes (glibc_saved (t_Gs t) s0) s, first_templeos_task :=
      \<lparr>ti_t = t, ti_fp = 0, ti_data = 0, ti_stk_size = 0\<rparr> # first_templeos_task s0\<rparr>"
proof -
  have sz: "csize CCPU = 272" "csize CTask = 1328" "csize CDrv = 160" "csize CBlkDev = 128"
    "csize CTaskStk = 32" by (simp_all add: off_simps layout_simps)
  obtain Gs a1 Fs a2 dv a3 bd a4 cd a5 ex' a6 stk a7 where
    1: "calloc c 272 (mach s0) = Inr (Gs, a1)"
    and 2: "malloc_for_templeos c 1328 (code_heap c) True (writes [W64 (Gs + fld CCPU ''addr'') Gs] a1) = Inr (Fs, a2)"
    and 3: "malloc_for_templeos c 160 (data_heap c) True (writes (adam_links c Gs Fs) a2) = Inr (dv, a3)"
    and 4: "malloc_for_templeos c 128 (data_heap c) True (writes (adam_drive Fs dv) a3) = Inr (bd, a4)"
    and 5: "fileconcat_templeos c DRIVE_ROOT_PATH w (writes (adam_blkdev dv bd) a4) = Inr (cd, a5)"
    and 6: "sym_get (writes [W64 (Fs + fld CTask ''cur_dir'') cd] a5) ''blkdev'' = Inr (Some ex')"
    and 7: "init_blkdev c (ex_value ex') dv home (writes [W64 (Fs + fld CTask ''cur_dir'') cd] a5) = Inr a6"
    and 8: "malloc_for_templeos c 32 (data_heap c) True (writes (adam_queues Fs) a6) = Inr (stk, a7)"
    and t: "t = \<lparr>t_Gs = Gs, t_Fs = Fs\<rparr>"
    and s1: "s1 = s0\<lparr>mach := writes (glibc_saved Gs s0) (writes (adam_stack Fs stk base) a7), first_templeos_task :=
      \<lparr>ti_t = t, ti_fp = 0, ti_data = 0, ti_stk_size = 0\<rparr> # first_templeos_task s0\<rparr>"
    using i unfolding init_templeos_def Let_def
    by (auto simp: res_bind_Inr_iff sz split: prod.splits option.splits)
  let ?n = "allocs (mach s0)"
  note e1 = calloc_effect [OF 1] and e2 = malloc_effect [OF 2]
  have G: "Gs = heap_alloc c ?n 272" using e1 by simp
  have F: "Fs = heap_alloc c (?n + 1) 1328" using e1 e2 by simp
  have L: "1328 \<le> L" "L < 2 ^ 32" "blocks_apart (heap_alloc c) N L" using h(1) by (simp_all add: heap_ok_def)
  have "disjoint_regions Gs (unat (272 :: u64)) Fs (unat (1328 :: u64))"
    unfolding G F using h(2) L by (intro blocks_apartD [OF L(3)]; simp)
  then have GF: "disjoint_regions Gs 272 Fs 1328" by simp
  note K = h(1) G F
  have nn: "Gs \<noteq> 0" "Fs \<noteq> 0" using e1(6) e2(6) by simp_all
  have r0: "ld64 (mmem a2) Gs = Gs"
  proof -
    have "bytes_at (mmem (writes [W64 (Gs + fld CCPU ''addr'') Gs] a1)) Gs (le_bytes 8 (unat Gs))"
      using writes_last [of "[W64 (Gs + fld CCPU ''addr'') Gs]" "[]" _ "[]" a1] by (simp add: fld_addr)
    then have "ld64 (mmem (writes [W64 (Gs + fld CCPU ''addr'') Gs] a1)) Gs = Gs" by (rule ld64_bytes_at)
    moreover have "disjoint_regions Gs 8 Fs 1328"
      using disjoint_blocks [OF GF, of 0 8 0 1328] by simp
    ultimately show ?thesis by (simp add: e2(5) ld64_st_bytes_off)
  qed
  have w3: "self_words Gs Fs (mmem (writes (adam_links c Gs Fs) a2))"
  proof -
    let ?a = "writes [W64 (Fs + fld CTask ''addr'') Fs] a2"
    have "bytes_at (mmem ?a) Fs (le_bytes 8 (unat Fs))"
      using writes_last [of "[W64 (Fs + fld CTask ''addr'') Fs]" "[]" _ "[]" a2] by (simp add: fld_addr)
    then have "ld64 (mmem ?a) Fs = Fs" by (rule ld64_bytes_at)
    moreover have "ld64 (mmem ?a) Gs = Gs"
      using r0 disjoint_blocks [OF GF, of 0 8 0 8] by (subst writes_ld64) (simp_all add: write_off_def fld_addr)
    ultimately have "self_words Gs Fs (mmem ?a)" by (simp add: self_words_def)
    moreover have "writes (adam_links c Gs Fs) a2 = writes (tl (adam_links c Gs Fs)) ?a"
      by (subst adam_links_within(1)) (simp add: writes_def)
    ultimately show ?thesis
      using adam_links_within(2) ctask_within_off [OF GF] by (simp add: self_words_writes)
  qed
  have p3: "self_words Gs Fs (mmem a3) \<and> allocs a3 = ?n + 3 \<and> symbols a3 = symbols (mach s0) \<and>
      exports a3 = exports (mach s0) \<and> later_block Gs Fs dv 160"
    using zmalloc_self_words [OF 3 K _ _ _ w3] e1 e2 h(2) L by simp
  have w4: "self_words Gs Fs (mmem (writes (adam_drive Fs dv) a3))"
    using p3 adam_drive_within ctask_within_off [OF GF] later_block_within [of Gs Fs dv 160]
    by (intro self_words_writes) blast+
  have p4: "self_words Gs Fs (mmem a4) \<and> allocs a4 = ?n + 4 \<and> symbols a4 = symbols (mach s0) \<and>
      exports a4 = exports (mach s0) \<and> later_block Gs Fs bd 128"
    using zmalloc_self_words [OF 4 K _ _ _ w4] p3 h(2) L by simp
  have w5: "self_words Gs Fs (mmem (writes (adam_blkdev dv bd) a4))"
    using p3 p4 adam_blkdev_within later_block_within [of Gs Fs dv 160] later_block_within [of Gs Fs bd 128]
    by (intro self_words_writes) blast+
  have "length DRIVE_ROOT_PATH = 2" by (simp add: DRIVE_ROOT_PATH_def)
  then have p5: "self_words Gs Fs (mmem a5) \<and> allocs a5 = ?n + 5 \<and> symbols a5 = symbols (mach s0) \<and>
      exports a5 = exports (mach s0)"
    using fileconcat_self_words [OF 5 K _ _ _ w5] p4 h(2,3) by simp
  have w6: "self_words Gs Fs (mmem (writes [W64 (Fs + fld CTask ''cur_dir'') cd] a5))"
    using p5 ctask_within_off [OF GF] within_field(1) [of 8 CTask "''cur_dir''" 1328]
    by (intro self_words_writes) (simp_all add: off_simps)
  have "ex' = ex" using 6 bk p5 sym_get_cong [of "writes [W64 (Fs + fld CTask ''cur_dir'') cd] a5" "mach s0"] by simp
  with 7 have 7: "init_blkdev c (ex_value ex) dv home (writes [W64 (Fs + fld CTask ''cur_dir'') cd] a5) = Inr a6" by simp
  have p6: "self_words Gs Fs (mmem a6) \<and> allocs a6 = ?n + 7"
    using init_blkdev_self_words [OF 7 K _ _ h(4) w6] p5 h(2) by simp
  have w7: "self_words Gs Fs (mmem (writes (adam_queues Fs) a6))"
    using p6 adam_queues_within ctask_within_off [OF GF] by (intro self_words_writes) blast+
  have p8: "self_words Gs Fs (mmem a7) \<and> later_block Gs Fs stk 32"
    using zmalloc_self_words [OF 8 K _ _ _ w7] p6 h(2) L by simp
  have "self_words Gs Fs (mmem (writes (adam_stack Fs stk base) a7))"
    using p8 adam_stack_within ctask_within_off [OF GF] later_block_within [of Gs Fs stk 32]
    by (intro self_words_writes) blast+
  with s1 nn show ?thesis by (auto simp: t G F)
qed

text \<open>C7: with a heap that serves its requests from separate blocks, \<open>init_templeos\<close> succeeds when
  the kernel exports \<open>blkdev\<close> and \<open>HOME\<close> is not empty, and the thread it describes can be
  switched to: the first words of its \<open>CCPU\<close> and \<open>CTask\<close> point to themselves, the bases of
  glibc are saved, and the thread is the head of the task list.\<close>
theorem init_templeos_ready:
  assumes "heap_serves c" "heap_ok c N L (ex_value ex)" "allocs (mach s0) + 8 \<le> N"
    and "sym_get (mach s0) ''blkdev'' = Inr (Some ex)"
    and "length w + 4 \<le> L" "length home1 + 6 \<le> L" "\<And>a. prctl_ok a"
  shows "\<exists>t s1. init_templeos c base w (Some (ch # home1)) s0 = Inr (t, s1) \<and>
    in_host prctl_ok t s1 \<and> fs_base s1 = fs_base s0 \<and> gs_base s1 = gs_base s0 \<and>
    map ti_t (first_templeos_task s1) = t # map ti_t (first_templeos_task s0)"
proof -
  obtain t s1 where i: "init_templeos c base w (Some (ch # home1)) s0 = Inr (t, s1)"
    using init_templeos_serves [OF assms(1,4)] by blast
  obtain s where s: "self_words (t_Gs t) (t_Fs t) (mmem s)" "t_Gs t \<noteq> 0" "t_Fs t \<noteq> 0"
    "t_Gs t = heap_alloc c (allocs (mach s0)) 272" "t_Fs t = heap_alloc c (allocs (mach s0) + 1) 1328"
    "s1 = s0\<lparr>mach := writes (glibc_saved (t_Gs t) s0) s, first_templeos_task :=
      \<lparr>ti_t = t, ti_fp = 0, ti_data = 0, ti_stk_size = 0\<rparr> # first_templeos_task s0\<rparr>"
    using init_templeos_steps [OF i assms(4,2,3)] assms(5,6) by auto
  have b: "blocks_apart (heap_alloc c) N L" "1328 \<le> L" using assms(2) by (simp_all add: heap_ok_def)
  have "disjoint_regions (t_Gs t) (unat (272 :: u64)) (t_Fs t) (unat (1328 :: u64))"
    unfolding s(4,5) using assms(3) b by (intro blocks_apartD [OF b(1)]; simp)
  then have d: "disjoint_regions (t_Gs t) 272 (t_Fs t) 1328" by simp
  note g = glibc_saved_words [OF s(1) d, of s0]
  have "in_host prctl_ok t s1"
    using g s(2,3) assms(7) by (simp add: in_host_def thread_ok_def s(6) self_words_def fld_addr)
  with i show ?thesis by (simp add: s(6))
qed

text \<open>An example: a kernel with one exported variable, \<open>blkdev\<close> at \<open>0x1000\<close>, and a heap of a
  thousand blocks.\<close>

definition boot_conf :: heap_conf where
  "boot_conf = stbm_conf\<lparr>heap_alloc := (\<lambda>n. bump_alloc (n mod 1000))\<rparr>"

definition blkdev_export :: export_t where
  "blkdev_export = \<lparr>ex_type = 1, ex_value = 0x1000, ex_module_base = 0\<rparr>"

definition boot_state :: tstate where
  "boot_state = \<lparr>mach = empty_machine\<lparr>symbols := \<lparr>hh = [[(''blkdev'', 0)]], hsz = 1\<rparr>,
     exports := [blkdev_export]\<rparr>, fs_base = 0x7f00, gs_base = 0, first_templeos_task = []\<rparr>"

lemma bump_alloc_unat: "n < 1000 \<Longrightarrow> unat (bump_alloc n sz) = 0x10000 * (n + 1)"
  unfolding bump_alloc_def by (subst unat_of_nat) simp

lemma boot_serves: "heap_serves boot_conf"
proof -
  have "bump_alloc (i mod 1000) a \<noteq> 0" for i a
    using bump_alloc_unat [of "i mod 1000" a] by auto
  then show ?thesis by (simp add: heap_serves_def boot_conf_def stbm_conf_def)
qed

lemma boot_heap_ok: "heap_ok boot_conf 1000 4096 0x1000"
proof -
  have "disjoint_regions (0x1000) 384 (bump_alloc i a) (unat a)" if "i < 1000" "unat a \<le> 4096" for i a
    using that by (intro disjoint_regionsI) (simp_all add: bump_alloc_unat)
  moreover have "blocks_apart (\<lambda>n. bump_alloc (n mod 1000)) 1000 4096"
    using bump_alloc_apart by (simp add: blocks_apart_def)
  ultimately show ?thesis
    by (simp add: heap_ok_def boot_conf_def disjoint_regions_sym)
qed

lemma boot_blkdev: "sym_get (mach boot_state) ''blkdev'' = Inr (Some blkdev_export)"
  by (simp add: boot_state_def sym_get_def hash_get_def hash_slot_def signed_modulo_int_def
      signed_divide_int_def sgn_if)

theorem init_templeos_ready_witness:
  "\<exists>t s1. init_templeos boot_conf 0x7ffe00 ''/home/terry'' (Some ''/home/terry'') boot_state = Inr (t, s1) \<and>
     in_host (\<lambda>_. True) t s1 \<and> map ti_t (first_templeos_task s1) = [t]"
proof -
  have "heap_ok boot_conf 1000 4096 (ex_value blkdev_export)"
    using boot_heap_ok by (simp add: blkdev_export_def)
  moreover have "allocs (mach boot_state) + 8 \<le> 1000"
    by (simp add: boot_state_def empty_machine_def)
  ultimately show ?thesis
    using init_templeos_ready [OF boot_serves _ _ boot_blkdev, of 1000 4096 "''/home/terry''"
        "''home/terry''" "\<lambda>_. True" "0x7ffe00" "CHR ''/''"]
    by (auto simp: boot_state_def)
qed

section \<open>A spawned task\<close>

text \<open>The fields of the new \<open>CTask\<close> keep their values when other fields are written.\<close>

lemma field_write_off:
  assumes "offsetof t f + n \<le> offsetof t g \<or> offsetof t g + length (snd (write_bytes w)) \<le> offsetof t f"
    and "fst (write_bytes w) = b + fld t g"
    and "offsetof t f + n \<le> 2 ^ 32" "offsetof t g + length (snd (write_bytes w)) \<le> 2 ^ 32"
  shows "write_off w (b + fld t f) n"
  using assms disjoint_fields [of "offsetof t f" n "offsetof t g" "length (snd (write_bytes w))" b]
  by (simp add: write_off_def fld_def)

definition spawn_name :: "cstring option \<Rightarrow> cstring" where
  "spawn_name task_name = take 31 (case task_name of None \<Rightarrow> ''Unnamed Task'' | Some n \<Rightarrow> n)"

lemma strncpy_terminated:
  "take 31 (strncpy_bytes n TASK_NAME_LEN) @ [0] = cstr_bytes (take 31 n) @ replicate (31 - length n) 0"
  by (simp add: strncpy_bytes_def TASK_NAME_LEN_def cstr_bytes_def take_map replicate_append_same)

lemma spawn_fields_name:
  assumes "cstring_ok n"
  shows "bytes_at (mmem (writes (spawn_fields task p g ch dh n) s)) (task + fld CTask ''task_name'')
    (cstr_bytes (take 31 n))"
proof -
  let ?a = "task + fld CTask ''task_name''" and ?bs = "strncpy_bytes n TASK_NAME_LEN"
  let ?u = "writes (butlast (butlast (spawn_fields task p g ch dh n))) s"
  let ?m = "st_bytes (mmem ?u) ?a ?bs"
  have m: "mmem (writes (spawn_fields task p g ch dh n) s) = st_bytes ?m (?a + 31) [0]"
    by (simp add: spawn_fields_def writes_def TASK_NAME_LEN_def)
  have len: "length ?bs = 32" by (simp add: strncpy_bytes_def TASK_NAME_LEN_def)
  have "bytes_at ?m ?a (take 31 ?bs @ drop 31 ?bs)"
    using bytes_at_st_bytes_same [of ?bs "mmem ?u" ?a] len by simp
  then have "bytes_at ?m ?a (take 31 ?bs)" by (simp only: bytes_at_append)
  moreover have "disjoint_regions ?a (length (take 31 ?bs)) (?a + 31) (length [0 :: u8])"
    using disjoint_fields [of 0 31 31 1 ?a] len by simp
  ultimately have "bytes_at (st_bytes ?m (?a + 31) [0]) ?a (take 31 ?bs)"
    by (rule bytes_at_st_bytes_other) (use len in simp_all)
  moreover have "bytes_at (st_bytes ?m (?a + 31) [0]) (?a + 31) [0]"
    by (rule bytes_at_st_bytes_same) simp
  ultimately have "bytes_at (st_bytes ?m (?a + 31) [0]) ?a (take 31 ?bs @ [0])"
    using len by (simp add: bytes_at_append)
  then show ?thesis by (simp add: m strncpy_terminated bytes_at_append)
qed

lemma within_write_off:
  assumes "within b lo n w" "i + k \<le> lo \<or> n \<le> i" "i + k \<le> 2 ^ 32" "n \<le> 2 ^ 32"
  shows "write_off w (b + of_nat i) k"
proof -
  obtain off where o: "fst (write_bytes w) = b + of_nat off" "lo \<le> off"
    "off + length (snd (write_bytes w)) \<le> n" using assms(1) by (auto simp: within_def)
  have "disjoint_regions (b + of_nat i) k (b + of_nat off) (length (snd (write_bytes w)))"
    using o(2,3) assms by (intro disjoint_fields) auto
  with o assms show ?thesis by (simp add: write_off_def)
qed

lemma spawn_fields_links:
  "bytes_at (mmem (writes (spawn_fields task p g ch dh n) s)) (task + fld CTask ''task_signature'')
     (le_bytes 4 (unat TASK_SIGNATURE))"
  "bytes_at (mmem (writes (spawn_fields task p g ch dh n) s)) (task + fld CTask ''parent_task'')
     (le_bytes 8 (unat p))"
proof -
  let ?f = "spawn_fields task p g ch dh n"
  have len: "length (strncpy_bytes n TASK_NAME_LEN) = 32" by (simp add: strncpy_bytes_def TASK_NAME_LEN_def)
  have g: "within task 424 432 (W64 (task + fld CTask ''gs'') g)"
    "within task 32 40 (W64 (task + fld CTask ''code_heap'') ch)"
    "within task 40 48 (W64 (task + fld CTask ''data_heap'') dh)"
    "within task 120 128 (W64 (task + fld CTask ''parent_task'') p)"
    "within task 600 632 (WBytes (task + fld CTask ''task_name'') (strncpy_bytes n TASK_NAME_LEN))"
    by (rule within_field; simp add: off_simps len)+
  have z: "within task 600 632 (W8 (task + fld CTask ''task_name'' + (of_nat TASK_NAME_LEN - 1)) 0)"
    by (auto simp: within_def fld_def off_simps TASK_NAME_LEN_def intro!: exI [of _ 631])
  have f: "?f = [] @ hd ?f # tl ?f" "?f = [hd ?f] @ hd (tl ?f) # tl (tl ?f)"
    by (simp_all add: spawn_fields_def)
  have t: "\<forall>x \<in> set (tl ?f). write_off x (task + of_nat 8) 4"
    "\<forall>x \<in> set (tl (tl ?f)). write_off x (task + of_nat 120) 8"
    using g [THEN within_write_off, of 8 4] g [THEN within_write_off, of 120 8]
      within_write_off [OF z, of 8 4] within_write_off [OF z, of 120 8]
    by (simp_all add: spawn_fields_def)
  show "bytes_at (mmem (writes ?f s)) (task + fld CTask ''task_signature'') (le_bytes 4 (unat TASK_SIGNATURE))"
    using writes_last [OF f(1), of s] t(1) by (simp add: spawn_fields_def fld_def off_simps)
  show "bytes_at (mmem (writes ?f s)) (task + fld CTask ''parent_task'') (le_bytes 8 (unat p))"
    using writes_last [OF f(2), of s] t(2) by (simp add: spawn_fields_def fld_def off_simps)
qed

text \<open>What \<open>spawn_prepare\<close> leaves in the new task.\<close>

lemma spawn_prepare_ok:
  fixes s :: machine and parent :: u64
  assumes h: "heap_serves c" and n: "cstring_ok (case task_name of None \<Rightarrow> ''Unnamed Task'' | Some n \<Rightarrow> n)"
    and a: "adam_task \<noteq> 0"
  defines "task \<equiv> heap_alloc c (allocs s) 1328"
    and "par \<equiv> (if parent = 0 then adam_task else parent)"
  shows "\<exists>s1. spawn_prepare c adam_task task_name parent s = Inr (task, s1) \<and> allocs s1 = Suc (allocs s) \<and>
    bytes_at (mmem s1) (task + fld CTask ''task_name'') (cstr_bytes (spawn_name task_name)) \<and>
    bytes_at (mmem s1) (task + fld CTask ''task_title'') (cstr_bytes (spawn_name task_name)) \<and>
    bytes_at (mmem s1) (task + fld CTask ''task_signature'') (le_bytes 4 (unat TASK_SIGNATURE)) \<and>
    bytes_at (mmem s1) (task + fld CTask ''parent_task'') (le_bytes 8 (unat par))"
proof -
  define nm where "nm = (case task_name of None \<Rightarrow> ''Unnamed Task'' | Some n \<Rightarrow> n)"
  define s0 where "s0 = after_malloc c 1328 True s"
  define f where "f = spawn_fields task par (ld64 (mmem s0) (par + fld CTask ''gs''))
    (ld64 (mmem s0) (adam_task + fld CTask ''code_heap'')) (ld64 (mmem s0) (adam_task + fld CTask ''data_heap'')) nm"
  define ws where "ws = [WStr (task + fld CTask ''task_title'') (spawn_name task_name),
    W8 (task + fld CTask ''title_src'') TTS_TASK_NAME]"
  have sn: "spawn_name task_name = take 31 nm" by (simp add: spawn_name_def nm_def)
  have ok: "cstring_ok (spawn_name task_name)"
    using n set_take_subset [of 31 nm] by (auto simp: sn cstring_ok_def nm_def)
  have len: "length (spawn_name task_name) \<le> 31" by (simp add: sn)
  have nb: "bytes_at (mmem (writes f s0)) (task + fld CTask ''task_name'') (cstr_bytes (spawn_name task_name))"
    unfolding f_def sn using n by (intro spawn_fields_name) (simp add: nm_def)
  then have ca: "cstr_at (mmem (writes f s0)) (task + fld CTask ''task_name'') = Some (spawn_name task_name)"
    by (rule cstr_at_bytes_at [OF ok])
  have eq: "spawn_prepare c adam_task task_name parent s = Inr (task, writes ws (writes f s0))"
    using a ca by (simp add: spawn_prepare_def malloc_serves [OF h] Let_def task_def [symmetric] par_def [symmetric]
        off_simps layout_simps s0_def [symmetric] f_def [symmetric] nm_def [symmetric] ws_def [symmetric])
       (simp add: par_def)
  have keep: "write_off w (task + fld CTask g) k"
    if "w \<in> set ws" "offsetof CTask g + k \<le> 456 \<or> 600 \<le> offsetof CTask g \<and> offsetof CTask g + k \<le> 776" for w g k
    using that len
      field_write_off [of CTask g k "''task_title''" "WStr (task + fld CTask ''task_title'') (spawn_name task_name)" task]
      field_write_off [of CTask g k "''title_src''" "W8 (task + fld CTask ''title_src'') TTS_TASK_NAME" task]
    by (auto simp: ws_def off_simps)
  have name: "bytes_at (mmem (writes ws (writes f s0))) (task + fld CTask ''task_name'') (cstr_bytes (spawn_name task_name))"
    using len by (intro writes_bytes_at [OF _ _ nb] ballI keep) (simp_all add: off_simps)
  have "bytes_at (mmem (writes ws (writes f s0))) (task + fld CTask ''task_title'') (cstr_bytes (spawn_name task_name))"
    using writes_last [of ws "[]" "WStr (task + fld CTask ''task_title'') (spawn_name task_name)"
        "[W8 (task + fld CTask ''title_src'') TTS_TASK_NAME]" "writes f s0"] len
      field_write_off [of CTask "''task_title''" "Suc (length (spawn_name task_name))" "''title_src''"
        "W8 (task + fld CTask ''title_src'') TTS_TASK_NAME" task]
    by (simp add: ws_def off_simps)
  moreover have "bytes_at (mmem (writes f s0)) (task + fld CTask ''task_signature'') (le_bytes 4 (unat TASK_SIGNATURE))"
    unfolding f_def by (rule spawn_fields_links)
  moreover have "bytes_at (mmem (writes f s0)) (task + fld CTask ''parent_task'') (le_bytes 8 (unat par))"
    unfolding f_def by (rule spawn_fields_links)
  ultimately show ?thesis using eq name
    by (auto simp: s0_def off_simps intro!: writes_bytes_at keep)
qed

definition threads_serve :: "pthread_results \<Rightarrow> bool" where
  "threads_serve pt \<longleftrightarrow> attr_init_ok pt \<and> attr_stacksize_ok pt \<and> attr_detach_ok pt \<and> create_ok pt"

text \<open>C27: \<open>Spawn\<close> describes the task it starts: the \<open>CTask\<close> has the signature, at most 31
  characters of the name, NUL-terminated, as name and title (\<open>Unnamed Task\<close> for NULL), and
  Adam as parent when none is given; its thread gets a \<open>CCPU\<close> that points to itself, the
  function with its argument and a stack of 256 KiB unless a size is given. When a pthread
  call fails, no thread is started and 0 is returned.\<close>
theorem spawned_task_described:
  assumes h: "heap_serves c" and ap: "blocks_apart (heap_alloc c) N L" "1328 \<le> L" "allocs s + 2 \<le> N"
    and n: "cstring_ok (case task_name of None \<Rightarrow> ''Unnamed Task'' | Some n \<Rightarrow> n)" and a: "adam_task \<noteq> 0"
  shows "if threads_serve pt
    then \<exists>task ti s1. syscall_Spawn c pt adam_task fp data task_name parent stk_size s = Inr (task, Some ti, s1) \<and>
      task \<noteq> 0 \<and> t_Fs (ti_t ti) = task \<and> ld64 (mmem s1) (t_Gs (ti_t ti)) = t_Gs (ti_t ti) \<and>
      ti_fp ti = fp \<and> ti_data ti = data \<and> ti_stk_size ti = (if stk_size <=s 0 then 262144 else stk_size) \<and>
      cstr_at (mmem s1) (task + fld CTask ''task_name'') = Some (spawn_name task_name) \<and>
      cstr_at (mmem s1) (task + fld CTask ''task_title'') = Some (spawn_name task_name) \<and>
      ld32 (mmem s1) (task + fld CTask ''task_signature'') = TASK_SIGNATURE \<and>
      ld64 (mmem s1) (task + fld CTask ''parent_task'') = (if parent = 0 then adam_task else parent)
    else \<exists>s1. syscall_Spawn c pt adam_task fp data task_name parent stk_size s = Inr (0, None, s1)"
proof -
  let ?task = "heap_alloc c (allocs s) 1328" and ?par = "if parent = 0 then adam_task else parent"
  obtain s1 where p: "spawn_prepare c adam_task task_name parent s = Inr (?task, s1)" "allocs s1 = Suc (allocs s)"
    "bytes_at (mmem s1) (?task + fld CTask ''task_name'') (cstr_bytes (spawn_name task_name))"
    "bytes_at (mmem s1) (?task + fld CTask ''task_title'') (cstr_bytes (spawn_name task_name))"
    "bytes_at (mmem s1) (?task + fld CTask ''task_signature'') (le_bytes 4 (unat TASK_SIGNATURE))"
    "bytes_at (mmem s1) (?task + fld CTask ''parent_task'') (le_bytes 8 (unat ?par))"
    using spawn_prepare_ok [OF h n a, of parent s] by blast
  have nz: "heap_alloc c i b \<noteq> 0" and ng: "\<not> USE_GLIBC_MALLOC c" for i b
    using h by (simp_all add: heap_serves_def)
  have f: "\<exists>r. free_for_templeos c ?task x = Inr (r, x)" for x
    using nz ng by (simp add: free_for_templeos_def)
  have sz: "csize CCPU = 272" by (simp add: layout_simps)
  show ?thesis
  proof (cases "threads_serve pt")
    case False
    obtain r where r: "\<And>x. free_for_templeos c ?task x = Inr (r, x)"
      using nz ng by (simp add: free_for_templeos_def)
    from False show ?thesis
      by (simp add: threads_serve_def syscall_Spawn_def p(1) Let_def calloc_serves [OF h] r)
  next
    case True
    define Gs where "Gs = heap_alloc c (allocs s1) 272"
    define s2 where "s2 = writes [W64 (Gs + fld CCPU ''addr'') Gs] (after_malloc c 272 True s1)"
    have e: "syscall_Spawn c pt adam_task fp data task_name parent stk_size s =
        Inr (?task, Some \<lparr>ti_t = \<lparr>t_Gs = Gs, t_Fs = ?task\<rparr>, ti_fp = fp, ti_data = data,
          ti_stk_size = (if stk_size <=s 0 then 262144 else stk_size)\<rparr>, s2)"
      using True by (simp add: threads_serve_def syscall_Spawn_def p(1) Let_def calloc_serves [OF h] sz
          Gs_def [symmetric] s2_def)
    have "disjoint_regions ?task (unat (1328 :: u64)) Gs (unat (272 :: u64))"
      unfolding Gs_def using ap p(2) by (intro blocks_apartD [OF ap(1)]; simp)
    then have d: "disjoint_regions ?task 1328 Gs 272" by simp
    have keep: "bytes_at (mmem s2) (?task + fld CTask f) bs"
      if "bytes_at (mmem s1) (?task + fld CTask f) bs" "offsetof CTask f + length bs \<le> 1328" for f bs
    proof -
      have "disjoint_regions (?task + fld CTask f) (length bs) (Gs + of_nat 0) 272"
        unfolding fld_def using that(2) by (intro disjoint_blocks [OF d]) simp_all
      moreover have "disjoint_regions (?task + fld CTask f) (length bs) (Gs + of_nat 0) 8"
        unfolding fld_def using that(2) by (intro disjoint_blocks [OF d]) simp_all
      ultimately show ?thesis
        using that unfolding s2_def
        by (intro writes_bytes_at)
           (simp_all add: write_off_def fld_addr after_malloc_def Gs_def [symmetric] bytes_at_st_bytes_other)
    qed
    have "bytes_at (mmem s2) Gs (le_bytes 8 (unat Gs))"
      using writes_last [of "[W64 (Gs + fld CCPU ''addr'') Gs]" "[]" _ "[]" "after_malloc c 272 True s1"]
      by (simp add: s2_def fld_addr)
    then have g: "ld64 (mmem s2) Gs = Gs" by (rule ld64_bytes_at)
    have ok: "cstring_ok (spawn_name task_name)"
      using n in_set_takeD by (fastforce simp: spawn_name_def cstring_ok_def)
    have l: "length (spawn_name task_name) \<le> 31" by (simp add: spawn_name_def)
    note k = keep [OF p(3)] keep [OF p(4)] keep [OF p(5)] keep [OF p(6)]
    show ?thesis
      using True e g nz l cstr_at_bytes_at [OF ok k(1)] cstr_at_bytes_at [OF ok k(2)]
        ld32_bytes_at [OF k(3)] ld64_bytes_at [OF k(4)]
      by (auto simp: off_simps)
  qed
qed

theorem spawned_task_described_witness:
  "\<exists>task ti s1. syscall_Spawn boot_conf
      \<lparr>attr_init_ok = True, attr_stacksize_ok = True, attr_detach_ok = True, create_ok = True\<rparr>
      0x9000 0x5000 7 None 0 0 (mach boot_state) = Inr (task, Some ti, s1) \<and>
     cstr_at (mmem s1) (task + fld CTask ''task_title'') = Some ''Unnamed Task'' \<and>
     ld64 (mmem s1) (task + fld CTask ''parent_task'') = 0x9000 \<and> ti_stk_size ti = 262144"
proof -
  let ?pt = "\<lparr>attr_init_ok = True, attr_stacksize_ok = True, attr_detach_ok = True, create_ok = True\<rparr>"
  have "threads_serve ?pt" by (simp add: threads_serve_def)
  moreover have "blocks_apart (heap_alloc boot_conf) 1000 4096"
    using boot_heap_ok by (simp add: heap_ok_def)
  moreover have "allocs (mach boot_state) + 2 \<le> 1000" by (simp add: boot_state_def empty_machine_def)
  moreover have "cstring_ok (case None of None \<Rightarrow> ''Unnamed Task'' | Some n \<Rightarrow> n)"
    by (simp add: cstring_ok_def)
  moreover have "spawn_name None = ''Unnamed Task''" by (simp add: spawn_name_def)
  moreover have "(0 :: u64) <=s 0" by simp
  ultimately show ?thesis
    using spawned_task_described [OF boot_serves, of 1000 4096 "mach boot_state" None "0x9000" ?pt "0x5000" 7 0 0]
    by (simp add: Let_def) blast
qed

end
