(* ===== verification/Keyboard.thy ===== *)
theory Keyboard
  imports KernelPatch
begin

text \<open>
  Key translation of the X11 front end (\<open>lilith/x11.c\<close>): \<open>keyevent_convert\<close> turns a key event of
  the X server into the character and scancode of a TempleOS key message, with the tables
  that \<open>find_num_lock_modifier\<close> and \<open>init_scancode_tables\<close> set up.
\<close>

unbundle bit_operations_syntax

section \<open>Scancodes\<close>

definition SC_ESC :: u64 where "SC_ESC = 0x01"
definition SC_BACKSPACE :: u64 where "SC_BACKSPACE = 0x0E"
definition SC_TAB :: u64 where "SC_TAB = 0x0F"
definition SC_ENTER :: u64 where "SC_ENTER = 0x1C"
definition SC_CTRL :: u64 where "SC_CTRL = 0x1D"
definition SC_ALT :: u64 where "SC_ALT = 0x38"
definition SC_CAPS :: u64 where "SC_CAPS = 0x3A"
definition SC_NUM :: u64 where "SC_NUM = 0x45"
definition SC_SCROLL :: u64 where "SC_SCROLL = 0x46"
definition SC_CURSOR_UP :: u64 where "SC_CURSOR_UP = 0x48"
definition SC_CURSOR_DOWN :: u64 where "SC_CURSOR_DOWN = 0x50"
definition SC_CURSOR_LEFT :: u64 where "SC_CURSOR_LEFT = 0x4B"
definition SC_CURSOR_RIGHT :: u64 where "SC_CURSOR_RIGHT = 0x4D"
definition SC_PAGE_UP :: u64 where "SC_PAGE_UP = 0x49"
definition SC_PAGE_DOWN :: u64 where "SC_PAGE_DOWN = 0x51"
definition SC_HOME :: u64 where "SC_HOME = 0x47"
definition SC_END :: u64 where "SC_END = 0x4F"
definition SC_INS :: u64 where "SC_INS = 0x52"
definition SC_DELETE :: u64 where "SC_DELETE = 0x53"
definition SC_F1 :: u64 where "SC_F1 = 0x3B"
definition SC_F11 :: u64 where "SC_F11 = 0x57"
definition SC_F12 :: u64 where "SC_F12 = 0x58"
definition SC_PAUSE :: u64 where "SC_PAUSE = 0x61"
definition SC_GUI :: u64 where "SC_GUI = 0xDB"
definition SC_PRTSCRN1 :: u64 where "SC_PRTSCRN1 = 0xAA"
definition SCF_KEY_UP :: u64 where "SCF_KEY_UP = 2 ^ 8"
definition SCF_SHIFT :: u64 where "SCF_SHIFT = 2 ^ 9"
definition SCF_CTRL :: u64 where "SCF_CTRL = 2 ^ 10"
definition SCF_ALT :: u64 where "SCF_ALT = 2 ^ 11"
definition SCF_CAPS :: u64 where "SCF_CAPS = 2 ^ 12"
definition SCF_NUM :: u64 where "SCF_NUM = 2 ^ 13"
definition SCF_MS_L_DOWN :: u64 where "SCF_MS_L_DOWN = 2 ^ 16"
definition SCF_MS_R_DOWN :: u64 where "SCF_MS_R_DOWN = 2 ^ 17"

lemmas sc_defs = SC_ESC_def SC_BACKSPACE_def SC_TAB_def SC_ENTER_def SC_CTRL_def SC_ALT_def 
SC_CAPS_def SC_NUM_def SC_SCROLL_def SC_CURSOR_UP_def SC_CURSOR_DOWN_def SC_CURSOR_LEFT_def 
SC_CURSOR_RIGHT_def SC_PAGE_UP_def SC_PAGE_DOWN_def SC_HOME_def SC_END_def SC_INS_def 
SC_DELETE_def SC_F1_def SC_F11_def SC_F12_def SC_PAUSE_def SC_GUI_def SC_PRTSCRN1_def
lemmas scf_defs = SCF_KEY_UP_def SCF_SHIFT_def SCF_CTRL_def SCF_ALT_def SCF_CAPS_def 
SCF_NUM_def SCF_MS_L_DOWN_def SCF_MS_R_DOWN_def

text \<open>The keysyms and modifier masks of the X11 headers.\<close>

definition XK_BackSpace :: u64 where "XK_BackSpace = 0xff08"
definition XK_Tab :: u64 where "XK_Tab = 0xff09"
definition XK_Linefeed :: u64 where "XK_Linefeed = 0xff0a"
definition XK_Return :: u64 where "XK_Return = 0xff0d"
definition XK_Pause :: u64 where "XK_Pause = 0xff13"
definition XK_Scroll_Lock :: u64 where "XK_Scroll_Lock = 0xff14"
definition XK_Escape :: u64 where "XK_Escape = 0xff1b"
definition XK_Home :: u64 where "XK_Home = 0xff50"
definition XK_Left :: u64 where "XK_Left = 0xff51"
definition XK_Up :: u64 where "XK_Up = 0xff52"
definition XK_Right :: u64 where "XK_Right = 0xff53"
definition XK_Down :: u64 where "XK_Down = 0xff54"
definition XK_Page_Up :: u64 where "XK_Page_Up = 0xff55"
definition XK_Page_Down :: u64 where "XK_Page_Down = 0xff56"
definition XK_End :: u64 where "XK_End = 0xff57"
definition XK_Print :: u64 where "XK_Print = 0xff61"
definition XK_Insert :: u64 where "XK_Insert = 0xff63"
definition XK_Menu :: u64 where "XK_Menu = 0xff67"
definition XK_Num_Lock :: u64 where "XK_Num_Lock = 0xff7f"
definition XK_F1 :: u64 where "XK_F1 = 0xffbe"
definition XK_F12 :: u64 where "XK_F12 = 0xffc9"
definition XK_Control_L :: u64 where "XK_Control_L = 0xffe3"
definition XK_Control_R :: u64 where "XK_Control_R = 0xffe4"
definition XK_Caps_Lock :: u64 where "XK_Caps_Lock = 0xffe5"
definition XK_Shift_Lock :: u64 where "XK_Shift_Lock = 0xffe6"
definition XK_Alt_L :: u64 where "XK_Alt_L = 0xffe9"
definition XK_Alt_R :: u64 where "XK_Alt_R = 0xffea"
definition XK_Delete :: u64 where "XK_Delete = 0xffff"
definition ShiftMask :: u32 where "ShiftMask = 1"
definition LockMask :: u32 where "LockMask = 2"
definition ControlMask :: u32 where "ControlMask = 4"
definition Mod1Mask :: u32 where "Mod1Mask = 8"
definition Mod4Mask :: u32 where "Mod4Mask = 64"

lemmas xk_defs = XK_BackSpace_def XK_Tab_def XK_Linefeed_def XK_Return_def XK_Pause_def 
XK_Scroll_Lock_def XK_Escape_def XK_Home_def XK_Left_def XK_Up_def XK_Right_def XK_Down_def 
XK_Page_Up_def XK_Page_Down_def XK_End_def XK_Print_def XK_Insert_def XK_Menu_def 
XK_Num_Lock_def XK_F1_def XK_F12_def XK_Control_L_def XK_Control_R_def XK_Caps_Lock_def 
XK_Shift_Lock_def XK_Alt_L_def XK_Alt_R_def XK_Delete_def
lemmas mask_defs = ShiftMask_def LockMask_def ControlMask_def Mod1Mask_def Mod4Mask_def

section \<open>State\<close>

text \<open>
  The global variables of the key translation: the keyboard mapping of the X server (one row
  of \<open>keysyms_per_keycode\<close> keysyms for each keycode from 8 on), the modifier bit of Num Lock,
  the addresses of the decode tables of the TempleOS kernel and the table from ASCII
  characters to scancodes.
\<close>

record keyboard =
  keycode_to_keysym :: "u64 list"
  keysyms_per_keycode :: u32
  num_lock_modifier_mask :: u32
  normal_table :: u64
  ctrl_table :: u64
  shift_table :: u64
  ascii_to_scancode1 :: "u8 list"

definition X11_KEYCODE_LOW :: u32 where "X11_KEYCODE_LOW = 8"
definition X11_KEYCODE_HIGH :: u32 where "X11_KEYCODE_HIGH = 255"

definition nth_res :: "'a list \<Rightarrow> nat \<Rightarrow> 'a res" where
  "nth_res xs i = (if i < length xs then Inr (xs ! i) else Inl OutOfBounds)"

section \<open>Translation of key events\<close>

definition is_keypad :: "u64 \<Rightarrow> bool" where
  "is_keypad keysym \<longleftrightarrow> keysym \<ge> 0xff80 \<and> keysym \<le> 0xffbd"

definition is_ascii_key :: "u64 \<Rightarrow> bool" where
  "is_ascii_key keysym \<longleftrightarrow> keysym \<ge> 0x20 \<and> keysym < 0x7f"

definition chosen_keysym :: "u32 \<Rightarrow> u32 \<Rightarrow> u64 \<Rightarrow> u64 \<Rightarrow> u64" where
  "chosen_keysym num_lock state keysym0 keysym1 =
     (if (state AND num_lock) \<noteq> 0 \<and> is_keypad keysym1 then
        (if (state AND ShiftMask) \<noteq> 0 then keysym1 else keysym0)
      else if (state AND ShiftMask) \<noteq> 0 then
        (if keysym1 \<noteq> 0 then keysym1 else keysym0)
      else keysym0)"

definition special_keys :: "(u64 \<times> u64) list" where
  "special_keys =
     [(XK_BackSpace, SC_BACKSPACE), (XK_Escape, SC_ESC), (XK_Tab, SC_TAB),
      (XK_Linefeed, SC_ENTER), (XK_Return, SC_ENTER),
      (XK_Control_L, SC_CTRL), (XK_Control_R, SC_CTRL), (XK_Alt_L, SC_ALT), (XK_Alt_R, SC_ALT),
      (XK_Caps_Lock, SC_CAPS), (XK_Shift_Lock, SC_CAPS),
      (XK_Num_Lock, SC_NUM), (XK_Scroll_Lock, SC_SCROLL),
      (XK_Left, SC_CURSOR_LEFT), (XK_Right, SC_CURSOR_RIGHT), (XK_Up, SC_CURSOR_UP),
      (XK_Down, SC_CURSOR_DOWN), (XK_Page_Up, SC_PAGE_UP), (XK_Page_Down, SC_PAGE_DOWN),
      (XK_Home, SC_HOME), (XK_End, SC_END), (XK_Insert, SC_INS), (XK_Delete, SC_DELETE),
      (XK_Pause, SC_PAUSE), (XK_Menu, SC_GUI), (XK_Print, SC_PRTSCRN1)]"

definition base_scancode :: "u8 list \<Rightarrow> u64 \<Rightarrow> u64 \<Rightarrow> u64 res" where
  "base_scancode asc keysym0 keysym =
     (if is_ascii_key keysym then
        res_bind (nth_res asc (unat keysym0)) (\<lambda>sc. Inr (ucast sc))
      else if keysym \<ge> XK_F1 \<and> keysym \<le> XK_F12 then Inr (keysym - XK_F1 + SC_F1)
      else Inr (case map_of special_keys keysym of None \<Rightarrow> 0 | Some sc \<Rightarrow> sc))"

definition modifier_flags :: "u32 \<Rightarrow> u32 \<Rightarrow> bool \<Rightarrow> u64" where
  "modifier_flags num_lock state keyup =
     (if (state AND ShiftMask) \<noteq> 0 then SCF_SHIFT else 0) OR
     (if (state AND LockMask) \<noteq> 0 then SCF_CAPS else 0) OR
     (if (state AND num_lock) \<noteq> 0 then SCF_NUM else 0) OR
     (if (state AND ControlMask) \<noteq> 0 then SCF_CTRL else 0) OR
     (if (state AND Mod1Mask) \<noteq> 0 then SCF_ALT else 0) OR
     (if (state AND Mod4Mask) \<noteq> 0 then SCF_MS_L_DOWN OR SCF_MS_R_DOWN else 0) OR
     (if keyup then SCF_KEY_UP else 0)"

definition decode_table :: "keyboard \<Rightarrow> u64 \<Rightarrow> u64" where
  "decode_table k sc =
     (if (sc AND SCF_CTRL) \<noteq> 0 then ctrl_table k
      else if (sc AND SCF_SHIFT) \<noteq> 0 then
        (if (sc AND SCF_CAPS) = 0 then shift_table k else normal_table k)
      else if (sc AND SCF_CAPS) \<noteq> 0 then shift_table k else normal_table k)"

text \<open>The results \<open>*pch\<close> and \<open>*pscancode\<close>.\<close>

definition keyevent_convert :: "keyboard \<Rightarrow> mem \<Rightarrow> u32 \<Rightarrow> u32 \<Rightarrow> bool \<Rightarrow> (u8 \<times> u64) res" where
  "keyevent_convert k m state keycode keyup =
     (if keycode < X11_KEYCODE_LOW \<or> keycode > X11_KEYCODE_HIGH then Inr (0, 0)
      else
        let i = (keycode - X11_KEYCODE_LOW) * keysyms_per_keycode k
        in res_bind (nth_res (keycode_to_keysym k) (unat i)) (\<lambda>keysym0.
           res_bind (nth_res (keycode_to_keysym k) (unat (i + 1))) (\<lambda>keysym1.
           res_bind (base_scancode (ascii_to_scancode1 k) keysym0
               (chosen_keysym (num_lock_modifier_mask k) state keysym0 keysym1)) (\<lambda>sc.
           let sc = sc OR modifier_flags (num_lock_modifier_mask k) state keyup
           in Inr (m (decode_table k sc + (sc AND 0x7f)), sc OR push_bit 32 sc)))))"

section \<open>Set-up\<close>

text \<open>The filling loop of \<open>init_scancode_tables\<close> over the bytes of the normal decode table.\<close>

definition scancode_step :: "mem \<Rightarrow> u64 \<Rightarrow> nat \<Rightarrow> u8 list \<Rightarrow> u8 list" where
  "scancode_step m nksdt i asc =
     (let b = m (nksdt + of_nat i)
      in if (b \<ge> 0x20 \<and> b < 0x7f) \<or> b = 10 then asc[unat b := of_nat i] else asc)"

definition scancode_table :: "mem \<Rightarrow> u64 \<Rightarrow> u8 list" where
  "scancode_table m nksdt = fold (scancode_step m nksdt) [0..<16 * 5] (replicate 0x7f 0)"

definition init_scancode_tables :: "machine \<Rightarrow> keyboard \<Rightarrow> keyboard res" where
  "init_scancode_tables s k =
     res_bind (kernel_var64_ptr ''NORMAL_KEY_SCAN_DECODE_TABLE'' s) (\<lambda>normal.
     res_bind (kernel_var64_ptr ''CTRL_KEY_SCAN_DECODE_TABLE'' s) (\<lambda>ctrl.
     res_bind (kernel_var64_ptr ''SHIFT_KEY_SCAN_DECODE_TABLE'' s) (\<lambda>shift.
     Inr (k\<lparr>normal_table := normal, ctrl_table := ctrl, shift_table := shift,
            ascii_to_scancode1 := scancode_table (mmem s) normal\<rparr>))))"

text \<open>
  \<open>find_num_lock_modifier\<close>: \<open>modifiermap\<close> is the map \<open>XGetModifierMapping\<close> returns, with
  \<open>max_keypermod\<close> keycodes (bytes) for each of the eight modifiers. The index of a keysym is
  computed in \<open>int\<close>, so it may be negative.
\<close>

fun num_lock_search :: "keyboard \<Rightarrow> u8 list \<Rightarrow> nat \<Rightarrow> (nat \<times> nat) list \<Rightarrow> u32 res" where
  "num_lock_search k modifiermap kpm [] = Inr 0"
| "num_lock_search k modifiermap kpm ((modifier, i) # rest) =
     res_bind (nth_res modifiermap (modifier * kpm + i)) (\<lambda>keycode.
       let j = (uint keycode - 8) * sint (keysyms_per_keycode k)
       in if j < 0 then Inl OutOfBounds
          else res_bind (nth_res (keycode_to_keysym k) (nat j)) (\<lambda>keysym.
            if keysym = 0xff7f then Inr (push_bit modifier 1)
            else num_lock_search k modifiermap kpm rest))"

definition find_num_lock_modifier :: "u8 list \<Rightarrow> nat \<Rightarrow> keyboard \<Rightarrow> keyboard res" where
  "find_num_lock_modifier modifiermap max_keypermod k =
     res_bind (num_lock_search k modifiermap max_keypermod
         (List.product [0..<8] [0..<max_keypermod])) (\<lambda>mask.
       Inr (k\<lparr>num_lock_modifier_mask := mask\<rparr>))"

section \<open>The scancode table\<close>

lemma length_scancode_table [simp]: "length (scancode_table m a) = 0x7f"
proof -
  have "length (fold (scancode_step m a) is asc) = length asc" for "is" asc
    by (induction "is" arbitrary: asc) (simp_all add: scancode_step_def Let_def)
  then show ?thesis by (simp add: scancode_table_def)
qed

text \<open>
  The table holds for each character of the first 80 entries of the decode table a position
  at which the character is.
\<close>

lemma scancode_table_inverse:
  assumes c: "c \<ge> 0x20" "c < 0x7f" and i: "i < 80" "m (a + of_nat i) = c"
  shows "\<exists>j < 80. scancode_table m a ! unat c = of_nat j \<and> m (a + of_nat j) = c"
proof -
  have u: "unat c < 0x7f" using c(2) by (simp add: word_less_nat_alt)
  have P: "\<exists>j < n. fold (scancode_step m a) [0..<n] (replicate 0x7f 0) ! unat c = of_nat j \<and> m (a + of_nat j) = c"
    if "i < n" for n
    using that
  proof (induction n)
    case (Suc n)
    let ?t = "fold (scancode_step m a) [0..<n] (replicate 0x7f 0)"
    have len: "length ?t = 0x7f"
      by (rule fold_invariant [where P = "\<lambda>t. length t = 0x7f"])
         (simp_all add: scancode_step_def Let_def)
    have st: "fold (scancode_step m a) [0..<Suc n] (replicate 0x7f 0) = scancode_step m a n ?t" by simp
    show ?case
    proof (cases "m (a + of_nat n) = c")
      case True
      then have "scancode_step m a n ?t ! unat c = of_nat n"
        using c u len by (simp add: scancode_step_def Let_def)
      with True show ?thesis unfolding st by (intro exI [of _ n]) simp
    next
      case False
      then have "i < n" using Suc.prems i(2) by (cases "i = n") auto
      from Suc.IH [OF this] obtain j where j: "j < n" "?t ! unat c = of_nat j" "m (a + of_nat j) = c" by blast
      have "unat (m (a + of_nat n)) \<noteq> unat c" using False by (simp only: word_unat_eq_iff [symmetric] not_False_eq_True)
      then have "scancode_step m a n ?t ! unat c = ?t ! unat c" by (simp add: scancode_step_def Let_def)
      with j show ?thesis unfolding st by (intro exI [of _ j]) simp
    qed
  qed simp
  from P [of 80] i(1) show ?thesis by (simp add: scancode_table_def)
qed

section \<open>Flags\<close>

lemma and_exp_bit: "(w AND 2 ^ n) = 0 \<longleftrightarrow> \<not> bit w n" for w :: "'a::len word"
  by (simp add: and_exp_eq_0_iff_not_bit)

lemma small_bits: "(x :: u64) < 128 \<Longrightarrow> 7 \<le> n \<Longrightarrow> \<not> bit x n"
proof
  assume x: "x < 128" and n: "7 \<le> n" and b: "bit x n"
  have "unat x < 2 ^ 7" using x by (simp add: word_less_nat_alt)
  moreover have "bit (unat x) n" using b by (simp add: bit_unsigned_iff)
  ultimately show False
    using n by (metis bit_take_bit_iff linorder_not_less take_bit_nat_eq_self)
qed

lemma modifier_flags_bits:
  "bit (modifier_flags nl state keyup) 9 \<longleftrightarrow> (state AND ShiftMask) \<noteq> 0"
  "bit (modifier_flags nl state keyup) 10 \<longleftrightarrow> (state AND ControlMask) \<noteq> 0"
  "bit (modifier_flags nl state keyup) 12 \<longleftrightarrow> (state AND LockMask) \<noteq> 0"
  "bit (modifier_flags nl state keyup) 8 \<longleftrightarrow> keyup"
  "bit (modifier_flags nl state keyup) 11 \<longleftrightarrow> (state AND Mod1Mask) \<noteq> 0"
  "bit (modifier_flags nl state keyup) 13 \<longleftrightarrow> (state AND nl) \<noteq> 0"
  by (simp_all add: modifier_flags_def scf_defs bit_or_iff bit_exp_iff)

lemma modifier_flags_low: "n < 8 \<Longrightarrow> \<not> bit (modifier_flags nl state keyup) n"
proof -
  have "take_bit 8 (modifier_flags nl state keyup) = 0"
    by (simp add: modifier_flags_def scf_defs if_distrib [of "take_bit 8"])
  then show "n < 8 \<Longrightarrow> \<not> bit (modifier_flags nl state keyup) n" by (metis bit_0_eq bit_take_bit_iff bot_apply bot_bool_def)
qed

lemma with_flags_low:
  assumes "x < 128"
  shows "(x OR modifier_flags nl state keyup) AND 0x7f = x"
proof (rule bit_eqI)
  fix n
  have m: "(0x7f :: u64) = mask 7" by (simp add: mask_eq_exp_minus_1)
  show "bit ((x OR modifier_flags nl state keyup) AND 0x7f) n = bit x n"
    using small_bits [OF assms, of n] modifier_flags_low [of n nl state keyup]
    by (cases "n < 7") (auto simp: m bit_and_iff bit_or_iff bit_mask_iff)
qed

lemma decode_table_flags:
  assumes "x < 128"
  shows "decode_table k (x OR modifier_flags nl state keyup) =
    (if (state AND ControlMask) \<noteq> 0 then ctrl_table k
     else if ((state AND ShiftMask) \<noteq> 0) \<noteq> ((state AND LockMask) \<noteq> 0) then shift_table k
     else normal_table k)"
proof -
  have "\<not> bit x 9" "\<not> bit x 10" "\<not> bit x 12" using small_bits [OF assms] by simp_all
  then show ?thesis
    unfolding decode_table_def SCF_CTRL_def SCF_SHIFT_def SCF_CAPS_def and_exp_bit bit_or_iff
      modifier_flags_bits by simp
qed

lemma doubled_low: "(sc OR push_bit 32 sc) AND 0x7f = sc AND (0x7f :: u64)"
proof (rule bit_eqI)
  fix n
  have m: "(0x7f :: u64) = mask 7" by (simp add: mask_eq_exp_minus_1)
  show "bit ((sc OR push_bit 32 sc) AND 0x7f) n = bit (sc AND 0x7f) n"
    by (auto simp: m bit_and_iff bit_or_iff bit_mask_iff bit_push_bit_iff)
qed

text \<open>What the flags of a scancode say about the modifiers of the key event.\<close>

definition flags_say :: "u32 \<Rightarrow> u32 \<Rightarrow> bool \<Rightarrow> u64 \<Rightarrow> bool" where
  "flags_say num_lock state keyup sc \<longleftrightarrow>
     ((sc AND SCF_KEY_UP) \<noteq> 0 \<longleftrightarrow> keyup) \<and>
     ((sc AND SCF_SHIFT) \<noteq> 0 \<longleftrightarrow> (state AND ShiftMask) \<noteq> 0) \<and>
     ((sc AND SCF_CTRL) \<noteq> 0 \<longleftrightarrow> (state AND ControlMask) \<noteq> 0) \<and>
     ((sc AND SCF_ALT) \<noteq> 0 \<longleftrightarrow> (state AND Mod1Mask) \<noteq> 0) \<and>
     ((sc AND SCF_CAPS) \<noteq> 0 \<longleftrightarrow> (state AND LockMask) \<noteq> 0) \<and>
     ((sc AND SCF_NUM) \<noteq> 0 \<longleftrightarrow> (state AND num_lock) \<noteq> 0)"

lemma flags_say_modifiers:
  assumes "x < 128"
  shows "flags_say nl state keyup (x OR modifier_flags nl state keyup)"
proof -
  have "\<not> bit x 8" "\<not> bit x 9" "\<not> bit x 10" "\<not> bit x 11" "\<not> bit x 12" "\<not> bit x 13"
    using small_bits [OF assms] by simp_all
  then show ?thesis
    unfolding flags_say_def SCF_KEY_UP_def SCF_SHIFT_def SCF_CTRL_def SCF_ALT_def SCF_CAPS_def SCF_NUM_def
      and_exp_bit bit_or_iff modifier_flags_bits by simp
qed

section \<open>Properties\<close>

text \<open>What a key event becomes, once the scancode of the key is known.\<close>

definition event_of :: "keyboard \<Rightarrow> mem \<Rightarrow> u32 \<Rightarrow> bool \<Rightarrow> u64 \<Rightarrow> u8 \<times> u64 \<Rightarrow> bool" where
  "event_of k m state keyup sc r \<longleftrightarrow> (\<exists>x. r = (m ((if (state AND ControlMask) \<noteq> 0 then ctrl_table k
       else if ((state AND ShiftMask) \<noteq> 0) \<noteq> ((state AND LockMask) \<noteq> 0) then shift_table k
       else normal_table k) + sc), x OR push_bit 32 x) \<and>
     (x OR push_bit 32 x) AND 0x7f = sc \<and> x AND 0x7f = sc \<and> flags_say (num_lock_modifier_mask k) state keyup x)"

lemma keyevent_event:
  assumes kc: "X11_KEYCODE_LOW \<le> keycode" "keycode \<le> X11_KEYCODE_HIGH"
    and s0: "nth_res (keycode_to_keysym k) (unat ((keycode - X11_KEYCODE_LOW) * keysyms_per_keycode k)) = Inr keysym0"
    and s1: "nth_res (keycode_to_keysym k) (unat ((keycode - X11_KEYCODE_LOW) * keysyms_per_keycode k + 1)) = Inr keysym1"
    and base: "base_scancode (ascii_to_scancode1 k) keysym0
      (chosen_keysym (num_lock_modifier_mask k) state keysym0 keysym1) = Inr sc" "sc < 128"
  shows "\<exists>r. keyevent_convert k m state keycode keyup = Inr r \<and> event_of k m state keyup sc r"
proof -
  let ?sc = "sc OR modifier_flags (num_lock_modifier_mask k) state keyup"
  have "keyevent_convert k m state keycode keyup =
      Inr (m (decode_table k ?sc + (?sc AND 0x7f)), ?sc OR push_bit 32 ?sc)"
    using kc by (simp add: keyevent_convert_def not_less [symmetric] s0 s1 base(1) Let_def)
  moreover have "(?sc OR push_bit 32 ?sc) AND 0x7f = sc"
    by (simp only: doubled_low with_flags_low [OF base(2)])
  moreover have "flags_say (num_lock_modifier_mask k) state keyup ?sc"
    by (rule flags_say_modifiers [OF base(2)])
  ultimately show ?thesis
    using with_flags_low [OF base(2)] unfolding event_of_def by (simp only: decode_table_flags [OF base(2)]) blast
qed

text \<open>C16: a key whose keysym without modifiers is a printable ASCII character of the kernel's decode table: when the keysym
  that Shift and Num Lock choose for it is a printable ASCII character too, the event has the scancode at which the table
  holds the first character, in both halves of the word, with the flags of the modifiers and of a release, and the
  character that the kernel has for that scancode: in the control table with Control, in the shifted one with exactly one
  of Shift and Caps Lock, otherwise in the normal one, where it is the character itself. When the keysym that is chosen is
  neither ASCII nor a function key nor one of the special keys (as Shift and 3 on a German keyboard), the event has
  scancode 0: the key is lost.\<close>
theorem keyevent_decodes:
  fixes keysym0 keysym1 :: u64 and state :: u32 and k :: keyboard
  assumes kc: "X11_KEYCODE_LOW \<le> keycode" "keycode \<le> X11_KEYCODE_HIGH"
    and s0: "nth_res (keycode_to_keysym k) (unat ((keycode - X11_KEYCODE_LOW) * keysyms_per_keycode k)) = Inr keysym0"
    and s1: "nth_res (keycode_to_keysym k) (unat ((keycode - X11_KEYCODE_LOW) * keysyms_per_keycode k + 1)) = Inr keysym1"
    and asc: "ascii_to_scancode1 k = scancode_table m (normal_table k)"
    and key: "is_ascii_key keysym0" and pos: "i < 80" "m (normal_table k + of_nat i) = ucast keysym0"
  defines "keysym \<equiv> chosen_keysym (num_lock_modifier_mask k) state keysym0 keysym1"
  shows "(is_ascii_key keysym \<longrightarrow> (\<exists>j < 80. m (normal_table k + of_nat j) = ucast keysym0 \<and>
      (\<exists>r. keyevent_convert k m state keycode keyup = Inr r \<and> event_of k m state keyup (of_nat j) r))) \<and>
    (\<not> is_ascii_key keysym \<and> \<not> (XK_F1 \<le> keysym \<and> keysym \<le> XK_F12) \<and> keysym \<notin> fst ` set special_keys \<longrightarrow>
      (\<exists>r. keyevent_convert k m state keycode keyup = Inr r \<and> event_of k m state keyup 0 r))"
proof (intro conjI impI)
  note event = keyevent_event [OF kc s0 s1, where state = state, folded keysym_def]
  assume a: "is_ascii_key keysym"
  let ?c = "ucast keysym0 :: u8"
  have b: "0x20 \<le> unat keysym0" "unat keysym0 < 0x7f"
    using key by (simp_all add: is_ascii_key_def word_less_nat_alt word_le_nat_alt)
  have u: "unat ?c = unat keysym0" using b by (simp add: unsigned_ucast_eq take_bit_eq_mod)
  have c: "?c \<ge> 0x20" "?c < 0x7f" using b u by (simp_all add: word_less_nat_alt word_le_nat_alt)
  obtain j where j: "j < 80" "scancode_table m (normal_table k) ! unat ?c = of_nat j"
    "m (normal_table k + of_nat j) = ?c"
    using scancode_table_inverse [OF c pos(1), of m "normal_table k"] pos(2) by blast
  have w: "ucast (of_nat j :: u8) = (of_nat j :: u64)"
    using j(1) by (simp add: word_unat_eq_iff unsigned_ucast_eq take_bit_eq_mod unat_of_nat)
  have sm: "(of_nat j :: u64) < 128" using j(1) by (simp add: word_less_nat_alt unat_of_nat)
  have "base_scancode (ascii_to_scancode1 k) keysym0 keysym = Inr (of_nat j)"
    using b j(2) u w a by (simp add: base_scancode_def nth_res_def asc)
  from event [OF this sm] j(1,3) show "\<exists>j < 80. m (normal_table k + of_nat j) = ucast keysym0 \<and>
      (\<exists>r. keyevent_convert k m state keycode keyup = Inr r \<and> event_of k m state keyup (of_nat j) r)" by blast
next
  note event = keyevent_event [OF kc s0 s1, where state = state, folded keysym_def]
  assume a: "\<not> is_ascii_key keysym \<and> \<not> (XK_F1 \<le> keysym \<and> keysym \<le> XK_F12) \<and> keysym \<notin> fst ` set special_keys"
  then have "map_of special_keys keysym = None" by (simp add: map_of_eq_None_iff)
  then have "base_scancode (ascii_to_scancode1 k) keysym0 keysym = Inr 0" using a by (auto simp: base_scancode_def)
  from event [OF this] show "\<exists>r. keyevent_convert k m state keycode keyup = Inr r \<and> event_of k m state keyup 0 r" by simp
qed

text \<open>A keyboard with one key, \<open>a\<close>, and decode tables at \<open>0x100\<close>, \<open>0x200\<close> and \<open>0x300\<close>.\<close>

definition one_key_mem :: mem where
  "one_key_mem = (\<lambda>_. 0)(0x11e := 0x61, 0x31e := 0x41)"

definition one_key_board :: keyboard where
  "one_key_board = \<lparr>keycode_to_keysym = [0x61, 0x41], keysyms_per_keycode = 2, num_lock_modifier_mask = 0x10,
     normal_table = 0x100, ctrl_table = 0x200, shift_table = 0x300,
     ascii_to_scancode1 = scancode_table one_key_mem 0x100\<rparr>"

theorem keyevent_decodes_witness:
  "\<exists>sc. keyevent_convert one_key_board one_key_mem ShiftMask 8 False = Inr (0x41, sc) \<and> sc AND 0x7f = 0x1e"
proof -
  have u: "j = 0x1e" if "j < 80" "one_key_mem (0x100 + of_nat j) = 0x61" for j
  proof -
    have "(0x100 + of_nat j :: u64) = of_nat (0x100 + j)" by simp
    also have "\<dots> = 0x11e \<longleftrightarrow> 0x100 + j = 0x11e"
      using that(1) by (simp add: word_unat_eq_iff unat_of_nat del: of_nat_add)
    finally have "(0x100 + of_nat j :: u64) = 0x11e \<longleftrightarrow> j = 0x1e" by simp
    with that(2) show ?thesis by (auto simp: one_key_mem_def split: if_splits)
  qed
  have asc: "ascii_to_scancode1 one_key_board = scancode_table one_key_mem (normal_table one_key_board)"
    by (simp add: one_key_board_def)
  have ch: "is_ascii_key (chosen_keysym (num_lock_modifier_mask one_key_board) ShiftMask 0x61 0x41)"
    by (simp add: one_key_board_def is_ascii_key_def chosen_keysym_def is_keypad_def mask_defs)
  have "\<exists>j < 80. one_key_mem (normal_table one_key_board + of_nat j) = ucast (0x61 :: u64) \<and>
      (\<exists>r. keyevent_convert one_key_board one_key_mem ShiftMask 8 False = Inr r \<and>
        event_of one_key_board one_key_mem ShiftMask False (of_nat j) r)"
    by (rule keyevent_decodes [THEN conjunct1, rule_format, OF _ _ _ _ asc _ _ _ ch, where i = "0x1e"])
       (simp_all add: X11_KEYCODE_LOW_def X11_KEYCODE_HIGH_def one_key_board_def nth_res_def is_ascii_key_def one_key_mem_def)
  then obtain j r where j: "j < 80" "one_key_mem (0x100 + of_nat j) = 0x61"
    "keyevent_convert one_key_board one_key_mem ShiftMask 8 False = Inr r"
    "event_of one_key_board one_key_mem ShiftMask False (of_nat j) r"
    by (auto simp: one_key_board_def)
  from u [OF j(1,2)] j(3,4) show ?thesis
    by (auto simp: event_of_def one_key_board_def one_key_mem_def mask_defs)
qed

text \<open>The function keys F11 and F12 get the scancodes of Num Lock and Scroll Lock, not the
  scancodes \<open>SC_F11\<close> and \<open>SC_F12\<close> of the kernel, because the scancodes of the function keys
  are not consecutive after F10.\<close>
theorem function_keys_collide:
  "base_scancode asc keysym0 (XK_F1 + 10) = base_scancode asc keysym0 XK_Num_Lock \<and>
   base_scancode asc keysym0 (XK_F1 + 11) = base_scancode asc keysym0 XK_Scroll_Lock \<and>
   base_scancode asc keysym0 (XK_F1 + 10) \<noteq> Inr SC_F11 \<and> base_scancode asc keysym0 (XK_F1 + 11) \<noteq> Inr SC_F12"
  by (simp add: base_scancode_def is_ascii_key_def xk_defs sc_defs special_keys_def)

text \<open>When the modifier map has an unused entry (keycode 0) before the Num Lock key, the
  search for Num Lock reads before the start of the keyboard mapping.\<close>
theorem num_lock_unused_entry:
  assumes "0 < max_keypermod" "length modifiermap = 8 * max_keypermod" "modifiermap ! 0 = 0"
    and "0 <s keysyms_per_keycode k"
  shows "find_num_lock_modifier modifiermap max_keypermod k = Inl OutOfBounds"
proof -
  have "0 < sint (keysyms_per_keycode k)" using assms(4) by (simp add: word_sless_alt)
  moreover obtain rest where "List.product [0..<8] [0..<max_keypermod] = (0, 0) # rest"
    using assms(1) by (simp add: upt_conv_Cons)
  ultimately show ?thesis
    using assms(1-3) by (simp add: find_num_lock_modifier_def nth_res_def)
qed

theorem num_lock_unused_entry_witness:
  "find_num_lock_modifier (replicate 32 0) 4 one_key_board = Inl OutOfBounds"
  by (rule num_lock_unused_entry) (simp_all add: one_key_board_def word_sless_alt)

end
