(* ===== verification/Trace.thy ===== *)
theory Trace
  imports Task
begin

text \<open>
  Stack traces and signals: \<open>ghidra_off\<close>, \<open>symbolicate_frame\<close>, \<open>print_stack_trace\<close>,
  \<open>print_stack_trace_here\<close> and \<open>templeos_var64_ptr\<close> of \<open>lilith/templeos_hash_table.c\<close> and
  \<open>signal_handler\<close> of \<open>lilith/utils.c\<close>. What is printed is a list of lines with the
  values the format strings show.
\<close>

unbundle bit_operations_syntax

section \<open>Output\<close>

datatype trace_line =
    Args "u64 list"                              \<comment> \<open>\<open>l/a:\<close> and the words of the frame\<close>
  | Regs u64 u64 u64                             \<comment> \<open>\<open>rip= rbp= rsp=\<close>\<close>
  | KernelFrame cstring u64 u64 u64              \<comment> \<open>\<open>at name (val+off) ghidra=\<close>\<close>
  | TaskFrame cstring cstring u64 u64 u64 u64    \<comment> \<open>\<open>at module!name (val+off) module_base= ghidra=\<close>\<close>
  | PanicMessage "cstring option"                \<comment> \<open>\<open>Panic Message = [..]\<close>\<close>
  | TaskReceived u64 cstring int u64             \<comment> \<open>\<open>Task %p/%s: Received signal %d at %lx\<close>\<close>
  | LastFrame u64                                \<comment> \<open>\<open>Tracing from last saved frame\<close>\<close>
  | Registers "u64 list"
  | UfEntry u64                                  \<comment> \<open>\<open>Uf entry point %p\<close>\<close>

section \<open>Naming an address\<close>

definition ghidra_off :: "u64 \<Rightarrow> u64 \<Rightarrow> u64" where
  "ghidra_off rip module_base = (if module_base = 0 then 0 else rip - module_base + 0x10000020)"

text \<open>The best function (name and address) and the best module found so far.\<close>

record best_syms =
  bestfn :: "(cstring \<times> u64) option"
  bestmod :: "u64 option"

definition better_fn :: "u64 \<Rightarrow> cstring \<Rightarrow> u64 \<Rightarrow> best_syms \<Rightarrow> best_syms" where
  "better_fn rip name val b =
     (if val > rip then b
      else case bestfn b of
        None \<Rightarrow> b\<lparr>bestfn := Some (name, val)\<rparr>
      | Some (_, bestval) \<Rightarrow>
          if rip - val < rip - bestval then b\<lparr>bestfn := Some (name, val)\<rparr> else b)"

definition better_mod :: "u64 \<Rightarrow> hstore \<Rightarrow> u64 \<Rightarrow> best_syms \<Rightarrow> best_syms" where
  "better_mod rip objs e b =
     (if mod_data0 (objs e) > rip then b
      else case bestmod b of
        None \<Rightarrow> b\<lparr>bestmod := Some e\<rparr>
      | Some m \<Rightarrow>
          if rip - mod_data0 (objs e) < rip - mod_data0 (objs m) then b\<lparr>bestmod := Some e\<rparr> else b)"

definition symbolicate_step :: "u64 \<Rightarrow> hstore \<Rightarrow> best_syms \<Rightarrow> u64 \<Rightarrow> best_syms" where
  "symbolicate_step rip objs b e =
     (let he = objs e in
      if is_hash_type he (HTT_EXPORT_SYS_SYM OR HTF_IMM) then better_fn rip (he_str he) (ex_val he) b
      else if is_hash_type he HTT_FUN then better_fn rip (he_str he) (fn_exe_addr he) b
      else if is_hash_type he (HTT_MODULE OR HTF_PUBLIC) then better_mod rip objs e b
      else b)"

text \<open>The symbol of the task's tables; the loop has no early exit.\<close>

definition task_symbols :: "u64 \<Rightarrow> u64 \<Rightarrow> machine \<Rightarrow> best_syms res" where
  "task_symbols task rip s =
     res_bind (thiter_for
         (\<lambda>b it. case it_he it of [] \<Rightarrow> Inr b | e # _ \<Rightarrow> Inr (symbolicate_step rip (hobjs s) b e))
         \<lparr>bestfn = None, bestmod = None\<rparr> (thiter_new (task_tables s task)))
       (\<lambda>r. Inr (case r of Inl b \<Rightarrow> b | Inr b \<Rightarrow> b))"

definition task_frame :: "u64 \<Rightarrow> best_syms \<Rightarrow> machine \<Rightarrow> trace_line list" where
  "task_frame rip b s =
     (let module_base = (case bestmod b of None \<Rightarrow> 0 | Some m \<Rightarrow> mod_data0 (hobjs s m) + 0x20);
          module_name = (case bestmod b of None \<Rightarrow> ''unknown'' | Some m \<Rightarrow> he_str (hobjs s m))
      in case bestfn b of
           None \<Rightarrow> []
         | Some (name, val) \<Rightarrow>
             [TaskFrame module_name name val (rip - val) module_base (ghidra_off rip module_base)])"

definition symbolicate_frame :: "u64 \<Rightarrow> u64 \<Rightarrow> machine \<Rightarrow> (trace_line list \<times> bool) res" where
  "symbolicate_frame task rip s =
     (let e = hash_find_closest_entry_before (\<lambda>p. ex_value (exports s ! p)) (symbols s) rip;
          from_task = (if task = 0 then Inr ([], False)
            else res_bind (task_symbols task rip s) (\<lambda>b. Inr (task_frame rip b s, False)))
      in case e of
           Some (key, p) \<Rightarrow>
             if key \<noteq> ''SYS_KERNEL_END'' then
               let val = ex_value (exports s ! p)
               in Inr ([KernelFrame key val (rip - val) (ghidra_off rip (ex_module_base (exports s ! p)))],
                       key = ''Panic'')
             else from_task
         | None \<Rightarrow> from_task)"

definition templeos_var64_ptr :: "u64 \<Rightarrow> cstring \<Rightarrow> machine \<Rightarrow> u64 res" where
  "templeos_var64_ptr task name s =
     res_bind (thiter_for
         (\<lambda>u it. case it_he it of
             [] \<Rightarrow> Inr u
           | e # _ \<Rightarrow>
               let he = hobjs s e in
               if \<not> is_hash_type he (HTF_PUBLIC OR HTT_GLBL_VAR) then Inr u
               else if he_str he \<noteq> name then Inr u
               else Inl (gv_data_addr he))
         () (thiter_new (task_tables s task)))
       (\<lambda>r. Inr (case r of Inl a \<Rightarrow> a | Inr _ \<Rightarrow> 0))"

section \<open>Walking the stack\<close>

text \<open>
  Which addresses can be read is up to the system: \<open>mapped\<close> says it of each byte. A word that is not mapped, or that
  goes past the end of the address space, can not be read.
\<close>

definition readable :: "(u64 \<Rightarrow> bool) \<Rightarrow> u64 \<Rightarrow> nat \<Rightarrow> bool" where
  "readable mapped a n \<longleftrightarrow> unat a + n < 2 ^ 64 \<and> list_all (\<lambda>i. mapped (a + of_nat i)) [0..<n]"

definition ld_word :: "(u64 \<Rightarrow> bool) \<Rightarrow> mem \<Rightarrow> u64 \<Rightarrow> u64 res" where
  "ld_word mapped m a = (if readable mapped a 8 then Inr (ld64 m a) else Inl OutOfBounds)"

text \<open>The words from \<open>rsp\<close> up to \<open>rbp\<close>.\<close>

function frame_words :: "(u64 \<Rightarrow> bool) \<Rightarrow> mem \<Rightarrow> u64 \<Rightarrow> u64 \<Rightarrow> u64 list res" where
  "frame_words mapped m addr rbp =
     (if addr < rbp then
        if \<not> readable mapped addr 8 then Inl OutOfBounds
        else res_bind (frame_words mapped m (addr + 8) rbp) (\<lambda>ws. Inr (ld64 m addr # ws))
      else Inr [])"
  by pat_completeness auto

lemma readable_next: "readable mapped a 8 \<Longrightarrow> unat (a + 8) = unat a + 8"
  by (subst unat_plus64) (simp_all add: readable_def)

termination frame_words
  by (relation "measure (\<lambda>(mapped, m, addr, rbp). unat rbp - unat addr)")
    (simp_all add: word_less_nat_alt readable_next diff_less_mono2)

declare frame_words.simps [simp del]

definition frame_args :: "(u64 \<Rightarrow> bool) \<Rightarrow> mem \<Rightarrow> u64 \<Rightarrow> u64 \<Rightarrow> trace_line list res" where
  "frame_args mapped m rbp rsp =
     (if rsp \<noteq> 0 \<and> rbp > rsp \<and> rbp - rsp < 0x800
      then res_bind (frame_words mapped m rsp rbp) (\<lambda>ws. Inr [Args ws]) else Inr [])"

text \<open>The argument of \<open>Panic\<close>, a string; for a NULL \<open>fprintf\<close> prints \<open>(null)\<close>.\<close>

definition panic_line :: "(u64 \<Rightarrow> bool) \<Rightarrow> mem \<Rightarrow> u64 \<Rightarrow> trace_line list res" where
  "panic_line mapped m rbp =
     res_bind (ld_word mapped m (rbp + 0x10)) (\<lambda>p.
       if p = 0 then Inr [PanicMessage None]
       else case cstr_at m p of
              None \<Rightarrow> Inl OutOfBounds
            | Some str \<Rightarrow>
                if readable mapped p (length str + 1) then Inr [PanicMessage (Some str)] else Inl OutOfBounds)"

text \<open>The loop of \<open>print_stack_trace\<close> from a value of \<open>count\<close> on: the lines and the final count.\<close>

function stack_trace_loop ::
  "(u64 \<Rightarrow> bool) \<Rightarrow> u64 \<Rightarrow> machine \<Rightarrow> nat \<Rightarrow> u64 \<Rightarrow> u64 \<Rightarrow> u64 \<Rightarrow> (trace_line list \<times> nat) res" where
  "stack_trace_loop mapped task s count rip rbp rsp =
     (if count < 20 \<and> rbp \<noteq> 0 then
        res_bind (frame_args mapped (mmem s) rbp rsp) (\<lambda>args.
        if \<not> is_templeos_memory (memmap s) rip then Inr (args @ [Regs rip rbp rsp], count + 1)
        else
          res_bind (symbolicate_frame task rip s) (\<lambda>(frame, ispanic).
          res_bind (if ispanic \<and> count = 0 then panic_line mapped (mmem s) rbp else Inr []) (\<lambda>panic.
          res_bind (ld_word mapped (mmem s) (rbp + 8)) (\<lambda>rip'.
          res_bind (ld_word mapped (mmem s) rbp) (\<lambda>rbp'.
          res_bind (stack_trace_loop mapped task s (count + 1) rip' rbp' (rbp + 0x10))
               (\<lambda>(rest, n). Inr (args @ [Regs rip rbp rsp] @ frame @ panic @ rest, n)))))))
      else Inr ([], count))"
  by pat_completeness auto
termination by (relation "measure (\<lambda>(mapped, task, s, count, rip, rbp, rsp). 20 - count)") auto

declare stack_trace_loop.simps [simp del]

definition print_stack_trace ::
  "(u64 \<Rightarrow> bool) \<Rightarrow> u64 \<Rightarrow> u64 \<Rightarrow> u64 \<Rightarrow> u64 \<Rightarrow> machine \<Rightarrow> (trace_line list \<times> nat) res" where
  "print_stack_trace mapped task rip rbp rsp s = stack_trace_loop mapped task s 0 rip rbp rsp"

text \<open>
  \<open>print_stack_trace_here\<close>, called with frame pointer \<open>rbp\<close>. When the return address is not in
  TempleOS memory, \<open>t\<close> stays uninitialised: \<open>junk\<close> is what happens to be there.
\<close>

definition print_stack_trace_here ::
  "bool \<Rightarrow> (u64 \<Rightarrow> bool) \<Rightarrow> (u64 \<Rightarrow> bool) \<Rightarrow> tthread \<Rightarrow> u64 \<Rightarrow> tstate \<Rightarrow> (trace_line list \<times> tstate) res" where
  "print_stack_trace_here checks prctl_ok mapped junk rbp s =
     (let rip = ld64 (tmem s) (rbp + 8); itm = is_templeos_memory (memmap (mach s)) rip
      in res_bind (if itm then exit_templeos checks prctl_ok s else Inr (junk, s)) (\<lambda>(t, s).
         res_bind (print_stack_trace mapped (t_Fs t) rip rbp 0 (mach s)) (\<lambda>(out, _).
         res_bind (if itm then enter_templeos checks prctl_ok t s else Inr s) (\<lambda>s. Inr (out, s)))))"

section \<open>Signals\<close>

text \<open>The registers the handler prints, in the order of the code.\<close>

record ucontext =
  uc_rip :: u64
  uc_rbp :: u64
  uc_rsp :: u64
  uc_gregs :: "u64 list"

definition in_task :: "mem \<Rightarrow> u64 \<Rightarrow> bool" where
  "in_task m Fs \<longleftrightarrow> ld32 m (Fs + fld CTask ''task_signature'') = 0x536b7354"

definition signal_report :: "(u64 \<Rightarrow> bool) \<Rightarrow> tthread \<Rightarrow> int \<Rightarrow> ucontext \<Rightarrow> machine \<Rightarrow> trace_line list res" where
  "signal_report mapped t sig uc s =
     (let m = mmem s; Fs = t_Fs t;
          task_name = (if in_task m Fs then cstr_at m (Fs + fld CTask ''task_name'') else Some ''???'');
          head = TaskReceived Fs (case task_name of None \<Rightarrow> [] | Some n \<Rightarrow> n) sig (uc_rip uc);
          rip = ld64 m (Fs + fld CTask ''rip''); rbp = ld64 m (Fs + fld CTask ''rbp'');
          rsp = ld64 m (Fs + fld CTask ''rsp'')
      in res_bind (print_stack_trace mapped Fs (uc_rip uc) (uc_rbp uc) (uc_rsp uc) s) (\<lambda>(out, n).
         res_bind (if n = 1
                   then res_bind (print_stack_trace mapped Fs rip rbp rsp s) (\<lambda>(out, _). Inr (LastFrame rip # out))
                   else Inr []) (\<lambda>saved.
         res_bind (find_entry_point t ''Uf'' s) (\<lambda>uf.
         Inr ([head] @ out @ saved @ [Registers (uc_gregs uc), UfEntry uf])))))"

text \<open>
  \<open>signal_handler\<close> never returns: the result is the report (\<open>None\<close> when there is none, or it
  faults itself) and how the thread or the process ends.
\<close>

definition signal_handler ::
  "bool \<Rightarrow> (u64 \<Rightarrow> bool) \<Rightarrow> (u64 \<Rightarrow> bool) \<Rightarrow> u64 \<Rightarrow> int \<Rightarrow> ucontext \<Rightarrow> tstate \<Rightarrow> trace_line list option \<times> cerror" where
  "signal_handler checks prctl_ok mapped adam_task sig uc s =
     (case exit_templeos checks prctl_ok s of
        Inl e \<Rightarrow> (None, e)
      | Inr (t, s) \<Rightarrow>
          (case signal_report mapped t sig uc (mach s) of
             Inl e \<Rightarrow> (None, e)
           | Inr out \<Rightarrow>
               (Some out,
                if in_task (tmem s) (t_Fs t) \<and> t_Fs t \<noteq> adam_task then ThreadExit else ExitWith EXIT_FAILURE)))"

section \<open>The closest symbol\<close>

text \<open>Functions and modules among the entries of the tables, in the order of the walk.\<close>

definition fn_entries :: "hstore \<Rightarrow> u64 list \<Rightarrow> u64 hentry list" where
  "fn_entries objs es = map (\<lambda>e. (he_str (objs e), late_addr (objs e))) (filter (\<lambda>e. late_target (objs e)) es)"

definition mod_entries :: "hstore \<Rightarrow> u64 list \<Rightarrow> u64 hentry list" where
  "mod_entries objs es = map (\<lambda>e. (he_str (objs e), e))
     (filter (\<lambda>e. \<not> late_target (objs e) \<and> is_hash_type (objs e) (HTT_MODULE OR HTF_PUBLIC)) es)"

lemma symbolicate_step_eq:
  "bestfn (symbolicate_step rip objs b e) =
     (if late_target (objs e) then closest_step id rip (he_str (objs e), late_addr (objs e)) (bestfn b)
      else bestfn b)"
  "bestmod (symbolicate_step rip objs b e) =
     (if \<not> late_target (objs e) \<and> is_hash_type (objs e) (HTT_MODULE OR HTF_PUBLIC)
      then (if mod_data0 (objs e) > rip then bestmod b
            else case bestmod b of None \<Rightarrow> Some e
              | Some m \<Rightarrow> if rip - mod_data0 (objs e) < rip - mod_data0 (objs m) then Some e else bestmod b)
      else bestmod b)"
  by (auto simp: symbolicate_step_def Let_def better_fn_def better_mod_def closest_step_def
      late_target_def late_addr_def split: option.splits)

lemma fold_symbolicate:
  "bestfn (fold (\<lambda>e b. symbolicate_step rip objs b e) es b) = fold (closest_step id rip) (fn_entries objs es) (bestfn b)"
  by (induction es arbitrary: b) (simp_all add: fn_entries_def symbolicate_step_eq)

lemma fold_symbolicate_mod:
  assumes "bestmod b = map_option snd best" "\<forall>m. best = Some m \<longrightarrow> fst m = he_str (objs (snd m))"
  shows "bestmod (fold (\<lambda>e b. symbolicate_step rip objs b e) es b) =
    map_option snd (fold (closest_step (\<lambda>e. mod_data0 (objs e)) rip) (mod_entries objs es) best)"
  using assms
proof (induction es arbitrary: b best)
  case Nil
  then show ?case by (simp add: mod_entries_def)
next
  case (Cons e es)
  show ?case
  proof (cases "\<not> late_target (objs e) \<and> is_hash_type (objs e) (HTT_MODULE OR HTF_PUBLIC)")
    case False
    then have "bestmod (symbolicate_step rip objs b e) = map_option snd best"
      using Cons.prems(1) False unfolding symbolicate_step_eq by argo
    moreover have "mod_entries objs (e # es) = mod_entries objs es" using False by (simp add: mod_entries_def)
    ultimately show ?thesis using Cons.IH Cons.prems(2) by simp
  next
    case True
    let ?best = "closest_step (\<lambda>e. mod_data0 (objs e)) rip (he_str (objs e), e) best"
    have "bestmod (symbolicate_step rip objs b e) = map_option snd ?best"
      using True Cons.prems(1)
      by (auto simp: symbolicate_step_eq closest_step_def Let_def split: option.splits)
    moreover have "\<forall>m. ?best = Some m \<longrightarrow> fst m = he_str (objs (snd m))"
      using Cons.prems(2) by (auto simp: closest_step_def Let_def split: option.splits if_splits)
    moreover have "mod_entries objs (e # es) = (he_str (objs e), e) # mod_entries objs es"
      using True by (simp add: mod_entries_def)
    ultimately show ?thesis using Cons.IH by simp
  qed
qed

lemma task_symbols_eq:
  assumes "\<forall>h \<in> set (task_tables s task). table_ok h"
  defines "es \<equiv> table_elems (task_tables s task)"
  shows "\<exists>b. task_symbols task rip s = Inr b \<and>
    bestfn b = fold (closest_step id rip) (fn_entries (hobjs s) es) None \<and>
    bestmod b = map_option snd (fold (closest_step (\<lambda>e. mod_data0 (hobjs s e)) rip) (mod_entries (hobjs s) es) None)"
proof -
  let ?b0 = "\<lparr>bestfn = None, bestmod = None\<rparr>"
  have "thiter_for (\<lambda>b it. case it_he it of [] \<Rightarrow> Inr b | e # _ \<Rightarrow> Inr (symbolicate_step rip (hobjs s) b e))
      ?b0 (thiter_new (task_tables s task)) =
      Inr (fold_exit (\<lambda>b e. Inr (symbolicate_step rip (hobjs s) b e)) ?b0 es :: best_syms + best_syms)"
    unfolding es_def by (rule thiter_for_new [OF assms(1)]) (simp split: list.splits)
  then have "task_symbols task rip s = Inr (fold (\<lambda>e b. symbolicate_step rip (hobjs s) b e) es ?b0)"
    by (simp add: task_symbols_def fold_exit_fold)
  then show ?thesis
    by (simp add: fold_symbolicate fold_symbolicate_mod [where best = None])
qed

lemma symbolicate_total:
  assumes "\<forall>h \<in> set (task_tables s task). table_ok h"
  shows "\<exists>out p. symbolicate_frame task rip s = Inr (out, p)"
  using task_symbols_eq [OF assms, of rip]
  by (auto simp: symbolicate_frame_def Let_def split: option.splits)

section \<open>Properties\<close>

text \<open>C18: an address below every symbol of the kernel (or in the kernel's last symbol, whose end
  is not known) is named by the task's symbol tables: of the functions that do not start after
  it the one that starts last, and likewise for the module; the offset shown is from there.\<close>
theorem symbolicate_closest:
  assumes tabs: "\<forall>h \<in> set (task_tables s task). table_ok h" and task: "task \<noteq> 0"
    and k: "case hash_find_closest_entry_before (\<lambda>p. ex_value (exports s ! p)) (symbols s) rip of
      None \<Rightarrow> True | Some (key, _) \<Rightarrow> key = ''SYS_KERNEL_END''"
  defines "es \<equiv> table_elems (task_tables s task)"
  shows "\<exists>fn md. is_closest id rip (fn_entries (hobjs s) es) fn \<and>
    is_closest (\<lambda>e. mod_data0 (hobjs s e)) rip (mod_entries (hobjs s) es) md \<and>
    symbolicate_frame task rip s = Inr (case fn of
        None \<Rightarrow> []
      | Some (name, val) \<Rightarrow>
          let base = (case md of None \<Rightarrow> 0 | Some m \<Rightarrow> mod_data0 (hobjs s (snd m)) + 0x20)
          in [TaskFrame (case md of None \<Rightarrow> ''unknown'' | Some m \<Rightarrow> he_str (hobjs s (snd m))) name val (rip - val) base
               (if base = 0 then 0 else rip - base + 0x10000020)], False)"
proof -
  let ?fn = "fold (closest_step id rip) (fn_entries (hobjs s) es) None"
  let ?md = "fold (closest_step (\<lambda>e. mod_data0 (hobjs s e)) rip) (mod_entries (hobjs s) es) None"
  obtain b where b: "task_symbols task rip s = Inr b" "bestfn b = ?fn" "bestmod b = map_option snd ?md"
    using task_symbols_eq [OF tabs] by (auto simp: es_def)
  have "symbolicate_frame task rip s = Inr (task_frame rip b s, False)"
    using k task b(1) by (auto simp: symbolicate_frame_def Let_def split: option.splits)
  then show ?thesis
    by (intro exI [of _ ?fn] exI [of _ ?md] conjI fold_closest)
       (cases ?md; simp add: task_frame_def b Let_def ghidra_off_def split: option.splits prod.splits)
qed

theorem symbolicate_closest_witness:
  "symbolicate_frame 1 0x7010 late_machine =
     Inr ([TaskFrame ''unknown'' ''KbdMsHndlr'' 0x7000 0x10 0 0], False)"
proof -
  let ?es = "table_elems (task_tables late_machine 1)"
  have tabs: "\<forall>h \<in> set (task_tables late_machine 1). table_ok h"
    by (simp add: late_machine_def table_ok_def)
  have f: "fn_entries (hobjs late_machine) ?es = [(''KbdMsHndlr'', 0x7000)]" "mod_entries (hobjs late_machine) ?es = []"
    by (simp_all add: late_machine_def fn_entries_def mod_entries_def table_elems_def late_target_def late_addr_def
        is_hash_type_def htt_defs)
  have sy: "symbols late_machine = hash_init 4096"
    by (simp add: late_machine_def bare_machine_def hello_machine_def)
  have "hash_entries (hash_init 4096 :: nat hash_t) = []"
    by (simp add: hash_entries_def hash_init_def)
  then have "hash_find_closest_entry_before v (symbols late_machine) 0x7010 = None" for v
    using closest_eq [OF hash_inv_init, of 4096 v "0x7010"] by (simp add: sy)
  then obtain fn md where *: "is_closest id 0x7010 [(''KbdMsHndlr'', 0x7000 :: u64)] fn"
    "is_closest (\<lambda>e. mod_data0 (hobjs late_machine e)) 0x7010 [] md"
    "symbolicate_frame 1 0x7010 late_machine = Inr (case fn of
        None \<Rightarrow> []
      | Some (name, val) \<Rightarrow>
          let base = (case md of None \<Rightarrow> 0 | Some m \<Rightarrow> mod_data0 (hobjs late_machine (snd m)) + 0x20)
          in [TaskFrame (case md of None \<Rightarrow> ''unknown'' | Some m \<Rightarrow> he_str (hobjs late_machine (snd m))) name val
                (0x7010 - val) base (if base = 0 then 0 else 0x7010 - base + 0x10000020)], False)"
    using symbolicate_closest [OF tabs, of "0x7010"] by (auto simp: f)
  have "md = None" "fn = Some (''KbdMsHndlr'', 0x7000)"
    using *(1,2) by (auto simp: is_closest_def split: option.splits)
  with *(3) show ?thesis by simp
qed

section \<open>The frames of a trace\<close>

text \<open>The frames on the stack: the innermost one, then the one whose frame pointer and return address it saves, and so on
  to the first that has no frame pointer or does not return to TempleOS code, but not more than \<open>n\<close>.\<close>

fun frame_chain :: "machine \<Rightarrow> nat \<Rightarrow> u64 \<Rightarrow> u64 \<Rightarrow> u64 \<Rightarrow> (u64 \<times> u64 \<times> u64) list" where
  "frame_chain s 0 rip rbp rsp = []"
| "frame_chain s (Suc n) rip rbp rsp =
     (if rbp = 0 then []
      else (rip, rbp, rsp) #
        (if is_templeos_memory (memmap s) rip
         then frame_chain s n (ld64 (mmem s) (rbp + 8)) (ld64 (mmem s) rbp) (rbp + 0x10) else []))"

text \<open>What must be mapped for a frame to be printed and for the next one to be found.\<close>

definition frame_readable :: "(u64 \<Rightarrow> bool) \<Rightarrow> machine \<Rightarrow> u64 \<times> u64 \<times> u64 \<Rightarrow> bool" where
  "frame_readable mapped s f = (case f of (rip, rbp, rsp) \<Rightarrow>
     (rsp \<noteq> 0 \<and> rbp > rsp \<and> rbp - rsp < 0x800 \<longrightarrow>
        (\<forall>k. unat rsp + 8 * k < unat rbp \<longrightarrow> readable mapped (rsp + of_nat (8 * k)) 8)) \<and>
     (is_templeos_memory (memmap s) rip \<longrightarrow> readable mapped rbp 8 \<and> readable mapped (rbp + 8) 8))"

definition in_Panic :: "machine \<Rightarrow> u64 \<Rightarrow> bool" where
  "in_Panic s rip \<longleftrightarrow> is_templeos_memory (memmap s) rip \<and>
     (\<exists>p. hash_find_closest_entry_before (\<lambda>p. ex_value (exports s ! p)) (symbols s) rip = Some (''Panic'', p))"

definition panic_readable :: "(u64 \<Rightarrow> bool) \<Rightarrow> mem \<Rightarrow> u64 \<Rightarrow> bool" where
  "panic_readable mapped m rbp \<longleftrightarrow> readable mapped (rbp + 0x10) 8 \<and>
     (let p = ld64 m (rbp + 0x10) in p = 0 \<or> (\<exists>str. cstr_at m p = Some str \<and> readable mapped p (length str + 1)))"

definition regs_of :: "trace_line \<Rightarrow> (u64 \<times> u64 \<times> u64) list" where
  "regs_of l = (case l of Regs rip rbp rsp \<Rightarrow> [(rip, rbp, rsp)] | _ \<Rightarrow> [])"

definition regs_lines :: "trace_line list \<Rightarrow> (u64 \<times> u64 \<times> u64) list" where
  "regs_lines out = concat (map regs_of out)"

lemma regs_lines_simps [simp]:
  "regs_lines [] = []" "regs_lines (l # ls) = regs_of l @ regs_lines ls" "regs_lines (ls @ ls') = regs_lines ls @ regs_lines ls'"
  "regs_of (Regs rip rbp rsp) = [(rip, rbp, rsp)]" "regs_of (Args ws) = []" "regs_of (PanicMessage p) = []"
  "regs_of (KernelFrame n a b c) = []" "regs_of (TaskFrame n n' a b c d) = []"
  by (simp_all add: regs_lines_def regs_of_def)

lemma frame_words_readable:
  "if \<forall>k. unat addr + 8 * k < unat rbp \<longrightarrow> readable mapped (addr + of_nat (8 * k)) 8
   then \<exists>ws. frame_words mapped m addr rbp = Inr ws else frame_words mapped m addr rbp = Inl OutOfBounds"
proof (induction mapped m addr rbp rule: frame_words.induct)
  case (1 mapped m addr rbp)
  let ?P = "\<lambda>addr k. unat addr + 8 * k < unat rbp \<longrightarrow> readable mapped (addr + of_nat (8 * k)) 8"
  note w = frame_words.simps [of mapped m addr rbp]
  show ?case
  proof (cases "addr < rbp")
    case False
    then show ?thesis by (simp add: w word_less_nat_alt)
  next
    case True
    show ?thesis
    proof (cases "readable mapped addr 8")
      case False
      then have "\<not> ?P addr 0" using True by (simp add: word_less_nat_alt)
      then have "\<not> (\<forall>k. ?P addr k)" by blast
      then show ?thesis using w True False by simp
    next
      case r: True
      have "?P (addr + 8) k = ?P addr (Suc k)" for k
        using readable_next [OF r] by (simp add: ac_simps)
      moreover have "?P addr 0" using r by simp
      ultimately have "(\<forall>k. ?P addr k) = (\<forall>k. ?P (addr + 8) k)" by (metis not0_implies_Suc)
      then show ?thesis using 1 [OF True] r True w by auto
    qed
  qed
qed

lemma frame_args_readable:
  "if rsp \<noteq> 0 \<and> rbp > rsp \<and> rbp - rsp < 0x800 \<longrightarrow>
     (\<forall>k. unat rsp + 8 * k < unat rbp \<longrightarrow> readable mapped (rsp + of_nat (8 * k)) 8)
   then \<exists>args. frame_args mapped m rbp rsp = Inr args \<and> regs_lines args = []
   else frame_args mapped m rbp rsp = Inl OutOfBounds"
  using frame_words_readable [of rsp rbp mapped m] by (auto simp: frame_args_def split: if_splits)

lemma panic_line_readable:
  "if panic_readable mapped m rbp then \<exists>l. panic_line mapped m rbp = Inr l \<and> regs_lines l = []
   else panic_line mapped m rbp = Inl OutOfBounds"
  by (auto simp: panic_readable_def panic_line_def ld_word_def Let_def split: option.splits)

lemma symbolicate_frame_panic:
  assumes "\<forall>h \<in> set (task_tables s task). table_ok h" "is_templeos_memory (memmap s) rip"
  obtains out where "symbolicate_frame task rip s = Inr (out, in_Panic s rip)" "regs_lines out = []"
proof -
  obtain b where b: "task_symbols task rip s = Inr b" using task_symbols_eq [OF assms(1)] by blast
  have "\<exists>out. symbolicate_frame task rip s = Inr (out, in_Panic s rip) \<and> regs_lines out = []"
    using assms(2) b
    by (auto simp: symbolicate_frame_def in_Panic_def Let_def task_frame_def split: option.splits prod.splits)
  then show ?thesis using that by blast
qed

lemma stack_trace_loop_frames:
  assumes tabs: "\<forall>h \<in> set (task_tables s task). table_ok h"
  shows "count + n = 20 \<Longrightarrow>
    if list_all (frame_readable mapped s) (frame_chain s n rip rbp rsp) \<and>
       (count = 0 \<and> rbp \<noteq> 0 \<and> in_Panic s rip \<longrightarrow> panic_readable mapped (mmem s) rbp)
    then \<exists>out. stack_trace_loop mapped task s count rip rbp rsp = Inr (out, count + length (frame_chain s n rip rbp rsp)) \<and>
      regs_lines out = frame_chain s n rip rbp rsp
    else stack_trace_loop mapped task s count rip rbp rsp = Inl OutOfBounds"
proof (induction n arbitrary: count rip rbp rsp)
  case 0
  then have "count = 20" by simp
  then show ?case by (intro if_bool_eq_conj [THEN iffD2]) (simp add: stack_trace_loop.simps [of mapped task s 20])
next
  case (Suc n)
  note loop = stack_trace_loop.simps [of mapped task s count rip rbp rsp]
  show ?case
  proof (cases "rbp = 0")
    case True
    then have "stack_trace_loop mapped task s count rip rbp rsp = Inr ([], count)" unfolding loop by simp
    then show ?thesis by (intro if_bool_eq_conj [THEN iffD2]) (simp add: True)
  next
    case False
    then have go: "count < 20 \<and> rbp \<noteq> 0" using Suc.prems by simp
    note args = frame_args_readable [of rsp rbp mapped "mmem s"]
    show ?thesis
    proof (cases "is_templeos_memory (memmap s) rip")
      case False
      then show ?thesis
        using args go by (auto simp: loop frame_readable_def in_Panic_def split: if_splits)
    next
      case True
      obtain f where f: "symbolicate_frame task rip s = Inr (f, in_Panic s rip)" "regs_lines f = []"
        by (rule symbolicate_frame_panic [OF tabs True])
      have "count + 1 + n = 20" using Suc.prems by simp
      note rest = Suc.IH [OF this, of "ld64 (mmem s) (rbp + 8)" "ld64 (mmem s) rbp" "rbp + 0x10"]
      show ?thesis
        using args panic_line_readable [of mapped "mmem s" rbp] rest True go f
        by (simp add: loop frame_readable_def ld_word_def) (auto split: if_splits)
    qed
  qed
qed

text \<open>C37: over well-formed symbol tables a stack trace that starts at a frame (\<open>rbp\<close> is not 0) prints the registers of the frames on the stack, from the innermost
  one outwards, at least one and at most the first twenty of them, also when the stack is damaged and its frames form a
  cycle, and it returns their number. It faults exactly when something it looks at is not mapped: a word between \<open>rsp\<close> and
  \<open>rbp\<close> of one of these frames, the two words a frame of TempleOS code has at \<open>rbp\<close>, or, when the innermost
  function is \<open>Panic\<close>, its argument.\<close>
theorem stack_trace_frames:
  fixes rip rbp rsp :: u64
  assumes "\<forall>h \<in> set (task_tables s task). table_ok h" "rbp \<noteq> 0"
  defines "fs \<equiv> frame_chain s 20 rip rbp rsp"
  shows "1 \<le> length fs \<and> length fs \<le> 20 \<and>
    (if list_all (frame_readable mapped s) fs \<and> (in_Panic s rip \<longrightarrow> panic_readable mapped (mmem s) rbp)
     then \<exists>out. print_stack_trace mapped task rip rbp rsp s = Inr (out, length fs) \<and> regs_lines out = fs
     else print_stack_trace mapped task rip rbp rsp s = Inl OutOfBounds)"
proof -
  have "length (frame_chain s n rip rbp rsp) \<le> n" for n rip rbp rsp
    by (induction n arbitrary: rip rbp rsp) simp_all
  moreover have "(20 :: nat) = Suc 19" by simp
  then have "fs \<noteq> []" using assms(2) by (simp only: fs_def frame_chain.simps(2)) simp
  ultimately have "1 \<le> length fs" "length fs \<le> 20" by (simp_all add: fs_def Suc_le_eq)
  then show ?thesis
    using stack_trace_loop_frames [OF assms(1), of 0 20 mapped rip rbp rsp] assms(2)
    by (auto simp: print_stack_trace_def fs_def split: if_splits)
qed

text \<open>A stack of two frames, at \<open>0x100\<close> and \<open>0x140\<close>; the outer one does not return to TempleOS code.\<close>

definition two_frames :: machine where
  "two_frames = late_machine\<lparr>mmem := st64 (st64 (\<lambda>_. 0) 0x100 0x140) 0x108 0x9000,
     memmap := \<lparr>mm_alloc = True,
       mm_v = [\<lparr>me_mem = 0x7000, me_sz = 0x100, me_used = True, me_mmapped = True\<rparr>], mm_cap = 20\<rparr>\<rparr>"

theorem stack_trace_frames_witness:
  "\<exists>out. print_stack_trace (\<lambda>a. 0x100 \<le> a \<and> a < 0x200) 1 0x7010 0x100 0 two_frames = Inr (out, 2) \<and>
     regs_lines out = [(0x7010, 0x100, 0), (0x9000, 0x140, 0x110)]"
proof -
  let ?mapped = "\<lambda>a :: u64. 0x100 \<le> a \<and> a < 0x200"
  have tabs: "\<forall>h \<in> set (task_tables two_frames 1). table_ok h"
    by (simp add: two_frames_def late_machine_def table_ok_def)
  have "disjoint_regions 0x100 8 0x108 8" by (rule disjoint_regionsI) simp_all
  then have m: "ld64 (mmem two_frames) 0x100 = 0x140" "ld64 (mmem two_frames) 0x108 = 0x9000"
    by (simp_all add: two_frames_def ld64_st64 ld64_st64_other)
  have t: "is_templeos_memory (memmap two_frames) 0x7010" "\<not> is_templeos_memory (memmap two_frames) 0x9000"
    by (simp_all add: two_frames_def is_templeos_memory_iff entry_covers_def)
  have fs: "frame_chain two_frames 20 0x7010 0x100 0 = [(0x7010, 0x100, 0), (0x9000, 0x140, 0x110)]"
    using t m by (simp add: frame_chain.simps(2) [of two_frames 19, simplified] frame_chain.simps(2) [of two_frames 18, simplified])
  have r: "list_all (frame_readable ?mapped two_frames) [(0x7010, 0x100, 0), (0x9000, 0x140, 0x110)]"
  proof -
    have rd: "readable ?mapped a 8" if a: "0x100 \<le> unat a" "unat a + 8 \<le> 0x200" for a
    proof -
      have "0x100 \<le> a + of_nat i \<and> a + of_nat i < 0x200" if "i < 8" for i
      proof -
        have "unat (a + of_nat i) = unat a + i" using a that by (subst unat_plus64) (simp_all add: unat_of_nat)
        then show ?thesis using a that by (simp add: word_le_nat_alt word_less_nat_alt)
      qed
      then show ?thesis using a by (simp add: readable_def list_all_iff)
    qed
    have "unat (0x110 + of_nat (8 * k) :: u64) = 0x110 + 8 * k" if "0x110 + 8 * k < 0x140" for k :: nat
      using that by (subst unat_plus64) (simp_all only: unat_of_nat, simp_all)
    then show ?thesis using t by (auto simp: frame_readable_def intro!: rd)
  qed
  have p: "\<not> in_Panic two_frames 0x7010"
  proof -
    have sy: "symbols two_frames = hash_init 4096"
      by (simp add: two_frames_def late_machine_def bare_machine_def hello_machine_def)
    have "hash_entries (hash_init 4096 :: nat hash_t) = []" by (simp add: hash_entries_def hash_init_def)
    then have "hash_find_closest_entry_before v (symbols two_frames) a = None" for v a
      using closest_eq [OF hash_inv_init, of 4096 v a] by (simp add: sy)
    then show ?thesis by (simp add: in_Panic_def)
  qed
  have len: "length [(0x7010, 0x100, 0), (0x9000, 0x140, 0x110) :: u64 \<times> u64 \<times> u64] = 2" by simp
  have nz: "(0x100 :: u64) \<noteq> 0" by simp
  have c: "list_all (frame_readable ?mapped two_frames) [(0x7010, 0x100, 0), (0x9000, 0x140, 0x110)] \<and>
      (in_Panic two_frames 0x7010 \<longrightarrow> panic_readable ?mapped (mmem two_frames) 0x100)" using r p by blast
  show ?thesis
    using stack_trace_frames [OF tabs nz, of "0x7010" 0 ?mapped, unfolded fs if_P [OF c] len] by blast
qed

text \<open>\<open>templeos_var64_ptr\<close> returns the address of the first public global variable of that
  name in the task's symbol tables, and NULL when there is none.\<close>
theorem var64_ptr_first:
  assumes "\<forall>h \<in> set (task_tables s task). table_ok h"
  shows "templeos_var64_ptr task name s = Inr
    (case find (\<lambda>e. is_hash_type (hobjs s e) (HTF_PUBLIC OR HTT_GLBL_VAR) \<and> he_str (hobjs s e) = name)
            (table_elems (task_tables s task)) of
       None \<Rightarrow> 0 | Some e \<Rightarrow> gv_data_addr (hobjs s e))"
proof -
  let ?P = "\<lambda>e. is_hash_type (hobjs s e) (HTF_PUBLIC OR HTT_GLBL_VAR) \<and> he_str (hobjs s e) = name"
  let ?f = "\<lambda>u e. let he = hobjs s e in
      if \<not> is_hash_type he (HTF_PUBLIC OR HTT_GLBL_VAR) then Inr u
      else if he_str he \<noteq> name then Inr u else Inl (gv_data_addr he)"
  have "thiter_for (\<lambda>u it. case it_he it of [] \<Rightarrow> Inr u | e # _ \<Rightarrow> ?f u e) () (thiter_new (task_tables s task)) =
      Inr (fold_exit ?f () (table_elems (task_tables s task)))"
    by (rule thiter_for_new [OF assms]) (rule refl)
  moreover have "fold_exit ?f () xs = (case find ?P xs of None \<Rightarrow> Inr () | Some e \<Rightarrow> Inl (gv_data_addr (hobjs s e)))" for xs
    by (rule fold_exit_find_at) (auto simp: Let_def)
  ultimately show ?thesis by (simp add: templeos_var64_ptr_def split: option.splits)
qed

text \<open>A signal in a thread that runs TempleOS code ends only that thread when its \<open>CTask\<close>
  has the signature of a task and is not Adam, and otherwise the whole process with
  \<open>EXIT_FAILURE\<close>; the handler works on the thread that \<open>FS\<close> and \<open>GS\<close> designate.\<close>
theorem signal_ends_thread:
  assumes t: "in_temple prctl_ok t s" and r: "signal_report mapped t sig uc (mach s) = Inr out"
  shows "signal_handler checks prctl_ok mapped adam_task sig uc s =
    (Some out, if in_task (tmem s) (t_Fs t) \<and> t_Fs t \<noteq> adam_task then ThreadExit else ExitWith EXIT_FAILURE)"
  using r by (simp add: signal_handler_def exit_temple [OF t])

theorem var64_ptr_first_witness:
  "templeos_var64_ptr 1 ''gr'' (late_machine\<lparr>hobjs := (\<lambda>_. \<lparr>he_str = ''gr'', he_type = HTF_PUBLIC OR HTT_GLBL_VAR,
     ex_val = 0, fn_exe_addr = 0, mod_data0 = 0, gv_data_addr = 0x9000\<rparr>)\<rparr>) = Inr 0x9000"
  by (subst var64_ptr_first) (simp_all add: late_machine_def table_ok_def table_elems_def is_hash_type_def)

theorem signal_ends_thread_witness:
  "\<exists>out. signal_handler False (\<lambda>_. True) (\<lambda>_. True) 0x2000 11 \<lparr>uc_rip = 0x7010, uc_rbp = 0, uc_rsp = 0, uc_gregs = []\<rparr>
     (demo_state\<lparr>fs_base := 0x2000, gs_base := 0x1000\<rparr>) = (Some out, ExitWith EXIT_FAILURE)"
proof -
  let ?s = "demo_state\<lparr>fs_base := 0x2000, gs_base := 0x1000\<rparr>"
  let ?uc = "\<lparr>uc_rip = 0x7010, uc_rbp = 0, uc_rsp = 0, uc_gregs = []\<rparr>"
  have t: "in_temple (\<lambda>_. True) demo_thread ?s"
    using demo_in_host by (simp add: in_temple_def in_host_def demo_thread_def)
  have tabs: "\<forall>h \<in> set (task_tables (mach ?s) (t_Fs demo_thread)). table_ok h"
    by (simp add: demo_state_def late_machine_def table_ok_def)
  have i: "hash_inv (symbols (mach ?s))"
    by (simp add: demo_state_def late_machine_def bare_machine_def hello_machine_def hash_inv_init)
  obtain uf where "find_entry_point demo_thread ''Uf'' (mach ?s) = Inr uf"
    using find_entry_point_eq [OF _ tabs, of "''Uf''"] hash_get_ok [OF i, of "''Uf''"]
    by (auto simp: sym_get_def hash_key_ok_ascii)
  moreover have "print_stack_trace (\<lambda>_. True) task rip 0 rsp m = Inr ([], 0)" for task rip rsp m
    by (simp add: print_stack_trace_def stack_trace_loop.simps)
  ultimately obtain out where "signal_report (\<lambda>_. True) demo_thread 11 ?uc (mach ?s) = Inr out"
    by (simp add: signal_report_def Let_def)
  from signal_ends_thread [OF t this, of False "0x2000"] show ?thesis
    by (simp add: demo_thread_def)
qed

end
