(* ===== verification/Wildcard.thy ===== *)
theory Wildcard
  imports Utils "HOL-Library.Sublist"
begin

text \<open>
  File masks (\<open>wildmatch\<close> and \<open>filesfindmatch\<close> of \<open>lilith/syscalls.c\<close>). A \<open>char *\<close> into a string is
  the rest of the string from there on.
\<close>

unbundle bit_operations_syntax

section \<open>One pattern\<close>

text \<open>The inner loop: skip characters of the subject until \<open>ch2\<close>; \<open>None\<close> when there is none.\<close>

fun skip_to :: "char \<Rightarrow> char \<Rightarrow> cstring \<Rightarrow> cstring option" where
  "skip_to ch2 ch1 test_str =
     (if ch2 = ch1 then Some test_str
      else case test_str of [] \<Rightarrow> None | c # cs \<Rightarrow> skip_to ch2 c cs)"

lemma skip_to_length: "skip_to ch2 ch1 ts = Some ts' \<Longrightarrow> length ts' \<le> length ts"
  by (induction ch2 ch1 ts rule: skip_to.induct)
     (auto simp: skip_to.simps split: if_splits list.splits)

declare skip_to.simps [simp del]

text \<open>
  The main loop; \<open>fb\<close> holds \<open>fall_back_src\<close> and \<open>fall_back_wild\<close>. It terminates because a fall
  back starts one character later each time.
\<close>

function wildmatch_loop :: "cstring \<Rightarrow> cstring \<Rightarrow> (cstring \<times> cstring) option \<Rightarrow> bool" where
  "wildmatch_loop [] wild fb = (wild = [] \<or> hd wild = CHR ''*'')"
| "wildmatch_loop (ch1 # test_str) [] fb = False"
| "wildmatch_loop (ch1 # test_str) (ch2 # wild_str) fb =
     (if ch2 = CHR ''*'' then
        (case wild_str of
           [] \<Rightarrow> True
         | c # wild' \<Rightarrow>
             (case skip_to c ch1 test_str of
                None \<Rightarrow> False
              | Some test' \<Rightarrow> wildmatch_loop test' wild' (Some (test_str, ch2 # wild_str))))
      else if ch2 \<noteq> CHR ''?'' \<and> ch1 \<noteq> ch2 then
        (case fb of
           Some (src, wild) \<Rightarrow> wildmatch_loop src wild None
         | None \<Rightarrow> False)
      else wildmatch_loop test_str wild_str fb)"
  by pat_completeness auto
termination
  by (relation "inv_image (measures
       [\<lambda>(ts, fb). max (length ts) (case fb of None \<Rightarrow> 0 | Some (src, _) \<Rightarrow> length src),
        \<lambda>(ts, fb). if fb = None then 0 else 1 :: nat, \<lambda>(ts, fb). length ts])
       (\<lambda>(ts, wild, fb). (ts, fb))")
     (auto dest!: skip_to_length split: option.splits)

definition wildmatch :: "cstring \<Rightarrow> cstring \<Rightarrow> bool" where
  "wildmatch test_str wild_str = wildmatch_loop test_str wild_str None"

section \<open>Lists of patterns\<close>

definition FILEMASK_JIT :: cstring where "FILEMASK_JIT = ''*.HC*;*.HH*''"
definition FILEMASK_AOT :: cstring where "FILEMASK_AOT = ''*.HC*;*.HH*;*.PRJ*''"
definition FILEMASK_SRC :: cstring where "FILEMASK_SRC = ''*.HC*;*.HH*;*.IN*;*.PRJ*''"
definition FILEMASK_DD :: cstring where "FILEMASK_DD = FILEMASK_SRC @ '';*.DD*''"
definition FILEMASK_TXT :: cstring where "FILEMASK_TXT = FILEMASK_DD @ '';*.TXT*''"
definition FILEMASK_GR :: cstring where "FILEMASK_GR = ''*.GR*''"

definition FUF_RECURSE :: u64 where "FUF_RECURSE = 0x0000001"
definition FUF_JUST_DIRS :: u64 where "FUF_JUST_DIRS = 0x0000400"
definition FUF_JUST_FILES :: u64 where "FUF_JUST_FILES = 0x0000800"
definition FUF_JUST_TXT :: u64 where "FUF_JUST_TXT = 0x0001000"
definition FUF_JUST_DD :: u64 where "FUF_JUST_DD = 0x0002000"
definition FUF_JUST_SRC :: u64 where "FUF_JUST_SRC = 0x0004000"
definition FUF_JUST_AOT :: u64 where "FUF_JUST_AOT = 0x0008000"
definition FUF_JUST_JIT :: u64 where "FUF_JUST_JIT = 0x0010000"
definition FUF_JUST_GR :: u64 where "FUF_JUST_GR = 0x0020000"

text \<open>\<open>strtok_r\<close> with the delimiter \<open>;\<close>: the non-empty pieces.\<close>

fun split_at :: "char \<Rightarrow> cstring \<Rightarrow> cstring list" where
  "split_at d [] = [[]]"
| "split_at d (c # cs) = (if c = d then [] # split_at d cs
     else case split_at d cs of [] \<Rightarrow> [[c]] | p # ps \<Rightarrow> (c # p) # ps)"

definition strtok_all :: "cstring \<Rightarrow> cstring list" where
  "strtok_all s = filter (\<lambda>p. p \<noteq> []) (split_at (CHR '';'') s)"

text \<open>\<open>rindex(full_name, '/')\<close>: what follows the last slash, if there is one.\<close>

definition rindex_slash :: "cstring \<Rightarrow> cstring option" where
  "rindex_slash s = (if CHR ''/'' \<in> set s then Some (rev (takeWhile (\<lambda>c. c \<noteq> CHR ''/'') (rev s))) else None)"

text \<open>
  The string that is matched. The comparison \<open>index(mask2, '/') >= 0\<close> compares a pointer with
  0 and always holds, so the base name is used whenever there is one.
\<close>

definition match_subject :: "cstring \<Rightarrow> cstring" where
  "match_subject full_name = (case rindex_slash full_name of None \<Rightarrow> full_name | Some b \<Rightarrow> b)"

text \<open>The loop over the masks; \<open>keep\<close> is the outcome of the tests on the type of the file.\<close>

fun masks_loop :: "cstring \<Rightarrow> bool \<Rightarrow> cstring list \<Rightarrow> bool \<Rightarrow> bool" where
  "masks_loop p keep [] res = res"
| "masks_loop p keep (pat # pats) res =
     (if hd pat = CHR ''!'' then
        (if wildmatch p (tl pat) then False else masks_loop p keep pats res)
      else if wildmatch p pat then
        (if \<not> keep then False else masks_loop p keep pats True)
      else masks_loop p keep pats res)"

text \<open>The recursive calls are made with no flags, so they do not recurse again.\<close>

definition filesfindmatch0 :: "cstring \<Rightarrow> cstring \<Rightarrow> bool" where
  "filesfindmatch0 full_name find_mask = masks_loop (match_subject full_name) True (strtok_all find_mask) False"

definition type_masks :: "(u64 \<times> cstring) list" where
  "type_masks = [(FUF_JUST_TXT, FILEMASK_TXT), (FUF_JUST_DD, FILEMASK_DD), (FUF_JUST_SRC, FILEMASK_SRC),
     (FUF_JUST_AOT, FILEMASK_AOT), (FUF_JUST_JIT, FILEMASK_JIT), (FUF_JUST_GR, FILEMASK_GR)]"

definition type_ok :: "cstring \<Rightarrow> u64 \<Rightarrow> bool" where
  "type_ok full_name fuf_flags =
     list_all (\<lambda>(flag, msk). (fuf_flags AND flag) = 0 \<or> filesfindmatch0 full_name msk) type_masks"

definition filesfindmatch :: "cstring \<Rightarrow> cstring \<Rightarrow> u64 \<Rightarrow> bool" where
  "filesfindmatch full_name files_find_mask fuf_flags =
     masks_loop (match_subject full_name) (type_ok full_name fuf_flags) (strtok_all files_find_mask) False"

section \<open>Patterns of the form \<open>*literal*\<close>\<close>

lemma skip_to_None: "skip_to c ch1 ts = None \<longleftrightarrow> c \<notin> set (ch1 # ts)"
  by (induction c ch1 ts rule: skip_to.induct) (subst skip_to.simps, auto split: list.splits)

lemma skip_to_Some:
  "skip_to c ch1 ts = Some ts' \<Longrightarrow> \<exists>pre. ch1 # ts = pre @ c # ts' \<and> c \<notin> set pre"
proof (induction c ch1 ts rule: skip_to.induct)
  case (1 c ch1 ts)
  show ?case
  proof (cases "c = ch1")
    case True
    with "1.prems" have "ts' = ts" by (subst (asm) skip_to.simps) simp
    with True show ?thesis by (intro exI [of _ "[]"]) simp
  next
    case False
    with "1.prems" obtain d ds where d: "ts = d # ds" "skip_to c d ds = Some ts'"
      by (subst (asm) skip_to.simps) (auto split: list.splits)
    from "1.IH" [OF False d] obtain pre where "d # ds = pre @ c # ts'" "c \<notin> set pre" by blast
    with False d show ?thesis by (intro exI [of _ "ch1 # pre"]) simp
  qed
qed

definition literal :: "cstring \<Rightarrow> bool" where
  "literal l \<longleftrightarrow> CHR ''*'' \<notin> set l \<and> CHR ''?'' \<notin> set l"

text \<open>Matching the literal characters after the position the scan stopped at.\<close>

lemma wildmatch_literal_phase:
  assumes "literal l"
  shows "wildmatch_loop ts (l @ ''*'') (Some (src, w)) =
    (if prefix l ts then True else if strict_prefix ts l then False else wildmatch_loop src w None)"
  using assms
proof (induction l arbitrary: ts)
  case Nil
  then show ?case by (cases ts) simp_all
next
  case (Cons c l)
  then show ?case by (cases ts) (auto simp: literal_def)
qed

lemma wildmatch_infix_aux:
  assumes l: "literal (c # l)"
  shows "wildmatch_loop (t # ts) (CHR ''*'' # c # l @ ''*'') None = sublist (c # l) (t # ts)"
proof (induction ts arbitrary: t)
  case (Cons t' ts)
  let ?w = "CHR ''*'' # c # l @ ''*''" and ?ts = "t' # ts"
  show ?case
  proof (cases "skip_to c t ?ts")
    case None
    then have "c \<notin> set (t # ?ts)" by (rule skip_to_None [THEN iffD1])
    moreover have "c \<in> set (t # ?ts)" if "sublist (c # l) (t # ?ts)" using that set_mono_sublist by fastforce
    ultimately show ?thesis using None by auto
  next
    case (Some r)
    then obtain pre where pre: "t # ?ts = pre @ c # r" "c \<notin> set pre" using skip_to_Some by blast
    have run: "wildmatch_loop (t # ?ts) ?w None = wildmatch_loop r (l @ ''*'') (Some (?ts, ?w))"
      using Some by simp
    have lit: "literal l" using l by (simp add: literal_def)
    note phase = wildmatch_literal_phase [OF lit, of r ?ts ?w]
    have start: "\<exists>k. length pre \<le> k \<and> prefix (c # l) (drop k (t # ?ts))" if "sublist (c # l) (t # ?ts)"
    proof -
      from that obtain ps ss where e: "t # ?ts = ps @ (c # l) @ ss" by (auto simp: sublist_def)
      have "length pre \<le> length ps"
      proof (rule ccontr)
        assume "\<not> length pre \<le> length ps"
        then have "pre ! length ps \<in> set pre" by simp
        moreover have "pre ! length ps = c"
          using e pre(1) \<open>\<not> length pre \<le> length ps\<close> by (metis append_Cons nth_append nth_append_length not_le)
        ultimately show False using pre(2) by simp
      qed
      then show ?thesis using e by (intro exI [of _ "length ps"]) simp
    qed
    consider "prefix l r" | "strict_prefix r l" "\<not> prefix l r" | "\<not> strict_prefix r l" "\<not> prefix l r" by blast
    then show ?thesis
    proof cases
      case 1
      then have "sublist (c # l) (t # ?ts)" unfolding pre(1) by (auto simp: prefix_def sublist_def)
      with 1 run phase show ?thesis by simp
    next
      case 2
      have "\<not> sublist (c # l) (t # ?ts)"
      proof
        assume "sublist (c # l) (t # ?ts)"
        from start [OF this] obtain k where k: "length pre \<le> k" "prefix (c # l) (drop k (t # ?ts))" by blast
        have "length (c # l) \<le> length (drop k (t # ?ts))" using k(2) by (rule prefix_length_le)
        also have "\<dots> \<le> Suc (length r)" using k(1) arg_cong [OF pre(1), of length] by simp
        finally show False using prefix_length_less [OF 2(1)] by simp
      qed
      with 2 run phase show ?thesis by simp
    next
      case 3
      have "\<not> prefix (c # l) (t # ?ts)"
      proof
        assume p: "prefix (c # l) (t # ?ts)"
        then have "t = c" by simp
        with pre have "pre = []" by (cases pre) auto
        with pre(1) p 3 show False by simp
      qed
      then have "sublist (c # l) (t # ?ts) = sublist (c # l) ?ts" by (simp only: sublist_Cons_right) simp
      moreover have "wildmatch_loop ?ts ?w None = sublist (c # l) ?ts" by (rule Cons.IH)
      ultimately show ?thesis using 3 run phase by simp
    qed
  qed
next
  case Nil
  have "sublist (c # l) [t] = (t = c \<and> l = [])"
    by (auto simp: sublist_Cons_right)
  moreover have "wildmatch_loop [] (l @ ''*'') fb = (l = [])" for fb
    using l by (cases l) (auto simp: literal_def)
  ultimately show ?case by (simp add: skip_to.simps)
qed

lemma wildmatch_infix:
  assumes "literal l" "l \<noteq> []" "t \<noteq> []"
  shows "wildmatch t (CHR ''*'' # l @ ''*'') = sublist l t"
  using assms by (cases l; cases t)
    (simp_all add: wildmatch_def wildmatch_infix_aux del: wildmatch_loop.simps)

lemma wildmatch_exact: "literal l \<Longrightarrow> wildmatch t l = (t = l)"
proof (unfold wildmatch_def, induction l arbitrary: t)
  case Nil
  then show ?case by (cases t) simp_all
next
  case (Cons c l)
  then show ?case by (cases t) (auto simp: literal_def)
qed

text \<open>A question mark stands for any one character.\<close>

lemma wildmatch_no_star:
  "CHR ''*'' \<notin> set p \<Longrightarrow> wildmatch t p = list_all2 (\<lambda>c w. w = CHR ''?'' \<or> c = w) t p"
proof (unfold wildmatch_def, induction p arbitrary: t)
  case Nil
  then show ?case by (cases t) simp_all
next
  case (Cons c p)
  then show ?case by (cases t) auto
qed

section \<open>Masks\<close>

lemma masks_loop_iff:
  "masks_loop p keep pats res \<longleftrightarrow>
     (\<forall>q \<in> set pats. hd q = CHR ''!'' \<longrightarrow> \<not> wildmatch p (tl q)) \<and>
     (\<forall>q \<in> set pats. hd q \<noteq> CHR ''!'' \<and> wildmatch p q \<longrightarrow> keep) \<and>
     (res \<or> (\<exists>q \<in> set pats. hd q \<noteq> CHR ''!'' \<and> wildmatch p q))"
  by (induction pats arbitrary: res) auto

text \<open>The types of files, by what their base name contains.\<close>

definition has_any :: "cstring list \<Rightarrow> cstring \<Rightarrow> bool" where
  "has_any exts base \<longleftrightarrow> (\<exists>e \<in> set exts. sublist e base)"

lemma filesfindmatch0_exts:
  assumes "strtok_all msk = map (\<lambda>e. CHR ''*'' # e @ ''*'') exts"
    and "\<forall>e \<in> set exts. literal e \<and> e \<noteq> []" and "match_subject full_name \<noteq> []"
  shows "filesfindmatch0 full_name msk = has_any exts (match_subject full_name)"
  using assms by (auto simp: filesfindmatch0_def masks_loop_iff has_any_def wildmatch_infix)

lemma filemask_exts:
  "strtok_all FILEMASK_JIT = map (\<lambda>e. CHR ''*'' # e @ ''*'') [''.HC'', ''.HH'']"
  "strtok_all FILEMASK_AOT = map (\<lambda>e. CHR ''*'' # e @ ''*'') [''.HC'', ''.HH'', ''.PRJ'']"
  "strtok_all FILEMASK_SRC = map (\<lambda>e. CHR ''*'' # e @ ''*'') [''.HC'', ''.HH'', ''.IN'', ''.PRJ'']"
  "strtok_all FILEMASK_DD = map (\<lambda>e. CHR ''*'' # e @ ''*'') [''.HC'', ''.HH'', ''.IN'', ''.PRJ'', ''.DD'']"
  "strtok_all FILEMASK_TXT =
     map (\<lambda>e. CHR ''*'' # e @ ''*'') [''.HC'', ''.HH'', ''.IN'', ''.PRJ'', ''.DD'', ''.TXT'']"
  "strtok_all FILEMASK_GR = map (\<lambda>e. CHR ''*'' # e @ ''*'') [''.GR'']"
  by (simp_all add: strtok_all_def FILEMASK_JIT_def FILEMASK_AOT_def FILEMASK_SRC_def FILEMASK_DD_def
      FILEMASK_TXT_def FILEMASK_GR_def)

definition type_exts :: "(u64 \<times> cstring list) list" where
  "type_exts = [(FUF_JUST_TXT, [''.HC'', ''.HH'', ''.IN'', ''.PRJ'', ''.DD'', ''.TXT'']),
     (FUF_JUST_DD, [''.HC'', ''.HH'', ''.IN'', ''.PRJ'', ''.DD'']),
     (FUF_JUST_SRC, [''.HC'', ''.HH'', ''.IN'', ''.PRJ'']),
     (FUF_JUST_AOT, [''.HC'', ''.HH'', ''.PRJ'']), (FUF_JUST_JIT, [''.HC'', ''.HH'']),
     (FUF_JUST_GR, [''.GR''])]"

lemma type_ok_exts:
  assumes "match_subject full_name \<noteq> []"
  shows "type_ok full_name fuf \<longleftrightarrow>
    (\<forall>(flag, exts) \<in> set type_exts. (fuf AND flag) \<noteq> 0 \<longrightarrow> has_any exts (match_subject full_name))"
  using filemask_exts [THEN filesfindmatch0_exts, OF _ assms]
  by (auto simp: type_ok_def type_masks_def type_exts_def literal_def)

section \<open>Properties\<close>

text \<open>C12: a pattern \<open>*literal*\<close> matches exactly the (non-empty) names that contain the literal,
  a pattern without wildcards exactly the literal itself, and a pattern with question marks only
  the names of its length that agree at all other places.\<close>
theorem wildmatch_correct:
  assumes "literal l" "t \<noteq> []" "CHR ''*'' \<notin> set p"
  shows "(l \<noteq> [] \<longrightarrow> wildmatch t (''*'' @ l @ ''*'') = sublist l t) \<and> wildmatch t l = (t = l) \<and>
    wildmatch t p = list_all2 (\<lambda>c w. w = CHR ''?'' \<or> c = w) t p"
  using wildmatch_infix [OF assms(1) _ assms(2)] wildmatch_exact [OF assms(1)]
    wildmatch_no_star [OF assms(3)] by simp

theorem wildmatch_correct_witness:
  "wildmatch ''Lilith1.HC.Z'' ''*.HC*'' \<and> \<not> wildmatch ''Tmp.DD'' ''*.HC*'' \<and> \<not> wildmatch ''Tmp.DD'' ''.HC'' \<and>
   wildmatch ''Tmp.DD'' ''T?p.DD''"
proof -
  have "literal ''.HC''" by (simp add: literal_def)
  from wildmatch_correct [OF this, of "''Lilith1.HC.Z''" "[]"] wildmatch_correct [OF this, of "''Tmp.DD''" "''T?p.DD''"]
  have "wildmatch ''Lilith1.HC.Z'' (''*'' @ ''.HC'' @ ''*'') = sublist ''.HC'' ''Lilith1.HC.Z''"
    "wildmatch ''Tmp.DD'' (''*'' @ ''.HC'' @ ''*'') = sublist ''.HC'' ''Tmp.DD''" "\<not> wildmatch ''Tmp.DD'' ''.HC''" "wildmatch ''Tmp.DD'' ''T?p.DD''"
    by simp_all
  moreover have "sublist ''.HC'' ''Lilith1.HC.Z'' \<and> \<not> sublist ''.HC'' ''Tmp.DD''" by (simp add: sublist_Cons_right)
  ultimately show ?thesis by simp
qed

text \<open>C13: a file is selected when its base name matches one of the masks and none of those that
  begin with \<open>!\<close>, in whatever order they are given, and when, for every type flag that is
  set, the base name contains one of the extensions of the type.\<close>
theorem filesfindmatch_selects:
  assumes "match_subject full_name \<noteq> []"
  shows "filesfindmatch full_name masks fuf \<longleftrightarrow>
    (\<exists>q \<in> set (strtok_all masks). hd q \<noteq> CHR ''!'' \<and> wildmatch (match_subject full_name) q) \<and>
    (\<forall>q \<in> set (strtok_all masks). hd q = CHR ''!'' \<longrightarrow> \<not> wildmatch (match_subject full_name) (tl q)) \<and>
    (\<forall>(flag, exts) \<in> set type_exts. (fuf AND flag) \<noteq> 0 \<longrightarrow> has_any exts (match_subject full_name))"
  using type_ok_exts [OF assms, of fuf] unfolding filesfindmatch_def masks_loop_iff by blast

theorem filesfindmatch_selects_witness:
  "filesfindmatch ''C:/Home/Lilith1.HC.Z'' ''*.HC*;!*.DD*'' FUF_JUST_SRC"
proof -
  have s: "match_subject ''C:/Home/Lilith1.HC.Z'' = ''Lilith1.HC.Z''"
    by (simp add: match_subject_def rindex_slash_def)
  have t: "strtok_all ''*.HC*;!*.DD*'' = [''*.HC*'', ''!*.DD*'']" by (simp add: strtok_all_def)
  have "literal ''.HC''" "literal ''.DD''" by (simp_all add: literal_def)
  then have "wildmatch ''Lilith1.HC.Z'' ''*.HC*''" "\<not> wildmatch ''Lilith1.HC.Z'' ''*.DD*''"
    using wildmatch_infix [of "''.HC''" "''Lilith1.HC.Z''"] wildmatch_infix [of "''.DD''" "''Lilith1.HC.Z''"]
    by (simp_all add: sublist_Cons_right del: wildmatch_loop.simps)
  then show ?thesis
    using filesfindmatch_selects [of "''C:/Home/Lilith1.HC.Z''" "''*.HC*;!*.DD*''" FUF_JUST_SRC]
    by (simp add: s t type_exts_def has_any_def sublist_Cons_right FUF_JUST_TXT_def FUF_JUST_DD_def
        FUF_JUST_SRC_def FUF_JUST_AOT_def FUF_JUST_JIT_def FUF_JUST_GR_def)
qed

text \<open>Other patterns are not matched as file globs: after a \<open>*\<close> only one fall back is made
  for a mismatch and none at the end of the pattern, and the end of the name accepts any
  pattern of which a \<open>*\<close> comes next.\<close>
theorem wildmatch_not_a_glob:
  "\<not> wildmatch ''abcab'' ''*ab'' \<and> wildmatch ''ab'' ''*ab'' \<and> wildmatch ''a'' ''a*b''"
  by (simp add: wildmatch_def skip_to.simps)

end
