(* ===== verification/FileSys.thy ===== *)
theory FileSys
  imports Wildcard TaskInit
begin

text \<open>
  The file system of Lilith (\<open>lilith/syscalls.c\<close>): directory entries and dates
  (\<open>yearstartdate\<close>, \<open>dirent_to_cdirentry\<close>, \<open>builtin_file_to_cdirentry\<close>), searching a directory
  (\<open>filefind\<close>, \<open>filesfind\<close>), reading and writing whole files (\<open>fileread\<close> and the write loop of
  \<open>syscall_RedSeaFileWrite\<close>). What the operating system answers is given by an environment.
\<close>

unbundle bit_operations_syntax

section \<open>The operating system\<close>

record dirent =
  d_name :: cstring
  d_is_dir :: bool        \<comment> \<open>\<open>d_type == DT_DIR\<close>\<close>

record stat_t =
  st_size :: u64
  st_mtime :: int
  st_is_dir :: bool       \<comment> \<open>\<open>(st_mode & S_IFMT) == S_IFDIR\<close>\<close>

record tm =
  tm_sec :: int
  tm_min :: int
  tm_hour :: int
  tm_mday :: int
  tm_mon :: int
  tm_year :: int
  tm_wday :: int
  tm_yday :: int

text \<open>Answers of \<open>read\<close> and \<open>write\<close>: the bytes read or the number written, \<open>EAGAIN\<close>, or an error.\<close>

datatype read_result = ReadBytes "u8 list" | ReadAgain | ReadError
datatype write_result = Wrote nat | WriteAgain | WriteError

record os_env =
  os_opendir :: "cstring \<Rightarrow> dirent list option"
  os_stat :: "cstring \<Rightarrow> stat_t option"
  os_localtime :: "int \<Rightarrow> tm"
  os_open :: "cstring \<Rightarrow> bool"
  os_reads :: "cstring \<Rightarrow> read_result list"
  os_create :: "cstring \<Rightarrow> bool"
  os_writes :: "cstring \<Rightarrow> write_result list"
  os_mkdir :: "cstring \<Rightarrow> bool"
  os_malloc :: allocator

section \<open>Directory entries\<close>

definition CDIR_FILENAME_LEN :: nat where "CDIR_FILENAME_LEN = 38"
definition RS_ATTR_DIR :: u16 where "RS_ATTR_DIR = 0x10"
definition RS_ATTR_COMPRESSED :: u16 where "RS_ATTR_COMPRESSED = 0x400"

record cdirentry =
  de_attr :: u16
  de_name :: cstring
  de_clus :: u64
  de_size :: u64
  de_time :: u32
  de_date :: "32 word"

text \<open>Division as in C, rounding towards zero.\<close>

definition yearstartdate :: "int \<Rightarrow> int" where
  "yearstartdate year =
     (let y1 = year - 1; yd4000 = y1 sdiv 4000; yd400 = y1 sdiv 400; yd100 = y1 sdiv 100; yd4 = y1 sdiv 4
      in year * 365 + yd4 - yd100 + yd400 - yd4000)"

definition cdate_time :: "tm \<Rightarrow> int" where
  "cdate_time t = (10000 * (tm_sec t + 60 * (tm_min t + 60 * tm_hour t))) * 2 ^ 21 sdiv (15 * 15 * 3 * 625)"

definition cdate_date :: "tm \<Rightarrow> int" where
  "cdate_date t = yearstartdate (tm_year t) + tm_yday t"

text \<open>\<open>strncpy\<close> of at most 38 bytes with the last one set to NUL, as a C string.\<close>

definition cdir_name :: "cstring \<Rightarrow> cstring" where
  "cdir_name n = take (CDIR_FILENAME_LEN - 1) n"

definition dirent_to_cdirentry ::
  "os_env \<Rightarrow> cstring \<Rightarrow> dirent \<Rightarrow> cdirentry \<Rightarrow> path_state \<Rightarrow> (cdirentry \<times> path_state) res" where
  "dirent_to_cdirentry os dir ent e ps =
     (let p = fileconcat dir (d_name ent);
          st = (case os_stat os p of None \<Rightarrow> \<lparr>st_size = 0, st_mtime = 0, st_is_dir = False\<rparr> | Some st \<Rightarrow> st);
          attr = (if d_is_dir ent then de_attr e OR RS_ATTR_DIR else de_attr e);
          attr = (if extension_is (d_name ent) ''.Z'' then attr OR RS_ATTR_COMPRESSED else attr)
      in res_bind (intern_path (os_malloc os) p ps) (\<lambda>(clus, ps).
         let t = os_localtime os (st_mtime st)
         in Inr (e\<lparr>de_attr := attr, de_name := cdir_name (d_name ent), de_size := st_size st, de_clus := clus,
                   de_time := word_of_int (cdate_time t), de_date := word_of_int (cdate_date t)\<rparr>, ps)))"

text \<open>A file linked into the program: name and body. Its name is copied with \<open>strcpy\<close>.\<close>

type_synonym builtin_file = "cstring \<times> u8 list"

definition builtin_file_to_cdirentry ::
  "os_env \<Rightarrow> builtin_file \<Rightarrow> cdirentry \<Rightarrow> path_state \<Rightarrow> (cdirentry \<times> path_state) res" where
  "builtin_file_to_cdirentry os bf e ps =
     (let attr = (if extension_is (fst bf) ''.Z'' then de_attr e OR RS_ATTR_COMPRESSED else de_attr e)
      in if length (fst bf) \<ge> CDIR_FILENAME_LEN then Inl OutOfBounds
         else res_bind (intern_path (os_malloc os) (fileconcat ''/'' (fst bf)) ps) (\<lambda>(clus, ps).
           Inr (e\<lparr>de_attr := attr, de_name := fst bf, de_size := of_nat (length (snd bf)), de_time := 0,
                  de_date := 0, de_clus := clus\<rparr>, ps)))"

definition empty_entry :: cdirentry where
  "empty_entry = \<lparr>de_attr = 0, de_name = [], de_clus = 0, de_size = 0, de_time = 0, de_date = 0\<rparr>"

section \<open>Searching a directory\<close>

text \<open>The test of the loop of \<open>filefind\<close>.\<close>

definition filefind_match :: "cstring \<Rightarrow> u64 \<Rightarrow> dirent \<Rightarrow> bool" where
  "filefind_match name fuf_flags ent \<longleftrightarrow>
     \<not> ((fuf_flags AND FUF_JUST_DIRS) \<noteq> 0 \<and> \<not> d_is_dir ent) \<and>
     \<not> ((fuf_flags AND FUF_JUST_FILES) \<noteq> 0 \<and> d_is_dir ent) \<and> d_name ent = name"

text \<open>The result, the entry \<open>*_res\<close> (\<open>None\<close> for NULL) and the interned paths. When \<open>opendir\<close>
  fails, \<open>readdir\<close> is called with NULL.\<close>

definition filefind ::
  "os_env \<Rightarrow> cstring \<Rightarrow> cstring \<Rightarrow> cdirentry option \<Rightarrow> u64 \<Rightarrow> path_state \<Rightarrow>
   (u64 \<times> cdirentry option \<times> path_state) res" where
  "filefind os dpath name r fuf_flags ps =
     (case os_opendir os dpath of
        None \<Rightarrow> Inl NullDeref
      | Some ents \<Rightarrow>
          (case find (filefind_match name fuf_flags) ents of
             None \<Rightarrow> Inr (0, r, ps)
           | Some ent \<Rightarrow>
               (case r of
                  None \<Rightarrow> Inr (1, None, ps)
                | Some e \<Rightarrow> res_bind (dirent_to_cdirentry os dpath ent e ps)
                    (\<lambda>(e, ps). Inr (1, Some e, ps)))))"

text \<open>
  The list \<open>filesfind\<close> builds: an entry with its full name and, for a directory that was
  searched recursively, the list of what was found in it. (The \<open>parent\<close> of an entry is the
  entry in whose list it is.)
\<close>

datatype dentry = DEntry (dentry_full: cstring) (dentry_info: cdirentry) (dentry_sub: "dentry list")

definition full_name_of :: "cstring \<Rightarrow> nat \<Rightarrow> dirent \<Rightarrow> cstring" where
  "full_name_of dir ignore ent = fileconcat (fileconcat DRIVE_ROOT_PATH (drop ignore dir)) (d_name ent)"

definition is_dot :: "dirent \<Rightarrow> bool" where
  "is_dot ent \<longleftrightarrow> d_name ent = ''.'' \<or> d_name ent = ''..''"

definition recurse_into :: "u64 \<Rightarrow> dirent \<Rightarrow> bool" where
  "recurse_into fuf_flags ent \<longleftrightarrow> (fuf_flags AND FUF_RECURSE) \<noteq> 0 \<and> d_is_dir ent"

definition filesfind_takes :: "cstring \<Rightarrow> cstring \<Rightarrow> u64 \<Rightarrow> dirent \<Rightarrow> bool" where
  "filesfind_takes full_name masks fuf_flags ent \<longleftrightarrow>
     (d_is_dir ent \<or> (fuf_flags AND FUF_JUST_DIRS) = 0) \<and> \<not> recurse_into fuf_flags ent \<and>
     filesfindmatch full_name masks fuf_flags"

partial_function (option) filesfind_loop ::
  "os_env \<Rightarrow> cstring \<Rightarrow> nat \<Rightarrow> cstring \<Rightarrow> u64 \<Rightarrow> dirent list \<Rightarrow> dentry list \<Rightarrow> path_state \<Rightarrow>
   (dentry list \<times> path_state) res option" where
  "filesfind_loop os dir ignore masks fuf_flags ents r ps =
     (case ents of
        [] \<Rightarrow> Some (Inr (r, ps))
      | ent # rest \<Rightarrow>
          if is_dot ent then filesfind_loop os dir ignore masks fuf_flags rest r ps
          else if recurse_into fuf_flags ent then
            (case dirent_to_cdirentry os dir ent empty_entry ps of
               Inl e \<Rightarrow> Some (Inl e)
             | Inr (info, ps) \<Rightarrow>
                 Option.bind
                   (case os_opendir os (fileconcat dir (d_name ent)) of
                      None \<Rightarrow> Some (Inr ([], ps))
                    | Some subs \<Rightarrow> filesfind_loop os (fileconcat dir (d_name ent)) ignore masks fuf_flags subs [] ps)
                   (\<lambda>x. case x of
                      Inl e \<Rightarrow> Some (Inl e)
                    | Inr (sub, ps) \<Rightarrow> filesfind_loop os dir ignore masks fuf_flags rest
                        (DEntry (full_name_of dir ignore ent) info sub # r) ps))
          else if filesfind_takes (full_name_of dir ignore ent) masks fuf_flags ent then
            (case dirent_to_cdirentry os dir ent empty_entry ps of
               Inl e \<Rightarrow> Some (Inl e)
             | Inr (info, ps) \<Rightarrow> filesfind_loop os dir ignore masks fuf_flags rest
                 (DEntry (full_name_of dir ignore ent) info [] # r) ps)
          else filesfind_loop os dir ignore masks fuf_flags rest r ps)"

definition filesfind ::
  "os_env \<Rightarrow> cstring \<Rightarrow> nat \<Rightarrow> cstring \<Rightarrow> u64 \<Rightarrow> dentry list \<Rightarrow> path_state \<Rightarrow>
   (dentry list \<times> path_state) res option" where
  "filesfind os dir ignore masks fuf_flags r ps =
     (case os_opendir os dir of
        None \<Rightarrow> Some (Inr (r, ps))
      | Some ents \<Rightarrow> filesfind_loop os dir ignore masks fuf_flags ents r ps)"

section \<open>Reading and writing files\<close>

text \<open>
  The loop of \<open>fileread\<close>: \<open>None\<close> when the recorded answers of \<open>read\<close> run out, otherwise the memory,
  or nothing after an error.
\<close>

fun read_loop :: "read_result list \<Rightarrow> u64 \<Rightarrow> int \<Rightarrow> mem \<Rightarrow> mem option option" where
  "read_loop reads rdbuf toread m =
     (if toread \<le> 0 then Some (Some m)
      else case reads of
        [] \<Rightarrow> None
      | ReadBytes bs # reads \<Rightarrow>
          if bs = [] then Some (Some m)
          else read_loop reads (rdbuf + of_nat (length bs)) (toread - int (length bs)) (st_bytes m rdbuf bs)
      | ReadAgain # reads \<Rightarrow> read_loop reads rdbuf toread m
      | ReadError # reads \<Rightarrow> Some None)"

declare read_loop.simps [simp del]

definition file_attr :: "cstring \<Rightarrow> bool \<Rightarrow> u64" where
  "file_attr p is_dir =
     (if extension_is p ''.Z'' then ucast RS_ATTR_COMPRESSED else 0) OR (if is_dir then ucast RS_ATTR_DIR else 0)"

definition store_if :: "u64 \<Rightarrow> u64 \<Rightarrow> mem \<Rightarrow> mem" where
  "store_if a v m = (if a \<noteq> 0 then st64 m a v else m)"

text \<open>Without a buffer \<open>read\<close> fails (\<open>EFAULT\<close>), unless there is nothing to read: then the NUL byte is stored.\<close>

definition read_nowhere :: "heap_conf \<Rightarrow> cstring \<Rightarrow> read_result list \<Rightarrow> int \<Rightarrow> machine \<Rightarrow> (u64 \<times> machine) res option" where
  "read_nowhere c p reads toread s =
     (if toread \<le> 0 then Some (Inl NullDeref)
      else case dropWhile (\<lambda>r. r = ReadAgain) reads of
             [] \<Rightarrow> None
           | ReadBytes [] # _ \<Rightarrow> Some (Inl NullDeref)
           | _ \<Rightarrow> Some (res_bind (free_for_templeos c 0 (say (''error while reading '' @ p) s)) (\<lambda>(_, s). Inr (0, s))))"

definition fileread ::
  "heap_conf \<Rightarrow> os_env \<Rightarrow> cstring \<Rightarrow> u64 \<Rightarrow> u64 \<Rightarrow> machine \<Rightarrow> (u64 \<times> machine) res option" where
  "fileread c os p psize pattr s =
     (case os_stat os p of
        None \<Rightarrow> Some (Inr (0, s))
      | Some st \<Rightarrow>
          let s = s\<lparr>mmem := store_if pattr (file_attr p (st_is_dir st)) (mmem s)\<rparr>;
              s = s\<lparr>mmem := store_if psize (st_size st) (mmem s)\<rparr>
          in if \<not> os_open os p then Some (Inr (0, say (''could not open '' @ p) s))
             else
               (case malloc_for_templeos c (st_size st + 1) (data_heap c) False s of
                  Inl e \<Rightarrow> Some (Inl e)
                | Inr (buf, s) \<Rightarrow>
                    if buf = 0 then read_nowhere c p (os_reads os p) (sint (ucast (st_size st) :: u32)) s
                    else
                      (case read_loop (os_reads os p) buf (sint (ucast (st_size st) :: u32)) (mmem s) of
                         None \<Rightarrow> None
                       | Some None \<Rightarrow>
                           Some (res_bind (free_for_templeos c buf (say (''error while reading '' @ p) s))
                             (\<lambda>(_, s). Inr (0, s)))
                       | Some (Some m) \<Rightarrow>
                           Some (Inr (buf, s\<lparr>mmem := m(buf + st_size st := 0)\<rparr>)))))"

text \<open>The loop that writes a file: the remaining size and the bytes written so far.\<close>

fun write_loop :: "write_result list \<Rightarrow> mem \<Rightarrow> u64 \<Rightarrow> int \<Rightarrow> u8 list \<Rightarrow> (int \<times> u8 list) option" where
  "write_loop ws m buf rsz out =
     (if rsz \<le> 0 then Some (rsz, out)
      else case ws of
        [] \<Rightarrow> None
      | Wrote n # ws \<Rightarrow> write_loop ws m (buf + of_nat n) (rsz - int n) (out @ ld_bytes m buf n)
      | WriteAgain # ws \<Rightarrow> write_loop ws m buf rsz out
      | WriteError # ws \<Rightarrow> Some (rsz, out))"

declare write_loop.simps [simp del]

section \<open>Dates\<close>

lemma div_pred:
  fixes y k :: int
  assumes "0 < k"
  shows "y div k = (y - 1) div k + (if k dvd y then 1 else 0)"
proof (cases "k dvd y")
  case True
  then obtain q where q: "y = k * q" by (elim dvdE)
  have "(k * q - 1) div k = (k * (q - 1) + (k - 1)) div k" by (simp add: algebra_simps)
  also have "\<dots> = q - 1 + (k - 1) div k" using assms by (subst div_mult_self4) simp_all
  also have "\<dots> = q - 1" using assms by (simp add: div_pos_pos_trivial)
  finally show ?thesis using True q assms by simp
next
  case False
  then have "y mod k \<noteq> 0" by (simp add: dvd_eq_mod_eq_0)
  with pos_mod_sign [OF assms, of y] have r: "1 \<le> y mod k" by linarith
  have "y - 1 = y div k * k + (y mod k - 1)" using div_mult_mod_eq [of y k] by linarith
  then have "(y - 1) div k = (y div k * k + (y mod k - 1)) div k" by (rule arg_cong)
  also have "\<dots> = y div k + (y mod k - 1) div k" using assms by (subst div_mult_self3) simp_all
  also have "(y mod k - 1) div k = 0" by (rule div_pos_pos_trivial) (use r pos_mod_bound [OF assms, of y] in linarith)+
  finally show ?thesis using False by simp
qed

lemma sdiv_nonneg: "0 \<le> a \<Longrightarrow> 0 < b \<Longrightarrow> a sdiv b = a div b" for a b :: int
  by (cases "a = 0") (simp_all add: signed_divide_int_def)

definition leap_year :: "int \<Rightarrow> bool" where
  "leap_year y \<longleftrightarrow> 4 dvd y \<and> (\<not> 100 dvd y \<or> 400 dvd y) \<and> \<not> 4000 dvd y"

text \<open>\<open>yearstartdate\<close> counts the days before a year: from one year to the next it grows by
  366 after a leap year (a multiple of 4 that is not one of 100 unless of 400, nor one of
  4000) and by 365 otherwise.\<close>
theorem yearstartdate_step:
  assumes "1 \<le> y"
  shows "yearstartdate (y + 1) = yearstartdate y + (if leap_year y then 366 else 365)"
proof -
  have s: "y sdiv k = y div k" "(y - 1) sdiv k = (y - 1) div k" if "0 < k" for k
    using assms that by (simp_all add: sdiv_nonneg)
  have d: "y div k - (y - 1) div k = (if k dvd y then 1 else 0)" if "0 < k" for k
    using div_pred [OF that, of y] by linarith
  have "yearstartdate (y + 1) - yearstartdate y =
      365 + (y div 4 - (y - 1) div 4) - (y div 100 - (y - 1) div 100) + (y div 400 - (y - 1) div 400)
      - (y div 4000 - (y - 1) div 4000)"
    by (simp add: yearstartdate_def Let_def s algebra_simps)
  also have "\<dots> = 365 + (if 4 dvd y then 1 else 0) - (if 100 dvd y then 1 else 0) + (if 400 dvd y then 1 else 0)
      - (if 4000 dvd y then 1 else 0)" by (simp only: d zero_less_numeral)
  also have "\<dots> = (if leap_year y then 366 else 365)"
  proof -
    have "400 dvd y \<Longrightarrow> 100 dvd y" "100 dvd y \<Longrightarrow> 4 dvd y" "4000 dvd y \<Longrightarrow> 400 dvd y"
      by (rule dvd_trans; simp)+
    then show ?thesis unfolding leap_year_def by (simp split: if_split)
  qed
  finally show ?thesis by linarith
qed

theorem yearstartdate_step_witness:
  "yearstartdate 2025 = yearstartdate 2024 + 366"
  using yearstartdate_step [of 2024] by (simp add: leap_year_def)

text \<open>The clock fields of a date without a leap second.\<close>

definition clock_ok :: "tm \<Rightarrow> bool" where
  "clock_ok t \<longleftrightarrow> 0 \<le> tm_sec t \<and> tm_sec t < 60 \<and> 0 \<le> tm_min t \<and> tm_min t < 60 \<and>
     0 \<le> tm_hour t \<and> tm_hour t < 24"

definition day_seconds :: "tm \<Rightarrow> int" where
  "day_seconds t = tm_sec t + 60 * (tm_min t + 60 * tm_hour t)"

text \<open>The \<open>time\<close> of a directory entry is the time of the day in units of \<open>2^-32\<close> days; it fits
  in 32 bits and determines the second it was computed from.\<close>
theorem cdate_time_roundtrip:
  assumes "clock_ok t"
  shows "cdate_time t = day_seconds t * 2 ^ 32 div 86400 \<and>
    (uint (word_of_int (cdate_time t) :: u32) * 86400 + (2 ^ 32 - 1)) div 2 ^ 32 = day_seconds t"
proof -
  define s where "s = day_seconds t"
  have s: "0 \<le> s" "s < 86400" using assms by (simp_all add: s_def day_seconds_def clock_ok_def)
  define q where "q = s * 2 ^ 25 div 675"
  have "cdate_time t = (s * 2 ^ 25) * 625 div (675 * 625)"
    using s(1) by (simp add: cdate_time_def sdiv_nonneg s_def day_seconds_def)
  then have c: "cdate_time t = q" by (simp only: q_def div_mult_mult2)
  have "s * 2 ^ 32 div 86400 = (s * 2 ^ 25) * 128 div (675 * 128)" by simp
  then have d: "s * 2 ^ 32 div 86400 = q" by (simp only: q_def div_mult_mult2)
  have "q * 675 + s * 2 ^ 25 mod 675 = s * 2 ^ 25" by (simp add: q_def)
  moreover have "0 \<le> s * 2 ^ 25 mod 675" "s * 2 ^ 25 mod 675 < 675" by simp_all
  ultimately have b: "q * 675 \<le> s * 2 ^ 25" "s * 2 ^ 25 < q * 675 + 675" by linarith+
  have "0 \<le> q" using s(1) by (simp add: q_def)
  moreover have "q < 2 ^ 32" using b(1) s(2) by simp
  ultimately have u: "uint (word_of_int (cdate_time t) :: u32) = q"
    by (simp add: c uint_word_of_int)
  have "(q * 86400 + (2 ^ 32 - 1)) div 2 ^ 32 = s"
    by (rule int_div_pos_eq [where r = "q * 86400 + (2 ^ 32 - 1) - s * 2 ^ 32"]) (use b in simp_all)
  with u c d show ?thesis by (simp only: s_def [symmetric])
qed

theorem cdate_time_roundtrip_witness:
  "(uint (word_of_int (cdate_time \<lparr>tm_sec = 59, tm_min = 59, tm_hour = 23, tm_mday = 1, tm_mon = 0, tm_year = 125,
     tm_wday = 3, tm_yday = 0\<rparr>) :: u32) * 86400 + (2 ^ 32 - 1)) div 2 ^ 32 = 86399"
  using cdate_time_roundtrip [of "\<lparr>tm_sec = 59, tm_min = 59, tm_hour = 23, tm_mday = 1, tm_mon = 0, tm_year = 125,
     tm_wday = 3, tm_yday = 0\<rparr>"] by (simp add: clock_ok_def day_seconds_def)

section \<open>Reading a file\<close>

text \<open>The answers of \<open>read\<close> deliver a content in whatever pieces, with interruptions.\<close>

fun delivers :: "u8 list \<Rightarrow> read_result list \<Rightarrow> bool" where
  "delivers content [] = (content = [])"
| "delivers content (ReadBytes bs # rs) =
     (content = [] \<or> bs \<noteq> [] \<and> take (length bs) content = bs \<and> delivers (drop (length bs) content) rs)"
| "delivers content (ReadAgain # rs) = (content = [] \<or> delivers content rs)"
| "delivers content (ReadError # rs) = (content = [])"

lemma read_loop_delivers:
  "delivers content reads \<Longrightarrow> read_loop reads a (int (length content)) m = Some (Some (st_bytes m a content))"
proof (induction content reads arbitrary: a m rule: delivers.induct)
  case (2 content bs rs)
  show ?case
  proof (cases "content = []")
    case False
    with 2 have b: "bs \<noteq> []" "take (length bs) content = bs" "delivers (drop (length bs) content) rs" by auto
    have le: "length bs \<le> length content" using arg_cong [OF b(2), of length] by simp
    have c: "content = bs @ drop (length bs) content" using b(2) append_take_drop_id [of "length bs" content] by simp
    have "read_loop rs (a + of_nat (length bs)) (int (length (drop (length bs) content))) (st_bytes m a bs) =
        Some (Some (st_bytes (st_bytes m a bs) (a + of_nat (length bs)) (drop (length bs) content)))"
      using 2 False b by simp
    moreover have "int (length (drop (length bs) content)) = int (length content) - int (length bs)" using le by simp
    moreover have "st_bytes (st_bytes m a bs) (a + of_nat (length bs)) (drop (length bs) content) = st_bytes m a content"
      by (subst st_bytes_append) (simp flip: c)
    ultimately show ?thesis
      using b(1) False by (subst read_loop.simps) simp
  qed (simp add: read_loop.simps)
qed (simp_all add: read_loop.simps, auto simp: read_loop.simps)

lemma sint_small: "unat (x :: u64) < 2 ^ 31 \<Longrightarrow> sint (ucast x :: u32) = int (unat x)"
proof -
  assume "unat x < 2 ^ 31"
  then have "int (unat x) < int (2 ^ 31)" by (simp only: of_nat_less_iff)
  then have u: "uint x < 2 ^ 31" "0 \<le> uint x" by simp_all
  then have "take_bit 32 (uint x) = uint x" by (simp add: take_bit_int_eq_self)
  moreover have "signed_take_bit 31 (uint x) = uint x" by (rule signed_take_bit_int_eq_self) (use u in linarith)+
  ultimately show ?thesis by (simp add: sint_uint unsigned_ucast_eq)
qed

text \<open>C15: a file of less than 2 GB is read whole: when it can be opened and \<open>read\<close> delivers its content, in any pieces and
  with any number of \<open>EAGAIN\<close> in between, \<open>fileread\<close> returns a new block with the content and a NUL byte after it; when
  the caller asks for them, the size is stored and the attributes say whether the name has the extension of compressed
  files and whether it is a directory. (The places for them lie apart from each other and from the new block.)\<close>
theorem fileread_reads_all:
  fixes s :: machine and content :: "u8 list"
  assumes st: "os_stat os p = Some st" "st_size st = of_nat (length content)" "length content < 2 ^ 31"
    and rd: "os_open os p" "delivers content (os_reads os p)" and h: "heap_serves c"
  defines "buf \<equiv> heap_alloc c (allocs s) (of_nat (length content) + 1)"
  assumes sz: "psize \<noteq> 0 \<Longrightarrow> disjoint_regions psize 8 buf (length content + 1)"
    and attr: "pattr \<noteq> 0 \<Longrightarrow> disjoint_regions pattr 8 buf (length content + 1)"
    and apart: "psize \<noteq> 0 \<Longrightarrow> pattr \<noteq> 0 \<Longrightarrow> disjoint_regions pattr 8 psize 8"
  shows "\<exists>s'. fileread c os p psize pattr s = Some (Inr (buf, s')) \<and> buf \<noteq> 0 \<and>
    bytes_at (mmem s') buf (content @ [0]) \<and> (psize \<noteq> 0 \<longrightarrow> ld64 (mmem s') psize = of_nat (length content)) \<and>
    (pattr \<noteq> 0 \<longrightarrow> ld64 (mmem s') pattr =
       (if extension_is p ''.Z'' then 0x400 else 0) OR (if st_is_dir st then 0x10 else 0))"
proof -
  let ?n = "length content"
  define m1 where "m1 = store_if psize (st_size st) (store_if pattr (file_attr p (st_is_dir st)) (mmem s))"
  define s1 where "s1 = s\<lparr>mmem := m1\<rparr>"
  have nz: "buf \<noteq> 0" using h by (simp add: heap_serves_def buf_def)
  have un: "unat (st_size st) = ?n" using st(2,3) by (simp add: unat_of_nat)
  have "read_loop (os_reads os p) buf (sint (ucast (st_size st) :: u32)) m = Some (Some (st_bytes m buf content))" for m
    using read_loop_delivers [OF rd(2)] sint_small [of "st_size st"] un st(3) by simp
  then have run: "fileread c os p psize pattr s = Some (Inr (buf, (after_malloc c (st_size st + 1) False s1)
      \<lparr>mmem := (st_bytes m1 buf content)(buf + st_size st := 0)\<rparr>))"
    using rd(1) st(1,2) nz
    by (simp add: fileread_def Let_def malloc_serves [OF h] s1_def m1_def buf_def after_malloc_def)
  let ?m = "(st_bytes m1 buf content)(buf + st_size st := 0)"
  have m: "?m = st_bytes m1 buf (content @ [0])"
    using st_bytes_append [of m1 buf content "[0]"] st(2) by simp
  have b: "bytes_at ?m buf (content @ [0])"
    unfolding m using st(3) by (intro bytes_at_st_bytes_same) simp
  have keep: "ld64 ?m q = ld64 m1 q" if "disjoint_regions q 8 buf (?n + 1)" for q
    unfolding m using that st(3) by (intro ld64_st_bytes_off) simp_all
  have "ld64 ?m psize = of_nat ?n" if "psize \<noteq> 0"
    using keep [OF sz [OF that]] that st(2) by (simp add: m1_def store_if_def ld64_st64)
  moreover have "ld64 ?m pattr = file_attr p (st_is_dir st)" if "pattr \<noteq> 0"
  proof -
    have "ld64 m1 pattr = file_attr p (st_is_dir st)"
      using apart [OF _ that] that by (cases "psize = 0") (simp_all add: m1_def store_if_def ld64_st64 ld64_st64_other)
    then show ?thesis using keep [OF attr [OF that]] by simp
  qed
  ultimately show ?thesis
    using run nz b by (auto simp: file_attr_def RS_ATTR_COMPRESSED_def RS_ATTR_DIR_def)
qed

text \<open>A file of five bytes, read in two pieces.\<close>

definition hello_os :: os_env where
  "hello_os = \<lparr>os_opendir = (\<lambda>d. if d = ''/Home'' then Some [\<lparr>d_name = ''.'', d_is_dir = True\<rparr>,
       \<lparr>d_name = ''Hello.HC'', d_is_dir = False\<rparr>, \<lparr>d_name = ''Tmp.DD'', d_is_dir = False\<rparr>] else None),
     os_stat = (\<lambda>_. Some \<lparr>st_size = 5, st_mtime = 0, st_is_dir = False\<rparr>),
     os_localtime = (\<lambda>_. \<lparr>tm_sec = 0, tm_min = 0, tm_hour = 0, tm_mday = 1, tm_mon = 0, tm_year = 70, tm_wday = 4,
       tm_yday = 0\<rparr>), os_open = (\<lambda>_. True), os_reads = (\<lambda>_. [ReadBytes [72, 101], ReadAgain, ReadBytes [108, 108, 111]]),
     os_create = (\<lambda>_. True), os_writes = (\<lambda>_. [Wrote 2, WriteAgain, Wrote 3]), os_mkdir = (\<lambda>_. True),
     os_malloc = bump_alloc\<rparr>"

theorem fileread_reads_all_witness:
  "\<exists>buf s'. fileread boot_conf hello_os ''/Home/Hello.HC.Z'' 0x800 0x808 empty_machine = Some (Inr (buf, s')) \<and> buf \<noteq> 0 \<and>
    bytes_at (mmem s') buf ([72, 101, 108, 108, 111] @ [0]) \<and> ld64 (mmem s') 0x800 = 5 \<and> ld64 (mmem s') 0x808 = 0x400"
proof -
  let ?p = "''/Home/Hello.HC.Z''" and ?c = "[72, 101, 108, 108, 111] :: u8 list"
    and ?st = "\<lparr>st_size = 5, st_mtime = 0, st_is_dir = False\<rparr>"
  have f: "os_stat hello_os ?p = Some ?st" "os_open hello_os ?p" "delivers ?c (os_reads hello_os ?p)"
    by (simp_all add: hello_os_def)
  have z: "st_size ?st = of_nat (length ?c)" "length ?c < 2 ^ 31" by simp_all
  have d: "disjoint_regions q 8 (heap_alloc boot_conf (allocs empty_machine) (of_nat (length ?c) + 1)) (length ?c + 1)"
    if "q \<in> {0x800, 0x808}" for q
    using that by (intro disjoint_regionsI) (auto simp: boot_conf_def empty_machine_def bump_alloc_unat)
  have a: "disjoint_regions 0x808 8 0x800 8"
    unfolding disjoint_regions_sym [of "0x808"] by (rule disjoint_regionsI) simp_all
  have x: "extension_is ?p ''.Z''" by (simp add: extension_is_def)
  from fileread_reads_all [OF f(1) z f(2,3) boot_serves d d a] x show ?thesis by auto
qed

section \<open>Finding one file\<close>


lemma hello_paths: "paths_inv bump_alloc 4096 \<lparr>pmem = (\<lambda>_. 0), ptable = hash_init 4096, pallocs = 0\<rparr>"
  by (auto simp: paths_inv_def hash_inv_init dest: hash_get_init)


section \<open>Finding many files\<close>

text \<open>A directory tree of bounded depth below a directory (what \<open>readdir\<close> calls a directory is never a
  symbolic link, so a file system has no cycles).\<close>

fun dir_depth :: "os_env \<Rightarrow> nat \<Rightarrow> cstring \<Rightarrow> bool" where
  "dir_depth os 0 dir = (os_opendir os dir = None)"
| "dir_depth os (Suc n) dir =
     (case os_opendir os dir of
        None \<Rightarrow> True
      | Some ents \<Rightarrow> list_all (\<lambda>ent. d_is_dir ent \<and> \<not> is_dot ent \<longrightarrow>
          dir_depth os n (fileconcat dir (d_name ent))) ents)"

lemma filesfind_loop_ends:
  assumes sub: "\<And>dir subs ps. dir_depth os n dir \<Longrightarrow> os_opendir os dir = Some subs \<Longrightarrow>
      \<exists>x. filesfind_loop os dir ignore masks fuf subs [] ps = Some x"
    and "\<forall>ent \<in> set ents. d_is_dir ent \<and> \<not> is_dot ent \<longrightarrow> dir_depth os n (fileconcat dir (d_name ent))"
  shows "\<exists>x. filesfind_loop os dir ignore masks fuf ents r ps = Some x"
  using assms(2)
proof (induction ents arbitrary: r ps)
  case Nil
  then show ?case by (simp add: filesfind_loop.simps)
next
  case (Cons ent ents)
  then have IH: "\<exists>x. filesfind_loop os dir ignore masks fuf ents r ps = Some x" for r ps by simp
  have "\<exists>x. (case os_opendir os (fileconcat dir (d_name ent)) of
        None \<Rightarrow> Some (Inr ([], ps))
      | Some subs \<Rightarrow> filesfind_loop os (fileconcat dir (d_name ent)) ignore masks fuf subs [] ps) = Some x"
    if "\<not> is_dot ent" "recurse_into fuf ent" for ps
    using sub Cons.prems that by (auto simp: recurse_into_def split: option.splits)
  note S = this
  consider "is_dot ent" | "\<not> is_dot ent" "recurse_into fuf ent"
    | "\<not> is_dot ent" "\<not> recurse_into fuf ent" by blast
  then show ?case
  proof cases
    case 1
    with IH show ?thesis by (subst filesfind_loop.simps) simp
  next
    case 2
    show ?thesis
    proof (cases "dirent_to_cdirentry os dir ent empty_entry ps")
      case (Inr y)
      obtain info ps' where y: "y = (info, ps')" by (cases y)
      obtain x where x: "(case os_opendir os (fileconcat dir (d_name ent)) of
          None \<Rightarrow> Some (Inr ([], ps'))
        | Some subs \<Rightarrow> filesfind_loop os (fileconcat dir (d_name ent)) ignore masks fuf subs [] ps') = Some x"
        using S [OF 2] by blast
      show ?thesis
        using 2 Inr y x IH by (subst filesfind_loop.simps) (cases x; simp split: prod.splits)
    qed (use 2 in \<open>subst filesfind_loop.simps, simp\<close>)
  next
    case 3
    with IH show ?thesis
      by (subst filesfind_loop.simps) (simp split: sum.splits prod.splits)
  qed
qed

text \<open>C36: on a directory tree of finite depth \<open>filesfind\<close> ends, recursive or not, whatever the
  masks and flags.\<close>
theorem filesfind_terminates:
  assumes "dir_depth os n dir"
  shows "\<exists>x. filesfind os dir ignore masks fuf r ps = Some x"
proof -
  have "\<exists>x. filesfind_loop os dir ignore masks fuf ents r ps = Some x"
    if "dir_depth os n dir" "os_opendir os dir = Some ents" for n dir ents r ps
    using that
  proof (induction n arbitrary: dir ents r ps)
    case (Suc n)
    from Suc.prems have "\<forall>ent \<in> set ents. d_is_dir ent \<and> \<not> is_dot ent \<longrightarrow> dir_depth os n (fileconcat dir (d_name ent))"
      by (simp add: list_all_iff)
    from filesfind_loop_ends [OF Suc.IH this] show ?case by blast
  qed simp
  with assms show ?thesis by (auto simp: filesfind_def split: option.splits)
qed

theorem filesfind_terminates_witness:
  "\<exists>x. filesfind hello_os ''/Home'' 1 ''*'' FUF_RECURSE [] \<lparr>pmem = (\<lambda>_. 0), ptable = hash_init 4096, pallocs = 0\<rparr> = Some x"
  by (rule filesfind_terminates [where n = 1]) (simp add: hello_os_def is_dot_def)

text \<open>Without the recursion flag: one entry for each file that is taken, the last one first.\<close>

definition paths_ok :: "nat \<Rightarrow> cstring \<Rightarrow> dirent list \<Rightarrow> bool" where
  "paths_ok L dir ents \<longleftrightarrow> list_all (\<lambda>ent. hash_key_ok (fileconcat dir (d_name ent)) \<and>
     cstring_ok (fileconcat dir (d_name ent)) \<and> length (fileconcat dir (d_name ent)) < L) ents"

lemma intern_path_allocs:
  assumes r: "intern_path alloc p s = Inr (a, s')"
  shows "pallocs s' \<le> pallocs s + 2"
proof (cases "hash_get (ptable s) p")
  case (Inr e)
  then show ?thesis
  proof (cases e)
    case None
    with Inr r have "\<exists>k m h. Inr (k, \<lparr>pmem = m, ptable = h, pallocs = pallocs s + 2\<rparr>) = (Inr (a, s') :: (u64 \<times> path_state) res)"
      unfolding intern_path_def strclone_def Let_def by (simp only: res_bind_simps option.case prod.case res_bind_Inr_iff) blast
    then show ?thesis by auto
  next
    case (Some v)
    with Inr r show ?thesis by (simp add: intern_path_def)
  qed
qed (use r in \<open>simp add: intern_path_def\<close>)

lemma dirent_to_cdirentry_ok:
  assumes "paths_inv (os_malloc os) L ps" "hash_key_ok (fileconcat dir (d_name ent))"
    "cstring_ok (fileconcat dir (d_name ent))" "length (fileconcat dir (d_name ent)) < L"
    "pallocs ps + 2 \<le> N" "blocks_apart (os_malloc os) N L"
  shows "\<exists>e' ps'. dirent_to_cdirentry os dir ent e ps = Inr (e', ps') \<and> de_name e' = cdir_name (d_name ent) \<and>
    paths_inv (os_malloc os) L ps' \<and> pallocs ps' \<le> pallocs ps + 2"
proof -
  obtain a ps' where "intern_path (os_malloc os) (fileconcat dir (d_name ent)) ps = Inr (a, ps')"
    "paths_inv (os_malloc os) L ps'"
    using intern_path_ok [OF assms] by blast
  then show ?thesis using intern_path_allocs by (fastforce simp: dirent_to_cdirentry_def Let_def)
qed

lemma filesfind_loop_flat:
  assumes "(fuf AND FUF_RECURSE) = 0" "paths_ok L dir ents" "paths_inv (os_malloc os) L ps"
    "pallocs ps + 2 * length ents \<le> N" "blocks_apart (os_malloc os) N L"
  shows "\<exists>l ps'. filesfind_loop os dir ignore masks fuf ents r ps = Some (Inr (l @ r, ps')) \<and>
    map dentry_full l = rev (map (full_name_of dir ignore)
      (filter (\<lambda>ent. \<not> is_dot ent \<and> filesfind_takes (full_name_of dir ignore ent) masks fuf ent) ents))"
  using assms(2-4)
proof (induction ents arbitrary: r ps)
  case Nil
  then show ?case by (simp add: filesfind_loop.simps)
next
  case (Cons ent ents)
  have nr: "\<not> recurse_into fuf ent" using assms(1) by (simp add: recurse_into_def)
  have po: "paths_ok L dir ents" using Cons.prems(1) by (simp add: paths_ok_def)
  show ?case
  proof (cases "\<not> is_dot ent \<and> filesfind_takes (full_name_of dir ignore ent) masks fuf ent")
    case False
    have "filesfind_loop os dir ignore masks fuf (ent # ents) r ps = filesfind_loop os dir ignore masks fuf ents r ps"
      using False nr by (subst filesfind_loop.simps) auto
    moreover have "filter (\<lambda>ent. \<not> is_dot ent \<and> filesfind_takes (full_name_of dir ignore ent) masks fuf ent) (ent # ents) =
        filter (\<lambda>ent. \<not> is_dot ent \<and> filesfind_takes (full_name_of dir ignore ent) masks fuf ent) ents"
      using False by auto
    ultimately show ?thesis using Cons.IH [OF po Cons.prems(2), of r] Cons.prems(3) by simp
  next
    case True
    obtain e' ps' where e: "dirent_to_cdirentry os dir ent empty_entry ps = Inr (e', ps')"
      "paths_inv (os_malloc os) L ps'" "pallocs ps' \<le> pallocs ps + 2"
      using dirent_to_cdirentry_ok [of os L ps dir ent N empty_entry] Cons.prems assms(5) by (auto simp: paths_ok_def)
    let ?d = "DEntry (full_name_of dir ignore ent) e' []"
    have "filesfind_loop os dir ignore masks fuf (ent # ents) r ps =
        filesfind_loop os dir ignore masks fuf ents (?d # r) ps'"
      using True nr e(1) by (subst filesfind_loop.simps) simp
    moreover obtain l ps'' where "filesfind_loop os dir ignore masks fuf ents (?d # r) ps' = Some (Inr (l @ ?d # r, ps''))"
      "map dentry_full l = rev (map (full_name_of dir ignore)
        (filter (\<lambda>ent. \<not> is_dot ent \<and> filesfind_takes (full_name_of dir ignore ent) masks fuf ent) ents))"
      using Cons.IH [OF po e(2), of "?d # r"] e(3) Cons.prems(3) by auto
    ultimately show ?thesis using True by (intro exI [of _ "l @ [?d]"] exI [of _ ps'']) simp
  qed
qed



end
