(* ===== verification/Syscalls.thy ===== *)
theory Syscalls
  imports FileSys
begin

text \<open>
  The system calls of Lilith (\<open>lilith/syscalls.c\<close>): the functions that replace TempleOS kernel
  functions for console, time and files. Each one leaves TempleOS (\<open>exit_templeos\<close>), does its
  work as C code and enters TempleOS again. Allocation and \<open>Spawn\<close> are in \<open>TosAlloc\<close> and
  \<open>TaskInit\<close>, the calls that lock and wait in \<open>TaskSync\<close>.
\<close>

unbundle bit_operations_syntax

section \<open>State\<close>

text \<open>The threads and memory, the interned paths, what was printed, what is to be read from the
  standard input, and the files that were written.\<close>

record sys =
  sy :: tstate
  sy_paths :: path_state
  sy_stdout :: "u8 list"
  sy_stdin :: cstring
  sy_files :: "cstring \<Rightarrow> u8 list option"

abbreviation sy_mach :: "sys \<Rightarrow> machine" where
  "sy_mach s \<equiv> mach (sy s)"

definition set_mach :: "machine \<Rightarrow> sys \<Rightarrow> sys" where
  "set_mach m s = s\<lparr>sy := (sy s)\<lparr>mach := m\<rparr>\<rparr>"

text \<open>
  The frame of a system call. The body is given the thread; \<open>None\<close> means that it does not end
  with the answers of the operating system that are given.
\<close>

definition host_call ::
  "env \<Rightarrow> (tthread \<Rightarrow> sys \<Rightarrow> ('a \<times> sys) res option) \<Rightarrow> sys \<Rightarrow> ('a \<times> sys) res option" where
  "host_call env body s =
     (case exit_templeos (e_checks env) (e_prctl env) (sy s) of
        Inl e \<Rightarrow> Some (Inl e)
      | Inr (t, ts) \<Rightarrow>
          (case body t (s\<lparr>sy := ts\<rparr>) of
             None \<Rightarrow> None
           | Some r \<Rightarrow> Some (res_bind r (\<lambda>(v, s).
               res_bind (enter_templeos (e_checks env) (e_prctl env) t (sy s)) (\<lambda>ts. Inr (v, s\<lparr>sy := ts\<rparr>))))))"

section \<open>Console\<close>

definition syscall_RawPutChar :: "env \<Rightarrow> u64 \<Rightarrow> sys \<Rightarrow> (unit \<times> sys) res option" where
  "syscall_RawPutChar env c = host_call env (\<lambda>t s. Some (Inr ((),
     if c \<noteq> 13 then s\<lparr>sy_stdout := sy_stdout s @ [ucast c]\<rparr>
     else s\<lparr>sy_stdout := sy_stdout s @ [92, 114]\<rparr>)))"

text \<open>\<open>fgets(buf, n, stdin)\<close>: at most \<open>n - 1\<close> characters up to and with the next newline.\<close>

definition line_of :: "cstring \<Rightarrow> cstring" where
  "line_of inp = takeWhile (\<lambda>c. c \<noteq> CHR 0x0A) inp @ (if CHR 0x0A \<in> set inp then [CHR 0x0A] else [])"

definition fgets :: "int \<Rightarrow> cstring \<Rightarrow> (cstring \<times> cstring) option" where
  "fgets n inp =
     (if n \<le> 0 then None
      else if n = 1 then Some ([], inp)
      else if inp = [] then None
      else let l = take (nat (n - 1)) (line_of inp) in Some (l, drop (length l) inp))"

text \<open>\<open>size\<close> is converted to \<open>int\<close> for \<open>fgets\<close>; a NUL character that was read ends the string.\<close>

definition gets_body :: "u64 \<Rightarrow> u64 \<Rightarrow> u8 \<Rightarrow> sys \<Rightarrow> (u64 \<times> sys) res" where
  "gets_body buf sz allow_ext s =
     (let (s, l) = (case fgets (sint (ucast sz :: u32)) (sy_stdin s) of
            None \<Rightarrow> (set_mach (writes [W8 buf 0] (sy_mach s)) s, [])
          | Some (l, rest) \<Rightarrow> (set_mach (writes [WStr buf l] (sy_mach s)) (s\<lparr>sy_stdin := rest\<rparr>),
                               takeWhile (\<lambda>c. c \<noteq> CHR 0x00) l));
          strip = (allow_ext = 0 \<and> l \<noteq> [] \<and> last l = CHR 0x0A)
      in if strip
         then Inr (of_nat (length l - 1),
           set_mach (writes [W8 (buf + of_nat (length l - 1)) 0] (sy_mach s)) s)
         else Inr (of_nat (length l), s))"

definition syscall_GetS :: "env \<Rightarrow> u64 \<Rightarrow> u64 \<Rightarrow> u8 \<Rightarrow> sys \<Rightarrow> (u64 \<times> sys) res option" where
  "syscall_GetS env buf sz allow_ext = host_call env (\<lambda>t s. Some (gets_body buf sz allow_ext s))"

section \<open>Time and scheduling\<close>

text \<open>\<open>clock_gettime(CLOCK_MONOTONIC)\<close> gives seconds and nanoseconds.\<close>

definition timer_ticks :: "u64 \<Rightarrow> u64 \<Rightarrow> u64" where
  "timer_ticks tv_sec tv_nsec = tv_nsec div 832 + tv_sec * 1201471"

definition syscall_SysTimerRead :: "env \<Rightarrow> u64 \<Rightarrow> u64 \<Rightarrow> sys \<Rightarrow> (u64 \<times> sys) res option" where
  "syscall_SysTimerRead env tv_sec tv_nsec = host_call env (\<lambda>t s. Some (Inr (timer_ticks tv_sec tv_nsec, s)))"

definition datetime_writes :: "u64 \<Rightarrow> tm \<Rightarrow> int \<Rightarrow> mwrite list" where
  "datetime_writes ds t usec =
     [WBytes ds (replicate (csize CDateStruct) 0),
      W32 (ds + fld CDateStruct ''year'') (word_of_int (tm_year t + 1900)),
      W8 (ds + fld CDateStruct ''mon'') (word_of_int (tm_mon t + 1)),
      W8 (ds + fld CDateStruct ''day_of_mon'') (word_of_int (tm_mday t)),
      W8 (ds + fld CDateStruct ''day_of_week'') (word_of_int (tm_wday t)),
      W8 (ds + fld CDateStruct ''hour'') (word_of_int (tm_hour t)),
      W8 (ds + fld CDateStruct ''min'') (word_of_int (tm_min t)),
      W8 (ds + fld CDateStruct ''sec'') (word_of_int (tm_sec t)),
      W8 (ds + fld CDateStruct ''sec100'') (word_of_int (usec sdiv 10000))]"

definition syscall_NowDateTimeStruct :: "env \<Rightarrow> os_env \<Rightarrow> int \<Rightarrow> int \<Rightarrow> u64 \<Rightarrow> sys \<Rightarrow> (unit \<times> sys) res option" where
  "syscall_NowDateTimeStruct env os tv_sec tv_usec ds = host_call env (\<lambda>t s. Some (
     if ds = 0 then Inl NullDeref
     else Inr ((), set_mach (writes (datetime_writes ds (os_localtime os tv_sec) tv_usec) (sy_mach s)) s)))"

text \<open>\<open>usleep\<close> and \<open>pthread_yield\<close> change nothing in the model; \<open>Busy(0)\<close> does not even leave
  TempleOS.\<close>

definition syscall_Busy :: "env \<Rightarrow> u64 \<Rightarrow> sys \<Rightarrow> (unit \<times> sys) res option" where
  "syscall_Busy env d s = (if d = 0 then Some (Inr ((), s)) else host_call env (\<lambda>t s. Some (Inr ((), s))) s)"

definition syscall_Yield :: "env \<Rightarrow> sys \<Rightarrow> (unit \<times> sys) res option" where
  "syscall_Yield env = host_call env (\<lambda>t s. Some (Inr ((), s)))"

definition syscall_CallStkGrow :: "env \<Rightarrow> sys \<Rightarrow> (u64 \<times> sys) res option" where
  "syscall_CallStkGrow env = host_call env (\<lambda>t s. Some (Inl ThreadExit))"

section \<open>Files\<close>

text \<open>The directory a cluster number stands for: the address of its path, 0 for the root.\<close>

definition clus_path :: "path_state \<Rightarrow> u64 \<Rightarrow> cstring res" where
  "clus_path ps clus =
     (if clus = 0 then Inr ''/''
      else case cstr_at (pmem ps) clus of None \<Rightarrow> Inl OutOfBounds | Some p \<Rightarrow> Inr p)"

text \<open>The root directory shows the files of the program, then those below \<open>$TEMPLEOS\<close>, then the host's.\<close>

definition redsea_file_find ::
  "os_env \<Rightarrow> cstring option \<Rightarrow> builtin_file list \<Rightarrow> u64 \<Rightarrow> cstring \<Rightarrow> cdirentry option \<Rightarrow> u64 \<Rightarrow> path_state \<Rightarrow>
   (u64 \<times> cdirentry option \<times> path_state) res" where
  "redsea_file_find os root builtins clus name r fuf_flags ps =
     res_bind (clus_path ps clus) (\<lambda>dpath.
       case (if dpath = ''/'' \<and> (fuf_flags AND FUF_JUST_DIRS) = 0
             then find (\<lambda>bf. fst bf = name) builtins else None) of
         Some bf \<Rightarrow>
           (case r of
              None \<Rightarrow> Inr (1, None, ps)
            | Some e \<Rightarrow> res_bind (builtin_file_to_cdirentry os bf e ps) (\<lambda>(e, ps). Inr (1, Some e, ps)))
       | None \<Rightarrow>
           res_bind (if dpath = ''/'' \<and> root \<noteq> None
                     then filefind os (fileconcat (the root) (drop 1 dpath)) name r fuf_flags ps
                     else Inr (0, r, ps))
             (\<lambda>(n, r, ps). if n \<noteq> 0 then Inr (n, r, ps) else filefind os dpath name r fuf_flags ps))"

definition syscall_RedSeaFileFind ::
  "env \<Rightarrow> os_env \<Rightarrow> cstring option \<Rightarrow> builtin_file list \<Rightarrow> u64 \<Rightarrow> cstring \<Rightarrow> cdirentry option \<Rightarrow> u64 \<Rightarrow> sys \<Rightarrow>
   ((u64 \<times> cdirentry option) \<times> sys) res option" where
  "syscall_RedSeaFileFind env os root builtins clus name r fuf_flags = host_call env (\<lambda>t s. Some (
     res_bind (redsea_file_find os root builtins clus name r fuf_flags (sy_paths s))
       (\<lambda>(n, r, ps). Inr ((n, r), s\<lparr>sy_paths := ps\<rparr>))))"

definition redsea_file_read ::
  "heap_conf \<Rightarrow> os_env \<Rightarrow> cstring option \<Rightarrow> builtin_file list \<Rightarrow> cstring \<Rightarrow> cstring \<Rightarrow> u64 \<Rightarrow> u64 \<Rightarrow> machine \<Rightarrow>
   (u64 \<times> machine) res option" where
  "redsea_file_read c os root builtins cur_dir filename psize pattr s =
     (case (if cur_dir = ''/'' then find (\<lambda>bf. filename = fst bf) builtins else None) of
        Some bf \<Rightarrow>
          let n = of_nat (length (snd bf));
              s = s\<lparr>mmem := store_if psize n (store_if pattr (file_attr filename False) (mmem s))\<rparr>
          in Some (res_bind (malloc_for_templeos c n (data_heap c) False s) (\<lambda>(buf, s).
               if buf = 0 then Inl NullDeref else Inr (buf, writes [WBytes buf (snd bf)] s)))
      | None \<Rightarrow>
          (case (if root \<noteq> None \<and> cur_dir \<noteq> [] \<and> hd cur_dir = CHR ''/''
                 then fileread c os (fileconcat (fileconcat (the root) (tl cur_dir)) filename) psize pattr s
                 else Some (Inr (0, s))) of
             None \<Rightarrow> None
           | Some (Inl e) \<Rightarrow> Some (Inl e)
           | Some (Inr (buf, s)) \<Rightarrow>
               if buf \<noteq> 0 then Some (Inr (buf, s))
               else fileread c os (fileconcat cur_dir filename) psize pattr s))"

definition syscall_RedSeaFileRead ::
  "env \<Rightarrow> heap_conf \<Rightarrow> os_env \<Rightarrow> cstring option \<Rightarrow> builtin_file list \<Rightarrow> cstring \<Rightarrow> cstring \<Rightarrow> u64 \<Rightarrow> u64 \<Rightarrow> sys \<Rightarrow>
   (u64 \<times> sys) res option" where
  "syscall_RedSeaFileRead env c os root builtins cur_dir filename psize pattr = host_call env (\<lambda>t s.
     map_option (\<lambda>r. res_bind r (\<lambda>(buf, m). Inr (buf, set_mach m s)))
       (redsea_file_read c os root builtins cur_dir filename psize pattr (sy_mach s)))"

text \<open>Where a new file or directory goes: below \<open>$TEMPLEOS\<close> when its directory exists there.\<close>

definition new_path :: "os_env \<Rightarrow> cstring option \<Rightarrow> cstring \<Rightarrow> cstring \<Rightarrow> cstring" where
  "new_path os root cur_dir name =
     (case root of
        None \<Rightarrow> fileconcat cur_dir name
      | Some rt \<Rightarrow>
          let p2 = fileconcat rt cur_dir
          in if os_stat os p2 \<noteq> None then fileconcat p2 name else fileconcat cur_dir name)"

definition redsea_file_write ::
  "os_env \<Rightarrow> cstring option \<Rightarrow> cstring \<Rightarrow> cstring \<Rightarrow> u64 \<Rightarrow> u64 \<Rightarrow> sys \<Rightarrow> (u64 \<times> sys) res option" where
  "redsea_file_write os root cur_dir name buf sz s =
     (let p = new_path os root cur_dir name
      in if \<not> os_create os p then Some (Inr (- 1, s))
         else
           (case write_loop (os_writes os p) (mmem (sy_mach s)) buf (sint sz) [] of
              None \<Rightarrow> None
            | Some (rsz, out) \<Rightarrow>
                let s = s\<lparr>sy_files := (sy_files s)(p \<mapsto> out)\<rparr>
                in if rsz = 0
                   then Some (res_bind (intern_path (os_malloc os) p (sy_paths s))
                     (\<lambda>(clus, ps). Inr (clus, s\<lparr>sy_paths := ps\<rparr>)))
                   else Some (Inr (- 1, s))))"

definition syscall_RedSeaFileWrite ::
  "env \<Rightarrow> os_env \<Rightarrow> cstring option \<Rightarrow> cstring \<Rightarrow> cstring \<Rightarrow> u64 \<Rightarrow> u64 \<Rightarrow> sys \<Rightarrow> (u64 \<times> sys) res option" where
  "syscall_RedSeaFileWrite env os root cur_dir name buf sz =
     host_call env (\<lambda>t s. redsea_file_write os root cur_dir name buf sz s)"

definition syscall_RedSeaMkDir ::
  "env \<Rightarrow> os_env \<Rightarrow> cstring option \<Rightarrow> cstring \<Rightarrow> cstring \<Rightarrow> sys \<Rightarrow> (bool \<times> sys) res option" where
  "syscall_RedSeaMkDir env os root cur_dir name =
     host_call env (\<lambda>t s. Some (Inr (os_mkdir os (new_path os root cur_dir name), s)))"

text \<open>The files of the program that match, the last one first.\<close>

fun find_builtins ::
  "os_env \<Rightarrow> cstring \<Rightarrow> u64 \<Rightarrow> builtin_file list \<Rightarrow> dentry list \<Rightarrow> path_state \<Rightarrow> (dentry list \<times> path_state) res" where
  "find_builtins os masks fuf_flags [] r ps = Inr (r, ps)"
| "find_builtins os masks fuf_flags (bf # bfs) r ps =
     (let full_name = fileconcat DRIVE_ROOT_PATH (fst bf)
      in if \<not> filesfindmatch full_name masks fuf_flags then find_builtins os masks fuf_flags bfs r ps
         else res_bind (builtin_file_to_cdirentry os bf empty_entry ps) (\<lambda>(e, ps).
           find_builtins os masks fuf_flags bfs (DEntry full_name e [] # r) ps))"

text \<open>Sequential composition of searches.\<close>

definition then_find ::
  "(dentry list \<times> path_state) res option \<Rightarrow> (dentry list \<Rightarrow> path_state \<Rightarrow> (dentry list \<times> path_state) res option) \<Rightarrow>
   (dentry list \<times> path_state) res option" where
  "then_find x f = (case x of None \<Rightarrow> None | Some (Inl e) \<Rightarrow> Some (Inl e) | Some (Inr (r, ps)) \<Rightarrow> f r ps)"

definition redsea_files_find ::
  "os_env \<Rightarrow> cstring option \<Rightarrow> builtin_file list \<Rightarrow> cstring \<Rightarrow> cstring \<Rightarrow> u64 \<Rightarrow> path_state \<Rightarrow>
   (dentry list \<times> path_state) res option" where
  "redsea_files_find os root builtins cur_dir masks fuf_flags ps =
     (if cur_dir = ''/'' then
        then_find (then_find
          (Some (if (fuf_flags AND FUF_JUST_DIRS) = 0
                 then find_builtins os masks fuf_flags builtins [] ps else Inr ([], ps)))
          (\<lambda>r ps. case root of
             None \<Rightarrow> Some (Inr (r, ps))
           | Some rt \<Rightarrow> filesfind os rt (length rt) masks fuf_flags r ps))
          (\<lambda>r ps. filesfind os ''/'' 1 masks fuf_flags r ps)
      else
        (case root of
           Some rt \<Rightarrow>
             let p = fileconcat rt cur_dir
             in if os_stat os p \<noteq> None then filesfind os p (length rt + 1) masks fuf_flags [] ps
                else filesfind os cur_dir 1 masks fuf_flags [] ps
         | None \<Rightarrow> filesfind os cur_dir 1 masks fuf_flags [] ps))"

definition syscall_RedSeaFilesFind ::
  "env \<Rightarrow> os_env \<Rightarrow> cstring option \<Rightarrow> builtin_file list \<Rightarrow> cstring \<Rightarrow> u64 \<Rightarrow> sys \<Rightarrow>
   (dentry list \<times> sys) res option" where
  "syscall_RedSeaFilesFind env os root builtins masks fuf_flags = host_call env (\<lambda>t s.
     (case cstr_at (mmem (sy_mach s)) (ld64 (mmem (sy_mach s)) (t_Fs t + fld CTask ''cur_dir'')) of
        None \<Rightarrow> Some (Inl OutOfBounds)
      | Some cur_dir \<Rightarrow>
          map_option (\<lambda>r. res_bind r (\<lambda>(l, ps). Inr (l, s\<lparr>sy_paths := ps\<rparr>)))
            (redsea_files_find os root builtins cur_dir masks fuf_flags (sy_paths s))))"

section \<open>Properties\<close>

text \<open>C8: a system call made by a thread that runs TempleOS code gives its C body the thread that FS
  and GS designate, with the bases of glibc restored, and when the body returns (and keeps the
  thread's structs) the thread is back in TempleOS with its own bases and whatever memory the
  body left.\<close>
theorem host_call_returns:
  assumes t: "in_temple (e_prctl env) t (sy s)"
    and body: "\<And>s1. in_host (e_prctl env) t (sy s1) \<Longrightarrow>
      \<exists>v s2. body t s1 = Some (Inr (v, s2)) \<and> in_host (e_prctl env) t (sy s2)"
  shows "\<exists>s1 v s2 s'. in_host (e_prctl env) t (sy s1) \<and> body t s1 = Some (Inr (v, s2)) \<and>
    host_call env body s = Some (Inr (v, s')) \<and> in_temple (e_prctl env) t (sy s') \<and>
    sy_mach s1 = sy_mach s \<and> sy_mach s' = sy_mach s2"
proof -
  let ?g = "\<lambda>ts. case body t (s\<lparr>sy := ts\<rparr>) of Some (Inr (v, s2)) \<Rightarrow> Inr ((v, s2), sy s2) | _ \<Rightarrow> Inl Aborted"
  have f: "\<exists>r ts2. ?g ts = Inr (r, ts2) \<and> in_host (e_prctl env) t ts2" if "in_host (e_prctl env) t ts" for ts
    using body [of "s\<lparr>sy := ts\<rparr>"] that by auto
  obtain s1 r s2 s' where c: "exit_templeos (e_checks env) (e_prctl env) (sy s) = Inr (t, s1)"
    "?g s1 = Inr (r, s2)" "enter_templeos (e_checks env) (e_prctl env) t s2 = Inr s'" "in_temple (e_prctl env) t s'"
    using ws.syscall_ok [OF t, of "e_checks env" ?g] f by blast
  have h: "in_host (e_prctl env) t s1" using ws.leave_ok [OF t, of "e_checks env"] c(1) by auto
  obtain v x where b: "body t (s\<lparr>sy := s1\<rparr>) = Some (Inr (v, x))" "in_host (e_prctl env) t (sy x)"
    using body [of "s\<lparr>sy := s1\<rparr>"] h by auto
  then have s2: "s2 = sy x" and r: "r = (v, x)" using c(2) by simp_all
  have m: "mach s1 = sy_mach s" using exit_temple [OF t, of "e_checks env"] c(1) by auto
  have "s' = (sy x)\<lparr>gs_base := t_Gs t, fs_base := t_Fs t\<rparr>"
    using enter_host [OF b(2), of "e_checks env"] c(3) by (simp add: s2)
  then have "mach s' = sy_mach x" by simp
  with b c h m have "in_host (e_prctl env) t (sy (s\<lparr>sy := s1\<rparr>)) \<and> body t (s\<lparr>sy := s1\<rparr>) = Some (Inr (v, x)) \<and>
      host_call env body s = Some (Inr (v, x\<lparr>sy := s'\<rparr>)) \<and> in_temple (e_prctl env) t (sy (x\<lparr>sy := s'\<rparr>)) \<and>
      sy_mach (s\<lparr>sy := s1\<rparr>) = sy_mach s \<and> sy_mach (x\<lparr>sy := s'\<rparr>) = sy_mach x"
    by (simp add: host_call_def s2 r)
  then show ?thesis by blast
qed

definition demo_sys :: sys where
  "demo_sys = \<lparr>sy = demo_state\<lparr>fs_base := 0x2000, gs_base := 0x1000\<rparr>,
     sy_paths = \<lparr>pmem = (\<lambda>_. 0), ptable = hash_init 4096, pallocs = 0\<rparr>, sy_stdout = [],
     sy_stdin = ''ls'' @ [CHR 0x0A], sy_files = (\<lambda>_. None)\<rparr>"

definition plain_env :: env where
  "plain_env = \<lparr>e_checks = False, e_prctl = (\<lambda>_. True), e_code = (\<lambda>a args s. Inr (0, s))\<rparr>"

lemma demo_sys_in_temple: "in_temple (e_prctl plain_env) demo_thread (sy demo_sys)"
  using demo_in_host by (simp add: plain_env_def demo_sys_def in_temple_def in_host_def demo_thread_def)

theorem host_call_returns_witness:
  "\<exists>s'. host_call plain_env (\<lambda>t s. Some (Inr (t_Fs t, s\<lparr>sy_stdout := [1]\<rparr>))) demo_sys = Some (Inr (0x2000, s')) \<and>
     in_temple (\<lambda>_. True) demo_thread (sy s')"
proof -
  let ?b = "\<lambda>t s. Some (Inr (t_Fs t, s\<lparr>sy_stdout := [1]\<rparr>)) :: (u64 \<times> sys) res option"
  have "\<exists>v s2. ?b demo_thread s1 = Some (Inr (v, s2)) \<and> in_host (e_prctl plain_env) demo_thread (sy s2)"
    if "in_host (e_prctl plain_env) demo_thread (sy s1)" for s1 using that by auto
  from host_call_returns [where body = ?b, OF demo_sys_in_temple this] show ?thesis
    by (auto simp: demo_thread_def plain_env_def)
qed

text \<open>System calls that only ask the operating system for something are invisible to the thread.\<close>

lemma host_call_pure:
  assumes "in_temple (e_prctl env) t (sy s)"
    and "\<And>ts. body t (s\<lparr>sy := ts\<rparr>) = Some (Inr (v, (f s)\<lparr>sy := ts\<rparr>))"
  shows "host_call env body s = Some (Inr (v, (f s)\<lparr>sy := sy s\<rparr>))"
proof -
  obtain s1 where "exit_templeos (e_checks env) (e_prctl env) (sy s) = Inr (t, s1)"
    "enter_templeos (e_checks env) (e_prctl env) t s1 = Inr (sy s)"
    using ws.syscall_nop [OF assms(1), of "e_checks env"] by blast
  with assms(2) show ?thesis by (simp add: host_call_def)
qed

lemma host_call_id:
  "in_temple (e_prctl env) t (sy s) \<Longrightarrow> host_call env (\<lambda>t s. Some (Inr (v, s))) s = Some (Inr (v, s))"
  using host_call_pure [of env t s "\<lambda>t s. Some (Inr (v, s))" v "\<lambda>s. s"] by simp

text \<open>The console and clock calls, \<open>Busy\<close>, \<open>Yield\<close> and \<open>MkDir\<close> return to the thread exactly the state
  it left, apart from the character printed (a carriage return is printed as the two
  characters \<open>\r\<close>); \<open>CallStkGrow\<close> ends the thread.\<close>
theorem simple_syscalls_transparent:
  assumes "in_temple (e_prctl env) t (sy s)"
  shows "syscall_RawPutChar env c s = Some (Inr ((), s\<lparr>sy_stdout :=
      sy_stdout s @ (if c = 13 then [92, 114] else [ucast c])\<rparr>)) \<and>
    syscall_SysTimerRead env sec nsec s = Some (Inr (timer_ticks sec nsec, s)) \<and>
    syscall_Busy env d s = Some (Inr ((), s)) \<and> syscall_Yield env s = Some (Inr ((), s)) \<and>
    syscall_RedSeaMkDir env os root cur_dir name s = Some (Inr (os_mkdir os (new_path os root cur_dir name), s)) \<and>
    syscall_CallStkGrow env s = Some (Inl ThreadExit)"
proof -
  have "syscall_RawPutChar env c s = Some (Inr ((), (s\<lparr>sy_stdout :=
      sy_stdout s @ (if c = 13 then [92, 114] else [ucast c])\<rparr>)\<lparr>sy := sy s\<rparr>))"
    unfolding syscall_RawPutChar_def
    by (rule host_call_pure [OF assms, where f = "\<lambda>s. s\<lparr>sy_stdout := sy_stdout s @ (if c = 13 then [92, 114] else [ucast c])\<rparr>"])
       simp
  moreover have "syscall_CallStkGrow env s = Some (Inl ThreadExit)"
    using exit_temple [OF assms, of "e_checks env"] by (simp add: syscall_CallStkGrow_def host_call_def)
  ultimately show ?thesis
    by (simp add: host_call_id [OF assms] syscall_SysTimerRead_def syscall_Busy_def syscall_Yield_def syscall_RedSeaMkDir_def)
qed

theorem simple_syscalls_transparent_witness:
  "syscall_RawPutChar plain_env 13 demo_sys = Some (Inr ((), demo_sys\<lparr>sy_stdout := [92, 114]\<rparr>))"
  using simple_syscalls_transparent [OF demo_sys_in_temple, of 13] by (simp add: demo_sys_def)

text \<open>Within a second the timer does not run backwards, but at the end of every second it does: the
  second has 1201471 ticks and its last nanoseconds already count up to 1201923.\<close>
theorem timer_steps_back:
  assumes "unat sec < 2 ^ 32" "unat n \<le> unat n'" "unat n' < 1000000000"
  shows "timer_ticks sec n \<le> timer_ticks sec n' \<and>
    timer_ticks (sec + 1) 0 < timer_ticks sec 999999999 \<and>
    timer_ticks sec 999999999 - timer_ticks (sec + 1) 0 = 452"
proof -
  have u: "unat (timer_ticks x y) = unat y div 832 + unat x * 1201471"
    if "unat x \<le> 2 ^ 32" "unat y < 1000000000" for x y
  proof -
    have d: "unat (y div 832) = unat y div 832" by (simp add: unat_div)
    have m: "unat (x * 1201471) = unat x * 1201471"
      using that(1) by (subst unat_mult_lem [THEN iffD1]) simp_all
    have "unat y div 832 \<le> 999999999 div 832" using that(2) by (intro div_le_mono) simp
    then have "unat y div 832 \<le> 1201923" by simp
    then show ?thesis
      unfolding timer_ticks_def using that d m by (subst unat_plus64) simp_all
  qed
  have s1: "unat (sec + 1) = unat sec + 1" using assms(1) by (subst unat_plus64) simp_all
  have a: "unat (timer_ticks sec 999999999) = 1201923 + unat sec * 1201471"
    using u [of sec 999999999] assms(1) by simp
  have b: "unat (timer_ticks (sec + 1) 0) = (unat sec + 1) * 1201471"
    using u [of "sec + 1" 0] assms(1) s1 by simp
  have "unat (timer_ticks sec n) \<le> unat (timer_ticks sec n')"
    using assms by (simp add: u div_le_mono)
  moreover have "unat (timer_ticks (sec + 1) 0) < unat (timer_ticks sec 999999999)" unfolding a b by simp
  moreover have "unat (timer_ticks sec 999999999 - timer_ticks (sec + 1) 0) = 452"
    using calculation(2) unfolding unat_sub_if_size by (simp add: a b)
  ultimately show ?thesis
    by (simp add: word_le_nat_alt word_less_nat_alt word_unat_eq_iff)
qed

theorem timer_steps_back_witness:
  "timer_ticks 5 1000 \<le> timer_ticks 5 2000 \<and> timer_ticks 5 999999999 - timer_ticks 6 0 = 452"
  using timer_steps_back [of 5 1000 2000] by simp

text \<open>The answers of \<open>write\<close> accept \<open>n\<close> bytes, in whatever pieces.\<close>

fun accepts :: "nat \<Rightarrow> write_result list \<Rightarrow> bool" where
  "accepts n [] = (n = 0)"
| "accepts n (Wrote k # ws) = (n = 0 \<or> k \<le> n \<and> accepts (n - k) ws)"
| "accepts n (WriteAgain # ws) = (n = 0 \<or> accepts n ws)"
| "accepts n (WriteError # ws) = (n = 0)"

lemma write_loop_accepts:
  "accepts n ws \<Longrightarrow> write_loop ws m buf (int n) out = Some (0, out @ ld_bytes m buf n)"
proof (induction n ws arbitrary: buf out rule: accepts.induct)
  case (2 n k ws)
  show ?case
  proof (cases "n = 0")
    case False
    with 2 have k: "k \<le> n" "accepts (n - k) ws" by auto
    have "ld_bytes m buf n = ld_bytes m buf k @ ld_bytes m (buf + of_nat k) (n - k)"
      using ld_bytes_append [of m buf k "n - k"] k(1) by simp
    then show ?thesis
      using False k 2 by (subst write_loop.simps) (simp add: of_nat_diff)
  qed (simp add: write_loop.simps)
qed (simp_all add: write_loop.simps, auto simp: write_loop.simps)

text \<open>C9: when the file can be created and \<open>write\<close> accepts the whole buffer, in any pieces, the new
  file holds the bytes of the buffer and the call returns a cluster that stands for the path
  of the file; when the file cannot be created the call returns -1 and changes nothing.\<close>
theorem file_write_all:
  assumes w: "accepts n (os_writes os (new_path os root cur_dir name))" "sint sz = int n"
    and i: "paths_inv (os_malloc os) L (sy_paths s)" "hash_key_ok (new_path os root cur_dir name)"
      "cstring_ok (new_path os root cur_dir name)" "length (new_path os root cur_dir name) < L"
      "pallocs (sy_paths s) + 2 \<le> N" "blocks_apart (os_malloc os) N L"
  shows "if os_create os (new_path os root cur_dir name)
    then \<exists>clus s'. redsea_file_write os root cur_dir name buf sz s = Some (Inr (clus, s')) \<and>
      cstr_at (pmem (sy_paths s')) clus = Some (new_path os root cur_dir name) \<and>
      sy_files s' = (sy_files s)(new_path os root cur_dir name \<mapsto> ld_bytes (mmem (sy_mach s)) buf n) \<and>
      sy s' = sy s
    else redsea_file_write os root cur_dir name buf sz s = Some (Inr (- 1, s))"
proof -
  let ?p = "new_path os root cur_dir name"
  obtain a ps' where a: "intern_path (os_malloc os) ?p (sy_paths s) = Inr (a, ps')" "cstr_at (pmem ps') a = Some ?p"
    using intern_path_ok [OF i] by blast
  show ?thesis
  proof (cases "os_create os ?p")
    case True
    have "redsea_file_write os root cur_dir name buf sz s = Some (Inr (a,
        s\<lparr>sy_files := (sy_files s)(?p \<mapsto> ld_bytes (mmem (sy_mach s)) buf n), sy_paths := ps'\<rparr>))"
      using True a(1) write_loop_accepts [OF w(1), of "mmem (sy_mach s)" buf "[]"] w(2)
      by (simp add: redsea_file_write_def Let_def)
    with True a(2) show ?thesis by simp
  qed (simp add: redsea_file_write_def Let_def)
qed

theorem file_write_all_witness:
  "\<exists>clus s'. redsea_file_write hello_os None ''/Home'' ''New.HC'' 0x1000 5 demo_sys = Some (Inr (clus, s')) \<and>
     cstr_at (pmem (sy_paths s')) clus = Some ''/Home/New.HC''"
proof -
  have p: "new_path hello_os None ''/Home'' ''New.HC'' = ''/Home/New.HC''"
    by (simp add: new_path_def fileconcat_def)
  have k: "hash_key_ok ''/Home/New.HC''" "cstring_ok ''/Home/New.HC''"
    by (simp_all add: hash_key_ok_ascii cstring_ok_def)
  have o: "os_create hello_os q" "os_writes hello_os q = [Wrote 2, WriteAgain, Wrote 3]" "os_malloc hello_os = bump_alloc" for q
    by (simp_all add: hello_os_def)
  have d: "paths_inv bump_alloc 4096 (sy_paths demo_sys)" "pallocs (sy_paths demo_sys) = 0"
    using hello_paths by (simp_all add: demo_sys_def)
  show ?thesis
    using file_write_all [of 5 hello_os None "''/Home''" "''New.HC''" 5 4096 demo_sys 1000 "0x1000"]
    by (auto simp: p k o d bump_alloc_apart)
qed

text \<open>\<open>GetS\<close> stores the next line of the standard input, without its newline unless the extended
  form is asked for, and returns its length; what follows the line stays to be read.\<close>
theorem gets_reads_line:
  assumes "sy_stdin s = line @ CHR 0x0A # rest" "CHR 0x0A \<notin> set line" "cstring_ok line"
    and "sint (ucast sz :: u32) > int (length line) + 1" "length line < 2 ^ 31"
  shows "\<exists>s'. gets_body buf sz 0 s = Inr (of_nat (length line), s') \<and>
    cstr_at (mmem (sy_mach s')) buf = Some line \<and> sy_stdin s' = rest"
proof -
  let ?l = "line @ [CHR 0x0A]" and ?n = "sint (ucast sz :: u32)"
  have tw: "takeWhile (\<lambda>c. c \<noteq> CHR 0x0A) (line @ CHR 0x0A # rest) = line"
    using assms(2) by (subst takeWhile_append2) auto
  have lo: "line_of (sy_stdin s) = ?l" using assms(1) by (simp add: line_of_def tw)
  have "take (nat (?n - 1)) ?l = ?l" using assms(4) by simp
  then have fg: "fgets ?n (sy_stdin s) = Some (?l, rest)"
    using assms(1,4) lo by (simp add: fgets_def Let_def)
  have nn: "takeWhile (\<lambda>c. c \<noteq> CHR 0x00) ?l = ?l"
    using assms(3) by (auto simp: takeWhile_eq_all_conv cstring_ok_def)
  let ?m = "mmem (writes [W8 (buf + of_nat (length line)) 0] (writes [WStr buf ?l] (sy_mach s)))"
  have b1: "bytes_at (mmem (writes [WStr buf ?l] (sy_mach s))) buf (cstr_bytes ?l)"
    using writes_last [of "[WStr buf ?l]" "[]" "WStr buf ?l" "[]" "sy_mach s"] assms(5) by simp
  then have "bytes_at (mmem (writes [WStr buf ?l] (sy_mach s))) buf (map (\<lambda>c. of_nat (of_char c)) line)"
    by (simp add: cstr_bytes_def bytes_at_append)
  from writes_bytes_at [OF _ _ this, of "[W8 (buf + of_nat (length line)) 0]"]
  have "bytes_at ?m buf (map (\<lambda>c. of_nat (of_char c)) line)"
    using disjoint_fields [of 0 "length line" "length line" 1 buf] assms(5) by (simp add: write_off_def)
  moreover have "bytes_at ?m (buf + of_nat (length line)) [0]"
    using writes_last [of "[W8 (buf + of_nat (length line)) 0]" "[]" "W8 (buf + of_nat (length line)) 0" "[]"] by simp
  ultimately have "bytes_at ?m buf (cstr_bytes line)"
    by (simp add: cstr_bytes_def bytes_at_append)
  then have "cstr_at ?m buf = Some line" by (rule cstr_at_bytes_at [OF assms(3)])
  moreover have "gets_body buf sz 0 s = Inr (of_nat (length line),
      set_mach (writes [W8 (buf + of_nat (length line)) 0] (writes [WStr buf ?l] (sy_mach s)))
        (set_mach (writes [WStr buf ?l] (sy_mach s)) (s\<lparr>sy_stdin := rest\<rparr>)))"
    unfolding gets_body_def fg by (simp add: Let_def nn set_mach_def)
  ultimately show ?thesis by (simp add: set_mach_def)
qed

theorem gets_reads_line_witness:
  "\<exists>s'. gets_body 0x9000 80 0 demo_sys = Inr (2, s') \<and>
     cstr_at (mmem (sy_mach s')) 0x9000 = Some ''ls'' \<and> sy_stdin s' = []"
proof -
  have "(sint (ucast (80 :: u64) :: u32)) = 80" by simp
  then show ?thesis
    using gets_reads_line [of demo_sys "''ls''" "[]" 80 "0x9000"] by (simp add: demo_sys_def cstring_ok_def)
qed

end
