(* ===== verification/TaskSync.thy ===== *)
theory TaskSync
  imports Syscalls
begin

text \<open>
  Synchronisation of tasks: the hand-shake between \<open>syscall_Spawn\<close> and
  \<open>templeos_task_start\<close>, and the mutex and condition variables of a task with the operations
  \<open>lilith_lock_task\<close>, \<open>lilith_unlock_task\<close>, \<open>lilith_wait_for_*\<close> and \<open>lilith_signal_*\<close>
  (\<open>lilith/syscalls.c\<close>, \<open>lilith/task.c\<close>). Threads are interleaved step by step. Unlocking does not look
  at who has the mutex, so exclusion is a property of the threads that unlock only what they locked.
\<close>

unbundle bit_operations_syntax

section \<open>The monitor of a task\<close>

text \<open>
  \<open>lilith_task_mutex\<close> with its two condition variables. Every operation of a thread on it begins
  outside; the steps of the operations are separate, so other threads may run in between.
\<close>

datatype cond = Enqueued | Idle

datatype place =
    Outside
  | Locked             \<comment> \<open>after \<open>lilith_lock_task\<close>\<close>
  | ToWait cond        \<comment> \<open>has the mutex, before \<open>pthread_cond_wait\<close>\<close>
  | Waiting cond       \<comment> \<open>inside \<open>pthread_cond_wait\<close>, without the mutex\<close>
  | Woken              \<comment> \<open>inside \<open>pthread_cond_wait\<close>, waiting for the mutex\<close>
  | ToSignal cond      \<comment> \<open>has the mutex, before \<open>pthread_cond_broadcast\<close>\<close>
  | ToUnlock           \<comment> \<open>has the mutex, before \<open>pthread_mutex_unlock\<close>\<close>

record monitor =
  owner :: "nat option"
  places :: "nat \<Rightarrow> place"

definition mutex_lock :: "nat \<Rightarrow> place \<Rightarrow> monitor \<Rightarrow> monitor option" where
  "mutex_lock i p m =
     (if owner m = None then Some (m\<lparr>owner := Some i, places := (places m)(i := p)\<rparr>) else None)"

definition mutex_unlock :: "nat \<Rightarrow> monitor \<Rightarrow> monitor" where
  "mutex_unlock i m = m\<lparr>owner := None, places := (places m)(i := Outside)\<rparr>"

text \<open>\<open>pthread_cond_wait\<close> gives the mutex back; \<open>pthread_cond_broadcast\<close> wakes all that wait.\<close>

definition cond_wait :: "nat \<Rightarrow> cond \<Rightarrow> monitor \<Rightarrow> monitor" where
  "cond_wait i c m = m\<lparr>owner := None, places := (places m)(i := Waiting c)\<rparr>"

definition cond_broadcast :: "nat \<Rightarrow> cond \<Rightarrow> monitor \<Rightarrow> monitor" where
  "cond_broadcast i c m =
     m\<lparr>places := (\<lambda>j. if places m j = Waiting c then Woken else places m j)(i := ToUnlock)\<rparr>"

text \<open>
  The system calls, each for the thread \<open>i\<close>, as the step from one place to the next; \<open>None\<close> is a
  thread that blocks.
\<close>

definition lilith_lock_task :: "nat \<Rightarrow> monitor \<Rightarrow> monitor option" where
  "lilith_lock_task i m = (if places m i = Outside then mutex_lock i Locked m else None)"

text \<open>Unlocking asks for no owner: a thread outside may do it too, and the mutex is then free.\<close>

definition lilith_unlock_task :: "nat \<Rightarrow> monitor \<Rightarrow> monitor option" where
  "lilith_unlock_task i m =
     (if places m i = Outside \<or> places m i = Locked then Some (mutex_unlock i m) else None)"

definition wait_step :: "cond \<Rightarrow> nat \<Rightarrow> monitor \<Rightarrow> monitor option" where
  "wait_step c i m =
     (case places m i of
        Outside \<Rightarrow> mutex_lock i (ToWait c) m
      | ToWait d \<Rightarrow> if d = c then Some (cond_wait i c m) else None
      | Woken \<Rightarrow> mutex_lock i ToUnlock m
      | ToUnlock \<Rightarrow> Some (mutex_unlock i m)
      | _ \<Rightarrow> None)"

definition signal_step :: "cond \<Rightarrow> nat \<Rightarrow> monitor \<Rightarrow> monitor option" where
  "signal_step c i m =
     (case places m i of
        Outside \<Rightarrow> mutex_lock i (ToSignal c) m
      | ToSignal d \<Rightarrow> if d = c then Some (cond_broadcast i c m) else None
      | ToUnlock \<Rightarrow> Some (mutex_unlock i m)
      | _ \<Rightarrow> None)"

definition lilith_wait_for_enqueued_task :: "nat \<Rightarrow> monitor \<Rightarrow> monitor option" where
  "lilith_wait_for_enqueued_task = wait_step Enqueued"

definition lilith_signal_enqueued_task :: "nat \<Rightarrow> monitor \<Rightarrow> monitor option" where
  "lilith_signal_enqueued_task = signal_step Enqueued"

definition lilith_wait_for_idle_task :: "nat \<Rightarrow> monitor \<Rightarrow> monitor option" where
  "lilith_wait_for_idle_task = wait_step Idle"

definition lilith_signal_idle_task :: "nat \<Rightarrow> monitor \<Rightarrow> monitor option" where
  "lilith_signal_idle_task = signal_step Idle"

text \<open>The task that is locked: the given one, or the caller's own for NULL.\<close>

definition lock_target :: "tthread \<Rightarrow> u64 \<Rightarrow> u64" where
  "lock_target t task = (if task = 0 then t_Fs t else task)"

definition lilith_replace_syscall :: "env \<Rightarrow> cstring \<Rightarrow> u64 \<Rightarrow> sys \<Rightarrow> (unit \<times> sys) res option" where
  "lilith_replace_syscall env name dest = host_call env (\<lambda>t s. Some (
     res_bind (trampoline_kernel_patch (Some (t_Fs t)) name dest (sy_mach s)) (\<lambda>m. Inr ((), set_mach m s))))"

text \<open>
  What can happen next: a step of a thread, with the operation it is in, or a wait that wakes up on its own.
  An interleaving is a list of these, none of which is a step of a thread that blocks.
\<close>

datatype event = Locks nat | Unlocks nat | Waits cond nat | Signals cond nat | Wakes nat

fun mon_step :: "event \<Rightarrow> monitor \<Rightarrow> monitor option" where
  "mon_step (Locks i) m = lilith_lock_task i m"
| "mon_step (Unlocks i) m = lilith_unlock_task i m"
| "mon_step (Waits c i) m = wait_step c i m"
| "mon_step (Signals c i) m = signal_step c i m"
| "mon_step (Wakes i) m =
     (case places m i of Waiting c \<Rightarrow> Some (m\<lparr>places := (places m)(i := Woken)\<rparr>) | _ \<Rightarrow> None)"

fun mon_run :: "event list \<Rightarrow> monitor \<Rightarrow> monitor option" where
  "mon_run [] m = Some m"
| "mon_run (e # es) m = Option.bind (mon_step e m) (mon_run es)"

definition mon_init :: monitor where
  "mon_init = \<lparr>owner = None, places = (\<lambda>_. Outside)\<rparr>"

text \<open>Every thread unlocks only what it has locked; \<open>T\<close> are the threads that have locked.\<close>

fun disciplined :: "nat set \<Rightarrow> event list \<Rightarrow> bool" where
  "disciplined T [] = True"
| "disciplined T (Locks i # es) = disciplined (insert i T) es"
| "disciplined T (Unlocks i # es) = (i \<in> T \<and> disciplined (T - {i}) es)"
| "disciplined T (_ # es) = disciplined T es"

definition holds :: "place \<Rightarrow> bool" where
  "holds p \<longleftrightarrow> p \<notin> {Outside, Woken} \<and> (\<forall>c. p \<noteq> Waiting c)"

definition mon_inv :: "monitor \<Rightarrow> bool" where
  "mon_inv m \<longleftrightarrow> (\<forall>i. holds (places m i) \<longleftrightarrow> owner m = Some i)"

lemma holds_simps [simp]:
  "\<not> holds Outside" "holds Locked" "holds (ToWait c)" "\<not> holds (Waiting c)" "\<not> holds Woken"
  "holds (ToSignal c)" "holds ToUnlock"
  by (simp_all add: holds_def)

lemma mon_inv_ops:
  "mon_inv m \<Longrightarrow> mutex_lock i p m = Some m' \<Longrightarrow> holds p \<Longrightarrow> mon_inv m'"
  "mon_inv m \<Longrightarrow> holds (places m i) \<Longrightarrow> mon_inv (mutex_unlock i m)"
  "mon_inv m \<Longrightarrow> holds (places m i) \<Longrightarrow> mon_inv (cond_wait i c m)"
  "mon_inv m \<Longrightarrow> holds (places m i) \<Longrightarrow> mon_inv (cond_broadcast i c m)"
  "mon_inv m \<Longrightarrow> places m i = Waiting c \<Longrightarrow> mon_inv (m\<lparr>places := (places m)(i := Woken)\<rparr>)"
proof -
  show "mon_inv m \<Longrightarrow> mutex_lock i p m = Some m' \<Longrightarrow> holds p \<Longrightarrow> mon_inv m'"
    by (auto simp: mon_inv_def mutex_lock_def split: if_splits)
  show "mon_inv m \<Longrightarrow> holds (places m i) \<Longrightarrow> mon_inv (mutex_unlock i m)"
    by (auto simp: mon_inv_def mutex_unlock_def)
  show "mon_inv m \<Longrightarrow> holds (places m i) \<Longrightarrow> mon_inv (cond_wait i c m)"
    by (auto simp: mon_inv_def cond_wait_def)
  show "mon_inv m \<Longrightarrow> holds (places m i) \<Longrightarrow> mon_inv (cond_broadcast i c m)"
    by (auto simp: mon_inv_def cond_broadcast_def split: if_splits)
  show "mon_inv m \<Longrightarrow> places m i = Waiting c \<Longrightarrow> mon_inv (m\<lparr>places := (places m)(i := Woken)\<rparr>)"
    by (auto simp: mon_inv_def) (metis holds_simps(4))
qed

lemma mon_step_inv:
  assumes "mon_inv m" "mon_step e m = Some m'" "\<And>i. e = Unlocks i \<Longrightarrow> holds (places m i)"
  shows "mon_inv m'"
proof (cases e)
  case (Locks i)
  then show ?thesis
    using assms mon_inv_ops(1) [of m i Locked m'] by (simp add: lilith_lock_task_def split: if_splits)
next
  case (Unlocks i)
  then show ?thesis
    using assms mon_inv_ops(2) [of m i] by (auto simp: lilith_unlock_task_def split: if_splits)
next
  case (Waits c i)
  then show ?thesis
    using assms mon_inv_ops(1) [of m i "ToWait c" m'] mon_inv_ops(1) [of m i ToUnlock m'] mon_inv_ops(2) [of m i]
      mon_inv_ops(3) [of m i c]
    by (auto simp: wait_step_def split: place.splits if_splits)
next
  case (Signals c i)
  then show ?thesis
    using assms mon_inv_ops(1) [of m i "ToSignal c" m'] mon_inv_ops(2) [of m i] mon_inv_ops(4) [of m i c]
    by (auto simp: signal_step_def split: place.splits if_splits)
next
  case (Wakes i)
  then show ?thesis using assms mon_inv_ops(5) [of m i] by (auto split: place.splits)
qed

text \<open>The threads that have locked are those that the discipline counts.\<close>

lemma mon_step_locked:
  "mon_step e m = Some m' \<Longrightarrow> {i. places m' i = Locked} =
    (case e of Locks i \<Rightarrow> insert i {i. places m i = Locked} | Unlocks i \<Rightarrow> {i. places m i = Locked} - {i}
     | _ \<Rightarrow> {i. places m i = Locked})"
  by (cases e)
    (auto simp: lilith_lock_task_def lilith_unlock_task_def wait_step_def signal_step_def mutex_lock_def mutex_unlock_def
      cond_wait_def cond_broadcast_def split: place.splits if_splits)

lemma mon_run_inv:
  "mon_run es m = Some m' \<Longrightarrow> disciplined {i. places m i = Locked} es \<Longrightarrow> mon_inv m \<Longrightarrow> mon_inv m'"
proof (induction es arbitrary: m)
  case (Cons e es)
  then obtain m1 where m1: "mon_step e m = Some m1" "mon_run es m1 = Some m'"
    by (auto simp: bind_eq_Some_conv)
  have "disciplined {i. places m1 i = Locked} es"
    using Cons.prems(2) unfolding mon_step_locked [OF m1(1)] by (cases e) simp_all
  moreover have "mon_inv m1"
    by (rule mon_step_inv [OF Cons.prems(3) m1(1)]) (use Cons.prems(2) in auto)
  ultimately show ?case using Cons.IH m1(2) by blast
qed simp

text \<open>C19: as long as every thread unlocks a task only after it has locked it, then whatever the interleaving of the lock,
  unlock, wait and signal calls of any number of threads on the task, and however often waits wake up on their own,
  at most one thread is between acquiring and releasing the task's mutex, and it is the owner.\<close>
theorem task_mutex_exclusive:
  assumes "mon_run es mon_init = Some m" "disciplined {} es" "holds (places m i)"
  shows "owner m = Some i \<and> (\<forall>j. holds (places m j) \<longrightarrow> j = i)"
proof -
  have "mon_inv m"
    by (rule mon_run_inv [OF assms(1)]) (use assms(2) in \<open>simp_all add: mon_init_def mon_inv_def\<close>)
  with assms(3) show ?thesis by (simp add: mon_inv_def)
qed

text \<open>
  Thread 5 waits, 4 signals and wakes it, 3 locks before 5 has the mutex again; then 3 unlocks, 5 goes on with the
  mutex and 4 can not lock.
\<close>

definition handover :: "event list" where
  "handover = [Waits Idle 5, Waits Idle 5, Signals Idle 4, Signals Idle 4, Signals Idle 4, Locks 3, Unlocks 3, Waits Idle 5]"

theorem task_mutex_exclusive_witness:
  "\<exists>m. mon_run handover mon_init = Some m \<and> owner m = Some 5 \<and> \<not> holds (places m 3) \<and> mon_step (Locks 4) m = None"
proof -
  obtain m where m: "mon_run handover mon_init = Some m" "places m 5 = ToUnlock" "places m 4 = Outside"
    by (simp add: handover_def mon_init_def wait_step_def signal_step_def lilith_lock_task_def lilith_unlock_task_def
      mutex_lock_def mutex_unlock_def cond_wait_def cond_broadcast_def)
  have "disciplined {} handover" by (simp add: handover_def)
  from task_mutex_exclusive [OF m(1) this, of 5] m(2)
  have e: "owner m = Some 5" "\<forall>j. holds (places m j) \<longrightarrow> j = 5" by simp_all
  then have "\<not> holds (places m 3)" by force
  with m(1,3) e(1) show ?thesis by (auto simp: lilith_lock_task_def mutex_lock_def)
qed

text \<open>Without the discipline exclusion is lost: thread 1 unlocks what thread 0 has locked, and locks it itself.\<close>

lemma stray_unlock_breaks_exclusion:
  "\<exists>m. mon_run [Locks 0, Unlocks 1, Locks 1] mon_init = Some m \<and> holds (places m 0) \<and> holds (places m 1)"
  by (simp add: mon_init_def lilith_lock_task_def lilith_unlock_task_def mutex_lock_def mutex_unlock_def)

section \<open>The hand-shake of Spawn\<close>

text \<open>
  After \<open>pthread_create\<close> the spawner (thread 0) waits on \<open>lilith_idle_cond\<close> of the new task; the
  new thread (1) sets its task up, puts itself on the list and broadcasts on that condition. Then it runs
  TempleOS code, which may lock, unlock, wait for and signal the task, that too on the same condition, as often as
  it likes.
\<close>

datatype child_place = T_Init | T_Signal | T_Run
datatype spawner_place = S_Wait | S_Done

record handshake =
  hs_mon :: monitor
  hs_registered :: bool
  hs_child :: child_place
  hs_spawner :: spawner_place

inductive spawner_step :: "handshake \<Rightarrow> handshake \<Rightarrow> bool" where
  "hs_spawner h = S_Wait \<Longrightarrow> lilith_wait_for_idle_task 0 (hs_mon h) = Some m' \<Longrightarrow>
   spawner_step h (h\<lparr>hs_mon := m', hs_spawner := (if places (hs_mon h) 0 = ToUnlock then S_Done else S_Wait)\<rparr>)"

inductive child_step :: "handshake \<Rightarrow> handshake \<Rightarrow> bool" where
  register: "hs_child h = T_Init \<Longrightarrow> child_step h (h\<lparr>hs_registered := True, hs_child := T_Signal\<rparr>)"
| signal: "hs_child h = T_Signal \<Longrightarrow> lilith_signal_idle_task 1 (hs_mon h) = Some m' \<Longrightarrow>
   child_step h (h\<lparr>hs_mon := m', hs_child := (if places (hs_mon h) 1 = ToUnlock then T_Run else T_Signal)\<rparr>)"
| run: "hs_child h = T_Run \<Longrightarrow> e \<in> {Locks 1, Unlocks 1, Waits c 1, Signals c 1} \<Longrightarrow>
   mon_step e (hs_mon h) = Some m' \<Longrightarrow> child_step h (h\<lparr>hs_mon := m'\<rparr>)"

inductive spawn_reach :: "handshake \<Rightarrow> bool" where
  start: "spawn_reach \<lparr>hs_mon = \<lparr>owner = None, places = (\<lambda>_. Outside)\<rparr>, hs_registered = False,
     hs_child = T_Init, hs_spawner = S_Wait\<rparr>"
| spawner: "spawn_reach h \<Longrightarrow> spawner_step h h' \<Longrightarrow> spawn_reach h'"
| child: "spawn_reach h \<Longrightarrow> child_step h h' \<Longrightarrow> spawn_reach h'"

inductive_cases spawner_stepE [step_elims]: "spawner_step h h'"
inductive_cases child_stepE [step_elims]: "child_step h h'"

definition handshake_inv :: "handshake \<Rightarrow> bool" where
  "handshake_inv h \<longleftrightarrow>
     (places (hs_mon h) 0 \<in> {Woken, ToUnlock} \<or> hs_spawner h = S_Done \<longrightarrow> hs_registered h) \<and>
     (hs_child h \<noteq> T_Init \<longrightarrow> hs_registered h)"

lemma handshake_inv_spawner: "spawner_step h h' \<Longrightarrow> handshake_inv h \<Longrightarrow> handshake_inv h'"
  by (elim step_elims)
     (auto simp: handshake_inv_def lilith_wait_for_idle_task_def wait_step_def mutex_lock_def mutex_unlock_def
       cond_wait_def split: place.splits if_splits)

lemma handshake_inv_child: "child_step h h' \<Longrightarrow> handshake_inv h \<Longrightarrow> handshake_inv h'"
  by (elim step_elims) (auto simp: handshake_inv_def)

lemma handshake_inv_reach: "spawn_reach h \<Longrightarrow> handshake_inv h"
  by (induction rule: spawn_reach.induct)
     (simp_all add: handshake_inv_spawner handshake_inv_child, simp add: handshake_inv_def)

text \<open>C20: as long as waits do not wake up on their own, \<open>Spawn\<close> returns only when the new thread has set
  up its task and is on the list of threads.\<close>
theorem spawn_waits_for_child:
  assumes "spawn_reach h" "hs_spawner h = S_Done"
  shows "hs_registered h"
  using handshake_inv_reach [OF assms(1)] assms(2) by (simp add: handshake_inv_def)

text \<open>An interleaving in which all goes well, and one in which the new thread is faster.\<close>

definition hs :: "nat option \<Rightarrow> place \<Rightarrow> place \<Rightarrow> bool \<Rightarrow> child_place \<Rightarrow> spawner_place \<Rightarrow> handshake" where
  "hs ow p0 p1 reg c sp = \<lparr>hs_mon = \<lparr>owner = ow, places = (\<lambda>_. Outside)(0 := p0, 1 := p1)\<rparr>,
     hs_registered = reg, hs_child = c, hs_spawner = sp\<rparr>"

lemma hs_start: "spawn_reach (hs None Outside Outside False T_Init S_Wait)"
  using spawn_reach.start by (simp add: hs_def fun_upd_idem)

lemma hs_spawner_step:
  assumes "spawn_reach (hs ow p0 p1 reg c S_Wait)"
    and "wait_step Idle 0 \<lparr>owner = ow, places = (\<lambda>_. Outside)(0 := p0, 1 := p1)\<rparr> =
      Some \<lparr>owner = ow', places = (\<lambda>_. Outside)(0 := p0', 1 := p1)\<rparr>"
  shows "spawn_reach (hs ow' p0' p1 reg c (if p0 = ToUnlock then S_Done else S_Wait))"
proof -
  have "spawner_step (hs ow p0 p1 reg c S_Wait) (hs ow' p0' p1 reg c (if p0 = ToUnlock then S_Done else S_Wait))"
    using spawner_step.intros [of "hs ow p0 p1 reg c S_Wait"] assms(2)
    by (simp add: hs_def lilith_wait_for_idle_task_def)
  with assms(1) show ?thesis by (rule spawn_reach.spawner)
qed

lemma hs_child_register:
  "spawn_reach (hs ow p0 p1 reg T_Init sp) \<Longrightarrow> spawn_reach (hs ow p0 p1 True T_Signal sp)"
proof -
  assume r: "spawn_reach (hs ow p0 p1 reg T_Init sp)"
  have "child_step (hs ow p0 p1 reg T_Init sp) (hs ow p0 p1 True T_Signal sp)"
    using child_step.register [of "hs ow p0 p1 reg T_Init sp"] by (simp add: hs_def)
  with r show ?thesis by (rule spawn_reach.child)
qed

lemma hs_child_signal:
  assumes "spawn_reach (hs ow p0 p1 reg T_Signal sp)"
    and "signal_step Idle 1 \<lparr>owner = ow, places = (\<lambda>_. Outside)(0 := p0, 1 := p1)\<rparr> =
      Some \<lparr>owner = ow', places = (\<lambda>_. Outside)(0 := p0', 1 := p1')\<rparr>"
  shows "spawn_reach (hs ow' p0' p1' reg (if p1 = ToUnlock then T_Run else T_Signal) sp)"
proof -
  have "child_step (hs ow p0 p1 reg T_Signal sp) (hs ow' p0' p1' reg (if p1 = ToUnlock then T_Run else T_Signal) sp)"
    using child_step.signal [of "hs ow p0 p1 reg T_Signal sp"] assms(2)
    by (simp add: hs_def lilith_signal_idle_task_def)
  with assms(1) show ?thesis by (rule spawn_reach.child)
qed

lemmas hs_ops = wait_step_def signal_step_def mutex_lock_def mutex_unlock_def cond_wait_def cond_broadcast_def

lemma spawn_good_run: "spawn_reach (hs None Outside Outside True T_Run S_Done)"
proof -
  note hs_start
  from hs_spawner_step [OF this, of "Some 0" "ToWait Idle"]
  have "spawn_reach (hs (Some 0) (ToWait Idle) Outside False T_Init S_Wait)" by (simp add: hs_ops fun_upd_twist)
  from hs_spawner_step [OF this, of None "Waiting Idle"]
  have "spawn_reach (hs None (Waiting Idle) Outside False T_Init S_Wait)" by (simp add: hs_ops fun_upd_twist)
  from hs_child_register [OF this]
  have "spawn_reach (hs None (Waiting Idle) Outside True T_Signal S_Wait)" .
  from hs_child_signal [OF this, of "Some 1" "Waiting Idle" "ToSignal Idle"]
  have "spawn_reach (hs (Some 1) (Waiting Idle) (ToSignal Idle) True T_Signal S_Wait)" by (simp add: hs_ops)
  from hs_child_signal [OF this, of "Some 1" Woken ToUnlock]
  have "spawn_reach (hs (Some 1) Woken ToUnlock True T_Signal S_Wait)"
    by (simp add: hs_ops fun_eq_iff)
  from hs_child_signal [OF this, of None Woken Outside]
  have "spawn_reach (hs None Woken Outside True T_Run S_Wait)" by (simp add: hs_ops)
  from hs_spawner_step [OF this, of "Some 0" ToUnlock]
  have "spawn_reach (hs (Some 0) ToUnlock Outside True T_Run S_Wait)" by (simp add: hs_ops fun_upd_twist)
  from hs_spawner_step [OF this, of None Outside] show ?thesis by (simp add: hs_ops fun_upd_twist)
qed

theorem spawn_waits_for_child_witness:
  "hs_registered (hs None Outside Outside True T_Run S_Done)"
  by (rule spawn_waits_for_child [OF spawn_good_run]) (simp add: hs_def)

section \<open>A broadcast that is lost\<close>

text \<open>
  The new thread is faster: it broadcasts before the spawner waits. What can happen then without another signal on
  the condition and without a wait that wakes up on its own: steps of the spawner, and whatever the TempleOS code of
  the new thread does but signalling that its task is idle.
\<close>

definition lost_wakeup :: handshake where
  "lost_wakeup = hs None (Waiting Idle) Outside True T_Run S_Wait"

inductive quiet_step :: "handshake \<Rightarrow> handshake \<Rightarrow> bool" where
  spawner: "spawner_step h h' \<Longrightarrow> quiet_step h h'"
| child: "hs_child h = T_Run \<Longrightarrow> e \<in> {Locks 1, Unlocks 1, Waits c 1, Signals Enqueued 1} \<Longrightarrow>
   mon_step e (hs_mon h) = Some m' \<Longrightarrow> quiet_step h (h\<lparr>hs_mon := m'\<rparr>)"

inductive_cases quiet_stepE: "quiet_step h h'"

lemma quiet_step_reach: "quiet_step h h' \<Longrightarrow> spawn_reach h \<Longrightarrow> spawn_reach h'"
proof (induction rule: quiet_step.induct)
  case (spawner h h')
  then show ?case by (blast intro: spawn_reach.spawner)
next
  case (child h e c m')
  then have "e \<in> {Locks 1, Unlocks 1, Waits c 1, Signals Enqueued 1}" by simp
  then have "child_step h (h\<lparr>hs_mon := m'\<rparr>)"
  proof (elim insertE emptyE)
    assume "e = Signals Enqueued 1"
    then show ?thesis using child child_step.run [of h e Enqueued m'] by simp
  qed (use child child_step.run [of h e c m'] in simp_all)
  then show ?case using child.prems by (rule spawn_reach.child [rotated])
qed

definition hanging :: "handshake \<Rightarrow> bool" where
  "hanging h \<longleftrightarrow> hs_spawner h = S_Wait \<and> hs_child h = T_Run \<and> places (hs_mon h) 0 = Waiting Idle \<and>
     places (hs_mon h) 1 \<noteq> ToSignal Idle"

lemma quiet_step_hanging: "quiet_step h h' \<Longrightarrow> hanging h \<Longrightarrow> hanging h'"
proof (induction rule: quiet_step.induct)
  case (spawner h h')
  then show ?case
    by (auto simp: hanging_def lilith_wait_for_idle_task_def wait_step_def elim: spawner_stepE)
next
  case (child h e c m')
  have "places m' 0 = Waiting Idle \<and> places m' 1 \<noteq> ToSignal Idle"
    using child unfolding hanging_def
    by (cases e)
      (auto simp: lilith_lock_task_def lilith_unlock_task_def hs_ops split: place.splits if_splits)
  then show ?case using child.prems by (simp add: hanging_def)
qed

lemma lost_wakeup_reach: "spawn_reach lost_wakeup"
proof -
  note hs_start
  from hs_child_register [OF this] have "spawn_reach (hs None Outside Outside True T_Signal S_Wait)" .
  from hs_child_signal [OF this, of "Some 1" Outside "ToSignal Idle"]
  have "spawn_reach (hs (Some 1) Outside (ToSignal Idle) True T_Signal S_Wait)" by (simp add: hs_ops)
  from hs_child_signal [OF this, of "Some 1" Outside ToUnlock]
  have "spawn_reach (hs (Some 1) Outside ToUnlock True T_Signal S_Wait)" by (simp add: hs_ops fun_eq_iff)
  from hs_child_signal [OF this, of None Outside Outside]
  have "spawn_reach (hs None Outside Outside True T_Run S_Wait)" by (simp add: hs_ops)
  from hs_spawner_step [OF this, of "Some 0" "ToWait Idle"]
  have "spawn_reach (hs (Some 0) (ToWait Idle) Outside True T_Run S_Wait)" by (simp add: hs_ops fun_upd_twist)
  from hs_spawner_step [OF this, of None "Waiting Idle"]
  show ?thesis by (simp add: lost_wakeup_def hs_ops fun_upd_twist)
qed

text \<open>C21: the broadcast is lost when the new thread makes it before the spawner waits. \<open>Spawn\<close> is then stuck in its
  wait although the task is set up and runs: whatever the two threads do afterwards, it has not returned, unless a wait
  wakes up on its own or someone signals the condition once more, which only TempleOS code does (when the task has
  finished a job).\<close>
theorem spawn_lost_wakeup:
  assumes "quiet_step\<^sup>*\<^sup>* lost_wakeup h"
  shows "spawn_reach h \<and> hs_registered h \<and> hs_child h = T_Run \<and> hs_spawner h = S_Wait \<and> places (hs_mon h) 0 = Waiting Idle"
proof -
  have "spawn_reach h \<and> hanging h" using assms
  proof induction
    case base
    show ?case using lost_wakeup_reach by (simp add: lost_wakeup_def hs_def hanging_def)
  next
    case (step h h')
    then show ?case using quiet_step_reach quiet_step_hanging by blast
  qed
  moreover have "hs_registered h" if "spawn_reach h" "hs_child h \<noteq> T_Init"
    using that handshake_inv_reach by (simp add: handshake_inv_def)
  ultimately show ?thesis by (simp add: hanging_def)
qed

text \<open>The new task goes on to wait for a job.\<close>

theorem spawn_lost_wakeup_witness:
  "\<exists>h. quiet_step\<^sup>*\<^sup>* lost_wakeup h \<and> places (hs_mon h) 1 = Waiting Enqueued \<and> hs_registered h \<and> hs_spawner h = S_Wait"
proof -
  let ?h1 = "hs (Some 1) (Waiting Idle) (ToWait Enqueued) True T_Run S_Wait"
  let ?h2 = "hs None (Waiting Idle) (Waiting Enqueued) True T_Run S_Wait"
  have "quiet_step lost_wakeup ?h1"
    using quiet_step.child [of lost_wakeup "Waits Enqueued 1" Enqueued "hs_mon ?h1"]
    by (simp add: lost_wakeup_def hs_def hs_ops)
  moreover have "quiet_step ?h1 ?h2"
    using quiet_step.child [of ?h1 "Waits Enqueued 1" Enqueued "hs_mon ?h2"] by (simp add: hs_def hs_ops)
  ultimately have r: "quiet_step\<^sup>*\<^sup>* lost_wakeup ?h2" by simp
  from spawn_lost_wakeup [OF this] have "hs_registered ?h2 \<and> hs_spawner ?h2 = S_Wait" by blast
  with r show ?thesis by (intro exI [of _ ?h2]) (simp add: hs_def)
qed

text \<open>A signal from the code of the new task lets \<open>Spawn\<close> return.\<close>

inductive hs_step :: "handshake \<Rightarrow> handshake \<Rightarrow> bool" where
  spawner: "spawner_step h h' \<Longrightarrow> hs_step h h'"
| child: "child_step h h' \<Longrightarrow> hs_step h h'"

lemma lost_wakeup_released: "hs_step\<^sup>*\<^sup>* lost_wakeup (hs None Outside Outside True T_Run S_Done)"
proof -
  let ?c = "\<lambda>ow p0 p1. hs ow p0 p1 True T_Run S_Wait"
  have child: "hs_step (?c ow p0 p1) (?c ow' p0' p1')"
    if "signal_step Idle 1 (hs_mon (?c ow p0 p1)) = Some (hs_mon (?c ow' p0' p1'))" for ow p0 p1 ow' p0' p1'
    using child_step.run [of "?c ow p0 p1" "Signals Idle 1" Idle "hs_mon (?c ow' p0' p1')"] that
    by (intro hs_step.child) (simp add: hs_def)
  have spawner: "hs_step (?c ow p0 p1) (hs ow' p0' p1 True T_Run (if p0 = ToUnlock then S_Done else S_Wait))"
    if "wait_step Idle 0 (hs_mon (?c ow p0 p1)) = Some (hs_mon (?c ow' p0' p1))" for ow p0 p1 ow' p0'
    using spawner_step.intros [of "?c ow p0 p1" "hs_mon (?c ow' p0' p1)"] that
    by (intro hs_step.spawner) (simp add: hs_def lilith_wait_for_idle_task_def)
  have "hs_step lost_wakeup (?c (Some 1) (Waiting Idle) (ToSignal Idle))"
    unfolding lost_wakeup_def by (rule child) (simp add: hs_def hs_ops)
  moreover have "hs_step (?c (Some 1) (Waiting Idle) (ToSignal Idle)) (?c (Some 1) Woken ToUnlock)"
    by (rule child) (simp add: hs_def hs_ops fun_eq_iff)
  moreover have "hs_step (?c (Some 1) Woken ToUnlock) (?c None Woken Outside)"
    by (rule child) (simp add: hs_def hs_ops)
  moreover have "hs_step (?c None Woken Outside) (?c (Some 0) ToUnlock Outside)"
    using spawner [of None Woken Outside "Some 0" ToUnlock] by (simp add: hs_def hs_ops fun_upd_twist)
  moreover have "hs_step (?c (Some 0) ToUnlock Outside) (hs None Outside Outside True T_Run S_Done)"
    using spawner [of "Some 0" ToUnlock Outside None Outside] by (simp add: hs_def hs_ops fun_upd_twist)
  ultimately show ?thesis
    by (elim converse_rtranclp_into_rtranclp) simp
qed

end
