(* ===== verification/SizeClass.thy ===== *)
theory SizeClass
  imports Prelude
begin

text \<open>
  The arithmetic of the block allocator (\<open>stb_malloc.h\<close>): the logarithm, the scan of a bitmap from the
  left, the alignment of an address, and the size classes of free blocks and requests. Each is
  shown to compute what its name says: the position of the top bit, the first bit that is set,
  the next aligned address, the greatest class that is not larger and the least class that is not
  smaller than a size.
\<close>

unbundle bit_operations_syntax

section \<open>Integers\<close>

text \<open>\<open>stbm__log2_floor\<close>: the table covers 16 values; a step that shifts all bits out leaves 0, whose
  entry is -1.\<close>

definition log2_4 :: "int list" where
  "log2_4 = [-1, 0, 1, 1, 2, 2, 2, 2, 3, 3, 3, 3, 3, 3, 3, 3]"

definition stbm_log2_floor :: "u32 \<Rightarrow> int" where
  "stbm_log2_floor n =
     (let (t, n) = (if n \<ge> push_bit 19 1 then (20, drop_bit 20 n) else (0, n));
          (t, n) = (if n \<ge> push_bit 9 1 then (t + 10, drop_bit 10 n) else (t, n));
          (t, n) = (if n \<ge> push_bit 4 1 then (t + 5, drop_bit 5 n) else (t, n))
      in t + log2_4 ! unat n)"

text \<open>Bitmaps are scanned from the left.\<close>

definition find_leftmost_one_bit_after_skipping :: "u32 \<Rightarrow> nat \<Rightarrow> int" where
  "find_leftmost_one_bit_after_skipping val minbitpos =
     31 - stbm_log2_floor (val AND drop_bit minbitpos 0xffffffff)"

definition align_address :: "nat \<Rightarrow> nat \<Rightarrow> nat \<Rightarrow> nat res" where
  "align_address ptr al align_off =
     (let align_mask = (of_nat al - 1 :: u64);
          cur_off = of_nat ptr AND align_mask;
          address = of_nat ptr + ((of_nat align_off - cur_off) AND align_mask)
      in if address AND align_mask = of_nat align_off then Inr (unat address) else Inl (ExitWith 1))"

section \<open>Size classes\<close>

definition STBM_NUM_INDICES :: nat where "STBM_NUM_INDICES = 13"
definition STBM_NUM_SLOTS :: nat where "STBM_NUM_SLOTS = 32"
definition STBM_SIZECLASS_MAX :: nat where "STBM_SIZECLASS_MAX = 1032192"

definition stbm_size_classes :: "nat list list" where
  "stbm_size_classes =
   [[0, 8, 16, 24, 32, 40, 48, 56, 64, 72, 80,
     88, 96, 104, 112, 120, 128, 136, 144, 152, 160, 168,
     176, 184, 192, 200, 208, 216, 224, 232, 240, 248],
    [256, 264, 272, 280, 288, 296, 304, 312, 320, 328, 336,
     344, 352, 360, 368, 376, 384, 392, 400, 408, 416, 424,
     432, 440, 448, 456, 464, 472, 480, 488, 496, 504],
    [512, 528, 544, 560, 576, 592, 608, 624, 640, 656, 672,
     688, 704, 720, 736, 752, 768, 784, 800, 816, 832, 848,
     864, 880, 896, 912, 928, 944, 960, 976, 992, 1008],
    [1024, 1056, 1088, 1120, 1152, 1184, 1216, 1248, 1280, 1312, 1344,
     1376, 1408, 1440, 1472, 1504, 1536, 1568, 1600, 1632, 1664, 1696,
     1728, 1760, 1792, 1824, 1856, 1888, 1920, 1952, 1984, 2016],
    [2048, 2112, 2176, 2240, 2304, 2368, 2432, 2496, 2560, 2624, 2688,
     2752, 2816, 2880, 2944, 3008, 3072, 3136, 3200, 3264, 3328, 3392,
     3456, 3520, 3584, 3648, 3712, 3776, 3840, 3904, 3968, 4032],
    [4096, 4224, 4352, 4480, 4608, 4736, 4864, 4992, 5120, 5248, 5376,
     5504, 5632, 5760, 5888, 6016, 6144, 6272, 6400, 6528, 6656, 6784,
     6912, 7040, 7168, 7296, 7424, 7552, 7680, 7808, 7936, 8064],
    [8192, 8448, 8704, 8960, 9216, 9472, 9728, 9984, 10240, 10496, 10752,
     11008, 11264, 11520, 11776, 12032, 12288, 12544, 12800, 13056, 13312, 13568,
     13824, 14080, 14336, 14592, 14848, 15104, 15360, 15616, 15872, 16128],
    [16384, 16896, 17408, 17920, 18432, 18944, 19456, 19968, 20480, 20992, 21504,
     22016, 22528, 23040, 23552, 24064, 24576, 25088, 25600, 26112, 26624, 27136,
     27648, 28160, 28672, 29184, 29696, 30208, 30720, 31232, 31744, 32256],
    [32768, 33792, 34816, 35840, 36864, 37888, 38912, 39936, 40960, 41984, 43008,
     44032, 45056, 46080, 47104, 48128, 49152, 50176, 51200, 52224, 53248, 54272,
     55296, 56320, 57344, 58368, 59392, 60416, 61440, 62464, 63488, 64512],
    [65536, 67584, 69632, 71680, 73728, 75776, 77824, 79872, 81920, 83968, 86016,
     88064, 90112, 92160, 94208, 96256, 98304, 100352, 102400, 104448, 106496, 108544,
     110592, 112640, 114688, 116736, 118784, 120832, 122880, 124928, 126976, 129024],
    [131072, 135168, 139264, 143360, 147456, 151552, 155648, 159744, 163840, 167936, 172032,
     176128, 180224, 184320, 188416, 192512, 196608, 200704, 204800, 208896, 212992, 217088,
     221184, 225280, 229376, 233472, 237568, 241664, 245760, 249856, 253952, 258048],
    [262144, 270336, 278528, 286720, 294912, 303104, 311296, 319488, 327680, 335872, 344064,
     352256, 360448, 368640, 376832, 385024, 393216, 401408, 409600, 417792, 425984, 434176,
     442368, 450560, 458752, 466944, 475136, 483328, 491520, 499712, 507904, 516096],
    [524288, 540672, 557056, 573440, 589824, 606208, 622592, 638976, 655360, 671744, 688128,
     704512, 720896, 737280, 753664, 770048, 786432, 802816, 819200, 835584, 851968, 868352,
     884736, 901120, 917504, 933888, 950272, 966656, 983040, 999424, 1015808, 1032192]]"

definition size_for_index_slot :: "nat \<Rightarrow> nat \<Rightarrow> nat" where
  "size_for_index_slot i s = stbm_size_classes ! i ! s"

definition size_for_index_slot_calc :: "nat \<Rightarrow> nat \<Rightarrow> nat" where
  "size_for_index_slot_calc i s =
     (if i = 0 then s * 8 else push_bit i 128 + s * push_bit i 4)"

text \<open>The class that a free block of a size belongs to.\<close>

definition index_slot_for_free_block :: "nat \<Rightarrow> (nat \<times> nat) res" where
  "index_slot_for_free_block size0 =
     (let (index, slot) =
        (if size0 < 256 then (0, drop_bit 3 size0)
         else let index = nat (stbm_log2_floor (of_nat size0) - 7)
              in (index, drop_bit (index + 2) (size0 - push_bit index 128)))
      in if index < STBM_NUM_INDICES \<and> slot < STBM_NUM_SLOTS \<and> size_for_index_slot index slot \<le> size0
         then Inr (index, slot) else Inl (ExitWith 1))"

text \<open>The class whose blocks satisfy a request.\<close>

definition index_slot_for_request :: "nat \<Rightarrow> (nat \<times> nat) res" where
  "index_slot_for_request size0 =
     res_bind (index_slot_for_free_block size0) (\<lambda>(index, slot).
       let (index, slot) =
             (if size0 > size_for_index_slot index slot
              then (if slot + 1 = STBM_NUM_SLOTS then (index + 1, 0) else (index, slot + 1))
              else (index, slot))
       in if index < STBM_NUM_INDICES \<and> slot < STBM_NUM_SLOTS \<and> size0 \<le> size_for_index_slot index slot
          then Inr (index, slot) else Inl (ExitWith 1))"
section \<open>The logarithm and the scan of a bitmap\<close>

lemma log2_4_nth:
  assumes "0 < n" "n < 16"
  shows "\<exists>k. log2_4 ! n = int k \<and> 2 ^ k \<le> n \<and> n < 2 ^ Suc k"
proof -
  have "\<forall>n \<in> set [1..<16]. \<exists>k \<in> set [0..<4]. log2_4 ! n = int k \<and> 2 ^ k \<le> n \<and> n < 2 ^ Suc k"
    by (simp add: upt_rec log2_4_def)
  moreover have "n \<in> set [1..<16]" using assms by simp
  ultimately show ?thesis by blast
qed

text \<open>One step of the search: shifting by \<open>d\<close> from \<open>2 ^ (d - 1)\<close> on adds \<open>d\<close> to the logarithm.\<close>

definition is_log2 :: "int \<Rightarrow> nat \<Rightarrow> bool" where
  "is_log2 l n \<longleftrightarrow> (if n = 0 then l = - 1 else \<exists>k. l = int k \<and> 2 ^ k \<le> n \<and> n < 2 ^ Suc k)"

lemma is_log2_shift:
  assumes "is_log2 l (n div 2 ^ d)" "2 ^ (d - 1) \<le> n" "0 < d"
  shows "is_log2 (l + int d) n"
proof (cases "n div 2 ^ d = 0")
  case True
  then have "n < 2 ^ d" by (simp add: div_eq_0_iff)
  moreover have "2 ^ d = (2 * 2 ^ (d - 1) :: nat)" using assms(3) by (cases d) simp_all
  moreover have "l + int d = int (d - 1)" using assms(1,3) True by (simp add: is_log2_def)
  moreover have "0 < n" using assms(2) by (meson less_le_trans zero_less_numeral zero_less_power)
  ultimately show ?thesis using assms(2,3) by (auto simp: is_log2_def intro!: exI [of _ "d - 1"])
next
  case False
  then obtain k where k: "l = int k" "2 ^ k \<le> n div 2 ^ d" "n div 2 ^ d < 2 ^ Suc k"
    using assms(1) by (auto simp: is_log2_def)
  have "2 ^ (k + d) \<le> n" using k(2) by (simp add: power_add less_eq_div_iff_mult_less_eq)
  moreover have "n < 2 ^ Suc (k + d)"
    using k(3) by (simp add: power_add div_less_iff_less_mult mult.assoc)
  moreover have "n \<noteq> 0" using False by (metis div_0)
  ultimately show ?thesis using k(1) by (auto simp: is_log2_def intro!: exI [of _ "k + d"])
qed

lemma stbm_log2_floor_is_log2: "is_log2 (stbm_log2_floor n) (unat n)"
proof -
  define a where "a = (if 2 ^ 19 \<le> unat n then unat n div 2 ^ 20 else unat n)"
  define b where "b = (if 2 ^ 9 \<le> a then a div 2 ^ 10 else a)"
  define c where "c = (if 2 ^ 4 \<le> b then b div 2 ^ 5 else b)"
  have u: "unat n < 2 ^ 32" by (rule unat_bound32)
  have a: "a < 2 ^ 19" using u by (auto simp: a_def)
  have b: "b < 2 ^ 9" using a by (auto simp: b_def)
  have c: "c < 16" using b by (auto simp: c_def)
  have "is_log2 (log2_4 ! c) c"
    using log2_4_nth [of c] c by (cases "c = 0") (auto simp: is_log2_def log2_4_def)
  then have lb: "is_log2 ((if 2 ^ 4 \<le> b then 5 else 0) + log2_4 ! c) b"
    using is_log2_shift [of "log2_4 ! c" b 5] by (auto simp: c_def algebra_simps)
  then have la: "is_log2 ((if 2 ^ 9 \<le> a then 10 else 0) + ((if 2 ^ 4 \<le> b then 5 else 0) + log2_4 ! c)) a"
    using is_log2_shift [of "(if 2 ^ 4 \<le> b then 5 else 0) + log2_4 ! c" a 10]
    by (auto simp: b_def algebra_simps split: if_splits)
  then have ln: "is_log2 ((if 2 ^ 19 \<le> unat n then 20 else 0) +
      ((if 2 ^ 9 \<le> a then 10 else 0) + ((if 2 ^ 4 \<le> b then 5 else 0) + log2_4 ! c))) (unat n)"
    using is_log2_shift [of "(if 2 ^ 9 \<le> a then 10 else 0) + ((if 2 ^ 4 \<le> b then 5 else 0) + log2_4 ! c)" "unat n" 20]
    by (auto simp: a_def algebra_simps split: if_splits)
  have d: "unat (drop_bit k w) = unat w div 2 ^ k" for k and w :: u32
    by (simp only: drop_bit_eq_div [symmetric] unat_drop_bit_eq)
  have "stbm_log2_floor n = (if 2 ^ 19 \<le> unat n then 20 else 0) +
      ((if 2 ^ 9 \<le> a then 10 else 0) + ((if 2 ^ 4 \<le> b then 5 else 0) + log2_4 ! c))"
    unfolding stbm_log2_floor_def a_def b_def c_def
    by (auto simp: word_le_nat_alt d Let_def simp del: drop_bit_drop_bit)
  with ln show ?thesis by simp
qed

lemma is_log2_unique: "is_log2 l n \<Longrightarrow> 2 ^ k \<le> n \<Longrightarrow> n < 2 ^ Suc k \<Longrightarrow> l = int k"
proof -
  assume l: "is_log2 l n" and n: "2 ^ k \<le> n" "n < 2 ^ Suc k"
  have "0 < n" using n(1) by (meson less_le_trans zero_less_numeral zero_less_power)
  then obtain j where j: "l = int j" "2 ^ j \<le> n" "n < 2 ^ Suc j" using l by (auto simp: is_log2_def)
  have "(2 :: nat) ^ j < 2 ^ Suc k" using j(2) n(2) by (rule le_less_trans)
  moreover have "(2 :: nat) ^ k < 2 ^ Suc j" using n(1) j(3) by (rule le_less_trans)
  ultimately have "j < Suc k" "k < Suc j" by (simp_all only: power_strict_increasing_iff one_less_numeral_iff semiring_norm)
  with j(1) show ?thesis by simp
qed

text \<open>The first bit of a bitmap, from the left, that is set at position \<open>m\<close> or after it; 32 if there is none.\<close>

definition first_bit :: "u32 \<Rightarrow> nat \<Rightarrow> nat \<Rightarrow> bool" where
  "first_bit v m r \<longleftrightarrow> (if r < 32 then m \<le> r \<and> bit v (31 - r) \<and> (\<forall>j. m \<le> j \<longrightarrow> j < r \<longrightarrow> \<not> bit v (31 - j))
     else r = 32 \<and> (\<forall>j. m \<le> j \<longrightarrow> j < 32 \<longrightarrow> \<not> bit v (31 - j)))"

lemma top_bit:
  fixes w :: u32
  assumes "2 ^ k \<le> unat w" "unat w < 2 ^ Suc k" "k < 32"
  shows "bit w k" "\<And>j. k < j \<Longrightarrow> \<not> bit w j"
proof -
  have "unat w div 2 ^ k = 1" using assms(1,2) by (intro div_nat_eqI) simp_all
  then have "odd (unat w div 2 ^ k)" by simp
  then have "bit (unat w) k" by (simp add: bit_iff_odd)
  then show "bit w k" by (simp add: bit_unsigned_iff)
  fix j assume "k < j"
  then have "(2 :: nat) ^ Suc k \<le> 2 ^ j" by (intro power_increasing) simp_all
  then have "unat w div 2 ^ j = 0" using assms(2) by simp
  then have "\<not> bit (unat w) j" by (simp add: bit_iff_odd)
  then show "\<not> bit w j" by (auto simp: bit_unsigned_iff dest: bit_imp_le_length)
qed

lemma find_leftmost_first_bit:
  assumes "m \<le> 32"
  obtains r where "find_leftmost_one_bit_after_skipping v m = int r" "first_bit v m r"
proof -
  define w where "w = v AND drop_bit m 0xffffffff"
  have bw: "bit w (31 - j) \<longleftrightarrow> bit v (31 - j) \<and> m \<le> j" if "j < 32" for j
  proof -
    have "(0xffffffff :: u32) = mask 32" by (simp add: mask_eq_exp_minus_1)
    then have "w = v AND drop_bit m (mask 32)" by (simp only: w_def)
    then show ?thesis using that assms
      by (auto simp: bit_and_iff bit_drop_bit_eq bit_mask_iff)
  qed
  have l: "is_log2 (stbm_log2_floor w) (unat w)" by (rule stbm_log2_floor_is_log2)
  have f: "find_leftmost_one_bit_after_skipping v m = 31 - stbm_log2_floor w"
    by (simp add: find_leftmost_one_bit_after_skipping_def w_def)
  show ?thesis
  proof (cases "unat w = 0")
    case True
    then have "w = 0" by (simp add: unat_eq_zero)
    then have "first_bit v m 32" using bw by (auto simp: first_bit_def)
    then show ?thesis using that [of 32] f l True by (simp add: is_log2_def)
  next
    case False
    then obtain k where k: "stbm_log2_floor w = int k" "2 ^ k \<le> unat w" "unat w < 2 ^ Suc k"
      using l by (auto simp: is_log2_def)
    have "k < 32"
      using le_less_trans [OF k(2) unat_bound32] by (simp only: power_strict_increasing_iff one_less_numeral_iff semiring_norm)
    have t: "bit w k" "\<not> bit w j" if "k < j" for j
      using top_bit [OF k(2,3) \<open>k < 32\<close>] that by auto
    have lt: "31 - k < 32" by simp
    have "first_bit v m (31 - k)"
      unfolding first_bit_def if_P [OF lt]
    proof (intro conjI allI impI)
      show "m \<le> 31 - k" "bit v (31 - (31 - k))"
        using bw [of "31 - k"] t(1) [of "Suc k"] \<open>k < 32\<close> by auto
      fix j assume "m \<le> j" "j < 31 - k"
      then show "\<not> bit v (31 - j)" using bw [of j] t(2) [of "31 - j"] by auto
    qed
    then show ?thesis using that [of "31 - k"] f k(1) \<open>k < 32\<close> by simp
  qed
qed

section \<open>Alignment\<close>

lemma align_address_16:
  assumes "ptr < 2 ^ 63" "off < 16"
  shows "align_address ptr 16 off = Inr (ptr + (off + 16 - ptr mod 16) mod 16)"
proof -
  have mask: "(of_nat 16 - 1 :: u64) = mask 4" by (simp add: mask_eq_exp_minus_1)
  define a where "a = (of_nat ptr :: u64)"
  define d where "d = (of_nat off - take_bit 4 a :: u64)"
  have ua: "unat a = ptr" using assms(1) by (simp add: a_def unat_of_nat)
  have tb: "unat (take_bit 4 x) = unat x mod 16" for x :: u64
    by (simp only: unsigned_take_bit_eq) (simp add: take_bit_eq_mod)
  have d: "take_bit 4 d = take_bit 4 (of_nat (off + 16 - ptr mod 16))"
  proof -
    have "(of_nat (off + 16 - ptr mod 16) :: u64) = of_nat off + 16 - of_nat (ptr mod 16)"
      by (simp add: of_nat_diff trans_le_add2)
    moreover have "(of_nat (ptr mod 16) :: u64) = take_bit 4 a"
      by (simp add: a_def of_nat_take_bit [symmetric] take_bit_eq_mod [of 4 ptr, symmetric, simplified])
    ultimately have e: "of_nat (off + 16 - ptr mod 16) = d + 16" by (simp add: d_def)
    moreover have "take_bit 4 (d + 16) = take_bit 4 d"
      by (simp add: word_unat_eq_iff tb unat_word_ariths mod_mod_cancel)
    ultimately show ?thesis by (simp only: e)
  qed
  moreover have "unat (of_nat (off + 16 - ptr mod 16) :: u64) = off + 16 - ptr mod 16"
    unfolding unat_of_nat by (rule mod_less) (use assms(2) in simp)
  ultimately have ud: "unat (take_bit 4 d) = (off + 16 - ptr mod 16) mod 16"
    by (simp only: tb)
  have u: "unat (a + take_bit 4 d) = ptr + (off + 16 - ptr mod 16) mod 16"
  proof -
    have "(off + 16 - ptr mod 16) mod 16 < 16" by simp
    then have "unat a + unat (take_bit 4 d) < 2 ^ 64" using assms(1) ua ud by simp
    then show ?thesis by (simp add: unat_plus64 ua ud)
  qed
  have "ptr + (off + 16 - ptr mod 16) = off + 16 * (ptr div 16 + 1)"
  proof -
    have "p + (off + 16 - r) = off + 16 * (q + 1)" if "q * 16 + r = p" "r < 16" for p q r
      using that by simp
    from this [OF div_mult_mod_eq] show ?thesis by simp
  qed
  then have "(ptr + (off + 16 - ptr mod 16) mod 16) mod 16 = (off + 16 * (ptr div 16 + 1)) mod 16"
    by (simp only: mod_add_right_eq)
  then have "(ptr + (off + 16 - ptr mod 16) mod 16) mod 16 = off"
    using assms(2) by (simp only: mod_mult_self2 mod_less)
  then have "take_bit 4 (a + take_bit 4 d) = of_nat off"
    using assms(2) by (simp add: word_unat_eq_iff tb u unat_of_nat)
  then show ?thesis
    unfolding align_address_def mask Let_def a_def [symmetric] take_bit_eq_mask [symmetric] d_def [symmetric]
    by (simp only: if_True u simp_thms)
qed

section \<open>The size classes in order\<close>

definition class_size :: "nat \<Rightarrow> nat" where
  "class_size k = size_for_index_slot_calc (k div 32) (k mod 32)"

lemma size_classes_calc:
  "stbm_size_classes = map (\<lambda>i. map (size_for_index_slot_calc i) [0..<32]) [0..<13]"
  by (simp add: stbm_size_classes_def size_for_index_slot_calc_def upt_rec push_bit_eq_mult)

lemma size_for_index_slot_class:
  "i < 13 \<Longrightarrow> s < 32 \<Longrightarrow> size_for_index_slot i s = class_size (i * 32 + s)"
  by (simp add: size_for_index_slot_def size_classes_calc class_size_def)

lemma class_size_Suc: "class_size (Suc k) = class_size k + (if k < 32 then 8 else 4 * 2 ^ (k div 32))"
proof -
  define i s where "i = k div 32" and "s = k mod 32"
  have k: "k = i * 32 + s" "s < 32" by (simp_all add: i_def s_def)
  have "k < 32 \<longleftrightarrow> i = 0" using k by (cases i) auto
  then show ?thesis
  proof (cases "s = 31")
    case True
    then have "Suc k = Suc i * 32" using k by simp
    then have "Suc k div 32 = Suc i" "Suc k mod 32 = 0" by simp_all
    then show ?thesis
      using True \<open>k < 32 \<longleftrightarrow> i = 0\<close>
      by (simp add: class_size_def i_def [symmetric] s_def [symmetric] size_for_index_slot_calc_def push_bit_eq_mult)
  next
    case False
    then have "Suc k div 32 = i" "Suc k mod 32 = Suc s" using k by (auto simp: div_nat_eqI mod_Suc)
    then show ?thesis
      using \<open>k < 32 \<longleftrightarrow> i = 0\<close>
      by (simp add: class_size_def i_def [symmetric] s_def [symmetric] size_for_index_slot_calc_def push_bit_eq_mult)
  qed
qed

lemma class_size_less: "j < k \<Longrightarrow> class_size j < class_size k"
  by (rule lift_Suc_mono_less [of class_size]) (simp_all add: class_size_Suc)

lemma class_size_le: "j \<le> k \<Longrightarrow> class_size j \<le> class_size k"
  using class_size_less [of j k] by (cases "j = k") auto

lemma class_size_less_iff: "class_size j < class_size k \<longleftrightarrow> j < k"
  using class_size_less class_size_le by (meson not_less)

lemma class_size_415: "class_size 415 = STBM_SIZECLASS_MAX"
  by (simp add: class_size_def size_for_index_slot_calc_def push_bit_eq_mult STBM_SIZECLASS_MAX_def)

text \<open>A free block belongs to the greatest class that is not larger than it.\<close>

lemma index_slot_for_free_block_class:
  assumes "n < 2 ^ 20"
  obtains i s where "index_slot_for_free_block n = Inr (i, s)" "i < 13" "s < 32"
    "class_size (i * 32 + s) \<le> n" "n < class_size (Suc (i * 32 + s))"
proof (cases "n < 256")
  case True
  define s where "s = n div 8"
  have s: "s < 32" "s * 8 \<le> n" "n < s * 8 + 8" using True by (auto simp: s_def)
  have "index_slot_for_free_block n = Inr (0, s)"
    using True s by (simp add: index_slot_for_free_block_def drop_bit_eq_div s_def [symmetric]
      STBM_NUM_INDICES_def STBM_NUM_SLOTS_def size_for_index_slot_class class_size_def size_for_index_slot_calc_def)
  then show ?thesis using s by (intro that [of 0 s]) (simp_all add: class_size_Suc, simp_all add: class_size_def size_for_index_slot_calc_def)
next
  case False
  have u: "unat (of_nat n :: u32) = n" using assms by (simp add: unat_of_nat)
  obtain k where k: "stbm_log2_floor (of_nat n) = int k" "2 ^ k \<le> n" "n < 2 ^ Suc k"
    using stbm_log2_floor_is_log2 [of "of_nat n"] False u by (auto simp: is_log2_def)
  have "(2 :: nat) ^ 8 < 2 ^ Suc k" "(2 :: nat) ^ k < 2 ^ 20" using k False assms by simp_all
  then have "8 \<le> k" "k < 20" by (simp_all only: power_strict_increasing_iff one_less_numeral_iff semiring_norm)
  define i where "i = k - 7"
  have i: "k = i + 7" "1 \<le> i" "i < 13" using \<open>8 \<le> k\<close> \<open>k < 20\<close> by (simp_all add: i_def)
  define s where "s = (n - 2 ^ k) div 2 ^ (i + 2)"
  have p: "(2 :: nat) ^ k = 32 * 2 ^ (i + 2)" using i by (simp add: power_add)
  have s: "s < 32" using k(3) p by (simp add: s_def div_less_iff_less_mult)
  have le: "2 ^ k + s * 2 ^ (i + 2) \<le> n" "n < 2 ^ k + s * 2 ^ (i + 2) + 2 ^ (i + 2)"
  proof -
    have "s * 2 ^ (i + 2) + (n - 2 ^ k) mod 2 ^ (i + 2) = n - 2 ^ k"
      unfolding s_def by (rule div_mult_mod_eq)
    moreover have "(n - 2 ^ k) mod 2 ^ (i + 2) < 2 ^ (i + 2)" by simp
    ultimately show "2 ^ k + s * 2 ^ (i + 2) \<le> n" "n < 2 ^ k + s * 2 ^ (i + 2) + 2 ^ (i + 2)"
      using k(2) by linarith+
  qed
  have c: "class_size (i * 32 + s) = 2 ^ k + s * 2 ^ (i + 2)"
    using s i by (simp add: class_size_def size_for_index_slot_calc_def push_bit_eq_mult power_add)
  have sd: "(n - 128 * 2 ^ i) div (4 * 2 ^ i) = s" using i by (simp add: s_def power_add mult.commute)
  have "index_slot_for_free_block n = Inr (i, s)"
    using False k i s le(1) c sd
    by (simp add: index_slot_for_free_block_def push_bit_eq_mult drop_bit_eq_div Let_def s_def [symmetric]
      STBM_NUM_INDICES_def STBM_NUM_SLOTS_def size_for_index_slot_class power_add [of 2 i 7, simplified, symmetric])
  then show ?thesis using i s le c
    by (intro that [of i s]) (simp_all add: class_size_Suc power_add)
qed

text \<open>A request gets the least class that is not smaller than it.\<close>

lemma index_slot_for_request_class:
  assumes "n \<le> STBM_SIZECLASS_MAX"
  obtains i s where "index_slot_for_request n = Inr (i, s)" "i < 13" "s < 32"
    "n \<le> class_size (i * 32 + s)" "\<And>k. n \<le> class_size k \<Longrightarrow> i * 32 + s \<le> k"
proof -
  have "n < 2 ^ 20" using assms by (simp add: STBM_SIZECLASS_MAX_def)
  then obtain i s where f: "index_slot_for_free_block n = Inr (i, s)" "i < 13" "s < 32"
    "class_size (i * 32 + s) \<le> n" "n < class_size (Suc (i * 32 + s))"
    by (rule index_slot_for_free_block_class)
  show ?thesis
  proof (cases "class_size (i * 32 + s) = n")
    case True
    then have "index_slot_for_request n = Inr (i, s)"
      using f by (simp add: index_slot_for_request_def size_for_index_slot_class STBM_NUM_INDICES_def STBM_NUM_SLOTS_def)
    then show ?thesis using that f True by (metis class_size_less not_less)
  next
    case False
    then have lt: "class_size (i * 32 + s) < n" using f(4) by simp
    define i' where "i' = (if s = 31 then i + 1 else i)"
    define s' where "s' = (if s = 31 then 0 else s + 1)"
    have e: "i' * 32 + s' = Suc (i * 32 + s)" "s' < 32" using f(3) by (auto simp: i'_def s'_def)
    have "class_size (i * 32 + s) < class_size 415" using lt assms by (simp add: class_size_415)
    then have "i * 32 + s < 415" by (simp only: class_size_less_iff)
    then have "i' < 13" using f(2,3) by (auto simp: i'_def)
    moreover have "index_slot_for_request n = Inr (i', s')"
      using f lt e \<open>i' < 13\<close>
      by (auto simp: index_slot_for_request_def size_for_index_slot_class STBM_NUM_INDICES_def STBM_NUM_SLOTS_def
        i'_def s'_def split: if_splits)
    moreover have "i' * 32 + s' \<le> k" if "n \<le> class_size k" for k
      using that lt e(1) class_size_less_iff [of "i * 32 + s" k] by simp
    ultimately show ?thesis using that e f(5) by auto
  qed
qed

text \<open>A request of a multiple of 16 gets a class whose size is one.\<close>

lemma index_slot_for_request_16:
  assumes "index_slot_for_request n = Inr (i, s)" "n \<le> STBM_SIZECLASS_MAX" "n mod 16 = 0"
  shows "class_size (i * 32 + s) mod 16 = 0"
proof -
  obtain i' s' where r: "index_slot_for_request n = Inr (i', s')" "i' < 13" "s' < 32"
    "n \<le> class_size (i' * 32 + s')" "\<And>k. n \<le> class_size k \<Longrightarrow> i' * 32 + s' \<le> k"
    using index_slot_for_request_class [OF assms(2)] by blast
  with assms(1) have i: "i < 13" "s < 32" "n \<le> class_size (i * 32 + s)"
    "\<And>k. n \<le> class_size k \<Longrightarrow> i * 32 + s \<le> k" by auto
  show ?thesis
  proof (cases "i < 2")
    case True
    have c: "class_size k = 8 * k" if "k \<le> 64" for k
      using that
    proof (induction k)
      case 0
      then show ?case by (simp add: class_size_def size_for_index_slot_calc_def)
    next
      case (Suc k)
      have "k div 32 = 1" if "\<not> k < 32" using Suc.prems that by (intro div_nat_eqI) simp_all
      with Suc show ?case by (simp add: class_size_Suc)
    qed
    have k: "i * 32 + s < 64" using True i(2) by auto
    then have "n \<le> 8 * (n div 8)" "n div 8 \<le> 64" using i(3) c [of "i * 32 + s"] assms(3) by auto
    then have "i * 32 + s \<le> n div 8" using i(4) [of "n div 8"] c by simp
    then have "8 * (i * 32 + s) \<le> n" by (simp add: less_eq_div_iff_mult_less_eq)
    then have "class_size (i * 32 + s) = n" using c [of "i * 32 + s"] k i(3) by simp
    then show ?thesis using assms(3) by simp
  next
    case False
    define j where "j = i - 2"
    have j: "i = j + 2" using False by (simp add: j_def)
    have "class_size (i * 32 + s) = 128 * 2 ^ i + s * (4 * 2 ^ i)"
      using i(2) False by (simp add: class_size_def size_for_index_slot_calc_def push_bit_eq_mult)
    also have "\<dots> = 16 * (32 * 2 ^ j + s * 2 ^ j)" by (simp add: j power_add)
    finally show ?thesis by simp
  qed
qed

end
