(* ===== verification/Tlsf.thy ===== *)
theory Tlsf
  imports SizeClass
begin

text \<open>
  The medium allocator of \<open>stb_malloc.h\<close>, from which the heaps of TempleOS get nearly all of their
  memory: two-level segregated free lists with boundary tags. Every assertion of the code is a branch of
  the model (\<open>ExitWith 1\<close>: \<open>STBM_ASSERT\<close> of \<open>defs.h\<close> calls \<open>_exit\<close>). The operations run with the mutex of the heap held, so each is one step.
  Sizes and addresses are natural numbers below \<open>2 ^ 64\<close>.
\<close>

unbundle bit_operations_syntax

section \<open>The heap\<close>

text \<open>
  The allocator keeps its headers in aligned 64-bit words next to the memory it hands out: the
  store gives the word at an address. Structs are accessed by the offsets of their fields:

    \<^item> \<open>stbm__system_allocation\<close>: \<open>magic\<close> 0, \<open>begin_pointer\<close> 24, \<open>end_pointer\<close> 32, \<open>size\<close> 40 (48 bytes);
    \<^item> \<open>stbm__medium_chunk\<close>: \<open>system_alloc\<close> 0, \<open>chunk_length_marker\<close> 8 (16 bytes);
    \<^item> \<open>stbm__medium_allocated\<close>: \<open>heap\<close> 0, \<open>prefix\<close> 8 (16 bytes);
    \<^item> \<open>stbm__medium_freeblock\<close>: \<open>prev_free\<close> 0, \<open>prefix\<close> 8, \<open>next_free\<close> 16; the last word of the block is its size.

  The doubly linked list of system allocations, which is linked and unlinked only, is the list of
  its elements. \<open>sys_calls\<close> counts the calls of \<open>system_alloc\<close>, \<open>sys_freed\<close> collects the
  arguments of \<open>system_free\<close>.
\<close>

type_synonym words = "nat \<Rightarrow> nat"

record stbm_heap =
  wd :: words
  heap_addr :: nat
  smallchunk_size :: nat
  cur_medium_chunk_size :: nat
  max_medium_chunk_size :: nat
  minimum_alignment :: nat
  large_alloc_threshhold :: nat
  align_all_blocks_to_minimum :: bool
  force_debug :: bool
  full_stats :: bool
  cache_medium_chunks :: nat
  system_allocs :: "nat list"
  sys_calls :: nat
  sys_freed :: "nat list"
  cur_outstanding_allocations_count :: nat
  max_outstanding_allocations_count :: nat
  cur_outstanding_allocations_bytes :: nat
  max_outstanding_allocations_bytes :: nat
  total_allocations_count :: nat
  total_allocations_bytes :: nat
  small_full :: "nat list"
  small_nonfull :: "nat list"
  chunkcache :: nat
  free_lists :: "nat \<Rightarrow> nat \<Rightarrow> nat"
  cached_system_alloc :: nat
  cached_system_alloc_size :: nat
  bitmap :: "nat \<Rightarrow> u32"
  toplevel_bitmap :: u32
  minimum_freeblock_size :: nat
  num_guard_bytes :: nat
  guard_value :: nat
  force_file_line :: bool

text \<open>What \<open>system_alloc\<close> returns to its \<open>n\<close>-th call: a pointer and the size provided.\<close>

type_synonym system_alloc = "nat \<Rightarrow> nat \<Rightarrow> nat \<times> nat"

definition STBM_SYSTEM_ALLOC_LARGE :: nat where "STBM_SYSTEM_ALLOC_LARGE = 0xface0ff5"
definition STBM_SYSTEM_ALLOC_MEDIUM :: nat where "STBM_SYSTEM_ALLOC_MEDIUM = 0xfacefac1"
definition STBM_SMALLEST_ALLOCATION :: nat where "STBM_SMALLEST_ALLOCATION = 8"
definition STBM_SMALLEST_BLOCKSIZE :: nat where "STBM_SMALLEST_BLOCKSIZE = 16"
definition STBM_SMALL_ALIGNMENT :: nat where "STBM_SMALL_ALIGNMENT = 16"
definition STBM_MEDIUM_SMALLEST_BLOCK :: nat where "STBM_MEDIUM_SMALLEST_BLOCK = 32"

definition stbm_assert :: "bool \<Rightarrow> 'a res \<Rightarrow> 'a res" where
  "stbm_assert b r = (if b then r else Inl (ExitWith 1))"

lemma stbm_assert_simps [simp]: "stbm_assert True r = r" "stbm_assert False r = Inl (ExitWith 1)"
  by (simp_all add: stbm_assert_def)

definition st_word :: "nat \<Rightarrow> nat \<Rightarrow> stbm_heap \<Rightarrow> stbm_heap" where
  "st_word a v h = h\<lparr>wd := (wd h)(a := v)\<rparr>"

section \<open>Statistics\<close>

text \<open>The counts are 32-bit, the sums of bytes 64-bit.\<close>

definition stats_update_alloc :: "nat \<Rightarrow> stbm_heap \<Rightarrow> stbm_heap" where
  "stats_update_alloc bytes h =
     (let h = h\<lparr>cur_outstanding_allocations_count := (cur_outstanding_allocations_count h + 1) mod 2 ^ 32,
                cur_outstanding_allocations_bytes := (cur_outstanding_allocations_bytes h + bytes) mod 2 ^ 64\<rparr>
      in if full_stats h then
           h\<lparr>max_outstanding_allocations_count :=
               max (max_outstanding_allocations_count h) (cur_outstanding_allocations_count h),
             max_outstanding_allocations_bytes :=
               max (max_outstanding_allocations_bytes h) (cur_outstanding_allocations_bytes h),
             total_allocations_count := (total_allocations_count h + 1) mod 2 ^ 64,
             total_allocations_bytes := (total_allocations_bytes h + bytes) mod 2 ^ 64\<rparr>
         else h)"

definition stats_update_free :: "nat \<Rightarrow> stbm_heap \<Rightarrow> stbm_heap res" where
  "stats_update_free bytes h =
     stbm_assert (1 \<le> cur_outstanding_allocations_count h)
       (stbm_assert (bytes \<le> cur_outstanding_allocations_bytes h)
         (Inr (h\<lparr>cur_outstanding_allocations_count := cur_outstanding_allocations_count h - 1,
                 cur_outstanding_allocations_bytes := cur_outstanding_allocations_bytes h - bytes\<rparr>)))"

section \<open>Headers\<close>

definition TYPE_small :: nat where "TYPE_small = 0"
definition TYPE_aligned :: nat where "TYPE_aligned = 1"
definition TYPE_debug :: nat where "TYPE_debug = 3"
definition TYPE_large :: nat where "TYPE_large = 4"
definition TYPE_medium :: nat where "TYPE_medium = 6"

definition TYPE_of :: "nat \<Rightarrow> nat" where "TYPE_of x = x AND 7"
definition TYPE_med_large :: "nat \<Rightarrow> bool" where "TYPE_med_large x \<longleftrightarrow> TYPE_of x AND 4 \<noteq> 0"
definition TYPE_align_debug :: "nat \<Rightarrow> bool" where "TYPE_align_debug x \<longleftrightarrow> x AND 1 \<noteq> 0"

text \<open>Bits of the prefix of a medium block; the flags for free blocks are 0.\<close>

definition PREVIOUS_MASK :: nat where "PREVIOUS_MASK = 8"
definition BLOCK_MASK :: nat where "BLOCK_MASK = 16"

definition SIZE_DATA :: "nat \<Rightarrow> nat" where "SIZE_DATA x = drop_bit 6 (x AND 0xffff)"
definition SIZE_SETDATA :: "nat \<Rightarrow> nat \<Rightarrow> nat" where "SIZE_SETDATA x s = (x AND 0x3f) OR push_bit 6 s"
definition SIZEDATA_index :: "nat \<Rightarrow> nat" where "SIZEDATA_index x = drop_bit 6 x"
definition SIZEDATA_slot :: "nat \<Rightarrow> nat" where "SIZEDATA_slot x = drop_bit 1 x AND 31"
definition SIZEDATA_extra :: "nat \<Rightarrow> bool" where "SIZEDATA_extra x \<longleftrightarrow> x AND 1 \<noteq> 0"
definition EXTRA_SIZE :: nat where "EXTRA_SIZE = STBM_MEDIUM_SMALLEST_BLOCK div 2"

definition MED_FREE_BYTES :: "nat \<Rightarrow> nat" where "MED_FREE_BYTES x = drop_bit 2 x AND 0x1FFFF8"
definition MED_FREE_SIZECLASS :: "nat \<Rightarrow> nat" where "MED_FREE_SIZECLASS x = drop_bit 23 x"
definition MED_FREE_SETSIZE :: "nat \<Rightarrow> nat \<Rightarrow> nat \<Rightarrow> nat" where
  "MED_FREE_SETSIZE x bytes sizeclass = (x AND 0x1f) OR push_bit 2 bytes OR push_bit 23 sizeclass"

definition MEDIUM_CHUNK_PRE_HEADER :: nat where "MEDIUM_CHUNK_PRE_HEADER = 0x80000000"

definition USERDATA_SETBITS :: "nat \<Rightarrow> nat \<Rightarrow> nat" where
  "USERDATA_SETBITS x u =
     (let v = push_bit 16 u mod 2 ^ 32
      in (x AND 0xffff) OR (if 2 ^ 31 \<le> v then v + (2 ^ 64 - 2 ^ 32) else v))"

section \<open>Chunks\<close>

text \<open>A new chunk looks as if it were surrounded by allocated blocks. The result is the block and its
  size.\<close>

definition medium_init_chunk :: "nat \<Rightarrow> nat \<Rightarrow> stbm_heap \<Rightarrow> ((nat \<times> nat) \<times> stbm_heap) res" where
  "medium_init_chunk freesize s h =
     res_bind (align_address (s + (48 + 16 + 16)) (minimum_alignment h) 0) (\<lambda>ptr.
       let h = st_word (s + 24) ptr h;
           h = st_word (s + 40) freesize h;
           block = ptr - 16;
           c = block - 16;
           h = st_word c s h;
           h = st_word (block + 8) 0 h
       in res_bind (align_address (s + freesize - minimum_alignment h) (minimum_alignment h) 0) (\<lambda>ptr.
            stbm_assert (ptr < s + freesize)
              (let h = st_word (s + 32) ptr h;
                   tail = ptr - 16
               in stbm_assert (tail + 16 < s + freesize)
                 (let h = st_word (tail + 8) BLOCK_MASK h;
                      freesize = tail - block
                  in stbm_assert (freesize mod minimum_alignment h = 0)
                       (Inr ((block, freesize), st_word (c + 8) (MEDIUM_CHUNK_PRE_HEADER + freesize) h))))))"

definition system_alloc_link :: "nat \<Rightarrow> nat \<Rightarrow> stbm_heap \<Rightarrow> stbm_heap" where
  "system_alloc_link s magic h = st_word s magic (h\<lparr>system_allocs := s # system_allocs h\<rparr>)"

definition system_alloc_unlink :: "nat \<Rightarrow> nat \<Rightarrow> stbm_heap \<Rightarrow> stbm_heap res" where
  "system_alloc_unlink s magic h =
     stbm_assert (wd h s = magic) (Inr (h\<lparr>system_allocs := remove1 s (system_allocs h)\<rparr>))"

definition system_free :: "nat \<Rightarrow> stbm_heap \<Rightarrow> stbm_heap" where
  "system_free s h = h\<lparr>sys_freed := s # sys_freed h\<rparr>"

definition STBM_MEDIUM_CACHE_one :: nat where "STBM_MEDIUM_CACHE_one = 1"
definition STBM_MEDIUM_CACHE_all :: nat where "STBM_MEDIUM_CACHE_all = 2"

definition medium_free_chunk :: "nat \<Rightarrow> stbm_heap \<Rightarrow> stbm_heap res" where
  "medium_free_chunk s h =
     res_bind (system_alloc_unlink s STBM_SYSTEM_ALLOC_MEDIUM h) (\<lambda>h. Inr
       (if cache_medium_chunks h = STBM_MEDIUM_CACHE_one \<and> cached_system_alloc h = 0
        then h\<lparr>cached_system_alloc := s, cached_system_alloc_size := wd h (s + 40)\<rparr>
        else system_free s h))"

section \<open>Free lists\<close>

text \<open>The bit of an index or slot in a bitmap.\<close>

definition map_bit :: "nat \<Rightarrow> u32" where "map_bit i = push_bit (31 - i) 1"

definition block_class :: "nat \<Rightarrow> (nat \<times> nat) res" where
  "block_class size0 =
     (if size0 \<ge> STBM_SIZECLASS_MAX then Inr (STBM_NUM_INDICES - 1, STBM_NUM_SLOTS - 1)
      else index_slot_for_free_block size0)"

definition medium_link :: "nat \<Rightarrow> nat \<Rightarrow> stbm_heap \<Rightarrow> stbm_heap res" where
  "medium_link block size0 h =
     stbm_assert (size0 \<le> push_bit 20 2 - 8)
       (res_bind (block_class size0) (\<lambda>(i, s).
          let prefix = MED_FREE_SETSIZE (wd h (block + 8)) size0 (i * STBM_NUM_SLOTS + s);
              h = st_word (block + 8) prefix h
          in stbm_assert (size0 = MED_FREE_BYTES prefix)
               (stbm_assert (MED_FREE_SIZECLASS prefix = i * STBM_NUM_SLOTS + s)
                  (let list = free_lists h i s;
                       h = h\<lparr>free_lists := (free_lists h)(i := (free_lists h i)(s := block))\<rparr>;
                       h = st_word (block + 16) list h;
                       h = st_word block 0 h;
                       h = (if list \<noteq> 0 then st_word list block h
                            else h\<lparr>toplevel_bitmap := toplevel_bitmap h OR map_bit i,
                                   bitmap := (bitmap h)(i := bitmap h i OR map_bit s)\<rparr>)
                   in Inr (st_word (block + size0 - 8) size0 h)))))"

definition medium_unlink :: "nat \<Rightarrow> stbm_heap \<Rightarrow> stbm_heap res" where
  "medium_unlink block h =
     (let sizeclass = MED_FREE_SIZECLASS (wd h (block + 8));
          index = drop_bit 5 sizeclass;
          slot = sizeclass AND 31
      in stbm_assert (free_lists h index slot \<noteq> 0)
           (if free_lists h index slot \<noteq> block then
              let nxt = wd h (block + 16);
                  prv = wd h block
              in stbm_assert (prv \<noteq> 0)
                   (let h = st_word (prv + 16) nxt h
                    in Inr (if nxt \<noteq> 0 then st_word nxt prv h else h))
            else
              let nxt = wd h (block + 16);
                  h = h\<lparr>free_lists := (free_lists h)(index := (free_lists h index)(slot := nxt))\<rparr>
              in Inr (if nxt \<noteq> 0 then st_word nxt 0 h
                      else
                        let h = h\<lparr>bitmap := (bitmap h)(index := bitmap h index AND NOT (map_bit slot))\<rparr>
                        in if bitmap h index = 0
                           then h\<lparr>toplevel_bitmap := toplevel_bitmap h AND NOT (map_bit index)\<rparr>
                           else h)))"

section \<open>Freeing\<close>

text \<open>The size of an allocated block, from its prefix.\<close>

definition medium_size :: "nat \<Rightarrow> nat" where
  "medium_size prefix =
     (let sizedata = SIZE_DATA prefix
      in size_for_index_slot (SIZEDATA_index sizedata) (SIZEDATA_slot sizedata) +
         (if SIZEDATA_extra sizedata then EXTRA_SIZE else 0))"

definition aligned_size :: "stbm_heap \<Rightarrow> nat \<Rightarrow> bool" where
  "aligned_size h n \<longleftrightarrow> n AND (minimum_alignment h - 1) = 0"

text \<open>The block merged with the one after it; the result is the size.\<close>

definition merge_following :: "nat \<Rightarrow> nat \<Rightarrow> stbm_heap \<Rightarrow> (nat \<times> stbm_heap) res" where
  "merge_following block size0 h =
     (let follow = block + size0
      in stbm_assert (wd h (follow + 8) AND PREVIOUS_MASK = PREVIOUS_MASK)
           (if wd h (follow + 8) AND BLOCK_MASK = 0 then
              let blocksize = MED_FREE_BYTES (wd h (follow + 8))
              in res_bind (medium_unlink follow h) (\<lambda>h. Inr (size0 + blocksize, h))
            else Inr (size0, h)))"

text \<open>The last part of \<open>stbm__medium_free\<close>: the block becomes a free block.\<close>

definition make_free :: "nat \<Rightarrow> nat \<Rightarrow> nat \<Rightarrow> stbm_heap \<Rightarrow> stbm_heap res" where
  "make_free block size0 previous_tag h =
     stbm_assert (aligned_size h size0)
       (let h = st_word (block + 8) previous_tag h;
            h = st_word (block + size0 + 8) (unset_bit 3 (wd h (block + size0 + 8))) h
        in medium_link block size0 h)"

text \<open>The rest after the merge with the following block: the merge with the previous one, or the release of
  the chunk.\<close>

definition merge_previous :: "nat \<Rightarrow> nat \<Rightarrow> stbm_heap \<Rightarrow> stbm_heap res" where
  "merge_previous block size0 h =
     (if wd h (block + 8) AND PREVIOUS_MASK = 0 then
        let prev_length = wd h (block - 8)
        in if prev_length < MEDIUM_CHUNK_PRE_HEADER then
             let prv = block - prev_length
             in stbm_assert (wd h (prv + 8) AND BLOCK_MASK = 0)
               (stbm_assert (MED_FREE_BYTES (wd h (prv + 8)) = prev_length)
                 (res_bind (medium_unlink prv h) (make_free prv (prev_length + size0) PREVIOUS_MASK)))
           else if cache_medium_chunks h \<noteq> STBM_MEDIUM_CACHE_all \<and> size0 = prev_length - MEDIUM_CHUNK_PRE_HEADER
           then medium_free_chunk (wd h (block - 16)) h
           else make_free block size0 0 h
      else make_free block size0 PREVIOUS_MASK h)"

definition medium_free :: "nat \<Rightarrow> stbm_heap \<Rightarrow> stbm_heap res" where
  "medium_free ptr h =
     (let block = ptr - 16;
          size0 = medium_size (wd h (block + 8))
      in stbm_assert (aligned_size h size0)
        (res_bind (stats_update_free (size0 - 16) h) (\<lambda>h.
         res_bind (merge_following block size0 h) (\<lambda>(size0, h).
         stbm_assert (aligned_size h size0) (merge_previous block size0 h)))))"

section \<open>Allocating\<close>

text \<open>A chunk from the cache or from the system, when no free block is large enough; a block of 0 is
  NULL.\<close>

definition new_chunk :: "system_alloc \<Rightarrow> nat \<Rightarrow> nat \<Rightarrow> stbm_heap \<Rightarrow> ((nat \<times> nat) \<times> stbm_heap) res" where
  "new_chunk env expected_size size0 h =
     (let freesize = cur_medium_chunk_size h;
          size_with_overhead = expected_size + minimum_alignment h + 256
      in if cached_system_alloc_size h \<ge> max freesize size_with_overhead then
           let s = cached_system_alloc h;
               freesize = cached_system_alloc_size h
           in stbm_assert (s \<noteq> 0)
             (res_bind (medium_init_chunk freesize s (h\<lparr>cached_system_alloc := 0, cached_system_alloc_size := 0\<rparr>))
                (\<lambda>(r, h). Inr (r, system_alloc_link s STBM_SYSTEM_ALLOC_MEDIUM h)))
         else
           let (freesize, h) =
                 (if size_with_overhead > freesize then (size_with_overhead, h)
                  else (freesize, h\<lparr>cur_medium_chunk_size :=
                                      min (cur_medium_chunk_size h * 2) (max_medium_chunk_size h)\<rparr>));
               h = (if cached_system_alloc h \<noteq> 0
                    then (system_free (cached_system_alloc h) h)\<lparr>cached_system_alloc := 0, cached_system_alloc_size := 0\<rparr>
                    else h);
               (s, freesize) = env (sys_calls h) freesize;
               h = h\<lparr>sys_calls := sys_calls h + 1\<rparr>
           in if s = 0 then Inr ((0, 0), h)
              else stbm_assert (size0 \<le> freesize \<and> size_with_overhead \<le> freesize)
                (res_bind (medium_init_chunk freesize s h)
                  (\<lambda>(r, h). Inr (r, system_alloc_link s STBM_SYSTEM_ALLOC_MEDIUM h))))"

text \<open>A free block of the class or of a greater one, taken out of its list.\<close>

definition take_block :: "nat \<Rightarrow> nat \<Rightarrow> nat \<Rightarrow> nat \<Rightarrow> nat \<Rightarrow> stbm_heap \<Rightarrow> ((nat \<times> nat) \<times> stbm_heap) res" where
  "take_block index slot i s size0 h =
     (let block = free_lists h index slot;
          freesize = MED_FREE_BYTES (wd h (block + 8))
      in stbm_assert (size0 \<le> freesize \<and> size_for_index_slot i s \<le> freesize)
           (res_bind (medium_unlink block h) (\<lambda>h. Inr ((block, freesize), h))))"

definition find_block :: "system_alloc \<Rightarrow> nat \<Rightarrow> nat \<Rightarrow> nat \<Rightarrow> stbm_heap \<Rightarrow> ((nat \<times> nat) \<times> stbm_heap) res" where
  "find_block env i s size0 h =
     (let slot = find_leftmost_one_bit_after_skipping (bitmap h i) s
      in if slot < 32 then take_block i (nat slot) i s size0 h
         else
           let index = find_leftmost_one_bit_after_skipping (toplevel_bitmap h) (i + 1)
           in if index < 32 then
                let slot = find_leftmost_one_bit_after_skipping (bitmap h (nat index)) 0
                in stbm_assert (slot < 32) (take_block (nat index) (nat slot) i s size0 h)
              else new_chunk env (size_for_index_slot i s) size0 h)"

text \<open>The rest of a block that is much larger than the size expected becomes a free block; the result
  is the size that is left.\<close>

definition split_block :: "nat \<Rightarrow> nat \<Rightarrow> nat \<Rightarrow> stbm_heap \<Rightarrow> (nat \<times> stbm_heap) res" where
  "split_block block freesize expected_size h =
     (if expected_size + minimum_freeblock_size h \<le> freesize then
        res_bind (align_address (block + expected_size + 16) (minimum_alignment h) 0) (\<lambda>ptr.
          let split = ptr - 16
          in stbm_assert (split + minimum_freeblock_size h \<le> block + freesize)
            (let tail_size = block + freesize - split;
                 freesize = split - block
             in stbm_assert (expected_size \<le> freesize \<and> freesize < expected_size + minimum_freeblock_size h)
               (res_bind (medium_link split tail_size (st_word (split + 8) 0 h)) (\<lambda>h. Inr (freesize, h)))))
      else Inr (freesize, h))"

text \<open>The header of a block that was taken, and the flag of the block after it.\<close>

definition make_allocated :: "nat \<Rightarrow> nat \<Rightarrow> nat \<Rightarrow> nat \<Rightarrow> stbm_heap \<Rightarrow> (nat \<times> stbm_heap) res" where
  "make_allocated block freesize i s h =
     (let prefix = wd h (block + 8);
          expected_size = size_for_index_slot i s
      in stbm_assert (prefix AND PREVIOUS_MASK = PREVIOUS_MASK \<or> MEDIUM_CHUNK_PRE_HEADER \<le> wd h (block - 8))
        (stbm_assert (freesize = expected_size \<or> freesize = expected_size + EXTRA_SIZE)
          (let h = stats_update_alloc (freesize - 16) h;
               h = st_word block (heap_addr h) h;
               prefix = TYPE_medium OR BLOCK_MASK OR (prefix AND PREVIOUS_MASK);
               prefix = SIZE_SETDATA prefix
                 (push_bit 6 i + push_bit 1 s + (if freesize = expected_size + EXTRA_SIZE then 1 else 0));
               h = st_word (block + 8) prefix h;
               h = st_word (block + freesize + 8) (wd h (block + freesize + 8) OR PREVIOUS_MASK) h
           in Inr (block + 16, h))))"

definition medium_alloc :: "system_alloc \<Rightarrow> nat \<Rightarrow> stbm_heap \<Rightarrow> (nat \<times> stbm_heap) res" where
  "medium_alloc env size0 h =
     (let size0 = size0 + 16;
          size0 = (size0 + minimum_alignment h - 1) div minimum_alignment h * minimum_alignment h
      in res_bind (index_slot_for_request size0) (\<lambda>(i, s).
         stbm_assert (i < STBM_NUM_INDICES \<and> size0 \<le> size_for_index_slot i s \<and>
             size_for_index_slot i s AND (EXTRA_SIZE - 1) = 0)
         (res_bind (find_block env i s size0 h) (\<lambda>((block, freesize), h).
            if block = 0 then Inr (0, h)
            else stbm_assert (size0 \<le> freesize \<and> size_for_index_slot i s \<le> freesize)
              (res_bind (split_block block freesize (size_for_index_slot i s) h) (\<lambda>(freesize, h).
                 make_allocated block freesize i s h))))))"

section \<open>The bits of a prefix\<close>

lemma or_push_bit: "(r :: nat) < 2 ^ k \<Longrightarrow> r OR push_bit k s = r + 2 ^ k * s"
proof -
  assume r: "r < 2 ^ k"
  have "r AND push_bit k s = 0"
  proof (rule bit_eqI)
    fix n
    have "\<not> bit r n" if "k \<le> n"
    proof -
      have "(2 :: nat) ^ k \<le> 2 ^ n" using that by (rule power_increasing) simp
      with r have "r div 2 ^ n = 0" by (intro div_less) (rule less_le_trans)
      then show ?thesis by (simp add: bit_iff_odd)
    qed
    then show "bit (r AND push_bit k s) n \<longleftrightarrow> bit 0 n" by (auto simp: bit_simps)
  qed
  then have "r OR push_bit k s = r + push_bit k s" by (rule disjunctive_add_eq_or [symmetric])
  then show ?thesis by (simp add: push_bit_eq_mult mult.commute)
qed

lemma and_exp_nat: "(x :: nat) AND 2 ^ k = (if odd (x div 2 ^ k) then 2 ^ k else 0)"
  by (rule bit_eqI) (auto simp: bit_simps bit_exp_iff, simp_all add: bit_iff_odd)

lemma unset_bit_nat: "odd ((x :: nat) div 2 ^ k) \<Longrightarrow> unset_bit k x = x - 2 ^ k"
proof -
  assume o: "odd (x div 2 ^ k)"
  have "unset_bit k x AND 2 ^ k = 0"
    by (rule bit_eqI) (auto simp: bit_simps)
  then have "unset_bit k x + 2 ^ k = unset_bit k x OR 2 ^ k" by (rule disjunctive_add_eq_or)
  also have "\<dots> = x"
    by (rule bit_eqI) (use o in \<open>auto simp: bit_simps bit_exp_iff, simp_all add: bit_iff_odd\<close>)
  finally show ?thesis by simp
qed

lemma or_exp_nat: "even ((x :: nat) div 2 ^ k) \<Longrightarrow> x OR 2 ^ k = x + 2 ^ k"
  by (rule disjunctive_add_eq_or [symmetric]) (simp add: and_exp_nat)

text \<open>The prefix of a free block and of an allocated one.\<close>

definition free_prefix :: "bool \<Rightarrow> nat \<Rightarrow> nat \<Rightarrow> nat" where
  "free_prefix p n c = (if p then 8 else 0) + 4 * n + 2 ^ 23 * c"

definition alloc_prefix :: "bool \<Rightarrow> nat \<Rightarrow> nat \<Rightarrow> bool \<Rightarrow> nat" where
  "alloc_prefix p i s e = 22 + (if p then 8 else 0) + 64 * (64 * i + 2 * s + (if e then 1 else 0))"

lemma size_fits: "n mod 16 = 0 \<Longrightarrow> \<exists>k. (n :: nat) = 16 * k"
  by (metis dvdE mod_eq_0_iff_dvd)

lemma MED_FREE_SETSIZE_eq:
  assumes "n mod 16 = 0" "n < 2 ^ 21"
  shows "MED_FREE_SETSIZE x n c = (x mod 32) + 4 * n + 2 ^ 23 * c"
proof -
  obtain k where k: "n = 16 * k" using size_fits [OF assms(1)] by blast
  have x: "x AND 31 = x mod 32"
    using take_bit_eq_mask [of 5 x] by (simp add: mask_eq_exp_minus_1 take_bit_eq_mod)
  have e: "push_bit 2 n = push_bit 5 (2 * k)" by (simp add: k push_bit_eq_mult)
  have "(x mod 32) OR push_bit 5 (2 * k) = x mod 32 + 4 * n"
    using or_push_bit [of "x mod 32" 5 "2 * k"] by (simp add: k)
  moreover have "(x mod 32 + 4 * n) OR push_bit 23 c = x mod 32 + 4 * n + 2 ^ 23 * c"
    by (rule or_push_bit) (use assms(2) k in simp)
  ultimately show ?thesis by (simp only: MED_FREE_SETSIZE_def x e or.assoc [symmetric])
qed

lemma MED_FREE_BYTES_eq:
  assumes "n mod 16 = 0" "n < 2 ^ 21" "r < 32"
  shows "MED_FREE_BYTES (r + 4 * n + 2 ^ 23 * c) = n"
proof -
  obtain k where k: "n = 16 * k" using size_fits [OF assms(1)] by blast
  let ?y = "drop_bit 2 (r + 4 * n + 2 ^ 23 * c)"
  have "(r + 4 * n + 2 ^ 23 * c) div 32 = 2 * k + 2 ^ 18 * c"
    using assms(3) k by (simp add: div_nat_eqI)
  then have "drop_bit 3 ?y = 2 * k + 2 ^ 18 * c" by (simp add: drop_bit_eq_div div_mult2_eq [symmetric])
  moreover have "take_bit 18 (2 * k + 2 ^ 18 * c) = 2 * k"
    using assms(2) k by (simp add: take_bit_eq_mod)
  moreover have "?y AND push_bit 3 (mask 18) = push_bit 3 (take_bit 18 (drop_bit 3 ?y))"
    by (rule bit_eqI) (auto simp: bit_simps)
  moreover have "push_bit 3 (mask 18) = (0x1FFFF8 :: nat)" by (simp add: mask_eq_exp_minus_1 push_bit_eq_mult)
  ultimately show ?thesis by (simp add: MED_FREE_BYTES_def k push_bit_eq_mult)
qed

lemma MED_FREE_SIZECLASS_eq:
  assumes "n < 2 ^ 21 - 7" "r < 32"
  shows "MED_FREE_SIZECLASS (r + 4 * n + 2 ^ 23 * c) = c"
  using assms by (simp add: MED_FREE_SIZECLASS_def drop_bit_eq_div div_nat_eqI)

lemma free_prefix_bits:
  assumes "n mod 16 = 0" "n < 2 ^ 21"
  shows "free_prefix p n c AND BLOCK_MASK = 0" "free_prefix p n c AND PREVIOUS_MASK = (if p then 8 else 0)"
    "MED_FREE_BYTES (free_prefix p n c) = n" "MED_FREE_SIZECLASS (free_prefix p n c) = c"
    "free_prefix p n c mod 32 = (if p then 8 else 0)"
proof -
  obtain k where k: "n = 16 * k" using size_fits [OF assms(1)] by blast
  have e: "free_prefix p n c = (if p then 8 else 0) + 32 * (2 * k + 2 ^ 18 * c)"
    by (simp add: free_prefix_def k)
  have d: "free_prefix p n c div 8 = (if p then 1 else 0) + 4 * (2 * k + 2 ^ 18 * c)"
    "free_prefix p n c div 16 = 2 * (2 * k + 2 ^ 18 * c)"
    unfolding e by (simp_all add: div_nat_eqI)
  show "free_prefix p n c AND BLOCK_MASK = 0" "free_prefix p n c AND PREVIOUS_MASK = (if p then 8 else 0)"
    using and_exp_nat [of "free_prefix p n c" 4] and_exp_nat [of "free_prefix p n c" 3] d
    by (simp_all add: BLOCK_MASK_def PREVIOUS_MASK_def)
  show "MED_FREE_BYTES (free_prefix p n c) = n"
    unfolding free_prefix_def by (rule MED_FREE_BYTES_eq) (use assms in simp_all)
  show "MED_FREE_SIZECLASS (free_prefix p n c) = c"
    unfolding free_prefix_def by (rule MED_FREE_SIZECLASS_eq) (use assms k in simp_all)
  show "free_prefix p n c mod 32 = (if p then 8 else 0)"
    unfolding e by (simp only: mod_mult_self2) simp
qed

lemma free_prefix_flag:
  assumes "n mod 16 = 0"
  shows "unset_bit 3 (free_prefix True n c) = free_prefix False n c"
    "free_prefix False n c OR PREVIOUS_MASK = free_prefix True n c"
proof -
  obtain k where k: "n = 16 * k" using size_fits [OF assms(1)] by blast
  have d: "free_prefix True n c div 8 = 1 + 4 * (2 * k + 2 ^ 18 * c)"
    "free_prefix False n c div 8 = 4 * (2 * k + 2 ^ 18 * c)"
    by (simp_all add: free_prefix_def k div_nat_eqI)
  show "unset_bit 3 (free_prefix True n c) = free_prefix False n c"
    using unset_bit_nat [of "free_prefix True n c" 3] d by (simp add: free_prefix_def)
  show "free_prefix False n c OR PREVIOUS_MASK = free_prefix True n c"
    using or_exp_nat [of "free_prefix False n c" 3] d by (simp add: free_prefix_def PREVIOUS_MASK_def)
qed

lemma alloc_prefix_bits:
  assumes "i < 13" "s < 32"
  shows "alloc_prefix p i s e AND BLOCK_MASK = BLOCK_MASK"
    "alloc_prefix p i s e AND PREVIOUS_MASK = (if p then 8 else 0)"
    "TYPE_of (alloc_prefix p i s e) = TYPE_medium"
    "medium_size (alloc_prefix p i s e) = class_size (i * 32 + s) + (if e then 16 else 0)"
    "unset_bit 3 (alloc_prefix True i s e) = alloc_prefix False i s e"
    "alloc_prefix False i s e OR PREVIOUS_MASK = alloc_prefix True i s e"
proof -
  define d where "d = 64 * i + 2 * s + (if e then 1 else 0)"
  have a: "alloc_prefix p i s e = 22 + (if p then 8 else 0) + 64 * d" for p
    by (simp add: alloc_prefix_def d_def)
  have v: "alloc_prefix p i s e div 16 = 1 + 4 * d" "alloc_prefix p i s e div 8 = 2 + (if p then 1 else 0) + 8 * d" for p
    by (simp_all add: a div_nat_eqI)
  show "alloc_prefix p i s e AND BLOCK_MASK = BLOCK_MASK"
    "alloc_prefix p i s e AND PREVIOUS_MASK = (if p then 8 else 0)"
    using and_exp_nat [of "alloc_prefix p i s e" 4] and_exp_nat [of "alloc_prefix p i s e" 3] v
    by (simp_all add: BLOCK_MASK_def PREVIOUS_MASK_def)
  show "unset_bit 3 (alloc_prefix True i s e) = alloc_prefix False i s e"
    using unset_bit_nat [of "alloc_prefix True i s e" 3] v [of True] a [of True] a [of False] by simp
  show "alloc_prefix False i s e OR PREVIOUS_MASK = alloc_prefix True i s e"
    using or_exp_nat [of "alloc_prefix False i s e" 3] v [of False] a [of True] a [of False]
    by (simp add: PREVIOUS_MASK_def)
  have "alloc_prefix p i s e = 6 + 8 * (2 + (if p then 1 else 0) + 8 * d)" by (simp add: a)
  then have "alloc_prefix p i s e mod 8 = 6" by (simp only: mod_mult_self2) simp
  then show "TYPE_of (alloc_prefix p i s e) = TYPE_medium"
    using take_bit_eq_mask [of 3 "alloc_prefix p i s e"]
    by (simp add: TYPE_of_def TYPE_medium_def mask_eq_exp_minus_1 take_bit_eq_mod)
  have "d < 1024" using assms by (simp add: d_def)
  then have "alloc_prefix p i s e < 65536" by (simp add: a)
  then have "alloc_prefix p i s e AND 0xffff = alloc_prefix p i s e"
    using take_bit_eq_mask [of 16 "alloc_prefix p i s e"] by (simp add: mask_eq_exp_minus_1 take_bit_eq_mod)
  moreover have "alloc_prefix p i s e div 64 = d" by (simp add: a div_nat_eqI)
  ultimately have sd: "SIZE_DATA (alloc_prefix p i s e) = d" by (simp add: SIZE_DATA_def drop_bit_eq_div)
  have "d div 64 = i" "d div 2 = 32 * i + s" "odd d = e" using assms(2) by (simp_all add: d_def div_nat_eqI)
  moreover have "(32 * i + s) AND 31 = s"
    using take_bit_eq_mask [of 5 "32 * i + s"] assms(2) by (simp add: mask_eq_exp_minus_1 take_bit_eq_mod)
  moreover have "d AND 1 \<noteq> 0 \<longleftrightarrow> e" using \<open>odd d = e\<close> by (simp add: and_one_eq mod_2_eq_odd)
  ultimately show "medium_size (alloc_prefix p i s e) = class_size (i * 32 + s) + (if e then 16 else 0)"
    using assms
    by (simp add: medium_size_def sd SIZEDATA_index_def SIZEDATA_slot_def SIZEDATA_extra_def drop_bit_eq_div
      size_for_index_slot_class EXTRA_SIZE_def STBM_MEDIUM_SMALLEST_BLOCK_def)
qed

lemma SIZE_SETDATA_alloc:
  "SIZE_SETDATA (TYPE_medium OR BLOCK_MASK OR (if p then 8 else 0))
     (push_bit 6 i + push_bit 1 s + (if e then 1 else 0)) = alloc_prefix p i s e"
proof -
  have m: "TYPE_medium OR BLOCK_MASK OR (if p then 8 else 0) = 22 + (if p then 8 else 0)"
    by (simp add: TYPE_medium_def BLOCK_MASK_def)
  define d where "d = push_bit 6 i + push_bit 1 s + (if e then 1 else 0)"
  have "(22 + (if p then 8 else 0)) AND 0x3f = (22 + (if p then 8 else 0) :: nat)" by simp
  moreover have "(22 + (if p then 8 else 0)) OR push_bit 6 d = (22 + (if p then 8 else 0)) + 2 ^ 6 * d"
    by (rule or_push_bit) simp
  moreover have "d = 64 * i + 2 * s + (if e then 1 else 0)" by (simp add: d_def push_bit_eq_mult)
  ultimately show ?thesis
    unfolding m SIZE_SETDATA_def d_def [symmetric] by (simp only: alloc_prefix_def) simp
qed

end
