(* ===== verification/Stbm.thy ===== *)
theory Stbm
  imports Tlsf
begin

text \<open>
  The rest of \<open>stb_malloc.h\<close> as Lilith uses it: tiny blocks from small chunks, large ones from the system, and
  the layer that chooses between the three allocators.
\<close>

unbundle bit_operations_syntax

section \<open>Small allocations\<close>

text \<open>
  A small chunk is an allocated medium block. Its fields: \<open>wrapped_user_pointer\<close> 0, \<open>heap\<close> 8, \<open>first_free\<close> 32,
  \<open>unused_storage\<close> 40, \<open>num_alloc\<close> 48 and \<open>full\<close> 52, which share a word (56 bytes). The two lists of small chunks,
  whose links are the fields at 16 and 24, are the lists of their elements. A cell has its \<open>prefix\<close>, or its \<open>chunk\<close>,
  at 0 and \<open>next_free\<close>, or the user's data, at 8.
\<close>

definition STBM_SMALL_FREE_BLOCK_MAGIC :: nat where "STBM_SMALL_FREE_BLOCK_MAGIC = 1"
definition sizeof_small_chunk :: nat where "sizeof_small_chunk = 56"

definition sc_num_alloc :: "stbm_heap \<Rightarrow> nat \<Rightarrow> nat" where "sc_num_alloc h c = wd h (c + 48) mod 2 ^ 32"
definition sc_full :: "stbm_heap \<Rightarrow> nat \<Rightarrow> nat" where "sc_full h c = wd h (c + 48) div 2 ^ 32"
definition set_num_full :: "nat \<Rightarrow> nat \<Rightarrow> nat \<Rightarrow> stbm_heap \<Rightarrow> stbm_heap" where
  "set_num_full c n f h = st_word (c + 48) (n mod 2 ^ 32 + 2 ^ 32 * f) h"

definition small_init :: "stbm_heap \<Rightarrow> stbm_heap" where
  "small_init h = h\<lparr>small_full := [], small_nonfull := [], chunkcache := 0\<rparr>"

definition smallchunk_link_nonfull :: "nat \<Rightarrow> stbm_heap \<Rightarrow> stbm_heap" where
  "smallchunk_link_nonfull c h = h\<lparr>small_nonfull := c # small_nonfull h\<rparr>"
definition smallchunk_link_full :: "nat \<Rightarrow> stbm_heap \<Rightarrow> stbm_heap" where
  "smallchunk_link_full c h = h\<lparr>small_full := c # small_full h\<rparr>"
definition smallchunk_unlink_nonfull :: "nat \<Rightarrow> stbm_heap \<Rightarrow> stbm_heap" where
  "smallchunk_unlink_nonfull c h = h\<lparr>small_nonfull := remove1 c (small_nonfull h)\<rparr>"
definition smallchunk_unlink_full :: "nat \<Rightarrow> stbm_heap \<Rightarrow> stbm_heap" where
  "smallchunk_unlink_full c h = h\<lparr>small_full := remove1 c (small_full h)\<rparr>"

text \<open>What becomes of the chunk of a cell that was freed: the result is a chunk to free, or 0.\<close>

definition small_given :: "nat \<Rightarrow> stbm_heap \<Rightarrow> (nat \<times> stbm_heap) res" where
  "small_given c h =
     (if sc_num_alloc h c \<noteq> 0 then
        Inr (0, if sc_full h c \<noteq> 0
                then smallchunk_link_nonfull c (smallchunk_unlink_full c (set_num_full c (sc_num_alloc h c) 0 h))
                else h)
      else stbm_assert (sc_full h c = 0)
        (let h = smallchunk_unlink_nonfull c h
         in Inr (if chunkcache h = 0 then (0, h\<lparr>chunkcache := c\<rparr>) else (c, h))))"

definition small_free :: "nat \<Rightarrow> stbm_heap \<Rightarrow> stbm_heap res" where
  "small_free ptr h =
     (let b = ptr - 8;
          c = wd h b
      in stbm_assert (0 < sc_num_alloc h c)
        (let h = st_word (b + 8) (wd h (c + 32)) h;
             h = st_word b STBM_SMALL_FREE_BLOCK_MAGIC h;
             h = st_word (c + 32) b h;
             h = set_num_full c (sc_num_alloc h c - 1) (sc_full h c) h
         in res_bind (small_given c h) (\<lambda>(chunk_to_free, h).
              res_bind (stats_update_free STBM_SMALLEST_ALLOCATION h) (\<lambda>h.
                if chunk_to_free \<noteq> 0 then medium_free chunk_to_free h else Inr h))))"

text \<open>A chunk with room: the first that is not full, the cached one, or a new one. A chunk of 0 is NULL.\<close>

definition small_new_chunk :: "system_alloc \<Rightarrow> stbm_heap \<Rightarrow> (nat \<times> stbm_heap) res" where
  "small_new_chunk env h =
     res_bind (medium_alloc env (smallchunk_size h) h) (\<lambda>(c, h).
       if c = 0 then Inr (0, h)
       else
         let h = st_word c 0 h;
             h = st_word (c + 8) (heap_addr h) h;
             h = st_word (c + 32) 0 h;
             h = set_num_full c 0 0 h
         in res_bind (align_address (c + smallchunk_size h - STBM_SMALL_ALIGNMENT) STBM_SMALL_ALIGNMENT (STBM_SMALL_ALIGNMENT - 8))
              (\<lambda>unused.
                 let h = st_word (c + 40) unused h
                 in stbm_assert (unused + STBM_SMALLEST_ALLOCATION \<le> c + smallchunk_size h) (Inr (c, h))))"

definition small_find_chunk :: "system_alloc \<Rightarrow> stbm_heap \<Rightarrow> (nat \<times> stbm_heap) res" where
  "small_find_chunk env h =
     (case small_nonfull h of
        c # _ \<Rightarrow> Inr (c, h)
      | [] \<Rightarrow>
          res_bind (if chunkcache h \<noteq> 0 then Inr (chunkcache h, h\<lparr>chunkcache := 0\<rparr>) else small_new_chunk env h)
            (\<lambda>(c, h). Inr (c, if c = 0 then h else smallchunk_link_nonfull c h)))"

text \<open>A cell of the chunk, from its free list or from the storage that was never used.\<close>

definition small_take_cell :: "nat \<Rightarrow> nat \<Rightarrow> stbm_heap \<Rightarrow> (nat \<times> stbm_heap) res" where
  "small_take_cell c size0 h =
     (if wd h (c + 32) \<noteq> 0 then
        let f = wd h (c + 32);
            h = st_word (c + 32) (wd h (f + 8)) h
        in stbm_assert (wd h f = STBM_SMALL_FREE_BLOCK_MAGIC) (Inr (f, st_word f c h))
      else stbm_assert (wd h (c + 40) \<noteq> 0)
        (let b = wd h (c + 40);
             h = st_word b c h
         in stbm_assert (b + size0 \<le> c + smallchunk_size h)
           (stbm_assert (c + sizeof_small_chunk \<le> b)
             (let unused = b - STBM_SMALLEST_BLOCKSIZE
              in Inr (b, st_word (c + 40) (if unused < c + sizeof_small_chunk then 0 else unused) h)))))"

text \<open>The chunk may have become full.\<close>

definition small_taken :: "nat \<Rightarrow> stbm_heap \<Rightarrow> stbm_heap" where
  "small_taken c h =
     (let h = (if wd h (c + 32) = 0 \<and> wd h (c + 40) = 0
               then set_num_full c (sc_num_alloc h c) 1 (smallchunk_link_full c (smallchunk_unlink_nonfull c h))
               else h);
          h = set_num_full c (sc_num_alloc h c + 1) (sc_full h c) h
      in stats_update_alloc STBM_SMALLEST_ALLOCATION h)"

definition small_take :: "nat \<Rightarrow> nat \<Rightarrow> stbm_heap \<Rightarrow> (nat \<times> stbm_heap) res" where
  "small_take c size0 h =
     stbm_assert (sc_full h c = 0)
       (res_bind (small_take_cell c size0 h) (\<lambda>(b, h). Inr (b + 8, small_taken c h)))"

definition small_alloc :: "system_alloc \<Rightarrow> nat \<Rightarrow> stbm_heap \<Rightarrow> (nat \<times> stbm_heap) res" where
  "small_alloc env size0 h =
     res_bind (small_find_chunk env h) (\<lambda>(c, h). if c = 0 then Inr (0, h) else small_take c size0 h)"

section \<open>Large allocations\<close>

text \<open>
  A large block is a system allocation. Before the user's data are \<open>system_allocation\<close> (-32),
  \<open>user_size_in_bytes\<close> (-24), \<open>heap\<close> (-16) and \<open>prefix\<close> (-8). The sizes are computed modulo \<open>2 ^ 64\<close>;
  the two headers before the data take 80 bytes.
\<close>

definition large_wrap :: "nat \<Rightarrow> nat \<Rightarrow> nat \<Rightarrow> stbm_heap \<Rightarrow> (nat \<times> stbm_heap) res" where
  "large_wrap s actual size0 h =
     res_bind (align_address (s + 80) (minimum_alignment h) 0) (\<lambda>user_ptr.
       let user_size = (s + actual + 2 ^ 64 - user_ptr) mod 2 ^ 64
       in stbm_assert (size0 \<le> user_size)
         (stbm_assert ((user_ptr + size0) mod 2 ^ 64 \<le> s + actual)
           (let h = system_alloc_link s STBM_SYSTEM_ALLOC_LARGE h;
                h = stats_update_alloc user_size h;
                h = st_word (s + 24) user_ptr h;
                h = st_word (user_ptr - 32) s h;
                h = st_word (user_ptr - 16) (heap_addr h) h;
                h = st_word (user_ptr - 8) TYPE_large h
            in Inr (user_ptr, st_word (user_ptr - 24) user_size h))))"

definition large_alloc :: "system_alloc \<Rightarrow> nat \<Rightarrow> stbm_heap \<Rightarrow> (nat \<times> stbm_heap) res" where
  "large_alloc env size0 h =
     (case env (sys_calls h) ((80 + (minimum_alignment h - 1) + size0) mod 2 ^ 64) of (s, actual) \<Rightarrow>
        let h = h\<lparr>sys_calls := sys_calls h + 1\<rparr>
        in if s = 0 then Inr (0, h) else large_wrap s actual size0 h)"

definition large_free :: "nat \<Rightarrow> stbm_heap \<Rightarrow> stbm_heap res" where
  "large_free ptr h =
     (let s = wd h (ptr - 32)
      in stbm_assert (wd h s = STBM_SYSTEM_ALLOC_LARGE)
        (res_bind (system_alloc_unlink s STBM_SYSTEM_ALLOC_LARGE h) (\<lambda>h.
         res_bind (stats_update_free (wd h (ptr - 24)) h) (\<lambda>h. Inr (system_free s h)))))"

section \<open>The three allocators together\<close>

definition heap_alloc :: "system_alloc \<Rightarrow> nat \<Rightarrow> stbm_heap \<Rightarrow> (nat \<times> stbm_heap) res" where
  "heap_alloc env size0 h =
     (if size0 \<le> STBM_SMALLEST_ALLOCATION then small_alloc env size0 h
      else if size0 < large_alloc_threshhold h then medium_alloc env size0 h
      else large_alloc env size0 h)"

text \<open>
  \<open>stbm__heap_free\<close> of a block to its own heap; Lilith's heaps have no \<open>crossthread_mutex\<close> and an
  \<open>allocation_mutex\<close>, so that a free through another heap takes the same path.
\<close>

definition heap_free :: "nat \<Rightarrow> stbm_heap \<Rightarrow> stbm_heap res" where
  "heap_free ptr h =
     (let prefix = wd h (ptr - 8)
      in if TYPE_of prefix = TYPE_medium then medium_free ptr h
         else if TYPE_of prefix = TYPE_small then small_free ptr h
         else if TYPE_of prefix = TYPE_large then large_free ptr h
         else Inl (ExitWith 1))"

end
