(* ===== verification/Slab.thy ===== *)
theory Slab
  imports Stbm
begin

text \<open>
  Small chunks: the cells of a chunk are free, in use, or were never given out. Taking a cell and giving it back
  keep the chunk.
\<close>

unbundle bit_operations_syntax

section \<open>The cells of a small chunk\<close>

text \<open>The cells are given out from the top; the first 56 bytes are the header of the chunk.\<close>

definition cell :: "nat \<Rightarrow> nat \<Rightarrow> nat" where "cell c k = c + 56 + 16 * k"

definition cells_from :: "nat \<Rightarrow> nat \<Rightarrow> nat set" where "cells_from c m = cell c ` {m..<249}"

lemma cell_eq [simp]: "cell c j = cell c k \<longleftrightarrow> j = k"
  by (simp add: cell_def)

lemma cells_from_range: "b \<in> cells_from c m \<Longrightarrow> c + 56 \<le> b \<and> b + 16 \<le> c + 4040 \<and> b mod 8 = c mod 8"
  by (auto simp: cells_from_def cell_def mod_add_eq [symmetric])

lemma cells_from_apart: "b \<in> cells_from c m \<Longrightarrow> b' \<in> cells_from c m \<Longrightarrow> b \<noteq> b' \<Longrightarrow> b + 16 \<le> b' \<or> b' + 16 \<le> b"
  by (auto simp: cells_from_def cell_def)

lemma cells_from_Suc: "m < 249 \<Longrightarrow> cells_from c m = insert (cell c m) (cells_from c (Suc m))"
proof -
  assume "m < 249"
  then have "{m..<249} = insert m {Suc m..<249}" by auto
  then show ?thesis by (simp add: cells_from_def)
qed

lemma finite_cells [simp]: "finite (cells_from c m)"
  by (simp add: cells_from_def)

text \<open>The free cells are linked.\<close>

primrec cell_list :: "words \<Rightarrow> nat \<Rightarrow> nat list \<Rightarrow> bool" where
  "cell_list w p [] \<longleftrightarrow> p = 0"
| "cell_list w p (b # bs) \<longleftrightarrow> p = b \<and> b \<noteq> 0 \<and> w b = STBM_SMALL_FREE_BLOCK_MAGIC \<and> cell_list w (w (b + 8)) bs"

lemma cell_list_cong:
  "(\<And>b. b \<in> set bs \<Longrightarrow> w' b = w b \<and> w' (b + 8) = w (b + 8)) \<Longrightarrow> cell_list w' p bs = cell_list w p bs"
  by (induction bs arbitrary: p) auto

lemma cell_list_hd: "cell_list w p bs \<Longrightarrow> p = (if bs = [] then 0 else hd bs)"
  by (cases bs) auto

text \<open>
  A small chunk \<open>c\<close> with the free cells \<open>fs\<close> and the cells in use \<open>us\<close>; the cells below number \<open>m\<close> were never
  given out.
\<close>

definition slab :: "words \<Rightarrow> nat \<Rightarrow> nat \<Rightarrow> nat list \<Rightarrow> nat set \<Rightarrow> nat \<Rightarrow> bool" where
  "slab w hp c fs us m \<longleftrightarrow> 0 < c \<and> c mod 16 = 0 \<and> m \<le> 249 \<and> w c = 0 \<and> w (c + 8) = hp \<and>
     distinct fs \<and> set fs \<inter> us = {} \<and> set fs \<union> us = cells_from c m \<and>
     cell_list w (w (c + 32)) fs \<and> w (c + 40) = (if m = 0 then 0 else cell c (m - 1)) \<and>
     (\<forall>b \<in> us. w b = c) \<and> w (c + 48) = card us + 2 ^ 32 * (if fs = [] \<and> m = 0 then 1 else 0)"

lemma slabD:
  assumes "slab w hp c fs us m"
  shows "0 < c" "c mod 16 = 0" "m \<le> 249" "w c = 0" "w (c + 8) = hp" "distinct fs" "set fs \<inter> us = {}"
    "set fs \<union> us = cells_from c m" "cell_list w (w (c + 32)) fs" "w (c + 40) = (if m = 0 then 0 else cell c (m - 1))"
    "b \<in> us \<Longrightarrow> w b = c" "w (c + 48) = card us + 2 ^ 32 * (if fs = [] \<and> m = 0 then 1 else 0)"
    "w (c + 32) = (if fs = [] then 0 else hd fs)" "x \<in> set fs \<Longrightarrow> x \<in> cells_from c m" "x \<in> us \<Longrightarrow> x \<in> cells_from c m"
  using assms cell_list_hd [of w "w (c + 32)" fs] unfolding slab_def by blast+

lemma slab_card: "slab w hp c fs us m \<Longrightarrow> finite us \<and> card us \<le> 249"
proof
  assume s: "slab w hp c fs us m"
  then have sub: "us \<subseteq> cells_from c m" by (auto simp: slab_def)
  then show "finite us" by (rule finite_subset) simp
  have "card us \<le> card (cells_from c m)" by (rule card_mono [OF _ sub]) simp
  also have "\<dots> \<le> 249" unfolding cells_from_def by (rule order_trans [OF card_image_le]) simp_all
  finally show "card us \<le> 249" .
qed

lemma slab_num_full:
  assumes "slab (wd h) hp c fs us m"
  shows "sc_num_alloc h c = card us" "sc_full h c = (if fs = [] \<and> m = 0 then 1 else 0)"
  using assms slab_card [OF assms] by (auto simp: slab_def sc_num_alloc_def sc_full_def)

text \<open>A chunk depends on its words only.\<close>

lemma slab_cong:
  assumes "slab w hp c fs us m" "\<And>x. c \<le> x \<Longrightarrow> x < c + 4040 \<Longrightarrow> (\<forall>b \<in> us. x \<noteq> b + 8) \<Longrightarrow> w' x = w x"
  shows "slab w' hp c fs us m"
proof -
  have un: "set fs \<union> us = cells_from c m" "set fs \<inter> us = {}" using assms(1) by (auto simp: slab_def)
  have out: "x \<noteq> b + 8" if "b \<in> us" "x < c + 56" for b x
  proof -
    have "b \<in> cells_from c m" using that(1) un(1) by blast
    from cells_from_range [OF this] that(2) show ?thesis by auto
  qed
  have "w' (c + i) = w (c + i)" if "i < 56" for i
    by (rule assms(2)) (use that out in auto)
  from this [of 0] this [of 8] this [of 32] this [of 40] this [of 48]
  have hd: "w' c = w c" "w' (c + 8) = w (c + 8)" "w' (c + 32) = w (c + 32)" "w' (c + 40) = w (c + 40)"
    "w' (c + 48) = w (c + 48)" by simp_all
  have cell: "w' b = w b" if "b \<in> cells_from c m" for b
  proof (rule assms(2))
    show "c \<le> b" "b < c + 4040" using cells_from_range [OF that] by auto
    show "\<forall>b' \<in> us. b \<noteq> b' + 8"
      using cells_from_apart [OF that] un(1) by fastforce
  qed
  have "w' (b + 8) = w (b + 8)" if b: "b \<in> set fs" for b
  proof (rule assms(2))
    have bc: "b \<in> cells_from c m" using b un(1) by auto
    then show "c \<le> b + 8" "b + 8 < c + 4040" using cells_from_range [OF bc] by auto
    show "\<forall>b' \<in> us. b + 8 \<noteq> b' + 8" using b un(2) by auto
  qed
  then have "cell_list w' (w (c + 32)) fs = cell_list w (w (c + 32)) fs"
    using cell un(1) by (intro cell_list_cong) auto
  moreover have "\<forall>b \<in> us. w' b = w b" using cell un(1) by auto
  ultimately show ?thesis using assms(1) hd by (auto simp: slab_def)
qed

text \<open>A cell is taken.\<close>

lemma slab_header_apart:
  assumes "b \<in> cells_from c m"
  shows "b \<noteq> c + 32" "b \<noteq> c + 40" "b \<noteq> c + 48" "b \<noteq> c" "b \<noteq> c + 8" "b + 8 \<noteq> c + 32" "b + 8 \<noteq> c + 40"
    "b + 8 \<noteq> c + 48" "b + 8 \<noteq> c" "b + 8 \<noteq> c + 8"
  using cells_from_range [OF assms] by auto

lemma cell_not_data: "b \<in> cells_from c m \<Longrightarrow> b' \<in> cells_from c m \<Longrightarrow> b \<noteq> b' + 8"
  using cells_from_apart [of b c m b'] by (cases "b = b'") auto

lemma slab_outside:
  assumes "us \<subseteq> cells_from c m" "b \<in> cells_from c m" "x < c \<or> c + 4040 \<le> x \<or> (\<exists>b' \<in> us. x = b' + 8)"
  shows "x \<noteq> c" "x \<noteq> c + 8" "x \<noteq> c + 32" "x \<noteq> c + 40" "x \<noteq> c + 48" "x \<noteq> b"
proof -
  from assms(3) consider "x < c \<or> c + 4040 \<le> x" | b' where "b' \<in> cells_from c m" "x = b' + 8"
    using assms(1) by blast
  then have "x \<noteq> c \<and> x \<noteq> c + 8 \<and> x \<noteq> c + 32 \<and> x \<noteq> c + 40 \<and> x \<noteq> c + 48 \<and> x \<noteq> b"
  proof cases
    case 1
    then show ?thesis using cells_from_range [OF assms(2)] by auto
  next
    case 2
    show ?thesis
      unfolding 2(2) by (intro conjI slab_header_apart(6-10) [OF 2(1)] not_sym [OF cell_not_data [OF assms(2) 2(1)]])
  qed
  then show "x \<noteq> c" "x \<noteq> c + 8" "x \<noteq> c + 32" "x \<noteq> c + 40" "x \<noteq> c + 48" "x \<noteq> b" by simp_all
qed

lemma slab_take_free:
  assumes s: "slab w hp c (b # fs) us m"
    and w': "w' = w(c + 32 := w (b + 8), b := c, c + 48 := card us + 1 + 2 ^ 32 * (if fs = [] \<and> m = 0 then 1 else 0))"
  shows "slab w' hp c fs (insert b us) m" "b \<notin> us" "b \<in> cells_from c m"
proof -
  have un: "insert b (set fs) \<union> us = cells_from c m" "b \<notin> us" "set fs \<inter> us = {}" "b \<notin> set fs" "distinct fs"
    using s by (auto simp: slab_def)
  then show bm: "b \<notin> us" "b \<in> cells_from c m" by auto
  have fin: "finite us" using slab_card [OF s] by simp
  note ap = slab_header_apart [OF bm(2)]
  have cm: "x \<in> cells_from c m" if "x \<in> set fs \<or> x \<in> us" for x using that un(1) by auto
  have "cell_list w (w (b + 8)) fs" using slabD(9) [OF s] by simp
  moreover have "w' x = w x \<and> w' (x + 8) = w (x + 8)" if "x \<in> set fs" for x
  proof -
    have x: "x \<in> cells_from c m" "x \<noteq> b" using that un(4) cm by auto
    show ?thesis
      using x(2) by (simp add: w' slab_header_apart [OF x(1)] not_sym [OF cell_not_data [OF bm(2) x(1)]])
  qed
  ultimately have "cell_list w' (w (b + 8)) fs" using cell_list_cong [of fs w' w] by simp
  moreover have "w' x = c" if "x \<in> insert b us" for x
  proof (cases "x = b")
    case True
    then show ?thesis by (simp add: w' ap)
  next
    case False
    then have x: "x \<in> us" using that by simp
    have "x \<in> cells_from c m" using cm x by blast
    from slab_header_apart [OF this] show ?thesis using slabD(11) [OF s x] False by (simp add: w')
  qed
  moreover have "w' (c + 32) = w (b + 8)" "w' c = w c" "w' (c + 8) = w (c + 8)" "w' (c + 40) = w (c + 40)"
    "w' (c + 48) = card (insert b us) + 2 ^ 32 * (if fs = [] \<and> m = 0 then 1 else 0)"
    using bm(1) fin by (simp_all add: w' ap ap [symmetric])
  moreover have "set fs \<union> insert b us = cells_from c m" "set fs \<inter> insert b us = {}" using un by auto
  moreover note slabD(1-5) [OF s] slabD(10) [OF s] un(5)
  ultimately show "slab w' hp c fs (insert b us) m" by (simp add: slab_def)
qed

lemma slab_take_unused:
  assumes s: "slab w hp c [] us m" and m: "0 < m"
    and w': "w' = w(cell c (m - 1) := c, c + 40 := (if m = 1 then 0 else cell c (m - 2)),
      c + 48 := card us + 1 + 2 ^ 32 * (if m = 1 then 1 else 0))"
  shows "slab w' hp c [] (insert (cell c (m - 1)) us) (m - 1)" "cell c (m - 1) \<notin> us" "cell c (m - 1) \<in> cells_from c (m - 1)"
proof -
  let ?b = "cell c (m - 1)"
  have m9: "m \<le> 249" and un: "us = cells_from c m" using s by (auto simp: slab_def)
  have ins: "cells_from c (m - 1) = insert ?b us" using cells_from_Suc [of "m - 1" c] m m9 un by simp
  then show bm: "?b \<in> cells_from c (m - 1)" by simp
  show nb: "?b \<notin> us" using m unfolding un by (auto simp: cells_from_def)
  have fin: "finite us" using un by simp
  note ap = slab_header_apart [OF bm, unfolded One_nat_def]
  have cm: "x \<in> cells_from c (m - 1)" if "x \<in> us" for x using that ins by simp
  have "w' x = c" if "x \<in> insert ?b us" for x
  proof (cases "x = ?b")
    case True
    then show ?thesis by (simp add: w' ap)
  next
    case False
    then have x: "x \<in> us" using that by simp
    show ?thesis using slab_header_apart [OF cm [OF x]] slabD(11) [OF s x] False by (simp add: w')
  qed
  moreover have "w' (c + 32) = w (c + 32)" "w' c = w c" "w' (c + 8) = w (c + 8)"
    "w' (c + 40) = (if m - 1 = 0 then 0 else cell c (m - 1 - 1))"
    "w' (c + 48) = card (insert ?b us) + 2 ^ 32 * (if m - 1 = 0 then 1 else 0)"
    using nb fin m by (auto simp: w' numeral_2_eq_2 ap ap [symmetric])
  moreover note slabD(1-5,9) [OF s]
  moreover have le: "m - 1 \<le> 249" using m9 by simp
  ultimately show "slab w' hp c [] (insert ?b us) (m - 1)"
    using ins m9 le by (simp add: slab_def)
qed

lemma small_taken_eq:
  assumes n: "wd h (c + 48) = n" "n \<le> 249"
  shows "small_taken c h = stats_update_alloc 8
    ((if wd h (c + 32) = 0 \<and> wd h (c + 40) = 0 then smallchunk_link_full c (smallchunk_unlink_nonfull c h) else h)\<lparr>wd :=
      (wd h)(c + 48 := n + 1 + 2 ^ 32 * (if wd h (c + 32) = 0 \<and> wd h (c + 40) = 0 then 1 else 0))\<rparr>)"
proof -
  have "(n + 2 ^ 32) mod 2 ^ 32 = n" "(n + 2 ^ 32) div 2 ^ 32 = 1" "n div 2 ^ 32 = 0" using n(2) by simp_all
  then show ?thesis
    using n by (simp add: small_taken_def set_num_full_def sc_num_alloc_def sc_full_def st_word_def
        STBM_SMALLEST_ALLOCATION_def smallchunk_link_full_def smallchunk_unlink_nonfull_def)
qed

lemma small_take_slab:
  assumes s: "slab (wd h) hp c fs us m" and room: "fs \<noteq> [] \<or> m \<noteq> 0" and sz: "smallchunk_size h = 4040" "size0 \<le> 8"
  obtains b h' fs' m' where "small_take c size0 h = Inr (b + 8, h')" "slab (wd h') hp c fs' (insert b us) m'" "b \<notin> us"
    "b \<in> cells_from c m'" "m' \<le> m" "\<forall>x. x < c \<or> c + 4040 \<le> x \<or> (\<exists>b' \<in> us. x = b' + 8) \<longrightarrow> wd h' x = wd h x"
    "h' = stats_update_alloc 8 ((if fs' = [] \<and> m' = 0 then smallchunk_link_full c (smallchunk_unlink_nonfull c h)
       else h)\<lparr>wd := wd h'\<rparr>)"
proof -
  note nf = slab_num_full [OF s]
  have c32: "wd h (c + 32) = (if fs = [] then 0 else hd fs)" "wd h (c + 40) = (if m = 0 then 0 else cell c (m - 1))"
    using slabD(10,13) [OF s] by simp_all
  have num: "card us \<le> 249" using slab_card [OF s] by simp
  show ?thesis
  proof (cases fs)
    case (Cons b fs')
    have bm: "b \<in> cells_from c m" and b1: "wd h b = STBM_SMALL_FREE_BLOCK_MAGIC" "b \<noteq> 0"
      using s Cons by (auto simp: slab_def)
    note ap = slab_header_apart [OF bm, unfolded One_nat_def]
    define w' where "w' = (wd h)(c + 32 := wd h (b + 8), b := c,
      c + 48 := card us + 1 + 2 ^ 32 * (if fs' = [] \<and> m = 0 then 1 else 0))"
    note sl = slab_take_free [OF s [unfolded Cons] w'_def]
    define h' where "h' = stats_update_alloc 8 ((if fs' = [] \<and> m = 0 then smallchunk_link_full c (smallchunk_unlink_nonfull c h)
       else h)\<lparr>wd := w'\<rparr>)"
    have wh': "wd h' = w'" by (simp add: h'_def stats_update_alloc_def Let_def)
    have next0: "wd h (b + 8) = 0 \<longleftrightarrow> fs' = []"
    proof -
      have "cell_list (wd h) (wd h (b + 8)) fs'" using s Cons by (simp add: slab_def)
      then show ?thesis by (cases fs') auto
    qed
    define h1 where "h1 = h\<lparr>wd := (wd h)(c + 32 := wd h (b + 8), b := c)\<rparr>"
    have "small_take_cell c size0 h = Inr (b, h1)"
      using Cons c32 b1 by (simp add: small_take_cell_def st_word_def h1_def ap ap [symmetric])
    moreover have "wd h1 (c + 48) = card us" "wd h1 (c + 32) = wd h (b + 8)" "wd h1 (c + 40) = wd h (c + 40)"
      using slabD(12) [OF s] Cons by (simp_all add: h1_def ap ap [symmetric])
    moreover have "wd h (c + 40) = 0 \<longleftrightarrow> m = 0" using c32(2) by (simp add: cell_def)
    ultimately have "small_take c size0 h = Inr (b + 8, h')"
      using nf Cons next0 small_taken_eq [of h1 c "card us"] num
      by (simp add: small_take_def h'_def w'_def h1_def smallchunk_link_full_def smallchunk_unlink_nonfull_def)
    moreover have "wd h' x = wd h x" if "x < c \<or> c + 4040 \<le> x \<or> (\<exists>b' \<in> us. x = b' + 8)" for x
    proof -
      have "us \<subseteq> cells_from c m" using slabD(8) [OF s] by blast
      note slab_outside [OF this bm that]
      then show ?thesis by (simp add: wh' w'_def)
    qed
    ultimately show ?thesis using that [of b h' fs' m] sl h'_def wh' by simp
  next
    case Nil
    then have m: "0 < m" using room by simp
    let ?b = "cell c (m - 1)"
    define w' where "w' = (wd h)(?b := c, c + 40 := (if m = 1 then 0 else cell c (m - 2)),
      c + 48 := card us + 1 + 2 ^ 32 * (if m = 1 then 1 else 0))"
    note sl = slab_take_unused [OF s [unfolded Nil] m w'_def]
    note ap = slab_header_apart [OF sl(3), unfolded One_nat_def]
    have m9: "m \<le> 249" using s by (simp add: slab_def)
    define h' where "h' = stats_update_alloc 8 ((if m = 1 then smallchunk_link_full c (smallchunk_unlink_nonfull c h)
       else h)\<lparr>wd := w'\<rparr>)"
    have wh': "wd h' = w'" by (simp add: h'_def stats_update_alloc_def Let_def)
    have ua: "?b - 16 < c + 56 \<longleftrightarrow> m = 1" "m \<noteq> 1 \<Longrightarrow> ?b - 16 = cell c (m - 2)" "?b \<noteq> 0" "?b + size0 \<le> c + 4040" "c + 56 \<le> ?b"
      using m m9 sz(2) by (auto simp: cell_def)
    define h1 where "h1 = h\<lparr>wd := (wd h)(?b := c, c + 40 := (if m = 1 then 0 else cell c (m - 2)))\<rparr>"
    have "small_take_cell c size0 h = Inr (?b, h1)"
      using Nil c32 ua m sz
      by (simp add: small_take_cell_def st_word_def h1_def STBM_SMALLEST_BLOCKSIZE_def sizeof_small_chunk_def Let_def)
    moreover have "wd h1 (c + 48) = card us" "wd h1 (c + 32) = 0" "wd h1 (c + 40) = (if m = 1 then 0 else cell c (m - 2))"
      using slabD(12) [OF s] Nil m c32 by (simp_all add: h1_def ap ap [symmetric])
    moreover have "cell c (m - 2) \<noteq> 0" by (simp add: cell_def)
    ultimately have "small_take c size0 h = Inr (?b + 8, h')"
      using nf Nil m small_taken_eq [of h1 c "card us"] num
      by (simp add: small_take_def h'_def w'_def h1_def smallchunk_link_full_def smallchunk_unlink_nonfull_def)
    moreover have "wd h' x = wd h x" if "x < c \<or> c + 4040 \<le> x \<or> (\<exists>b' \<in> us. x = b' + 8)" for x
    proof -
      have "us \<subseteq> cells_from c (m - 1)" using slabD(8) [OF sl(1)] by blast
      note slab_outside [OF this sl(3) that]
      then show ?thesis by (simp add: wh' w'_def)
    qed
    moreover have "m - 1 = 0 \<longleftrightarrow> m = 1" using m by auto
    ultimately show ?thesis using that [of ?b h' "[]" "m - 1"] sl h'_def wh' by simp
  qed
qed

text \<open>A cell is given back.\<close>

lemma slab_give:
  assumes s: "slab w hp c fs us m" and b: "b \<in> us"
    and w': "w' = w(b + 8 := w (c + 32), b := STBM_SMALL_FREE_BLOCK_MAGIC, c + 32 := b, c + 48 := card us - 1)"
  shows "slab w' hp c (b # fs) (us - {b}) m"
proof -
  have bm: "b \<in> cells_from c m" by (rule slabD(15) [OF s b])
  have un: "set fs \<union> us = cells_from c m" "set fs \<inter> us = {}" "distinct fs" "b \<notin> set fs"
    using slabD(6-8) [OF s] b by auto
  have fin: "finite us" using slab_card [OF s] by simp
  note ap = slab_header_apart [OF bm]
  have other: "w' x = w x \<and> w' (x + 8) = w (x + 8)" if x: "x \<in> cells_from c m" "x \<noteq> b" for x
    using x(2) by (simp add: w' slab_header_apart [OF x(1)] cell_not_data [OF x(1) bm] not_sym [OF cell_not_data [OF bm x(1)]])
  have "cell_list w' (w (c + 32)) fs = cell_list w (w (c + 32)) fs"
    by (rule cell_list_cong) (use other slabD(14) [OF s] un(4) in metis)
  then have "cell_list w' (w (c + 32)) fs" using slabD(9) [OF s] by simp
  moreover have "w' b = STBM_SMALL_FREE_BLOCK_MAGIC" "w' (b + 8) = w (c + 32)" "w' (c + 32) = b" "b \<noteq> 0"
    using cells_from_range [OF bm] by (simp_all add: w' ap ap [symmetric])
  ultimately have "cell_list w' (w' (c + 32)) (b # fs)" by simp
  moreover have "w' x = c" if "x \<in> us - {b}" for x
    using that other [OF slabD(15) [OF s, of x]] slabD(11) [OF s, of x] by simp
  moreover have "w' c = w c" "w' (c + 8) = w (c + 8)" "w' (c + 40) = w (c + 40)" "w' (c + 48) = card (us - {b})"
    using fin b by (simp_all add: w' ap ap [symmetric])
  moreover have "set (b # fs) \<union> (us - {b}) = cells_from c m" "set (b # fs) \<inter> (us - {b}) = {}" "distinct (b # fs)"
    using un b by auto
  moreover note slabD(1-5,10) [OF s]
  ultimately show ?thesis by (simp add: slab_def)
qed

text \<open>What \<open>stbm__small_free\<close> does with the chunk of the cell.\<close>

definition after_give :: "nat \<Rightarrow> bool \<Rightarrow> bool \<Rightarrow> stbm_heap \<Rightarrow> nat \<times> stbm_heap" where
  "after_give c was_full last_cell h =
     (if \<not> last_cell then (0, if was_full then smallchunk_link_nonfull c (smallchunk_unlink_full c h) else h)
      else let h = smallchunk_unlink_nonfull c h
           in if chunkcache h = 0 then (0, h\<lparr>chunkcache := c\<rparr>) else (c, h))"

lemma small_given_eq:
  assumes "wd h (c + 48) = n + 2 ^ 32 * (if f then 1 else 0)" "n \<le> 249" "n = 0 \<Longrightarrow> \<not> f"
  shows "small_given c h = Inr (after_give c f (n = 0) (h\<lparr>wd := (wd h)(c + 48 := n)\<rparr>))"
proof -
  have ar: "(n + 2 ^ 32 * (if f then 1 else 0)) mod 2 ^ 32 = n" "(n + 2 ^ 32 * (if f then 1 else 0)) div 2 ^ 32 = (if f then 1 else 0)"
    using assms(2) by simp_all
  have sc: "sc_num_alloc h c = n" "sc_full h c = (if f then 1 else 0)"
    unfolding sc_num_alloc_def sc_full_def assms(1) by (rule ar)+
  show ?thesis
  proof (cases f)
    case True
    then have "n \<noteq> 0" using assms(3) by auto
    then show ?thesis
      using True assms(2) sc by (simp add: small_given_def after_give_def set_num_full_def st_word_def
        smallchunk_link_nonfull_def smallchunk_unlink_full_def)
  next
    case False
    then have "(wd h)(c + 48 := n) = wd h" using assms(1) by auto
    then have "h\<lparr>wd := (wd h)(c + 48 := n)\<rparr> = h" by simp
    then show ?thesis using False sc by (simp add: small_given_def after_give_def Let_def)
  qed
qed

lemma small_free_slab:
  assumes s: "slab (wd h) hp c fs us m" and b: "b \<in> us"
    and w': "w' = (wd h)(b + 8 := wd h (c + 32), b := STBM_SMALL_FREE_BLOCK_MAGIC, c + 32 := b, c + 48 := card us - 1)"
    and ne: "us = {b} \<Longrightarrow> \<not> (fs = [] \<and> m = 0)"
  shows "small_free (b + 8) h = (case after_give c (fs = [] \<and> m = 0) (us = {b}) (h\<lparr>wd := w'\<rparr>) of (chunk_to_free, h) \<Rightarrow>
           res_bind (stats_update_free 8 h) (\<lambda>h. if chunk_to_free \<noteq> 0 then medium_free chunk_to_free h else Inr h))"
proof -
  note nf = slab_num_full [OF s]
  have num: "card us \<le> 249" "finite us" using slab_card [OF s] by simp_all
  have "card us \<noteq> 0" using b num(2) by auto
  then have c1: "1 \<le> card us" by simp
  have e: "us = {b} \<longleftrightarrow> card us - 1 = 0" using b c1 by (auto simp: card_1_singleton_iff le_antisym)
  have bm: "b \<in> cells_from c m" by (rule slabD(15) [OF s b])
  note ap = slab_header_apart [OF bm]
  have wb: "wd h b = c" by (rule slabD(11) [OF s b])
  define f where "f = (fs = [] \<and> m = 0)"
  define w1 where "w1 = (wd h)(b + 8 := wd h (c + 32), b := STBM_SMALL_FREE_BLOCK_MAGIC, c + 32 := b)"
  define h2 where "h2 = h\<lparr>wd := w1(c + 48 := card us - 1 + 2 ^ 32 * (if f then 1 else 0))\<rparr>"
  have w48: "w1 (c + 48) = card us + 2 ^ 32 * (if f then 1 else 0)"
    using slabD(12) [OF s] by (simp add: f_def w1_def ap ap [symmetric])
  have "(card us + 2 ^ 32 * (if f then 1 else 0)) mod 2 ^ 32 = card us"
    "(card us + 2 ^ 32 * (if f then 1 else 0)) div 2 ^ 32 = (if f then 1 else 0)"
    using num(1) by simp_all
  then have sc: "sc_num_alloc (h\<lparr>wd := w1\<rparr>) c = card us" "sc_full (h\<lparr>wd := w1\<rparr>) c = (if f then 1 else 0)"
    by (simp_all add: sc_num_alloc_def sc_full_def w48)
  have "(card us - 1) mod 2 ^ 32 = card us - 1" using num(1) by simp
  then have h2: "set_num_full c (card us - 1) (if f then 1 else 0) (h\<lparr>wd := w1\<rparr>) = h2"
    by (simp add: set_num_full_def st_word_def h2_def)
  have g: "small_given c h2 = Inr (after_give c f (card us - 1 = 0) (h2\<lparr>wd := (wd h2)(c + 48 := card us - 1)\<rparr>))"
    by (rule small_given_eq) (use num(1) e ne in \<open>auto simp: h2_def f_def\<close>)
  have hw: "h2\<lparr>wd := (wd h2)(c + 48 := card us - 1)\<rparr> = h\<lparr>wd := w'\<rparr>"
    by (simp add: h2_def w' w1_def)
  have "small_free (b + 8) h = res_bind (small_given c h2) (\<lambda>(chunk_to_free, h).
      res_bind (stats_update_free 8 h) (\<lambda>h. if chunk_to_free \<noteq> 0 then medium_free chunk_to_free h else Inr h))"
    using c1 nf(1) wb h2 sc
    by (simp add: small_free_def st_word_def Let_def STBM_SMALLEST_ALLOCATION_def flip: w1_def)
  then show ?thesis using g e hw by (simp add: f_def)
qed

end
