(* ===== verification/TlsfLists.thy ===== *)
theory TlsfLists
  imports Tlsf
begin

text \<open>
  The free lists of the medium allocator: doubly linked lists through the words of the free blocks, one
  for each size class, with a bitmap of the lists that are not empty. Linking and unlinking a
  block keep them, and change no word but the links.
\<close>

unbundle bit_operations_syntax

section \<open>Doubly linked lists\<close>

text \<open>The blocks linked from \<open>p\<close> on, after \<open>prv\<close>.\<close>

primrec dll :: "words \<Rightarrow> nat \<Rightarrow> nat \<Rightarrow> nat list \<Rightarrow> bool" where
  "dll w prv p [] \<longleftrightarrow> p = 0"
| "dll w prv p (x # xs) \<longleftrightarrow> p = x \<and> x \<noteq> 0 \<and> w x = prv \<and> dll w x (w (x + 16)) xs"

definition apart :: "nat set \<Rightarrow> bool" where
  "apart S \<longleftrightarrow> (\<forall>x \<in> S. \<forall>y \<in> S. x < y \<longrightarrow> x + 32 \<le> y)"

lemma apartD: "apart S \<Longrightarrow> x \<in> S \<Longrightarrow> y \<in> S \<Longrightarrow> x \<noteq> y + 16"
  by (fastforce simp: apart_def)

lemma apart_mono: "apart S \<Longrightarrow> T \<subseteq> S \<Longrightarrow> apart T"
  by (auto simp: apart_def)

lemma dll_cong:
  "(\<And>x. x \<in> set xs \<Longrightarrow> w' x = w x \<and> w' (x + 16) = w (x + 16)) \<Longrightarrow> dll w' prv p xs = dll w prv p xs"
  by (induction xs arbitrary: prv p) auto

lemma dll_next: "dll w prv p xs \<Longrightarrow> x \<in> set xs \<Longrightarrow> w (x + 16) \<noteq> 0 \<Longrightarrow> w (x + 16) \<in> set xs"
proof (induction xs arbitrary: prv p)
  case (Cons y ys)
  then have "dll w y (w (y + 16)) ys" by simp
  with Cons show ?case by (cases "x = y"; cases ys) auto
qed simp

lemma dll_prev: "dll w prv p xs \<Longrightarrow> x \<in> set xs \<Longrightarrow> x \<noteq> p \<Longrightarrow> w x \<in> set xs"
proof (induction xs arbitrary: prv p)
  case (Cons y ys)
  then have y: "p = y" "dll w y (w (y + 16)) ys" "x \<in> set ys" by auto
  show ?case
  proof (cases "x = w (y + 16)")
    case True
    then have "w x = y" using y(2,3) by (cases ys) auto
    then show ?thesis by simp
  qed (use Cons.IH [OF y(2,3)] in simp)
qed simp

lemma dll_hd: "dll w prv p xs \<Longrightarrow> p = (if xs = [] then 0 else hd xs)"
  by (cases xs) auto

text \<open>A new head.\<close>

lemma dll_push:
  assumes "dll w 0 p xs" "distinct xs" "a \<notin> set xs" "a \<noteq> 0" "apart (insert a (set xs))"
    and w': "\<And>x. w' x = (if x = a then 0 else if x = a + 16 then p else if x = p \<and> p \<noteq> 0 then a else w x)"
  shows "dll w' 0 a (a # xs)"
proof (cases xs)
  case Nil
  then show ?thesis using assms(1,4) w' by simp
next
  case (Cons y ys)
  have y: "p = y" "y \<noteq> 0" "dll w y (w (y + 16)) ys" using assms(1) Cons by auto
  have ap: "x \<noteq> z + 16" if "x \<in> insert a (set xs)" "z \<in> insert a (set xs)" for x z
    using apartD [OF assms(5) that] .
  have "w' x = w x \<and> w' (x + 16) = w (x + 16)" if "x \<in> set ys" for x
    using that assms(2,3) Cons y(1) ap [of a x] ap [of y x] ap [of x a] by (auto simp: w')
  then have "dll w' y (w (y + 16)) ys" using dll_cong [of ys w' w] y(3) by simp
  moreover have "w' y = a" "w' (y + 16) = w (y + 16)" "w' a = 0" "w' (a + 16) = y"
    using assms(3) Cons y(1,2) ap [of y a] ap [of a y] ap [of y y] by (auto simp: w')
  ultimately show ?thesis using Cons y(1,2) assms(4) by simp
qed

text \<open>Taking out the first element, and another one.\<close>

lemma dll_pop:
  assumes "dll w prv a (a # xs)" "distinct (a # xs)" "apart (set (a # xs))"
    and w': "\<And>x. x \<noteq> w (a + 16) \<Longrightarrow> w' x = w x" "w (a + 16) \<noteq> 0 \<Longrightarrow> w' (w (a + 16)) = prv"
  shows "dll w' prv (w (a + 16)) xs"
proof (cases xs)
  case Nil
  then show ?thesis using assms(1) by simp
next
  case (Cons y ys)
  have y: "w (a + 16) = y" "y \<noteq> 0" "dll w y (w (y + 16)) ys" using assms(1) Cons by auto
  have ap: "x \<noteq> z + 16" if "x \<in> set xs" "z \<in> set xs" for x z
    using apartD [OF assms(3), of x z] that by simp
  have "w' x = w x \<and> w' (x + 16) = w (x + 16)" if "x \<in> set ys" for x
    using that assms(2) Cons y(1) ap [of y x] w'(1) [of x] w'(1) [of "x + 16"] by auto
  then have "dll w' y (w (y + 16)) ys" using dll_cong [of ys w' w] y(3) by simp
  moreover have "w' y = prv" "w' (y + 16) = w (y + 16)"
    using w'(2) y(1,2) w'(1) [of "y + 16"] by auto
  ultimately show ?thesis using Cons y(1,2) by simp
qed

lemma dll_remove:
  assumes "dll w prv p xs" "distinct xs" "apart (set xs)" "a \<in> set xs" "a \<noteq> p"
    and w': "\<And>x. w' x = (if x = w (a + 16) \<and> x \<noteq> 0 then w a else if x = w a + 16 then w (a + 16) else w x)"
  shows "dll w' prv p (remove1 a xs)"
  using assms(1-5)
proof (induction xs arbitrary: prv p)
  case (Cons x ys)
  have x: "p = x" "x \<noteq> 0" "w x = prv" "dll w x (w (x + 16)) ys" "a \<noteq> x" "a \<in> set ys"
    using Cons.prems by auto
  have ap: "u \<noteq> v + 16" if "u \<in> set (x # ys)" "v \<in> set (x # ys)" for u v
    using apartD [OF Cons.prems(3) that] .
  have apy: "apart (set ys)" using apart_mono [OF Cons.prems(3)] by auto
  show ?case
  proof (cases "a = w (x + 16)")
    case True
    then obtain zs where ys: "ys = a # zs" using x(4,6) by (cases ys) auto
    have wa: "w a = x" using x(4) ys by simp
    have nxt: "w (a + 16) \<in> set ys \<or> w (a + 16) = 0" using dll_next [OF x(4) x(6)] by auto
    have wx: "w' x = prv" "w' (x + 16) = w (a + 16)"
      using x nxt Cons.prems(2) ap [of "w (a + 16)" x] by (auto simp: w' wa)
    define w1 where "w1 = (\<lambda>u. if u = x + 16 then w u else w' u)"
    have "dll w x a (a # zs)" using x(4) True ys by simp
    then have "dll w1 x (w (a + 16)) zs"
    proof (rule dll_pop)
      show "distinct (a # zs)" "apart (set (a # zs))" using Cons.prems(2) apy ys by auto
      show "w1 u = w u" if "u \<noteq> w (a + 16)" for u using that by (simp add: w1_def w' wa)
      show "w1 (w (a + 16)) = x" if "w (a + 16) \<noteq> 0"
        using that nxt ap [of "w (a + 16)" x] by (auto simp: w1_def w' wa)
    qed
    moreover have "w' u = w1 u \<and> w' (u + 16) = w1 (u + 16)" if "u \<in> set zs" for u
      using that ys Cons.prems(2) ap [of u x] by (auto simp: w1_def)
    ultimately have "dll w' x (w (a + 16)) zs" using dll_cong [of zs w' w1] by simp
    then show ?thesis using x wx ys by simp
  next
    case False
    have q: "w a \<in> set ys" using dll_prev [OF x(4) x(6)] False by simp
    have nxt: "w (a + 16) \<in> set ys \<or> w (a + 16) = 0" using dll_next [OF x(4) x(6)] by auto
    have "w' x = prv" "w' (x + 16) = w (x + 16)"
      using x q nxt Cons.prems(2) ap [of x "w a"] ap [of "w (a + 16)" x] by (auto simp: w')
    moreover have "dll w' x (w (x + 16)) (remove1 a ys)"
      by (rule Cons.IH [OF x(4) _ apy x(6) False]) (use Cons.prems(2) in simp)
    ultimately show ?thesis using x by simp
  qed
qed simp

section \<open>The free lists and their bitmaps\<close>

text \<open>\<open>F\<close> gives the class of each block that is in a list.\<close>

definition lists_ok :: "stbm_heap \<Rightarrow> (nat \<rightharpoonup> nat) \<Rightarrow> bool" where
  "lists_ok h F \<longleftrightarrow> apart (dom F) \<and> 0 \<notin> dom F \<and> (\<forall>a c. F a = Some c \<longrightarrow> c < 416) \<and>
     (\<forall>i<13. \<forall>s<32. \<exists>xs. dll (wd h) 0 (free_lists h i s) xs \<and> distinct xs \<and> set xs = {a. F a = Some (i * 32 + s)}) \<and>
     (\<forall>i<13. \<forall>s<32. bit (bitmap h i) (31 - s) \<longleftrightarrow> free_lists h i s \<noteq> 0) \<and>
     (\<forall>i<13. bit (toplevel_bitmap h) (31 - i) \<longleftrightarrow> bitmap h i \<noteq> 0) \<and>
     (\<forall>i<32. 13 \<le> i \<longrightarrow> \<not> bit (toplevel_bitmap h) (31 - i))"

text \<open>Nothing but the free lists and words has changed.\<close>

definition list_frame :: "stbm_heap \<Rightarrow> stbm_heap \<Rightarrow> bool" where
  "list_frame h h' \<longleftrightarrow> h' = h\<lparr>wd := wd h', free_lists := free_lists h', bitmap := bitmap h',
     toplevel_bitmap := toplevel_bitmap h'\<rparr>"

lemma list_frame_refl [simp]: "list_frame h h" by (simp add: list_frame_def)

lemma list_frame_trans: "list_frame h h' \<Longrightarrow> list_frame h' h'' \<Longrightarrow> list_frame h h''"
  unfolding list_frame_def by (cases h; cases h'; cases h''; simp)

lemma bit_or_map: "s < 32 \<Longrightarrow> t < 32 \<Longrightarrow> bit (v OR map_bit s) (31 - t) \<longleftrightarrow> bit v (31 - t) \<or> t = s"
  by (auto simp: map_bit_def bit_simps bit_1_iff)

lemma bit_clear_map: "s < 32 \<Longrightarrow> t < 32 \<Longrightarrow> bit (v AND NOT (map_bit s)) (31 - t) \<longleftrightarrow> bit v (31 - t) \<and> t \<noteq> s"
  by (auto simp: map_bit_def bit_simps bit_1_iff)

lemma map_zero_iff: "(v :: u32) = 0 \<longleftrightarrow> (\<forall>s<32. \<not> bit v (31 - s))"
proof
  assume n: "\<forall>s<32. \<not> bit v (31 - s)"
  show "v = 0"
  proof (rule bit_word_eqI)
    fix k assume "k < LENGTH(32)"
    then have "31 - (31 - k) = k" "31 - k < 32" by simp_all
    then show "bit v k \<longleftrightarrow> bit 0 k" using n by (metis bit_0_eq bot_apply bot_bool_def)
  qed
qed simp

lemma list_of:
  assumes "lists_ok h F" "i < 13" "s < 32"
  obtains xs where "dll (wd h) 0 (free_lists h i s) xs" "distinct xs" "set xs = {a. F a = Some (i * 32 + s)}"
    "apart (set xs)"
proof -
  obtain xs where xs: "dll (wd h) 0 (free_lists h i s) xs" "distinct xs" "set xs = {a. F a = Some (i * 32 + s)}"
    using assms unfolding lists_ok_def by meson
  moreover have "apart (set xs)"
    using assms(1) xs(3) by (auto simp: lists_ok_def intro: apart_mono [of "dom F"])
  ultimately show ?thesis using that by blast
qed

lemma class_index:
  fixes c :: nat
  assumes "c < 416"
  shows "drop_bit 5 c = c div 32" "c AND 31 = c mod 32" "c div 32 < 13" "c mod 32 < 32" "c div 32 * 32 + c mod 32 = c"
proof -
  show "c AND 31 = c mod 32"
    using take_bit_eq_mask [of 5 c] by (simp add: mask_eq_exp_minus_1 take_bit_eq_mod)
  show "drop_bit 5 c = c div 32" "c div 32 < 13" "c mod 32 < 32" "c div 32 * 32 + c mod 32 = c"
    using assms by (simp_all add: drop_bit_eq_div div_less_iff_less_mult)
qed

lemma pair_index: fixes i j s t :: nat shows "s < 32 \<Longrightarrow> t < 32 \<Longrightarrow> i * 32 + s = j * 32 + t \<longleftrightarrow> i = j \<and> s = t"
  by (metis div_mult_self3 div_less add_0 mod_mult_self3 mod_less zero_neq_numeral add.commute)

lemma medium_unlink_ok:
  assumes ok: "lists_ok h F" and F: "F a = Some c" and p: "MED_FREE_SIZECLASS (wd h (a + 8)) = c"
  obtains h' where "medium_unlink a h = Inr h'" "lists_ok h' (F(a := None))" "list_frame h h'"
    "\<forall>x. (\<forall>y \<in> dom F. x \<noteq> y \<and> x \<noteq> y + 16) \<longrightarrow> wd h' x = wd h x"
proof -
  define i s where "i = c div 32" and "s = c mod 32"
  have "c < 416" using ok F by (auto simp: lists_ok_def)
  note ci = class_index [OF this, folded i_def s_def]
  obtain xs where xs: "dll (wd h) 0 (free_lists h i s) xs" "distinct xs" "set xs = {a. F a = Some (i * 32 + s)}"
    "apart (set xs)" using list_of [OF ok ci(3,4)] by blast
  have a: "a \<in> set xs" using xs(3) F ci(5) by simp
  have sub: "set xs \<subseteq> dom F" using xs(3) by auto
  have ne: "free_lists h i s \<noteq> 0" using xs(1) a by (cases xs) auto
  let ?n = "wd h (a + 16)" and ?q = "wd h a"
  have n: "?n = 0 \<or> ?n \<in> set xs" using dll_next [OF xs(1) a] by auto
  have z: "0 \<notin> dom F" using ok by (simp add: lists_ok_def)
  have apF: "x \<noteq> y + 16" if "x \<in> dom F" "y \<in> dom F" for x y
    using ok that by (auto simp: lists_ok_def dest: apartD)
  text \<open>The other lists do not change.\<close>
  have other: "\<exists>ys. dll w' 0 (free_lists h j t) ys \<and> distinct ys \<and> set ys = {x. (F(a := None)) x = Some (j * 32 + t)}"
    if jt: "j < 13" "t < 32" "(j, t) \<noteq> (i, s)" and w': "\<And>x. x \<notin> set xs \<Longrightarrow> x - 16 \<notin> set xs \<or> x < 16 \<Longrightarrow> w' x = wd h x" for j t w'
  proof -
    obtain ys where ys: "dll (wd h) 0 (free_lists h j t) ys" "distinct ys" "set ys = {a. F a = Some (j * 32 + t)}"
      using list_of [OF ok jt(1,2)] by blast
    have dis: "set ys \<inter> set xs = {}" using ys(3) xs(3) pair_index [OF ci(4) jt(2), of i j] jt(3) by auto
    have "w' x = wd h x \<and> w' (x + 16) = wd h (x + 16)" if "x \<in> set ys" for x
    proof -
      have xF: "x \<in> dom F" using that ys(3) by auto
      have "x \<notin> set xs" "x + 16 \<notin> set xs" using that dis sub apF [OF _ xF, of "x + 16"] by auto
      moreover have "x - 16 \<notin> set xs \<or> x < 16" using sub apF [OF xF, of "x - 16"] by (cases "x < 16") auto
      ultimately show ?thesis using w' [of x] w' [of "x + 16"] by simp
    qed
    then have "dll w' 0 (free_lists h j t) ys" using dll_cong [of ys w'] ys(1) by simp
    moreover have "(F(a := None)) x = Some (j * 32 + t) \<longleftrightarrow> F x = Some (j * 32 + t)" for x
      using F ci(5) pair_index [OF ci(4) jt(2), of i j] jt(3) by auto
    ultimately show ?thesis using ys by auto
  qed
  have rem: "set (remove1 a xs) = {x. (F(a := None)) x = Some (i * 32 + s)}"
    using xs(2,3) by auto
  have apr: "apart (dom (F(a := None)))" using ok by (auto simp: lists_ok_def intro: apart_mono [of "dom F"])
  show ?thesis
  proof (cases "free_lists h i s = a")
    case False
    have q: "?q \<in> set xs" using dll_prev [OF xs(1) a] False by auto
    then have q0: "?q \<noteq> 0" using sub z by auto
    define w' where "w' = (let w = (wd h)(?q + 16 := ?n) in if ?n \<noteq> 0 then w(?n := ?q) else w)"
    have w': "w' x = (if x = ?n \<and> x \<noteq> 0 then ?q else if x = ?q + 16 then ?n else wd h x)" for x
      by (auto simp: w'_def Let_def)
    let ?h = "h\<lparr>wd := w'\<rparr>"
    have "medium_unlink a h = Inr ?h"
      using ne False q0 by (simp add: medium_unlink_def p ci(1,2) Let_def st_word_def w'_def)
    moreover have fr: "w' x = wd h x" if "x \<notin> set xs" "x - 16 \<notin> set xs \<or> x < 16" for x
      using that n q by (auto simp: w')
    have "dll w' 0 (free_lists h i s) (remove1 a xs)"
      using dll_remove [OF xs(1,2,4) a] False w' by auto
    then have this_list: "\<exists>ys. dll w' 0 (free_lists h i s) ys \<and> distinct ys \<and> set ys = {x. (F(a := None)) x = Some (i * 32 + s)}"
      using rem xs(2) by (intro exI [of _ "remove1 a xs"]) simp
    have "\<exists>ys. dll w' 0 (free_lists h j t) ys \<and> distinct ys \<and> set ys = {x. (F(a := None)) x = Some (j * 32 + t)}"
      if "j < 13" "t < 32" for j t
      using this_list other [OF that _ fr] by (cases "(j, t) = (i, s)") auto
    then have "lists_ok ?h (F(a := None))"
      using ok apr by (auto simp: lists_ok_def simp del: fun_upd_apply) (auto split: if_splits)
    moreover have "wd ?h x = wd h x" if "\<And>y. y \<in> dom F \<Longrightarrow> x \<noteq> y \<and> x \<noteq> y + 16" for x
    proof -
      have "x - 16 \<notin> set xs \<or> x < 16" using that [of "x - 16"] sub by (cases "x < 16") auto
      moreover have "x \<notin> set xs" using that [of x] sub by auto
      ultimately show ?thesis using fr by simp
    qed
    ultimately show ?thesis by (intro that [of ?h]) (simp_all add: list_frame_def)
  next
    case True
    then obtain xs' where xs': "xs = a # xs'" using xs(1) a by (cases xs) auto
    have n0: "?n = 0 \<longleftrightarrow> xs' = []" using xs(1) xs' z sub by (cases xs') auto
    define w' where "w' = (if ?n \<noteq> 0 then (wd h)(?n := 0) else wd h)"
    have w': "w' x = (if x = ?n \<and> x \<noteq> 0 then 0 else wd h x)" for x by (auto simp: w'_def)
    have fr: "w' x = wd h x" if "x \<notin> set xs" "x - 16 \<notin> set xs \<or> x < 16" for x
      using that n by (auto simp: w')
    define L' where "L' = (free_lists h)(i := (free_lists h i)(s := ?n))"
    define bm' where "bm' = (if ?n \<noteq> 0 then bitmap h else (bitmap h)(i := bitmap h i AND NOT (map_bit s)))"
    define tm' where "tm' = (if ?n \<noteq> 0 \<or> bm' i \<noteq> 0 then toplevel_bitmap h else toplevel_bitmap h AND NOT (map_bit i))"
    let ?h = "h\<lparr>wd := w', free_lists := L', bitmap := bm', toplevel_bitmap := tm'\<rparr>"
    have "medium_unlink a h = Inr ?h"
      using ne True by (auto simp: medium_unlink_def p ci(1,2) Let_def st_word_def w'_def L'_def bm'_def tm'_def)
    moreover have "lists_ok ?h (F(a := None))"
      unfolding lists_ok_def
    proof (intro conjI allI impI)
      show "apart (dom (F(a := None)))" "0 \<notin> dom (F(a := None))" using apr z by auto
      fix j t
      show "(F(a := None)) j = Some t \<Longrightarrow> t < 416" using ok by (auto simp: lists_ok_def split: if_splits)
      assume j: "j < (13 :: nat)"
      have i13: "i < 32" "j < 32" using ci(3) j by auto
      show "bit (toplevel_bitmap ?h) (31 - j) \<longleftrightarrow> bitmap ?h j \<noteq> 0"
        using ok j ci(3) bit_clear_map [OF i13] n0 by (auto simp: lists_ok_def tm'_def bm'_def)
      assume t: "t < (32 :: nat)"
      show "bit (bitmap ?h j) (31 - t) \<longleftrightarrow> free_lists ?h j t \<noteq> 0"
        using ok j t ne bit_clear_map [OF ci(4) t] by (auto simp: lists_ok_def bm'_def L'_def)
      show "\<exists>ys. dll (wd ?h) 0 (free_lists ?h j t) ys \<and> distinct ys \<and> set ys = {x. (F(a := None)) x = Some (j * 32 + t)}"
      proof (cases "(j, t) = (i, s)")
        case eq: True
        have "dll w' 0 ?n xs'"
          by (rule dll_pop [of "wd h" 0 a]) (use xs True xs' in \<open>auto simp: w'\<close>)
        then show ?thesis using eq rem xs(2) xs' by (intro exI [of _ xs']) (auto simp: L'_def)
      next
        case neq: False
        then have "L' j t = free_lists h j t" by (auto simp: L'_def)
        then show ?thesis using other [OF j t neq fr] by simp
      qed
    next
      fix j assume "j < (32 :: nat)" "13 \<le> j"
      moreover have "i < 32" using ci(3) by simp
      ultimately show "\<not> bit (toplevel_bitmap ?h) (31 - j)"
        using ok bit_clear_map [of i j] by (auto simp: lists_ok_def tm'_def)
    qed
    moreover have "wd ?h x = wd h x" if "\<And>y. y \<in> dom F \<Longrightarrow> x \<noteq> y \<and> x \<noteq> y + 16" for x
    proof -
      have "x \<noteq> ?n \<or> ?n = 0" using that [of ?n] n sub by auto
      then show ?thesis by (auto simp: w')
    qed
    ultimately show ?thesis by (intro that [of ?h]) (simp_all add: list_frame_def)
  qed
qed

text \<open>The class of a size, which is also defined for the greatest sizes.\<close>

definition class_of :: "nat \<Rightarrow> nat" where
  "class_of n = (case block_class n of Inr (i, s) \<Rightarrow> i * 32 + s | Inl e \<Rightarrow> 0)"

lemma block_class_ok:
  obtains i s where "block_class n = Inr (i, s)" "i < 13" "s < 32" "class_of n = i * 32 + s" "class_size (class_of n) \<le> n"
proof (cases "STBM_SIZECLASS_MAX \<le> n")
  case True
  then show ?thesis
    using that [of 12 31] class_size_415
    by (simp add: block_class_def class_of_def STBM_NUM_INDICES_def STBM_NUM_SLOTS_def)
next
  case False
  then have "n < 2 ^ 20" by (simp add: STBM_SIZECLASS_MAX_def)
  then obtain i s where "index_slot_for_free_block n = Inr (i, s)" "i < 13" "s < 32" "class_size (i * 32 + s) \<le> n"
    by (rule index_slot_for_free_block_class)
  then show ?thesis using that [of i s] False by (simp add: block_class_def class_of_def)
qed

lemma class_of_less: "class_of n < 416"
  by (rule block_class_ok [of n]) auto

text \<open>A block that is in no list enters the list of its class.\<close>

lemma medium_link_ok:
  assumes ok: "lists_ok h F" and a: "F a = None" "a \<noteq> 0" "apart (insert a (dom F))"
    and n: "n mod 16 = 0" "32 \<le> n" "n \<le> 2 ^ 21 - 8"
    and free: "\<And>y. y \<in> dom F \<Longrightarrow> y \<noteq> a + 8 \<and> y + 16 \<noteq> a + 8 \<and> y \<noteq> a + n - 8 \<and> y + 16 \<noteq> a + n - 8"
  obtains h' where "medium_link a n h = Inr h'" "lists_ok h' (F(a \<mapsto> class_of n))" "list_frame h h'"
    "wd h' (a + 8) = wd h (a + 8) mod 32 + 4 * n + 2 ^ 23 * class_of n" "wd h' (a + n - 8) = n"
    "\<forall>x. (\<forall>y \<in> dom F. x \<noteq> y \<and> x \<noteq> y + 16) \<longrightarrow> x \<notin> {a, a + 8, a + 16, a + n - 8} \<longrightarrow> wd h' x = wd h x"
proof -
  obtain i s where c: "block_class n = Inr (i, s)" "i < 13" "s < 32" "class_of n = i * 32 + s"
    by (rule block_class_ok)
  obtain xs where xs: "dll (wd h) 0 (free_lists h i s) xs" "distinct xs" "set xs = {a. F a = Some (i * 32 + s)}"
    "apart (set xs)" using list_of [OF ok c(2,3)] by blast
  have sub: "set xs \<subseteq> dom F" using xs(3) by auto
  have z: "0 \<notin> dom F" using ok by (simp add: lists_ok_def)
  let ?L = "free_lists h i s"
  have L: "?L = 0 \<or> ?L \<in> set xs" using dll_hd [OF xs(1)] by (cases xs) auto
  have apF: "x \<noteq> y + 16" if "x \<in> insert a (dom F)" "y \<in> insert a (dom F)" for x y
    using apartD [OF a(3) that] .
  have n21: "n < 2 ^ 21 - 7" "n < 2 ^ 21" using n(3) by simp_all
  define pre where "pre = wd h (a + 8) mod 32 + 4 * n + 2 ^ 23 * class_of n"
  have pre: "MED_FREE_SETSIZE (wd h (a + 8)) n (i * 32 + s) = pre"
    using MED_FREE_SETSIZE_eq [OF n(1) n21(2)] by (simp add: pre_def c(4))
  have pb: "MED_FREE_BYTES pre = n" "MED_FREE_SIZECLASS pre = i * 32 + s"
    unfolding pre_def c(4) by (rule MED_FREE_BYTES_eq MED_FREE_SIZECLASS_eq; use n n21 in simp)+
  define w' where "w' x = (if x = a + n - 8 then n else if x = a then 0 else if x = a + 16 then ?L
      else if x = ?L \<and> x \<noteq> 0 then a else if x = a + 8 then pre else wd h x)" for x
  define L' where "L' = (free_lists h)(i := (free_lists h i)(s := a))"
  define bm' where "bm' = (if ?L \<noteq> 0 then bitmap h else (bitmap h)(i := bitmap h i OR map_bit s))"
  define tm' where "tm' = (if ?L \<noteq> 0 then toplevel_bitmap h else toplevel_bitmap h OR map_bit i)"
  let ?h = "h\<lparr>wd := w', free_lists := L', bitmap := bm', toplevel_bitmap := tm'\<rparr>"
  have La: "?L \<noteq> a" "?L \<noteq> 0 \<Longrightarrow> ?L \<noteq> a + 16 \<and> ?L \<noteq> a + 8 \<and> ?L \<noteq> a + n - 8"
    using L sub a(1,2) apF [of ?L a] free [of ?L] by auto
  have w'_upd: "(let w = (wd h)(a + 8 := pre, a + 16 := ?L, a := 0); w = (if ?L \<noteq> 0 then w(?L := a) else w)
      in w(a + n - 8 := n)) = w'"
    by (rule ext) (use La n(2) in \<open>auto simp: w'_def Let_def\<close>)
  have eq: "medium_link a n h = Inr ?h"
  proof (cases "?L = 0")
    case True
    then show ?thesis
      using n(3) pre pb w'_upd
      by (simp add: medium_link_def c(1) st_word_def STBM_NUM_SLOTS_def push_bit_eq_mult Let_def L'_def bm'_def tm'_def)
  next
    case False
    then show ?thesis
      using n(3) pre pb w'_upd
      by (simp add: medium_link_def c(1) st_word_def STBM_NUM_SLOTS_def push_bit_eq_mult Let_def L'_def bm'_def tm'_def)
  qed
  have fr: "w' x = wd h x" if "\<And>y. y \<in> dom F \<Longrightarrow> x \<noteq> y \<and> x \<noteq> y + 16" "x \<notin> {a, a + 8, a + 16, a + n - 8}" for x
  proof -
    have "x \<noteq> ?L \<or> ?L = 0" using that(1) [of ?L] L sub by auto
    then show ?thesis using that(2) by (auto simp: w'_def)
  qed
  have links: "w' y = (if y = ?L then a else wd h y) \<and> w' (y + 16) = wd h (y + 16)" if "y \<in> dom F" for y
  proof -
    have "y \<noteq> a" "y \<noteq> 0" "y \<noteq> a + 16" "y + 16 \<noteq> a" "?L \<noteq> y + 16 \<or> ?L = 0"
      using that a(1) z apF [of y a] apF [of a y] apF [of ?L y] L sub by auto
    then show ?thesis using free [OF that] by (auto simp: w'_def)
  qed
  have "lists_ok ?h (F(a \<mapsto> class_of n))"
    unfolding lists_ok_def
  proof (intro conjI allI impI)
    show "apart (dom (F(a \<mapsto> class_of n)))" using a(3) by simp
    show "0 \<notin> dom (F(a \<mapsto> class_of n))" using z a(2) by auto
    fix j t
    show "(F(a \<mapsto> class_of n)) j = Some t \<Longrightarrow> t < 416"
      using ok class_of_less by (auto simp: lists_ok_def split: if_splits)
    assume j: "j < (13 :: nat)"
    have i32: "i < 32" "j < 32" using c(2) j by auto
    have mz: "map_bit s \<noteq> 0" "v OR map_bit s \<noteq> 0" for v
      using bit_or_map [OF c(3,3), of v] bit_or_map [OF c(3,3), of 0] by auto
    show "bit (toplevel_bitmap ?h) (31 - j) \<longleftrightarrow> bitmap ?h j \<noteq> 0"
      using ok j bit_or_map [OF i32] mz(2) by (auto simp: lists_ok_def tm'_def bm'_def)
    assume t: "t < (32 :: nat)"
    show "bit (bitmap ?h j) (31 - t) \<longleftrightarrow> free_lists ?h j t \<noteq> 0"
      using ok j t a(2) bit_or_map [OF c(3) t] by (auto simp: lists_ok_def bm'_def L'_def)
    show "\<exists>ys. dll (wd ?h) 0 (free_lists ?h j t) ys \<and> distinct ys \<and> set ys = {x. (F(a \<mapsto> class_of n)) x = Some (j * 32 + t)}"
    proof (cases "(j, t) = (i, s)")
      case True
      define w1 where "w1 x = (if x = a then 0 else if x = a + 16 then ?L else if x = ?L \<and> ?L \<noteq> 0 then a else wd h x)" for x
      have "dll w1 0 a (a # xs)"
        by (rule dll_push [OF xs(1,2)]) (use a(1,2) sub in \<open>auto simp: w1_def intro: apart_mono [OF a(3)]\<close>)
      moreover have "w' y = w1 y \<and> w' (y + 16) = w1 (y + 16)" if "y \<in> set (a # xs)" for y
      proof (cases "y = a")
        case True
        moreover have "a + n - 8 \<noteq> a" "a + n - 8 \<noteq> a + 16" using n(2) by arith+
        ultimately show ?thesis using La a(2) by (auto simp: w1_def w'_def)
      next
        case False
        then have y: "y \<in> dom F" "y \<noteq> 0" using that sub z by auto
        have "y \<noteq> a + 16" "y + 16 \<noteq> a" "?L \<noteq> y + 16 \<or> ?L = 0"
          using y apF [of y a] apF [of a y] apF [of ?L y] L sub by auto
        then have "w1 y = (if y = ?L then a else wd h y)" "w1 (y + 16) = wd h (y + 16)"
          using False y(2) by (simp_all add: w1_def)
        then show ?thesis using links [OF y(1)] by simp
      qed
      ultimately have "dll w' 0 a (a # xs)" using dll_cong [of "a # xs" w' w1] by blast
      then show ?thesis
        using True xs(2,3) a(1) c(4) by (intro exI [of _ "a # xs"]) (auto simp: L'_def)
    next
      case False
      obtain ys where ys: "dll (wd h) 0 (free_lists h j t) ys" "distinct ys" "set ys = {x. F x = Some (j * 32 + t)}"
        using list_of [OF ok j t] by blast
      have "?L \<notin> set ys" using L xs(3) ys(3) z pair_index [OF c(3) t, of i j] False by auto
      then have "dll w' 0 (free_lists h j t) ys"
        using dll_cong [of ys w' "wd h"] links ys(1,3) by (metis (mono_tags, lifting) domI mem_Collect_eq)
      moreover have "free_lists ?h j t = free_lists h j t" using False by (auto simp: L'_def)
      moreover have "(F(a \<mapsto> class_of n)) x = Some (j * 32 + t) \<longleftrightarrow> F x = Some (j * 32 + t)" for x
        using a(1) pair_index [OF c(3) t, of i j] False c(4) by auto
      ultimately show ?thesis using ys by auto
    qed
  next
    fix j assume "j < (32 :: nat)" "13 \<le> j"
    moreover have "i < 32" using c(2) by simp
    ultimately show "\<not> bit (toplevel_bitmap ?h) (31 - j)"
      using ok c(2) bit_or_map [of i j] by (auto simp: lists_ok_def tm'_def)
  qed
  moreover have "w' (a + 8) = pre" "w' (a + n - 8) = n" using n(2) La by (auto simp: w'_def)
  ultimately show ?thesis using fr by (intro that [OF eq]) (auto simp: list_frame_def pre_def)
qed

end
