(* ===== verification/TlsfShape.thy ===== *)
theory TlsfShape
  imports TlsfLists
begin

text \<open>
  The blocks and chunks of the medium allocator, without their headers: blocks tile the chunks. Cutting a
  block, merging two neighbours, a new chunk and the release of a chunk keep this.
\<close>

section \<open>Blocks and chunks\<close>

text \<open>
  The state in terms of which the allocator is specified: the blocks, with their size and whether they are
  free, and the chunks, by the address of their first block, with their system allocation and the size
  of all their blocks.
\<close>

type_synonym blocks = "nat \<rightharpoonup> nat \<times> bool"
type_synonym chunks = "nat \<rightharpoonup> nat \<times> nat"

definition tail_at :: "chunks \<Rightarrow> nat \<Rightarrow> bool" where
  "tail_at C x \<longleftrightarrow> (\<exists>k s t. C k = Some (s, t) \<and> x = k + t)"

text \<open>The block before \<open>x\<close> is allocated.\<close>

definition pv :: "blocks \<Rightarrow> nat \<Rightarrow> bool" where
  "pv B x \<longleftrightarrow> (\<exists>a n. B a = Some (n, False) \<and> a + n = x)"

definition in_chunk :: "chunks \<Rightarrow> nat \<Rightarrow> nat \<Rightarrow> bool" where
  "in_chunk C a n \<longleftrightarrow> (\<exists>k s t. C k = Some (s, t) \<and> k \<le> a \<and> a + n \<le> k + t)"

definition chunks_ok :: "chunks \<Rightarrow> bool" where
  "chunks_ok C \<longleftrightarrow>
     (\<forall>k s t. C k = Some (s, t) \<longrightarrow> k mod 16 = 0 \<and> s mod 16 = 0 \<and> t mod 16 = 0 \<and> 0 < s \<and> s + 64 \<le> k \<and>
        t \<le> 2 ^ 21 - 96 \<and> k + t + 16 \<le> 2 ^ 62) \<and>
     (\<forall>k s t k' s' t'. C k = Some (s, t) \<longrightarrow> C k' = Some (s', t') \<longrightarrow> k < k' \<longrightarrow> k + t + 16 \<le> s')"

definition shape :: "blocks \<Rightarrow> chunks \<Rightarrow> bool" where
  "shape B C \<longleftrightarrow> chunks_ok C \<and> finite (dom B) \<and>
     (\<forall>a n f. B a = Some (n, f) \<longrightarrow> a mod 16 = 0 \<and> n mod 16 = 0 \<and> 32 \<le> n \<and> in_chunk C a n) \<and>
     (\<forall>a n f a' n' f'. B a = Some (n, f) \<longrightarrow> B a' = Some (n', f') \<longrightarrow> a < a' \<longrightarrow> a + n \<le> a') \<and>
     (\<forall>a n f. B a = Some (n, f) \<longrightarrow> B (a + n) \<noteq> None \<or> tail_at C (a + n)) \<and>
     (\<forall>x. B x \<noteq> None \<longrightarrow> C x \<noteq> None \<or> (\<exists>a n f. B a = Some (n, f) \<and> a + n = x)) \<and>
     (\<forall>k. C k \<noteq> None \<longrightarrow> B k \<noteq> None)"

lemma shapeD:
  assumes "shape B C" "B a = Some (n, f)"
  shows "a mod 16 = 0" "n mod 16 = 0" "32 \<le> n" "in_chunk C a n" "B (a + n) \<noteq> None \<or> tail_at C (a + n)"
    "C a \<noteq> None \<or> (\<exists>b m g. B b = Some (m, g) \<and> b + m = a)"
  using assms unfolding shape_def by blast+

lemma chunkD:
  assumes "chunks_ok C" "C k = Some (s, t)"
  shows "k mod 16 = 0" "s mod 16 = 0" "t mod 16 = 0" "0 < s" "s + 64 \<le> k" "t \<le> 2 ^ 21 - 96" "k + t + 16 \<le> 2 ^ 62"
    "C k' = Some (s', t') \<Longrightarrow> k < k' \<Longrightarrow> k + t + 16 \<le> s'"
  using assms unfolding chunks_ok_def by blast+

lemma shape_chunks: "shape B C \<Longrightarrow> chunks_ok C"
  by (simp add: shape_def)

lemma chunk_block: "shape B C \<Longrightarrow> B k = None \<Longrightarrow> C k = None"
  unfolding shape_def by blast

lemma blocks_apart:
  "shape B C \<Longrightarrow> B a = Some (n, f) \<Longrightarrow> B b = Some (m, g) \<Longrightarrow> a < b \<Longrightarrow> a + n \<le> b"
  unfolding shape_def by blast

lemma block_before_unique:
  assumes "shape B C" "B a = Some (n, f)" "B b = Some (m, g)" "a + n = b + m"
  shows "a = b"
  using blocks_apart [OF assms(1-3)] blocks_apart [OF assms(1,3,2)] shapeD(3) [OF assms(1,2)]
    shapeD(3) [OF assms(1,3)] assms(4) by (cases a b rule: linorder_cases) auto

text \<open>Where a block lies relative to a chunk.\<close>

lemma block_zone:
  assumes "shape B C" "B a = Some (n, f)" "C k = Some (s, t)"
  shows "a + n \<le> s \<or> k + t + 16 \<le> a \<or> (k \<le> a \<and> a + n \<le> k + t)"
proof -
  obtain k' s' t' where k': "C k' = Some (s', t')" "k' \<le> a" "a + n \<le> k' + t'"
    using shapeD(4) [OF assms(1,2)] by (auto simp: in_chunk_def)
  note ch = shape_chunks [OF assms(1)]
  show ?thesis
    using k' assms(3) chunkD(8) [OF ch assms(3) k'(1)] chunkD(8) [OF ch k'(1) assms(3)] chunkD(5) [OF ch k'(1)]
    by (cases k k' rule: linorder_cases) auto
qed

text \<open>A block that is followed by one lies in the same chunk, in which the other is not the first.\<close>

lemma next_block:
  assumes "shape B C" "B a = Some (n, f)" "B (a + n) = Some (m, g)"
  shows "in_chunk C a (n + m)" "C (a + n) = None" "a + n \<noteq> a"
proof -
  note ch = shape_chunks [OF assms(1)]
  have n: "32 \<le> n" "32 \<le> m" using shapeD(3) [OF assms(1)] assms(2,3) by auto
  obtain k s t where k: "C k = Some (s, t)" "k \<le> a" "a + n \<le> k + t"
    using shapeD(4) [OF assms(1,2)] by (auto simp: in_chunk_def)
  have "a + n + m \<le> k + t"
    using block_zone [OF assms(1,3) k(1)] k(2,3) n chunkD(5) [OF ch k(1)] by auto
  then show "in_chunk C a (n + m)"
    unfolding in_chunk_def using k by (intro exI [of _ k] exI [of _ s] exI [of _ t]) simp
  show "C (a + n) = None"
  proof (cases "C (a + n)")
    case (Some st)
    obtain s' t' where k': "C (a + n) = Some (s', t')" using Some by (cases st) auto
    show ?thesis
      using block_zone [OF assms(1,2) k'] n chunkD(5) [OF ch k'] k(2,3) chunkD(8) [OF ch k(1) k'] by auto
  qed
  show "a + n \<noteq> a" using n by simp
qed

lemma block_bound:
  assumes "shape B C" "B a = Some (n, f)"
  shows "n \<le> 2 ^ 21 - 96" "a + n + 16 \<le> 2 ^ 62" "64 < a"
proof -
  obtain k s t where "C k = Some (s, t)" "k \<le> a" "a + n \<le> k + t"
    using shapeD(4) [OF assms] by (auto simp: in_chunk_def)
  with chunkD [OF shape_chunks [OF assms(1)] this(1)]
  show "n \<le> 2 ^ 21 - 96" "a + n + 16 \<le> 2 ^ 62" "64 < a" by auto
qed

section \<open>Changes of the blocks\<close>

lemma in_chunk_mono: "in_chunk C a n \<Longrightarrow> a \<le> b \<Longrightarrow> b + m \<le> a + n \<Longrightarrow> in_chunk C b m"
  by (fastforce simp: in_chunk_def)

lemma shape_flag:
  assumes "shape B C" "B a = Some (n, f)"
  shows "shape (B(a \<mapsto> (n, g))) C"
proof -
  have e: "(\<exists>f. (B(a \<mapsto> (n, g))) x = Some (m, f)) \<longleftrightarrow> (\<exists>f. B x = Some (m, f))" for x m
    using assms(2) by auto
  have d: "(B(a \<mapsto> (n, g))) x \<noteq> None \<longleftrightarrow> B x \<noteq> None" for x using assms(2) by auto
  show ?thesis
    unfolding shape_def
  proof (intro conjI allI impI)
    show "chunks_ok C" "finite (dom (B(a \<mapsto> (n, g))))" using assms(1) by (auto simp: shape_def)
    fix x m h
    assume "(B(a \<mapsto> (n, g))) x = Some (m, h)"
    then obtain h' where h': "B x = Some (m, h')" using e by blast
    show "x mod 16 = 0" "m mod 16 = 0" "32 \<le> m" "in_chunk C x m"
      "(B(a \<mapsto> (n, g))) (x + m) \<noteq> None \<or> tail_at C (x + m)"
      using shapeD [OF assms(1) h'] d by auto
    fix y k i
    assume "(B(a \<mapsto> (n, g))) y = Some (k, i)" "x < y"
    then show "x + m \<le> y" using e blocks_apart [OF assms(1) h'] by blast
  next
    fix x assume "(B(a \<mapsto> (n, g))) x \<noteq> None"
    then obtain m h where "B x = Some (m, h)" using d [of x] by auto
    from shapeD(6) [OF assms(1) this] show "C x \<noteq> None \<or> (\<exists>b m h. (B(a \<mapsto> (n, g))) b = Some (m, h) \<and> b + m = x)"
      using e by metis
  next
    fix k assume "C k \<noteq> None"
    then show "(B(a \<mapsto> (n, g))) k \<noteq> None" using assms(1) d unfolding shape_def by blast
  qed
qed

text \<open>A block is cut into two.\<close>

lemma shape_split:
  assumes "shape B C" "B a = Some (n, f)" "e mod 16 = 0" "32 \<le> e" "e + 32 \<le> n"
  shows "shape (B(a \<mapsto> (e, g), a + e \<mapsto> (n - e, h))) C" (is "shape ?B C")
proof -
  have na: "B (a + e) = None"
  proof (cases "B (a + e)")
    case (Some mg)
    then show ?thesis using blocks_apart [OF assms(1,2), of "a + e"] assms(4,5) by (cases mg) auto
  qed
  have c: "a mod 16 = 0" "n mod 16 = 0" "in_chunk C a n" using shapeD [OF assms(1,2)] by auto
  have ae: "(a + e) mod 16 = 0" "(n - e) mod 16 = 0"
    using c(1,2) assms(3,5) by (auto simp: mod_eq_0_iff_dvd dvd_diff_nat)
  have eB: "?B x = (if x = a + e then Some (n - e, h) else if x = a then Some (e, g) else B x)" for x by simp
  show ?thesis
    unfolding shape_def
  proof (intro conjI allI impI)
    show "chunks_ok C" "finite (dom ?B)" using assms(1) by (auto simp: shape_def)
    fix x m i
    assume x: "?B x = Some (m, i)"
    then consider "x = a + e" "m = n - e" | "x = a" "m = e" | "x \<noteq> a" "x \<noteq> a + e" "B x = Some (m, i)"
      unfolding eB by (auto split: if_splits)
    then have "x mod 16 = 0 \<and> m mod 16 = 0 \<and> 32 \<le> m \<and> in_chunk C x m \<and> (?B (x + m) \<noteq> None \<or> tail_at C (x + m))"
    proof cases
      case 1
      then show ?thesis
        using ae assms(3-5) in_chunk_mono [OF c(3), of "a + e" "n - e"] shapeD(5) [OF assms(1,2)] by (auto simp: eB)
    next
      case 2
      then show ?thesis using c assms(3-5) in_chunk_mono [OF c(3), of a e] by (auto simp: eB)
    next
      case 3
      then show ?thesis using shapeD [OF assms(1) 3(3)] by (auto simp: eB)
    qed
    then show "x mod 16 = 0" "m mod 16 = 0" "32 \<le> m" "in_chunk C x m" "?B (x + m) \<noteq> None \<or> tail_at C (x + m)"
      by blast+
    fix y k j
    assume y: "?B y = Some (k, j)" "x < y"
    have sub: "\<exists>x' m' i'. B x' = Some (m', i') \<and> x' \<le> x \<and> x + m \<le> x' + m' \<and> 
      (x' = a \<longrightarrow> x = a \<and> m = e \<or> x = a + e \<and> m = n - e) \<and> (x' \<noteq> a \<longrightarrow> x' = x \<and> m' = m)"
      if "?B x = Some (m, i)" for x m i
    proof (cases "x = a \<or> x = a + e")
      case True
      then show ?thesis
        using that assms(2,4,5) by (intro exI [of _ a] exI [of _ n] exI [of _ f]) (auto simp: eB split: if_splits)
    next
      case False
      then show ?thesis
        using that by (intro exI [of _ x] exI [of _ m] exI [of _ i]) (auto simp: eB)
    qed
    show "x + m \<le> y"
    proof -
      obtain x' m' i' where x': "B x' = Some (m', i')" "x' \<le> x" "x + m \<le> x' + m'"
        "x' = a \<longrightarrow> x = a \<and> m = e \<or> x = a + e \<and> m = n - e" "x' \<noteq> a \<longrightarrow> x' = x \<and> m' = m"
        using sub [OF x] by blast
      obtain y' k' j' where y': "B y' = Some (k', j')" "y' \<le> y" "y + k \<le> y' + k'"
        "y' = a \<longrightarrow> y = a \<and> k = e \<or> y = a + e \<and> k = n - e" "y' \<noteq> a \<longrightarrow> y' = y \<and> k' = k"
        using sub [OF y(1)] by blast
      show ?thesis
      proof (cases x' y' rule: linorder_cases)
        case less
        then show ?thesis using blocks_apart [OF assms(1) x'(1) y'(1)] x'(3) y'(2) by simp
      next
        case equal
        show ?thesis
        proof (cases "x' = a")
          case True
          then show ?thesis using x'(4) y'(4) equal y(2) assms(4,5) by auto
        next
          case False
          then show ?thesis using x'(5) y'(5) equal y(2) by simp
        qed
      next
        case greater
        then show ?thesis using blocks_apart [OF assms(1) y'(1) x'(1)] x'(2) y'(3) y(2) by linarith
      qed
    qed
  next
    fix x assume "?B x \<noteq> None"
    then consider "x = a + e" | "x = a" | m i where "B x = Some (m, i)" "x \<noteq> a" "x \<noteq> a + e"
      unfolding eB by (auto split: if_splits)
    then show "C x \<noteq> None \<or> (\<exists>b m i. ?B b = Some (m, i) \<and> b + m = x)"
    proof cases
      case 1
      then show ?thesis using assms(4) by (intro disjI2 exI [of _ a] exI [of _ e]) (auto simp: eB)
    next
      case 2
      have "C a \<noteq> None \<or> (\<exists>b m i. B b = Some (m, i) \<and> b + m = a)" using shapeD(6) [OF assms(1,2)] .
      moreover have "b \<noteq> a \<and> b \<noteq> a + e" if "B b = Some (m, i)" "b + m = a" for b m i
        using that shapeD(3) [OF assms(1)] na by fastforce
      ultimately show ?thesis using 2 unfolding eB by metis
    next
      case 3
      have "C x \<noteq> None \<or> (\<exists>b m i. B b = Some (m, i) \<and> b + m = x)" using shapeD(6) [OF assms(1) 3(1)] .
      moreover have "\<exists>b m i. ?B b = Some (m, i) \<and> b + m = x" if "B b = Some (m, i)" "b + m = x" for b m i
      proof (cases "b = a")
        case True
        then have "m = n" using that(1) assms(2) by simp
        then show ?thesis using that(2) True assms(5) by (intro exI [of _ "a + e"] exI [of _ "n - e"]) (auto simp: eB)
      next
        case False
        then show ?thesis using that na by (intro exI [of _ b] exI [of _ m]) (auto simp: eB)
      qed
      ultimately show ?thesis by blast
    qed
  next
    fix k assume "C k \<noteq> None"
    then show "?B k \<noteq> None" using assms(1) by (auto simp: shape_def eB)
  qed
qed

text \<open>Two neighbours become one block.\<close>

lemma shape_merge:
  assumes "shape B C" "B a = Some (n, f)" "B (a + n) = Some (m, g)"
  shows "shape (B(a + n := None, a \<mapsto> (n + m, h))) C" (is "shape ?B C")
proof -
  have c: "a mod 16 = 0" "n mod 16 = 0" "32 \<le> n" using shapeD [OF assms(1,2)] by auto
  have c': "m mod 16 = 0" "32 \<le> m" using shapeD [OF assms(1,3)] by auto
  note nb = next_block [OF assms]
  have eB: "?B x = (if x = a then Some (n + m, h) else if x = a + n then None else B x)" for x by simp
  have ext: "\<exists>i'. B x = Some (m', i') \<or> x = a \<and> m' = n + m" if "?B x = Some (m', i)" for x m' i
    using that by (auto simp: eB split: if_splits)
  show ?thesis
    unfolding shape_def
  proof (intro conjI allI impI)
    show "chunks_ok C" "finite (dom ?B)" using assms(1) by (auto simp: shape_def)
    fix x k i
    assume x: "?B x = Some (k, i)"
    then consider "x = a" "k = n + m" | "x \<noteq> a" "x \<noteq> a + n" "B x = Some (k, i)"
      unfolding eB by (auto split: if_splits)
    then have "x mod 16 = 0 \<and> k mod 16 = 0 \<and> 32 \<le> k \<and> in_chunk C x k \<and> (?B (x + k) \<noteq> None \<or> tail_at C (x + k))"
    proof cases
      case 1
      then show ?thesis
        using c c' nb(1) shapeD(5) [OF assms(1,3)] by (auto simp: eB add.assoc mod_eq_0_iff_dvd)
    next
      case 2
      have "x + k \<noteq> a + n" using block_before_unique [OF assms(1) 2(3) assms(2)] 2(1) by auto
      then show ?thesis using shapeD [OF assms(1) 2(3)] by (auto simp: eB)
    qed
    then show "x mod 16 = 0" "k mod 16 = 0" "32 \<le> k" "in_chunk C x k" "?B (x + k) \<noteq> None \<or> tail_at C (x + k)"
      by blast+
    fix y l j
    assume y: "?B y = Some (l, j)" "x < y"
    then have yB: "y = a \<or> y \<noteq> a + n \<and> B y = Some (l, j)" by (auto simp: eB split: if_splits)
    show "x + k \<le> y"
    proof (cases "x = a")
      case True
      then have yb: "y \<noteq> a + n" "B y = Some (l, j)" "k = n + m" using y yB x by (auto simp: eB)
      moreover have "a + n \<le> y" using blocks_apart [OF assms(1,2) yb(2)] y(2) True by simp
      ultimately show ?thesis using blocks_apart [OF assms(1,3) yb(2)] True by auto
    next
      case False
      then have xb: "B x = Some (k, i)" using x by (auto simp: eB split: if_splits)
      then show ?thesis using yB blocks_apart [OF assms(1) xb] assms(2) y(2) by blast
    qed
  next
    fix x assume "?B x \<noteq> None"
    then have "\<exists>k i. B x = Some (k, i)" "x \<noteq> a + n" using assms(2) nb(3) by (auto simp: eB split: if_splits)
    then obtain k i where x: "B x = Some (k, i)" "x \<noteq> a + n" by blast
    have "C x \<noteq> None \<or> (\<exists>b k i. B b = Some (k, i) \<and> b + k = x)" using shapeD(6) [OF assms(1) x(1)] .
    moreover have "\<exists>b k i. ?B b = Some (k, i) \<and> b + k = x" if b: "B b = Some (k, i)" "b + k = x" for b k i
    proof -
      consider "b = a + n" | "b \<noteq> a" "b \<noteq> a + n" using b assms(2) x(2) by fastforce
      then show ?thesis
      proof cases
        case 1
        then show ?thesis using b assms(3) by (intro exI [of _ a] exI [of _ "n + m"]) (auto simp: eB)
      next
        case 2
        then show ?thesis using b by (intro exI [of _ b] exI [of _ k]) (auto simp: eB)
      qed
    qed
    ultimately show "C x \<noteq> None \<or> (\<exists>b k i. ?B b = Some (k, i) \<and> b + k = x)" by blast
  next
    fix k assume "C k \<noteq> None"
    then show "?B k \<noteq> None" using assms(1) nb(2) by (auto simp: shape_def eB)
  qed
qed

text \<open>A chunk comes, with one block, and goes.\<close>

lemma shape_new_chunk:
  assumes "shape B C" and ch: "chunks_ok (C(k \<mapsto> (s, t)))" "C k = None" and t: "32 \<le> t"
  shows "shape (B(k \<mapsto> (t, f))) (C(k \<mapsto> (s, t)))" (is "shape ?B ?C")
proof -
  have zone: "a + n \<le> s \<or> k + t + 16 \<le> a" if a: "B a = Some (n, g)" for a n g
  proof -
    obtain k' s' t' where k': "C k' = Some (s', t')" "k' \<le> a" "a + n \<le> k' + t'"
      using shapeD(4) [OF assms(1) a] by (auto simp: in_chunk_def)
    have "k' \<noteq> k" using k'(1) ch(2) by auto
    then have kk: "?C k' = Some (s', t')" "?C k = Some (s, t)" using k'(1) by auto
    show ?thesis
      using k' chunkD(8) [OF ch(1) kk] chunkD(8) [OF ch(1) kk(2,1)] chunkD(5) [OF ch(1) kk(1)] \<open>k' \<noteq> k\<close>
      by (cases k k' rule: linorder_cases) auto
  qed
  have sk: "s + 64 \<le> k" "k mod 16 = 0" "t mod 16 = 0" using chunkD(1,3,5) [OF ch(1), of k s t] by auto
  have nk: "B x = None" if "s \<le> x" "x \<le> k + t" for x
    using zone [of x] that shapeD(3) [OF assms(1), of x] by (cases "B x") fastforce+
  have inC: "in_chunk C a n \<Longrightarrow> in_chunk ?C a n" for a n using ch(2) by (fastforce simp: in_chunk_def)
  have tlC: "tail_at ?C a" if "tail_at C a" for a
  proof -
    from that obtain j u v where j: "C j = Some (u, v)" "a = j + v" by (auto simp: tail_at_def)
    then have "?C j = Some (u, v)" using ch(2) by auto
    with j(2) show ?thesis by (auto simp only: tail_at_def)
  qed
  show ?thesis
    unfolding shape_def
  proof (intro conjI allI impI)
    show "chunks_ok ?C" "finite (dom ?B)" using assms(1) ch(1) by (auto simp: shape_def)
    fix x n g
    assume x: "?B x = Some (n, g)"
    have "in_chunk ?C k t" "tail_at ?C (k + t)"
      unfolding in_chunk_def tail_at_def by (rule exI [of _ k], rule exI [of _ s], rule exI [of _ t], simp)+
    then have "x mod 16 = 0 \<and> n mod 16 = 0 \<and> 32 \<le> n \<and> in_chunk ?C x n \<and> (?B (x + n) \<noteq> None \<or> tail_at ?C (x + n))"
      using x shapeD [OF assms(1), of x n g] sk t inC tlC by (cases "x = k") auto
    then show "x mod 16 = 0" "n mod 16 = 0" "32 \<le> n" "in_chunk ?C x n" "?B (x + n) \<noteq> None \<or> tail_at ?C (x + n)"
      by blast+
    fix y m i
    assume y: "?B y = Some (m, i)" "x < y"
    show "x + n \<le> y"
      using x y blocks_apart [OF assms(1), of x n g y m i] zone [of x n g] zone [of y m i] sk(1) shapeD(3) [OF assms(1), of y m i]
      by (auto split: if_splits)
  next
    fix x assume "?B x \<noteq> None"
    then show "?C x \<noteq> None \<or> (\<exists>b m i. ?B b = Some (m, i) \<and> b + m = x)"
      using shapeD(6) [OF assms(1), of x] nk [of k] sk(1) by (cases "x = k") (auto, metis option.distinct(1))
  next
    fix j assume "?C j \<noteq> None"
    then show "?B j \<noteq> None" using assms(1) by (auto simp: shape_def split: if_splits)
  qed
qed

lemma shape_drop_chunk:
  assumes "shape B C" "C k = Some (s, t)" "B k = Some (t, f)"
  shows "shape (B(k := None)) (C(k := None))" (is "shape ?B ?C")
proof -
  have ot: "in_chunk ?C x n \<and> (?B (x + n) \<noteq> None \<or> tail_at ?C (x + n))" if x: "?B x = Some (n, g)" for x n g
  proof -
    have x': "x \<noteq> k" "B x = Some (n, g)" using x by (auto split: if_splits)
    obtain k' s' t' where k': "C k' = Some (s', t')" "k' \<le> x" "x + n \<le> k' + t'"
      using shapeD(4) [OF assms(1) x'(2)] by (auto simp: in_chunk_def)
    have ne: "k' \<noteq> k"
      using k' x'(1) assms(2,3) blocks_apart [OF assms(1,3) x'(2)] shapeD(3) [OF assms(1) x'(2)] by auto
    then have "in_chunk ?C x n" using k' by (auto simp: in_chunk_def)
    moreover have "x + n \<noteq> k \<and> x + n \<noteq> k + t"
      using k' chunkD(8) [OF shape_chunks [OF assms(1)] k'(1) assms(2)]
        chunkD(8) [OF shape_chunks [OF assms(1)] assms(2) k'(1)] chunkD(5) [OF shape_chunks [OF assms(1)] assms(2)]
        chunkD(5) [OF shape_chunks [OF assms(1)] k'(1)] ne
      by (cases k k' rule: linorder_cases) auto
    moreover have "tail_at ?C (x + n)" if "tail_at C (x + n)" "x + n \<noteq> k + t"
    proof -
      from that(1) obtain j u v where j: "C j = Some (u, v)" "x + n = j + v" by (auto simp: tail_at_def)
      then have "?C j = Some (u, v)" using that(2) assms(2) by auto
      with j(2) show ?thesis by (auto simp only: tail_at_def)
    qed
    ultimately show ?thesis using shapeD(5) [OF assms(1) x'(2)] by auto
  qed
  show ?thesis
    unfolding shape_def
  proof (intro conjI allI impI)
    show "chunks_ok ?C" using shape_chunks [OF assms(1)] by (auto simp: chunks_ok_def)
    show "finite (dom ?B)" using assms(1) by (auto simp: shape_def)
    fix x n g
    assume x: "?B x = Some (n, g)"
    then have xB: "B x = Some (n, g)" by (auto split: if_splits)
    show "x mod 16 = 0" "n mod 16 = 0" "32 \<le> n" using shapeD [OF assms(1) xB] by auto
    show "in_chunk ?C x n" "?B (x + n) \<noteq> None \<or> tail_at ?C (x + n)" using ot [OF x] by auto
    fix y m i
    assume "?B y = Some (m, i)" "x < y"
    then show "x + n \<le> y" using blocks_apart [OF assms(1) xB] by (auto split: if_splits)
  next
    fix x assume "?B x \<noteq> None"
    then have x: "x \<noteq> k" "B x \<noteq> None" by (auto split: if_splits)
    then obtain n g where xB: "B x = Some (n, g)" by auto
    have "k + t \<noteq> x" using ot [of x n g] block_zone [OF assms(1) xB assms(2)] xB x(1) shapeD(3) [OF assms(1) xB] chunkD(5) [OF shape_chunks [OF assms(1)] assms(2)]
      by auto
    then show "?C x \<noteq> None \<or> (\<exists>b m i. ?B b = Some (m, i) \<and> b + m = x)"
      using shapeD(6) [OF assms(1) xB] x(1) assms(3) by (auto, metis option.inject prod.inject)
  next
    fix j assume "?C j \<noteq> None"
    then show "?B j \<noteq> None" using assms(1) by (auto simp: shape_def split: if_splits)
  qed
qed

end
