(* ===== verification/TlsfInv.thy ===== *)
theory TlsfInv
  imports TlsfShape
begin

text \<open>
  The invariant of the heap: the blocks tile the chunks, neighbours are never both free, every header
  says what its block is, and the free blocks are in the lists of their classes. A block is
  taken out of its list and put into it, and found by the bitmaps.
\<close>

unbundle bit_operations_syntax

section \<open>The invariant of the heap\<close>

text \<open>The blocks that are in the free lists, with their class; the blocks in \<open>X\<close> are between states.\<close>

definition free_of :: "blocks \<Rightarrow> nat set \<Rightarrow> nat \<rightharpoonup> nat" where
  "free_of B X a = (case B a of Some (n, True) \<Rightarrow> if a \<in> X then None else Some (class_of n) | _ \<Rightarrow> None)"

definition coalesced :: "blocks \<Rightarrow> nat set \<Rightarrow> bool" where
  "coalesced B X \<longleftrightarrow> (\<forall>a n m. B a = Some (n, True) \<longrightarrow> a \<notin> X \<longrightarrow> B (a + n) \<noteq> Some (m, True))"

abbreviation flag :: "bool \<Rightarrow> nat" where "flag p \<equiv> (if p then 8 else 0)"

definition alloc_header :: "bool \<Rightarrow> nat \<Rightarrow> nat \<Rightarrow> bool" where
  "alloc_header p n v \<longleftrightarrow>
     (\<exists>i s e. i < 13 \<and> s < 32 \<and> n = class_size (i * 32 + s) + (if e then 16 else 0) \<and> v = alloc_prefix p i s e)"

text \<open>The words of the headers. \<open>P\<close> says for the blocks and tails whether the block before is allocated.\<close>

definition block_header :: "words \<Rightarrow> nat \<Rightarrow> nat \<Rightarrow> nat \<Rightarrow> bool \<Rightarrow> bool \<Rightarrow> bool \<Rightarrow> bool" where
  "block_header w hp a n f x p \<longleftrightarrow>
     (if f then (if x then w (a + 8) mod 32 = flag p
                 else w (a + 8) = free_prefix p n (class_of n) \<and> w (a + n - 8) = n)
      else if x then w (a + 8) AND PREVIOUS_MASK = flag p
      else alloc_header p n (w (a + 8)) \<and> w a = hp)"

definition chunk_header :: "words \<Rightarrow> nat \<Rightarrow> nat \<Rightarrow> nat \<Rightarrow> bool \<Rightarrow> bool" where
  "chunk_header w k s t p \<longleftrightarrow> w (k - 8) = MEDIUM_CHUNK_PRE_HEADER + t \<and> w (k - 16) = s \<and>
     w s = STBM_SYSTEM_ALLOC_MEDIUM \<and> w (k + t + 8) = BLOCK_MASK + flag p"

definition headers :: "words \<Rightarrow> nat \<Rightarrow> blocks \<Rightarrow> chunks \<Rightarrow> nat set \<Rightarrow> (nat \<Rightarrow> bool) \<Rightarrow> bool" where
  "headers w hp B C X P \<longleftrightarrow>
     (\<forall>a n f. B a = Some (n, f) \<longrightarrow> block_header w hp a n f (a \<in> X) (P a)) \<and>
     (\<forall>k s t. C k = Some (s, t) \<longrightarrow> chunk_header w k s t (P (k + t)))"

definition config_ok :: "stbm_heap \<Rightarrow> bool" where
  "config_ok h \<longleftrightarrow> minimum_alignment h = 16 \<and> minimum_freeblock_size h = 32 \<and>
     cached_system_alloc h = 0 \<and> cached_system_alloc_size h = 0 \<and> cache_medium_chunks h = 0 \<and>
     cur_medium_chunk_size h mod 16 = 0 \<and> cur_medium_chunk_size h \<le> 2 ^ 21 \<and>
     max_medium_chunk_size h mod 16 = 0 \<and> max_medium_chunk_size h \<le> 2 ^ 21"

definition systems_ok :: "nat list \<Rightarrow> chunks \<Rightarrow> bool" where
  "systems_ok ss C \<longleftrightarrow> distinct ss \<and> (\<forall>k s t. C k = Some (s, t) \<longrightarrow> s \<in> set ss)"

definition heap_state :: "stbm_heap \<Rightarrow> blocks \<Rightarrow> chunks \<Rightarrow> nat set \<Rightarrow> (nat \<Rightarrow> bool) \<Rightarrow> bool" where
  "heap_state h B C X P \<longleftrightarrow> shape B C \<and> coalesced B X \<and> headers (wd h) (heap_addr h) B C X P \<and>
     lists_ok h (free_of B X) \<and> config_ok h \<and> systems_ok (system_allocs h) C"

text \<open>
  Before the first block of a chunk there is none: its flag says what it likes, since \<open>medium_free\<close> sets it when
  the second block is merged with the first.
\<close>

definition flags_ok :: "(nat \<Rightarrow> bool) \<Rightarrow> blocks \<Rightarrow> chunks \<Rightarrow> bool" where
  "flags_ok P B C \<longleftrightarrow> (\<forall>x. C x = None \<longrightarrow> P x = pv B x)"

lemma headersD:
  assumes "headers w hp B C X P"
  shows "B a = Some (n, f) \<Longrightarrow> block_header w hp a n f (a \<in> X) (P a)"
    "C k = Some (s, t) \<Longrightarrow> chunk_header w k s t (P (k + t))"
  using assms unfolding headers_def by blast+

lemma free_of_Some: "free_of B X a = Some c \<longleftrightarrow> (\<exists>n. B a = Some (n, True) \<and> a \<notin> X \<and> c = class_of n)"
  by (auto simp: free_of_def split: option.splits bool.splits)

lemma free_of_dom: "a \<in> dom (free_of B X) \<longleftrightarrow> a \<notin> X \<and> (\<exists>n. B a = Some (n, True))"
  by (auto simp: free_of_Some dom_def)

lemma free_of_blocks: "dom (free_of B X) \<subseteq> {a. \<exists>n f. B a = Some (n, f)}"
proof
  fix x assume "x \<in> dom (free_of B X)"
  then obtain c where "free_of B X x = Some c" by auto
  then obtain n where "B x = Some (n, True)" unfolding free_of_Some by blast
  then show "x \<in> {a. \<exists>n f. B a = Some (n, f)}" by blast
qed

lemma list_frameD:
  assumes "list_frame h h'"
  shows "heap_addr h' = heap_addr h" "config_ok h' \<longleftrightarrow> config_ok h" "system_allocs h' = system_allocs h"
    "minimum_alignment h' = minimum_alignment h" "minimum_freeblock_size h' = minimum_freeblock_size h"
    "cache_medium_chunks h' = cache_medium_chunks h"
    "cur_outstanding_allocations_count h' = cur_outstanding_allocations_count h"
    "cur_outstanding_allocations_bytes h' = cur_outstanding_allocations_bytes h"
    "sys_calls h' = sys_calls h" "sys_freed h' = sys_freed h"
  by (subst assms [unfolded list_frame_def], simp add: config_ok_def)+

text \<open>What only the other allocators change.\<close>

definition other_fields where
  "other_fields h = (heap_addr h, smallchunk_size h, minimum_alignment h, large_alloc_threshhold h,
     align_all_blocks_to_minimum h, force_debug h, small_full h, small_nonfull h, chunkcache h)"

lemma other_fieldsD:
  assumes "other_fields h' = other_fields h"
  shows "heap_addr h' = heap_addr h" "smallchunk_size h' = smallchunk_size h" "minimum_alignment h' = minimum_alignment h"
    "large_alloc_threshhold h' = large_alloc_threshhold h" "align_all_blocks_to_minimum h' = align_all_blocks_to_minimum h"
    "force_debug h' = force_debug h" "small_full h' = small_full h" "small_nonfull h' = small_nonfull h"
    "chunkcache h' = chunkcache h"
  using assms by (auto simp: other_fields_def)

lemma list_frame_other: "list_frame h h' \<Longrightarrow> other_fields h' = other_fields h"
  unfolding list_frame_def by (cases h; cases h'; simp add: other_fields_def)

section \<open>The data in the blocks that are in use\<close>

text \<open>The allocated blocks, with their sizes.\<close>

definition used :: "blocks \<Rightarrow> nat \<rightharpoonup> nat" where
  "used B a = (case B a of Some (n, False) \<Rightarrow> Some n | _ \<Rightarrow> None)"

lemma used_Some: "used B a = Some n \<longleftrightarrow> B a = Some (n, False)"
  by (auto simp: used_def split: option.splits bool.splits)

lemma pv_used: "pv B x \<longleftrightarrow> (\<exists>a n. used B a = Some n \<and> a + n = x)"
  by (simp add: pv_def used_Some)

text \<open>The words that are the users': those after the header of a block in use, and all outside the chunks.\<close>

definition users :: "chunks \<Rightarrow> (nat \<rightharpoonup> nat) \<Rightarrow> nat \<Rightarrow> bool" where
  "users C U x \<longleftrightarrow> (\<exists>a n. U a = Some n \<and> a + 16 \<le> x \<and> x < a + n) \<or>
     (\<forall>k s t. C k = Some (s, t) \<longrightarrow> x < s \<or> k + t + 16 \<le> x)"

definition keeps_data :: "chunks \<Rightarrow> (nat \<rightharpoonup> nat) \<Rightarrow> stbm_heap \<Rightarrow> stbm_heap \<Rightarrow> bool" where
  "keeps_data C U h h' \<longleftrightarrow> (\<forall>x. users C U x \<longrightarrow> wd h' x = wd h x)"

lemma keeps_dataI: "(\<And>x. users C U x \<Longrightarrow> wd h' x = wd h x) \<Longrightarrow> keeps_data C U h h'"
  by (simp add: keeps_data_def)

lemma keeps_data_refl: "wd h' = wd h \<Longrightarrow> keeps_data C U h h'"
  by (simp add: keeps_data_def)

lemma keeps_data_trans: "keeps_data C U h h' \<Longrightarrow> keeps_data C U h' h'' \<Longrightarrow> keeps_data C U h h''"
  by (simp add: keeps_data_def)

lemma users_mono: "users D V x \<Longrightarrow> V \<subseteq>\<^sub>m U \<Longrightarrow> C \<subseteq>\<^sub>m D \<Longrightarrow> users C U x"
  unfolding users_def map_le_def by (metis domI)

lemma keeps_data_mono: "keeps_data C U h h' \<Longrightarrow> V \<subseteq>\<^sub>m U \<Longrightarrow> C \<subseteq>\<^sub>m D \<Longrightarrow> keeps_data D V h h'"
  using users_mono by (auto simp: keeps_data_def)

text \<open>A word of the users lies in no other block.\<close>

lemma users_apart:
  assumes "shape B C" "B a = Some (n, f)" "users C U x" "U \<subseteq>\<^sub>m used B" "U a = None"
  shows "x < a \<or> a + n + 16 \<le> x"
proof -
  from assms(3) consider (data) b m where "U b = Some m" "b + 16 \<le> x" "x < b + m"
    | (out) "\<And>k s t. C k = Some (s, t) \<Longrightarrow> x < s \<or> k + t + 16 \<le> x"
    unfolding users_def by blast
  then show ?thesis
  proof cases
    case data
    have "b \<in> dom U" using data(1) by blast
    then have b: "B b = Some (m, False)" using assms(4) data(1) by (auto simp: map_le_def used_Some [symmetric])
    have "b \<noteq> a" using data(1) assms(5) by auto
    then show ?thesis
      using data(2,3) blocks_apart [OF assms(1,2) b] blocks_apart [OF assms(1) b assms(2)]
      by (cases a b rule: linorder_cases) auto
  next
    case out
    obtain k s t where k: "C k = Some (s, t)" "k \<le> a" "a + n \<le> k + t"
      using shapeD(4) [OF assms(1,2)] by (auto simp: in_chunk_def)
    then show ?thesis using out [OF k(1)] chunkD(5) [OF shape_chunks [OF assms(1)] k(1)] by auto
  qed
qed

lemma used_not: "B a = Some (n, True) \<Longrightarrow> used B a = None"
  by (simp add: used_def)

section \<open>Links are not headers\<close>

text \<open>The words that the headers of a block and of a chunk speak of.\<close>

definition header_words :: "blocks \<Rightarrow> chunks \<Rightarrow> nat set" where
  "header_words B C = {x. (\<exists>a n f. B a = Some (n, f) \<and> (x = a + 8 \<or> (f \<and> x = a + n - 8) \<or> (\<not> f \<and> x = a))) \<or>
     (\<exists>k s t. C k = Some (s, t) \<and> (x = k - 8 \<or> x = k - 16 \<or> x = s \<or> x = k + t + 8))}"

lemma block_wordsI:
  assumes "B a = Some (n, f)"
  shows "a + 8 \<in> header_words B C" "f \<Longrightarrow> a + n - 8 \<in> header_words B C" "\<not> f \<Longrightarrow> a \<in> header_words B C"
  using assms unfolding header_words_def by blast+

lemma chunk_wordsI:
  assumes "C k = Some (s, t)"
  shows "k - 8 \<in> header_words B C" "k - 16 \<in> header_words B C" "s \<in> header_words B C"
    "k + t + 8 \<in> header_words B C"
  using assms unfolding header_words_def by blast+

lemma headers_cong:
  assumes "\<And>x. x \<in> header_words B C \<Longrightarrow> w' x = w x"
  shows "headers w' hp B C X P \<longleftrightarrow> headers w hp B C X P"
proof -
  have "block_header w' hp a n f x p \<longleftrightarrow> block_header w hp a n f x p" if "B a = Some (n, f)" for a n f x p
  proof -
    have "w' (a + 8) = w (a + 8)" "f \<Longrightarrow> w' (a + n - 8) = w (a + n - 8)" "\<not> f \<Longrightarrow> w' a = w a"
      using block_wordsI [where B = B, OF that] assms by auto
    then show ?thesis by (auto simp: block_header_def)
  qed
  moreover have "chunk_header w' k s t p \<longleftrightarrow> chunk_header w k s t p" if "C k = Some (s, t)" for k s t p
  proof -
    have "w' (k - 8) = w (k - 8)" "w' (k - 16) = w (k - 16)" "w' s = w s" "w' (k + t + 8) = w (k + t + 8)"
      by (rule assms; rule chunk_wordsI [where C = C, OF that])+
    then show ?thesis by (auto simp: chunk_header_def)
  qed
  ultimately show ?thesis unfolding headers_def by blast
qed

text \<open>Words of the inside of a block that no header of another block or a chunk speaks of.\<close>

lemma header_words_inside:
  assumes sh: "shape B C" and B: "B a = Some (n, f)" and x: "a \<le> x" "x < a + n" "x \<in> header_words B C"
  shows "x = a + 8 \<or> (f \<and> x = a + n - 8) \<or> (\<not> f \<and> x = a)"
proof -
  from x(3) consider b m g where "B b = Some (m, g)" "x = b + 8 \<or> (g \<and> x = b + m - 8) \<or> (\<not> g \<and> x = b)"
    | k s t where "C k = Some (s, t)" "x = k - 8 \<or> x = k - 16 \<or> x = s \<or> x = k + t + 8"
    unfolding header_words_def by blast
  then show ?thesis
  proof cases
    case 1
    have "32 \<le> m" using shapeD(3) [OF sh 1(1)] .
    then have "b \<le> x" "x < b + m" using 1(2) by auto
    then have "a = b"
      using x(1,2) blocks_apart [OF sh B 1(1)] blocks_apart [OF sh 1(1) B] by (cases a b rule: linorder_cases) auto
    then show ?thesis using 1 B by auto
  next
    case 2
    then show ?thesis
      using x(1,2) block_zone [OF sh B 2(1)] chunkD(5) [OF shape_chunks [OF sh] 2(1)] by auto
  qed
qed

lemma link_not_header:
  assumes sh: "shape B C" and B: "B y = Some (n, True)"
  shows "y \<notin> header_words B C" "y + 16 \<notin> header_words B C"
proof -
  have y: "y mod 16 = 0" "32 \<le> n" "n mod 16 = 0" using shapeD [OF sh B] by auto
  then show "y \<notin> header_words B C" using header_words_inside [OF sh B, of y] by auto
  have "y + 16 \<noteq> y + n - 8" using y(2) by arith
  then show "y + 16 \<notin> header_words B C" using header_words_inside [OF sh B, of "y + 16"] y by auto
qed

section \<open>Taking a block out of its list\<close>

lemma free_of_apart: "shape B C \<Longrightarrow> apart {a. \<exists>n f. B a = Some (n, f)}"
  unfolding apart_def using shapeD(3) blocks_apart by fastforce

lemma headers_insert:
  assumes "headers w hp B C X P" "B a = Some (n, True)" "w (a + 8) mod 32 = flag (P a)"
  shows "headers w hp B C (insert a X) P"
proof -
  have "block_header w hp b m f (b \<in> insert a X) (P b)" if b: "B b = Some (m, f)" for b m f
  proof (cases "b = a")
    case True
    then show ?thesis using b assms(2,3) by (simp add: block_header_def)
  next
    case False
    then have "b \<in> insert a X \<longleftrightarrow> b \<in> X" by simp
    then show ?thesis using assms(1) b by (simp only: headers_def)
  qed
  then show ?thesis using assms(1) by (simp add: headers_def)
qed

lemma words_8:
  assumes "a mod 16 = 0" "n mod 16 = 0" "32 \<le> n"
  shows "(a + 8) mod 16 = (8 :: nat)" "(a + n - 8) mod 16 = (8 :: nat)"
proof -
  obtain u where u: "a = 16 * u" using size_fits [OF assms(1)] by blast
  obtain v where v: "n = 16 * v" using size_fits [OF assms(2)] by blast
  then obtain v' where v': "v = Suc v'" using assms(3) by (cases v) auto
  have "a + n - 8 = 8 + 16 * (u + v')" using u v v' by simp
  then show "(a + n - 8) mod 16 = 8" by (simp only: mod_mult_self2) simp
  have "a + 8 = 8 + 16 * u" using u by simp
  then show "(a + 8) mod 16 = 8" by (simp only: mod_mult_self2) simp
qed

lemma medium_unlink_state:
  assumes ok: "heap_state h B C X P" and a: "B a = Some (n, True)" "a \<notin> X"
  obtains h' where "medium_unlink a h = Inr h'" "heap_state h' B C (insert a X) P" "list_frame h h'"
    "\<forall>x \<in> header_words B C. wd h' x = wd h x" "keeps_data C (used B) h h'"
proof -
  have sh: "shape B C" and hd: "headers (wd h) (heap_addr h) B C X P" and ls: "lists_ok h (free_of B X)"
    and rest: "coalesced B X" "config_ok h" "systems_ok (system_allocs h) C"
    using ok by (auto simp: heap_state_def)
  have n: "n mod 16 = 0" "n < 2 ^ 21" using shapeD(2) [OF sh a(1)] block_bound(1) [OF sh a(1)] by auto
  have w: "wd h (a + 8) = free_prefix (P a) n (class_of n)"
    using headersD(1) [OF hd a(1)] a(2) by (simp add: block_header_def)
  have F: "free_of B X a = Some (class_of n)" using a by (auto simp: free_of_Some)
  have cl: "MED_FREE_SIZECLASS (wd h (a + 8)) = class_of n" using w free_prefix_bits(4) [OF n] by simp
  obtain h' where h': "medium_unlink a h = Inr h'" "lists_ok h' ((free_of B X)(a := None))" "list_frame h h'"
    "\<forall>x. (\<forall>y \<in> dom (free_of B X). x \<noteq> y \<and> x \<noteq> y + 16) \<longrightarrow> wd h' x = wd h x"
    by (rule medium_unlink_ok [OF ls F cl])
  have fr: "wd h' x = wd h x" if "x \<in> header_words B C" for x
    using h'(4) link_not_header [OF sh] that by (metis free_of_dom)
  have "headers (wd h') (heap_addr h) B C X P" using headers_cong [of B C "wd h'" "wd h"] fr hd by blast
  then have "headers (wd h') (heap_addr h) B C (insert a X) P"
    by (rule headers_insert [where n = n])
       (use fr [OF block_wordsI(1) [where B = B, OF a(1)]] a(1) w free_prefix_bits(5) [OF n] in simp_all)
  moreover have "(free_of B X)(a := None) = free_of B (insert a X)"
    by (rule ext) (auto simp: free_of_def split: option.splits bool.splits)
  moreover have "coalesced B (insert a X)" using rest(1) by (auto simp: coalesced_def)
  ultimately have "heap_state h' B C (insert a X) P"
    using h'(2) sh rest(2,3) list_frameD(1-3) [OF h'(3)] by (simp add: heap_state_def)
  moreover have "keeps_data C (used B) h h'"
  proof (rule keeps_dataI)
    fix x assume x: "users C (used B) x"
    have "x \<noteq> y \<and> x \<noteq> y + 16" if y: "y \<in> dom (free_of B X)" for y
    proof -
      obtain k where k: "B y = Some (k, True)" using y by (auto simp: free_of_dom)
      then show ?thesis using users_apart [OF sh k x _ used_not [where B = B, OF k]] shapeD(3) [OF sh k] by auto
    qed
    then show "wd h' x = wd h x" using h'(4) by blast
  qed
  ultimately show ?thesis using that h'(1,3) fr by blast
qed

text \<open>A block whose flag is right enters its list.\<close>

lemma medium_link_state:
  assumes ok: "heap_state h B C X P" and a: "B a = Some (n, True)" "a \<in> X" "\<And>m. B (a + n) \<noteq> Some (m, True)"
  obtains h' where "medium_link a n h = Inr h'" "heap_state h' B C (X - {a}) P" "list_frame h h'"
    "\<forall>x \<in> header_words B C. x \<noteq> a + 8 \<longrightarrow> x \<noteq> a + n - 8 \<longrightarrow> wd h' x = wd h x" "keeps_data C (used B) h h'"
proof -
  have sh: "shape B C" and hd: "headers (wd h) (heap_addr h) B C X P" and ls: "lists_ok h (free_of B X)"
    and rest: "coalesced B X" "config_ok h" "systems_ok (system_allocs h) C"
    using ok by (auto simp: heap_state_def)
  have n: "a mod 16 = 0" "n mod 16 = 0" "32 \<le> n" "n \<le> 2 ^ 21 - 8" "a \<noteq> 0"
    using shapeD [OF sh a(1)] block_bound(1,3) [OF sh a(1)] by auto
  have F: "free_of B X a = None" using a(2) by (cases "free_of B X a") (auto simp: free_of_Some)
  have ap: "apart (insert a (dom (free_of B X)))"
    by (rule apart_mono [OF free_of_apart [OF sh]]) (use a(1) in \<open>intro insert_subsetI free_of_blocks, blast\<close>)
  have e8: "x mod 16 = 8" if "x = a + 8 \<or> x = a + n - 8" for x
    using that words_8 [OF n(1-3)] by auto
  have fr0: "y \<noteq> a + 8 \<and> y + 16 \<noteq> a + 8 \<and> y \<noteq> a + n - 8 \<and> y + 16 \<noteq> a + n - 8" if "y \<in> dom (free_of B X)" for y
  proof -
    have "y mod 16 = 0" using that shapeD(1) [OF sh] by (auto simp: free_of_dom)
    then have "y mod 16 \<noteq> 8" "(y + 16) mod 16 \<noteq> 8" by simp_all
    then show ?thesis using e8 by metis
  qed
  obtain h' where h': "medium_link a n h = Inr h'" "lists_ok h' ((free_of B X)(a \<mapsto> class_of n))" "list_frame h h'"
    "wd h' (a + 8) = wd h (a + 8) mod 32 + 4 * n + 2 ^ 23 * class_of n" "wd h' (a + n - 8) = n"
    "\<forall>x. (\<forall>y \<in> dom (free_of B X). x \<noteq> y \<and> x \<noteq> y + 16) \<longrightarrow> x \<notin> {a, a + 8, a + 16, a + n - 8} \<longrightarrow> wd h' x = wd h x"
    by (rule medium_link_ok [OF ls F n(5) ap n(2-4) fr0])
  have fr: "wd h' x = wd h x" if x: "x \<in> header_words B C" "x \<noteq> a + 8" "x \<noteq> a + n - 8" for x
  proof (rule h'(6) [rule_format])
    show "x \<noteq> y \<and> x \<noteq> y + 16" if "y \<in> dom (free_of B X)" for y
      using that link_not_header [OF sh] x(1) by (metis free_of_dom)
    show "x \<notin> {a, a + 8, a + 16, a + n - 8}" using link_not_header [OF sh a(1)] x by auto
  qed
  have pre: "wd h' (a + 8) = free_prefix (P a) n (class_of n)"
    using headersD(1) [OF hd a(1)] a(2) h'(4) by (simp add: block_header_def free_prefix_def)
  have "headers (wd h') (heap_addr h) B C (X - {a}) P"
    unfolding headers_def
  proof (intro conjI allI impI)
    fix b m f assume b: "B b = Some (m, f)"
    show "block_header (wd h') (heap_addr h) b m f (b \<in> X - {a}) (P b)"
    proof (cases "b = a")
      case True
      then show ?thesis using b a(1) pre h'(5) by (simp add: block_header_def)
    next
      case False
      have out: "y \<noteq> a + 8 \<and> y \<noteq> a + n - 8" if "b \<le> y" "y < b + m" for y
        using that False blocks_apart [OF sh b a(1)] blocks_apart [OF sh a(1) b] n(3)
        by (cases a b rule: linorder_cases) auto
      have m: "32 \<le> m" using shapeD(3) [OF sh b] .
      have "wd h' (b + 8) = wd h (b + 8)" "f \<Longrightarrow> wd h' (b + m - 8) = wd h (b + m - 8)" "\<not> f \<Longrightarrow> wd h' b = wd h b"
        using fr out [of "b + 8"] out [of "b + m - 8"] out [of b] block_wordsI [where B = B, OF b] m
        by auto
      then show ?thesis
        using headersD(1) [OF hd b] False by (auto simp: block_header_def split: if_splits)
    qed
  next
    fix k s t assume k: "C k = Some (s, t)"
    have z: "a + n \<le> s \<or> k + t + 16 \<le> a \<or> k \<le> a \<and> a + n \<le> k + t" by (rule block_zone [OF sh a(1) k])
    have "s + 64 \<le> k" using chunkD(5) [OF shape_chunks [OF sh] k] .
    then have "wd h' x = wd h x" if x: "x = k - 8 \<or> x = k - 16 \<or> x = s \<or> x = k + t + 8" for x
      using x z n(3) chunk_wordsI [where B = B and C = C, OF k] by (intro fr) auto
    then have "wd h' (k - 8) = wd h (k - 8)" "wd h' (k - 16) = wd h (k - 16)" "wd h' s = wd h s"
      "wd h' (k + t + 8) = wd h (k + t + 8)" by simp_all
    then show "chunk_header (wd h') k s t (P (k + t))"
      using headersD(2) [OF hd k] by (simp add: chunk_header_def)
  qed
  moreover have "(free_of B X)(a \<mapsto> class_of n) = free_of B (X - {a})"
    using a(1) by (intro ext) (auto simp: free_of_def split: option.splits bool.splits)
  moreover have "coalesced B (X - {a})" using rest(1) a(1,3) by (auto simp: coalesced_def)
  ultimately have "heap_state h' B C (X - {a}) P"
    using h'(2) sh rest(2,3) list_frameD(1-3) [OF h'(3)] by (simp add: heap_state_def)
  moreover have "keeps_data C (used B) h h'"
  proof (rule keeps_dataI)
    fix x assume x: "users C (used B) x"
    have out: "x < y \<or> y + k + 16 \<le> x" if k: "B y = Some (k, True)" for y k
      by (rule users_apart [OF sh k x _ used_not [where B = B, OF k]]) simp
    have "x \<noteq> y \<and> x \<noteq> y + 16" if y: "y \<in> dom (free_of B X)" for y
    proof -
      obtain k where k: "B y = Some (k, True)" using y by (auto simp: free_of_dom)
      then show ?thesis using out [OF k] shapeD(3) [OF sh k] by auto
    qed
    moreover have "x \<notin> {a, a + 8, a + 16, a + n - 8}" using out [OF a(1)] n(3) by auto
    ultimately show "wd h' x = wd h x" using h'(6) by blast
  qed
  ultimately show ?thesis using that h'(1,3) fr by blast
qed

section \<open>Finding a block\<close>

lemma take_block_state:
  assumes ok: "heap_state h B C {} P" and i: "i' < 13" "s' < 32" "i * 32 + s \<le> i' * 32 + s'" "i < 13" "s < 32"
    and L: "free_lists h i' s' \<noteq> 0" and size0: "size0 \<le> class_size (i * 32 + s)"
  obtains a n h' where "take_block i' s' i s size0 h = Inr ((a, n), h')" "heap_state h' B C {a} P"
    "B a = Some (n, True)" "class_size (i * 32 + s) \<le> n" "\<forall>m. B (a + n) \<noteq> Some (m, True)" "list_frame h h'"
    "keeps_data C (used B) h h'"
proof -
  have ls: "lists_ok h (free_of B {})" and sh: "shape B C" and hd: "headers (wd h) (heap_addr h) B C {} P"
    using ok by (auto simp: heap_state_def)
  let ?a = "free_lists h i' s'"
  obtain xs where xs: "dll (wd h) 0 ?a xs" "set xs = {a. free_of B {} a = Some (i' * 32 + s')}"
    using list_of [OF ls i(1,2)] by metis
  have "?a \<in> set xs" using dll_hd [OF xs(1)] L by (cases xs) auto
  then obtain n where n: "B ?a = Some (n, True)" "class_of n = i' * 32 + s'"
    using xs(2) by (auto simp: free_of_Some)
  have "class_size (i * 32 + s) \<le> class_size (class_of n)" using class_size_le i(3) n(2) by simp
  also have "\<dots> \<le> n" by (rule block_class_ok [of n])
  finally have cn: "class_size (i * 32 + s) \<le> n" .
  have nb: "n mod 16 = 0" "n < 2 ^ 21" using shapeD(2) [OF sh n(1)] block_bound(1) [OF sh n(1)] by auto
  have "MED_FREE_BYTES (wd h (?a + 8)) = n"
    using headersD(1) [OF hd n(1)] free_prefix_bits(3) [OF nb] by (simp add: block_header_def)
  moreover obtain h' where "medium_unlink ?a h = Inr h'" "heap_state h' B C {?a} P" "list_frame h h'"
    "keeps_data C (used B) h h'"
    using medium_unlink_state [OF ok n(1)] by auto
  moreover have "\<forall>m. B (?a + n) \<noteq> Some (m, True)" using ok n(1) by (auto simp: heap_state_def coalesced_def)
  ultimately show ?thesis
    using that [of ?a n h'] n(1) cn size0 i by (simp add: take_block_def size_for_index_slot_class)
qed

lemma find_block_state:
  assumes ok: "heap_state h B C {} P" and i: "i < 13" "s < 32" and size0: "size0 \<le> class_size (i * 32 + s)"
  obtains (found) a n h' where "find_block env i s size0 h = Inr ((a, n), h')" "heap_state h' B C {a} P"
      "B a = Some (n, True)" "class_size (i * 32 + s) \<le> n" "\<forall>m. B (a + n) \<noteq> Some (m, True)" "list_frame h h'"
      "keeps_data C (used B) h h'"
    | (none) "find_block env i s size0 h = new_chunk env (class_size (i * 32 + s)) size0 h"
proof -
  have ls: "lists_ok h (free_of B {})" using ok by (simp add: heap_state_def)
  have bits: "\<And>j t. j < 13 \<Longrightarrow> t < 32 \<Longrightarrow> bit (bitmap h j) (31 - t) \<longleftrightarrow> free_lists h j t \<noteq> 0"
    "\<And>j. j < 13 \<Longrightarrow> bit (toplevel_bitmap h) (31 - j) \<longleftrightarrow> bitmap h j \<noteq> 0"
    "\<And>j. j < 32 \<Longrightarrow> 13 \<le> j \<Longrightarrow> \<not> bit (toplevel_bitmap h) (31 - j)"
    using ls unfolding lists_ok_def by blast+
  obtain r where r: "find_leftmost_one_bit_after_skipping (bitmap h i) s = int r" "first_bit (bitmap h i) s r"
    using find_leftmost_first_bit [of s] i(2) by auto
  show ?thesis
  proof (cases "r < 32")
    case True
    then have "s \<le> r" "free_lists h i r \<noteq> 0" using r(2) bits(1) i(1) by (auto simp: first_bit_def)
    then have "i * 32 + s \<le> i * 32 + r" by simp
    from take_block_state [OF ok i(1) True this i \<open>free_lists h i r \<noteq> 0\<close> size0]
    show ?thesis using found True r(1) by (simp add: find_block_def) metis
  next
    case False
    obtain q where q: "find_leftmost_one_bit_after_skipping (toplevel_bitmap h) (i + 1) = int q"
      "first_bit (toplevel_bitmap h) (i + 1) q"
      using find_leftmost_first_bit [of "i + 1"] i(1) by auto
    show ?thesis
    proof (cases "q < 32")
      case True
      then have q': "i < q" "bit (toplevel_bitmap h) (31 - q)" using q(2) by (auto simp: first_bit_def)
      then have "q < 13" using bits(3) True by (meson not_less)
      then have "bitmap h q \<noteq> 0" using bits(2) q'(2) by simp
      obtain p where p: "find_leftmost_one_bit_after_skipping (bitmap h q) 0 = int p" "first_bit (bitmap h q) 0 p"
        using find_leftmost_first_bit [of 0] by auto
      have "p < 32" using p(2) map_zero_iff [of "bitmap h q"] \<open>bitmap h q \<noteq> 0\<close> by (auto simp: first_bit_def split: if_splits)
      then have L: "free_lists h q p \<noteq> 0" using p(2) bits(1) \<open>q < 13\<close> by (auto simp: first_bit_def)
      have "i * 32 + s \<le> q * 32 + p" using q'(1) i(2) by simp
      from take_block_state [OF ok \<open>q < 13\<close> \<open>p < 32\<close> this i L size0]
      show ?thesis using found True False \<open>p < 32\<close> r(1) q(1) p(1) by (simp add: find_block_def) metis
    next
      case f: False
      then show ?thesis
        using none False r(1) q(1) i by (simp add: find_block_def size_for_index_slot_class)
    qed
  qed
qed

end
