(* ===== verification/TlsfOps.thy ===== *)
theory TlsfOps
  imports TlsfInv
begin

text \<open>
  The steps of an allocation keep the invariant of the heap: a new chunk of the system, the cut of a block, and
  the header of the block that is handed out.
\<close>

unbundle bit_operations_syntax

section \<open>A new chunk\<close>

text \<open>What the system allocator documents: the block it returns has the size that was asked for, is aligned and
  does not overlap what it returned before.\<close>

definition system_ok :: "system_alloc \<Rightarrow> stbm_heap \<Rightarrow> chunks \<Rightarrow> bool" where
  "system_ok env h C \<longleftrightarrow> (\<forall>r s f. env (sys_calls h) r = (s, f) \<longrightarrow> s \<noteq> 0 \<longrightarrow> 0 < r \<longrightarrow>
     f = r \<and> s mod 16 = 0 \<and> s + r \<le> 2 ^ 62 \<and> s \<notin> set (system_allocs h) \<and>
     (\<forall>k s' t. C k = Some (s', t) \<longrightarrow> s + r \<le> s' \<or> k + t + 16 \<le> s))"

lemma medium_init_chunk_eq:
  assumes "minimum_alignment h = 16" "s mod 16 = 0" "r mod 16 = 0" "96 < r" "s + r \<le> 2 ^ 62"
  shows "medium_init_chunk r s h = Inr ((s + 64, r - 96), h\<lparr>wd := (wd h)(s + 24 := s + 80, s + 40 := r,
    s + 48 := s, s + 72 := 0, s + 32 := s + r - 16, s + r - 24 := BLOCK_MASK,
    s + 56 := MEDIUM_CHUNK_PRE_HEADER + (r - 96))\<rparr>)"
proof -
  obtain u where u: "s = 16 * u" using size_fits [OF assms(2)] by blast
  obtain v where v: "r = 16 * v" using size_fits [OF assms(3)] by blast
  have m: "(s + 80) mod 16 = 0" "(s + r - 16) mod 16 = 0" "(r - 96) mod 16 = 0"
    using assms(2-4) by (auto simp: mod_eq_0_iff_dvd dvd_diff_nat)
  have "align_address (s + 80) 16 0 = Inr (s + 80)" "align_address (s + r - 16) 16 0 = Inr (s + r - 16)"
    using align_address_16 [of "s + 80" 0] align_address_16 [of "s + r - 16" 0] m assms(4,5) by simp_all
  moreover have "s + r - 16 - 16 + 8 = s + r - 24" "s + r - 16 - 16 - (s + 64) = r - 96" "s + r - 16 < s + r"
    "s + r - 16 - 16 + 16 < s + r"
    using assms(4) by simp_all
  ultimately show ?thesis
    using assms(1) m(3) by (simp add: medium_init_chunk_def st_word_def Let_def) (simp add: add.commute)
qed

lemma lists_ok_cong:
  assumes "lists_ok h F" "free_lists h' = free_lists h" "bitmap h' = bitmap h" "toplevel_bitmap h' = toplevel_bitmap h"
    and "\<And>y. y \<in> dom F \<Longrightarrow> wd h' y = wd h y \<and> wd h' (y + 16) = wd h (y + 16)"
  shows "lists_ok h' F"
proof -
  have "\<exists>xs. dll (wd h') 0 (free_lists h' i s) xs \<and> distinct xs \<and> set xs = {a. F a = Some (i * 32 + s)}"
    if i: "i < 13" "s < 32" for i s
  proof -
    obtain xs where xs: "dll (wd h) 0 (free_lists h i s) xs" "distinct xs" "set xs = {a. F a = Some (i * 32 + s)}"
      using list_of [OF assms(1) i] by blast
    have "dll (wd h') 0 (free_lists h i s) xs = dll (wd h) 0 (free_lists h i s) xs"
      by (rule dll_cong) (use xs(3) assms(5) in auto)
    then show ?thesis using xs assms(2) by auto
  qed
  then show ?thesis using assms(1-4) unfolding lists_ok_def by auto
qed

text \<open>The system has no memory for the next request.\<close>

definition no_memory :: "system_alloc \<Rightarrow> stbm_heap \<Rightarrow> bool" where
  "no_memory env h \<longleftrightarrow> (\<exists>r \<le> 2 ^ 33. fst (env (sys_calls h) r) = 0)"

lemma no_memoryI: "env (sys_calls h) r = (0, f) \<Longrightarrow> r \<le> 2 ^ 33 \<Longrightarrow> no_memory env h"
  unfolding no_memory_def by (metis fst_conv)

lemma new_chunk_state:
  assumes ok: "heap_state h B C {} P" and fl: "flags_ok P B C" and e: "e mod 16 = 0" "e \<le> STBM_SIZECLASS_MAX" "size0 \<le> e"
    and env: "system_ok env h C"
  obtains (null) h' where "new_chunk env e size0 h = Inr ((0, 0), h')" "heap_state h' B C {} P" "wd h' = wd h"
      "system_allocs h' = system_allocs h" "sys_calls h' = Suc (sys_calls h)" "other_fields h' = other_fields h"
      "cur_outstanding_allocations_count h' = cur_outstanding_allocations_count h"
      "cur_outstanding_allocations_bytes h' = cur_outstanding_allocations_bytes h" "sys_freed h' = sys_freed h"
      "no_memory env h"
    | (new) a n s h' P' where "new_chunk env e size0 h = Inr ((a, n), h')" "B a = None" "C a = None" "e \<le> n" "a \<noteq> 0" "B (a + n) = None"
      "heap_state h' (B(a \<mapsto> (n, True))) (C(a \<mapsto> (s, n))) {a} P'" "flags_ok P' (B(a \<mapsto> (n, True))) (C(a \<mapsto> (s, n)))"
      "keeps_data (C(a \<mapsto> (s, n))) (used B) h h'" "env (sys_calls h) (n + 96) = (s, n + 96)" "a = s + 64" "s \<noteq> 0"
      "system_allocs h' = s # system_allocs h" "sys_calls h' = Suc (sys_calls h)" "other_fields h' = other_fields h"
      "cur_outstanding_allocations_count h' = cur_outstanding_allocations_count h"
      "cur_outstanding_allocations_bytes h' = cur_outstanding_allocations_bytes h"
      "sys_freed h' = sys_freed h" "heap_addr h' = heap_addr h"
proof -
  have sh: "shape B C" and hd: "headers (wd h) (heap_addr h) B C {} P" and ls: "lists_ok h (free_of B {})"
    and co: "coalesced B {}" and cf: "config_ok h" and sy: "systems_ok (system_allocs h) C"
    using ok by (auto simp: heap_state_def)
  define r where "r = max (e + 272) (cur_medium_chunk_size h)"
  have r: "r mod 16 = 0" "e + 272 \<le> r" "r \<le> 2 ^ 21"
    using e(1,2) cf by (auto simp: r_def config_ok_def max_def STBM_SIZECLASS_MAX_def mod_eq_0_iff_dvd)
  define h1 where "h1 = (if e + 272 > cur_medium_chunk_size h then h
    else h\<lparr>cur_medium_chunk_size := min (cur_medium_chunk_size h * 2) (max_medium_chunk_size h)\<rparr>)\<lparr>sys_calls := sys_calls h + 1\<rparr>"
  have h1: "wd h1 = wd h" "free_lists h1 = free_lists h" "bitmap h1 = bitmap h" "toplevel_bitmap h1 = toplevel_bitmap h"
    "heap_addr h1 = heap_addr h" "system_allocs h1 = system_allocs h" "sys_calls h1 = Suc (sys_calls h)" "minimum_alignment h1 = 16" "config_ok h1"
    "cur_outstanding_allocations_count h1 = cur_outstanding_allocations_count h"
    "cur_outstanding_allocations_bytes h1 = cur_outstanding_allocations_bytes h" "sys_freed h1 = sys_freed h"
    using cf by (auto simp: h1_def config_ok_def min_def mod_eq_0_iff_dvd)
  have h1o: "other_fields h1 = other_fields h" by (simp add: h1_def other_fields_def)
  obtain s f where sf: "env (sys_calls h) r = (s, f)" by (cases "env (sys_calls h) r")
  have nc: "new_chunk env e size0 h = (if s = 0 then Inr ((0, 0), h1)
      else stbm_assert (size0 \<le> f \<and> e + 272 \<le> f) (res_bind (medium_init_chunk f s h1)
        (\<lambda>(r, h). Inr (r, system_alloc_link s STBM_SYSTEM_ALLOC_MEDIUM h))))"
  proof -
    have ov: "e + minimum_alignment h + 256 = e + 272" "cached_system_alloc_size h = 0" "cached_system_alloc h = 0"
      using cf by (simp_all add: config_ok_def)
    show ?thesis
      using sf unfolding new_chunk_def ov Let_def r_def h1_def
      by (cases "e + 272 > cur_medium_chunk_size h") (simp_all add: max_def ov(2,3))
  qed
  show ?thesis
  proof (cases "s = 0")
    case True
    have "heap_state h1 B C {} P"
      using sh co hd sy h1 lists_ok_cong [OF ls, of h1] by (simp add: heap_state_def)
    moreover have "no_memory env h" by (rule no_memoryI [of env h r f]) (use sf True r(3) in simp_all)
    ultimately show ?thesis using null [of h1] nc True h1 h1o by simp
  next
    case False
    have f: "f = r" "s mod 16 = 0" "s + r \<le> 2 ^ 62" "s \<notin> set (system_allocs h)"
      "\<And>k s' t. C k = Some (s', t) \<Longrightarrow> s + r \<le> s' \<or> k + t + 16 \<le> s"
      using env sf False r(2) unfolding system_ok_def by (metis add_gr_0 less_le_trans zero_less_numeral)+
    define k where "k = s + 64"
    define t where "t = r - 96"
    have kt: "k mod 16 = 0" "t mod 16 = 0" "32 \<le> t" "e \<le> t" "t \<le> 2 ^ 21 - 96" "k + t + 32 = s + r"
      using f(2) r by (auto simp: k_def t_def mod_eq_0_iff_dvd dvd_diff_nat)
    define w where "w = (wd h)(s + 24 := s + 80, s + 40 := r, s + 48 := s, s + 72 := 0, s + 32 := s + r - 16,
      s + r - 24 := BLOCK_MASK, s + 56 := MEDIUM_CHUNK_PRE_HEADER + (r - 96), s := STBM_SYSTEM_ALLOC_MEDIUM)"
    define h2 where "h2 = h1\<lparr>wd := w, system_allocs := s # system_allocs h\<rparr>"
    have "medium_init_chunk r s h1 = Inr ((k, t), h1\<lparr>wd := (wd h)(s + 24 := s + 80, s + 40 := r,
        s + 48 := s, s + 72 := 0, s + 32 := s + r - 16, s + r - 24 := BLOCK_MASK,
        s + 56 := MEDIUM_CHUNK_PRE_HEADER + (r - 96))\<rparr>)"
      using medium_init_chunk_eq [of h1 s r] h1(1,8) f(2,3) r by (simp add: k_def t_def)
    then have eq: "new_chunk env e size0 h = Inr ((k, t), h2)"
      using nc False f(1) r e(3)
      by (simp add: system_alloc_link_def st_word_def h2_def w_def h1(6))
    have fr: "w x = wd h x" if "x < s \<or> s + r \<le> x" for x
      using that r by (auto simp: w_def)
    let ?B = "B(k \<mapsto> (t, True))" and ?C = "C(k \<mapsto> (s, t))"
    have chk: "chunks_ok ?C"
    proof -
      note ch = shape_chunks [OF sh]
      have "j mod 16 = 0 \<and> s' mod 16 = 0 \<and> t' mod 16 = 0 \<and> 0 < s' \<and> s' + 64 \<le> j \<and> t' \<le> 2 ^ 21 - 96 \<and> j + t' + 16 \<le> 2 ^ 62"
        if "?C j = Some (s', t')" for j s' t'
        using that chunkD(1-7) [OF ch, of j s' t'] kt f(2,3) False by (auto simp: k_def split: if_splits)
      moreover have "j + t' + 16 \<le> s''" if "?C j = Some (s', t')" "?C i = Some (s'', t'')" "j < i" for j s' t' i s'' t''
        using that chunkD(8) [OF ch, of j s' t' i s'' t''] chunkD(5) [OF ch, of j s' t'] chunkD(5) [OF ch, of i s'' t'']
          f(5) [of j s' t'] f(5) [of i s'' t''] kt(6)
        by (auto simp: k_def split: if_splits)
      ultimately show ?thesis unfolding chunks_ok_def by blast
    qed
    have Ck: "C k = None"
      using f(5) [of k] chunkD(5) [OF shape_chunks [OF sh], of k] kt(6) by (cases "C k") (auto simp: k_def)
    have zone: "a + n \<le> s \<or> s + r \<le> a" if a: "B a = Some (n, g)" for a n g
    proof -
      obtain j s' t' where j: "C j = Some (s', t')" "j \<le> a" "a + n \<le> j + t'"
        using shapeD(4) [OF sh a] by (auto simp: in_chunk_def)
      then show ?thesis using f(5) [OF j(1)] chunkD(5) [OF shape_chunks [OF sh] j(1)] by auto
    qed
    have Bk: "B k = None"
      using zone [of k] kt(6) shapeD(3) [OF sh, of k] by (cases "B k") (fastforce simp: k_def)+
    have sh2: "shape ?B ?C" by (rule shape_new_chunk [OF sh chk Ck kt(3)])
    have "?B a = Some (n, False) \<longleftrightarrow> B a = Some (n, False)" for a n using Bk by auto
    then have pvk: "pv ?B x \<longleftrightarrow> pv B x" for x by (simp only: pv_def)
    have npv: "\<not> pv B x" if "s < x" "x < s + r" for x
      using zone that by (fastforce simp: pv_def)
    let ?P = "P(k := False)"
    have Ckt: "C (k + t) = None"
      using f(5) [of "k + t"] chunkD(5) [OF shape_chunks [OF sh], of "k + t"] kt(3,6) by (cases "C (k + t)") (auto simp: k_def)
    have nP: "\<not> P (k + t)"
      using fl Ckt npv [of "k + t"] kt(3,6) by (auto simp: flags_ok_def k_def)
    have fl': "flags_ok ?P ?B ?C" using fl pvk by (auto simp: flags_ok_def)
    have tk: "j + t' \<noteq> k" if "C j = Some (s', t')" for j s' t'
      using f(5) [OF that] chunkD(5) [OF shape_chunks [OF sh] that] kt(6) by (auto simp: k_def)
    have "headers w (heap_addr h) ?B ?C {k} ?P"
      unfolding headers_def
    proof (intro conjI allI impI)
      fix a n g assume a: "?B a = Some (n, g)"
      show "block_header w (heap_addr h) a n g (a \<in> {k}) (?P a)"
      proof (cases "a = k")
        case True
        have "s + r - 24 \<noteq> s + 64 + 8" using r(2) by arith
        then have "w (k + 8) = 0" by (simp add: w_def k_def)
        then show ?thesis using True a by (simp add: block_header_def)
      next
        case False
        then have a': "B a = Some (n, g)" using a by simp
        have "w x = wd h x" if "a \<le> x" "x < a + n" for x
          using zone [OF a'] that by (intro fr) auto
        then have "w (a + 8) = wd h (a + 8)" "w (a + n - 8) = wd h (a + n - 8)" "w a = wd h a"
          using shapeD(3) [OF sh a'] by auto
        then show ?thesis using headersD(1) [OF hd a'] False by (simp add: block_header_def)
      qed
    next
      fix j s' t' assume j: "?C j = Some (s', t')"
      show "chunk_header w j s' t' (?P (j + t'))"
      proof (cases "j = k")
        case True
        have "w (s + 56) = MEDIUM_CHUNK_PRE_HEADER + t" "w (s + 48) = s" "w s = STBM_SYSTEM_ALLOC_MEDIUM"
          "w (s + r - 24) = BLOCK_MASK"
          using r by (auto simp: w_def t_def)
        moreover have "k - 8 = s + 56" "k - 16 = s + 48" "k + t + 8 = s + r - 24" using kt(6) by (auto simp: k_def)
        ultimately show ?thesis using True j nP by (auto simp: chunk_header_def)
      next
        case False
        then have j': "C j = Some (s', t')" using j by simp
        have "w x = wd h x" if "s' \<le> x" "x < j + t' + 16" for x
          using f(5) [OF j'] that by (intro fr) auto
        then have "w (j - 8) = wd h (j - 8)" "w (j - 16) = wd h (j - 16)" "w s' = wd h s'" "w (j + t' + 8) = wd h (j + t' + 8)"
          using chunkD(5) [OF shape_chunks [OF sh] j'] by auto
        then show ?thesis using headersD(2) [OF hd j'] tk [OF j'] by (simp add: chunk_header_def)
      qed
    qed
    moreover have "free_of ?B {k} = free_of B {}"
      using Bk by (intro ext) (auto simp: free_of_def split: option.splits bool.splits)
    moreover have "lists_ok h2 (free_of B {})"
    proof (rule lists_ok_cong [OF ls])
      fix y assume "y \<in> dom (free_of B {})"
      then obtain n where n: "B y = Some (n, True)" by (auto simp: free_of_dom)
      then show "wd h2 y = wd h y \<and> wd h2 (y + 16) = wd h (y + 16)"
        using zone [OF n] shapeD(3) [OF sh n] fr [of y] fr [of "y + 16"] by (auto simp: h2_def)
    qed (simp_all add: h2_def h1)
    moreover have "coalesced ?B {k}"
    proof -
      have "B (a + n) \<noteq> Some (m, True) \<and> a + n \<noteq> k" if "B a = Some (n, True)" for a n m
        using that co zone [OF that] kt(3,6) by (auto simp: coalesced_def k_def)
      then show ?thesis using Bk by (auto simp: coalesced_def)
    qed
    moreover have "config_ok h2" using h1(9) by (simp add: h2_def config_ok_def)
    moreover have "systems_ok (system_allocs h2) ?C" using sy f(4) by (auto simp: systems_ok_def h2_def)
    ultimately have "heap_state h2 ?B ?C {k} ?P"
      using sh2 by (simp add: heap_state_def h2_def h1)
    moreover have "B (k + t) = None"
      using zone [of "k + t"] kt(3,6) shapeD(3) [OF sh, of "k + t"] by (cases "B (k + t)") (fastforce simp: k_def)+
    moreover have "keeps_data ?C (used B) h h2"
    proof (rule keeps_dataI)
      fix x assume x: "users ?C (used B) x"
      have "?B k = Some (t, True)" "used B \<subseteq>\<^sub>m used ?B" "used B k = None"
        using Bk by (auto simp: map_le_def used_def)
      then have "x < k \<or> k + t + 16 \<le> x" using users_apart [OF sh2 _ x] by blast
      moreover have "\<not> (s \<le> x \<and> x < k)"
        using x kt(3,6) r(2) by (auto simp: users_def used_Some k_def t_def dest!: zone split: if_splits)
      ultimately have "x \<notin> {s, s + 24, s + 32, s + 40, s + 48, s + 56, s + 72, s + r - 24}"
        using kt(3,6) by (auto simp: k_def t_def)
      then show "wd h2 x = wd h x" by (simp add: h2_def w_def)
    qed
    ultimately show ?thesis
      using new [OF eq Bk Ck kt(4)] fl' h1 h1o sf False f(1) r(2) by (simp add: h2_def k_def t_def other_fields_def)
  qed
qed


section \<open>Splitting a block\<close>

lemma split_block_state:
  assumes ok: "heap_state h B C {a} P" and fl: "flags_ok P B C" and a: "B a = Some (n, True)" "\<forall>m. B (a + n) \<noteq> Some (m, True)"
    and e: "e mod 16 = 0" "32 \<le> e" "e \<le> n"
  obtains n' h' B' where "split_block a n e h = Inr (n', h')" "heap_state h' B' C {a} P" "flags_ok P B' C"
    "B' a = Some (n', True)" "n' = e \<or> n' = e + 16" "used B' = used B" "list_frame h h'"
    "keeps_data C (used B) h h'"
proof -
  have sh: "shape B C" and hd: "headers (wd h) (heap_addr h) B C {a} P" and ls: "lists_ok h (free_of B {a})"
    and co: "coalesced B {a}" and cf: "config_ok h" and sy: "systems_ok (system_allocs h) C"
    using ok by (auto simp: heap_state_def)
  have n: "a mod 16 = 0" "n mod 16 = 0" "32 \<le> n" "a + n + 16 \<le> 2 ^ 62"
    using shapeD [OF sh a(1)] block_bound(2) [OF sh a(1)] by auto
  have mf: "minimum_freeblock_size h = 32" "minimum_alignment h = 16" using cf by (simp_all add: config_ok_def)
  show ?thesis
  proof (cases "e + 32 \<le> n")
    case False
    obtain u v where uv: "n = 16 * u" "e = 16 * v" using size_fits n(2) e(1) by blast
    then have "u < v + 2" "v \<le> u" using False e(3) by simp_all
    then have "u = v \<or> u = v + 1" by arith
    then have "n = e \<or> n = e + 16" using uv by auto
    then show ?thesis
      using that [of n h B] False ok fl a(1) keeps_data_refl [of h h] by (simp add: split_block_def mf)
  next
    case True
    define B' where "B' = B(a \<mapsto> (e, True), a + e \<mapsto> (n - e, True))"
    have sh': "shape B' C" unfolding B'_def by (rule shape_split [OF sh a(1) e(1,2) True])
    have na: "B (a + e) = None"
    proof (cases "B (a + e)")
      case (Some mg)
      then show ?thesis using blocks_apart [OF sh a(1), of "a + e"] e True by (cases mg) auto
    qed
    have "used B' = used B" using a(1) na e(2) by (intro ext) (auto simp: used_def B'_def)
    then have pv: "pv B' = pv B" by (intro ext) (simp add: pv_used)
    have "C (a + e) = None" by (rule chunk_block [OF sh na])
    then have "P (a + e) = pv B (a + e)" using fl by (simp add: flags_ok_def)
    moreover have "\<not> pv B (a + e)"
    proof
      assume "pv B (a + e)"
      then obtain b m where b: "B b = Some (m, False)" "b + m = a + e" by (auto simp: pv_def)
      then show False
        using blocks_apart [OF sh a(1) b(1)] blocks_apart [OF sh b(1) a(1)] a(1) e True shapeD(3) [OF sh b(1)]
        by (cases a b rule: linorder_cases) auto
    qed
    ultimately have npv: "\<not> P (a + e)" by simp
    have fl': "flags_ok P B' C" using fl pv by (simp add: flags_ok_def)
    define h1 where "h1 = st_word (a + e + 8) 0 h"
    have w1: "wd h1 x = (if x = a + e + 8 then 0 else wd h x)" for x by (simp add: h1_def st_word_def)
    have "a + e + 16 < 2 ^ 63" "(a + e + 16) mod 16 = 0"
      using n True e(1) by (auto simp: mod_eq_0_iff_dvd)
    then have al: "align_address (a + e + 16) 16 0 = Inr (a + e + 16)"
      using align_address_16 [of "a + e + 16" 0] by simp
    have inside: "a + e + 8 \<in> {a..<a + n}" using True e by simp
    have w1_block: "wd h1 (b + 8) = wd h (b + 8)" "f \<Longrightarrow> wd h1 (b + m - 8) = wd h (b + m - 8)" "\<not> f \<Longrightarrow> wd h1 b = wd h b"
      if b: "B b = Some (m, f)" "b \<noteq> a" for b m f
    proof -
      have out: "x \<noteq> a + e + 8" if "b \<le> x" "x < b + m" for x
        using that b blocks_apart [OF sh b(1) a(1)] blocks_apart [OF sh a(1) b(1)] inside
        by (cases a b rule: linorder_cases) auto
      have m: "32 \<le> m" using shapeD(3) [OF sh b(1)] .
      have "b + 8 \<noteq> a + e + 8" "b + m - 8 \<noteq> a + e + 8" "b \<noteq> a + e + 8"
        using out [of "b + 8"] out [of "b + m - 8"] out [of b] m by auto
      then show "wd h1 (b + 8) = wd h (b + 8)" "f \<Longrightarrow> wd h1 (b + m - 8) = wd h (b + m - 8)" "\<not> f \<Longrightarrow> wd h1 b = wd h b"
        using w1 by auto
    qed
    have "headers (wd h1) (heap_addr h) B' C {a, a + e} P"
      unfolding headers_def
    proof (intro conjI allI impI)
      fix b m f assume b: "B' b = Some (m, f)"
      consider "b = a + e" "f" | "b = a" "f" "b \<noteq> a + e" | "b \<noteq> a" "b \<noteq> a + e" "B b = Some (m, f)"
        using b by (auto simp: B'_def split: if_splits)
      then show "block_header (wd h1) (heap_addr h) b m f (b \<in> {a, a + e}) (P b)"
      proof cases
        case 1
        then show ?thesis using w1 npv by (simp add: block_header_def)
      next
        case 2
        have "wd h1 (a + 8) = wd h (a + 8)" using w1 e(2) by simp
        then show ?thesis using 2 headersD(1) [OF hd a(1)] by (simp add: block_header_def)
      next
        case 3
        then show ?thesis using headersD(1) [OF hd 3(3)] w1_block [OF 3(3,1)] by (simp add: block_header_def)
      qed
    next
      fix k s t assume k: "C k = Some (s, t)"
      have out: "x \<noteq> a + e + 8" if "s \<le> x" "x < k \<or> k + t \<le> x" "x < k + t + 16" for x
        using that block_zone [OF sh a(1) k] inside by auto
      then have "wd h1 (k - 8) = wd h (k - 8)" "wd h1 (k - 16) = wd h (k - 16)" "wd h1 s = wd h s" "wd h1 (k + t + 8) = wd h (k + t + 8)"
        using w1 chunkD(5) [OF shape_chunks [OF sh] k] out [of "k - 8"] out [of "k - 16"] out [of s] out [of "k + t + 8"]
        by auto
      then show "chunk_header (wd h1) k s t (P (k + t))" using headersD(2) [OF hd k] by (simp add: chunk_header_def)
    qed
    moreover have "free_of B' {a, a + e} = free_of B {a}"
      using a(1) na by (intro ext) (auto simp: free_of_def B'_def split: option.splits bool.splits)
    moreover have "lists_ok h1 (free_of B {a})"
    proof (rule lists_ok_cong [OF ls])
      fix y assume "y \<in> dom (free_of B {a})"
      then obtain m where m: "B y = Some (m, True)" by (auto simp: free_of_dom)
      have "y mod 16 = 0" "(y + 16) mod 16 = 0" "(a + e + 8) mod 16 = 8"
        using shapeD(1) [OF sh m] words_8(1) [of "a + e"] n(1) e(1,2) words_8(1) by (auto simp: mod_eq_0_iff_dvd)
      then have "y \<noteq> a + e + 8" "y + 16 \<noteq> a + e + 8" by (metis zero_neq_numeral)+
      then show "wd h1 y = wd h y \<and> wd h1 (y + 16) = wd h (y + 16)" using w1 by simp
    qed (simp_all add: h1_def st_word_def)
    moreover have "coalesced B' {a, a + e}"
    proof -
      have "b + m \<noteq> a \<and> b + m \<noteq> a + e \<and> (\<forall>l. B (b + m) \<noteq> Some (l, True))" if b: "B b = Some (m, True)" "b \<noteq> a" for b m
      proof -
        have nf: "B (b + m) \<noteq> Some (l, True)" for l using co b by (auto simp: coalesced_def)
        have "b + m \<noteq> a + e"
          using b blocks_apart [OF sh a(1) b(1)] blocks_apart [OF sh b(1) a(1)] e True shapeD(3) [OF sh b(1)]
          by (cases a b rule: linorder_cases) auto
        then show ?thesis using nf a(1) by auto
      qed
      then show ?thesis by (auto simp: coalesced_def B'_def)
    qed
    ultimately have ok1: "heap_state h1 B' C {a, a + e} P"
      using sh' cf sy by (simp add: heap_state_def h1_def st_word_def config_ok_def)
    have B'e: "B' (a + e) = Some (n - e, True)" "\<And>m. B' (a + e + (n - e)) \<noteq> Some (m, True)"
      using a(2) e True by (auto simp: B'_def)
    obtain h' where h': "medium_link (a + e) (n - e) h1 = Inr h'" "heap_state h' B' C ({a, a + e} - {a + e}) P"
      "list_frame h1 h'" "keeps_data C (used B') h1 h'"
      by (rule medium_link_state [OF ok1 B'e(1) _ B'e(2)]) auto
    have "{a, a + e} - {a + e} = {a}" using e(2) by auto
    moreover have "split_block a n e h = Inr (e, h')"
      using True al e h'(1) by (simp add: split_block_def mf h1_def)
    moreover have "list_frame h h'" using h'(3) by (simp add: list_frame_def h1_def st_word_def)
    moreover have "B' a = Some (e, True)" using e(2) by (simp add: B'_def)
    moreover have "keeps_data C (used B) h h'"
    proof (rule keeps_data_trans)
      show "keeps_data C (used B) h h1"
      proof (rule keeps_dataI)
        fix x assume "users C (used B) x"
        from users_apart [OF sh a(1) this _ used_not [where B = B, OF a(1)]] show "wd h1 x = wd h x" using w1 inside by auto
      qed
      show "keeps_data C (used B) h1 h'" using h'(4) \<open>used B' = used B\<close> by simp
    qed
    ultimately show ?thesis using that [of e h' B'] h'(2) fl' \<open>used B' = used B\<close> by simp
  qed
qed


section \<open>Allocating\<close>

lemma used_upd_alloc: "used (B(a \<mapsto> (n, False))) = (used B)(a \<mapsto> n)"
  by (intro ext) (auto simp: used_def)

lemma pv_upd_alloc:
  assumes "B a = Some (n, True)"
  shows "pv (B(a \<mapsto> (n, False))) x \<longleftrightarrow> pv B x \<or> x = a + n"
proof -
  have "(B(a \<mapsto> (n, False))) b = Some (m, False) \<longleftrightarrow> B b = Some (m, False) \<or> b = a \<and> m = n" for b m
    using assms by auto
  then show ?thesis unfolding pv_def by blast
qed

lemma alloc_header_set:
  assumes "alloc_header False n v"
  shows "alloc_header True n (v OR PREVIOUS_MASK)"
proof -
  obtain i s e where "i < 13" "s < 32" "n = class_size (i * 32 + s) + (if e then 16 else 0)" "v = alloc_prefix False i s e"
    using assms unfolding alloc_header_def by blast
  then show ?thesis unfolding alloc_header_def using alloc_prefix_bits(6) by blast
qed

lemma flag_free_not: "shape B C \<Longrightarrow> B a = Some (n, True) \<Longrightarrow> \<not> pv B (a + n)"
  using block_before_unique by (fastforce simp: pv_def)

text \<open>The word after the prefix of the next block.\<close>

lemma after_block:
  assumes "shape B C" "B a = Some (n, f)" "B b = Some (m, g)" "b \<le> a + n + 8" "a + n + 8 < b + m" "b \<noteq> a"
  shows "b = a + n"
proof -
  have "32 \<le> m" "32 \<le> n" using shapeD(3) [OF assms(1)] assms(2,3) by auto
  have ab: "a < b" using blocks_apart [OF assms(1,3,2)] assms(5,6) by (cases a b rule: linorder_cases) auto
  show ?thesis
  proof (cases "B (a + n)")
    case (Some lk)
    then obtain l k where l: "B (a + n) = Some (l, k)" by (cases lk) auto
    then show ?thesis
      using blocks_apart [OF assms(1) l assms(3)] blocks_apart [OF assms(1,3) l] assms(4,5) shapeD(3) [OF assms(1) l]
        blocks_apart [OF assms(1-3) ab] by (cases "a + n" b rule: linorder_cases) auto
  next
    case None
    then obtain k s t where k: "C k = Some (s, t)" "a + n = k + t"
      using shapeD(5) [OF assms(1,2)] by (auto simp: tail_at_def)
    then show ?thesis
      using block_zone [OF assms(1,3) k(1)] assms(4,5) chunkD(5) [OF shape_chunks [OF assms(1)] k(1)]
        blocks_apart [OF assms(1-3) ab] ab \<open>32 \<le> m\<close> by auto
  qed
qed

text \<open>The words before a chunk are not those after a block.\<close>

lemma chunk_after:
  assumes "shape B C" "B a = Some (n, f)" "C k = Some (s, t)"
  shows "a + n + 8 \<noteq> k - 8" "a + n + 8 \<noteq> k - 16" "a + n + 8 \<noteq> s"
proof -
  have k: "s + 64 \<le> k" "k + t + 16 \<le> 2 ^ 62" using chunkD [OF shape_chunks [OF assms(1)] assms(3)] by auto
  obtain k' s' t' where k': "C k' = Some (s', t')" "k' \<le> a" "a + n \<le> k' + t'"
    using shapeD(4) [OF assms(1,2)] by (auto simp: in_chunk_def)
  have "k \<noteq> k' \<Longrightarrow> k' + t' + 16 \<le> s \<or> k + t + 16 \<le> s'"
    using chunkD(8) [OF shape_chunks [OF assms(1)] k'(1) assms(3)] chunkD(8) [OF shape_chunks [OF assms(1)] assms(3) k'(1)]
    by (cases k k' rule: linorder_cases) auto
  moreover have "s' + 64 \<le> k'" using chunkD(5) [OF shape_chunks [OF assms(1)] k'(1)] .
  ultimately show "a + n + 8 \<noteq> k - 8" "a + n + 8 \<noteq> k - 16" "a + n + 8 \<noteq> s"
    using k k' by (cases "k = k'"; auto)+
qed

lemma end_not_chunk:
  assumes "shape B C" "B a = Some (n, f)"
  shows "C (a + n) = None"
proof (cases "C (a + n)")
  case (Some st)
  then obtain s t where st: "C (a + n) = Some (s, t)" by (cases st) auto
  then show ?thesis
    using block_zone [OF assms st] shapeD(3) [OF assms] chunkD(5) [OF shape_chunks [OF assms(1)] st] by auto
qed

lemma make_allocated_state:
  assumes ok: "heap_state h B C {a} P" and flg: "flags_ok P B C" and a: "B a = Some (n, True)"
    and i: "i < 13" "s < 32" "n = class_size (i * 32 + s) \<or> n = class_size (i * 32 + s) + 16"
    and cnt: "cur_outstanding_allocations_count h + 1 < 2 ^ 32" "cur_outstanding_allocations_bytes h + n < 2 ^ 64"
  obtains h' where "make_allocated a n i s h = Inr (a + 16, h')" "heap_state h' (B(a \<mapsto> (n, False))) C {} (P(a + n := True))"
    "flags_ok (P(a + n := True)) (B(a \<mapsto> (n, False))) C"
    "cur_outstanding_allocations_count h' = cur_outstanding_allocations_count h + 1"
    "cur_outstanding_allocations_bytes h' = cur_outstanding_allocations_bytes h + (n - 16)"
    "sys_freed h' = sys_freed h" "sys_calls h' = sys_calls h" "other_fields h' = other_fields h" "system_allocs h' = system_allocs h" "keeps_data C (used B) h h'"
proof -
  have sh: "shape B C" and hd: "headers (wd h) (heap_addr h) B C {a} P" and ls: "lists_ok h (free_of B {a})"
    and co: "coalesced B {a}" and cf: "config_ok h" and sy: "systems_ok (system_allocs h) C"
    using ok by (auto simp: heap_state_def)
  have n: "a mod 16 = 0" "n mod 16 = 0" "32 \<le> n"
    using shapeD [OF sh a] by auto
  let ?B = "B(a \<mapsto> (n, False))"
  let ?p = "wd h (a + 8)"
  have pm: "?p mod 32 = flag (P a)" using headersD(1) [OF hd a] by (simp add: block_header_def)
  then have "?p div 8 mod 2 = (if P a then 1 else 0)"
  proof -
    have "?p div 8 mod 4 = (?p mod 32) div 8"
      using mod_mult2_eq [of ?p 8 4] by simp
    then show ?thesis using pm mod_mod_cancel [of 2 4 "?p div 8"] by (auto split: if_splits)
  qed
  then have fl: "?p AND PREVIOUS_MASK = flag (P a)"
    using and_exp_nat [of ?p 3] by (auto simp: PREVIOUS_MASK_def odd_iff_mod_2_eq_one split: if_splits)
  have C0: "C (a + n) = None" by (rule end_not_chunk [OF sh a])
  then have npv: "\<not> P (a + n)" using flag_free_not [OF sh a] flg by (simp add: flags_ok_def)
  let ?P = "P(a + n := True)"
  have first: "P a \<or> MEDIUM_CHUNK_PRE_HEADER \<le> wd h (a - 8)"
  proof -
    show ?thesis
    proof (cases "C a = None")
      case False
      then obtain u t where "C a = Some (u, t)" by auto
      from headersD(2) [OF hd this] show ?thesis by (simp add: chunk_header_def)
    next
      case True
      then obtain b m g where b: "B b = Some (m, g)" "b + m = a" using shapeD(6) [OF sh a] by blast
      have "b \<noteq> a" using b shapeD(3) [OF sh b(1)] by auto
      then have "\<not> g" using co a b by (cases g) (auto simp: coalesced_def)
      then have "pv B a" using b by (auto simp: pv_def)
      then show ?thesis using flg True by (simp add: flags_ok_def)
    qed
  qed
  define e where "e = (n = class_size (i * 32 + s) + 16)"
  define pre where "pre = alloc_prefix (P a) i s e"
  define w where "w = (wd h)(a := heap_addr h, a + 8 := pre, a + n + 8 := wd h (a + n + 8) OR PREVIOUS_MASK)"
  define h' where "h' = (stats_update_alloc (n - 16) h)\<lparr>wd := w\<rparr>"
  have st: "wd (stats_update_alloc b h) = wd h" "heap_addr (stats_update_alloc b h) = heap_addr h" for b
    by (auto simp: stats_update_alloc_def Let_def)
  have eq: "make_allocated a n i s h = Inr (a + 16, h')"
  proof -
    have "PREVIOUS_MASK = 8" "a + n + 8 \<noteq> a + 8" "a + n + 8 \<noteq> a" using n(3) by (simp_all add: PREVIOUS_MASK_def)
    then show ?thesis
      using i first fl SIZE_SETDATA_alloc [of "P a" i s e]
      by (auto simp: make_allocated_def Let_def size_for_index_slot_class EXTRA_SIZE_def STBM_MEDIUM_SMALLEST_BLOCK_def
        st st_word_def h'_def w_def pre_def e_def)
  qed
  have hf: "free_lists h' = free_lists h" "bitmap h' = bitmap h" "toplevel_bitmap h' = toplevel_bitmap h"
    "heap_addr h' = heap_addr h" "system_allocs h' = system_allocs h" "config_ok h'" "wd h' = w"
    "sys_freed h' = sys_freed h" "sys_calls h' = sys_calls h"
    using cf by (auto simp: h'_def stats_update_alloc_def Let_def config_ok_def)
  have ho: "other_fields h' = other_fields h" by (simp add: h'_def stats_update_alloc_def Let_def other_fields_def)
  have cnt': "cur_outstanding_allocations_count h' = cur_outstanding_allocations_count h + 1"
    "cur_outstanding_allocations_bytes h' = cur_outstanding_allocations_bytes h + (n - 16)"
    using cnt n(3) by (auto simp: h'_def stats_update_alloc_def Let_def)
  have w: "w x = wd h x" if "x \<noteq> a" "x \<noteq> a + 8" "x \<noteq> a + n + 8" for x using that by (simp add: w_def)
  have wn: "w (a + n + 8) = wd h (a + n + 8) OR PREVIOUS_MASK" using n(3) by (simp add: w_def)
  have fl': "flags_ok ?P ?B C" using flg pv_upd_alloc [where B = B, OF a] by (simp add: flags_ok_def)
  have "headers w (heap_addr h) ?B C {} ?P"
    unfolding headers_def
  proof (intro conjI allI impI)
    fix b m f assume b: "?B b = Some (m, f)"
    show "block_header w (heap_addr h) b m f (b \<in> {}) (?P b)"
    proof (cases "b = a")
      case True
      have "alloc_header (P a) n pre" unfolding alloc_header_def
        by (rule exI [of _ i], rule exI [of _ s], rule exI [of _ e]) (use i in \<open>auto simp: pre_def e_def\<close>)
      then show ?thesis using True b n(3) by (simp add: block_header_def w_def)
    next
      case False
      then have b': "B b = Some (m, f)" using b by simp
      have m: "32 \<le> m" using shapeD(3) [OF sh b'] .
      have hb: "block_header (wd h) (heap_addr h) b m f False (P b)"
        using headersD(1) [OF hd b'] False by simp
      have out: "x \<noteq> a \<and> x \<noteq> a + 8 \<and> (x = a + n + 8 \<longrightarrow> b = a + n \<and> x = b + 8)" if "b \<le> x" "x < b + m" for x
        using after_block [OF sh a b'] that n(3) blocks_apart [OF sh a b'] blocks_apart [OF sh b' a] False
        by (cases a b rule: linorder_cases) auto
      show ?thesis
      proof (cases "b = a + n")
        case True
        have "w (b + 8) = wd h (b + 8) OR PREVIOUS_MASK" using wn True by simp
        moreover have "w (b + m - 8) = wd h (b + m - 8)" "w b = wd h b"
          using w out [of "b + m - 8"] out [of b] True m by auto
        ultimately show ?thesis
          using hb npv True free_prefix_flag(2) [OF shapeD(2) [OF sh b']] alloc_header_set
          by (auto simp: block_header_def split: if_splits)
      next
        case ne: False
        have "w (b + 8) = wd h (b + 8)" "w (b + m - 8) = wd h (b + m - 8)" "w b = wd h b"
          using w out [of "b + m - 8"] out [of b] out [of "b + 8"] ne m by auto
        then show ?thesis using hb ne by (simp add: block_header_def)
      qed
    qed
  next
    fix k u t assume k: "C k = Some (u, t)"
    have hk: "chunk_header (wd h) k u t (P (k + t))" by (rule headersD(2) [OF hd k])
    have z: "a + n \<le> u \<or> k + t + 16 \<le> a \<or> k \<le> a \<and> a + n \<le> k + t" by (rule block_zone [OF sh a k])
    have uk: "u + 64 \<le> k" using chunkD(5) [OF shape_chunks [OF sh] k] .
    have "w (k - 8) = wd h (k - 8)" "w (k - 16) = wd h (k - 16)" "w u = wd h u"
      by (intro w; use z uk n(3) chunk_after [OF sh a k] in auto)+
    moreover have "w (k + t + 8) = BLOCK_MASK + flag (?P (k + t))"
    proof (cases "k + t = a + n")
      case True
      have "w (k + t + 8) = BLOCK_MASK OR PREVIOUS_MASK" using wn hk npv True by (simp add: chunk_header_def)
      then show ?thesis using True by (simp add: BLOCK_MASK_def PREVIOUS_MASK_def)
    next
      case False
      have "w (k + t + 8) = wd h (k + t + 8)" using z n(3) uk False by (intro w) auto
      then show ?thesis using hk False by (simp add: chunk_header_def)
    qed
    ultimately show "chunk_header w k u t (?P (k + t))" using hk by (simp add: chunk_header_def)
  qed
  moreover have fo: "free_of ?B {} = free_of B {a}"
    using a by (intro ext) (auto simp: free_of_def split: option.splits bool.splits)
  moreover have "lists_ok h' (free_of B {a})"
  proof (rule lists_ok_cong [OF ls])
    fix y assume y: "y \<in> dom (free_of B {a})"
    then obtain m where m: "B y = Some (m, True)" "y \<noteq> a" by (auto simp: free_of_dom)
    have "y mod 16 = 0" "(y + 16) mod 16 = 0" "(a + 8) mod 16 = 8" "(a + n + 8) mod 16 = 8"
      using shapeD(1) [OF sh m(1)] words_8(1) [of a 32] words_8(1) [of "a + n" 32] n by (auto simp: mod_eq_0_iff_dvd)
    then have "y \<noteq> a + 8" "y \<noteq> a + n + 8" "y + 16 \<noteq> a + 8" "y + 16 \<noteq> a + n + 8" by (metis zero_neq_numeral)+
    moreover have "y + 16 \<noteq> a"
      using blocks_apart [OF sh m(1) a] shapeD(3) [OF sh m(1)] by auto
    ultimately show "wd h' y = wd h y \<and> wd h' (y + 16) = wd h (y + 16)" using m(2) w hf(7) by simp
  qed (simp_all add: hf)
  moreover have "coalesced ?B {}" using co by (auto simp: coalesced_def)
  ultimately have "heap_state h' ?B C {} ?P"
    using shape_flag [OF sh a] sy by (simp add: heap_state_def hf)
  moreover have "keeps_data C (used B) h h'"
  proof (rule keeps_dataI)
    fix x assume "users C (used B) x"
    from users_apart [OF sh a this _ used_not [where B = B, OF a]] show "wd h' x = wd h x" using w n(3) hf(7) by auto
  qed
  ultimately show ?thesis using that [OF eq] fl' cnt' hf ho by simp
qed

end
