(* ===== verification/TlsfAlloc.thy ===== *)
theory TlsfAlloc
  imports TlsfOps
begin

text \<open>
  The contract of \<open>stbm__medium_alloc\<close>.
\<close>

unbundle bit_operations_syntax

section \<open>The contract of an allocation\<close>

lemma used_upd_free: "B a = None \<Longrightarrow> used (B(a \<mapsto> (n, True))) = used B"
  by (intro ext) (auto simp: used_def)

lemma round_16:
  fixes n :: nat
  defines "m \<equiv> (n + 16 + 16 - 1) div 16 * 16"
  shows "m mod 16 = 0" "n + 16 \<le> m" "m < n + 32" "0 < n \<Longrightarrow> 32 \<le> m" "n + 16 \<le> 16 * k \<Longrightarrow> m \<le> 16 * k"
proof -
  have m: "m = (n + 31) div 16 * 16" by (simp add: m_def)
  show "m mod 16 = 0" "n + 16 \<le> m" "m < n + 32" "0 < n \<Longrightarrow> 32 \<le> m" unfolding m by presburger+
  assume "n + 16 \<le> 16 * k"
  then have "(n + 31) div 16 \<le> k" by (simp add: div_le_mono [of "n + 31" "16 * k + 15" 16, simplified])
  then show "m \<le> 16 * k" unfolding m by simp
qed

text \<open>What the allocator has got from the system: nothing, or a chunk.\<close>

definition sys_grows :: "system_alloc \<Rightarrow> stbm_heap \<Rightarrow> chunks \<Rightarrow> stbm_heap \<Rightarrow> chunks \<Rightarrow> bool" where
  "sys_grows env h C h' C' \<longleftrightarrow>
     (C' = C \<and> system_allocs h' = system_allocs h \<and> sys_calls h \<le> sys_calls h' \<and> sys_calls h' \<le> Suc (sys_calls h)) \<or>
     (\<exists>s n. env (sys_calls h) (n + 96) = (s, n + 96) \<and> s \<noteq> 0 \<and> C (s + 64) = None \<and> C' = C(s + 64 \<mapsto> (s, n)) \<and>
        system_allocs h' = s # system_allocs h \<and> sys_calls h' = Suc (sys_calls h))"

text \<open>What the allocator finds for a class, and what it then makes of it.\<close>

lemma find_any_state:
  assumes ok: "heap_state h B C {} P" "flags_ok P B C" and env: "system_ok env h C" and i: "i < 13" "s < 32"
    and size0: "size0 \<le> class_size (i * 32 + s)" and e: "class_size (i * 32 + s) mod 16 = 0"
  obtains (null) h' where "find_block env i s size0 h = Inr ((0, 0), h')" "heap_state h' B C {} P" "keeps_data C (used B) h h'"
      "cur_outstanding_allocations_count h' = cur_outstanding_allocations_count h"
      "cur_outstanding_allocations_bytes h' = cur_outstanding_allocations_bytes h" "sys_freed h' = sys_freed h"
      "other_fields h' = other_fields h" "sys_grows env h C h' C" "no_memory env h"
    | (some) a n h' B' C' P' where "find_block env i s size0 h = Inr ((a, n), h')" "a \<noteq> 0" "used B' = used B" "used B a = None"
      "heap_state h' B' C' {a} P'" "flags_ok P' B' C'" "B' a = Some (n, True)" "class_size (i * 32 + s) \<le> n"
      "\<forall>m. B' (a + n) \<noteq> Some (m, True)"
      "cur_outstanding_allocations_count h' = cur_outstanding_allocations_count h"
      "cur_outstanding_allocations_bytes h' = cur_outstanding_allocations_bytes h" "sys_freed h' = sys_freed h"
      "other_fields h' = other_fields h" "keeps_data C' (used B) h h'" "sys_grows env h C h' C'"
  using ok(1) i size0
proof (cases rule: find_block_state [where env = env])
  case (found a n h')
  have "shape B C" using ok(1) by (simp add: heap_state_def)
  then have "a \<noteq> 0" using block_bound(3) found(3) by fastforce
  moreover have "used B a = None" using found(3) by (simp add: used_def)
  ultimately show ?thesis using some [of a n h' B C P] found ok(2) list_frameD [OF found(6)] list_frame_other [OF found(6)]
    by (simp add: sys_grows_def)
next
  case none
  have "class_size (i * 32 + s) \<le> STBM_SIZECLASS_MAX"
    using class_size_le [of "i * 32 + s" 415] i class_size_415 by simp
  from ok e this size0 env show ?thesis
  proof (cases rule: new_chunk_state)
    case (null h')
    then show ?thesis using that(1) none keeps_data_refl by (simp add: sys_grows_def)
  next
    case (new a n k h' P')
    have "used (B(a \<mapsto> (n, True))) = used B" "used B a = None"
      using new(2) by (auto simp: used_upd_free used_def)
    moreover have "n \<noteq> 0"
    proof -
      have "shape (B(a \<mapsto> (n, True))) (C(a \<mapsto> (k, n)))" using new(7) by (simp add: heap_state_def)
      then have "32 \<le> n" by (rule shapeD(3) [where a = a and f = True]) simp
      then show ?thesis by simp
    qed
    moreover have "sys_grows env h C h' (C(a \<mapsto> (k, n)))" unfolding sys_grows_def using new by blast
    ultimately show ?thesis using some [OF _ new(5) _ _ new(7,8)] new none by simp
  qed
qed

text \<open>
  The contract of the allocator: NULL, if the system has no memory, and nothing has changed; or a block
  that was not in use, which is large enough, and which is now in use.
\<close>

lemma medium_alloc_state:
  assumes ok: "heap_state h B C {} P" "flags_ok P B C" and env: "system_ok env h C" and size0: "0 < size0" "size0 + 16 \<le> STBM_SIZECLASS_MAX"
    and cnt: "cur_outstanding_allocations_count h + 1 < 2 ^ 32" "cur_outstanding_allocations_bytes h + 2 ^ 20 < 2 ^ 64"
  obtains (null) h' where "medium_alloc env size0 h = Inr (0, h')" "heap_state h' B C {} P" "keeps_data C (used B) h h'"
      "cur_outstanding_allocations_count h' = cur_outstanding_allocations_count h"
      "cur_outstanding_allocations_bytes h' = cur_outstanding_allocations_bytes h" "sys_freed h' = sys_freed h"
      "other_fields h' = other_fields h" "sys_grows env h C h' C" "no_memory env h"
    | (block) a n h' B' C' P' where "medium_alloc env size0 h = Inr (a + 16, h')" "a \<noteq> 0" "used B a = None"
      "used B' = (used B)(a \<mapsto> n)" "size0 + 16 \<le> n" "heap_state h' B' C' {} P'" "flags_ok P' B' C'"
      "cur_outstanding_allocations_count h' = cur_outstanding_allocations_count h + 1"
      "cur_outstanding_allocations_bytes h' = cur_outstanding_allocations_bytes h + (n - 16)"
      "sys_freed h' = sys_freed h" "other_fields h' = other_fields h" "keeps_data C' (used B) h h'" "sys_grows env h C h' C'"
proof -
  have ma: "minimum_alignment h = 16" using ok(1) by (simp add: heap_state_def config_ok_def)
  define z where "z = (size0 + 16 + 16 - 1) div 16 * 16"
  note z = round_16 [of size0, folded z_def]
  have "z \<le> STBM_SIZECLASS_MAX" using z(5) [of "STBM_SIZECLASS_MAX div 16"] size0(2) by (simp add: STBM_SIZECLASS_MAX_def)
  obtain i s where r: "index_slot_for_request z = Inr (i, s)" "i < 13" "s < 32" "z \<le> class_size (i * 32 + s)"
    using index_slot_for_request_class [OF \<open>z \<le> STBM_SIZECLASS_MAX\<close>] by metis
  define e where "e = class_size (i * 32 + s)"
  have e: "e mod 16 = 0" "32 \<le> e" "e \<le> STBM_SIZECLASS_MAX"
    using index_slot_for_request_16 [OF r(1) \<open>z \<le> STBM_SIZECLASS_MAX\<close> z(1)] r z(4) size0(1)
      class_size_le [of "i * 32 + s" 415] class_size_415 by (simp_all add: e_def)
  have sz: "size_for_index_slot i s = e" using size_for_index_slot_class r(2,3) by (simp add: e_def)
  have ea: "e AND 15 = 0" using take_bit_eq_mask [of 4 e] e(1) by (simp add: mask_eq_exp_minus_1 take_bit_eq_mod)
  have "medium_alloc env size0 h = res_bind (find_block env i s z h) (\<lambda>((block, freesize), h).
      if block = 0 then Inr (0, h)
      else stbm_assert (z \<le> freesize \<and> size_for_index_slot i s \<le> freesize)
        (res_bind (split_block block freesize (size_for_index_slot i s) h) (\<lambda>(freesize, h). make_allocated block freesize i s h)))"
    using r(1,2) r(4) [folded e_def] e ea sz unfolding medium_alloc_def Let_def ma z_def [symmetric]
    by (simp add: EXTRA_SIZE_def STBM_MEDIUM_SMALLEST_BLOCK_def STBM_NUM_INDICES_def)
  note run = this [unfolded sz]
  from ok env r(2-4) e(1) [unfolded e_def] show ?thesis
  proof (cases rule: find_any_state)
    case (null h')
    then show ?thesis using that(1) [of h'] run by simp
  next
    case (some a n h1 B1 C1 P1)
    obtain n' h2 B2 where s2: "split_block a n e h1 = Inr (n', h2)" "heap_state h2 B2 C1 {a} P1" "flags_ok P1 B2 C1"
      "B2 a = Some (n', True)" "n' = e \<or> n' = e + 16" "used B2 = used B1" "list_frame h1 h2"
      "keeps_data C1 (used B1) h1 h2"
      by (rule split_block_state [OF some(5,6,7,9) e(1,2) some(8) [folded e_def]])
    have "n' \<le> 2 ^ 20" using s2(5) e(3) by (auto simp: STBM_SIZECLASS_MAX_def)
    then have cnt2: "cur_outstanding_allocations_count h2 + 1 < 2 ^ 32" "cur_outstanding_allocations_bytes h2 + n' < 2 ^ 64"
      using cnt some(10,11) list_frameD(7,8) [OF s2(7)] by simp_all
    obtain h3 where h3: "make_allocated a n' i s h2 = Inr (a + 16, h3)" "heap_state h3 (B2(a \<mapsto> (n', False))) C1 {} (P1(a + n' := True))"
      "flags_ok (P1(a + n' := True)) (B2(a \<mapsto> (n', False))) C1"
      "cur_outstanding_allocations_count h3 = cur_outstanding_allocations_count h2 + 1"
      "cur_outstanding_allocations_bytes h3 = cur_outstanding_allocations_bytes h2 + (n' - 16)"
      "sys_freed h3 = sys_freed h2" "sys_calls h3 = sys_calls h2" "other_fields h3 = other_fields h2" "system_allocs h3 = system_allocs h2" "keeps_data C1 (used B2) h2 h3"
      by (rule make_allocated_state [OF s2(2-4) r(2,3) s2(5) [unfolded e_def] cnt2])
    have "medium_alloc env size0 h = Inr (a + 16, h3)"
      using run some(1,2,8) r(4) s2(1) h3(1) by (simp add: e_def)
    moreover have "used (B2(a \<mapsto> (n', False))) = (used B)(a \<mapsto> n')"
      by (simp only: used_upd_alloc s2(6) some(3))
    moreover have "size0 + 16 \<le> n'" using z(2) r(4) s2(5) by (auto simp: e_def)
    moreover have "keeps_data C1 (used B) h h3"
      using keeps_data_trans [OF some(14)] keeps_data_trans [OF s2(8)] h3(10) some(3) s2(6) by metis
    moreover have "sys_grows env h C h3 C1"
      using some(15) h3(7,9) list_frameD(3,9) [OF s2(7)] by (auto simp: sys_grows_def)
    ultimately show ?thesis
      using that(2) [OF _ some(2,4) _ _ h3(2,3)] h3 list_frameD(7,8,10) [OF s2(7)] list_frame_other [OF s2(7)] some(10-13)
      by simp
  qed
qed

end
