(* ===== verification/TlsfFree.thy ===== *)
theory TlsfFree
  imports TlsfOps
begin

text \<open>
  The contract of \<open>stbm__medium_free\<close>: neighbours that are free are merged, an empty chunk goes back to the
  system.
\<close>

unbundle bit_operations_syntax

section \<open>Freeing\<close>

lemma used_free: "used (B(a \<mapsto> (n, True))) = (used B)(a := None)"
  by (intro ext) (auto simp: used_def)

lemma used_none: "used (B(a := None)) = (used B)(a := None)"
  by (intro ext) (simp add: used_def)

text \<open>A block that is in use is about to be freed.\<close>

lemma free_start_state:
  assumes ok: "heap_state h B C {} P" and a: "B a = Some (n, False)"
  shows "medium_size (wd h (a + 8)) = n" "TYPE_of (wd h (a + 8)) = TYPE_medium" "wd h a = heap_addr h"
    "heap_state h B C {a} P"
proof -
  have hd: "headers (wd h) (heap_addr h) B C {} P" using ok by (simp add: heap_state_def)
  have hp: "alloc_header (P a) n (wd h (a + 8))" "wd h a = heap_addr h"
    using headersD(1) [OF hd a] by (simp_all add: block_header_def)
  then obtain i s e where e: "i < 13" "s < 32" "n = class_size (i * 32 + s) + (if e then 16 else 0)"
    "wd h (a + 8) = alloc_prefix (P a) i s e" unfolding alloc_header_def by blast
  show "medium_size (wd h (a + 8)) = n" "TYPE_of (wd h (a + 8)) = TYPE_medium" "wd h a = heap_addr h"
    using alloc_prefix_bits(3,4) [OF e(1,2)] e(3,4) hp(2) by simp_all
  have "block_header (wd h) (heap_addr h) b m f (b \<in> {a}) (P b)" if "B b = Some (m, f)" for b m f
    using headersD(1) [OF hd that] that a alloc_prefix_bits(2) [OF e(1,2)] e(4)
    by (cases "b = a") (auto simp: block_header_def)
  then have "headers (wd h) (heap_addr h) B C {a} P" using hd by (simp add: headers_def)
  moreover have "free_of B {a} = free_of B {}"
    using a by (intro ext) (auto simp: free_of_def split: option.splits bool.splits)
  ultimately show "heap_state h B C {a} P" using ok a by (simp add: heap_state_def coalesced_def)
qed

text \<open>Two neighbours that are in no list become one block.\<close>

lemma merge_state:
  assumes ok: "heap_state h B C X P" and a: "B a = Some (n, f)" "B (a + n) = Some (m, g)" "a \<in> X" "a + n \<in> X"
  shows "heap_state h (B(a + n := None, a \<mapsto> (n + m, f))) C (X - {a + n}) P" (is "heap_state h ?B C ?X P")
proof -
  have sh: "shape B C" and hd: "headers (wd h) (heap_addr h) B C X P" and co: "coalesced B X"
    using ok by (auto simp: heap_state_def)
  have n: "0 < n" using shapeD(3) [OF sh a(1)] by simp
  have eB: "?B x = (if x = a then Some (n + m, f) else if x = a + n then None else B x)" for x by simp
  have "block_header (wd h) (heap_addr h) b k i (b \<in> ?X) (P b)" if b: "?B b = Some (k, i)" for b k i
  proof (cases "b = a")
    case True
    then show ?thesis using b a(3) headersD(1) [OF hd a(1)] n by (auto simp: block_header_def)
  next
    case False
    then have "b \<noteq> a + n" "B b = Some (k, i)" using b unfolding eB by (auto split: if_splits)
    then show ?thesis using headersD(1) [OF hd, of b k i] False by (simp add: block_header_def)
  qed
  then have "headers (wd h) (heap_addr h) ?B C ?X P" using hd unfolding headers_def by blast
  moreover have "free_of ?B ?X = free_of B X"
    using a n by (intro ext) (auto simp: free_of_def split: option.splits bool.splits)
  moreover have "coalesced ?B ?X"
  proof -
    have "?B (b + k) \<noteq> Some (l, True)" if b: "?B b = Some (k, True)" "b \<notin> ?X" for b k l
    proof -
      have b': "b \<noteq> a" "B b = Some (k, True)" "b \<notin> X" using b a(3) n unfolding eB by (auto split: if_splits)
      then have "B (b + k) \<noteq> Some (j, True)" for j using co by (simp add: coalesced_def)
      moreover have "b + k = a \<Longrightarrow> \<not> f" using calculation [of n] a(1) by auto
      ultimately show ?thesis unfolding eB by auto
    qed
    then show ?thesis by (simp add: coalesced_def)
  qed
  ultimately show ?thesis
    using ok shape_merge [OF sh a(1,2), of f] by (simp add: heap_state_def)
qed

lemma and_block_mask_tail [simp]: "(BLOCK_MASK + flag p) AND BLOCK_MASK = BLOCK_MASK"
    "(BLOCK_MASK + flag p) AND PREVIOUS_MASK = flag p"
  by (simp_all add: BLOCK_MASK_def PREVIOUS_MASK_def)

text \<open>What follows a block: a free block, or something that is in use and has the flag of the block.\<close>

lemma following_word:
  assumes ok: "heap_state h B C {a} P" and a: "B a = Some (n, f)"
  shows "wd h (a + n + 8) AND PREVIOUS_MASK = flag (P (a + n))"
    "wd h (a + n + 8) AND BLOCK_MASK = 0 \<longleftrightarrow> (\<exists>m. B (a + n) = Some (m, True))"
    "B (a + n) = Some (m, True) \<Longrightarrow> MED_FREE_BYTES (wd h (a + n + 8)) = m"
proof -
  have sh: "shape B C" and hd: "headers (wd h) (heap_addr h) B C {a} P" using ok by (auto simp: heap_state_def)
  have n: "a + n \<noteq> a" using shapeD(3) [OF sh a] by simp
  show "MED_FREE_BYTES (wd h (a + n + 8)) = m" if m: "B (a + n) = Some (m, True)"
    using headersD(1) [OF hd m] n shapeD(2) [OF sh m] block_bound(1) [OF sh m] free_prefix_bits(3) [of m]
    by (simp add: block_header_def)
  consider (tail) k s t where "C k = Some (s, t)" "a + n = k + t" "B (a + n) = None"
    | (used) m where "B (a + n) = Some (m, False)" | (free) m where "B (a + n) = Some (m, True)"
  proof (cases "B (a + n)")
    case None
    then show ?thesis using shapeD(5) [OF sh a] tail by (auto simp: tail_at_def)
  next
    case (Some mg)
    then obtain m g where "B (a + n) = Some (m, g)" by (cases mg) auto
    then show ?thesis using used free by (cases g) auto
  qed
  then have "wd h (a + n + 8) AND PREVIOUS_MASK = flag (P (a + n)) \<and>
    (wd h (a + n + 8) AND BLOCK_MASK = 0 \<longleftrightarrow> (\<exists>m. B (a + n) = Some (m, True)))"
  proof cases
    case tail
    have "wd h (a + n + 8) = BLOCK_MASK + flag (P (a + n))"
      using headersD(2) [OF hd tail(1)] tail(2) by (simp add: chunk_header_def)
    then show ?thesis using tail(3) by (simp only: and_block_mask_tail) (simp add: BLOCK_MASK_def)
  next
    case used
    have "alloc_header (P (a + n)) m (wd h (a + n + 8))"
      using headersD(1) [OF hd used] n by (simp add: block_header_def)
    then obtain i s e where "i < 13" "s < 32" "wd h (a + n + 8) = alloc_prefix (P (a + n)) i s e"
      unfolding alloc_header_def by blast
    then show ?thesis using alloc_prefix_bits(1,2) [of i s] used by (simp add: BLOCK_MASK_def)
  next
    case free
    have "wd h (a + n + 8) = free_prefix (P (a + n)) m (class_of m)"
      using headersD(1) [OF hd free] n by (simp add: block_header_def)
    then show ?thesis
      using free free_prefix_bits(1,2) [of m] shapeD(2) [OF sh free] block_bound(1) [OF sh free] by simp
  qed
  then show "wd h (a + n + 8) AND PREVIOUS_MASK = flag (P (a + n))"
    "wd h (a + n + 8) AND BLOCK_MASK = 0 \<longleftrightarrow> (\<exists>m. B (a + n) = Some (m, True))" by blast+
qed

lemma heap_state_flag:
  assumes ok: "heap_state h B C X P" and x: "B x = None" "\<not> tail_at C x"
  shows "heap_state h B C X (P(x := v))"
proof -
  have hd: "headers (wd h) (heap_addr h) B C X P" using ok by (simp add: heap_state_def)
  have "block_header (wd h) (heap_addr h) b k i (b \<in> X) ((P(x := v)) b)" if "B b = Some (k, i)" for b k i
    using headersD(1) [OF hd that] that x(1) by (cases "b = x") auto
  moreover have "chunk_header (wd h) k s t ((P(x := v)) (k + t))" if "C k = Some (s, t)" for k s t
    using headersD(2) [OF hd that] that x(2) by (auto simp: tail_at_def)
  ultimately have "headers (wd h) (heap_addr h) B C X (P(x := v))" unfolding headers_def by blast
  then show ?thesis using ok by (simp add: heap_state_def)
qed

text \<open>The flags while a block is freed: those after it do not count.\<close>

definition freeing_flags :: "(nat \<Rightarrow> bool) \<Rightarrow> blocks \<Rightarrow> chunks \<Rightarrow> nat \<Rightarrow> nat \<Rightarrow> bool" where
  "freeing_flags P B C a n \<longleftrightarrow> (\<forall>x. C x = None \<longrightarrow> x \<noteq> a + n \<longrightarrow> P x = pv (B(a := None)) x)"

lemma pv_minus:
  assumes "B a = Some (n, f)" "x \<noteq> a + n"
  shows "pv (B(a := None)) x = pv B x"
proof -
  have "(B(a := None)) b = Some (m, False) \<and> b + m = x \<longleftrightarrow> B b = Some (m, False) \<and> b + m = x" for b m
    using assms by auto
  then show ?thesis unfolding pv_def by blast
qed

lemma pv_minus_end:
  assumes "shape B C" "B a = Some (n, f)"
  shows "\<not> pv (B(a := None)) (a + n)"
proof
  assume "pv (B(a := None)) (a + n)"
  then obtain b m where "(B(a := None)) b = Some (m, False)" "a + n = b + m" by (auto simp: pv_def)
  then show False using block_before_unique [OF assms, of b m False] by (auto split: if_splits)
qed

lemma pv_free_upd: "pv (B(a := Some (n, True))) = pv (B(a := None))"
proof -
  have "(B(a \<mapsto> (n, True))) b = Some (m, False) \<longleftrightarrow> (B(a := None)) b = Some (m, False)" for b m by auto
  then show ?thesis unfolding pv_def by (intro ext) blast
qed

lemma merge_following_state:
  assumes ok: "heap_state h B C {a} P" and fl: "flags_ok P B C" and a: "B a = Some (n, False)"
  obtains n' h' B' P' where "merge_following a n h = Inr (n', h')" "heap_state h' B' C {a} P'" "B' a = Some (n', False)"
    "list_frame h h'" "\<forall>m. B' (a + n') \<noteq> Some (m, True)" "used (B'(a := None)) = (used B)(a := None)"
    "freeing_flags P' B' C a n'" "keeps_data C (used B) h h'"
proof -
  have sh: "shape B C" using ok by (auto simp: heap_state_def)
  have n: "0 < n" using shapeD(3) [OF sh a] by simp
  have pvn: "pv B (a + n)" using a by (auto simp: pv_def)
  then have "P (a + n)" using fl end_not_chunk [OF sh a] by (simp add: flags_ok_def)
  then have w: "wd h (a + n + 8) AND PREVIOUS_MASK = PREVIOUS_MASK"
    using following_word(1) [OF ok a] by (simp add: PREVIOUS_MASK_def)
  show ?thesis
  proof (cases "\<exists>m. B (a + n) = Some (m, True)")
    case False
    have "freeing_flags P B C a n" using fl pv_minus [of B, OF a] by (simp add: freeing_flags_def flags_ok_def)
    moreover have "used (B(a := None)) = (used B)(a := None)" by (intro ext) (simp add: used_def)
    ultimately show ?thesis
      using keeps_data_refl [of h h] that [of n h B P] False ok a w following_word(2) [OF ok a] by (simp add: merge_following_def)
  next
    case True
    then obtain m where m: "B (a + n) = Some (m, True)" by blast
    obtain h' where h': "medium_unlink (a + n) h = Inr h'" "heap_state h' B C (insert (a + n) {a}) P" "list_frame h h'"
      "keeps_data C (used B) h h'"
      by (rule medium_unlink_state [OF ok m]) (use n in auto)
    let ?B = "B(a + n := None, a \<mapsto> (n + m, False))"
    have "heap_state h' ?B C (insert (a + n) {a} - {a + n}) P"
      by (rule merge_state [OF h'(2) a m]) simp_all
    moreover have "insert (a + n) {a} - {a + n} = {a}" using n by auto
    ultimately have st: "heap_state h' ?B C {a} P" by simp
    have nf: "?B (a + (n + m)) \<noteq> Some (k, True)" for k
    proof -
      have "B (a + n + m) \<noteq> Some (k, True)" using ok m n by (auto simp: heap_state_def coalesced_def)
      moreover have "a + n + m \<noteq> a" using n by simp
      ultimately show ?thesis using m by (auto simp: add.assoc)
    qed
    have us: "used (?B(a := None)) = (used B)(a := None)" using m by (intro ext) (auto simp: used_def)
    let ?P = "P(a + n := False)"
    have "\<not> tail_at C (a + n)"
      using block_zone [OF sh m] shapeD(3) [OF sh m] chunkD(5) [OF shape_chunks [OF sh]] by (fastforce simp: tail_at_def)
    then have st': "heap_state h' ?B C {a} ?P" using heap_state_flag [OF st, of "a + n" False] n by simp
    have "freeing_flags ?P ?B C a (n + m)"
      unfolding freeing_flags_def
    proof (intro allI impI)
      fix x assume x: "C x = None" "x \<noteq> a + (n + m)"
      have "(?B(a := None)) b = Some (k, False) \<longleftrightarrow> (B(a := None)) b = Some (k, False)" for b k
        using m by auto
      then have "pv (?B(a := None)) x = pv (B(a := None)) x" unfolding pv_def by blast
      moreover have "\<not> pv (B(a := None)) (a + n)"
        by (rule pv_minus_end [OF sh a])
      then have "?P x = pv (B(a := None)) x"
        using fl x(1) pv_minus [of B, OF a] by (simp add: flags_ok_def)
      ultimately show "?P x = pv (?B(a := None)) x" by simp
    qed
    moreover have "merge_following a n h = Inr (n + m, h')"
      using w following_word(2,3) [OF ok a] m h'(1) by (simp add: merge_following_def)
    ultimately show ?thesis using that [OF _ st' _ h'(3) _ us _ h'(4)] nf by simp
  qed
qed

text \<open>Clearing the flag of what follows.\<close>

lemma unset_bit_clear: "even ((x :: nat) div 2 ^ k) \<Longrightarrow> unset_bit k x = x"
  by (rule bit_eqI) (auto simp: bit_simps, auto simp: bit_iff_odd)

lemma unset_tail: "unset_bit 3 (BLOCK_MASK + flag p) = BLOCK_MASK"
  using unset_bit_nat [of 24 3] unset_bit_clear [of 16 3] by (simp add: BLOCK_MASK_def)

lemma alloc_header_unset:
  assumes "alloc_header p n v"
  shows "alloc_header False n (unset_bit 3 v)"
proof -
  obtain i s e where e: "i < 13" "s < 32" "n = class_size (i * 32 + s) + (if e then 16 else 0)" "v = alloc_prefix p i s e"
    using assms unfolding alloc_header_def by blast
  have "unset_bit 3 (alloc_prefix p i s e) = alloc_prefix False i s e"
  proof (cases p)
    case True
    then show ?thesis using alloc_prefix_bits(5) [OF e(1,2)] by simp
  next
    case False
    have "alloc_prefix False i s e = 6 + 8 * (2 + 8 * (64 * i + 2 * s + (if e then 1 else 0)))"
      by (simp add: alloc_prefix_def)
    then have "alloc_prefix False i s e div 8 = 2 * (1 + 4 * (64 * i + 2 * s + (if e then 1 else 0)))"
      by (simp add: div_nat_eqI)
    then have "even (alloc_prefix False i s e div 2 ^ 3)" by simp
    then show ?thesis using unset_bit_clear False by simp
  qed
  then show ?thesis unfolding alloc_header_def using e by blast
qed

text \<open>
  The block, which is in no list, becomes a free block. No free block is next to it; \<open>p\<close> is the flag written.
\<close>

lemma make_free_state:
  assumes ok: "heap_state h B C {a} P" and a: "B a = Some (n, f)" "\<forall>m. B (a + n) \<noteq> Some (m, True)"
    and before: "\<And>b m. B b = Some (m, True) \<Longrightarrow> b + m \<noteq> a" and fl: "freeing_flags P B C a n"
    and p: "C a = None \<Longrightarrow> p = P a"
  obtains h' P' where "make_free a n (flag p) h = Inr h'" "heap_state h' (B(a \<mapsto> (n, True))) C {} P'"
    "flags_ok P' (B(a \<mapsto> (n, True))) C" "list_frame h h'" "keeps_data C ((used B)(a := None)) h h'"
proof -
  have sh: "shape B C" and hd: "headers (wd h) (heap_addr h) B C {a} P" and ls: "lists_ok h (free_of B {a})"
    and co: "coalesced B {a}" and cf: "config_ok h" and sy: "systems_ok (system_allocs h) C"
    using ok by (auto simp: heap_state_def)
  have n: "a mod 16 = 0" "n mod 16 = 0" "32 \<le> n" using shapeD [OF sh a(1)] by auto
  let ?B = "B(a \<mapsto> (n, True))" and ?P = "P(a := p, a + n := False)"
  define w where "w = (wd h)(a + 8 := flag p, a + n + 8 := unset_bit 3 (wd h (a + n + 8)))"
  define h1 where "h1 = h\<lparr>wd := w\<rparr>"
  have w: "w x = wd h x" if "x \<noteq> a + 8" "x \<noteq> a + n + 8" for x using that by (simp add: w_def)
  have wn: "w (a + n + 8) = unset_bit 3 (wd h (a + n + 8))" "w (a + 8) = flag p" using n(3) by (simp_all add: w_def)
  have C0: "C (a + n) = None" by (rule end_not_chunk [OF sh a(1)])
  have fl': "flags_ok ?P ?B C"
    using fl p pv_minus_end [OF sh a(1)] by (auto simp: flags_ok_def freeing_flags_def pv_free_upd)
  have "headers w (heap_addr h) ?B C {a} ?P"
    unfolding headers_def
  proof (intro conjI allI impI)
    fix b m g assume b: "?B b = Some (m, g)"
    show "block_header w (heap_addr h) b m g (b \<in> {a}) (?P b)"
    proof (cases "b = a")
      case True
      then show ?thesis using b wn(2) n(3) by (simp add: block_header_def)
    next
      case False
      then have b': "B b = Some (m, g)" using b by simp
      have m: "32 \<le> m" using shapeD(3) [OF sh b'] .
      have hb: "block_header (wd h) (heap_addr h) b m g False (P b)"
        using headersD(1) [OF hd b'] False by simp
      have out: "x \<noteq> a + 8 \<and> (x = a + n + 8 \<longrightarrow> b = a + n \<and> x = b + 8)" if "b \<le> x" "x < b + m" for x
        using after_block [OF sh a(1) b'] that n(3) blocks_apart [OF sh a(1) b'] blocks_apart [OF sh b' a(1)] False
        by (cases a b rule: linorder_cases) auto
      show ?thesis
      proof (cases "b = a + n")
        case True
        then have "\<not> g" using a(2) b' by (cases g) auto
        have "w (b + 8) = unset_bit 3 (wd h (b + 8))" using wn True by simp
        moreover have "w b = wd h b" using w out [of b] True m by auto
        ultimately show ?thesis
          using hb True False \<open>\<not> g\<close> alloc_header_unset by (auto simp: block_header_def)
      next
        case ne: False
        have "w (b + 8) = wd h (b + 8)" "w (b + m - 8) = wd h (b + m - 8)" "w b = wd h b"
          using w out [of "b + m - 8"] out [of b] out [of "b + 8"] ne m by auto
        then show ?thesis using hb ne False by (simp add: block_header_def)
      qed
    qed
  next
    fix k u t assume k: "C k = Some (u, t)"
    have hk: "chunk_header (wd h) k u t (P (k + t))" by (rule headersD(2) [OF hd k])
    have z: "a + n \<le> u \<or> k + t + 16 \<le> a \<or> k \<le> a \<and> a + n \<le> k + t" by (rule block_zone [OF sh a(1) k])
    have uk: "u + 64 \<le> k" using chunkD(5) [OF shape_chunks [OF sh] k] .
    have "w (k - 8) = wd h (k - 8)" "w (k - 16) = wd h (k - 16)" "w u = wd h u"
      by (intro w; use z uk n(3) chunk_after [OF sh a(1) k] in auto)+
    moreover have "w (k + t + 8) = BLOCK_MASK + flag (?P (k + t))"
    proof (cases "k + t = a + n")
      case True
      have "w (k + t + 8) = unset_bit 3 (BLOCK_MASK + flag (P (k + t)))" using wn hk True by (simp add: chunk_header_def)
      then show ?thesis using True by (simp add: unset_tail)
    next
      case False
      have "w (k + t + 8) = wd h (k + t + 8)" using z n(3) uk False by (intro w) auto
      moreover have "k + t \<noteq> a" using z n(3) uk by auto
      ultimately show ?thesis using hk False by (simp add: chunk_header_def)
    qed
    ultimately show "chunk_header w k u t (?P (k + t))" using hk by (simp add: chunk_header_def)
  qed
  moreover have "free_of ?B {a} = free_of B {a}"
    by (intro ext) (auto simp: free_of_def split: option.splits bool.splits)
  moreover have "lists_ok h1 (free_of B {a})"
  proof (rule lists_ok_cong [OF ls])
    fix y assume y: "y \<in> dom (free_of B {a})"
    then obtain m where m: "B y = Some (m, True)" "y \<noteq> a" by (auto simp: free_of_dom)
    have "y mod 16 = 0" "(y + 16) mod 16 = 0" "(a + 8) mod 16 = 8" "(a + n + 8) mod 16 = 8"
      using shapeD(1) [OF sh m(1)] words_8(1) [of a 32] words_8(1) [of "a + n" 32] n by (auto simp: mod_eq_0_iff_dvd)
    then have "y \<noteq> a + 8" "y \<noteq> a + n + 8" "y + 16 \<noteq> a + 8" "y + 16 \<noteq> a + n + 8" by (metis zero_neq_numeral)+
    then show "wd h1 y = wd h y \<and> wd h1 (y + 16) = wd h (y + 16)" using w by (simp add: h1_def)
  qed (simp_all add: h1_def)
  moreover have "coalesced ?B {a}"
    using co before by (auto simp: coalesced_def)
  ultimately have ok1: "heap_state h1 ?B C {a} ?P"
    using shape_flag [OF sh a(1)] sy cf by (simp add: heap_state_def h1_def config_ok_def)
  have nx: "?B (a + n) \<noteq> Some (m, True)" for m using a(2) n(3) by simp
  have Ba: "?B a = Some (n, True)" "a \<in> {a}" by simp_all
  obtain h' where h': "medium_link a n h1 = Inr h'" "heap_state h' ?B C ({a} - {a}) ?P" "list_frame h1 h'"
    "keeps_data C (used ?B) h1 h'"
    by (rule medium_link_state [OF ok1 Ba nx]) (rule that)
  have "n AND 15 = 0" using take_bit_eq_mask [of 4 n] n(2) by (simp add: mask_eq_exp_minus_1 take_bit_eq_mod)
  moreover have "minimum_alignment h = 16" using cf by (simp add: config_ok_def)
  ultimately have "make_free a n (flag p) h = Inr h'"
    using h'(1) n(3) by (simp add: make_free_def aligned_size_def st_word_def h1_def w_def)
  moreover have "list_frame h h'" using h'(3) by (simp add: list_frame_def h1_def)
  moreover have "keeps_data C ((used B)(a := None)) h h'"
  proof (rule keeps_data_trans)
    show "keeps_data C ((used B)(a := None)) h h1"
    proof (rule keeps_dataI)
      fix x assume "users C ((used B)(a := None)) x"
      from users_apart [OF sh a(1) this] show "wd h1 x = wd h x"
        using w [of x] n(3) by (auto simp: h1_def map_le_def)
    qed
    show "keeps_data C ((used B)(a := None)) h1 h'" using h'(4) by (simp add: used_free)
  qed
  ultimately show ?thesis using that h'(2) fl' by simp
qed

text \<open>The only block of a chunk goes with it.\<close>

lemma medium_free_chunk_state:
  assumes ok: "heap_state h B C {a} P" and a: "B a = Some (t, False)" "C a = Some (s, t)" and fl: "freeing_flags P B C a t"
  obtains h' P' where "medium_free_chunk s h = Inr h'" "heap_state h' (B(a := None)) (C(a := None)) {} P'"
    "flags_ok P' (B(a := None)) (C(a := None))" "sys_freed h' = s # sys_freed h" "other_fields h' = other_fields h" "sys_calls h' = sys_calls h"
    "system_allocs h' = remove1 s (system_allocs h)"
    "cur_outstanding_allocations_count h' = cur_outstanding_allocations_count h"
    "cur_outstanding_allocations_bytes h' = cur_outstanding_allocations_bytes h" "wd h' = wd h"
proof -
  have sh: "shape B C" and hd: "headers (wd h) (heap_addr h) B C {a} P" and ls: "lists_ok h (free_of B {a})"
    and co: "coalesced B {a}" and cf: "config_ok h" and sy: "systems_ok (system_allocs h) C"
    using ok by (auto simp: heap_state_def)
  let ?B = "B(a := None)" and ?C = "C(a := None)" and ?P = "P(a + t := False, a := False)"
  define h' where "h' = system_free s (h\<lparr>system_allocs := remove1 s (system_allocs h)\<rparr>)"
  have hf: "wd h' = wd h" "free_lists h' = free_lists h" "bitmap h' = bitmap h" "toplevel_bitmap h' = toplevel_bitmap h"
    "heap_addr h' = heap_addr h" "config_ok h'" "system_allocs h' = remove1 s (system_allocs h)"
    using cf by (simp_all add: h'_def system_free_def config_ok_def)
  have "wd h s = STBM_SYSTEM_ALLOC_MEDIUM" using headersD(2) [OF hd a(2)] by (simp add: chunk_header_def)
  moreover have "cache_medium_chunks h = 0" using cf by (simp add: config_ok_def)
  ultimately have eq: "medium_free_chunk s h = Inr h'"
    by (simp add: medium_free_chunk_def system_alloc_unlink_def STBM_MEDIUM_CACHE_one_def h'_def)
  have t: "0 < t" "s + 64 \<le> a" using shapeD(3) [OF sh a(1)] chunkD(5) [OF shape_chunks [OF sh] a(2)] by auto
  have "b \<noteq> a + t" if "B b = Some (m, g)" for b m g
    using block_zone [OF sh that a(2)] shapeD(3) [OF sh that] t by auto
  then have "block_header (wd h) (heap_addr h) b m g (b \<in> {}) (?P b)" if "?B b = Some (m, g)" for b m g
    using headersD(1) [OF hd, of b m g] that by (auto split: if_splits)
  moreover have dis: "k + u \<noteq> a \<and> k + u \<noteq> a + t \<and> v \<noteq> s" if k: "?C k = Some (v, u)" for k v u
  proof -
    have k': "k \<noteq> a" "C k = Some (v, u)" using k by (auto split: if_splits)
    note ch = shape_chunks [OF sh]
    show ?thesis
      using k'(1) chunkD(8) [OF ch k'(2) a(2)] chunkD(8) [OF ch a(2) k'(2)] t chunkD(5) [OF ch k'(2)]
      by (cases a k rule: linorder_cases) auto
  qed
  then have "chunk_header (wd h) k v u (?P (k + u))" if "?C k = Some (v, u)" for k v u
    using headersD(2) [OF hd, of k v u] that by (auto split: if_splits)
  ultimately have "headers (wd h') (heap_addr h') ?B ?C {} ?P"
    unfolding headers_def hf by blast
  moreover have "free_of ?B {} = free_of B {a}"
    using a(1) by (intro ext) (auto simp: free_of_def split: option.splits bool.splits)
  moreover have "lists_ok h' (free_of B {a})"
    by (rule lists_ok_cong [OF ls]) (simp_all add: hf)
  moreover have "coalesced ?B {}" using co by (auto simp: coalesced_def)
  moreover have "systems_ok (system_allocs h') ?C"
    using sy dis by (auto simp: systems_ok_def hf split: if_splits)
  ultimately have "heap_state h' ?B ?C {} ?P"
    using shape_drop_chunk [OF sh a(2,1)] by (simp add: heap_state_def hf)
  moreover have "flags_ok ?P ?B ?C"
  proof -
    have "\<not> pv ?B a"
    proof
      assume "pv ?B a"
      then obtain b m where "B b = Some (m, False)" "b + m = a" by (auto simp: pv_def split: if_splits)
      then show False using end_not_chunk [OF sh, of b m False] a(2) by auto
    qed
    then show ?thesis using fl pv_minus_end [OF sh a(1)] by (auto simp: flags_ok_def freeing_flags_def)
  qed
  ultimately show ?thesis using that [OF eq] by (simp add: h'_def system_free_def other_fields_def)
qed

lemma and_15: "n mod 16 = 0 \<Longrightarrow> (n :: nat) AND 15 = 0"
  using take_bit_eq_mask [of 4 n] by (simp add: mask_eq_exp_minus_1 take_bit_eq_mod)

text \<open>The block before the one that is freed, when it is free too.\<close>

lemma previous_free:
  assumes ok: "heap_state h B C {a} P" and a: "B a = Some (n, False)" and fl: "freeing_flags P B C a n"
    and C: "C a = None" and P: "\<not> P a"
  obtains b m where "B b = Some (m, True)" "b + m = a" "b \<noteq> a" "wd h (a - 8) = m" "MED_FREE_BYTES (wd h (b + 8)) = m"
    "wd h (b + 8) AND BLOCK_MASK = 0" "m < MEDIUM_CHUNK_PRE_HEADER" "\<And>c l. B c = Some (l, True) \<Longrightarrow> c + l \<noteq> b"
    "C b = None \<Longrightarrow> P b"
proof -
  have sh: "shape B C" and hd: "headers (wd h) (heap_addr h) B C {a} P" and co: "coalesced B {a}"
    using ok by (auto simp: heap_state_def)
  have n: "0 < n" using shapeD(3) [OF sh a] by simp
  obtain b m g where b: "B b = Some (m, g)" "b + m = a" using shapeD(6) [OF sh a] C by blast
  have m: "32 \<le> m" using shapeD(3) [OF sh b(1)] .
  have npv: "\<not> pv (B(a := None)) a" using fl C P n by (simp add: freeing_flags_def)
  have g: "g"
  proof (rule ccontr)
    assume "\<not> g"
    then have "(B(a := None)) b = Some (m, False)" using b m by simp
    then show False using npv b(2) by (auto simp: pv_def)
  qed
  have ba: "b \<noteq> a" using b(2) m by simp
  have free: "B b = Some (m, True)" using b(1) g by simp
  have hb: "wd h (b + 8) = free_prefix (P b) m (class_of m)" "wd h (b + m - 8) = m"
    using headersD(1) [OF hd free] ba by (simp_all add: block_header_def)
  have mb: "m mod 16 = 0" "m < 2 ^ 21" using shapeD(2) [OF sh free] block_bound(1) [OF sh free] by auto
  have nofree: "c + l \<noteq> b" if "B c = Some (l, True)" for c l
  proof -
    have "c \<noteq> a" using that a by auto
    then have "B (c + l) \<noteq> Some (m, True)" using co that by (simp add: coalesced_def)
    then show ?thesis using free by auto
  qed
  moreover have "P b" if Cb: "C b = None"
  proof -
    obtain c l i where c: "B c = Some (l, i)" "c + l = b" using shapeD(6) [OF sh free] Cb by blast
    then have "\<not> i" using nofree by (cases i) auto
    moreover have "c \<noteq> a" using c(2) b(2) m by auto
    ultimately have "(B(a := None)) c = Some (l, False)" using c(1) by simp
    then have "pv (B(a := None)) (c + l)" unfolding pv_def by blast
    then have "pv (B(a := None)) b" by (simp only: c(2))
    then show ?thesis using fl Cb b(2) n m by (simp add: freeing_flags_def)
  qed
  moreover have "m < MEDIUM_CHUNK_PRE_HEADER" using mb(2) by (simp add: MEDIUM_CHUNK_PRE_HEADER_def)
  ultimately show ?thesis
    using that [OF free b(2) ba] hb b(2) free_prefix_bits(1,3) [OF mb] by simp
qed

text \<open>
  After the merge with the following block the block is merged with a free one before it and linked, or
  it is released with its chunk.
\<close>

lemma merge_previous_state:
  assumes ok: "heap_state h B C {a} P" and a: "B a = Some (n, False)" "\<forall>m. B (a + n) \<noteq> Some (m, True)"
    and fl: "freeing_flags P B C a n"
  obtains (linked) h' b m P' where "merge_previous a n h = Inr h'"
      "heap_state h' (B(a := None, b \<mapsto> (m, True))) C {} P'" "flags_ok P' (B(a := None, b \<mapsto> (m, True))) C"
      "list_frame h h'" "keeps_data C ((used B)(a := None)) h h'" "b = a \<and> m = n \<or> (\<exists>l. B b = Some (l, True) \<and> b + l = a \<and> m = l + n)"
    | (released) h' s P' where "merge_previous a n h = Inr h'" "C a = Some (s, n)"
      "heap_state h' (B(a := None)) (C(a := None)) {} P'" "flags_ok P' (B(a := None)) (C(a := None))"
      "sys_freed h' = s # sys_freed h" "other_fields h' = other_fields h" "sys_calls h' = sys_calls h"
      "system_allocs h' = remove1 s (system_allocs h)"
      "cur_outstanding_allocations_count h' = cur_outstanding_allocations_count h"
      "cur_outstanding_allocations_bytes h' = cur_outstanding_allocations_bytes h" "wd h' = wd h"
proof -
  have sh: "shape B C" and hd: "headers (wd h) (heap_addr h) B C {a} P" and cf: "config_ok h"
    using ok by (auto simp: heap_state_def)
  have n: "32 \<le> n" using shapeD(3) [OF sh a(1)] .
  have w: "wd h (a + 8) AND PREVIOUS_MASK = flag (P a)" using headersD(1) [OF hd a(1)] by (simp add: block_header_def)
  have cache: "cache_medium_chunks h \<noteq> STBM_MEDIUM_CACHE_all" using cf by (simp add: config_ok_def STBM_MEDIUM_CACHE_all_def)
  have upd: "B(a := None, a \<mapsto> (n, True)) = B(a \<mapsto> (n, True))" by simp
  have Cend: "b + m \<noteq> a" if "B b = Some (m, True)" "C a \<noteq> None" for b m
    using end_not_chunk [OF sh that(1)] that(2) by auto
  show ?thesis
  proof (cases "P a")
    case True
    have before: "b + m \<noteq> a" if b: "B b = Some (m, True)" for b m
    proof (cases "C a = None")
      case None: True
      then have "pv (B(a := None)) a" using fl \<open>P a\<close> n by (simp add: freeing_flags_def)
      then obtain c l where c: "B c = Some (l, False)" "c + l = a" by (auto simp: pv_def split: if_splits)
      then show ?thesis using block_before_unique [OF sh b c(1)] b by auto
    qed (use Cend b in blast)
    obtain h' P' where h': "make_free a n (flag True) h = Inr h'" "heap_state h' (B(a \<mapsto> (n, True))) C {} P'"
      "flags_ok P' (B(a \<mapsto> (n, True))) C" "list_frame h h'" "keeps_data C ((used B)(a := None)) h h'"
      by (rule make_free_state [OF ok a before fl, of True]) (use True in auto)
    have "merge_previous a n h = Inr h'" using w True h'(1) by (simp add: merge_previous_def PREVIOUS_MASK_def)
    then show ?thesis using linked [of h' a n P'] h'(2-5) upd by simp
  next
    case P: False
    show ?thesis
    proof (cases "C a")
      case (Some st)
      then obtain s t where st: "C a = Some (s, t)" by (cases st) auto
      have hc: "wd h (a - 8) = MEDIUM_CHUNK_PRE_HEADER + t" "wd h (a - 16) = s"
        using headersD(2) [OF hd st] by (simp_all add: chunk_header_def)
      show ?thesis
      proof (cases "n = t")
        case True
        obtain h' P' where h': "medium_free_chunk s h = Inr h'" "heap_state h' (B(a := None)) (C(a := None)) {} P'"
          "flags_ok P' (B(a := None)) (C(a := None))" "sys_freed h' = s # sys_freed h" "other_fields h' = other_fields h" "sys_calls h' = sys_calls h"
          "system_allocs h' = remove1 s (system_allocs h)"
          "cur_outstanding_allocations_count h' = cur_outstanding_allocations_count h"
          "cur_outstanding_allocations_bytes h' = cur_outstanding_allocations_bytes h" "wd h' = wd h"
          using medium_free_chunk_state [OF ok _ _ fl, of s] a(1) st True by metis
        have "merge_previous a n h = Inr h'"
          using w P hc cache h'(1) True by (simp add: merge_previous_def)
        then show ?thesis using released h'(2-10) st True by metis
      next
        case False
        obtain h' P' where h': "make_free a n (flag False) h = Inr h'" "heap_state h' (B(a \<mapsto> (n, True))) C {} P'"
          "flags_ok P' (B(a \<mapsto> (n, True))) C" "list_frame h h'" "keeps_data C ((used B)(a := None)) h h'"
          by (rule make_free_state [OF ok a _ fl, of False]) (use Cend st in auto)
        have "merge_previous a n h = Inr h'" using w P hc False h'(1) by (simp add: merge_previous_def)
        then show ?thesis using linked [of h' a n P'] h'(2-5) upd by simp
      qed
    next
      case None
      obtain b m where b: "B b = Some (m, True)" "b + m = a" "b \<noteq> a" "wd h (a - 8) = m"
        "MED_FREE_BYTES (wd h (b + 8)) = m" "wd h (b + 8) AND BLOCK_MASK = 0" "m < MEDIUM_CHUNK_PRE_HEADER"
        "\<And>c l. B c = Some (l, True) \<Longrightarrow> c + l \<noteq> b" "C b = None \<Longrightarrow> P b"
        using previous_free [OF ok a(1) fl None P] by metis
      obtain h3 where h3: "medium_unlink b h = Inr h3" "heap_state h3 B C (insert b {a}) P" "list_frame h h3"
        "keeps_data C (used B) h h3"
        by (rule medium_unlink_state [OF ok b(1)]) (use b(3) in auto)
      let ?B = "B(a := None, b \<mapsto> (m + n, True))"
      have Ba: "B (b + m) = Some (n, False)" "b \<in> insert b {a}" "b + m \<in> insert b {a}" using a(1) b(2) by auto
      have "insert b {a} - {a} = {b}" using b(3) by auto
      then have st: "heap_state h3 ?B C {b} P" using merge_state [OF h3(2) b(1) Ba] b(2) by simp
      have m: "32 \<le> m" using shapeD(3) [OF sh b(1)] .
      have nx: "\<forall>k. ?B (b + (m + n)) \<noteq> Some (k, True)"
        using a(2) b(2) n m by (auto simp: add.assoc [symmetric])
      have bf: "c + l \<noteq> b" if "?B c = Some (l, True)" for c l
        using that b(8) m n by (auto split: if_splits)
      have fl': "freeing_flags P ?B C b (m + n)"
      proof -
        have "pv (?B(b := None)) x = pv (B(a := None)) x" for x
        proof -
          have "(?B(b := None)) c = Some (l, False) \<longleftrightarrow> (B(a := None)) c = Some (l, False)" for c l
            using b(1) by auto
          then show ?thesis unfolding pv_def by blast
        qed
        moreover have "b + (m + n) = a + n" using b(2) by simp
        ultimately show ?thesis using fl by (simp add: freeing_flags_def)
      qed
      obtain h' P' where h': "make_free b (m + n) (flag True) h3 = Inr h'" "heap_state h' (?B(b \<mapsto> (m + n, True))) C {} P'"
        "flags_ok P' (?B(b \<mapsto> (m + n, True))) C" "list_frame h3 h'"
        "keeps_data C ((used ?B)(b := None)) h3 h'"
        by (rule make_free_state [OF st _ nx bf fl', of True]) (use b(9) in auto)
      have "a - m = b" using b(2) by auto
      then have "merge_previous a n h = Inr h'"
        using w P b h3(1) h'(1) by (simp add: merge_previous_def PREVIOUS_MASK_def)
      moreover have "list_frame h h'" by (rule list_frame_trans [OF h3(3) h'(4)])
      moreover have "(used ?B)(b := None) = (used B)(a := None)" using b(1) by (intro ext) (auto simp: used_def)
      then have "keeps_data C ((used B)(a := None)) h h'"
        using keeps_data_trans [OF keeps_data_mono [OF h3(4)]] h'(5) by (simp add: map_le_def)
      ultimately show ?thesis using linked [of h' b "m + n" P'] h'(2,3) b(1,2) by simp
    qed
  qed
qed

text \<open>
  The contract: a block that is in use is no longer in use. The system gets a chunk back only when the block is
  the first of it.
\<close>

lemma medium_free_state:
  assumes ok: "heap_state h B C {} P" "flags_ok P B C" and a: "used B a = Some n"
    and cnt: "1 \<le> cur_outstanding_allocations_count h" "n - 16 \<le> cur_outstanding_allocations_bytes h"
  obtains h' B' C' P' where "medium_free (a + 16) h = Inr h'" "heap_state h' B' C' {} P'" "flags_ok P' B' C'"
    "used B' = (used B)(a := None)" "other_fields h' = other_fields h" "sys_calls h' = sys_calls h"
    "cur_outstanding_allocations_count h' = cur_outstanding_allocations_count h - 1"
    "cur_outstanding_allocations_bytes h' = cur_outstanding_allocations_bytes h - (n - 16)"
    "sys_freed h' = sys_freed h \<and> C' = C \<and> system_allocs h' = system_allocs h \<or>
      (\<exists>s t. C a = Some (s, t) \<and> sys_freed h' = s # sys_freed h \<and> C' = C(a := None) \<and>
        system_allocs h' = remove1 s (system_allocs h))"
    "keeps_data C ((used B)(a := None)) h h'"
proof -
  have Ba: "B a = Some (n, False)" using a by (simp add: used_Some)
  have sh: "shape B C" using ok by (simp add: heap_state_def)
  have ma: "minimum_alignment h = 16" using ok by (simp add: heap_state_def config_ok_def)
  note s0 = free_start_state [OF ok(1) Ba]
  define h1 where "h1 = h\<lparr>cur_outstanding_allocations_count := cur_outstanding_allocations_count h - 1,
    cur_outstanding_allocations_bytes := cur_outstanding_allocations_bytes h - (n - 16)\<rparr>"
  have st1: "stats_update_free (n - 16) h = Inr h1" using cnt by (simp add: stats_update_free_def h1_def)
  have ok1: "heap_state h1 B C {a} P"
    using s0(4) by (simp add: heap_state_def h1_def lists_ok_def config_ok_def)
  obtain n' h2 B2 P2 where m: "merge_following a n h1 = Inr (n', h2)" "heap_state h2 B2 C {a} P2" "B2 a = Some (n', False)"
    "list_frame h1 h2" "\<forall>m. B2 (a + n') \<noteq> Some (m, True)" "used (B2(a := None)) = (used B)(a := None)"
    "freeing_flags P2 B2 C a n'" "keeps_data C (used B) h1 h2"
    by (rule merge_following_state [OF ok1 ok(2) Ba])
  have "n mod 16 = 0" "n' mod 16 = 0"
    using shapeD(2) [OF sh Ba] shapeD(2) [of B2 C a n'] m(2,3) by (auto simp: heap_state_def)
  then have al: "aligned_size h n" "aligned_size h2 n'"
    using ma list_frameD(4) [OF m(4)] by (simp_all add: aligned_size_def and_15 h1_def)
  have run: "medium_free (a + 16) h = merge_previous a n' h2"
    using s0(1) st1 m(1) al by (simp add: medium_free_def)
  have fr: "other_fields h2 = other_fields h" "sys_freed h2 = sys_freed h" "system_allocs h2 = system_allocs h"
    "sys_calls h2 = sys_calls h"
    "cur_outstanding_allocations_count h2 = cur_outstanding_allocations_count h - 1"
    "cur_outstanding_allocations_bytes h2 = cur_outstanding_allocations_bytes h - (n - 16)"
    using list_frameD [OF m(4)] list_frame_other [OF m(4)] by (simp_all add: h1_def other_fields_def)
  have kd: "keeps_data C ((used B)(a := None)) h h2"
    using keeps_data_trans [OF keeps_data_refl keeps_data_mono [OF m(8)]] by (simp add: h1_def map_le_def)
  from m(2,3,5,7) show ?thesis
  proof (cases rule: merge_previous_state)
    case (linked h' b k P')
    have "used (B2(a := None, b \<mapsto> (k, True))) = used (B2(a := None))"
      using linked(6) by (intro ext) (auto simp: used_def)
    moreover have "keeps_data C ((used B)(a := None)) h h'"
    proof (rule keeps_data_trans [OF kd])
      have "(used B2)(a := None) = (used B)(a := None)" using m(6) by (metis used_none)
      then show "keeps_data C ((used B)(a := None)) h2 h'" using linked(5) by simp
    qed
    ultimately show ?thesis
      using that [OF _ linked(2,3)] linked(1) run m(6) list_frameD [OF linked(4)] list_frame_other [OF linked(4)] fr by simp
  next
    case (released h' s P')
    moreover have "keeps_data C ((used B)(a := None)) h h'"
      by (rule keeps_data_trans [OF kd keeps_data_refl [OF released(11)]])
    ultimately show ?thesis using that [OF _ released(3,4)] run m(6) fr by simp
  qed
qed

end
