(* ===== verification/StbmInv.thy ===== *)
theory StbmInv
  imports Slab TlsfAlloc TlsfFree
begin

text \<open>
  The invariant of a whole heap: the medium allocator, the small chunks in its blocks, the large blocks and what the
  system gave. The blocks in the hands of the users are apart from each other.
\<close>

unbundle bit_operations_syntax

section \<open>Writes of the users\<close>

text \<open>No header and no link of a free block is a word of the users.\<close>

lemma block_word_not_user:
  assumes sh: "shape B C" and a: "B a = Some (n, f)" "a \<le> x" "x < a + n" "\<not> f \<Longrightarrow> x < a + 16"
  shows "\<not> users C (used B) x"
proof
  assume "users C (used B) x"
  then consider (data) b m where "used B b = Some m" "b + 16 \<le> x" "x < b + m"
    | (out) "\<And>k s t. C k = Some (s, t) \<Longrightarrow> x < s \<or> k + t + 16 \<le> x"
    unfolding users_def by blast
  then show False
  proof cases
    case data
    then have b: "B b = Some (m, False)" by (simp add: used_Some)
    have "b \<noteq> a" using data(2) b a by auto
    then show False
      using data(2,3) blocks_apart [OF sh a(1) b] blocks_apart [OF sh b a(1)] a(2,3)
      by (cases a b rule: linorder_cases) auto
  next
    case out
    obtain k s t where k: "C k = Some (s, t)" "k \<le> a" "a + n \<le> k + t"
      using shapeD(4) [OF sh a(1)] by (auto simp: in_chunk_def)
    then show False using out [OF k(1)] chunkD(5) [OF shape_chunks [OF sh] k(1)] a(2,3) by auto
  qed
qed

lemma chunk_word_not_user:
  assumes sh: "shape B C" and k: "C k = Some (s, t)" "s \<le> x" "x < k \<or> k + t \<le> x" "x < k + t + 16"
  shows "\<not> users C (used B) x"
proof
  assume "users C (used B) x"
  then consider (data) b m where "used B b = Some m" "b + 16 \<le> x" "x < b + m"
    | (out) "x < s \<or> k + t + 16 \<le> x"
    using k(1) unfolding users_def by blast
  then show False
  proof cases
    case data
    then have "B b = Some (m, False)" by (simp add: used_Some)
    from block_zone [OF sh this k(1)] show False using data(2,3) k(2-4) by auto
  qed (use k in auto)
qed

lemma header_not_user:
  assumes sh: "shape B C" and x: "x \<in> header_words B C"
  shows "\<not> users C (used B) x"
proof -
  from x consider a n f where "B a = Some (n, f)" "x = a + 8 \<or> (f \<and> x = a + n - 8) \<or> (\<not> f \<and> x = a)"
    | k s t where "C k = Some (s, t)" "x = k - 8 \<or> x = k - 16 \<or> x = s \<or> x = k + t + 8"
    unfolding header_words_def by blast
  then show ?thesis
  proof cases
    case 1
    then show ?thesis using shapeD(3) [OF sh 1(1)] by (intro block_word_not_user [OF sh 1(1)]) auto
  next
    case 2
    then show ?thesis
      using chunkD(5) [OF shape_chunks [OF sh] 2(1)] by (intro chunk_word_not_user [OF sh 2(1)]) auto
  qed
qed

lemma heap_state_users:
  assumes ok: "heap_state h B C {} P" and w: "\<And>x. \<not> users C (used B) x \<Longrightarrow> wd h' x = wd h x"
    and same: "heap_addr h' = heap_addr h" "free_lists h' = free_lists h" "bitmap h' = bitmap h"
      "toplevel_bitmap h' = toplevel_bitmap h" "config_ok h'" "systems_ok (system_allocs h') C"
  shows "heap_state h' B C {} P"
proof -
  have sh: "shape B C" and hd: "headers (wd h) (heap_addr h) B C {} P" and ls: "lists_ok h (free_of B {})"
    and co: "coalesced B {}" using ok by (auto simp: heap_state_def)
  have "headers (wd h') (heap_addr h) B C {} P"
    using headers_cong [of B C "wd h'" "wd h"] hd w header_not_user [OF sh] by blast
  moreover have "lists_ok h' (free_of B {})"
  proof (rule lists_ok_cong [OF ls same(2-4)])
    fix y assume "y \<in> dom (free_of B {})"
    then obtain n where n: "B y = Some (n, True)" by (auto simp: free_of_dom)
    have "\<not> users C (used B) y" "\<not> users C (used B) (y + 16)"
      using shapeD(3) [OF sh n] block_word_not_user [OF sh n, of y] block_word_not_user [OF sh n, of "y + 16"] by simp_all
    then show "wd h' y = wd h y \<and> wd h' (y + 16) = wd h (y + 16)" using w by simp
  qed
  ultimately show ?thesis using sh co same by (simp add: heap_state_def)
qed

section \<open>The invariant of the whole heap\<close>

text \<open>
  The ghost state: beside the blocks, chunks and flags of the medium allocator the small chunks with their
  free and used cells (\<open>S\<close>), the large blocks with their system allocation (\<open>G\<close>), and the system
  allocations with their sizes (\<open>R\<close>).
\<close>

type_synonym slabs = "nat \<rightharpoonup> nat list \<times> nat set \<times> nat"
type_synonym larges = "nat \<rightharpoonup> nat \<times> nat"

text \<open>The lists of the small chunks; of those in \<open>X\<close> it is not known whether they are empty.\<close>

definition small_ok :: "words \<Rightarrow> nat \<Rightarrow> nat list \<Rightarrow> nat list \<Rightarrow> nat \<Rightarrow> slabs \<Rightarrow> nat set \<Rightarrow> bool" where
  "small_ok w hp full nonfull cache S X \<longleftrightarrow> distinct (full @ nonfull) \<and> cache \<notin> set full \<union> set nonfull \<and>
     (\<forall>c. S c \<noteq> None \<longleftrightarrow> c \<in> set full \<union> set nonfull \<or> c = cache \<and> cache \<noteq> 0) \<and>
     (\<forall>c fs us m. S c = Some (fs, us, m) \<longrightarrow> slab w hp c fs us m \<and> (c \<in> set full \<longleftrightarrow> fs = [] \<and> m = 0) \<and>
        (c \<notin> X \<longrightarrow> (c = cache \<longleftrightarrow> us = {})))"

definition slabs_used :: "(nat \<rightharpoonup> nat) \<Rightarrow> slabs \<Rightarrow> bool" where
  "slabs_used U S \<longleftrightarrow> (\<forall>c. S c \<noteq> None \<longrightarrow> 16 \<le> c \<and> (\<exists>n. U (c - 16) = Some n \<and> 4056 \<le> n))"

definition large_ok :: "words \<Rightarrow> nat \<Rightarrow> larges \<Rightarrow> bool" where
  "large_ok w hp G \<longleftrightarrow> finite (dom G) \<and> (\<forall>u s z. G u = Some (s, z) \<longrightarrow> 0 < z \<and> w s = STBM_SYSTEM_ALLOC_LARGE \<and>
     w (s + 48) = s \<and> w (s + 56) = z \<and> w (s + 64) = hp \<and> w (s + 72) = TYPE_large)"

text \<open>What the heap has got from the system: disjoint pieces, each for one chunk or one large block.\<close>

definition sys_ok :: "system_alloc \<Rightarrow> nat \<Rightarrow> nat list \<Rightarrow> chunks \<Rightarrow> larges \<Rightarrow> (nat \<rightharpoonup> nat) \<Rightarrow> bool" where
  "sys_ok env n A C G R \<longleftrightarrow> dom R = set A \<and> distinct A \<and>
     (\<forall>s r. R s = Some r \<longrightarrow> 0 < s \<and> 0 < r \<and> s mod 16 = 0 \<and> s + r \<le> 2 ^ 62 \<and> (\<exists>j<n. env j r = (s, r))) \<and>
     (\<forall>s r s' r'. R s = Some r \<longrightarrow> R s' = Some r' \<longrightarrow> s < s' \<longrightarrow> s + r \<le> s') \<and>
     (\<forall>k s t. C k = Some (s, t) \<longrightarrow> k = s + 64 \<and> R s = Some (t + 96)) \<and>
     (\<forall>u s z. G u = Some (s, z) \<longrightarrow> u = s + 80 \<and> R s = Some (z + 80))"

definition slab_cells :: "slabs \<Rightarrow> nat \<Rightarrow> nat" where
  "slab_cells S c = (case S c of Some (fs, us, m) \<Rightarrow> card us | None \<Rightarrow> 0)"

definition stats_ok :: "stbm_heap \<Rightarrow> (nat \<rightharpoonup> nat) \<Rightarrow> slabs \<Rightarrow> larges \<Rightarrow> bool" where
  "stats_ok h U S G \<longleftrightarrow>
     cur_outstanding_allocations_count h = card (dom U) + (\<Sum>c \<in> dom S. slab_cells S c) + card (dom G) \<and>
     cur_outstanding_allocations_bytes h = (\<Sum>a \<in> dom U. the (U a) - 16) + 8 * (\<Sum>c \<in> dom S. slab_cells S c) +
       (\<Sum>u \<in> dom G. snd (the (G u)))"

definition settings_ok :: "stbm_heap \<Rightarrow> bool" where
  "settings_ok h \<longleftrightarrow> smallchunk_size h = 4040 \<and> large_alloc_threshhold h = 262144 \<and>
     \<not> align_all_blocks_to_minimum h"

definition stbm_state where
  "stbm_state env h B C P S G R X \<longleftrightarrow> heap_state h B C {} P \<and> flags_ok P B C \<and>
     small_ok (wd h) (heap_addr h) (small_full h) (small_nonfull h) (chunkcache h) S X \<and> slabs_used (used B) S \<and>
     large_ok (wd h) (heap_addr h) G \<and> sys_ok env (sys_calls h) (system_allocs h) C G R \<and> stats_ok h (used B) S G \<and>
     settings_ok h"

text \<open>The blocks in the hands of the users, with their sizes.\<close>

definition live :: "(nat \<rightharpoonup> nat) \<Rightarrow> slabs \<Rightarrow> larges \<Rightarrow> (nat \<times> nat) set" where
  "live U S G = {(u, z). \<exists>s. G u = Some (s, z)} \<union>
     {(p, n). \<exists>c fs us m b. S c = Some (fs, us, m) \<and> b \<in> us \<and> p = b + 8 \<and> n = 8} \<union>
     {(p, n). \<exists>a m. U a = Some m \<and> S (a + 16) = None \<and> p = a + 16 \<and> n = m - 16}"

text \<open>The data of the users.\<close>

definition data_kept :: "(nat \<times> nat) set \<Rightarrow> stbm_heap \<Rightarrow> stbm_heap \<Rightarrow> bool" where
  "data_kept L h h' \<longleftrightarrow> (\<forall>p n x. (p, n) \<in> L \<longrightarrow> p \<le> x \<longrightarrow> x < p + n \<longrightarrow> x mod 8 = 0 \<longrightarrow> wd h' x = wd h x)"

lemma data_keptD: "data_kept L h h' \<Longrightarrow> (p, n) \<in> L \<Longrightarrow> p \<le> x \<Longrightarrow> x < p + n \<Longrightarrow> x mod 8 = 0 \<Longrightarrow> wd h' x = wd h x"
  by (simp only: data_kept_def)

lemma data_keptI:
  "(\<And>p n x. (p, n) \<in> L \<Longrightarrow> p \<le> x \<Longrightarrow> x < p + n \<Longrightarrow> x mod 8 = 0 \<Longrightarrow> wd h' x = wd h x) \<Longrightarrow> data_kept L h h'"
  unfolding data_kept_def by (intro allI impI)

lemma data_kept_refl: "wd h' = wd h \<Longrightarrow> data_kept L h h'"
  by (simp add: data_kept_def)

lemma data_kept_trans:
  assumes "data_kept L h h'" "data_kept L h' h''"
  shows "data_kept L h h''"
proof (rule data_keptI)
  fix p n x assume "(p, n) \<in> L" "p \<le> x" "x < p + n" "x mod 8 = 0"
  from data_keptD [OF assms(1) this] data_keptD [OF assms(2) this] show "wd h'' x = wd h x" by simp
qed

lemma data_kept_mono:
  assumes "data_kept L h h'" "K \<subseteq> L"
  shows "data_kept K h h'"
proof (rule data_keptI)
  fix p n x assume "(p, n) \<in> K" "p \<le> x" "x < p + n" "x mod 8 = 0"
  from data_keptD [OF assms(1) subsetD [OF assms(2) this(1)] this(2-4)] show "wd h' x = wd h x" .
qed

lemma data_kept_Un:
  assumes "data_kept K h h'" "data_kept L h h'"
  shows "data_kept (K \<union> L) h h'"
proof (rule data_keptI)
  fix p n x assume "(p, n) \<in> K \<union> L" and x: "p \<le> x" "x < p + n" "x mod 8 = 0"
  then show "wd h' x = wd h x"
    using data_keptD [OF assms(1) _ x] data_keptD [OF assms(2) _ x] by (elim UnE)
qed

section \<open>What the parts of the heap leave alone\<close>

lemma data_users:
  assumes "U (c - 16) = Some n" "4056 \<le> n" "16 \<le> c" "c \<le> x" "x < c + 4040"
  shows "users C U x"
  unfolding users_def using assms by (intro disjI1 exI [of _ "c - 16"] exI [of _ n]) auto

lemma small_okD:
  assumes "small_ok w hp full nonfull cache S X"
  shows "distinct (full @ nonfull)" "cache \<notin> set full \<union> set nonfull"
    "S c \<noteq> None \<longleftrightarrow> c \<in> set full \<union> set nonfull \<or> c = cache \<and> cache \<noteq> 0"
    "S c = Some (fs, us, m) \<Longrightarrow> slab w hp c fs us m" "S c = Some (fs, us, m) \<Longrightarrow> c \<in> set full \<longleftrightarrow> fs = [] \<and> m = 0"
    "S c = Some (fs, us, m) \<Longrightarrow> c \<notin> X \<Longrightarrow> c = cache \<longleftrightarrow> us = {}"
  using assms unfolding small_ok_def by blast+

lemma small_ok_keep:
  assumes ok: "small_ok w hp full nonfull cache S X" and U: "slabs_used U S" and k: "\<And>x. users C U x \<Longrightarrow> w' x = w x"
  shows "small_ok w' hp full nonfull cache S X"
proof -
  have "slab w' hp c fs us m" if S: "S c = Some (fs, us, m)" for c fs us m
  proof (rule slab_cong [OF small_okD(4) [OF ok S]])
    obtain n where n: "16 \<le> c" "U (c - 16) = Some n" "4056 \<le> n" using U S by (fastforce simp: slabs_used_def)
    show "w' x = w x" if "c \<le> x" "x < c + 4040" for x
      using k data_users [where U = U, OF n(2,3,1) that] by blast
  qed
  then show ?thesis using ok unfolding small_ok_def by blast
qed

lemma sys_okD:
  assumes "sys_ok env n A C G R"
  shows "dom R = set A" "distinct A" "R s = Some r \<Longrightarrow> 0 < s \<and> 0 < r \<and> s mod 16 = 0 \<and> s + r \<le> 2 ^ 62"
    "R s = Some r \<Longrightarrow> \<exists>j<n. env j r = (s, r)" "R s = Some r \<Longrightarrow> R s' = Some r' \<Longrightarrow> s < s' \<Longrightarrow> s + r \<le> s'"
    "C k = Some (s, t) \<Longrightarrow> k = s + 64 \<and> R s = Some (t + 96)" "G u = Some (s, z) \<Longrightarrow> u = s + 80 \<and> R s = Some (z + 80)"
  using assms unfolding sys_ok_def by blast+

text \<open>A large block lies outside the chunks.\<close>

lemma large_users:
  assumes sys: "sys_ok env n A C G R" and G: "G u = Some (s, z)" and ne: "\<And>k t. C k \<noteq> Some (s, t)"
    and x: "s \<le> x" "x < s + 80 + z"
  shows "users C U x"
proof -
  have "x < s' \<or> k + t + 16 \<le> x" if k: "C k = Some (s', t)" for k s' t
  proof -
    have R: "R s = Some (z + 80)" "R s' = Some (t + 96)" "k = s' + 64"
      using sys_okD(6) [OF sys k] sys_okD(7) [OF sys G] by auto
    have "s \<noteq> s'" using ne k by auto
    then show ?thesis
      using sys_okD(5) [OF sys R(1,2)] sys_okD(5) [OF sys R(2,1)] x R(3)
      by (cases s s' rule: linorder_cases) auto
  qed
  then show ?thesis unfolding users_def by blast
qed

lemma large_okD:
  assumes "large_ok w hp G"
  shows "finite (dom G)" "G u = Some (s, z) \<Longrightarrow> 0 < z" "G u = Some (s, z) \<Longrightarrow> w s = STBM_SYSTEM_ALLOC_LARGE"
    "G u = Some (s, z) \<Longrightarrow> w (s + 48) = s \<and> w (s + 56) = z \<and> w (s + 64) = hp \<and> w (s + 72) = TYPE_large"
  using assms unfolding large_ok_def by blast+

lemma large_not_chunk:
  assumes "heap_state h B C X P" "large_ok (wd h) hp G" "G u = Some (s, z)"
  shows "C k \<noteq> Some (s, t)"
proof
  assume k: "C k = Some (s, t)"
  have "headers (wd h) (heap_addr h) B C X P" using assms(1) by (simp add: heap_state_def)
  from headersD(2) [OF this k] large_okD(3) [OF assms(2,3)] show False
    by (simp add: chunk_header_def STBM_SYSTEM_ALLOC_MEDIUM_def STBM_SYSTEM_ALLOC_LARGE_def)
qed

lemma large_ok_keep:
  assumes ok: "large_ok w hp G" and sys: "sys_ok env n A C G R" and ne: "\<And>u s z k t. G u = Some (s, z) \<Longrightarrow> C k \<noteq> Some (s, t)"
    and k: "\<And>x. users C U x \<Longrightarrow> w' x = w x"
  shows "large_ok w' hp G"
proof -
  have "w' x = w x" if "G u = Some (s, z)" "x \<in> {s, s + 48, s + 56, s + 64, s + 72}" for u s z x
    using large_users [OF sys that(1) ne [OF that(1)], of x U] that(2) k by auto
  then show ?thesis using ok unfolding large_ok_def by auto
qed

text \<open>Writes inside a small chunk.\<close>

lemma slab_write:
  assumes sh: "shape B C" and c: "used B (c - 16) = Some n" "4056 \<le> n" "16 \<le> c"
    and w: "\<And>x. x < c \<or> c + 4040 \<le> x \<Longrightarrow> w' x = w x"
  shows "users C ((used B)(c - 16 := None)) x \<Longrightarrow> w' x = w x" "\<not> users C (used B) x \<Longrightarrow> w' x = w x"
proof -
  have B: "B (c - 16) = Some (n, False)" using c(1) by (simp add: used_Some)
  show "w' x = w x" if "users C ((used B)(c - 16 := None)) x"
    using users_apart [OF sh B that] c(2,3) by (intro w) (auto simp: map_le_def)
  show "w' x = w x" if "\<not> users C (used B) x"
    using data_users [where U = "used B", OF c, of x C] that by (intro w) (meson not_less)
qed

lemma slabs_used_minus:
  assumes "slabs_used U S" "16 \<le> c"
  shows "slabs_used (U(c - 16 := None)) (S(c := None))"
proof -
  have "16 \<le> d \<and> (\<exists>n. (U(c - 16 := None)) (d - 16) = Some n \<and> 4056 \<le> n)" if d: "(S(c := None)) d \<noteq> None" for d
  proof -
    have dc: "d \<noteq> c" "S d \<noteq> None" using d by (auto split: if_splits)
    then have "16 \<le> d \<and> (\<exists>n. U (d - 16) = Some n \<and> 4056 \<le> n)" using assms(1) unfolding slabs_used_def by blast
    moreover from this have "d - 16 \<noteq> c - 16" using dc(1) assms(2) by arith
    ultimately show ?thesis by simp
  qed
  then show ?thesis unfolding slabs_used_def by blast
qed

lemma slabs_used_upd: "slabs_used U S \<Longrightarrow> S c \<noteq> None \<Longrightarrow> slabs_used U (S(c \<mapsto> v))"
  unfolding slabs_used_def by auto

lemma stbm_stateD:
  assumes "stbm_state env h B C P S G R X"
  shows "heap_state h B C {} P" "flags_ok P B C"
    "small_ok (wd h) (heap_addr h) (small_full h) (small_nonfull h) (chunkcache h) S X" "slabs_used (used B) S"
    "large_ok (wd h) (heap_addr h) G" "sys_ok env (sys_calls h) (system_allocs h) C G R" "stats_ok h (used B) S G"
    "settings_ok h" "shape B C" "config_ok h"
  using assms unfolding stbm_state_def heap_state_def by blast+

lemma small_ok_finite: "small_ok w hp full nonfull cache S X \<Longrightarrow> finite (dom S)"
  by (rule finite_subset [of _ "set full \<union> set nonfull \<union> {cache}"]) (auto simp: small_ok_def)

text \<open>The users' blocks without those of a small chunk, a medium block or a large one.\<close>

lemma live_slab:
  assumes S: "S c = Some (fs, us, m)" and c: "16 \<le> c"
  shows "live U S G = live (U(c - 16 := None)) (S(c := None)) G \<union> {(b + 8, 8) | b. b \<in> us}" (is "?L = ?M \<union> ?N")
proof (intro equalityI subsetI)
  fix y assume "y \<in> ?L"
  then consider (large) u z s where "y = (u, z)" "G u = Some (s, z)"
    | (small) d ds ds' l b where "S d = Some (ds, ds', l)" "b \<in> ds'" "y = (b + 8, 8)"
    | (medium) a l where "U a = Some l" "S (a + 16) = None" "y = (a + 16, l - 16)"
    unfolding live_def by blast
  then show "y \<in> ?M \<union> ?N"
  proof cases
    case small
    show ?thesis
    proof (cases "d = c")
      case False
      then have "(S(c := None)) d = Some (ds, ds', l)" using small(1) by simp
      then show ?thesis using small(2,3) unfolding live_def by blast
    qed (use small S in auto)
  next
    case medium
    have "a + 16 \<noteq> c" using medium(2) S by auto
    then have "(U(c - 16 := None)) a = Some l" "(S(c := None)) (a + 16) = None" using medium(1,2) c by auto
    then show ?thesis using medium(3) unfolding live_def by blast
  qed (simp add: live_def)
next
  fix y assume "y \<in> ?M \<union> ?N"
  then consider (large) u z s where "y = (u, z)" "G u = Some (s, z)"
    | (small) d ds ds' l b where "(S(c := None)) d = Some (ds, ds', l)" "b \<in> ds'" "y = (b + 8, 8)"
    | (medium) a l where "(U(c - 16 := None)) a = Some l" "(S(c := None)) (a + 16) = None" "y = (a + 16, l - 16)"
    | (cell) b where "b \<in> us" "y = (b + 8, 8)"
    unfolding live_def by blast
  then show "y \<in> ?L"
  proof cases
    case small
    then have "S d = Some (ds, ds', l)" by (simp split: if_splits)
    then show ?thesis using small(2,3) unfolding live_def by blast
  next
    case medium
    then have "a + 16 \<noteq> c" by (auto split: if_splits)
    then have "U a = Some l" "S (a + 16) = None" using medium(1,2) by (auto split: if_splits)
    then show ?thesis using medium(3) unfolding live_def by blast
  next
    case cell
    then show ?thesis using S unfolding live_def by blast
  qed (simp add: live_def)
qed

lemma live_medium:
  assumes "U a = Some n" "S (a + 16) = None"
  shows "live U S G = insert (a + 16, n - 16) (live (U(a := None)) S G)"
proof -
  have "(\<exists>b m. U b = Some m \<and> S (b + 16) = None \<and> p = b + 16 \<and> k = m - 16) \<longleftrightarrow>
      p = a + 16 \<and> k = n - 16 \<or> (\<exists>b m. (U(a := None)) b = Some m \<and> S (b + 16) = None \<and> p = b + 16 \<and> k = m - 16)" for p k
  proof -
    have e: "U b = Some m \<longleftrightarrow> b = a \<and> m = n \<or> (U(a := None)) b = Some m" for b m using assms(1) by auto
    show ?thesis using assms(2) by (auto simp: e simp del: fun_upd_apply)
  qed
  then show ?thesis unfolding live_def by auto
qed

lemma live_large:
  assumes "G u = Some (s, z)"
  shows "live U S G = insert (u, z) (live U S (G(u := None)))"
  using assms by (auto simp: live_def split: if_splits)

text \<open>Their words are the users'.\<close>

lemma live_users:
  assumes U: "slabs_used U S" and S: "\<And>c fs us m. S c = Some (fs, us, m) \<Longrightarrow> slab w hp c fs us m"
    and sys: "sys_ok env n A C G R" and ne: "\<And>u s z k t. G u = Some (s, z) \<Longrightarrow> C k \<noteq> Some (s, t)"
    and y: "(p, z) \<in> live U S G" "p \<le> x" "x < p + z"
  shows "users C U x"
proof -
  from y(1) consider (large) s where "G p = Some (s, z)"
    | (small) c fs us m b where "S c = Some (fs, us, m)" "b \<in> us" "p = b + 8" "z = 8"
    | (medium) a l where "U a = Some l" "p = a + 16" "z = l - 16"
    unfolding live_def by blast
  then show ?thesis
  proof cases
    case large
    then show ?thesis
      using sys_okD(7) [OF sys large] large_users [OF sys large ne [OF large], of x U] y(2,3) by simp
  next
    case small
    obtain l where l: "16 \<le> c" "U (c - 16) = Some l" "4056 \<le> l" using U small(1) by (fastforce simp: slabs_used_def)
    have "b \<in> cells_from c m" by (rule slabD(15) [OF S [OF small(1)] small(2)])
    from cells_from_range [OF this] show ?thesis
      using y(2,3) small(3,4) by (intro data_users [where U = U, OF l(2,3,1)]) auto
  next
    case medium
    then show ?thesis using y(2,3) by (unfold users_def, intro disjI1 exI [of _ a] exI [of _ l]) simp
  qed
qed

lemma users_data_kept:
  assumes k: "\<And>x. users C U x \<Longrightarrow> wd h' x = wd h x" and U: "slabs_used U S"
    and S: "\<And>c fs us m. S c = Some (fs, us, m) \<Longrightarrow> slab w hp c fs us m"
    and sys: "sys_ok env n A C G R" and ne: "\<And>u s z k t. G u = Some (s, z) \<Longrightarrow> C k \<noteq> Some (s, t)"
  shows "data_kept (live U S G) h h'"
  by (rule data_keptI, rule k, rule live_users [OF U S sys ne]) 

lemma slab_sum_upd:
  assumes "finite (dom S)" "S c = Some (fs, us, m)"
  shows "(\<Sum>d \<in> dom S. slab_cells (S(c \<mapsto> (fs', us', m'))) d) + card us = (\<Sum>d \<in> dom S. slab_cells S d) + card us'"
proof -
  have c: "c \<in> dom S" using assms(2) by blast
  have "(\<Sum>d \<in> dom S - {c}. slab_cells (S(c \<mapsto> (fs', us', m'))) d) = (\<Sum>d \<in> dom S - {c}. slab_cells S d)"
    by (rule sum.cong) (auto simp: slab_cells_def)
  moreover have "dom (S(c \<mapsto> (fs', us', m'))) = dom S" "slab_cells (S(c \<mapsto> (fs', us', m'))) c = card us'" "slab_cells S c = card us"
    using assms(2) by (auto simp: slab_cells_def)
  ultimately show ?thesis
    using sum.remove [OF assms(1) c, of "slab_cells S"] sum.remove [OF assms(1) c, of "slab_cells (S(c \<mapsto> (fs', us', m')))"]
    by simp
qed

text \<open>The data of the users when a small chunk changes.\<close>

lemma slab_data_kept:
  assumes st: "stbm_state env h B C P S G R X" and S: "S c = Some (fs, us, m)"
    and w: "\<And>x. x < c \<or> c + 4040 \<le> x \<or> (\<exists>b \<in> vs. x = b + 8) \<Longrightarrow> wd h' x = wd h x" and vs: "vs \<subseteq> us"
  shows "data_kept (live (used B) (S(c \<mapsto> (fs', vs, m'))) G) h h'"
proof -
  note d = stbm_stateD [OF st]
  obtain n where n: "16 \<le> c" "used B (c - 16) = Some n" "4056 \<le> n"
    using d(4) S by (fastforce simp: slabs_used_def)
  let ?U = "(used B)(c - 16 := None)" and ?S = "S(c := None)"
  have k: "wd h' x = wd h x" if "users C ?U x" for x
    using slab_write(1) [OF d(9) n(2,3,1), of "wd h'" "wd h"] w that by blast
  have sl: "slab (wd h) (heap_addr h) d ds ds' l" if "?S d = Some (ds, ds', l)" for d ds ds' l
    using that small_okD(4) [OF d(3)] by (auto split: if_splits)
  have "data_kept (live ?U ?S G) h h'"
    by (rule users_data_kept [OF k slabs_used_minus [OF d(4) n(1)] sl d(6) large_not_chunk [OF d(1,5)]])
  moreover have "data_kept {(b + 8, 8) | b. b \<in> vs} h h'"
  proof (rule data_keptI)
    fix p z x assume "(p, z) \<in> {(b + 8, 8) | b. b \<in> vs}" "p \<le> x" "x < p + z" "x mod 8 = 0"
    then obtain b where b: "b \<in> vs" "b + 8 \<le> x" "x < b + 16" "x mod 8 = 0" by auto
    have "b \<in> cells_from c m" using slabD(15) [OF small_okD(4) [OF d(3) S]] b(1) vs by auto
    moreover have "c mod 16 = 0" by (rule slabD(2) [OF small_okD(4) [OF d(3) S]])
    moreover have "b mod 8 = c mod 8" using cells_from_range calculation(1) by blast
    ultimately have "b mod 8 = 0" by presburger
    with b(2-4) have "x = b + 8" by presburger
    then show "wd h' x = wd h x" using w b(1) by blast
  qed
  moreover have "live (used B) (S(c \<mapsto> (fs', vs, m'))) G \<subseteq> live ?U ?S G \<union> {(b + 8, 8) | b. b \<in> vs}"
    using live_slab [of "S(c \<mapsto> (fs', vs, m'))" c, OF _ n(1)] by simp
  ultimately show ?thesis by (rule data_kept_mono [OF data_kept_Un])
qed

text \<open>The users' blocks are apart from each other.\<close>

lemma interval_apart:
  fixes p q :: nat
  assumes "\<And>x. p \<le> x \<Longrightarrow> x < p + n \<Longrightarrow> x < l \<or> r \<le> x" "0 < n" "l < r"
  shows "p + n \<le> l \<or> r \<le> p"
  using assms(1) [of p] assms(1) [of l] assms(2,3) by (cases "p \<le> l"; cases "l < p + n") auto

lemma live_pos:
  assumes "stbm_state env h B C P S G R X" "(p, n) \<in> live (used B) S G"
  shows "0 < n"
  using assms(2) shapeD(3) [OF stbm_stateD(9) [OF assms(1)]] large_okD(2) [OF stbm_stateD(5) [OF assms(1)]]
  by (fastforce simp: live_def used_Some)

lemma live_minus_slab:
  assumes st: "stbm_state env h B C P S G R X" and S: "S c = Some (fs, us, m)"
    and q: "(q, k) \<in> live ((used B)(c - 16 := None)) (S(c := None)) G"
  shows "q + k \<le> c \<or> c + 4040 \<le> q"
proof -
  note d = stbm_stateD [OF st]
  obtain n where n: "16 \<le> c" "used B (c - 16) = Some n" "4056 \<le> n" using d(4) S by (fastforce simp: slabs_used_def)
  then have Bc: "B (c - 16) = Some (n, False)" by (simp add: used_Some)
  have sl: "slab (wd h) (heap_addr h) d ds ds' l" if "(S(c := None)) d = Some (ds, ds', l)" for d ds ds' l
    using that small_okD(4) [OF d(3)] by (auto split: if_splits)
  have "users C ((used B)(c - 16 := None)) x" if "q \<le> x" "x < q + k" for x
    by (rule live_users [OF slabs_used_minus [OF d(4) n(1)] sl d(6) large_not_chunk [OF d(1,5)] q that])
  then have "x < c - 16 \<or> c - 16 + n + 16 \<le> x" if "q \<le> x" "x < q + k" for x
    using users_apart [OF d(9) Bc, of "(used B)(c - 16 := None)" x] that by (simp add: map_le_def)
  moreover have "(q, k) \<in> live (used B) S G" using q live_slab [where S = S, OF S n(1)] by blast
  then have "0 < k" by (rule live_pos [OF st])
  ultimately have "q + k \<le> c - 16 \<or> c - 16 + n + 16 \<le> q" using n(3) by (intro interval_apart) auto
  then show ?thesis using n by auto
qed

lemma live_minus_medium:
  assumes st: "stbm_state env h B C P S G R X" and a: "used B a = Some n" "S (a + 16) = None"
    and q: "(q, k) \<in> live ((used B)(a := None)) S G"
  shows "q + k \<le> a \<or> a + n + 16 \<le> q"
proof -
  note d = stbm_stateD [OF st]
  have Ba: "B a = Some (n, False)" using a(1) by (simp add: used_Some)
  have su: "slabs_used ((used B)(a := None)) S"
    using d(4) a(2) unfolding slabs_used_def by (metis fun_upd_apply le_add_diff_inverse2)
  have "users C ((used B)(a := None)) x" if "q \<le> x" "x < q + k" for x
    by (rule live_users [OF su small_okD(4) [OF d(3)] d(6) large_not_chunk [OF d(1,5)] q that])
  then have "x < a \<or> a + n + 16 \<le> x" if "q \<le> x" "x < q + k" for x
    using users_apart [OF d(9) Ba, of "(used B)(a := None)" x] that by (simp add: map_le_def)
  moreover have "(q, k) \<in> live (used B) S G" using q live_medium [where U = "used B" and S = S, OF a] by blast
  then have "0 < k" by (rule live_pos [OF st])
  ultimately show ?thesis by (intro interval_apart) auto
qed

lemma live_minus_large:
  assumes st: "stbm_state env h B C P S G R X" and G: "G u = Some (s, z)"
    and q: "(q, k) \<in> live (used B) S (G(u := None))"
  shows "q + k \<le> s \<or> u + z \<le> q"
proof -
  note d = stbm_stateD [OF st]
  note sy = sys_okD [OF d(6)]
  have u: "u = s + 80" "R s = Some (z + 80)" using sy(7) [OF G] by auto
  have k: "0 < k" using live_pos [OF st, of q k] q live_large [where U = "used B" and S = S and G = G, OF G] by blast
  from q consider (large) s' where "q \<noteq> u" "G q = Some (s', k)"
    | (small) c fs us m b where "S c = Some (fs, us, m)" "b \<in> us" "q = b + 8" "k = 8"
    | (medium) a l where "used B a = Some l" "q = a + 16" "k = l - 16"
    unfolding live_def by (auto split: if_splits)
  then show ?thesis
  proof cases
    case large
    have q': "q = s' + 80" "R s' = Some (k + 80)" using sy(7) [OF large(2)] by auto
    then have "s \<noteq> s'" using large(1) u by auto
    then show ?thesis
      using sy(5) [OF u(2) q'(2)] sy(5) [OF q'(2) u(2)] u q' by (cases s s' rule: linorder_cases) auto
  next
    text \<open>The others lie in blocks.\<close>
    have blk: ?thesis if b: "B b = Some (l, f)" "b \<le> q" "q + k \<le> b + l" for b l f
    proof -
      obtain j s' t where j: "C j = Some (s', t)" "j \<le> b" "b + l \<le> j + t"
        using shapeD(4) [OF d(9) b(1)] by (auto simp: in_chunk_def)
      have R: "R s' = Some (t + 96)" "j = s' + 64" using sy(6) [OF j(1)] by auto
      have "s \<noteq> s'" using large_not_chunk [OF d(1,5) G] j(1) by auto
      then show ?thesis
        using sy(5) [OF u(2) R(1)] sy(5) [OF R(1) u(2)] u R(2) j b(2,3) by (cases s s' rule: linorder_cases) auto
    qed
    {
      case small
      obtain n where n: "16 \<le> c" "used B (c - 16) = Some n" "4056 \<le> n"
        using d(4) small(1) by (fastforce simp: slabs_used_def)
      have "b \<in> cells_from c m" by (rule slabD(15) [OF small_okD(4) [OF d(3) small(1)] small(2)])
      from cells_from_range [OF this] show ?thesis
        using n small(3,4) by (intro blk [of "c - 16" n False]) (auto simp: used_Some)
    next
      case medium
      have "16 \<le> l" using shapeD(3) [OF d(9), of a l False] medium(1) by (simp add: used_Some)
      then show ?thesis using blk [of a l False] medium by (simp add: used_Some)
    }
  qed
qed

theorem live_apart:
  assumes st: "stbm_state env h B C P S G R X" and L: "(p, n) \<in> live (used B) S G" "(q, k) \<in> live (used B) S G"
    and ne: "(p, n) \<noteq> (q, k)"
  shows "p + n \<le> q \<or> q + k \<le> p"
proof -
  note d = stbm_stateD [OF st]
  from L(1) consider (large) s where "G p = Some (s, n)"
    | (small) c fs us m b where "S c = Some (fs, us, m)" "b \<in> us" "p = b + 8" "n = 8"
    | (medium) a l where "used B a = Some l" "S (a + 16) = None" "p = a + 16" "n = l - 16"
    unfolding live_def by blast
  then show ?thesis
  proof cases
    case large
    have "(q, k) \<in> live (used B) S (G(p := None))" using L(2) ne live_large [where U = "used B" and S = S and G = G, OF large] by auto
    from live_minus_large [OF st large this] show ?thesis using sys_okD(7) [OF d(6) large] by auto
  next
    case small
    have c: "16 \<le> c" using d(4) small(1) by (fastforce simp: slabs_used_def)
    have bc: "x \<in> cells_from c m" if "x \<in> us" for x
      by (rule slabD(15) [OF small_okD(4) [OF d(3) small(1)] that])
    from L(2) live_slab [where S = S, OF small(1) c]
    have "(q, k) \<in> live ((used B)(c - 16 := None)) (S(c := None)) G \<or> (\<exists>b' \<in> us. q = b' + 8 \<and> k = 8)" by blast
    then show ?thesis
    proof
      assume "(q, k) \<in> live ((used B)(c - 16 := None)) (S(c := None)) G"
      from live_minus_slab [OF st small(1) this] show ?thesis
        using cells_from_range [OF bc [OF small(2)]] small(3,4) by auto
    next
      assume "\<exists>b' \<in> us. q = b' + 8 \<and> k = 8"
      then obtain b' where b': "b' \<in> us" "q = b' + 8" "k = 8" by blast
      then have "b' \<noteq> b" using ne small(3,4) by auto
      then show ?thesis using cells_from_apart [OF bc [OF small(2)] bc [OF b'(1)]] b' small(3,4) by auto
    qed
  next
    case medium
    have "(q, k) \<in> live ((used B)(a := None)) S G"
      using L(2) ne live_medium [where U = "used B" and S = S, OF medium(1,2)] medium(3,4) by auto
    from live_minus_medium [OF st medium(1,2) this] show ?thesis using medium(3,4) by auto
  qed
qed

section \<open>Allocating a small block\<close>

lemma small_take_state:
  assumes st: "stbm_state env h B C P S G R {c}" and c: "c \<in> set (small_nonfull h)" "size0 \<le> 8"
    and cnt: "cur_outstanding_allocations_count h + 1 < 2 ^ 32" "cur_outstanding_allocations_bytes h + 8 < 2 ^ 64"
  obtains p h' S' where "small_take c size0 h = Inr (p, h')" "stbm_state env h' B C P S' G R {}" "p \<noteq> 0"
    "live (used B) S' G = insert (p, 8) (live (used B) S G)" "(p, 8) \<notin> live (used B) S G"
    "data_kept (live (used B) S G) h h'"
    "cur_outstanding_allocations_count h' = cur_outstanding_allocations_count h + 1"
    "cur_outstanding_allocations_bytes h' = cur_outstanding_allocations_bytes h + 8" "sys_calls h' = sys_calls h"
    "force_debug h' = force_debug h"
proof -
  note d = stbm_stateD [OF st]
  note sm = small_okD [OF d(3)]
  obtain fs us m where S: "S c = Some (fs, us, m)" using sm(3) [of c] c(1) by fastforce
  note sl = sm(4) [OF S]
  have "c \<notin> set (small_full h)" using sm(1) c(1) by auto
  then have room: "fs \<noteq> [] \<or> m \<noteq> 0" using sm(5) [OF S] by auto
  have sz: "smallchunk_size h = 4040" using d(8) by (simp add: settings_ok_def)
  obtain n where n: "16 \<le> c" "used B (c - 16) = Some n" "4056 \<le> n" using d(4) S by (fastforce simp: slabs_used_def)
  obtain b h' fs' m' where t: "small_take c size0 h = Inr (b + 8, h')" "slab (wd h') (heap_addr h) c fs' (insert b us) m'"
    "b \<notin> us" "b \<in> cells_from c m'" "\<forall>x. x < c \<or> c + 4040 \<le> x \<or> (\<exists>b' \<in> us. x = b' + 8) \<longrightarrow> wd h' x = wd h x"
    "h' = stats_update_alloc 8 ((if fs' = [] \<and> m' = 0 then smallchunk_link_full c (smallchunk_unlink_nonfull c h)
       else h)\<lparr>wd := wd h'\<rparr>)"
    by (rule small_take_slab [OF sl room sz c(2)])
  let ?S = "S(c \<mapsto> (fs', insert b us, m'))"
  have f: "heap_addr h' = heap_addr h" "chunkcache h' = chunkcache h" "sys_calls h' = sys_calls h"
    "system_allocs h' = system_allocs h" "settings_ok h'" "free_lists h' = free_lists h" "bitmap h' = bitmap h"
    "toplevel_bitmap h' = toplevel_bitmap h" "config_ok h'"
    "cur_outstanding_allocations_count h' = cur_outstanding_allocations_count h + 1"
    "cur_outstanding_allocations_bytes h' = cur_outstanding_allocations_bytes h + 8"
    "small_full h' = (if fs' = [] \<and> m' = 0 then c # small_full h else small_full h)"
    "small_nonfull h' = (if fs' = [] \<and> m' = 0 then remove1 c (small_nonfull h) else small_nonfull h)"
    "force_debug h' = force_debug h"
    using d(8,10) cnt
    by (subst t(6); auto simp: stats_update_alloc_def Let_def smallchunk_link_full_def smallchunk_unlink_nonfull_def
      settings_ok_def config_ok_def)+
  have k: "wd h' x = wd h x" if "users C ((used B)(c - 16 := None)) x" for x
    using slab_write(1) [OF d(9) n(2,3,1), of "wd h'" "wd h"] t(5) that by blast
  have hs: "heap_state h' B C {} P"
    by (rule heap_state_users [OF d(1)])
      (use slab_write(2) [OF d(9) n(2,3,1), of "wd h'" "wd h"] t(5) f d(1) in \<open>auto simp: heap_state_def\<close>)
  have os: "slab (wd h') (heap_addr h') e es es' l" if e: "?S e = Some (es, es', l)" for e es es' l
  proof (cases "e = c")
    case True
    then show ?thesis using e t(2) f(1) by auto
  next
    case False
    then have e': "S e = Some (es, es', l)" "(S(c := None)) e \<noteq> None" using e by auto
    then obtain l' where l: "16 \<le> e" "((used B)(c - 16 := None)) (e - 16) = Some l'" "4056 \<le> l'"
      using slabs_used_minus [OF d(4) n(1)] unfolding slabs_used_def by blast
    show ?thesis
      unfolding f(1)
      by (rule slab_cong [OF sm(4) [OF e'(1)]])
        (use k data_users [where U = "(used B)(c - 16 := None)", OF l(2,3,1)] in blast)
  qed
  have sm': "small_ok (wd h') (heap_addr h') (small_full h') (small_nonfull h') (chunkcache h') ?S {}"
    unfolding small_ok_def
  proof (intro conjI allI impI)
    show "distinct (small_full h' @ small_nonfull h')" using sm(1) c(1) \<open>c \<notin> set (small_full h)\<close> f(12,13) by auto
    show "chunkcache h' \<notin> set (small_full h') \<union> set (small_nonfull h')"
      using sm(1,2) c(1) f(2,12,13) by auto
    show "?S e \<noteq> None \<longleftrightarrow> e \<in> set (small_full h') \<union> set (small_nonfull h') \<or> e = chunkcache h' \<and> chunkcache h' \<noteq> 0" for e
      using sm(1) sm(3) [of e] c(1) S f(2,12,13) by auto
    fix e es es' l assume e: "?S e = Some (es, es', l)"
    show "slab (wd h') (heap_addr h') e es es' l" by (rule os [OF e])
    show "e \<in> set (small_full h') \<longleftrightarrow> es = [] \<and> l = 0"
      using e sm(5) [of e es es' l] \<open>c \<notin> set (small_full h)\<close> f(12) by (cases "e = c") auto
    show "e = chunkcache h' \<longleftrightarrow> es' = {}"
      using e sm(2) sm(6) [of e es es' l] c(1) f(2) by (cases "e = c") auto
  qed
  have lo: "large_ok (wd h') (heap_addr h') G"
    unfolding f(1) by (rule large_ok_keep [OF d(5,6) large_not_chunk [OF d(1,5)] k])
  have fin: "finite us" "card (insert b us) = card us + 1" using slab_card [OF sl] t(3) by auto
  have "stats_ok h' (used B) ?S G"
  proof -
    have "dom ?S = dom S" using S by auto
    then show ?thesis
      using d(7) slab_sum_upd [OF small_ok_finite [OF d(3)] S, of fs' "insert b us" m'] fin(2) f(10,11)
      by (simp add: stats_ok_def)
  qed
  moreover have "slabs_used (used B) ?S" using slabs_used_upd [OF d(4)] S by simp
  ultimately have "stbm_state env h' B C P ?S G R {}"
    using hs d(2) sm' lo d(6) f(1-5) by (simp add: stbm_state_def)
  moreover have ls: "live (used B) S G = live ((used B)(c - 16 := None)) (S(c := None)) G \<union> {(b + 8, 8) | b. b \<in> us}"
    by (rule live_slab [where S = S, OF S n(1)])
  have "live (used B) ?S G = live ((used B)(c - 16 := None)) (S(c := None)) G \<union> {(x + 8, 8) | x. x \<in> insert b us}"
    using live_slab [of ?S c, OF _ n(1)] by simp
  then have "live (used B) ?S G = insert (b + 8, 8) (live (used B) S G)" unfolding ls by blast
  moreover have "(b + 8, 8) \<notin> live (used B) S G"
  proof
    assume "(b + 8, 8) \<in> live (used B) S G"
    then have "(b + 8, 8) \<in> live ((used B)(c - 16 := None)) (S(c := None)) G" using ls t(3) by auto
    from live_minus_slab [OF st S this] cells_from_range [OF t(4)] show False by auto
  qed
  moreover have "data_kept (live (used B) S G) h h'"
    using slab_data_kept [OF st S, of us h' fs m] t(5) S by (simp add: fun_upd_idem)
  ultimately show ?thesis using that [OF t(1)] f(3,10,11,14) by simp
qed

end
