(* ===== verification/StbmAlloc.thy ===== *)
theory StbmAlloc
  imports StbmInv
begin

text \<open>
  What the three allocations do to a heap in a good state: they return NULL and leave the users' blocks as they
  are, or add one block that is apart from the others.
\<close>

unbundle bit_operations_syntax

section \<open>The system\<close>

text \<open>
  What \<open>mmap\<close> documents, of a system allocator that never takes memory back: the block has the size that
  was asked for, is aligned and is apart from all the earlier ones; or it is NULL.
\<close>

definition env_ok :: "system_alloc \<Rightarrow> bool" where
  "env_ok env \<longleftrightarrow> (\<forall>j r s f. env j r = (s, f) \<longrightarrow> s \<noteq> 0 \<longrightarrow> f = r \<and> s mod 16 = 0 \<and> s + r \<le> 2 ^ 62) \<and>
     (\<forall>i j r r' s s' f f'. i < j \<longrightarrow> env i r = (s, f) \<longrightarrow> env j r' = (s', f') \<longrightarrow> s \<noteq> 0 \<longrightarrow> s' \<noteq> 0 \<longrightarrow> 0 < r \<longrightarrow> 0 < r' \<longrightarrow>
        s + r \<le> s' \<or> s' + r' \<le> s)"

lemma env_okD:
  assumes "env_ok env"
  shows "env j r = (s, f) \<Longrightarrow> s \<noteq> 0 \<Longrightarrow> f = r \<and> s mod 16 = 0 \<and> s + r \<le> 2 ^ 62"
    "i < j \<Longrightarrow> env i r = (s, f) \<Longrightarrow> env j r' = (s', f') \<Longrightarrow> s \<noteq> 0 \<Longrightarrow> s' \<noteq> 0 \<Longrightarrow> 0 < r \<Longrightarrow> 0 < r' \<Longrightarrow>
      s + r \<le> s' \<or> s' + r' \<le> s"
  using assms unfolding env_ok_def by blast+

text \<open>A new piece is apart from all the pieces that the heap has.\<close>

lemma sys_ok_fresh:
  assumes env: "env_ok env" and sys: "sys_ok env n A C G R" and new: "env n r = (s, f)" "s \<noteq> 0" "0 < r"
  shows "s \<notin> set A" "R s' = Some r' \<Longrightarrow> s + r \<le> s' \<or> s' + r' \<le> s"
proof -
  have ap: "s + r \<le> s' \<or> s' + r' \<le> s" if R: "R s' = Some r'" for s' r'
  proof -
    obtain j where j: "j < n" "env j r' = (s', r')" using sys_okD(4) [OF sys R] by blast
    have "s' \<noteq> 0" "0 < r'" using sys_okD(3) [OF sys R] by auto
    from env_okD(2) [OF env j(1,2) new(1) this(1) new(2) this(2) new(3)] show ?thesis by auto
  qed
  then show "R s' = Some r' \<Longrightarrow> s + r \<le> s' \<or> s' + r' \<le> s" .
  show "s \<notin> set A"
  proof
    assume "s \<in> set A"
    then obtain r' where r': "R s = Some r'" using sys_okD(1) [OF sys] by blast
    then show False using ap [OF r'] sys_okD(3) [OF sys r'] new(3) by auto
  qed
qed

lemma sys_ok_system_ok:
  assumes env: "env_ok env" and sys: "sys_ok env (sys_calls h) (system_allocs h) C G R"
  shows "system_ok env h C"
  unfolding system_ok_def
proof (intro allI impI)
  fix r s f assume e: "env (sys_calls h) r = (s, f)" "s \<noteq> 0" "0 < r"
  have "s + r \<le> s' \<or> k + t + 16 \<le> s" if k: "C k = Some (s', t)" for k s' t
    using sys_okD(6) [OF sys k] sys_ok_fresh(2) [OF env sys e, of s' "t + 96"] by auto
  then show "f = r \<and> s mod 16 = 0 \<and> s + r \<le> 2 ^ 62 \<and> s \<notin> set (system_allocs h) \<and>
      (\<forall>k s' t. C k = Some (s', t) \<longrightarrow> s + r \<le> s' \<or> k + t + 16 \<le> s)"
    using env_okD(1) [OF env e(1,2)] sys_ok_fresh(1) [OF env sys e] by blast
qed

lemma sys_ok_mono: "sys_ok env n A C G R \<Longrightarrow> n \<le> n' \<Longrightarrow> sys_ok env n' A C G R"
  unfolding sys_ok_def by (meson less_le_trans)

lemma sys_ok_new:
  assumes env: "env_ok env" and sys: "sys_ok env n A C G R" and new: "env n r = (s, r)" "s \<noteq> 0" "0 < r"
  shows "sys_ok env (Suc n) (s # A) C G (R(s \<mapsto> r))"
proof -
  note fr = sys_ok_fresh [OF env sys new]
  have Rs: "R s = None" using fr(1) sys_okD(1) [OF sys] by blast
  note en = env_okD(1) [OF env new(1,2)]
  have "0 < u \<and> 0 < v \<and> u mod 16 = 0 \<and> u + v \<le> 2 ^ 62 \<and> (\<exists>j<Suc n. env j v = (u, v))" if R: "(R(s \<mapsto> r)) u = Some v" for u v
  proof (cases "u = s")
    case True
    then show ?thesis using R new en by auto
  next
    case False
    then have "R u = Some v" using R by simp
    from sys_okD(3) [OF sys this] sys_okD(4) [OF sys this] show ?thesis by (meson less_SucI)
  qed
  moreover have "u + v \<le> u'" if R: "(R(s \<mapsto> r)) u = Some v" "(R(s \<mapsto> r)) u' = Some v'" "u < u'" for u v u' v'
    using R sys_okD(5) [OF sys, of u v u' v'] fr(2) [of u v] fr(2) [of u' v'] new(3)
      sys_okD(3) [OF sys, of u v] sys_okD(3) [OF sys, of u' v'] by (auto split: if_splits)
  moreover have "C k = Some (u, t) \<Longrightarrow> k = u + 64 \<and> (R(s \<mapsto> r)) u = Some (t + 96)" for k u t
    using sys_okD(6) [OF sys] Rs by fastforce
  moreover have "G w = Some (u, z) \<Longrightarrow> w = u + 80 \<and> (R(s \<mapsto> r)) u = Some (z + 80)" for w u z
    using sys_okD(7) [OF sys] Rs by fastforce
  moreover have "dom (R(s \<mapsto> r)) = set (s # A)" "distinct (s # A)"
    using fr(1) sys_okD(1,2) [OF sys] by auto
  ultimately show ?thesis unfolding sys_ok_def by blast
qed

lemma sys_ok_chunk:
  assumes "sys_ok env n A C G R" "R s = Some (t + 96)"
  shows "sys_ok env n A (C(s + 64 \<mapsto> (s, t))) G R"
  using assms unfolding sys_ok_def by (auto split: if_splits)

lemma sys_ok_large:
  assumes "sys_ok env n A C G R" "R s = Some (z + 80)"
  shows "sys_ok env n A C (G(s + 80 \<mapsto> (s, z))) R"
  using assms unfolding sys_ok_def by (auto split: if_splits)

lemma sys_ok_grows:
  assumes env: "env_ok env" and sys: "sys_ok env (sys_calls h) (system_allocs h) C G R" and g: "sys_grows env h C h' C'"
  obtains R' where "sys_ok env (sys_calls h') (system_allocs h') C' G R'"
    "\<And>k s t u z. C' k = Some (s, t) \<Longrightarrow> G u = Some (s, z) \<Longrightarrow> \<exists>k'. C k' = Some (s, t)" "C \<subseteq>\<^sub>m C'"
  using g unfolding sys_grows_def
proof (elim disjE exE conjE)
  assume "C' = C" "system_allocs h' = system_allocs h" "sys_calls h \<le> sys_calls h'"
  then show ?thesis using that [of R] sys_ok_mono [OF sys] by fastforce
next
  fix s n
  assume n: "env (sys_calls h) (n + 96) = (s, n + 96)" "s \<noteq> 0" "C (s + 64) = None" "C' = C(s + 64 \<mapsto> (s, n))"
    "system_allocs h' = s # system_allocs h" "sys_calls h' = Suc (sys_calls h)"
  have s: "s \<notin> set (system_allocs h)" by (rule sys_ok_fresh(1) [OF env sys n(1,2)]) simp
  have "sys_ok env (sys_calls h') (system_allocs h') C G (R(s \<mapsto> n + 96))"
    unfolding n(5,6) by (rule sys_ok_new [OF env sys n(1,2)]) simp
  then have "sys_ok env (sys_calls h') (system_allocs h') C' G (R(s \<mapsto> n + 96))"
    unfolding n(4) by (rule sys_ok_chunk) simp
  moreover have "\<exists>k'. C k' = Some (s', t)" if k: "C' k = Some (s', t)" and u: "G u = Some (s', z)" for k s' t u z
  proof -
    have "s' \<noteq> s" using sys_okD(7) [OF sys u] s sys_okD(1) [OF sys] by auto
    then show ?thesis using k n(4) by (auto split: if_splits)
  qed
  moreover have "C \<subseteq>\<^sub>m C'" using n(3,4) by (auto simp: map_le_def)
  ultimately show ?thesis by (rule that)
qed

section \<open>Allocating a medium block\<close>

text \<open>The counters of the heap grow by at most this much, and the setting for debugging stays.\<close>

definition adds :: "nat \<Rightarrow> nat \<Rightarrow> nat \<Rightarrow> stbm_heap \<Rightarrow> stbm_heap \<Rightarrow> bool" where
  "adds a b c h h' \<longleftrightarrow> sys_calls h \<le> sys_calls h' \<and> sys_calls h' \<le> sys_calls h + c \<and>
     cur_outstanding_allocations_count h' \<le> cur_outstanding_allocations_count h + a \<and>
     cur_outstanding_allocations_bytes h' \<le> cur_outstanding_allocations_bytes h + b \<and>
     force_debug h' = force_debug h"

lemma adds_trans: "adds a b c h h' \<Longrightarrow> adds a' b' c' h' h'' \<Longrightarrow> adds (a + a') (b + b') (c + c') h h''"
  by (simp add: adds_def)

lemma adds_mono: "adds a b c h h' \<Longrightarrow> a \<le> a' \<Longrightarrow> b \<le> b' \<Longrightarrow> c \<le> c' \<Longrightarrow> adds a' b' c' h h'"
  by (simp add: adds_def)

lemma slabs_used_le: "slabs_used U S \<Longrightarrow> U \<subseteq>\<^sub>m V \<Longrightarrow> slabs_used V S"
  unfolding slabs_used_def map_le_def by (metis domI)

lemma settings_other: "other_fields h' = other_fields h \<Longrightarrow> settings_ok h' = settings_ok h"
  using other_fieldsD [of h' h] by (simp add: settings_ok_def)

text \<open>What is not in the chunks' headers and free blocks stays.\<close>

lemma keep_rest:
  assumes st: "stbm_state env h B C P S G R {}" and k: "keeps_data C' (used B) h h'" and o: "other_fields h' = other_fields h"
    and sys: "sys_ok env n A C' G R'" and ne': "\<forall>u s z k t. G u = Some (s, z) \<longrightarrow> C' k \<noteq> Some (s, t)"
  shows "small_ok (wd h') (heap_addr h') (small_full h') (small_nonfull h') (chunkcache h') S {}"
    "large_ok (wd h') (heap_addr h') G" "settings_ok h'" "data_kept (live (used B) S G) h h'"
proof -
  note d = stbm_stateD [OF st]
  have ne: "C' k \<noteq> Some (s, t)" if "G u = Some (s, z)" for u s z k t using ne' that by blast
  have w: "wd h' x = wd h x" if "users C' (used B) x" for x using k that by (simp add: keeps_data_def)
  show "small_ok (wd h') (heap_addr h') (small_full h') (small_nonfull h') (chunkcache h') S {}"
    using small_ok_keep [OF d(3,4) w] other_fieldsD [OF o] by simp
  show "large_ok (wd h') (heap_addr h') G"
    using large_ok_keep [OF d(5) sys ne w] other_fieldsD(1) [OF o] by simp
  show "settings_ok h'" using d(8) settings_other [OF o] by simp
  show "data_kept (live (used B) S G) h h'"
    by (rule users_data_kept [OF w d(4) small_okD(4) [OF d(3)] sys ne])
qed

lemma stats_ok_add:
  assumes "stats_ok h U S G" "finite (dom U)" "U a = None" "16 \<le> n"
    and "cur_outstanding_allocations_count h' = cur_outstanding_allocations_count h + 1"
      "cur_outstanding_allocations_bytes h' = cur_outstanding_allocations_bytes h + (n - 16)"
  shows "stats_ok h' (U(a \<mapsto> n)) S G"
proof -
  have a: "a \<notin> dom U" using assms(3) by blast
  have "(\<Sum>b \<in> dom U. the ((U(a \<mapsto> n)) b) - 16) = (\<Sum>b \<in> dom U. the (U b) - 16)"
    by (rule sum.cong) (use a in auto)
  then show ?thesis using assms a by (simp add: stats_ok_def)
qed

lemma used_finite: "shape B C \<Longrightarrow> finite (dom (used B))"
  by (rule finite_subset [of _ "dom B"]) (auto simp: shape_def used_Some dom_def)

lemma slabs_none: "slabs_used U S \<Longrightarrow> U a = None \<Longrightarrow> S (a + 16) = None"
  unfolding slabs_used_def by (metis add_diff_cancel_right' option.distinct(1))

lemma medium_alloc_stbm:
  assumes st: "stbm_state env h B C P S G R {}" and env: "env_ok env" and size0: "0 < size0" "size0 + 16 \<le> STBM_SIZECLASS_MAX"
    and cnt: "cur_outstanding_allocations_count h + 1 < 2 ^ 32" "cur_outstanding_allocations_bytes h + 2 ^ 20 < 2 ^ 64"
  obtains (null) h' R' where "medium_alloc env size0 h = Inr (0, h')" "stbm_state env h' B C P S G R' {}"
      "data_kept (live (used B) S G) h h'" "adds 0 0 1 h h'" "no_memory env h"
    | (block) a n h' B' C' P' R' where "medium_alloc env size0 h = Inr (a + 16, h')" "used B a = None" "size0 + 16 \<le> n"
      "used B' = (used B)(a \<mapsto> n)" "stbm_state env h' B' C' P' S G R' {}"
      "live (used B') S G = insert (a + 16, n - 16) (live (used B) S G)" "(a + 16, n - 16) \<notin> live (used B) S G"
      "data_kept (live (used B) S G) h h'" "a mod 16 = 0" "other_fields h' = other_fields h" "S (a + 16) = None"
      "cur_outstanding_allocations_count h' = cur_outstanding_allocations_count h + 1"
      "cur_outstanding_allocations_bytes h' \<le> cur_outstanding_allocations_bytes h + n" "sys_calls h \<le> sys_calls h'"
      "sys_calls h' \<le> Suc (sys_calls h)"
proof -
  note d = stbm_stateD [OF st]
  have sok: "system_ok env h C" by (rule sys_ok_system_ok [OF env d(6)])
  from d(1,2) sok size0 cnt show ?thesis
  proof (cases rule: medium_alloc_state)
    case (null h')
    obtain R' where R': "sys_ok env (sys_calls h') (system_allocs h') C G R'"
      using sys_ok_grows [OF env d(6) null(8)] by metis
    have ne: "\<forall>u s z k t. G u = Some (s, z) \<longrightarrow> C k \<noteq> Some (s, t)" using large_not_chunk [OF d(1,5)] by blast
    note kr = keep_rest [OF st null(3,7) R' ne]
    have "stats_ok h' (used B) S G" using d(7) null(4,5) by (simp add: stats_ok_def)
    then have "stbm_state env h' B C P S G R' {}"
      using null(2) d(2,4) kr R' by (simp add: stbm_state_def)
    moreover have "adds 0 0 1 h h'" using null(4,5,8) other_fieldsD(6) [OF null(7)] by (auto simp: adds_def sys_grows_def)
    ultimately show ?thesis using that(1) null(1,9) kr(4) by blast
  next
    case (block a n h' B' C' P')
    obtain R' where R': "sys_ok env (sys_calls h') (system_allocs h') C' G R'"
      "\<And>k s t u z. C' k = Some (s, t) \<Longrightarrow> G u = Some (s, z) \<Longrightarrow> \<exists>k'. C k' = Some (s, t)" "C \<subseteq>\<^sub>m C'"
      using sys_ok_grows [OF env d(6) block(13)] by metis
    have ne: "\<forall>u s z k t. G u = Some (s, z) \<longrightarrow> C' k \<noteq> Some (s, t)"
      using R'(2) large_not_chunk [OF d(1,5)] by metis
    note kr = keep_rest [OF st block(12,11) R'(1) ne]
    have le: "used B \<subseteq>\<^sub>m used B'" using block(3,4) by (auto simp: map_le_def)
    have sl: "slabs_used (used B') S" by (rule slabs_used_le [OF d(4) le])
    have S: "S (a + 16) = None" by (rule slabs_none [OF d(4) block(3)])
    have "stats_ok h' (used B') S G"
      unfolding block(4) using stats_ok_add [OF d(7) used_finite [OF d(9)] block(3)] block(5,8,9) by simp
    then have st': "stbm_state env h' B' C' P' S G R' {}"
      using block(6,7) sl kr R'(1) by (simp add: stbm_state_def)
    have U: "used B' a = Some n" "(used B')(a := None) = used B" using block(3,4) by auto
    have lv: "live (used B') S G = insert (a + 16, n - 16) (live (used B) S G)"
      using live_medium [where U = "used B'" and S = S, OF U(1) S] U(2) by simp
    have nl: "(a + 16, n - 16) \<notin> live (used B) S G"
      using live_minus_medium [OF st' U(1) S, of "a + 16" "n - 16"] U(2) block(5) size0(1) by auto
    have "a mod 16 = 0" using shapeD(1) [OF stbm_stateD(9) [OF st']] U(1) by (simp add: used_Some)
    moreover have "sys_calls h \<le> sys_calls h'" "sys_calls h' \<le> Suc (sys_calls h)"
      using block(13) by (auto simp: sys_grows_def)
    ultimately show ?thesis
      using that(2) [OF block(1,3,5,4) st' lv nl kr(4)] block(8,9,11) S by simp
  qed
qed

section \<open>Allocating a small block\<close>

text \<open>A new small chunk.\<close>

lemma slab_new:
  assumes c: "0 < c" "c mod 16 = 0"
    and w: "w c = 0" "w (c + 8) = hp" "w (c + 32) = 0" "w (c + 40) = c + 4024" "w (c + 48) = 0"
  shows "slab w hp c [] {} 249"
  using assms by (simp add: slab_def cells_from_def cell_def)

lemma small_ok_link:
  assumes ok: "small_ok w hp full [] 0 S {}" and c: "S c = None" "0 < c" and sl: "slab w hp c [] {} 249"
  shows "small_ok w hp full [c] 0 (S(c \<mapsto> ([], {}, 249))) {c}"
proof -
  have "c \<notin> set full" using small_okD(3) [OF ok, of c] c by auto
  then show ?thesis
    using ok c sl unfolding small_ok_def by auto
qed

lemma slab_cells_new:
  assumes "finite (dom S)" "S c = None"
  shows "(\<Sum>d \<in> dom (S(c \<mapsto> (fs, {}, m))). slab_cells (S(c \<mapsto> (fs, {}, m))) d) = (\<Sum>d \<in> dom S. slab_cells S d)"
proof -
  have c: "c \<notin> dom S" using assms(2) by blast
  have "(\<Sum>d \<in> dom S. slab_cells (S(c \<mapsto> (fs, {}, m))) d) = (\<Sum>d \<in> dom S. slab_cells S d)"
    by (rule sum.cong) (use c in \<open>auto simp: slab_cells_def\<close>)
  then show ?thesis using assms(1) c by (simp add: slab_cells_def)
qed

lemma heap_state_mod8: "heap_state h B C X P \<Longrightarrow> used B a = Some n \<Longrightarrow> a mod 16 = 0 \<and> a + n + 16 \<le> 2 ^ 62"
  using shapeD(1) block_bound(2) by (fastforce simp: heap_state_def used_Some)

lemma small_new_chunk_state:
  assumes st: "stbm_state env h B C P S G R {}" and env: "env_ok env" and sz: "small_nonfull h = []" "chunkcache h = 0"
    and cnt: "cur_outstanding_allocations_count h + 1 < 2 ^ 32" "cur_outstanding_allocations_bytes h + 2 ^ 20 < 2 ^ 64"
  obtains (null) h' R' where "small_new_chunk env h = Inr (0, h')" "stbm_state env h' B C P S G R' {}"
      "data_kept (live (used B) S G) h h'" "adds 0 0 1 h h'" "no_memory env h"
    | (chunk) c h' B' C' P' S' R' where "small_new_chunk env h = Inr (c, h')" "c \<noteq> 0" "small_nonfull h' = []"
      "stbm_state env (h'\<lparr>small_nonfull := [c]\<rparr>) B' C' P' S' G R' {c}" "live (used B') S' G = live (used B) S G"
      "data_kept (live (used B) S G) h h'"
      "cur_outstanding_allocations_count h' = cur_outstanding_allocations_count h + 1"
      "cur_outstanding_allocations_bytes h' \<le> cur_outstanding_allocations_bytes h + 2 ^ 21" "sys_calls h \<le> sys_calls h'"
      "sys_calls h' \<le> Suc (sys_calls h)" "force_debug h' = force_debug h"
proof -
  have ss: "smallchunk_size h = 4040" using stbm_stateD(8) [OF st] by (simp add: settings_ok_def)
  have "0 < (4040 :: nat)" "4040 + 16 \<le> STBM_SIZECLASS_MAX" by (simp_all add: STBM_SIZECLASS_MAX_def)
  from st env this cnt show ?thesis
  proof (cases rule: medium_alloc_stbm)
    case (null h' R')
    then show ?thesis using that(1) by (simp add: small_new_chunk_def ss)
  next
    case (block a n h1 B' C' P' R')
    define c where "c = a + 16"
    note block = block [folded c_def]
    note d = stbm_stateD [OF st] and d' = stbm_stateD [OF block(5)]
    define w where "w = (wd h1)(c := 0, c + 8 := heap_addr h1, c + 32 := 0, c + 48 := 0, c + 40 := c + 4024)"
    define h2 where "h2 = h1\<lparr>wd := w\<rparr>"
    note o = other_fieldsD [OF block(10)]
    have c: "c - 16 = a" "16 \<le> c" "0 < c" "c mod 16 = 0" using block(9) by (auto simp: c_def)
    have m16: "(c + 4024) mod 16 = 8" using c(4) by presburger
    have "a + n + 16 \<le> 2 ^ 62" using heap_state_mod8 [OF d'(1), of a n] block(4) by simp
    then have "c + 4024 < 2 ^ 63" using block(3) by (simp add: c_def)
    then have al: "align_address (c + 4024) 16 8 = Inr (c + 4024)"
      using align_address_16 [of "c + 4024" 8] m16 by simp
    then have al': "align_address (4024 + c) 16 8 = Inr (c + 4024)" by (simp only: add.commute)
    have run: "small_new_chunk env h = Inr (c, h2)"
      using block(1) al' o(2) ss c(3)
      by (simp add: small_new_chunk_def st_word_def set_num_full_def STBM_SMALL_ALIGNMENT_def STBM_SMALLEST_ALLOCATION_def
        Let_def h2_def w_def)
    have U: "used B' (c - 16) = Some n" "(used B')(c - 16 := None) = used B" "4056 \<le> n" "16 \<le> c"
      using block(2,3,4) c by auto
    have out: "w x = wd h1 x" if "x < c \<or> c + 4040 \<le> x" for x using that by (auto simp: w_def)
    note sw = slab_write [OF d'(9) U(1,3,4), of w "wd h1", OF out]
    have k: "w x = wd h1 x" if "users C' (used B) x" for x using sw(1) [of x] that U(2) by simp
    have ne: "C' k \<noteq> Some (s, t)" if "G u = Some (s, z)" for u s z k t by (rule large_not_chunk [OF d'(1,5) that])
    let ?h = "h2\<lparr>small_nonfull := [c]\<rparr>" and ?S = "S(c \<mapsto> ([], {}, 249))"
    have hs: "heap_state ?h B' C' {} P'"
      by (rule heap_state_users [OF d'(1)]) (use sw(2) d'(1,10) in \<open>auto simp: h2_def heap_state_def config_ok_def\<close>)
    have "small_ok w (heap_addr h1) (small_full h1) (small_nonfull h1) (chunkcache h1) S {}"
      by (rule small_ok_keep [OF d'(3) d(4) k])
    then have sm: "small_ok w (heap_addr h1) (small_full h1) [] 0 S {}" using o(8,9) sz by simp
    have "slab w (heap_addr h1) c [] {} 249" by (rule slab_new) (use c(3,4) in \<open>simp_all add: w_def\<close>)
    then have sm': "small_ok w (heap_addr h1) (small_full h1) [c] 0 ?S {c}"
      by (intro small_ok_link [OF sm block(11) c(3)])
    have su: "slabs_used (used B') ?S" using d'(4) U(1,3) c(2) by (auto simp: slabs_used_def)
    have lo: "large_ok w (heap_addr h1) G" by (rule large_ok_keep [OF d'(5,6) ne k])
    have "stats_ok h2 (used B') ?S G"
      using d'(7) slab_cells_new [OF small_ok_finite [OF d'(3)] block(11), of "[]" 249] by (simp add: stats_ok_def h2_def)
    then have "stats_ok ?h (used B') ?S G" by (simp add: stats_ok_def)
    then have st2: "stbm_state env ?h B' C' P' ?S G R' {c}"
      using hs d'(2,6,8) sm' su lo o(8,9) sz by (simp add: stbm_state_def h2_def settings_ok_def)
    have lv: "live (used B') ?S G = live (used B) S G"
      using live_slab [of ?S c "[]" "{}" 249 "used B'" G] U(2) c(2) block(11) by (simp add: fun_upd_idem)
    have "data_kept (live (used B) S G) h1 h2"
      by (rule users_data_kept [of C' "used B" h2 h1, OF _ d(4) small_okD(4) [OF d'(3)] d'(6) ne]) (use k in \<open>simp add: h2_def\<close>)
    then have dk: "data_kept (live (used B) S G) h h2" by (rule data_kept_trans [OF block(8)])
    have "n \<le> 2 ^ 21" using block_bound(1) [OF d'(9), of a n False] U(1) c(1) by (simp add: used_Some)
    then show ?thesis
      using that(2) [OF run _ _ st2 lv dk] block(12-15) o(6,8) sz c(3) by (simp add: h2_def)
  qed
qed

text \<open>The cached chunk.\<close>

lemma small_cached_state:
  assumes st: "stbm_state env h B C P S G R {}" and c: "chunkcache h = c" "c \<noteq> 0"
  shows "stbm_state env (h\<lparr>chunkcache := 0, small_nonfull := c # small_nonfull h\<rparr>) B C P S G R {c}" (is "stbm_state env ?h _ _ _ _ _ _ _")
proof -
  note d = stbm_stateD [OF st]
  note sm = small_okD [OF d(3)]
  have nf: "c \<notin> set (small_full h)" "c \<notin> set (small_nonfull h)" using sm(2) c by auto
  have "0 \<notin> set (small_full h) \<union> set (small_nonfull h)"
  proof
    assume "0 \<in> set (small_full h) \<union> set (small_nonfull h)"
    then have "S 0 \<noteq> None" using sm(3) [of 0] by blast
    then obtain fs us m where "S 0 = Some (fs, us, m)" by auto
    from slabD(1) [OF sm(4) [OF this]] show False by simp
  qed
  then have "small_ok (wd h) (heap_addr h) (small_full h) (c # small_nonfull h) 0 S {c}"
    unfolding small_ok_def
  proof (intro conjI allI impI)
    show "distinct (small_full h @ c # small_nonfull h)" using sm(1) nf by auto
    show "0 \<notin> set (small_full h) \<union> set (c # small_nonfull h)"
      using \<open>0 \<notin> set (small_full h) \<union> set (small_nonfull h)\<close> c by auto
    show "S e \<noteq> None \<longleftrightarrow> e \<in> set (small_full h) \<union> set (c # small_nonfull h) \<or> e = 0 \<and> (0 :: nat) \<noteq> 0" for e
      using sm(3) [of e] c by auto
    fix e fs us m assume e: "S e = Some (fs, us, m)"
    show "slab (wd h) (heap_addr h) e fs us m" "e \<in> set (small_full h) \<longleftrightarrow> fs = [] \<and> m = 0"
      using sm(4,5) [OF e] by blast+
    assume "e \<notin> {c}"
    then show "e = 0 \<longleftrightarrow> us = {}" using sm(6) [OF e] c slabD(1) [OF sm(4) [OF e]] by simp
  qed
  moreover have "heap_state ?h B C {} P"
    by (rule heap_state_users [OF d(1)]) (use d(1,10) in \<open>auto simp: heap_state_def config_ok_def\<close>)
  ultimately show ?thesis
    using d by (simp add: stbm_state_def stats_ok_def settings_ok_def)
qed

lemma small_ok_mono: "small_ok w hp full nonfull cache S X \<Longrightarrow> X \<subseteq> Y \<Longrightarrow> small_ok w hp full nonfull cache S Y"
  unfolding small_ok_def by blast

lemma small_alloc_stbm:
  assumes st: "stbm_state env h B C P S G R {}" and env: "env_ok env" and size0: "size0 \<le> 8"
    and cnt: "cur_outstanding_allocations_count h + 2 < 2 ^ 32" "cur_outstanding_allocations_bytes h + 2 ^ 22 < 2 ^ 64"
  obtains (null) h' R' where "small_alloc env size0 h = Inr (0, h')" "stbm_state env h' B C P S G R' {}"
      "data_kept (live (used B) S G) h h'" "adds 0 0 1 h h'" "no_memory env h"
    | (block) p h' B' C' P' S' R' where "small_alloc env size0 h = Inr (p, h')" "p \<noteq> 0" "stbm_state env h' B' C' P' S' G R' {}"
      "live (used B') S' G = insert (p, 8) (live (used B) S G)" "(p, 8) \<notin> live (used B) S G"
      "data_kept (live (used B) S G) h h'" "adds 2 (2 ^ 22) 1 h h'"
proof -
  note d = stbm_stateD [OF st]
  note sm = small_okD [OF d(3)]
  text \<open>A cell of a chunk that is not full.\<close>
  have take: thesis
    if "small_find_chunk env h = Inr (c, h1)" "c \<noteq> 0" "c \<in> set (small_nonfull h1)" "stbm_state env h1 B1 C1 P1 S1 G R1 {c}"
      "live (used B1) S1 G = live (used B) S G" "data_kept (live (used B) S G) h h1"
      "cur_outstanding_allocations_count h1 + 1 < 2 ^ 32" "cur_outstanding_allocations_bytes h1 + 8 < 2 ^ 64"
      "adds 1 (2 ^ 21) 1 h h1"
    for c h1 B1 C1 P1 S1 R1
  proof -
    note asm = that
    obtain p h' S' where t: "small_take c size0 h1 = Inr (p, h')" "stbm_state env h' B1 C1 P1 S' G R1 {}" "p \<noteq> 0"
      "live (used B1) S' G = insert (p, 8) (live (used B1) S1 G)" "(p, 8) \<notin> live (used B1) S1 G"
      "data_kept (live (used B1) S1 G) h1 h'" "adds 1 8 0 h1 h'"
      by (rule small_take_state [OF asm(4,3) size0 asm(7,8)]) (simp add: adds_def)
    have "adds 2 (2 ^ 22) 1 h h'" by (rule adds_mono [OF adds_trans [OF asm(9) t(7)]]) simp_all
    then show thesis
      by (intro block [of p h' B1 C1 P1 S' R1])
        (use t asm(1,2,5) data_kept_trans [OF asm(6)] in \<open>simp_all add: small_alloc_def\<close>)
  qed
  show thesis
  proof (cases "small_nonfull h")
    case (Cons c cs)
    have "stbm_state env h B C P S G R {c}"
      using st small_ok_mono [OF d(3)] by (simp add: stbm_state_def)
    moreover have "c \<noteq> 0"
    proof -
      have "S c \<noteq> None" using sm(3) [of c] Cons by auto
      then obtain fs us m where "S c = Some (fs, us, m)" by auto
      from slabD(1) [OF sm(4) [OF this]] show ?thesis by simp
    qed
    ultimately show thesis
      using cnt Cons by (intro take [of c h B C P S R]) (simp_all add: small_find_chunk_def data_kept_refl adds_def)
  next
    case Nil
    show thesis
    proof (cases "chunkcache h = 0")
      case False
      let ?h = "h\<lparr>chunkcache := 0, small_nonfull := [chunkcache h]\<rparr>"
      show thesis
        using small_cached_state [OF st refl False] False Nil cnt
        by (intro take [of "chunkcache h" ?h B C P S R])
          (simp_all add: small_find_chunk_def smallchunk_link_nonfull_def data_kept_refl adds_def)
    next
      case True
      have "cur_outstanding_allocations_count h + 1 < 2 ^ 32" "cur_outstanding_allocations_bytes h + 2 ^ 20 < 2 ^ 64"
        using cnt by simp_all
      with st env Nil True show thesis
      proof (cases rule: small_new_chunk_state)
        case (null h' R')
        then show thesis
          using that(1) [of h' R'] Nil True by (simp add: small_alloc_def small_find_chunk_def)
      next
        case (chunk c h1 B1 C1 P1 S1 R1)
        show thesis
        proof (rule take [of c "h1\<lparr>small_nonfull := [c]\<rparr>" B1 C1 P1 S1 R1])
          show "small_find_chunk env h = Inr (c, h1\<lparr>small_nonfull := [c]\<rparr>)"
            using Nil True chunk(1-3) by (simp add: small_find_chunk_def smallchunk_link_nonfull_def)
          show "data_kept (live (used B) S G) h (h1\<lparr>small_nonfull := [c]\<rparr>)"
            by (rule data_kept_trans [OF chunk(6) data_kept_refl]) simp
        qed (use chunk(2,4,5,7-11) cnt in \<open>simp_all add: adds_def\<close>)
      qed
    qed
  qed
qed

section \<open>Allocating a large block\<close>

lemma stats_ok_add_large:
  assumes "stats_ok h U S G" "finite (dom G)" "G u = None"
    and "cur_outstanding_allocations_count h' = cur_outstanding_allocations_count h + 1"
      "cur_outstanding_allocations_bytes h' = cur_outstanding_allocations_bytes h + z"
  shows "stats_ok h' U S (G(u \<mapsto> (s, z)))"
proof -
  have u: "u \<notin> dom G" using assms(3) by blast
  have "(\<Sum>b \<in> dom G. snd (the ((G(u \<mapsto> (s, z))) b))) = (\<Sum>b \<in> dom G. snd (the (G b)))"
    by (rule sum.cong) (use u in auto)
  then show ?thesis using assms u by (simp add: stats_ok_def)
qed

lemma large_wrap_eq:
  assumes "align_address (s + 80) (minimum_alignment h) 0 = Inr (q + 32)" "(s + a + 2 ^ 64 - (q + 32)) mod 2 ^ 64 = z"
    and "n \<le> z" "(q + 32 + n) mod 2 ^ 64 \<le> s + a"
  shows "large_wrap s a n h = Inr (q + 32, st_word (q + 8) z (st_word (q + 24) TYPE_large (st_word (q + 16) (heap_addr h)
    (st_word q s (st_word (s + 24) (q + 32) (stats_update_alloc z (system_alloc_link s STBM_SYSTEM_ALLOC_LARGE h)))))))"
proof -
  have w: "q + 32 - 32 = q" "q + 32 - 16 = q + 16" "q + 32 - 8 = q + 24" "q + 32 - 24 = q + 8" by simp_all
  have a: "heap_addr (st_word x v (st_word y u (stats_update_alloc z (system_alloc_link s k h)))) = heap_addr h" for x v y u k
    by (simp add: st_word_def stats_update_alloc_def system_alloc_link_def Let_def)
  show ?thesis
    unfolding large_wrap_def assms(1) res_bind_simps Let_def assms(2) w a using assms(3,4) by (simp only: stbm_assert_def simp_thms if_True)
qed

lemma large_alloc_stbm:
  assumes st: "stbm_state env h B C P S G R {}" and env: "env_ok env" and size0: "size0 \<le> 2 ^ 32"
    and cnt: "cur_outstanding_allocations_count h + 1 < 2 ^ 32" "cur_outstanding_allocations_bytes h + size0 + 15 < 2 ^ 64"
  obtains (null) h' where "large_alloc env size0 h = Inr (0, h')" "stbm_state env h' B C P S G R {}"
      "data_kept (live (used B) S G) h h'" "adds 0 0 1 h h'" "no_memory env h"
    | (block) p h' G' R' where "large_alloc env size0 h = Inr (p, h')" "p \<noteq> 0" "stbm_state env h' B C P S G' R' {}"
      "live (used B) S G' = insert (p, size0 + 15) (live (used B) S G)" "(p, size0 + 15) \<notin> live (used B) S G"
      "data_kept (live (used B) S G) h h'" "adds 1 (size0 + 15) 1 h h'"
proof -
  note d = stbm_stateD [OF st]
  have ma: "minimum_alignment h = 16" using d(10) by (simp add: config_ok_def)
  define r where "r = size0 + 95"
  have act: "(80 + (minimum_alignment h - 1) + size0) mod 2 ^ 64 = r" using size0 by (simp add: ma r_def)
  have sz: "r \<le> 2 ^ 33" using size0 by (simp add: r_def)
  obtain s f where sf: "env (sys_calls h) r = (s, f)" by (cases "env (sys_calls h) r")
  let ?h0 = "h\<lparr>sys_calls := sys_calls h + 1\<rparr>"
  show ?thesis
  proof (cases "s = 0")
    case True
    have "heap_state ?h0 B C {} P"
      by (rule heap_state_users [OF d(1)]) (use d(1,10) in \<open>auto simp: heap_state_def config_ok_def\<close>)
    then have "stbm_state env ?h0 B C P S G R {}"
      using d sys_ok_mono [OF d(6), of "sys_calls h + 1"] by (simp add: stbm_state_def stats_ok_def settings_ok_def)
    moreover have "large_alloc env size0 h = Inr (0, ?h0)"
      unfolding large_alloc_def act by (simp add: sf True)
    ultimately show ?thesis using that(1) data_kept_refl [of ?h0 h] no_memoryI [of env h r f] sf True sz
      by (simp add: adds_def)
  next
    case False
    have f: "f = r" "s mod 16 = 0" "s + r \<le> 2 ^ 62" using env_okD(1) [OF env sf False] by auto
    have sf': "env (sys_calls h) r = (s, r)" using sf f(1) by simp
    have r0: "0 < r" by (simp add: r_def)
    note fr = sys_ok_fresh [OF env d(6) sf' False r0]
    let ?u = "s + 80"
    define z where "z = size0 + 15"
    have rz: "r = z + 80" "size0 \<le> z" by (simp_all add: r_def z_def)
    have us: "(s + r + 2 ^ 64 - ?u) mod 2 ^ 64 = z"
    proof -
      have "s + r + 2 ^ 64 - ?u = z + 2 ^ 64" by (simp add: rz)
      moreover have "z < 2 ^ 64" using size0 by (simp add: z_def)
      ultimately show ?thesis by (simp only: mod_add_self2 mod_less)
    qed
    have ue: "(?u + size0) mod 2 ^ 64 = ?u + size0" "?u + size0 \<le> s + r" using f(3) by (simp_all add: r_def)
    have al: "align_address ?u 16 0 = Inr ?u"
      using align_address_16 [of ?u 0] f(2,3) by (auto simp: r_def mod_eq_0_iff_dvd)
    define w where "w = (wd h)(s := STBM_SYSTEM_ALLOC_LARGE, s + 24 := ?u, s + 48 := s, s + 64 := heap_addr h,
      s + 72 := TYPE_large, s + 56 := z)"
    define h' where "h' = stats_update_alloc z (h\<lparr>wd := w, sys_calls := sys_calls h + 1, system_allocs := s # system_allocs h\<rparr>)"
    have ma': "minimum_alignment ?h0 = 16" using ma by simp
    have "large_wrap s r size0 ?h0 = Inr (s + 48 + 32, st_word (s + 48 + 8) z (st_word (s + 48 + 24) TYPE_large
      (st_word (s + 48 + 16) (heap_addr ?h0) (st_word (s + 48) s (st_word (s + 24) (s + 48 + 32)
      (stats_update_alloc z (system_alloc_link s STBM_SYSTEM_ALLOC_LARGE ?h0)))))))"
      by (rule large_wrap_eq) (use al us ue rz(2) ma in \<open>simp_all only: add.assoc arith_simps stbm_heap.simps stbm_heap.update_convs stbm_heap.select_convs ma'\<close>)
    also have "\<dots> = Inr (?u, h')"
      by (rule arg_cong [where f = Inr], rule prod_eqI)
         (auto simp: system_alloc_link_def st_word_def stats_update_alloc_def Let_def h'_def w_def add.commute [of s] intro!: stbm_heap.equality)
    finally have "large_wrap s r size0 ?h0 = Inr (?u, h')" .
    then have run: "large_alloc env size0 h = Inr (?u, h')"
      unfolding large_alloc_def act by (simp add: sf' False)
    let ?G = "G(?u \<mapsto> (s, z))" and ?R = "R(s \<mapsto> r)"
    have wd': "wd h' = w" by (simp add: h'_def stats_update_alloc_def Let_def)
    have f': "heap_addr h' = heap_addr h" "small_full h' = small_full h" "small_nonfull h' = small_nonfull h"
      "chunkcache h' = chunkcache h" "sys_calls h' = Suc (sys_calls h)" "system_allocs h' = s # system_allocs h"
      "settings_ok h'" "free_lists h' = free_lists h" "bitmap h' = bitmap h" "toplevel_bitmap h' = toplevel_bitmap h"
      "config_ok h'" "cur_outstanding_allocations_count h' = cur_outstanding_allocations_count h + 1"
      "cur_outstanding_allocations_bytes h' = cur_outstanding_allocations_bytes h + z" "force_debug h' = force_debug h"
      using d(8,10) cnt by (auto simp: h'_def stats_update_alloc_def Let_def settings_ok_def config_ok_def z_def)
    have sR: "R s = None" using fr(1) sys_okD(1) [OF d(6)] by blast
    have Gu: "G ?u = None"
    proof (cases "G ?u")
      case (Some sz)
      then show ?thesis using sys_okD(7) [OF d(6), of ?u "fst sz" "snd sz"] sR by (cases sz) auto
    qed
    have "sys_ok env (Suc (sys_calls h)) (s # system_allocs h) C G ?R" by (rule sys_ok_new [OF env d(6) sf' False r0])
    then have sy: "sys_ok env (sys_calls h') (system_allocs h') C ?G ?R"
      unfolding f'(5,6) by (rule sys_ok_large) (simp add: rz)
    text \<open>Its words are in no chunk and no other large block.\<close>
    have wx: "w x = wd h x" if "x < s \<or> s + r \<le> x" for x using that by (auto simp: w_def rz)
    have out: "\<exists>k u t. C k = Some (u, t) \<and> u \<le> x \<and> x < k + t + 16 \<Longrightarrow> w x = wd h x" for x
      using sys_okD(6) [OF d(6)] fr(2) by (intro wx) fastforce
    have inch: "\<exists>k u t. C k = Some (u, t) \<and> u \<le> x \<and> x < k + t + 16" if "B b = Some (m, g)" "b \<le> x" "x < b + m" for b m g x
    proof -
      note asm = that
      obtain k u t where "C k = Some (u, t)" "k \<le> b" "b + m \<le> k + t"
        using shapeD(4) [OF d(9) asm(1)] by (auto simp: in_chunk_def)
      then show ?thesis using asm(2,3) chunkD(5) [OF shape_chunks [OF d(9)]] by fastforce
    qed
    have hs: "heap_state h' B C {} P"
    proof (rule heap_state_users [OF d(1)])
      show "wd h' x = wd h x" if "\<not> users C (used B) x" for x
        using that unfolding wd' by (intro out) (auto simp: users_def not_less not_le)
      show "systems_ok (system_allocs h') C" using d(1) fr(1) by (auto simp: f'(6) heap_state_def systems_ok_def)
    qed (use f' in simp_all)
    have sm: "small_ok (wd h') (heap_addr h') (small_full h') (small_nonfull h') (chunkcache h') S {}"
    proof -
      have "slab w (heap_addr h) c fs us m" if S: "S c = Some (fs, us, m)" for c fs us m
      proof (rule slab_cong [OF small_okD(4) [OF d(3) S]])
        obtain n where n: "16 \<le> c" "used B (c - 16) = Some n" "4056 \<le> n" using d(4) S by (fastforce simp: slabs_used_def)
        show "w x = wd h x" if "c \<le> x" "x < c + 4040" for x
          using n that by (intro out inch [of "c - 16" n False]) (auto simp: used_Some)
      qed
      then show ?thesis using d(3) unfolding small_ok_def wd' f'(1-4) by blast
    qed
    have lo: "large_ok (wd h') (heap_addr h') ?G"
    proof -
      have "0 < y \<and> w v = STBM_SYSTEM_ALLOC_LARGE \<and> w (v + 48) = v \<and> w (v + 56) = y \<and> w (v + 64) = heap_addr h \<and>
          w (v + 72) = TYPE_large" if G: "?G q = Some (v, y)" for q v y
      proof (cases "q = ?u")
        case True
        then show ?thesis using G by (auto simp: w_def z_def)
      next
        case False
        then have G': "G q = Some (v, y)" using G by simp
        have R: "R v = Some (y + 80)" using sys_okD(7) [OF d(6) G'] by simp
        have "w x = wd h x" if "v \<le> x" "x < v + y + 80" for x
          using fr(2) [OF R] that by (intro wx) auto
        then show ?thesis using large_okD(2-4) [OF d(5) G'] by simp
      qed
      then show ?thesis unfolding large_ok_def wd' f'(1) using large_okD(1) [OF d(5)] by simp
    qed
    have "stats_ok h' (used B) S ?G" by (rule stats_ok_add_large [OF d(7) large_okD(1) [OF d(5)] Gu f'(12,13)])
    then have st': "stbm_state env h' B C P S ?G ?R {}"
      using hs d(2,4) sm lo sy f'(7) by (simp add: stbm_state_def)
    have lv: "live (used B) S ?G = insert (?u, z) (live (used B) S G)"
      using live_large [of ?G ?u s z "used B" S] Gu by (simp add: fun_upd_idem)
    have "(?u, z) \<notin> live (used B) S G"
      using live_minus_large [OF st', of ?u s z ?u z] Gu by (auto simp: z_def fun_upd_idem)
    moreover have "data_kept (live (used B) S G) h h'"
    proof (rule data_keptI)
      fix q k x assume q: "(q, k) \<in> live (used B) S G" "q \<le> x" "x < q + k"
      have "q + k \<le> s \<or> ?u + z \<le> q"
        by (rule live_minus_large [OF st', of ?u s z]) (use q(1) Gu in \<open>simp_all add: fun_upd_idem\<close>)
      then show "wd h' x = wd h x" using q(2,3) wx unfolding wd' by (auto simp: rz)
    qed
    ultimately show ?thesis using that(2) [OF run _ st'] lv f'(5,12-14) by (simp add: z_def adds_def)
  qed
qed

end
