(* ===== verification/StbmFree.thy ===== *)
theory StbmFree
  imports StbmAlloc
begin

text \<open>
  What the three frees do to a heap in a good state: they take one block from the users and leave the others as
  they are.
\<close>

unbundle bit_operations_syntax

section \<open>What the system got back\<close>

text \<open>Lilith's \<open>system_free\<close> does nothing: what was returned is never handed out again.\<close>

lemma sys_ok_remove_chunk:
  assumes sys: "sys_ok env n A C G R" and C: "C a = Some (s, t)" and ne: "\<And>u z. G u \<noteq> Some (s, z)"
  shows "sys_ok env n (remove1 s A) (C(a := None)) G (R(s := None))"
proof -
  note d = sys_okD [OF sys]
  have "dom (R(s := None)) = set (remove1 s A)" using d(1,2) by auto
  moreover have "distinct (remove1 s A)" using d(2) by simp
  moreover have "k = u + 64 \<and> (R(s := None)) u = Some (v + 96)" if k: "(C(a := None)) k = Some (u, v)" for k u v
  proof -
    have k': "C k = Some (u, v)" "k \<noteq> a" using k by (auto split: if_splits)
    then have "u \<noteq> s" using d(6) [OF C] d(6) [OF k'(1)] by auto
    then show ?thesis using d(6) [OF k'(1)] by simp
  qed
  moreover have "w = u + 80 \<and> (R(s := None)) u = Some (z + 80)" if g: "G w = Some (u, z)" for w u z
    using d(7) [OF g] ne [of w z] g by auto
  ultimately show ?thesis using sys unfolding sys_ok_def by (auto split: if_splits)
qed

lemma sys_ok_remove_large:
  assumes sys: "sys_ok env n A C G R" and G: "G u = Some (s, z)" and ne: "\<And>k t. C k \<noteq> Some (s, t)"
  shows "sys_ok env n (remove1 s A) C (G(u := None)) (R(s := None))"
proof -
  note d = sys_okD [OF sys]
  have "dom (R(s := None)) = set (remove1 s A)" using d(1,2) by auto
  moreover have "distinct (remove1 s A)" using d(2) by simp
  moreover have "w = v + 80 \<and> (R(s := None)) v = Some (y + 80)" if k: "(G(u := None)) w = Some (v, y)" for w v y
  proof -
    have k': "G w = Some (v, y)" "w \<noteq> u" using k by (auto split: if_splits)
    then have "v \<noteq> s" using d(7) [OF G] d(7) [OF k'(1)] by auto
    then show ?thesis using d(7) [OF k'(1)] by simp
  qed
  moreover have "k = v + 64 \<and> (R(s := None)) v = Some (t + 96)" if c: "C k = Some (v, t)" for k v t
    using d(6) [OF c] ne [of k t] c by auto
  ultimately show ?thesis using sys unfolding sys_ok_def by (auto split: if_splits)
qed

section \<open>Freeing a medium block\<close>

lemma stats_ok_remove:
  assumes st: "stats_ok h U S G" and U: "finite (dom U)" "U a = Some n"
  shows "1 \<le> cur_outstanding_allocations_count h" "n - 16 \<le> cur_outstanding_allocations_bytes h"
    "cur_outstanding_allocations_count h' = cur_outstanding_allocations_count h - 1 \<Longrightarrow>
      cur_outstanding_allocations_bytes h' = cur_outstanding_allocations_bytes h - (n - 16) \<Longrightarrow> stats_ok h' (U(a := None)) S G"
proof -
  have a: "a \<in> dom U" using U(2) by blast
  have c: "card (dom U) = Suc (card (dom U - {a}))" using card.remove [OF U(1) a] by simp
  have s: "(\<Sum>b \<in> dom U. the (U b) - 16) = n - 16 + (\<Sum>b \<in> dom U - {a}. the (U b) - 16)"
    using sum.remove [OF U(1) a, of "\<lambda>b. the (U b) - 16"] U(2) by simp
  have s': "(\<Sum>b \<in> dom U - {a}. the ((U(a := None)) b) - 16) = (\<Sum>b \<in> dom U - {a}. the (U b) - 16)"
    by (rule sum.cong) auto
  show "1 \<le> cur_outstanding_allocations_count h" "n - 16 \<le> cur_outstanding_allocations_bytes h"
    using st c s by (simp_all add: stats_ok_def)
  assume "cur_outstanding_allocations_count h' = cur_outstanding_allocations_count h - 1"
    "cur_outstanding_allocations_bytes h' = cur_outstanding_allocations_bytes h - (n - 16)"
  then show "stats_ok h' (U(a := None)) S G" using st c s s' by (simp add: stats_ok_def)
qed

lemma slabs_used_none: "slabs_used U S \<Longrightarrow> S (a + 16) = None \<Longrightarrow> slabs_used (U(a := None)) S"
  unfolding slabs_used_def by (metis fun_upd_apply le_add_diff_inverse2)

lemma medium_free_stbm:
  assumes st: "stbm_state env h B C P S G R X" and a: "used B a = Some n" "S (a + 16) = None"
  obtains h' B' C' P' R' where "medium_free (a + 16) h = Inr h'" "stbm_state env h' B' C' P' S G R' X"
    "used B' = (used B)(a := None)" "live (used B) S G = insert (a + 16, n - 16) (live (used B') S G)"
    "(a + 16, n - 16) \<notin> live (used B') S G" "data_kept (live (used B') S G) h h'"
    "other_fields h' = other_fields h" "adds 0 0 0 h h'"
proof -
  note d = stbm_stateD [OF st]
  note so = stats_ok_remove [OF d(7) used_finite [OF d(9)] a(1)]
  obtain h' B' C' P' where m: "medium_free (a + 16) h = Inr h'" "heap_state h' B' C' {} P'" "flags_ok P' B' C'"
    "used B' = (used B)(a := None)" "other_fields h' = other_fields h" "sys_calls h' = sys_calls h"
    "cur_outstanding_allocations_count h' = cur_outstanding_allocations_count h - 1"
    "cur_outstanding_allocations_bytes h' = cur_outstanding_allocations_bytes h - (n - 16)"
    "sys_freed h' = sys_freed h \<and> C' = C \<and> system_allocs h' = system_allocs h \<or>
      (\<exists>s t. C a = Some (s, t) \<and> sys_freed h' = s # sys_freed h \<and> C' = C(a := None) \<and>
        system_allocs h' = remove1 s (system_allocs h))"
    "keeps_data C ((used B)(a := None)) h h'"
    by (rule medium_free_state [OF d(1,2) a(1) so(1,2)])
  have ne: "C k \<noteq> Some (s, t)" if "G u = Some (s, z)" for u s z k t by (rule large_not_chunk [OF d(1,5) that])
  have su: "slabs_used ((used B)(a := None)) S" by (rule slabs_used_none [OF d(4) a(2)])
  have k: "wd h' x = wd h x" if "users C ((used B)(a := None)) x" for x using m(10) that by (simp add: keeps_data_def)
  have sm: "small_ok (wd h') (heap_addr h') (small_full h') (small_nonfull h') (chunkcache h') S X"
    using small_ok_keep [OF d(3) su k] other_fieldsD [OF m(5)] by simp
  have lo: "large_ok (wd h') (heap_addr h') G"
    using large_ok_keep [OF d(5,6) ne k] other_fieldsD(1) [OF m(5)] by simp
  have dk: "data_kept (live ((used B)(a := None)) S G) h h'"
    by (rule users_data_kept [OF k su small_okD(4) [OF d(3)] d(6) ne])
  have "\<exists>R'. sys_ok env (sys_calls h') (system_allocs h') C' G R'"
    using m(9)
  proof (elim disjE exE conjE)
    fix s t assume "C a = Some (s, t)" "C' = C(a := None)" "system_allocs h' = remove1 s (system_allocs h)"
    then show ?thesis using sys_ok_remove_chunk [OF d(6)] ne m(6) by metis
  qed (use d(6) m(6) in auto)
  then obtain R' where R': "sys_ok env (sys_calls h') (system_allocs h') C' G R'" by blast
  have "settings_ok h'" using settings_other [OF m(5)] d(8) by simp
  then have st': "stbm_state env h' B' C' P' S G R' X"
    using m(2,3) sm lo R' so(3) [OF m(7,8)] su by (simp add: stbm_state_def m(4))
  have lv: "live (used B) S G = insert (a + 16, n - 16) (live (used B') S G)"
    unfolding m(4) by (rule live_medium [where U = "used B" and S = S, OF a])
  have "(a + 16, n - 16) \<notin> live (used B') S G"
  proof
    assume q: "(a + 16, n - 16) \<in> live (used B') S G"
    have "16 < n" using live_pos [OF st' q] by simp
    then show False using live_minus_medium [OF st a, of "a + 16" "n - 16"] q m(4) by auto
  qed
  then show ?thesis using that [OF m(1) st' m(4) lv _ _ m(5)] dk m(6-8) other_fieldsD(6) [OF m(5)] by (simp add: m(4) adds_def)
qed

section \<open>Freeing a small block\<close>

lemma slab_block:
  assumes "slabs_used U S" "S c = Some v"
  obtains n where "16 \<le> c" "U (c - 16) = Some n" "4056 \<le> n"
proof -
  have "S c \<noteq> None" using assms(2) by simp
  then show ?thesis using assms(1) that unfolding slabs_used_def by blast
qed

lemma other_slab:
  assumes st: "stbm_state env h B C P S G R X" and S: "S c = Some v" and e: "S e = Some (es, es', l)" "e \<noteq> c"
    and w: "\<And>x. x < c \<or> c + 4040 \<le> x \<Longrightarrow> w' x = wd h x"
  shows "slab w' (heap_addr h) e es es' l"
proof -
  note d = stbm_stateD [OF st]
  obtain n where n: "16 \<le> c" "used B (c - 16) = Some n" "4056 \<le> n" by (rule slab_block [where U = "used B" and S = S, OF d(4) S])
  have "(S(c := None)) e \<noteq> None" using e by simp
  then obtain l' where l: "16 \<le> e" "((used B)(c - 16 := None)) (e - 16) = Some l'" "4056 \<le> l'"
    using slabs_used_minus [OF d(4) n(1)] unfolding slabs_used_def by blast
  have k: "w' x = wd h x" if "users C ((used B)(c - 16 := None)) x" for x
    using slab_write(1) [OF d(9) n(2,3,1), of w' "wd h", OF w that] .
  show ?thesis
    by (rule slab_cong [OF small_okD(4) [OF d(3) e(1)]])
      (use k data_users [where U = "(used B)(c - 16 := None)", OF l(2,3,1)] in blast)
qed

text \<open>A heap in which only the words of one small chunk, the lists of the small chunks and the counters changed.\<close>

lemma slab_change_state:
  assumes st: "stbm_state env h B C P S G R X" and S: "S c = Some v"
    and w: "\<And>x. x < c \<or> c + 4040 \<le> x \<Longrightarrow> wd h' x = wd h x"
    and f: "heap_addr h' = heap_addr h" "sys_calls h' = sys_calls h" "system_allocs h' = system_allocs h" "settings_ok h'"
      "free_lists h' = free_lists h" "bitmap h' = bitmap h" "toplevel_bitmap h' = toplevel_bitmap h" "config_ok h'"
    and sm: "small_ok (wd h') (heap_addr h) (small_full h') (small_nonfull h') (chunkcache h') S' X'"
    and su: "slabs_used (used B) S'" and so: "stats_ok h' (used B) S' G"
  shows "stbm_state env h' B C P S' G R X'"
proof -
  note d = stbm_stateD [OF st]
  obtain n where n: "16 \<le> c" "used B (c - 16) = Some n" "4056 \<le> n" by (rule slab_block [where U = "used B" and S = S, OF d(4) S])
  note sw = slab_write [OF d(9) n(2,3,1), of "wd h'" "wd h", OF w]
  have "heap_state h' B C {} P"
    by (rule heap_state_users [OF d(1)]) (use sw(2) f d(1) in \<open>auto simp: heap_state_def\<close>)
  moreover have "large_ok (wd h') (heap_addr h') G"
    unfolding f(1) by (rule large_ok_keep [OF d(5,6) large_not_chunk [OF d(1,5)] sw(1)])
  ultimately show ?thesis using d(2,6) f sm su so by (simp add: stbm_state_def)
qed

lemma stats_ok_cell:
  assumes st: "stats_ok h U S G" and S: "finite (dom S)" "S c = Some (fs, us, m)" and b: "b \<in> us" "finite us"
  shows "1 \<le> cur_outstanding_allocations_count h" "8 \<le> cur_outstanding_allocations_bytes h"
    "cur_outstanding_allocations_count h' = cur_outstanding_allocations_count h - 1 \<Longrightarrow>
      cur_outstanding_allocations_bytes h' = cur_outstanding_allocations_bytes h - 8 \<Longrightarrow>
      stats_ok h' U (S(c \<mapsto> (fs', us - {b}, m'))) G"
proof -
  have c: "card us = Suc (card (us - {b}))" by (rule card.remove [OF b(2,1)])
  note s = slab_sum_upd [OF S, of fs' "us - {b}" m']
  then have s1: "(\<Sum>d \<in> dom S. slab_cells S d) = Suc (\<Sum>d \<in> dom S. slab_cells (S(c \<mapsto> (fs', us - {b}, m'))) d)"
    using c by linarith
  show "1 \<le> cur_outstanding_allocations_count h" "8 \<le> cur_outstanding_allocations_bytes h"
    using st s1 by (simp_all add: stats_ok_def)
  have "dom (S(c \<mapsto> (fs', us - {b}, m'))) = dom S" using S(2) by auto
  then show "stats_ok h' U (S(c \<mapsto> (fs', us - {b}, m'))) G"
    if "cur_outstanding_allocations_count h' = cur_outstanding_allocations_count h - 1"
      "cur_outstanding_allocations_bytes h' = cur_outstanding_allocations_bytes h - 8"
    using st s1 that by (simp add: stats_ok_def)
qed

lemma slab_last_cell:
  assumes "slab w hp c fs {b} m"
  shows "\<not> (fs = [] \<and> m = 0)"
proof
  assume e: "fs = [] \<and> m = 0"
  have "cell c 0 \<in> cells_from c 0" "cell c 1 \<in> cells_from c 0" by (auto simp: cells_from_def)
  then have "cell c 0 = b" "cell c 1 = b" using slabD(8) [OF assms] e by auto
  then show False by (metis cell_eq zero_neq_one)
qed

text \<open>The lists after a cell was given back.\<close>

lemma small_ok_give:
  assumes ok: "small_ok w hp full nonfull cache S {}" and S: "S c = Some (fs, us, m)" and b: "b \<in> us"
    and sl: "slab w' hp c (b # fs) (us - {b}) m"
    and os: "\<And>e es es' l. S e = Some (es, es', l) \<Longrightarrow> e \<noteq> c \<Longrightarrow> slab w' hp e es es' l"
  shows "us \<noteq> {b} \<Longrightarrow> small_ok w' hp (if fs = [] \<and> m = 0 then remove1 c full else full)
        (if fs = [] \<and> m = 0 then c # nonfull else nonfull) cache (S(c \<mapsto> (b # fs, us - {b}, m))) {}"
    "us = {b} \<Longrightarrow> cache = 0 \<Longrightarrow> small_ok w' hp full (remove1 c nonfull) c (S(c \<mapsto> (b # fs, {}, m))) {}"
    "us = {b} \<Longrightarrow> cache \<noteq> 0 \<Longrightarrow> small_ok w' hp full (remove1 c nonfull) cache (S(c := None)) {}"
proof -
  note sm = small_okD [OF ok]
  have cc: "c \<noteq> cache" using sm(6) [OF S] b by auto
  have c0: "0 < c" by (rule slabD(1) [OF sl])
  have full: "c \<in> set full \<longleftrightarrow> fs = [] \<and> m = 0" by (rule sm(5) [OF S])
  have non: "c \<in> set nonfull \<longleftrightarrow> \<not> (fs = [] \<and> m = 0)" using sm(1) sm(3) [of c] S full cc by auto
  have e: "S e \<noteq> None \<longleftrightarrow> e \<in> set full \<union> set nonfull \<or> e = cache \<and> cache \<noteq> 0" for e by (rule sm(3))
  have dis: "distinct full" "distinct nonfull" "set full \<inter> set nonfull = {}" using sm(1) by auto
  show "small_ok w' hp (if fs = [] \<and> m = 0 then remove1 c full else full)
      (if fs = [] \<and> m = 0 then c # nonfull else nonfull) cache (S(c \<mapsto> (b # fs, us - {b}, m))) {}" if ne: "us \<noteq> {b}"
    unfolding small_ok_def
  proof (intro conjI allI impI)
    let ?S = "S(c \<mapsto> (b # fs, us - {b}, m))"
    show "distinct ((if fs = [] \<and> m = 0 then remove1 c full else full) @ (if fs = [] \<and> m = 0 then c # nonfull else nonfull))"
      using dis non by auto
    show "cache \<notin> set (if fs = [] \<and> m = 0 then remove1 c full else full) \<union>
        set (if fs = [] \<and> m = 0 then c # nonfull else nonfull)"
      using sm(2) cc dis by auto
    show "?S x \<noteq> None \<longleftrightarrow> x \<in> set (if fs = [] \<and> m = 0 then remove1 c full else full) \<union>
        set (if fs = [] \<and> m = 0 then c # nonfull else nonfull) \<or> x = cache \<and> cache \<noteq> 0" for x
      using e [of x] full non dis by (cases "x = c") auto
    fix x es es' l assume x: "?S x = Some (es, es', l)"
    show "slab w' hp x es es' l" using x sl os by (cases "x = c") auto
    show "x \<in> set (if fs = [] \<and> m = 0 then remove1 c full else full) \<longleftrightarrow> es = [] \<and> l = 0"
      using x full dis sm(5) [of x es es' l] by (cases "x = c") auto
    show "x = cache \<longleftrightarrow> es' = {}"
      using x cc ne b sm(6) [of x es es' l] by (cases "x = c") auto
  qed
  assume us: "us = {b}"
  have nf: "\<not> (fs = [] \<and> m = 0)" using slab_last_cell sm(4) [OF S] us by blast
  show "small_ok w' hp full (remove1 c nonfull) c (S(c \<mapsto> (b # fs, {}, m))) {}" if cache: "cache = 0"
    unfolding small_ok_def
  proof (intro conjI allI impI)
    let ?S = "S(c \<mapsto> (b # fs, {}, m))"
    show "distinct (full @ remove1 c nonfull)" "c \<notin> set full \<union> set (remove1 c nonfull)"
      using dis full nf set_remove1_subset [of c nonfull] by auto
    show "?S x \<noteq> None \<longleftrightarrow> x \<in> set full \<union> set (remove1 c nonfull) \<or> x = c \<and> c \<noteq> 0" for x
      using e [of x] cache c0 dis full nf by (cases "x = c") auto
    fix x es es' l assume x: "?S x = Some (es, es', l)"
    show "slab w' hp x es es' l" using x sl us os by (cases "x = c") auto
    show "x \<in> set full \<longleftrightarrow> es = [] \<and> l = 0"
      using x full nf sm(5) [of x es es' l] by (cases "x = c") auto
    show "x = c \<longleftrightarrow> es' = {}"
      using x cache sm(6) [of x es es' l] os [of x es es' l] slabD(1) [of w' hp x es es' l] by (cases "x = c") auto
  qed
  show "small_ok w' hp full (remove1 c nonfull) cache (S(c := None)) {}" if cache: "cache \<noteq> 0"
    unfolding small_ok_def
  proof (intro conjI allI impI)
    let ?S = "S(c := None)"
    show "distinct (full @ remove1 c nonfull)" "cache \<notin> set full \<union> set (remove1 c nonfull)"
      using dis sm(2) set_remove1_subset [of c nonfull] by auto
    show "?S x \<noteq> None \<longleftrightarrow> x \<in> set full \<union> set (remove1 c nonfull) \<or> x = cache \<and> cache \<noteq> 0" for x
      using e [of x] dis full nf cc by (cases "x = c") auto
    fix x es es' l assume "?S x = Some (es, es', l)"
    then have x: "S x = Some (es, es', l)" "x \<noteq> c" by (auto split: if_splits)
    show "slab w' hp x es es' l" by (rule os [OF x])
    show "x \<in> set full \<longleftrightarrow> es = [] \<and> l = 0" by (rule sm(5) [OF x(1)])
    show "x = cache \<longleftrightarrow> es' = {}" using sm(6) [OF x(1)] by simp
  qed
qed

lemma after_give_same:
  assumes "after_give c f l h = (z, h')"
  shows "wd h' = wd h" "heap_addr h' = heap_addr h" "sys_calls h' = sys_calls h" "system_allocs h' = system_allocs h"
    "settings_ok h' = settings_ok h" "free_lists h' = free_lists h" "bitmap h' = bitmap h"
    "toplevel_bitmap h' = toplevel_bitmap h" "config_ok h' = config_ok h"
    "cur_outstanding_allocations_count h' = cur_outstanding_allocations_count h"
    "cur_outstanding_allocations_bytes h' = cur_outstanding_allocations_bytes h" "force_debug h' = force_debug h"
  using assms by (auto simp: after_give_def smallchunk_link_nonfull_def smallchunk_unlink_full_def
      smallchunk_unlink_nonfull_def settings_ok_def config_ok_def Let_def split: if_splits)

lemma stats_ok_lists: "stats_ok (h\<lparr>small_full := a, small_nonfull := b, chunkcache := c, wd := w\<rparr>) U S G = stats_ok h U S G"
  by (simp add: stats_ok_def)

lemma slab_upd_live:
  assumes "S c = Some (fs, us, m)" "16 \<le> c" "b \<in> us"
  shows "live U S G = insert (b + 8, 8) (live U (S(c \<mapsto> (fs', us - {b}, m'))) G)"
proof -
  have "live U S G = live (U(c - 16 := None)) (S(c := None)) G \<union> {(b + 8, 8) | b. b \<in> us}"
    by (rule live_slab [where S = S, OF assms(1,2)])
  moreover have "live U (S(c \<mapsto> (fs', us - {b}, m'))) G =
      live (U(c - 16 := None)) (S(c := None)) G \<union> {(x + 8, 8) | x. x \<in> us - {b}}"
    using live_slab [of "S(c \<mapsto> (fs', us - {b}, m'))" c, OF _ assms(2)] by simp
  ultimately show ?thesis using assms(3) by blast
qed

lemma small_free_stbm:
  assumes st: "stbm_state env h B C P S G R {}" and S: "S c = Some (fs, us, m)" and b: "b \<in> us"
  obtains h' B' C' P' S' R' where "small_free (b + 8) h = Inr h'" "stbm_state env h' B' C' P' S' G R' {}"
    "live (used B) S G = insert (b + 8, 8) (live (used B') S' G)" "(b + 8, 8) \<notin> live (used B') S' G"
    "data_kept (live (used B') S' G) h h'" "adds 0 0 0 h h'"
proof -
  note found = that
  note d = stbm_stateD [OF st]
  note sm = small_okD [OF d(3)]
  note sl = sm(4) [OF S]
  obtain n where n: "16 \<le> c" "used B (c - 16) = Some n" "4056 \<le> n"
    by (rule slab_block [where U = "used B" and S = S, OF d(4) S])
  have fin: "finite us" using slab_card [OF sl] by simp
  define w' where "w' = (wd h)(b + 8 := wd h (c + 32), b := STBM_SMALL_FREE_BLOCK_MAGIC, c + 32 := b, c + 48 := card us - 1)"
  have ne: "us = {b} \<Longrightarrow> \<not> (fs = [] \<and> m = 0)" using slab_last_cell sl by blast
  note run = small_free_slab [OF sl b w'_def ne]
  have sl': "slab w' (heap_addr h) c (b # fs) (us - {b}) m" by (rule slab_give [OF sl b w'_def])
  have bm: "b \<in> cells_from c m" by (rule slabD(15) [OF sl b])
  have wout: "w' x = wd h x" if "x < c \<or> c + 4040 \<le> x" for x
    using cells_from_range [OF bm] that by (auto simp: w'_def)
  have wdata: "w' x = wd h x" if x: "x < c \<or> c + 4040 \<le> x \<or> (\<exists>b' \<in> us - {b}. x = b' + 8)" for x
  proof -
    have "us - {b} \<subseteq> cells_from c m" using slabD(15) [OF sl] by auto
    note out = slab_outside [OF this bm x]
    moreover have "x \<noteq> b + 8" using x cells_from_range [OF bm] by auto
    ultimately show ?thesis by (simp add: w'_def)
  qed
  note os = other_slab [OF st S _ _ wout]
  note give = small_ok_give [OF d(3) S b sl' os]
  note so = stats_ok_cell [OF d(7) small_ok_finite [OF d(3)] S b fin]
  obtain z h2 where ag: "after_give c (fs = [] \<and> m = 0) (us = {b}) (h\<lparr>wd := w'\<rparr>) = (z, h2)" by (metis surj_pair)
  note same = after_give_same [OF ag]
  define h3 where "h3 = h2\<lparr>cur_outstanding_allocations_count := cur_outstanding_allocations_count h2 - 1,
    cur_outstanding_allocations_bytes := cur_outstanding_allocations_bytes h2 - 8\<rparr>"
  have upd: "stats_update_free 8 h2 = Inr h3" using so(1,2) same(10,11) by (simp add: stats_update_free_def h3_def)
  have run': "small_free (b + 8) h = (if z \<noteq> 0 then medium_free z h3 else Inr h3)" using run ag upd by simp
  have c3: "cur_outstanding_allocations_count h3 = cur_outstanding_allocations_count h - 1"
    "cur_outstanding_allocations_bytes h3 = cur_outstanding_allocations_bytes h - 8"
    using same(10,11) by (simp_all add: h3_def)
  have s3: "wd h3 = w'" "heap_addr h3 = heap_addr h" "sys_calls h3 = sys_calls h" "system_allocs h3 = system_allocs h"
    "settings_ok h3" "free_lists h3 = free_lists h" "bitmap h3 = bitmap h" "toplevel_bitmap h3 = toplevel_bitmap h"
    "config_ok h3" "small_full h3 = small_full h2" "small_nonfull h3 = small_nonfull h2" "chunkcache h3 = chunkcache h2"
    using same d(8,10) by (simp_all add: h3_def settings_ok_def config_ok_def)
  have a3: "adds 0 0 0 h h3" using c3 same(3,12) by (simp add: adds_def h3_def)
  have w3: "wd h3 x = wd h x" if "x < c \<or> c + 4040 \<le> x" for x using wout that s3(1) by simp
  text \<open>The chunk stays.\<close>
  let ?S = "S(c \<mapsto> (b # fs, us - {b}, m))"
  have stay: thesis if z: "z = 0" and ok: "small_ok w' (heap_addr h) (small_full h3) (small_nonfull h3) (chunkcache h3) ?S {}"
  proof -
    have "slabs_used (used B) ?S" by (rule slabs_used_upd [OF d(4)]) (simp add: S)
    then have st': "stbm_state env h3 B C P ?S G R {}"
      by (intro slab_change_state [OF st S w3 s3(2-9) _ _ so(3) [OF c3]]) (use ok s3(1) in simp_all)
    have lv: "live (used B) S G = insert (b + 8, 8) (live (used B) ?S G)"
      by (rule slab_upd_live [where S = S, OF S n(1) b])
    have "(b + 8, 8) \<notin> live (used B) ?S G"
    proof
      assume "(b + 8, 8) \<in> live (used B) ?S G"
      moreover have "live (used B) ?S G = live ((used B)(c - 16 := None)) (S(c := None)) G \<union> {(x + 8, 8) | x. x \<in> us - {b}}"
        using live_slab [of ?S c, OF _ n(1)] by simp
      ultimately have "(b + 8, 8) \<in> live ((used B)(c - 16 := None)) (S(c := None)) G" by auto
      from live_minus_slab [OF st S this] cells_from_range [OF bm] show False by auto
    qed
    moreover have "data_kept (live (used B) ?S G) h h3"
      by (rule slab_data_kept [OF st S]) (use wdata s3(1) in auto)
    ultimately show thesis using run' z a3 by (intro found [OF _ st' lv]) simp_all
  qed
  show thesis
  proof (cases "us = {b}")
    case False
    then have "z = 0" "small_full h2 = (if fs = [] \<and> m = 0 then remove1 c (small_full h) else small_full h)"
      "small_nonfull h2 = (if fs = [] \<and> m = 0 then c # small_nonfull h else small_nonfull h)" "chunkcache h2 = chunkcache h"
      using ag by (auto simp: after_give_def smallchunk_link_nonfull_def smallchunk_unlink_full_def split: if_splits)
    then show thesis using give(1) False by (intro stay) (simp_all add: s3(10-12))
  next
    case us: True
    show thesis
    proof (cases "chunkcache h = 0")
      case True
      then have "z = 0" "small_full h2 = small_full h" "small_nonfull h2 = remove1 c (small_nonfull h)" "chunkcache h2 = c"
        using ag us by (auto simp: after_give_def smallchunk_unlink_nonfull_def Let_def)
      then show thesis using give(2) us True by (intro stay) (simp_all add: s3(10-12))
    next
      case False
      then have z: "z = c" "small_full h2 = small_full h" "small_nonfull h2 = remove1 c (small_nonfull h)" "chunkcache h2 = chunkcache h"
        using ag us by (auto simp: after_give_def smallchunk_unlink_nonfull_def Let_def)
      let ?T = "S(c := None)"
      have "slabs_used (used B) ?T" using d(4) unfolding slabs_used_def by (metis fun_upd_apply)
      moreover have "stats_ok h3 (used B) ?T G"
      proof -
        have "?S = ?T(c \<mapsto> (b # fs, {}, m))" using us by auto
        moreover have "finite (dom ?T)" using small_ok_finite [OF d(3)] by simp
        ultimately have "(\<Sum>e \<in> dom ?S. slab_cells ?S e) = (\<Sum>e \<in> dom ?T. slab_cells ?T e)"
          using slab_cells_new [of ?T c "b # fs" m] by simp
        then show ?thesis using so(3) [OF c3, of "b # fs" m] by (simp add: stats_ok_def)
      qed
      moreover have "small_ok (wd h3) (heap_addr h) (small_full h3) (small_nonfull h3) (chunkcache h3) ?T {}"
        using give(3) us False z(2-4) by (simp add: s3)
      ultimately have st3: "stbm_state env h3 B C P ?T G R {}"
        by (intro slab_change_state [OF st S w3 s3(2-9)])
      have c: "c - 16 + 16 = c" "0 < c" using n(1) by simp_all
      obtain h' B' C' P' R' where m: "medium_free c h3 = Inr h'" "stbm_state env h' B' C' P' ?T G R' {}"
        "used B' = (used B)(c - 16 := None)" "data_kept (live (used B') ?T G) h3 h'" "adds 0 0 0 h3 h'"
        by (rule medium_free_stbm [OF st3 n(2)]) (simp_all only: c fun_upd_same)
      have lv: "live (used B) S G = insert (b + 8, 8) (live (used B') ?T G)"
        using live_slab [where S = S and U = "used B" and G = G, OF S n(1)] us by (auto simp: m(3))
      have nl: "(b + 8, 8) \<notin> live (used B') ?T G"
        using live_minus_slab [OF st S, of "b + 8" 8] cells_from_range [OF bm] m(3) by auto
      have "data_kept (live (used B') ?T G) h h3"
      proof -
        have k: "wd h3 x = wd h x" if "users C ((used B)(c - 16 := None)) x" for x
          using slab_write(1) [OF d(9) n(2,3,1), of "wd h3" "wd h", OF w3 that] .
        have "data_kept (live ((used B)(c - 16 := None)) ?T G) h h3"
          by (rule users_data_kept [OF k slabs_used_minus [OF d(4) n(1)] _ d(6) large_not_chunk [OF d(1,5)]])
            (auto split: if_splits intro: sm(4))
        then show ?thesis using m(3) by simp
      qed
      from data_kept_trans [OF this m(4)] show thesis
        by (intro found [OF _ m(2) lv nl]) (use run' z(1) c m(1) adds_trans [OF a3 m(5)] in simp_all)
    qed
  qed
qed

section \<open>Freeing a large block\<close>

lemma stats_ok_remove_large:
  assumes st: "stats_ok h U S G" and G: "finite (dom G)" "G u = Some (s, z)"
  shows "1 \<le> cur_outstanding_allocations_count h" "z \<le> cur_outstanding_allocations_bytes h"
    "cur_outstanding_allocations_count h' = cur_outstanding_allocations_count h - 1 \<Longrightarrow>
      cur_outstanding_allocations_bytes h' = cur_outstanding_allocations_bytes h - z \<Longrightarrow> stats_ok h' U S (G(u := None))"
proof -
  have u: "u \<in> dom G" using G(2) by blast
  have c: "card (dom G) = Suc (card (dom G - {u}))" using card.remove [OF G(1) u] by simp
  have t: "(\<Sum>b \<in> dom G. snd (the (G b))) = z + (\<Sum>b \<in> dom G - {u}. snd (the (G b)))"
    using sum.remove [OF G(1) u, of "\<lambda>b. snd (the (G b))"] G(2) by simp
  have t': "(\<Sum>b \<in> dom G - {u}. snd (the ((G(u := None)) b))) = (\<Sum>b \<in> dom G - {u}. snd (the (G b)))"
    by (rule sum.cong) auto
  show "1 \<le> cur_outstanding_allocations_count h" "z \<le> cur_outstanding_allocations_bytes h"
    using st c t by (simp_all add: stats_ok_def)
  show "stats_ok h' U S (G(u := None))"
    if "cur_outstanding_allocations_count h' = cur_outstanding_allocations_count h - 1"
      "cur_outstanding_allocations_bytes h' = cur_outstanding_allocations_bytes h - z"
    using st c t t' that by (simp add: stats_ok_def)
qed

lemma large_free_stbm:
  assumes st: "stbm_state env h B C P S G R {}" and G: "G u = Some (s, z)"
  obtains h' G' R' where "large_free u h = Inr h'" "stbm_state env h' B C P S G' R' {}"
    "live (used B) S G = insert (u, z) (live (used B) S G')" "(u, z) \<notin> live (used B) S G'" "wd h' = wd h"
    "adds 0 0 0 h h'"
proof -
  note found = that
  note d = stbm_stateD [OF st]
  have u: "u = s + 80" using sys_okD(7) [OF d(6) G] by simp
  note lw = large_okD(2-4) [OF d(5) G]
  note so = stats_ok_remove_large [OF d(7) large_okD(1) [OF d(5)] G]
  define h' where "h' = h\<lparr>system_allocs := remove1 s (system_allocs h),
    cur_outstanding_allocations_count := cur_outstanding_allocations_count h - 1,
    cur_outstanding_allocations_bytes := cur_outstanding_allocations_bytes h - z, sys_freed := s # sys_freed h\<rparr>"
  have off: "s + 80 - 32 = s + 48" "s + 80 - 24 = s + 56" by simp_all
  have run: "large_free u h = Inr h'"
    unfolding large_free_def u off
    using lw so(1,2) by (simp add: system_alloc_unlink_def stats_update_free_def system_free_def h'_def Let_def)
  let ?G = "G(u := None)" and ?R = "R(s := None)"
  have ne: "C k \<noteq> Some (s, t)" for k t by (rule large_not_chunk [OF d(1,5) G])
  have "heap_state h' B C {} P"
    by (rule heap_state_users [OF d(1)])
      (use d(1,10) ne in \<open>auto simp: h'_def heap_state_def config_ok_def systems_ok_def\<close>)
  moreover have "small_ok (wd h') (heap_addr h') (small_full h') (small_nonfull h') (chunkcache h') S {}"
    using d(3) by (simp add: h'_def)
  moreover have "large_ok (wd h') (heap_addr h') ?G"
    using d(5) unfolding large_ok_def by (auto simp: h'_def)
  moreover have "sys_ok env (sys_calls h') (system_allocs h') C ?G ?R"
    using sys_ok_remove_large [OF d(6) G ne] by (simp add: h'_def)
  moreover have "stats_ok h' (used B) S ?G" by (rule so(3)) (simp_all add: h'_def)
  moreover have "settings_ok h'" using d(8) by (simp add: h'_def settings_ok_def)
  ultimately have st': "stbm_state env h' B C P S ?G ?R {}" using d(2,4) by (simp add: stbm_state_def)
  have lv: "live (used B) S G = insert (u, z) (live (used B) S ?G)" by (rule live_large [where U = "used B" and S = S and G = G, OF G])
  have "(u, z) \<notin> live (used B) S ?G"
    using live_minus_large [OF st G, of u z] u lw(1) by auto
  then show ?thesis by (rule found [OF run st' lv]) (simp_all add: h'_def adds_def)
qed

end
