(* ===== verification/StbmApi.thy ===== *)
theory StbmApi
  imports Stbm
begin

text \<open>
  The interface of \<open>stb_malloc.h\<close> above its three allocators: blocks with user data, with an alignment of their
  own and with debugging information, what is known of a block from its header, freeing and reallocating, and the
  creation of a heap. Lilith uses no thread cache (it passes \<open>NULL\<close>), with which \<open>stbm__tc_alloc\<close> and
  \<open>stbm__tc_free\<close> call the dispatch layer.
\<close>

unbundle bit_operations_syntax

section \<open>What the header of a block says\<close>

text \<open>
  In front of the user's data a wrapped block has \<open>underlying_allocation\<close> (-16) and \<open>prefix\<close> (-8) when it is
  aligned, and \<open>underlying_allocation\<close> (-24), \<open>user_size_in_bytes\<close> (-16) and \<open>prefix\<close> (-8) when it has debugging
  information. The functions follow \<open>underlying_allocation\<close>: they return when the chain of wrapped blocks ends
  (\<open>None\<close>: it does not).
\<close>

partial_function (option) stbm_get_allocation_size :: "stbm_heap \<Rightarrow> nat \<Rightarrow> nat res option" where
  "stbm_get_allocation_size h p =
     (if TYPE_of (wd h (p - 8)) = TYPE_medium then Some (Inr (medium_size (wd h (p - 8)) - 16))
      else if TYPE_of (wd h (p - 8)) = TYPE_small then Some (Inr (STBM_SMALLEST_BLOCKSIZE - 8))
      else if TYPE_of (wd h (p - 8)) = TYPE_large then Some (Inr (wd h (p - 24)))
      else if TYPE_of (wd h (p - 8)) = TYPE_debug then Some (Inr (wd h (p - 16)))
      else if TYPE_of (wd h (p - 8)) = TYPE_aligned then
        Option.bind (stbm_get_allocation_size h (wd h (p - 16)))
          (\<lambda>r. Some (res_bind r (\<lambda>size. Inr ((wd h (p - 16) + size + 2 ^ 64 - p) mod 2 ^ 64))))
      else Some (Inl (ExitWith 1)))"

partial_function (option) stbm_get_heap :: "stbm_heap \<Rightarrow> nat \<Rightarrow> nat res option" where
  "stbm_get_heap h p =
     (if TYPE_med_large (wd h (p - 8)) then Some (Inr (wd h (p - 16)))
      else if TYPE_of (wd h (p - 8)) = TYPE_small then Some (Inr (wd h (wd h (p - 8) + 8)))
      else if TYPE_of (wd h (p - 8)) = TYPE_aligned then stbm_get_heap h (wd h (p - 16))
      else if TYPE_of (wd h (p - 8)) = TYPE_debug then stbm_get_heap h (wd h (p - 24))
      else Some (Inl (ExitWith 1)))"

definition USERDATA_BITS :: "nat \<Rightarrow> nat" where "USERDATA_BITS x = drop_bit 16 (x AND 0xffffffff)"

definition stbm_get_userdata :: "stbm_heap \<Rightarrow> nat \<Rightarrow> nat" where
  "stbm_get_userdata h p =
     (let prefix = wd h (p - 8) in if TYPE_of prefix = TYPE_small then 0 else USERDATA_BITS prefix)"

section \<open>Blocks with user data\<close>

text \<open>Small blocks have no room for the 16 bits of user data.\<close>

definition alloc_normal :: "system_alloc \<Rightarrow> nat \<Rightarrow> nat \<Rightarrow> stbm_heap \<Rightarrow> (nat \<times> stbm_heap) res" where
  "alloc_normal env size0 userdata h =
     (if size0 \<le> STBM_SMALLEST_ALLOCATION \<and> userdata = 0 then heap_alloc env size0 h
      else
        let size0 = (if size0 \<le> STBM_SMALLEST_ALLOCATION then STBM_SMALLEST_ALLOCATION + 1 else size0)
        in res_bind (heap_alloc env size0 h) (\<lambda>(ptr, h).
             if ptr \<noteq> 0 then
               let prefix = wd h (ptr - 8)
               in stbm_assert (TYPE_of prefix \<noteq> TYPE_small) (Inr (ptr, st_word (ptr - 8) (USERDATA_SETBITS prefix userdata) h))
             else Inr (ptr, h)))"

section \<open>Blocks with an alignment\<close>

definition is_pow2 :: "nat \<Rightarrow> bool" where
  "is_pow2 num \<longleftrightarrow> num AND ((num + 2 ^ 64 - 1) mod 2 ^ 64) = 0"

definition round_up_to_multiple_of_power_of_two :: "nat \<Rightarrow> nat \<Rightarrow> nat res" where
  "round_up_to_multiple_of_power_of_two num pow2 =
     stbm_assert (is_pow2 pow2) (Inr ((num + pow2 + 2 ^ 64 - 1) mod 2 ^ 64 AND (2 ^ 64 - pow2)))"

definition WRAPPED_true :: nat where "WRAPPED_true = 32"

text \<open>
  The result is the pointer for the user, 0 when there is no memory, the block it lies in, and the size that was asked
  of the heap for it. Sizes are computed modulo \<open>2 ^ 64\<close>.
\<close>

definition alloc_aligned_internal ::
  "system_alloc \<Rightarrow> nat \<Rightarrow> nat \<Rightarrow> nat \<Rightarrow> nat \<Rightarrow> nat \<Rightarrow> stbm_heap \<Rightarrow> ((nat \<times> nat \<times> nat) \<times> stbm_heap) res" where
  "alloc_aligned_internal env size0 alignment align_offset header_bytes footer_bytes h =
     (let (al, align_off) = (if alignment = 0 then (minimum_alignment h, 0) else (alignment, align_offset))
      in res_bind (round_up_to_multiple_of_power_of_two ((header_bytes + 2 ^ 64 - align_off) mod 2 ^ 64) al) (\<lambda>r.
         let extra_bytes = (r + align_off) mod 2 ^ 64;
             extra_bytes = (if minimum_alignment h < al then (extra_bytes + (al - minimum_alignment h)) mod 2 ^ 64
                            else extra_bytes);
             size0 = (extra_bytes + size0 + footer_bytes) mod 2 ^ 64
         in res_bind (heap_alloc env size0 h) (\<lambda>(base, h).
              if base = 0 then Inr ((0, 0, size0), h)
              else
                let h = st_word (base - 8) (wd h (base - 8) OR WRAPPED_true) h
                in res_bind (align_address (base + header_bytes) al align_off) (\<lambda>u. Inr ((u, base, size0), h)))))"

definition alloc_align :: "system_alloc \<Rightarrow> nat \<Rightarrow> nat \<Rightarrow> nat \<Rightarrow> nat \<Rightarrow> stbm_heap \<Rightarrow> (nat \<times> stbm_heap) res" where
  "alloc_align env size0 userdata alignment align_offset h =
     res_bind (alloc_aligned_internal env size0 alignment align_offset (16 + 8) 0 h) (\<lambda>((user_ptr, base, size1), h).
       if user_ptr = 0 then Inr (0, h)
       else
         let h = st_word (user_ptr - 16) base h;
             h = st_word (user_ptr - 8) (USERDATA_SETBITS TYPE_aligned userdata) h;
             h = st_word base user_ptr h
         in stbm_assert (user_ptr + size0 \<le> base + size1)
              (stbm_assert (base \<le> user_ptr - 16) (Inr (user_ptr, h))))"

section \<open>Blocks with debugging information\<close>

text \<open>
  \<open>stbm__debug_base1\<close>: \<open>wrapped_user_pointer\<close> 0, \<open>file\<close> 8, \<open>line\<close> 16 (24 bytes); \<open>stbm__debug_base2\<close> has after it
  in one word \<open>num_guard_bytes\<close> (16 bits), \<open>guard_value\<close>, \<open>padding\<close> (8 bits) and \<open>extra_debug_bytes\<close> (32 bytes).
  Guard bytes are written and read one by one.
\<close>

definition DEBUG_1 :: nat where "DEBUG_1 = 0"
definition DEBUG_2 :: nat where "DEBUG_2 = 8"
definition DEBUG_MASK :: nat where "DEBUG_MASK = 24"
definition DEBUG_MAGIC :: nat where "DEBUG_MAGIC = 0x5500"
definition DEBUG_SETMAGIC :: "nat \<Rightarrow> nat" where "DEBUG_SETMAGIC x = (x AND (2 ^ 64 - 1 - 0xff00)) OR DEBUG_MAGIC"
definition DEBUG_TESTMAGIC :: "nat \<Rightarrow> bool" where "DEBUG_TESTMAGIC x \<longleftrightarrow> x AND 0xff00 = DEBUG_MAGIC"

definition ld_byte :: "stbm_heap \<Rightarrow> nat \<Rightarrow> nat" where
  "ld_byte h a = wd h (a - a mod 8) div 256 ^ (a mod 8) mod 256"

definition st_byte :: "nat \<Rightarrow> nat \<Rightarrow> stbm_heap \<Rightarrow> stbm_heap" where
  "st_byte a v h =
     (let w = a - a mod 8; s = 256 ^ (a mod 8)
      in st_word w (wd h w - wd h w div s mod 256 * s + v mod 256 * s) h)"

definition fill_bytes :: "nat \<Rightarrow> nat \<Rightarrow> nat \<Rightarrow> stbm_heap \<Rightarrow> stbm_heap" where
  "fill_bytes a v n h = fold (\<lambda>i. st_byte (a + i) v) [0..<n] h"

definition debug2_word :: "nat \<Rightarrow> nat \<Rightarrow> nat \<Rightarrow> nat \<Rightarrow> nat" where
  "debug2_word num value padding extra =
     num mod 2 ^ 16 + 2 ^ 16 * (value mod 2 ^ 8) + 2 ^ 24 * (padding mod 2 ^ 8) + 2 ^ 32 * (extra mod 2 ^ 32)"

definition alloc_link_debug_allocation :: "nat \<Rightarrow> nat \<Rightarrow> nat \<Rightarrow> stbm_heap \<Rightarrow> stbm_heap" where
  "alloc_link_debug_allocation file line user_ptr h =
     (let db = wd h (user_ptr - 24) in st_word (db + 16) line (st_word (db + 8) file (st_word db user_ptr h)))"

definition alloc_debug1 ::
  "system_alloc \<Rightarrow> nat \<Rightarrow> nat \<Rightarrow> nat \<Rightarrow> nat \<Rightarrow> nat \<Rightarrow> nat \<Rightarrow> stbm_heap \<Rightarrow> (nat \<times> stbm_heap) res" where
  "alloc_debug1 env size0 userdata alignment align_offset file line h =
     res_bind (alloc_aligned_internal env size0 alignment align_offset (24 + 24) 0 h) (\<lambda>((user_ptr, base, size1), h).
       if user_ptr = 0 then Inr (0, h)
       else stbm_assert (user_ptr + size0 \<le> base + size1) (stbm_assert (base \<le> user_ptr - 24)
         (let h = st_word (user_ptr - 24) base h;
              h = st_word (user_ptr - 16) size0 h;
              h = st_word (user_ptr - 8) (DEBUG_SETMAGIC (USERDATA_SETBITS (TYPE_debug OR DEBUG_1) userdata)) h
          in Inr (user_ptr, alloc_link_debug_allocation file line user_ptr h))))"

text \<open>
  The bytes after the user's are guards. \<open>excess\<close> is the size of the block as its new header says it, less the size
  asked for; the code has an \<open>int\<close> for the size of the headers.
\<close>

definition alloc_debug2 ::
  "system_alloc \<Rightarrow> nat \<Rightarrow> nat \<Rightarrow> nat \<Rightarrow> nat \<Rightarrow> nat \<Rightarrow> nat \<Rightarrow> nat \<Rightarrow> stbm_heap \<Rightarrow> (nat \<times> stbm_heap) res option" where
  "alloc_debug2 env size0 userdata alignment align_offset file line extra_debug_size h =
     (case res_bind (round_up_to_multiple_of_power_of_two extra_debug_size 8) (\<lambda>extra_debug.
        alloc_aligned_internal env size0 alignment align_offset
          (unat (scast (ucast (of_nat (32 + 24 + extra_debug) :: u64) :: u32) :: u64)) (num_guard_bytes h) h) of
        Inl e \<Rightarrow> Some (Inl e)
      | Inr ((user_ptr, base, size1), h) \<Rightarrow>
          if user_ptr = 0 then Some (Inr (0, h))
          else if \<not> (user_ptr + size0 + num_guard_bytes h \<le> base + size1) \<or> \<not> (base + 32 + extra_debug_size \<le> user_ptr - 24)
          then Some (Inl (ExitWith 1))
          else
            let h = st_word (user_ptr - 24) base h;
                h = st_word (user_ptr - 16) size0 h;
                h = st_word (user_ptr - 8) (DEBUG_SETMAGIC (USERDATA_SETBITS (TYPE_debug OR DEBUG_2) userdata)) h
            in Option.bind (stbm_get_allocation_size h user_ptr) (\<lambda>r. Some (res_bind r (\<lambda>size2.
                 let excess = (size2 + 2 ^ 64 - size0) mod 2 ^ 64
                 in stbm_assert (num_guard_bytes h \<le> excess)
                   (let num = (if 255 < excess then 255 else excess);
                        h = st_word (base + 24)
                              (debug2_word (if excess = 0 then 0 else 16 * num)
                                (if excess = 0 then wd h (base + 24) div 2 ^ 16 else guard_value h) 0x57 extra_debug_size) h;
                        h = (if excess = 0 then h else fill_bytes (user_ptr + size0) (guard_value h) num h)
                    in Inr (user_ptr, alloc_link_debug_allocation file line user_ptr h))))))"

definition alloc_debug ::
  "system_alloc \<Rightarrow> nat \<Rightarrow> nat \<Rightarrow> nat \<Rightarrow> nat \<Rightarrow> nat \<Rightarrow> nat \<Rightarrow> stbm_heap \<Rightarrow> (nat \<times> stbm_heap) res option" where
  "alloc_debug env size0 userdata alignment align_offset file line h =
     (if num_guard_bytes h \<noteq> 0 then alloc_debug2 env size0 userdata alignment align_offset file line 0 h
      else Some (alloc_debug1 env size0 userdata alignment align_offset file line h))"

text \<open>The guard bytes are compared when the block is freed.\<close>

definition alloc_check_guard :: "nat \<Rightarrow> stbm_heap \<Rightarrow> bool" where
  "alloc_check_guard ptr h =
     (if wd h (ptr - 8) AND DEBUG_MASK \<noteq> DEBUG_2 then True
      else
        let db2 = wd h (ptr - 24);
            num_bytes = wd h (db2 + 24) mod 2 ^ 16;
            c = wd h (db2 + 24) div 2 ^ 16 mod 2 ^ 8
        in num_bytes = 0 \<or>
           num_bytes AND 0xf00f = 0 \<and> list_all (\<lambda>i. ld_byte h (ptr + wd h (ptr - 16) + i) = c) [0..<num_bytes div 16])"

definition stbm_get_debug_data :: "stbm_heap \<Rightarrow> nat \<Rightarrow> nat \<times> nat" where
  "stbm_get_debug_data h ptr =
     (if ptr \<noteq> 0 \<and> TYPE_of (wd h (ptr - 8)) = TYPE_debug \<and> wd h (ptr - 8) AND DEBUG_MASK = DEBUG_2 then
        let db2 = wd h (ptr - 24);
            n = wd h (db2 + 24) div 2 ^ 32
        in (n, if n \<noteq> 0 then db2 + 32 else 0)
      else (0, 0))"

definition stbm_get_fileline :: "stbm_heap \<Rightarrow> nat \<Rightarrow> nat \<times> nat" where
  "stbm_get_fileline h ptr =
     (if ptr \<noteq> 0 \<and> TYPE_of (wd h (ptr - 8)) = TYPE_debug then
        let db1 = wd h (ptr - 24) in (wd h (db1 + 16), wd h (db1 + 8))
      else (0, 0))"

section \<open>Allocating\<close>

definition enlarge_small :: "stbm_heap \<Rightarrow> nat \<Rightarrow> nat" where
  "enlarge_small h size0 =
     (if size0 \<le> STBM_SMALLEST_ALLOCATION \<and> align_all_blocks_to_minimum h \<and> STBM_SMALL_ALIGNMENT < minimum_alignment h
      then STBM_SMALLEST_ALLOCATION + 1 else size0)"

definition stbm_alloc :: "system_alloc \<Rightarrow> nat \<Rightarrow> nat \<Rightarrow> stbm_heap \<Rightarrow> (nat \<times> stbm_heap) res option" where
  "stbm_alloc env size0 userdata16 h =
     (if force_debug h then alloc_debug env size0 userdata16 0 0 0 0 h
      else Some (alloc_normal env (enlarge_small h size0) userdata16 h))"

definition stbm_alloc_fileline ::
  "system_alloc \<Rightarrow> nat \<Rightarrow> nat \<Rightarrow> nat \<Rightarrow> nat \<Rightarrow> stbm_heap \<Rightarrow> (nat \<times> stbm_heap) res option" where
  "stbm_alloc_fileline env size0 userdata16 file line h =
     (if force_file_line h \<or> force_debug h then alloc_debug env size0 userdata16 0 0 file line h
      else Some (alloc_normal env (enlarge_small h size0) userdata16 h))"

definition alloc_align_or_normal ::
  "system_alloc \<Rightarrow> nat \<Rightarrow> nat \<Rightarrow> nat \<Rightarrow> nat \<Rightarrow> stbm_heap \<Rightarrow> (nat \<times> stbm_heap) res" where
  "alloc_align_or_normal env size0 userdata16 alignment align_offset h =
     (if align_offset = 0 \<and> alignment \<le> minimum_alignment h \<and>
         (STBM_SMALLEST_ALLOCATION < size0 \<or> \<not> align_all_blocks_to_minimum h)
      then alloc_normal env size0 userdata16 h
      else alloc_align env size0 userdata16 (alignment mod 2 ^ 32) (align_offset mod 2 ^ 32) h)"

definition stbm_alloc_align ::
  "system_alloc \<Rightarrow> nat \<Rightarrow> nat \<Rightarrow> nat \<Rightarrow> nat \<Rightarrow> stbm_heap \<Rightarrow> (nat \<times> stbm_heap) res option" where
  "stbm_alloc_align env size0 userdata16 alignment align_offset h =
     (if force_debug h
      then alloc_debug env size0 userdata16 (alignment mod 2 ^ 32) (align_offset mod 2 ^ 32) 0 0 h
      else Some (alloc_align_or_normal env size0 userdata16 alignment align_offset h))"

definition stbm_alloc_align_fileline ::
  "system_alloc \<Rightarrow> nat \<Rightarrow> nat \<Rightarrow> nat \<Rightarrow> nat \<Rightarrow> nat \<Rightarrow> nat \<Rightarrow> stbm_heap \<Rightarrow> (nat \<times> stbm_heap) res option" where
  "stbm_alloc_align_fileline env size0 userdata16 alignment align_offset file line h =
     (if force_file_line h \<or> force_debug h
      then alloc_debug env size0 userdata16 (alignment mod 2 ^ 32) (align_offset mod 2 ^ 32) file line h
      else Some (alloc_align_or_normal env size0 userdata16 alignment align_offset h))"

text \<open>\<open>stbm_alloc_debug\<close> does not use the file and the line that it is given.\<close>

definition stbm_alloc_debug ::
  "system_alloc \<Rightarrow> nat \<Rightarrow> nat \<Rightarrow> nat \<Rightarrow> nat \<Rightarrow> nat \<Rightarrow> nat \<Rightarrow> nat \<Rightarrow> stbm_heap \<Rightarrow> (nat \<times> stbm_heap) res option" where
  "stbm_alloc_debug env size0 userdata16 alignment align_offset file line extra_debug_size h =
     (if extra_debug_size \<noteq> 0 \<or> num_guard_bytes h \<noteq> 0
      then alloc_debug2 env size0 userdata16 (alignment mod 2 ^ 32) (align_offset mod 2 ^ 32) 0 0 extra_debug_size h
      else Some (alloc_debug1 env size0 userdata16 (alignment mod 2 ^ 32) (align_offset mod 2 ^ 32) 0 0 h))"

section \<open>Freeing and reallocating\<close>

text \<open>
  \<open>stbm__tc_free\<close> finds the heap of the block and its size, then frees it. The heap record is that of the block's
  heap; a block of another heap is freed by the same call on the record of that heap (\<open>None\<close>: not this one).
\<close>

definition tc_free :: "nat \<Rightarrow> stbm_heap \<Rightarrow> stbm_heap res option" where
  "tc_free ptr h =
     Option.bind (stbm_get_heap h ptr) (\<lambda>src. Option.bind (stbm_get_allocation_size h ptr) (\<lambda>size0.
       case src of
         Inl e \<Rightarrow> Some (Inl e)
       | Inr src_heap \<Rightarrow>
           (case size0 of
              Inl e \<Rightarrow> Some (Inl e)
            | Inr _ \<Rightarrow> if src_heap = heap_addr h then Some (heap_free ptr h) else None)))"

definition alloc_free_aligned :: "nat \<Rightarrow> stbm_heap \<Rightarrow> stbm_heap res option" where
  "alloc_free_aligned ptr h = tc_free (wd h (ptr - 16)) h"

definition alloc_free_debug :: "nat \<Rightarrow> stbm_heap \<Rightarrow> stbm_heap res option" where
  "alloc_free_debug ptr h =
     (if DEBUG_TESTMAGIC (wd h (ptr - 8)) \<and> alloc_check_guard ptr h then tc_free (wd h (ptr - 24)) h
      else Some (Inl (ExitWith 1)))"

definition stbm_free :: "nat \<Rightarrow> stbm_heap \<Rightarrow> stbm_heap res option" where
  "stbm_free ptr h =
     (if ptr = 0 then Some (Inr h)
      else
        let prefix = wd h (ptr - 8)
        in if \<not> TYPE_align_debug prefix then tc_free ptr h
           else if TYPE_of prefix = TYPE_aligned then alloc_free_aligned ptr h
           else if TYPE_of prefix = TYPE_debug then alloc_free_debug ptr h
           else Some (Inl (ExitWith 1)))"

definition copy_bytes :: "nat \<Rightarrow> nat \<Rightarrow> nat \<Rightarrow> stbm_heap \<Rightarrow> stbm_heap" where
  "copy_bytes dst src n h = fold (\<lambda>i h'. st_byte (dst + i) (ld_byte h (src + i)) h') [0..<n] h"

definition stbm_realloc :: "system_alloc \<Rightarrow> nat \<Rightarrow> nat \<Rightarrow> nat \<Rightarrow> stbm_heap \<Rightarrow> (nat \<times> stbm_heap) res option" where
  "stbm_realloc env oldptr newsize userdata16 h =
     (if oldptr = 0 then stbm_alloc env newsize userdata16 h
      else if newsize = 0 then map_option (\<lambda>r. res_bind r (\<lambda>h. Inr (0, h))) (stbm_free oldptr h)
      else Option.bind (stbm_get_allocation_size h oldptr) (\<lambda>r. case r of
          Inl e \<Rightarrow> Some (Inl e)
        | Inr oldsize \<Rightarrow>
            if newsize \<le> oldsize \<and> oldsize \<le> newsize * 2 mod 2 ^ 64 then Some (Inr (oldptr, h))
            else Option.bind (stbm_alloc env newsize userdata16 h) (\<lambda>r. case r of
                Inl e \<Rightarrow> Some (Inl e)
              | Inr (newptr, h) \<Rightarrow>
                  if newptr = 0 then Some (Inr (0, h))
                  else map_option (\<lambda>r. res_bind r (\<lambda>h. Inr (newptr, h)))
                         (stbm_free oldptr (copy_bytes newptr oldptr (min oldsize newsize) h)))))"

section \<open>A new heap\<close>

text \<open>
  A heap of 3952 bytes is made at the start of the storage; the rest of it is not used. The words of the memory
  stay, the fields of the heap get their first values. \<open>hc_minimum_alignment\<close> and
  \<open>hc_align_all_blocks_to_minimum\<close> are the fields of \<open>stbm_heap_config\<close> that matter here.
\<close>

record stbm_heap_config =
  hc_minimum_alignment :: nat
  hc_align_all_blocks_to_minimum :: bool

definition sizeof_stbm_heap :: nat where "sizeof_stbm_heap = 3952"

definition medium_init :: "stbm_heap \<Rightarrow> stbm_heap" where
  "medium_init h = h\<lparr>free_lists := (\<lambda>_ _. 0), bitmap := (\<lambda>_. 0), toplevel_bitmap := 0,
     minimum_freeblock_size := max (minimum_alignment h) STBM_MEDIUM_SMALLEST_BLOCK, cached_system_alloc := 0,
     cached_system_alloc_size := 0\<rparr>"

definition system_init :: "stbm_heap \<Rightarrow> stbm_heap" where "system_init h = h\<lparr>system_allocs := []\<rparr>"

definition stats_init :: "stbm_heap \<Rightarrow> stbm_heap" where
  "stats_init h = h\<lparr>cur_outstanding_allocations_bytes := 0, cur_outstanding_allocations_count := 0,
     max_outstanding_allocations_bytes := 0, max_outstanding_allocations_count := 0,
     total_allocations_bytes := 0, total_allocations_count := 0\<rparr>"

text \<open>Memory in which there is no heap yet: the words \<open>w\<close>, and nothing that counts for the fields.\<close>

definition raw_heap :: "words \<Rightarrow> stbm_heap" where
  "raw_heap w = \<lparr>wd = w, heap_addr = 0, smallchunk_size = 0, cur_medium_chunk_size = 0, max_medium_chunk_size = 0,
     minimum_alignment = 0, large_alloc_threshhold = 0, align_all_blocks_to_minimum = False, force_debug = False,
     full_stats = False, cache_medium_chunks = 0, system_allocs = [], sys_calls = 0, sys_freed = [],
     cur_outstanding_allocations_count = 0, max_outstanding_allocations_count = 0, cur_outstanding_allocations_bytes = 0,
     max_outstanding_allocations_bytes = 0, total_allocations_count = 0, total_allocations_bytes = 0, small_full = [],
     small_nonfull = [], chunkcache = 0, free_lists = (\<lambda>_ _. 0), cached_system_alloc = 0, cached_system_alloc_size = 0,
     bitmap = (\<lambda>_. 0), toplevel_bitmap = 0, minimum_freeblock_size = 0, num_guard_bytes = 0, guard_value = 0,
     force_file_line = False\<rparr>"

text \<open>\<open>h\<close> is the storage before. The result is \<open>None\<close> for \<open>NULL\<close>.\<close>

definition stbm_heap_init :: "nat \<Rightarrow> nat \<Rightarrow> stbm_heap_config \<Rightarrow> stbm_heap \<Rightarrow> stbm_heap option res" where
  "stbm_heap_init storage storage_bytes hc h =
     (if storage_bytes < sizeof_stbm_heap then Inr None
      else
        let h = h\<lparr>heap_addr := storage, num_guard_bytes := 0, guard_value := 0, force_file_line := False,
                  force_debug := False\<rparr>
        in stbm_assert (hc_minimum_alignment hc \<le> STBM_SMALL_ALIGNMENT \<or> is_pow2 (hc_minimum_alignment hc))
             (let h = h\<lparr>minimum_alignment := (if STBM_SMALL_ALIGNMENT < hc_minimum_alignment hc
                          then hc_minimum_alignment hc mod 2 ^ 32 else STBM_SMALL_ALIGNMENT),
                        align_all_blocks_to_minimum := hc_align_all_blocks_to_minimum hc, full_stats := False,
                        large_alloc_threshhold := 262144, smallchunk_size := 4040,
                        cur_medium_chunk_size := 256 * 1024, max_medium_chunk_size := 2048 * 1024,
                        cache_medium_chunks := 0\<rparr>
              in Inr (Some (stats_init (system_init (small_init (medium_init h)))))))"

section \<open>Settings\<close>

definition stbm_heapconfig_set_trailing_guard_bytes :: "nat \<Rightarrow> nat \<Rightarrow> stbm_heap \<Rightarrow> stbm_heap" where
  "stbm_heapconfig_set_trailing_guard_bytes num_bytes value h =
     h\<lparr>num_guard_bytes := num_bytes mod 2 ^ 32, guard_value := value mod 2 ^ 8, force_debug := True\<rparr>"

definition stbm_heapconfig_capture_file_line :: "int \<Rightarrow> stbm_heap \<Rightarrow> stbm_heap" where
  "stbm_heapconfig_capture_file_line enable_capture h = h\<lparr>force_file_line := enable_capture \<noteq> 0\<rparr>"

definition stbm_heapconfig_gather_full_stats :: "stbm_heap \<Rightarrow> stbm_heap" where
  "stbm_heapconfig_gather_full_stats h = h\<lparr>full_stats := True\<rparr>"

definition stbm_heapconfig_set_largealloc_threshhold :: "nat \<Rightarrow> stbm_heap \<Rightarrow> stbm_heap" where
  "stbm_heapconfig_set_largealloc_threshhold threshhold h =
     h\<lparr>large_alloc_threshhold := min threshhold STBM_SIZECLASS_MAX\<rparr>"

definition stbm_heapconfig_set_medium_chunk_size :: "nat \<Rightarrow> nat \<Rightarrow> stbm_heap \<Rightarrow> stbm_heap" where
  "stbm_heapconfig_set_medium_chunk_size cur_size max_size h =
     h\<lparr>cur_medium_chunk_size := cur_size, max_medium_chunk_size := min max_size (2 * 2 ^ 20)\<rparr>"

definition stbm_heapconfig_set_small_chunk_size :: "nat \<Rightarrow> stbm_heap \<Rightarrow> stbm_heap" where
  "stbm_heapconfig_set_small_chunk_size size0 h = h\<lparr>smallchunk_size := size0\<rparr>"

definition stbm_heapconfig_cache_medium_chunks :: "int \<Rightarrow> stbm_heap \<Rightarrow> stbm_heap" where
  "stbm_heapconfig_cache_medium_chunks do_cache h = h\<lparr>cache_medium_chunks := nat (do_cache mod 2 ^ 8)\<rparr>"

section \<open>Checking and destroying a heap\<close>

text \<open>\<open>stbm__medium_check_list\<close> walks a free list; \<open>None\<close>: the list does not end.\<close>

partial_function (option) medium_check_blocks :: "nat \<Rightarrow> nat \<Rightarrow> stbm_heap \<Rightarrow> nat \<Rightarrow> unit res option" where
  "medium_check_blocks i s h cur =
     (if cur = 0 then Some (Inr ())
      else if wd h (cur + 8) AND BLOCK_MASK \<noteq> 0 \<or>
        (wd h (cur - 8) < MEDIUM_CHUNK_PRE_HEADER \<and> wd h (cur + 8) AND PREVIOUS_MASK = 0) \<or>
        MED_FREE_SIZECLASS (wd h (cur + 8)) \<noteq> i * 32 + s \<or>
        (wd h (cur + 16) \<noteq> 0 \<and> wd h (wd h (cur + 16)) \<noteq> cur) \<or>
        (MED_FREE_SIZECLASS (wd h (cur + 8)) div 32 \<noteq> i \<or> MED_FREE_SIZECLASS (wd h (cur + 8)) mod 32 \<noteq> s) \<or>
        ((i \<noteq> 12 \<or> s \<noteq> 31) \<and> index_slot_for_free_block (MED_FREE_BYTES (wd h (cur + 8))) \<noteq> Inr (i, s)) \<or>
        wd h (cur + MED_FREE_BYTES (wd h (cur + 8)) + 8) AND PREVIOUS_MASK \<noteq> 0
      then Some (Inl (ExitWith 1))
      else medium_check_blocks i s h (wd h (cur + 16)))"

definition medium_check_list :: "stbm_heap \<Rightarrow> nat \<Rightarrow> nat \<Rightarrow> unit res option" where
  "medium_check_list h i s =
     (if (free_lists h i s = 0) = (bitmap h i AND map_bit s = 0) then medium_check_blocks i s h (free_lists h i s)
      else Some (Inl (ExitWith 1)))"

fun all_checks :: "unit res option list \<Rightarrow> unit res option" where
  "all_checks [] = Some (Inr ())"
| "all_checks (c # cs) = Option.bind c (\<lambda>r. case r of Inl e \<Rightarrow> Some (Inl e) | Inr _ \<Rightarrow> all_checks cs)"

definition medium_check_all :: "stbm_heap \<Rightarrow> unit res option" where
  "medium_check_all h =
     all_checks (concat (map (\<lambda>i.
       (if (toplevel_bitmap h AND map_bit i = 0) \<noteq> (bitmap h i = 0) then Some (Inl (ExitWith 1)) else Some (Inr ())) #
       map (medium_check_list h i) [0..<32]) [0..<13]))"

text \<open>Every system allocation of the heap is given back.\<close>

definition stbm_heap_free :: "stbm_heap \<Rightarrow> stbm_heap res" where
  "stbm_heap_free h =
     res_bind (res_fold (\<lambda>cur h. stbm_assert (wd h cur = STBM_SYSTEM_ALLOC_LARGE \<or> wd h cur = STBM_SYSTEM_ALLOC_MEDIUM)
         (Inr (system_free cur h))) (system_allocs h) h)
       (\<lambda>h. Inr (if cached_system_alloc h \<noteq> 0 then system_free (cached_system_alloc h) h else h))"

end
