(* ===== verification/BlockAlloc.thy ===== *)
theory BlockAlloc
  imports Prelude
begin

text \<open>
  What the users of a block allocator rely on, as a locale, and what follows for a program that allocates, frees and
  writes to its blocks in any order: every block behaves as an array of its own.
\<close>

section \<open>Programs on blocks\<close>

text \<open>
  A program holds the pointers it got. It allocates a block of \<open>n\<close> bytes, frees the \<open>k\<close>-th block it got, or
  stores a value in the \<open>i\<close>-th word of the \<open>k\<close>-th block. It does nothing with a block that it did not get.
\<close>

datatype client_op = Alloc nat | Free nat | Store nat nat nat

fun client_step :: "(nat \<Rightarrow> 'h \<Rightarrow> (nat \<times> 'h) res option) \<Rightarrow> (nat \<Rightarrow> 'h \<Rightarrow> 'h res option) \<Rightarrow> (nat \<Rightarrow> nat \<Rightarrow> 'h \<Rightarrow> 'h) \<Rightarrow>
    client_op \<Rightarrow> nat list \<times> 'h \<Rightarrow> (nat list \<times> 'h) res option" where
  "client_step al fr wr (Alloc n) (ps, h) = map_option (\<lambda>r. res_bind r (\<lambda>(p, h). Inr (ps @ [p], h))) (al n h)"
| "client_step al fr wr (Free k) (ps, h) =
     (if ps ! k = 0 then Some (Inr (ps, h))
      else map_option (\<lambda>r. res_bind r (\<lambda>h. Inr (ps[k := 0], h))) (fr (ps ! k) h))"
| "client_step al fr wr (Store k i v) (ps, h) =
     Some (Inr (ps, if ps ! k = 0 then h else wr (ps ! k + 8 * i) v h))"

fun client_run :: "(nat \<Rightarrow> 'h \<Rightarrow> (nat \<times> 'h) res option) \<Rightarrow> (nat \<Rightarrow> 'h \<Rightarrow> 'h res option) \<Rightarrow> (nat \<Rightarrow> nat \<Rightarrow> 'h \<Rightarrow> 'h) \<Rightarrow>
    client_op list \<Rightarrow> nat list \<times> 'h \<Rightarrow> (nat list \<times> 'h) res option" where
  "client_run al fr wr [] s = Some (Inr s)"
| "client_run al fr wr (x # xs) s =
     Option.bind (client_step al fr wr x s)
       (\<lambda>r. case r of Inl e \<Rightarrow> Some (Inl e) | Inr s \<Rightarrow> client_run al fr wr xs s)"

text \<open>The specification: arrays with a size and the words stored so far; a freed one is \<open>None\<close>.\<close>

type_synonym arrays = "(nat \<times> (nat \<rightharpoonup> nat)) option list"

fun spec_step :: "client_op \<Rightarrow> arrays \<Rightarrow> arrays" where
  "spec_step (Alloc n) A = A @ [Some (n, Map.empty)]"
| "spec_step (Free k) A = A[k := None]"
| "spec_step (Store k i v) A = (case A ! k of None \<Rightarrow> A | Some (n, c) \<Rightarrow> A[k := Some (n, c(i \<mapsto> v))])"

text \<open>What a program may do: it frees and writes the blocks it holds only, and stays inside.\<close>

fun op_ok :: "nat \<Rightarrow> arrays \<Rightarrow> client_op \<Rightarrow> bool" where
  "op_ok limit A (Alloc n) \<longleftrightarrow> n \<le> limit"
| "op_ok limit A (Free k) \<longleftrightarrow> k < length A \<and> A ! k \<noteq> None"
| "op_ok limit A (Store k i v) \<longleftrightarrow> k < length A \<and> (case A ! k of None \<Rightarrow> False | Some (n, c) \<Rightarrow> 8 * i + 8 \<le> n)"

fun ops_ok :: "nat \<Rightarrow> arrays \<Rightarrow> client_op list \<Rightarrow> bool" where
  "ops_ok limit A [] \<longleftrightarrow> True"
| "ops_ok limit A (x # xs) \<longleftrightarrow> op_ok limit A x \<and> ops_ok limit (spec_step x A) xs"

lemma nth_freed: "j < length A \<Longrightarrow> A[k := None] ! j = Some nc \<longleftrightarrow> j \<noteq> k \<and> A ! j = Some nc"
  by (cases "j = k") simp_all

section \<open>The contract\<close>

text \<open>
  \<open>inv b h L\<close>: the users hold the blocks \<open>L\<close>, pairs of a pointer and a size, and \<open>b\<close> more operations
  are possible; \<open>served\<close>: the system has memory for them.
\<close>

locale block_allocator =
  fixes alloc :: "nat \<Rightarrow> 'h \<Rightarrow> (nat \<times> 'h) res option"
    and free :: "nat \<Rightarrow> 'h \<Rightarrow> 'h res option"
    and store :: "nat \<Rightarrow> nat \<Rightarrow> 'h \<Rightarrow> 'h"
    and load :: "'h \<Rightarrow> nat \<Rightarrow> nat"
    and kept :: "(nat \<times> nat) set \<Rightarrow> 'h \<Rightarrow> 'h \<Rightarrow> bool"
    and inv :: "nat \<Rightarrow> 'h \<Rightarrow> (nat \<times> nat) set \<Rightarrow> bool"
    and limit :: nat
    and served :: bool
  assumes alloc_law: "inv (Suc b) h L \<Longrightarrow> n \<le> limit \<Longrightarrow> \<exists>p h'. alloc n h = Some (Inr (p, h')) \<and> kept L h h' \<and>
      (p = 0 \<and> \<not> served \<and> inv b h' L \<or> (\<exists>m. p \<noteq> 0 \<and> n \<le> m \<and> inv b h' (insert (p, m) L) \<and> (p, m) \<notin> L))"
    and free_law: "inv (Suc b) h L \<Longrightarrow> (p, m) \<in> L \<Longrightarrow> \<exists>h'. free p h = Some (Inr h') \<and>
      kept (L - {(p, m)}) h h' \<and> inv b h' (L - {(p, m)})"
    and store_law: "inv (Suc b) h L \<Longrightarrow> (p, m) \<in> L \<Longrightarrow> p \<le> x \<Longrightarrow> x < p + m \<Longrightarrow> x mod 8 = 0 \<Longrightarrow> inv b (store x v h) L"
    and idle_law: "inv (Suc b) h L \<Longrightarrow> inv b h L"
    and load_store: "load (store x v h) y = (if y = x then v else load h y)"
    and kept_load: "kept L h h' \<Longrightarrow> (p, m) \<in> L \<Longrightarrow> p \<le> x \<Longrightarrow> x < p + m \<Longrightarrow> x mod 8 = 0 \<Longrightarrow> load h' x = load h x"
    and block_law: "inv b h L \<Longrightarrow> (p, m) \<in> L \<Longrightarrow> p \<noteq> 0 \<and> p mod 8 = 0 \<and> 0 < m"
    and apart_law: "inv b h L \<Longrightarrow> (p, m) \<in> L \<Longrightarrow> (q, k) \<in> L \<Longrightarrow> (p, m) \<noteq> (q, k) \<Longrightarrow> p + m \<le> q \<or> q + k \<le> p"
begin

text \<open>The blocks of the program and the arrays of the specification.\<close>

definition holds :: "'h \<Rightarrow> (nat \<times> nat) set \<Rightarrow> nat \<Rightarrow> nat \<times> (nat \<rightharpoonup> nat) \<Rightarrow> bool" where
  "holds h L p nc \<longleftrightarrow> p = 0 \<and> \<not> served \<or> (\<exists>m. fst nc \<le> m \<and> (p, m) \<in> L \<and>
     (\<forall>i v. snd nc i = Some v \<longrightarrow> 8 * i + 8 \<le> fst nc \<and> load h (p + 8 * i) = v))"

definition represents :: "nat \<Rightarrow> nat list \<times> 'h \<Rightarrow> (nat \<times> nat) set \<Rightarrow> arrays \<Rightarrow> bool" where
  "represents b s L A \<longleftrightarrow> length (fst s) = length A \<and> inv b (snd s) L \<and>
     (\<forall>k < length A. \<forall>nc. A ! k = Some nc \<longrightarrow> holds (snd s) L (fst s ! k) nc) \<and>
     (\<forall>j k. j < k \<longrightarrow> k < length A \<longrightarrow> A ! j \<noteq> None \<longrightarrow> A ! k \<noteq> None \<longrightarrow> fst s ! j \<noteq> 0 \<longrightarrow> fst s ! j \<noteq> fst s ! k)"

lemma representsI:
  assumes "length ps = length A" "inv b h L" "\<And>k nc. k < length A \<Longrightarrow> A ! k = Some nc \<Longrightarrow> holds h L (ps ! k) nc"
    "\<And>j k. j < k \<Longrightarrow> k < length A \<Longrightarrow> A ! j \<noteq> None \<Longrightarrow> A ! k \<noteq> None \<Longrightarrow> ps ! j \<noteq> 0 \<Longrightarrow> ps ! j \<noteq> ps ! k"
  shows "represents b (ps, h) L A"
  using assms by (simp add: represents_def)

lemma representsD:
  assumes "represents b (ps, h) L A"
  shows "length ps = length A" "inv b h L" "k < length A \<Longrightarrow> A ! k = Some nc \<Longrightarrow> holds h L (ps ! k) nc"
    "j < k \<Longrightarrow> k < length A \<Longrightarrow> A ! j \<noteq> None \<Longrightarrow> A ! k \<noteq> None \<Longrightarrow> ps ! j \<noteq> 0 \<Longrightarrow> ps ! j \<noteq> ps ! k"
  using assms unfolding represents_def fst_conv snd_conv by blast+

lemma holds_null: "inv b h L \<Longrightarrow> holds h' L 0 nc \<longleftrightarrow> \<not> served"
  unfolding holds_def using block_law [of b h L 0] by blast

lemma same_pointer: "inv b h L \<Longrightarrow> (p, m) \<in> L \<Longrightarrow> (p, m') \<in> L \<Longrightarrow> m = m'"
  using apart_law [of b h L p m p m'] block_law [of b h L p m] block_law [of b h L p m'] by auto

lemma holds_kept:
  assumes inv: "inv b h L" and h: "holds h L p nc" and k: "kept M h h'" and s: "M \<subseteq> N" "p \<noteq> 0 \<Longrightarrow> \<forall>m. (p, m) \<in> L \<longrightarrow> (p, m) \<in> M"
  shows "holds h' N p nc"
proof (cases "p = 0")
  case False
  then obtain m where m: "fst nc \<le> m" "(p, m) \<in> L"
    "\<forall>i v. snd nc i = Some v \<longrightarrow> 8 * i + 8 \<le> fst nc \<and> load h (p + 8 * i) = v"
    using h by (auto simp: holds_def)
  have M: "(p, m) \<in> M" using s(2) False m(2) by blast
  have "load h' (p + 8 * i) = v" if c: "snd nc i = Some v" for i v
  proof -
    have i: "8 * i + 8 \<le> fst nc" "load h (p + 8 * i) = v" using m(3) c by blast+
    moreover have "(p + 8 * i) mod 8 = 0" using block_law [OF inv m(2)] by presburger
    ultimately show ?thesis using kept_load [OF k M, of "p + 8 * i"] m(1) by simp
  qed
  then show ?thesis using m(1,3) M s(1) unfolding holds_def by blast
next
  case True
  then have "\<not> served" using h holds_null [OF inv] by simp
  then show ?thesis unfolding holds_def using True by blast
qed

lemma alloc_step:
  assumes r: "represents (Suc b) (ps, h) L A" and n: "n \<le> limit"
  shows "\<exists>s' L'. client_step alloc free store (Alloc n) (ps, h) = Some (Inr s') \<and> represents b s' L' (spec_step (Alloc n) A)"
proof -
  note d = representsD [OF r]
  obtain p h' where a: "alloc n h = Some (Inr (p, h'))" "kept L h h'"
    "p = 0 \<and> \<not> served \<and> inv b h' L \<or> (\<exists>m. p \<noteq> 0 \<and> n \<le> m \<and> inv b h' (insert (p, m) L) \<and> (p, m) \<notin> L)"
    using alloc_law [OF d(2) n] by blast
  have old: "holds h' N (ps ! k) nc" if "k < length A" "A ! k = Some nc" "L \<subseteq> N" for k nc N
    by (rule holds_kept [OF d(2) d(3) [OF that(1,2)] a(2) that(3)]) blast
  have run: "client_step alloc free store (Alloc n) (ps, h) = Some (Inr (ps @ [p], h'))" using a(1) by simp
  have "\<exists>L'. represents b (ps @ [p], h') L' (A @ [Some (n, Map.empty)])"
    using a(3)
  proof (elim disjE conjE exE)
    assume p: "p = 0" "\<not> served" "inv b h' L"
    have "holds h' L 0 (n, Map.empty)" using holds_null [OF p(3)] p(2) by simp
    then show ?thesis
      by (intro exI [of _ L] representsI)
        (use d(1,4) old p(1,3) in \<open>auto simp: nth_append less_Suc_eq split: if_splits\<close>)
  next
    fix m assume p: "p \<noteq> 0" "n \<le> m" "inv b h' (insert (p, m) L)" "(p, m) \<notin> L"
    have "ps ! k \<noteq> p" if k: "k < length A" "A ! k \<noteq> None" for k
    proof
      assume e: "ps ! k = p"
      obtain nc where "A ! k = Some nc" using k(2) by auto
      then obtain m' where m': "(p, m') \<in> L" using d(3) [OF k(1)] e p(1) by (auto simp: holds_def)
      then have "m = m'" using same_pointer [OF p(3), of p m m'] by auto
      then show False using m' p(4) by simp
    qed
    moreover have "holds h' (insert (p, m) L) p (n, Map.empty)" using p(2) by (auto simp: holds_def)
    ultimately show ?thesis
      using d(1,4) old p(3)
      by (intro exI [of _ "insert (p, m) L"] representsI) (auto simp: nth_append less_Suc_eq subset_insertI split: if_splits)
  qed
  then show ?thesis using run by auto
qed

lemma free_step:
  assumes r: "represents (Suc b) (ps, h) L A" and k: "k < length A" "A ! k \<noteq> None"
  shows "\<exists>s' L'. client_step alloc free store (Free k) (ps, h) = Some (Inr s') \<and> represents b s' L' (spec_step (Free k) A)"
proof -
  note d = representsD [OF r]
  show ?thesis
  proof (cases "ps ! k = 0")
    case True
    have "represents b (ps, h) L (A[k := None])"
    proof (rule representsI)
      fix j l assume jl: "j < l" "l < length (A[k := None])" "A[k := None] ! j \<noteq> None" "A[k := None] ! l \<noteq> None" "ps ! j \<noteq> 0"
      then have "A ! j \<noteq> None" "A ! l \<noteq> None" using nth_freed [of j A k] nth_freed [of l A k] by auto
      then show "ps ! j \<noteq> ps ! l" using d(4) [of j l] jl by simp
    next
      fix j nc assume "j < length (A[k := None])" "A[k := None] ! j = Some nc"
      then show "holds h L (ps ! j) nc" using nth_freed [of j A k nc] d(3) [of j nc] by simp
    qed (use d(1) idle_law [OF d(2)] in simp_all)
    then show ?thesis using True by auto
  next
    case False
    obtain nc m where m: "A ! k = Some nc" "(ps ! k, m) \<in> L" using d(3) [OF k(1)] k(2) False by (auto simp: holds_def)
    obtain h' where f: "free (ps ! k) h = Some (Inr h')" "kept (L - {(ps ! k, m)}) h h'" "inv b h' (L - {(ps ! k, m)})"
      using free_law [OF d(2) m(2)] by blast
    have old: "holds h' (L - {(ps ! k, m)}) (ps ! j) ns" if j: "j < length A" "A ! j = Some ns" "j \<noteq> k" for j ns
    proof (rule holds_kept [OF d(2) d(3) [OF j(1,2)] f(2) order_refl])
      have "ps ! j \<noteq> ps ! k" if "ps ! j \<noteq> 0"
        using d(4) [of j k] d(4) [of k j] k j False that by (metis option.distinct(1) nat_neq_iff)
      then show "ps ! j \<noteq> 0 \<Longrightarrow> \<forall>l. (ps ! j, l) \<in> L \<longrightarrow> (ps ! j, l) \<in> L - {(ps ! k, m)}" by auto
    qed
    have "represents b (ps[k := 0], h') (L - {(ps ! k, m)}) (A[k := None])"
    proof (intro representsI)
      fix j l assume jl: "j < l" "l < length (A[k := None])" "A[k := None] ! j \<noteq> None" "A[k := None] ! l \<noteq> None"
        "ps[k := 0] ! j \<noteq> 0"
      then have a: "A ! j \<noteq> None" "A ! l \<noteq> None" "j \<noteq> k" "l \<noteq> k" using nth_freed [of j A k] nth_freed [of l A k] by auto
      then show "ps[k := 0] ! j \<noteq> ps[k := 0] ! l" using d(4) [of j l] jl by simp
    next
      fix j nc assume "j < length (A[k := None])" "A[k := None] ! j = Some nc"
      then show "holds h' (L - {(ps ! k, m)}) (ps[k := 0] ! j) nc" using nth_freed [of j A k nc] old [of j nc] by simp
    qed (use d(1) f(3) in simp_all)
    then show ?thesis using False f(1) by auto
  qed
qed

lemma store_step:
  assumes r: "represents (Suc b) (ps, h) L A" and k: "k < length A" "A ! k = Some (n, c)" "8 * i + 8 \<le> n"
  shows "\<exists>s' L'. client_step alloc free store (Store k i v) (ps, h) = Some (Inr s') \<and>
    represents b s' L' (spec_step (Store k i v) A)"
proof -
  note d = representsD [OF r]
  let ?A = "A[k := Some (n, c(i \<mapsto> v))]"
  have spec: "spec_step (Store k i v) A = ?A" using k(2) by simp
  have ne: "?A ! j \<noteq> None \<longleftrightarrow> A ! j \<noteq> None" if "j < length A" for j
    using k(2) that by (cases "j = k") simp_all
  show ?thesis
  proof (cases "ps ! k = 0")
    case True
    have "represents b (ps, h) L ?A"
    proof (rule representsI)
      fix j nc assume j: "j < length ?A" "?A ! j = Some nc"
      have "\<not> served" using d(3) [OF k(1,2)] True holds_null [OF d(2)] by simp
      then show "holds h L (ps ! j) nc" using j d(3) [of j nc] True holds_null [OF d(2)] by (cases "j = k") simp_all
    next
      fix j l assume "j < l" "l < length ?A" "?A ! j \<noteq> None" "?A ! l \<noteq> None" "ps ! j \<noteq> 0"
      then show "ps ! j \<noteq> ps ! l" using d(4) [of j l] ne by simp
    qed (use d(1) idle_law [OF d(2)] in simp_all)
    then show ?thesis using True spec by auto
  next
    case False
    obtain m where m: "n \<le> m" "(ps ! k, m) \<in> L" "\<forall>i v. c i = Some v \<longrightarrow> 8 * i + 8 \<le> n \<and> load h (ps ! k + 8 * i) = v"
      using d(3) [OF k(1,2)] False by (auto simp: holds_def)
    let ?x = "ps ! k + 8 * i" and ?h = "store (ps ! k + 8 * i) v h"
    have al: "?x mod 8 = 0" using block_law [OF d(2) m(2)] by presburger
    have inv: "inv b ?h L" by (rule store_law [OF d(2) m(2)]) (use k(3) m(1) al in simp_all)
    have "represents b (ps, ?h) L ?A"
    proof (rule representsI)
      fix j nc assume j: "j < length ?A" "?A ! j = Some nc"
      show "holds ?h L (ps ! j) nc"
      proof (cases "j = k")
        case True
        then have "nc = (n, c(i \<mapsto> v))" using j k(1) by simp
        then show ?thesis using m k(3) True by (auto simp: holds_def load_store)
      next
        case ne: False
        then have A: "j < length A" "A ! j = Some nc" using j by simp_all
        note hj = d(3) [OF A]
        show ?thesis
        proof (cases "ps ! j = 0")
          case False
          then obtain l where l: "fst nc \<le> l" "(ps ! j, l) \<in> L"
            "\<forall>i v. snd nc i = Some v \<longrightarrow> 8 * i + 8 \<le> fst nc \<and> load h (ps ! j + 8 * i) = v"
            using hj by (auto simp: holds_def)
          have "ps ! j \<noteq> ps ! k"
            using d(4) [of j k] d(4) [of k j] k(1,2) A ne False \<open>ps ! k \<noteq> 0\<close> by (metis option.distinct(1) nat_neq_iff)
          then have ap: "ps ! j + l \<le> ps ! k \<or> ps ! k + m \<le> ps ! j" using apart_law [OF d(2) l(2) m(2)] by auto
          have "ps ! j + 8 * i' \<noteq> ?x" if "snd nc i' = Some v'" for i' v'
            using l(1,3) that ap k(3) m(1) by fastforce
          then show ?thesis using l unfolding holds_def load_store by auto
        next
          case True
          then show ?thesis using hj holds_null [OF d(2)] by simp
        qed
      qed
    next
      fix j l assume "j < l" "l < length ?A" "?A ! j \<noteq> None" "?A ! l \<noteq> None" "ps ! j \<noteq> 0"
      then show "ps ! j \<noteq> ps ! l" using d(4) [of j l] ne by simp
    qed (use d(1) inv in simp_all)
    then show ?thesis using False spec by auto
  qed
qed

lemma op_step:
  assumes r: "represents (Suc b) s L A" and x: "op_ok limit A x"
  shows "\<exists>s' L'. client_step alloc free store x s = Some (Inr s') \<and> represents b s' L' (spec_step x A)"
proof -
  obtain ps h where s: "s = (ps, h)" by (cases s)
  show ?thesis
  proof (cases x)
    case (Store k i v)
    then obtain n c where "k < length A" "A ! k = Some (n, c)" "8 * i + 8 \<le> n"
      using x by (auto split: option.splits)
    from store_step [OF r [unfolded s] this] show ?thesis using s Store by blast
  qed (use r x s alloc_step free_step in auto)
qed

text \<open>Whatever a program does, its blocks are the arrays of the specification.\<close>

lemma run_represents:
  assumes "represents (length xs + b) s L A" "ops_ok limit A xs"
  shows "\<exists>s' L'. client_run alloc free store xs s = Some (Inr s') \<and> represents b s' L' (fold spec_step xs A)"
  using assms
proof (induction xs arbitrary: s L A)
  case (Cons x xs)
  then obtain s' L' where s': "client_step alloc free store x s = Some (Inr s')" "represents (length xs + b) s' L' (spec_step x A)"
    using op_step [of "length xs + b" s L A x] by auto
  show ?case using Cons.IH [OF s'(2)] Cons.prems(2) s'(1) by simp
qed auto

lemma represents_served: "represents b (ps, h) L A \<Longrightarrow> served \<Longrightarrow> k < length A \<Longrightarrow> A ! k = Some nc \<Longrightarrow> ps ! k \<noteq> 0"
  using representsD(2,3) holds_null by (metis (full_types))

lemma represents_start: "inv b h {} \<Longrightarrow> represents b ([], h) {} []"
  by (simp add: represents_def)

lemma represents_arrays:
  assumes r: "represents b (ps, h) L A" and k: "k < length A" "A ! k = Some (n, c)" "ps ! k \<noteq> 0"
  shows "c i = Some v \<Longrightarrow> load h (ps ! k + 8 * i) = v"
    "j < length A \<Longrightarrow> j \<noteq> k \<Longrightarrow> A ! j = Some (n', c') \<Longrightarrow> ps ! j \<noteq> 0 \<Longrightarrow> ps ! j + n' \<le> ps ! k \<or> ps ! k + n \<le> ps ! j"
proof -
  note d = representsD [OF r]
  obtain m where m: "n \<le> m" "(ps ! k, m) \<in> L" "\<forall>i v. c i = Some v \<longrightarrow> 8 * i + 8 \<le> n \<and> load h (ps ! k + 8 * i) = v"
    using d(3) [OF k(1,2)] k(3) by (auto simp: holds_def)
  show "c i = Some v \<Longrightarrow> load h (ps ! k + 8 * i) = v" using m(3) by blast
  assume j: "j < length A" "j \<noteq> k" "A ! j = Some (n', c')" "ps ! j \<noteq> 0"
  obtain m' where m': "n' \<le> m'" "(ps ! j, m') \<in> L" using d(3) [OF j(1,3)] j(4) by (auto simp: holds_def)
  have "ps ! j \<noteq> ps ! k"
    using d(4) [of j k] d(4) [of k j] k j by (metis option.distinct(1) nat_neq_iff)
  then show "ps ! j + n' \<le> ps ! k \<or> ps ! k + n \<le> ps ! j" using apart_law [OF d(2) m'(2) m(2)] m(1) m'(1) by auto
qed

end

end
