(* ===== verification/StbmSpec.thy ===== *)
theory StbmSpec
  imports StbmFree StbmApi BlockAlloc
begin

text \<open>
  The contract of a heap of \<open>stb_malloc.h\<close>: what the header of a block says, the dispatch layer and the interface
  on every kind of block, writes of the users, a new heap; and the interpretation of the contract of block
  allocators.
\<close>

unbundle bit_operations_syntax

section \<open>The headers of the users' blocks\<close>

lemma TYPE_of_mod: "TYPE_of x = x mod 8"
  using take_bit_eq_mask [of 3 x] by (simp add: TYPE_of_def mask_eq_exp_minus_1 take_bit_eq_mod)

lemma type_values:
  "TYPE_medium = 6" "TYPE_small = 0" "TYPE_large = 4" "TYPE_debug = 3" "TYPE_aligned = 1"
  by (simp_all add: TYPE_medium_def TYPE_small_def TYPE_large_def TYPE_debug_def TYPE_aligned_def)

lemma TYPE_med_large_cases: "TYPE_med_large x \<longleftrightarrow> TYPE_of x \<in> {4, 5, 6, 7}"
proof -
  have "TYPE_of x < 8" by (simp add: TYPE_of_mod)
  then have "TYPE_of x \<in> {0, 1, 2, 3, 4, 5, 6, 7}" by auto
  then show ?thesis unfolding TYPE_med_large_def by (elim insertE) simp_all
qed

lemma TYPE_align_debug_odd: "TYPE_align_debug x \<longleftrightarrow> odd x"
  by (simp add: TYPE_align_debug_def and_one_eq mod_2_eq_odd)

lemma setbits_0: "x < 2 ^ 16 \<Longrightarrow> USERDATA_SETBITS x 0 = x"
  using take_bit_eq_mask [of 16 x] by (simp add: USERDATA_SETBITS_def mask_eq_exp_minus_1 take_bit_eq_mod)

lemma alloc_header_small_word: "alloc_header p n v \<Longrightarrow> v < 2 ^ 16"
  unfolding alloc_header_def alloc_prefix_def by (elim exE conjE) (simp split: if_splits)

lemma live_cases:
  assumes st: "stbm_state env h B C P S G R X" and L: "(p, n) \<in> live (used B) S G"
  obtains (large) s where "G p = Some (s, n)" "wd h (p - 8) = TYPE_large" "wd h (p - 16) = heap_addr h" "wd h (p - 24) = n"
    | (small) c fs us m b where "S c = Some (fs, us, m)" "b \<in> us" "p = b + 8" "n = 8" "wd h (p - 8) = c" "c mod 16 = 0"
        "wd h (c + 8) = heap_addr h"
    | (medium) a m where "used B a = Some m" "S (a + 16) = None" "p = a + 16" "n = m - 16"
        "alloc_header (P a) m (wd h (p - 8))" "wd h (p - 16) = heap_addr h"
proof -
  note found = that
  note d = stbm_stateD [OF st]
  from L consider (1) s where "G p = Some (s, n)"
    | (2) c fs us m b where "S c = Some (fs, us, m)" "b \<in> us" "p = b + 8" "n = 8"
    | (3) a m where "used B a = Some m" "S (a + 16) = None" "p = a + 16" "n = m - 16"
    unfolding live_def by blast
  then show thesis
  proof cases
    case 1
    have p: "p = s + 80" using sys_okD(7) [OF d(6) 1] by simp
    have "p - 8 = s + 72" "p - 16 = s + 64" "p - 24 = s + 56" using p by simp_all
    then show thesis using large_okD(4) [OF d(5) 1] by (intro large [OF 1]) simp_all
  next
    case 2
    note sl = small_okD(4) [OF d(3) 2(1)]
    show thesis using slabD(11) [OF sl 2(2)] slabD(2,5) [OF sl] 2(3) by (intro small [OF 2]) simp_all
  next
    case 3
    have "B a = Some (m, False)" using 3(1) by (simp add: used_Some)
    moreover have "headers (wd h) (heap_addr h) B C {} P" using d(1) by (simp add: heap_state_def)
    ultimately have "alloc_header (P a) m (wd h (a + 8))" "wd h a = heap_addr h"
      using headersD(1) [of "wd h" "heap_addr h" B C "{}" P a m False] by (simp_all add: block_header_def)
    moreover have "p - 8 = a + 8" "p - 16 = a" using 3(3) by simp_all
    ultimately show thesis by (intro medium [OF 3]) simp_all
  qed
qed

lemma medium_prefix:
  assumes "alloc_header p n v"
  shows "TYPE_of v = TYPE_medium" "medium_size v = n"
  using assms alloc_prefix_bits(3,4) unfolding alloc_header_def by blast+

text \<open>The header tells the size of the block and its heap; small blocks have no user data.\<close>

lemma live_header:
  assumes st: "stbm_state env h B C P S G R X" and L: "(p, n) \<in> live (used B) S G"
  shows "stbm_get_allocation_size h p = Some (Inr n)" "stbm_get_heap h p = Some (Inr (heap_addr h))"
    "\<not> TYPE_align_debug (wd h (p - 8))" "TYPE_of (wd h (p - 8)) = TYPE_small \<Longrightarrow> n = 8"
    "TYPE_of (wd h (p - 8)) \<noteq> TYPE_small \<Longrightarrow> USERDATA_SETBITS (wd h (p - 8)) 0 = wd h (p - 8)"
proof -
  have "stbm_get_allocation_size h p = Some (Inr n) \<and> stbm_get_heap h p = Some (Inr (heap_addr h)) \<and>
      \<not> TYPE_align_debug (wd h (p - 8)) \<and> (TYPE_of (wd h (p - 8)) = TYPE_small \<longrightarrow> n = 8) \<and>
      (TYPE_of (wd h (p - 8)) \<noteq> TYPE_small \<longrightarrow> USERDATA_SETBITS (wd h (p - 8)) 0 = wd h (p - 8))"
    using st L
  proof (cases rule: live_cases)
    case (large s)
    have "TYPE_of (wd h (p - 8)) = 4" by (simp add: large(2) TYPE_of_mod type_values)
    then show ?thesis
      using large(3,4) setbits_0 [of 4]
      by (subst stbm_get_allocation_size.simps, subst stbm_get_heap.simps)
        (simp add: type_values TYPE_med_large_cases TYPE_align_debug_odd large(2))
  next
    case (small c fs us m b)
    have "TYPE_of (wd h (p - 8)) = 0" "even c" using small(6) by (simp_all add: small(5) TYPE_of_mod) presburger+
    then show ?thesis
      using small(4,7)
      by (subst stbm_get_allocation_size.simps, subst stbm_get_heap.simps)
        (simp add: type_values TYPE_med_large_cases TYPE_align_debug_odd small(5) STBM_SMALLEST_BLOCKSIZE_def)
  next
    case (medium a m)
    have t: "TYPE_of (wd h (p - 8)) = 6" "medium_size (wd h (p - 8)) = m"
      using medium_prefix [OF medium(5)] by (simp_all add: type_values)
    then have "wd h (p - 8) mod 8 = 6" by (simp add: TYPE_of_mod)
    then have "even (wd h (p - 8))" by presburger
    then show ?thesis
      using medium(4,6) t setbits_0 [OF alloc_header_small_word [OF medium(5)]]
      by (subst stbm_get_allocation_size.simps, subst stbm_get_heap.simps)
        (simp add: type_values TYPE_med_large_cases TYPE_align_debug_odd)
  qed
  then show "stbm_get_allocation_size h p = Some (Inr n)" "stbm_get_heap h p = Some (Inr (heap_addr h))"
    "\<not> TYPE_align_debug (wd h (p - 8))" "TYPE_of (wd h (p - 8)) = TYPE_small \<Longrightarrow> n = 8"
    "TYPE_of (wd h (p - 8)) \<noteq> TYPE_small \<Longrightarrow> USERDATA_SETBITS (wd h (p - 8)) 0 = wd h (p - 8)"
    by blast+
qed

section \<open>Allocating and freeing\<close>

text \<open>A heap whose users hold the blocks \<open>L\<close>.\<close>

definition stbm_ok :: "system_alloc \<Rightarrow> stbm_heap \<Rightarrow> (nat \<times> nat) set \<Rightarrow> bool" where
  "stbm_ok env h L \<longleftrightarrow> (\<exists>B C P S G R. stbm_state env h B C P S G R {} \<and> L = live (used B) S G)"

lemma stbm_okI: "stbm_state env h B C P S G R {} \<Longrightarrow> live (used B) S G = L \<Longrightarrow> stbm_ok env h L"
  unfolding stbm_ok_def by blast

lemma stbm_ok_apart:
  assumes "stbm_ok env h L" "(p, n) \<in> L" "(q, k) \<in> L" "(p, n) \<noteq> (q, k)"
  shows "p + n \<le> q \<or> q + k \<le> p"
  using assms live_apart unfolding stbm_ok_def by blast

lemma stbm_ok_pos: "stbm_ok env h L \<Longrightarrow> (p, n) \<in> L \<Longrightarrow> 0 < n"
  using live_pos unfolding stbm_ok_def by blast

lemma heap_alloc_ok:
  assumes ok: "stbm_ok env h L" and env: "env_ok env" and size0: "size0 \<le> 2 ^ 32"
    and cnt: "cur_outstanding_allocations_count h + 2 < 2 ^ 32" "cur_outstanding_allocations_bytes h + 2 ^ 22 + size0 < 2 ^ 64"
  obtains (null) h' where "heap_alloc env size0 h = Inr (0, h')" "stbm_ok env h' L" "data_kept L h h'" "adds 0 0 1 h h'" "no_memory env h"
    | (block) p n h' where "heap_alloc env size0 h = Inr (p, h')" "p \<noteq> 0" "size0 \<le> n" "8 \<le> n"
        "stbm_ok env h' (insert (p, n) L)" "(p, n) \<notin> L" "data_kept L h h'" "adds 2 (2 ^ 22 + size0) 1 h h'"
proof -
  note found = that
  obtain B C P S G R where st: "stbm_state env h B C P S G R {}" and L: "L = live (used B) S G"
    using ok unfolding stbm_ok_def by blast
  have th: "large_alloc_threshhold h = 262144" using stbm_stateD(8) [OF st] by (simp add: settings_ok_def)
  consider (small) "size0 \<le> 8" | (medium) "8 < size0" "size0 < 262144" | (large) "262144 \<le> size0" by linarith
  then show thesis
  proof cases
    case small
    then have run: "heap_alloc env size0 h = small_alloc env size0 h" by (simp add: heap_alloc_def STBM_SMALLEST_ALLOCATION_def)
    have "cur_outstanding_allocations_bytes h + 2 ^ 22 < 2 ^ 64" using cnt(2) by simp
    with st env small cnt(1) show thesis
    proof (cases rule: small_alloc_stbm)
      case (null h' R')
      then show thesis by (intro found(1)) (auto simp: run L intro: stbm_okI)
    next
      case (block p h' B' C' P' S' R')
      show thesis
        by (rule found(2) [of p h' 8])
          (use block small stbm_okI [OF block(3,4)] adds_mono [OF block(7), of 2 "2 ^ 22 + size0"] in \<open>simp_all add: run L\<close>)
    qed
  next
    case medium
    then have run: "heap_alloc env size0 h = medium_alloc env size0 h"
      by (simp add: heap_alloc_def STBM_SMALLEST_ALLOCATION_def th)
    have "0 < size0" "size0 + 16 \<le> STBM_SIZECLASS_MAX" "cur_outstanding_allocations_count h + 1 < 2 ^ 32"
      "cur_outstanding_allocations_bytes h + 2 ^ 20 < 2 ^ 64"
      using medium cnt by (simp_all add: STBM_SIZECLASS_MAX_def)
    with st env show thesis
    proof (cases rule: medium_alloc_stbm)
      case (null h' R')
      then show thesis by (intro found(1)) (auto simp: run L intro: stbm_okI)
    next
      case (block a n h' B' C' P' R')
      have Ba: "B' a = Some (n, False)" using block(4) by (simp add: used_Some [symmetric])
      have "n \<le> 2 ^ 21" using block_bound(1) [OF stbm_stateD(9) [OF block(5)] Ba] by simp
      then have "adds 2 (2 ^ 22 + size0) 1 h h'" using block(12-15) other_fieldsD(6) [OF block(10)] by (simp add: adds_def)
      then show thesis
        by (intro found(2) [of "a + 16" h' "n - 16"])
          (use block(1,3,6-8) medium stbm_okI [OF block(5,6)] in \<open>simp_all add: run L\<close>)
    qed
  next
    case large
    then have run: "heap_alloc env size0 h = large_alloc env size0 h"
      by (simp add: heap_alloc_def STBM_SMALLEST_ALLOCATION_def th)
    have "cur_outstanding_allocations_count h + 1 < 2 ^ 32" "cur_outstanding_allocations_bytes h + size0 + 15 < 2 ^ 64"
      using cnt by simp_all
    with st env size0 show thesis
    proof (cases rule: large_alloc_stbm)
      case (null h')
      then show thesis by (intro found(1)) (auto simp: run L intro: stbm_okI)
    next
      case (block p h' G' R')
      have "adds 2 (2 ^ 22 + size0) 1 h h'" by (rule adds_mono [OF block(7)]) simp_all
      then show thesis
        by (intro found(2) [of p h' "size0 + 15"])
          (use block large stbm_okI [OF block(3,4)] in \<open>simp_all add: run L\<close>)
    qed
  qed
qed

lemma insert_minus: "L = insert x M \<Longrightarrow> x \<notin> M \<Longrightarrow> M = L - {x}"
  by blast

lemma heap_free_ok:
  assumes ok: "stbm_ok env h L" and p: "(p, n) \<in> L"
  obtains h' where "heap_free p h = Inr h'" "stbm_ok env h' (L - {(p, n)})" "data_kept (L - {(p, n)}) h h'" "adds 0 0 0 h h'"
proof -
  note found = that
  obtain B C P S G R where st: "stbm_state env h B C P S G R {}" and L: "L = live (used B) S G"
    using ok unfolding stbm_ok_def by blast
  have "(p, n) \<in> live (used B) S G" using p L by simp
  with st show thesis
  proof (cases rule: live_cases)
    case (large s)
    have run: "heap_free p h = large_free p h" by (simp add: heap_free_def large(2) TYPE_of_mod type_values)
    obtain h' G' R' where f: "large_free p h = Inr h'" "stbm_state env h' B C P S G' R' {}"
      "live (used B) S G = insert (p, n) (live (used B) S G')" "(p, n) \<notin> live (used B) S G'" "wd h' = wd h" "adds 0 0 0 h h'"
      by (rule large_free_stbm [OF st large(1)])
    have "live (used B) S G' = L - {(p, n)}" using f(3,4) L by blast
    then show thesis using f(1,6) run stbm_okI [OF f(2)] data_kept_refl [OF f(5)] by (intro found) simp_all
  next
    case (small c fs us m b)
    have "TYPE_of (wd h (p - 8)) = 0" using small(6) by (simp add: small(5) TYPE_of_mod) presburger
    then have run: "heap_free p h = small_free p h" by (simp add: heap_free_def type_values)
    obtain h' B' C' P' S' R' where f: "small_free (b + 8) h = Inr h'" "stbm_state env h' B' C' P' S' G R' {}"
      "live (used B) S G = insert (b + 8, 8) (live (used B') S' G)" "(b + 8, 8) \<notin> live (used B') S' G"
      "data_kept (live (used B') S' G) h h'" "adds 0 0 0 h h'"
      by (rule small_free_stbm [OF st small(1,2)])
    have "live (used B') S' G = L - {(p, n)}" unfolding L small(3,4) by (rule insert_minus [OF f(3,4)])
    then show thesis using f(1,5,6) run small(3) stbm_okI [OF f(2)] by (intro found) simp_all
  next
    case (medium a m)
    have run: "heap_free p h = medium_free p h" using medium_prefix(1) [OF medium(5)] by (simp add: heap_free_def)
    obtain h' B' C' P' R' where f: "medium_free (a + 16) h = Inr h'" "stbm_state env h' B' C' P' S G R' {}"
      "live (used B) S G = insert (a + 16, m - 16) (live (used B') S G)" "(a + 16, m - 16) \<notin> live (used B') S G"
      "data_kept (live (used B') S G) h h'" "adds 0 0 0 h h'"
      by (rule medium_free_stbm [OF st medium(1,2)])
    have "live (used B') S G = L - {(p, n)}" unfolding L medium(3,4) by (rule insert_minus [OF f(3,4)])
    then show thesis using f(1,5,6) run medium(3) stbm_okI [OF f(2)] by (intro found) simp_all
  qed
qed

lemma stbm_ok_nonnull: "stbm_ok env h L \<Longrightarrow> (p, n) \<in> L \<Longrightarrow> p \<noteq> 0 \<and> p mod 8 = 0"
  unfolding stbm_ok_def
proof (elim exE conjE)
  fix B C P S G R assume p: "(p, n) \<in> L" and st: "stbm_state env h B C P S G R {}" "L = live (used B) S G"
  note d = stbm_stateD [OF st(1)]
  from p have "(p, n) \<in> live (used B) S G" by (simp add: st(2))
  with st(1) show "p \<noteq> 0 \<and> p mod 8 = 0"
  proof (cases rule: live_cases)
    case (large s)
    have "p = s + 80" "s mod 16 = 0" using sys_okD(7) [OF d(6) large(1)] sys_okD(3) [OF d(6), of s "n + 80"] by auto
    then show ?thesis by presburger
  next
    case (small c fs us m b)
    have "b \<in> cells_from c m" by (rule slabD(15) [OF small_okD(4) [OF d(3) small(1)] small(2)])
    then have "b mod 8 = c mod 8" using cells_from_range by blast
    then show ?thesis using small(3,6) by presburger
  next
    case (medium a m)
    have "a mod 16 = 0" using shapeD(1) [OF d(9), of a m False] medium(1) by (simp add: used_Some)
    then show ?thesis using medium(3) by presburger
  qed
qed

text \<open>Blocks lie below \<open>2 ^ 62\<close>, where the system's memory is.\<close>

lemma stbm_ok_bound: "stbm_ok env h L \<Longrightarrow> (p, n) \<in> L \<Longrightarrow> p + n \<le> 2 ^ 62"
  unfolding stbm_ok_def
proof (elim exE conjE)
  fix B C P S G R assume p: "(p, n) \<in> L" and st: "stbm_state env h B C P S G R {}" "L = live (used B) S G"
  note d = stbm_stateD [OF st(1)]
  have block: "a + m + 16 \<le> 2 ^ 62" if "used B a = Some m" for a m
    using heap_state_mod8 [OF d(1) that] by simp
  from p have "(p, n) \<in> live (used B) S G" by (simp add: st(2))
  with st(1) show "p + n \<le> 2 ^ 62"
  proof (cases rule: live_cases)
    case (large s)
    then show ?thesis using sys_okD(7) [OF d(6) large(1)] sys_okD(3) [OF d(6), of s "n + 80"] by simp
  next
    case (small c fs us m b)
    have "b \<in> cells_from c m" by (rule slabD(15) [OF small_okD(4) [OF d(3) small(1)] small(2)])
    then have "b + 16 \<le> c + 4040" using cells_from_range by blast
    moreover obtain k where "16 \<le> c" "used B (c - 16) = Some k" "4056 \<le> k"
      using d(4) small(1) unfolding slabs_used_def by blast
    ultimately show ?thesis using block [of "c - 16" k] small(3,4) by simp
  next
    case (medium a m)
    have "32 \<le> m" using shapeD(3) [OF d(9), of a m False] medium(1) by (simp add: used_Some)
    then show ?thesis using block [OF medium(1)] medium(3,4) by simp
  qed
qed

lemma stbm_ok_header:
  assumes "stbm_ok env h L" "(p, n) \<in> L"
  shows "stbm_get_allocation_size h p = Some (Inr n)" "stbm_get_heap h p = Some (Inr (heap_addr h))"
    "\<not> TYPE_align_debug (wd h (p - 8))" "TYPE_of (wd h (p - 8)) = TYPE_small \<Longrightarrow> n = 8"
    "TYPE_of (wd h (p - 8)) \<noteq> TYPE_small \<Longrightarrow> USERDATA_SETBITS (wd h (p - 8)) 0 = wd h (p - 8)"
proof -
  obtain B C P S G R where st: "stbm_state env h B C P S G R {}" and L: "L = live (used B) S G"
    using assms(1) unfolding stbm_ok_def by blast
  have p: "(p, n) \<in> live (used B) S G" using assms(2) L by simp
  show "stbm_get_allocation_size h p = Some (Inr n)" "stbm_get_heap h p = Some (Inr (heap_addr h))"
    "\<not> TYPE_align_debug (wd h (p - 8))" "TYPE_of (wd h (p - 8)) = TYPE_small \<Longrightarrow> n = 8"
    "TYPE_of (wd h (p - 8)) \<noteq> TYPE_small \<Longrightarrow> USERDATA_SETBITS (wd h (p - 8)) 0 = wd h (p - 8)"
    by (rule live_header [OF st p]; assumption)+
qed

lemma stbm_ok_settings: "stbm_ok env h L \<Longrightarrow> settings_ok h"
  using stbm_stateD(8) unfolding stbm_ok_def by blast

text \<open>Without user data and debugging the interface is the dispatch layer.\<close>

lemma stbm_alloc_heap:
  assumes ok: "stbm_ok env h L" and env: "env_ok env" and size0: "size0 \<le> 2 ^ 32" and debug: "\<not> force_debug h"
    and cnt: "cur_outstanding_allocations_count h + 2 < 2 ^ 32" "cur_outstanding_allocations_bytes h + 2 ^ 22 + size0 < 2 ^ 64"
  shows "stbm_alloc env size0 0 h = Some (heap_alloc env size0 h)"
proof -
  have "stbm_alloc env size0 0 h = Some (alloc_normal env size0 0 h)"
    using stbm_ok_settings [OF ok] debug by (simp add: stbm_alloc_def settings_ok_def enlarge_small_def)
  moreover have "alloc_normal env size0 0 h = heap_alloc env size0 h"
  proof (cases "size0 \<le> 8")
    case True
    then show ?thesis by (simp add: alloc_normal_def STBM_SMALLEST_ALLOCATION_def)
  next
    case False
    from ok env size0 cnt show ?thesis
    proof (cases rule: heap_alloc_ok)
      case (null h')
      then show ?thesis using False by (simp add: alloc_normal_def STBM_SMALLEST_ALLOCATION_def)
    next
      case (block p n h')
      note hd = stbm_ok_header(4,5) [OF block(5), of p n]
      have t: "TYPE_of (wd h' (p - 8)) \<noteq> TYPE_small" using hd(1) False block(3) by auto
      then have "st_word (p - 8) (USERDATA_SETBITS (wd h' (p - 8)) 0) h' = h'" using hd(2) by (simp add: st_word_def)
      then show ?thesis using False block(1,2) t by (simp add: alloc_normal_def STBM_SMALLEST_ALLOCATION_def Let_def)
    qed
  qed
  ultimately show ?thesis by simp
qed

lemma stbm_free_heap:
  assumes ok: "stbm_ok env h L" and p: "(p, n) \<in> L"
  shows "stbm_free p h = Some (heap_free p h)"
  using stbm_ok_nonnull [OF ok p] stbm_ok_header(1-3) [OF ok p]
  by (simp add: stbm_free_def tc_free_def)

section \<open>The users write to their blocks\<close>

lemma stbm_ok_write:
  assumes ok: "stbm_ok env h L" and p: "(p, n) \<in> L" "p \<le> x" "x < p + n" "x mod 8 = 0"
  shows "stbm_ok env (st_word x v h) L"
proof -
  obtain B C P S G R where st: "stbm_state env h B C P S G R {}" and L: "L = live (used B) S G"
    using ok unfolding stbm_ok_def by blast
  note d = stbm_stateD [OF st]
  have pl: "(p, n) \<in> live (used B) S G" using p(1) L by simp
  let ?w = "(wd h)(x := v)"
  have u: "users C (used B) x"
    by (rule live_users [OF d(4) small_okD(4) [OF d(3)] d(6) large_not_chunk [OF d(1,5)] pl p(2,3)])
  have "heap_state (st_word x v h) B C {} P"
    by (rule heap_state_users [OF d(1)]) (use u d(1,10) in \<open>auto simp: st_word_def heap_state_def config_ok_def\<close>)
  moreover have "small_ok ?w (heap_addr h) (small_full h) (small_nonfull h) (chunkcache h) S {}"
  proof -
    have "slab ?w (heap_addr h) c fs us m" if S: "S c = Some (fs, us, m)" for c fs us m
    proof (rule slab_cong [OF small_okD(4) [OF d(3) S]])
      note sl = small_okD(4) [OF d(3) S]
      obtain l where l: "16 \<le> c" "used B (c - 16) = Some l" "4056 \<le> l"
        by (rule slab_block [where U = "used B" and S = S, OF d(4) S])
      fix y assume y: "c \<le> y" "y < c + 4040" "\<forall>b \<in> us. y \<noteq> b + 8"
      have "y \<noteq> x"
      proof
        assume e: "y = x"
        from pl live_slab [where S = S and U = "used B", OF S l(1)]
        have "(p, n) \<in> live ((used B)(c - 16 := None)) (S(c := None)) G \<or> (\<exists>b \<in> us. p = b + 8 \<and> n = 8)" by blast
        then show False
        proof
          assume "(p, n) \<in> live ((used B)(c - 16 := None)) (S(c := None)) G"
          from live_minus_slab [OF st S this] show False using y(1,2) e p(2,3) by auto
        next
          assume "\<exists>b \<in> us. p = b + 8 \<and> n = 8"
          then obtain b where b: "b \<in> us" "p = b + 8" "n = 8" by blast
          have "b mod 8 = c mod 8" using cells_from_range [OF slabD(15) [OF sl b(1)]] by simp
          moreover have "c mod 16 = 0" by (rule slabD(2) [OF sl])
          ultimately have "b mod 8 = 0" by presburger
          then have "x = b + 8" using p(2-4) b(2,3) by presburger
          then show False using y(3) b(1) e by blast
        qed
      qed
      then show "?w y = wd h y" by simp
    qed
    then show ?thesis using d(3) unfolding small_ok_def by blast
  qed
  moreover have "large_ok ?w (heap_addr h) G"
  proof -
    have "?w y = wd h y" if "G q = Some (s, z)" "y \<in> {s, s + 48, s + 56, s + 64, s + 72}" for q s z y
    proof -
      note G = that(1)
      have q: "q = s + 80" using sys_okD(7) [OF d(6) G] by simp
      from pl live_large [where U = "used B" and S = S and G = G, OF G]
      have "(p, n) = (q, z) \<or> (p, n) \<in> live (used B) S (G(q := None))" by blast
      then have "x < s \<or> q \<le> x"
        using p(2,3) live_minus_large [OF st G, of p n] by auto
      then show ?thesis using q that(2) by auto
    qed
    then show ?thesis using d(5) unfolding large_ok_def by (simp del: fun_upd_apply)
  qed
  ultimately have "stbm_state env (st_word x v h) B C P S G R {}"
    using d(2,4,6,7,8) by (simp add: stbm_state_def st_word_def stats_ok_def settings_ok_def)
  then show ?thesis using L stbm_okI by blast
qed

section \<open>A new heap\<close>

lemma stbm_heap_init_ok:
  assumes "sizeof_stbm_heap \<le> bytes" "hc_minimum_alignment hc \<le> 16" "\<not> hc_align_all_blocks_to_minimum hc"
  obtains h' where "stbm_heap_init storage bytes hc h = Inr (Some h')" "stbm_ok env h' {}"
    "cur_outstanding_allocations_count h' = 0" "cur_outstanding_allocations_bytes h' = 0" "sys_calls h' = sys_calls h" "\<not> force_debug h'"
proof -
  define h' where "h' = stats_init (system_init (small_init (medium_init (h\<lparr>heap_addr := storage, num_guard_bytes := 0,
    guard_value := 0, force_file_line := False, force_debug := False, minimum_alignment := STBM_SMALL_ALIGNMENT,
    align_all_blocks_to_minimum := False, full_stats := False, large_alloc_threshhold := 262144,
    smallchunk_size := 4040, cur_medium_chunk_size := 256 * 1024, max_medium_chunk_size := 2048 * 1024,
    cache_medium_chunks := 0\<rparr>))))"
  have run: "stbm_heap_init storage bytes hc h = Inr (Some h')"
    using assms by (simp add: stbm_heap_init_def STBM_SMALL_ALIGNMENT_def h'_def)
  have f: "system_allocs h' = []" "small_full h' = []" "small_nonfull h' = []" "chunkcache h' = 0"
    "free_lists h' = (\<lambda>_ _. 0)" "bitmap h' = (\<lambda>_. 0)" "toplevel_bitmap h' = 0" "config_ok h'" "settings_ok h'"
    "cur_outstanding_allocations_count h' = 0" "cur_outstanding_allocations_bytes h' = 0" "sys_calls h' = sys_calls h"
    "\<not> force_debug h'"
    by (simp_all add: h'_def stats_init_def system_init_def small_init_def medium_init_def config_ok_def settings_ok_def
      STBM_SMALL_ALIGNMENT_def STBM_MEDIUM_SMALLEST_BLOCK_def)
  have us: "used Map.empty = Map.empty" by (rule ext) (simp add: used_def)
  have fo: "free_of Map.empty {} = Map.empty" by (rule ext) (simp add: free_of_def)
  have "heap_state h' Map.empty Map.empty {} (\<lambda>_. False)"
    using f by (simp add: heap_state_def shape_def chunks_ok_def coalesced_def headers_def lists_ok_def fo apart_def systems_ok_def)
  then have "stbm_state env h' Map.empty Map.empty (\<lambda>_. False) Map.empty Map.empty Map.empty {}"
    using f by (simp add: stbm_state_def flags_ok_def pv_def small_ok_def slabs_used_def large_ok_def sys_ok_def
      stats_ok_def us)
  moreover have "live (used Map.empty) Map.empty Map.empty = {}" by (simp add: live_def used_def)
  ultimately have "stbm_ok env h' {}" by (rule stbm_okI)
  then show ?thesis using that run f(10-13) by blast
qed

section \<open>The contract of the heap\<close>

text \<open>
  The users hold \<open>L\<close>, and \<open>b\<close> more operations leave the counters of the heap in range; when \<open>served\<close>, the system
  has memory for them. A request has at most 4 GB, and no debugging is forced.
\<close>

definition stbm_inv :: "system_alloc \<Rightarrow> bool \<Rightarrow> nat \<Rightarrow> stbm_heap \<Rightarrow> (nat \<times> nat) set \<Rightarrow> bool" where
  "stbm_inv env served b h L \<longleftrightarrow> env_ok env \<and> stbm_ok env h L \<and> \<not> force_debug h \<and>
     cur_outstanding_allocations_count h + 2 * b < 2 ^ 32 \<and> cur_outstanding_allocations_bytes h + b * 2 ^ 33 < 2 ^ 64 \<and>
     (served \<longrightarrow> (\<forall>j r. sys_calls h \<le> j \<longrightarrow> j < sys_calls h + b \<longrightarrow> r \<le> 2 ^ 33 \<longrightarrow> fst (env j r) \<noteq> 0))"

lemma stbm_inv_less: "stbm_inv env served (Suc b) h L \<Longrightarrow> stbm_inv env served b h L"
  by (auto simp: stbm_inv_def)

lemma stbm_inv_step:
  assumes inv: "stbm_inv env served (Suc b) h L" and ok: "stbm_ok env h' L'" and a: "adds 2 (2 ^ 33) 1 h h'"
  shows "stbm_inv env served b h' L'"
  using assms by (auto simp: stbm_inv_def adds_def)

lemma stbm_inv_alloc:
  assumes inv: "stbm_inv env served (Suc b) h L" and n: "n \<le> 2 ^ 32"
  shows "\<exists>p h'. stbm_alloc env n 0 h = Some (Inr (p, h')) \<and> data_kept L h h' \<and>
    (p = 0 \<and> \<not> served \<and> stbm_inv env served b h' L \<or>
     (\<exists>m. p \<noteq> 0 \<and> n \<le> m \<and> stbm_inv env served b h' (insert (p, m) L) \<and> (p, m) \<notin> L))"
proof -
  have h: "stbm_ok env h L" "env_ok env" "\<not> force_debug h" "cur_outstanding_allocations_count h + 2 < 2 ^ 32"
    "cur_outstanding_allocations_bytes h + 2 ^ 22 + n < 2 ^ 64"
    using inv n by (simp_all add: stbm_inv_def)
  have run: "stbm_alloc env n 0 h = Some (heap_alloc env n h)" by (rule stbm_alloc_heap [OF h(1,2) n h(3-5)])
  from h(1,2) n h(4,5) show ?thesis
  proof (cases rule: heap_alloc_ok)
    case (null h')
    have "adds 2 (2 ^ 33) 1 h h'" by (rule adds_mono [OF null(4)]) simp_all
    then have "stbm_inv env served b h' L" by (rule stbm_inv_step [OF inv null(2)])
    moreover have "\<not> served"
    proof
      assume served
      then have mem: "fst (env j r) \<noteq> 0" if "sys_calls h \<le> j" "j < sys_calls h + Suc b" "r \<le> 2 ^ 33" for j r
        using inv that unfolding stbm_inv_def by blast
      obtain r where "r \<le> 2 ^ 33" "fst (env (sys_calls h) r) = 0" using null(5) unfolding no_memory_def by blast
      then show False using mem [of "sys_calls h" r] by simp
    qed
    ultimately show ?thesis using null run by auto
  next
    case (block p m h')
    have "adds 2 (2 ^ 33) 1 h h'" by (rule adds_mono [OF block(8)]) (use n in simp_all)
    then have "stbm_inv env served b h' (insert (p, m) L)" by (rule stbm_inv_step [OF inv block(5)])
    then show ?thesis using block run by auto
  qed
qed

lemma stbm_inv_free:
  assumes inv: "stbm_inv env served (Suc b) h L" and p: "(p, m) \<in> L"
  shows "\<exists>h'. stbm_free p h = Some (Inr h') \<and> data_kept (L - {(p, m)}) h h' \<and> stbm_inv env served b h' (L - {(p, m)})"
proof -
  have ok: "stbm_ok env h L" using inv by (simp add: stbm_inv_def)
  obtain h' where h': "heap_free p h = Inr h'" "stbm_ok env h' (L - {(p, m)})" "data_kept (L - {(p, m)}) h h'" "adds 0 0 0 h h'"
    by (rule heap_free_ok [OF ok p])
  have "adds 2 (2 ^ 33) 1 h h'" by (rule adds_mono [OF h'(4)]) simp_all
  then have "stbm_inv env served b h' (L - {(p, m)})" by (rule stbm_inv_step [OF inv h'(2)])
  then show ?thesis using stbm_free_heap [OF ok p] h'(1,3) by simp
qed

interpretation stb: block_allocator "\<lambda>n. stbm_alloc env n 0" stbm_free st_word wd data_kept "stbm_inv env served" "2 ^ 32" served
  for env served
proof
  fix b h L n p m x v q k h'
  show "\<exists>p h'. stbm_alloc env n 0 h = Some (Inr (p, h')) \<and> data_kept L h h' \<and>
      (p = 0 \<and> \<not> served \<and> stbm_inv env served b h' L \<or>
       (\<exists>m. p \<noteq> 0 \<and> n \<le> m \<and> stbm_inv env served b h' (insert (p, m) L) \<and> (p, m) \<notin> L))"
    if "stbm_inv env served (Suc b) h L" "n \<le> 2 ^ 32"
    by (rule stbm_inv_alloc [OF that])
  show "\<exists>h'. stbm_free p h = Some (Inr h') \<and> data_kept (L - {(p, m)}) h h' \<and> stbm_inv env served b h' (L - {(p, m)})"
    if "stbm_inv env served (Suc b) h L" "(p, m) \<in> L"
    by (rule stbm_inv_free [OF that])
  show "stbm_inv env served b (st_word x v h) L"
    if "stbm_inv env served (Suc b) h L" "(p, m) \<in> L" "p \<le> x" "x < p + m" "x mod 8 = 0"
    by (rule stbm_inv_step [OF that(1) stbm_ok_write [OF _ that(2-5)]])
      (use that(1) in \<open>simp_all add: stbm_inv_def adds_def st_word_def\<close>)
  show "stbm_inv env served b h L" if "stbm_inv env served (Suc b) h L" by (rule stbm_inv_less [OF that])
  show "wd (st_word x v h) q = (if q = x then v else wd h q)" by (simp add: st_word_def)
  show "wd h' x = wd h x" if "data_kept L h h'" "(p, m) \<in> L" "p \<le> x" "x < p + m" "x mod 8 = 0"
    by (rule data_keptD [OF that])
  show "p \<noteq> 0 \<and> p mod 8 = 0 \<and> 0 < m" if "stbm_inv env served b h L" "(p, m) \<in> L"
    using that stbm_ok_nonnull [of env h L p m] stbm_ok_pos [of env h L p m] by (simp add: stbm_inv_def)
  show "p + m \<le> q \<or> q + k \<le> p"
    if "stbm_inv env served b h L" "(p, m) \<in> L" "(q, k) \<in> L" "(p, m) \<noteq> (q, k)"
    using that(1) stbm_ok_apart [OF _ that(2-4)] unfolding stbm_inv_def by blast
qed

lemma stbm_inv_start:
  assumes "env_ok env" "sizeof_stbm_heap \<le> bytes" "hc_minimum_alignment hc \<le> 16" "\<not> hc_align_all_blocks_to_minimum hc" "b < 2 ^ 31"
    "served \<longrightarrow> (\<forall>j r. sys_calls h \<le> j \<longrightarrow> j < sys_calls h + b \<longrightarrow> r \<le> 2 ^ 33 \<longrightarrow> fst (env j r) \<noteq> 0)"
  shows "\<exists>h'. stbm_heap_init storage bytes hc h = Inr (Some h') \<and> stbm_inv env served b h' {}"
proof -
  obtain h' where h': "stbm_heap_init storage bytes hc h = Inr (Some h')" "stbm_ok env h' {}"
    "cur_outstanding_allocations_count h' = 0" "cur_outstanding_allocations_bytes h' = 0" "sys_calls h' = sys_calls h" "\<not> force_debug h'"
    by (rule stbm_heap_init_ok [OF assms(2-4), where storage = storage and h = h and env = env])
  then show ?thesis using assms(1,5,6) by (simp add: stbm_inv_def)
qed

end
