(* ===== verification/Heaps.thy ===== *)
theory Heaps
  imports TosAlloc StbmSpec
begin

text \<open>
  The two heaps of Lilith (\<open>lilith/alloc.c\<close>): the spin locks that guard them, the functions
  that get memory for them from the operating system, and their creation. The heaps themselves
  are those of \<open>stb_malloc.h\<close> (\<open>StbmApi\<close>); the \<open>mmap\<close> of the system is an argument.
\<close>

unbundle bit_operations_syntax

section \<open>Spin locks\<close>

text \<open>
  Where a thread is: outside, about to compare and swap, in the inner loop that reads the lock
  while it is taken, or between \<open>spin_lock\<close> and \<open>spin_unlock\<close>. One call of these functions is one
  atomic access of the thread to the lock.
\<close>

datatype spin_place = Away | Swap | Poll | Inside

definition spin_lock :: "spin_place \<Rightarrow> u32 \<Rightarrow> spin_place \<times> u32" where
  "spin_lock p lock =
     (case p of
        Away \<Rightarrow> (Swap, lock)
      | Swap \<Rightarrow> if lock = 0 then (Inside, 1) else (Poll, lock)
      | Poll \<Rightarrow> if lock \<noteq> 0 then (Poll, lock) else (Swap, lock)
      | Inside \<Rightarrow> (Inside, lock))"

definition spin_unlock :: "u32 \<Rightarrow> spin_place \<times> u32" where
  "spin_unlock lock = (Away, 0)"

record spin_state =
  lock_word :: u32
  spinners :: "nat \<Rightarrow> spin_place"

inductive spin_step :: "nat \<Rightarrow> spin_state \<Rightarrow> spin_state \<Rightarrow> bool" where
  lock: "spinners s i \<noteq> Inside \<Longrightarrow> spin_lock (spinners s i) (lock_word s) = (p, l) \<Longrightarrow>
    spin_step i s (s\<lparr>lock_word := l, spinners := (spinners s)(i := p)\<rparr>)"
| unlock: "spinners s i = Inside \<Longrightarrow> spin_unlock (lock_word s) = (p, l) \<Longrightarrow>
    spin_step i s (s\<lparr>lock_word := l, spinners := (spinners s)(i := p)\<rparr>)"

inductive spin_reach :: "spin_state \<Rightarrow> bool" where
  init: "spin_reach \<lparr>lock_word = 0, spinners = (\<lambda>_. Away)\<rparr>"
| step: "spin_reach s \<Longrightarrow> spin_step i s s' \<Longrightarrow> spin_reach s'"

inductive_cases spin_stepE [step_elims]: "spin_step i s s'"

definition spin_inv :: "spin_state \<Rightarrow> bool" where
  "spin_inv s \<longleftrightarrow>
     (if lock_word s = 0 then \<forall>i. spinners s i \<noteq> Inside
      else lock_word s = 1 \<and> (\<exists>i. \<forall>j. spinners s j = Inside \<longleftrightarrow> j = i))"

lemma spin_step_inv: "spin_step i s s' \<Longrightarrow> spin_inv s \<Longrightarrow> spin_inv s'"
  by (elim step_elims)
     (auto simp: spin_inv_def spin_lock_def spin_unlock_def split: spin_place.splits if_splits,
       (metis spin_place.distinct)+)

lemma spin_reach_inv: "spin_reach s \<Longrightarrow> spin_inv s"
  by (induction rule: spin_reach.induct) (simp_all add: spin_step_inv, simp add: spin_inv_def)

text \<open>C26: in every interleaving of the threads that lock and unlock a heap, at most one is between
  \<open>spin_lock\<close> and \<open>spin_unlock\<close>; the word of the lock is 1 exactly while one is, and when it is 0
  a thread that waits for the lock has it after at most two more of its own steps.\<close>
theorem spin_lock_exclusive:
  assumes "spin_reach s"
  shows "(\<forall>i j. spinners s i = Inside \<longrightarrow> spinners s j = Inside \<longrightarrow> i = j) \<and>
    lock_word s = (if \<exists>i. spinners s i = Inside then 1 else 0) \<and>
    (lock_word s = 0 \<longrightarrow> spinners s i \<in> {Swap, Poll} \<longrightarrow>
       (\<exists>s1. (spin_step i)\<^sup>=\<^sup>= s s1 \<and> spin_step i s1 (s\<lparr>lock_word := 1, spinners := (spinners s)(i := Inside)\<rparr>)))"
proof (intro conjI impI)
  have inv: "spin_inv s" using assms by (rule spin_reach_inv)
  then show "\<forall>i j. spinners s i = Inside \<longrightarrow> spinners s j = Inside \<longrightarrow> i = j"
    by (auto simp: spin_inv_def split: if_splits)
  from inv show "lock_word s = (if \<exists>i. spinners s i = Inside then 1 else 0)"
    by (auto simp: spin_inv_def split: if_splits)
  assume free: "lock_word s = 0" and waits: "spinners s i \<in> {Swap, Poll}"
  let ?s1 = "s\<lparr>spinners := (spinners s)(i := Swap)\<rparr>"
  let ?s2 = "s\<lparr>lock_word := 1, spinners := (spinners s)(i := Inside)\<rparr>"
  have "spinners s i = Swap \<Longrightarrow> ?s1 = s"
    by (cases s) (auto simp: fun_upd_idem)
  moreover have "spinners s i = Poll \<Longrightarrow> spin_step i s ?s1"
    using spin_step.lock [of s i Swap "lock_word s"] free by (cases s) (simp add: spin_lock_def)
  ultimately have "(spin_step i)\<^sup>=\<^sup>= s ?s1" using waits by auto
  moreover have "spin_step i ?s1 ?s2"
    using spin_step.lock [of ?s1 i Inside 1] free by (simp add: spin_lock_def)
  ultimately show "\<exists>s1. (spin_step i)\<^sup>=\<^sup>= s s1 \<and> spin_step i s1 ?s2" by blast
qed

theorem spin_lock_exclusive_witness:
  "\<exists>s s1. spin_reach s \<and> spinners s 2 = Swap \<and> (spin_step 2)\<^sup>=\<^sup>= s s1 \<and>
     spin_step 2 s1 (s\<lparr>lock_word := 1, spinners := (spinners s)(2 := Inside)\<rparr>)"
proof -
  let ?s = "\<lparr>lock_word = 0, spinners = (\<lambda>_. Away)(2 := Swap)\<rparr>"
  have "spin_step 2 \<lparr>lock_word = 0, spinners = (\<lambda>_. Away)\<rparr> ?s"
    using spin_step.lock [of "\<lparr>lock_word = 0, spinners = (\<lambda>_. Away)\<rparr>" 2 Swap 0]
    by (simp add: spin_lock_def)
  then have r: "spin_reach ?s" by (rule spin_reach.step [OF spin_reach.init])
  from spin_lock_exclusive [OF r, of 2] have "\<exists>s1. (spin_step 2)\<^sup>=\<^sup>= ?s s1 \<and>
     spin_step 2 s1 (?s\<lparr>lock_word := 1, spinners := (spinners ?s)(2 := Inside)\<rparr>)" by simp
  moreover have "spinners ?s 2 = Swap" by simp
  ultimately show ?thesis using r by blast
qed

section \<open>Memory for the heaps\<close>

text \<open>The functions a heap calls for memory; both free nothing (\<open>nop_system_free\<close>).\<close>

datatype system_fn = CodeAlloc | DataAlloc

record heaps_env =
  hv_mmap :: allocator
  hv_register_all :: bool                          \<comment> \<open>\<open>DEBUG_REGISTER_ALL_ALLOCATIONS\<close>\<close>

text \<open>A heap with the fields of its configuration that \<open>stbm_heap\<close> does not have; the others are 0 (\<open>memset\<close>).\<close>

record made_heap =
  mh_heap :: stbm_heap
  mh_system_alloc :: system_fn
  mh_allocation_mutex :: u64

definition INITIAL_HEAP_SIZE :: u64 where
  "INITIAL_HEAP_SIZE = 1*1024*1024"

definition MAP_FAILED :: u64 where
  "MAP_FAILED = 0xFFFFFFFFFFFFFFFF"

definition new_spinlock :: "heaps_env \<Rightarrow> machine \<Rightarrow> (u64 \<times> machine) res" where
  "new_spinlock env s =
     (let (p, s) = os_alloc (hv_mmap env) 4096 s
      in if p = MAP_FAILED then Inl OutOfBounds
         else Inr (p, s\<lparr>mmem := st32 (mmem s) p 0\<rparr>))"

definition store_size :: "u64 option \<Rightarrow> u64 \<Rightarrow> machine \<Rightarrow> machine" where
  "store_size size_provided sz s =
     (case size_provided of None \<Rightarrow> s | Some q \<Rightarrow> s\<lparr>mmem := st64 (mmem s) q sz\<rparr>)"

definition code_heap_system_alloc :: "heaps_env \<Rightarrow> u64 \<Rightarrow> u64 option \<Rightarrow> machine \<Rightarrow> (u64 \<times> machine) res" where
  "code_heap_system_alloc env size_requested size_provided s =
     (let (p, s) = os_alloc (hv_mmap env) size_requested s;
          s = store_size size_provided size_requested s
      in res_bind (mregister p size_requested True s) (\<lambda>s. Inr (p, s)))"

definition data_heap_system_alloc :: "heaps_env \<Rightarrow> u64 \<Rightarrow> u64 option \<Rightarrow> machine \<Rightarrow> (u64 \<times> machine) res" where
  "data_heap_system_alloc env size_requested size_provided s =
     (let (p, s) = os_alloc (hv_mmap env) size_requested s;
          s = store_size size_provided size_requested s
      in if hv_register_all env
         then res_bind (mregister p size_requested False s) (\<lambda>s. Inr (p, s))
         else Inr (p, s))"

definition nop_system_free :: "u64 \<Rightarrow> machine \<Rightarrow> machine" where
  "nop_system_free p s = s"

definition system_alloc_of :: "heaps_env \<Rightarrow> system_fn \<Rightarrow> u64 \<Rightarrow> u64 option \<Rightarrow> machine \<Rightarrow> (u64 \<times> machine) res" where
  "system_alloc_of env a = (case a of CodeAlloc \<Rightarrow> code_heap_system_alloc env | DataAlloc \<Rightarrow> data_heap_system_alloc env)"

text \<open>
  The half of \<open>heaps_init\<close> that makes one heap; \<open>None\<close> is the NULL of \<open>stbm_heap_init\<close>. The struct of the heap is at the
  start of the storage; here its fields are those of the record, and the bytes of the memory do not show them. Without
  memory (\<open>MAP_FAILED\<close>) \<open>stbm_heap_init\<close> writes to the last page of the address space.
\<close>

definition heap_new :: "heaps_env \<Rightarrow> system_fn \<Rightarrow> machine \<Rightarrow> (made_heap option \<times> machine) res" where
  "heap_new env a s =
     res_bind (new_spinlock env s) (\<lambda>(mutex, s).
     res_bind (system_alloc_of env a INITIAL_HEAP_SIZE None s) (\<lambda>(storage, s).
       if storage = MAP_FAILED then Inl OutOfBounds
       else
         res_bind (stbm_heap_init (unat storage) (unat INITIAL_HEAP_SIZE)
             \<lparr>hc_minimum_alignment = 0, hc_align_all_blocks_to_minimum = False\<rparr>
             (raw_heap (\<lambda>x. unat (ld64 (mmem s) (of_nat x)))))
           (\<lambda>h. Inr (map_option (\<lambda>h. \<lparr>mh_heap = h, mh_system_alloc = a, mh_allocation_mutex = mutex\<rparr>) h, s))))"

text \<open>The result is \<open>code_heap\<close> and \<open>data_heap\<close>.\<close>

definition heaps_init :: "heaps_env \<Rightarrow> machine \<Rightarrow> ((made_heap option \<times> made_heap option) \<times> machine) res" where
  "heaps_init env s =
     res_bind (heap_new env CodeAlloc s) (\<lambda>(code_heap, s).
     res_bind (heap_new env DataAlloc s) (\<lambda>(data_heap, s). Inr ((code_heap, data_heap), s)))"

definition heap_pointer :: "made_heap option \<Rightarrow> u64" where
  "heap_pointer h = (case h of None \<Rightarrow> 0 | Some h \<Rightarrow> of_nat (heap_addr (mh_heap h)))"

section \<open>The heaps after start-up\<close>

text \<open>The address the \<open>k\<close>-th request of \<open>heaps_init\<close> gets, and its size.\<close>

definition heaps_request :: "nat \<Rightarrow> u64" where
  "heaps_request k = (if even k then 4096 else INITIAL_HEAP_SIZE)"

definition heaps_block :: "heaps_env \<Rightarrow> machine \<Rightarrow> nat \<Rightarrow> u64" where
  "heaps_block env s k = hv_mmap env (allocs s + k) (heaps_request k)"

text \<open>What \<open>mmap\<close> promises: blocks that do not overlap and do not wrap around.\<close>

definition mmap_ok :: "heaps_env \<Rightarrow> machine \<Rightarrow> bool" where
  "mmap_ok env s \<longleftrightarrow>
     (\<forall>i < 4. unat (heaps_block env s i) + unat (heaps_request i) < 2 ^ 64) \<and>
     (\<forall>j < 4. \<forall>i < j.
        disjoint_regions (heaps_block env s i) (unat (heaps_request i))
          (heaps_block env s j) (unat (heaps_request j)))"

lemma heaps_request_unat [simp]:
  "unat (heaps_request k) = (if even k then 4096 else 1048576)"
  by (simp add: heaps_request_def INITIAL_HEAP_SIZE_def)

lemma heaps_blocks:
  "heaps_block env s 0 = hv_mmap env (allocs s) 4096"
  "heaps_block env s (Suc 0) = hv_mmap env (Suc (allocs s)) INITIAL_HEAP_SIZE"
  "heaps_block env s 2 = hv_mmap env (Suc (Suc (allocs s))) 4096"
  "heaps_block env s 3 = hv_mmap env (Suc (Suc (Suc (allocs s)))) INITIAL_HEAP_SIZE"
proof -
  have "allocs s + 3 = Suc (Suc (Suc (allocs s)))" by simp
  then show "heaps_block env s 3 = hv_mmap env (Suc (Suc (Suc (allocs s)))) INITIAL_HEAP_SIZE"
    by (simp only: heaps_block_def heaps_request_def) simp
qed (simp_all add: heaps_block_def heaps_request_def)

lemma INITIAL_HEAP_SIZE_unat [simp]: "unat INITIAL_HEAP_SIZE = 1048576"
  by (simp add: INITIAL_HEAP_SIZE_def)

lemma new_spinlock_ok:
  assumes "unat (hv_mmap env (allocs s) 4096) + 4096 < 2 ^ 64"
  shows "new_spinlock env s = Inr (hv_mmap env (allocs s) 4096,
    s\<lparr>allocs := Suc (allocs s), mmem := st32 (mmem s) (hv_mmap env (allocs s) 4096) 0\<rparr>)"
proof -
  have "hv_mmap env (allocs s) 4096 \<noteq> MAP_FAILED"
    using assms by (auto simp: MAP_FAILED_def)
  then show ?thesis by (simp add: new_spinlock_def os_alloc_def)
qed

text \<open>A heap as it is when it is new: its users hold nothing, and it serves them for up to \<open>2 ^ 31\<close> operations.\<close>

definition new_heap :: "made_heap \<Rightarrow> system_fn \<Rightarrow> u64 \<Rightarrow> u64 \<Rightarrow> bool" where
  "new_heap h a storage mutex \<longleftrightarrow> mh_system_alloc h = a \<and> mh_allocation_mutex h = mutex \<and>
     heap_addr (mh_heap h) = unat storage \<and>
     (\<forall>env b. env_ok env \<longrightarrow> b < 2 ^ 31 \<longrightarrow> stbm_inv env False b (mh_heap h) {})"

lemma stbm_heap_init_new:
  assumes "stbm_heap_init storage 0x100000 \<lparr>hc_minimum_alignment = 0, hc_align_all_blocks_to_minimum = False\<rparr> raw = r"
  obtains h where "r = Inr (Some h)" "heap_addr h = storage" "\<And>env b. env_ok env \<Longrightarrow> b < 2 ^ 31 \<Longrightarrow> stbm_inv env False b h {}"
proof -
  let ?hc = "\<lparr>hc_minimum_alignment = 0, hc_align_all_blocks_to_minimum = False\<rparr> :: stbm_heap_config"
  have c: "sizeof_stbm_heap \<le> 0x100000" "hc_minimum_alignment ?hc \<le> 16" "\<not> hc_align_all_blocks_to_minimum ?hc"
    by (simp_all add: sizeof_stbm_heap_def)
  obtain h where h: "stbm_heap_init storage 0x100000 ?hc raw = Inr (Some h)"
    by (rule stbm_heap_init_ok [OF c])
  have "stbm_inv env False b h {}" if "env_ok env" "b < 2 ^ 31" for env b
    using stbm_inv_start [OF that(1) c that(2), of False raw storage] h by simp
  moreover have "heap_addr h = storage"
    using h by (auto simp: stbm_heap_init_def sizeof_stbm_heap_def stats_init_def system_init_def small_init_def
      medium_init_def stbm_assert_def STBM_SMALL_ALIGNMENT_def)
  ultimately show ?thesis using that h assms by simp
qed

text \<open>One heap: whichever its blocks, the lock is free, and its storage is registered when it is a code heap, or all is.\<close>

lemma heap_new_ok:
  fixes env :: heaps_env and s :: machine and a :: system_fn
  defines "l \<equiv> hv_mmap env (allocs s) 4096"
    and "p \<equiv> hv_mmap env (Suc (allocs s)) INITIAL_HEAP_SIZE"
  assumes inv: "mem_map_inv (memmap s)"
    and l: "unat l + 4096 < 2 ^ 64" and p: "unat p + 1048576 < 2 ^ 64"
  obtains h s' where "heap_new env a s = Inr (Some h, s')" "new_heap h a p l" "allocs s' = Suc (Suc (allocs s))"
    "mem_map_inv (memmap s')" "mmem s' = st32 (mmem s) l 0"
    "\<And>q. is_templeos_memory (memmap s') q \<longleftrightarrow> is_templeos_memory (memmap s) q \<or>
       ((a = CodeAlloc \<or> hv_register_all env) \<and> unat p \<le> unat q \<and> unat q < unat p + 1048576)"
proof -
  have sz: "unat INITIAL_HEAP_SIZE = 1048576" by (simp add: INITIAL_HEAP_SIZE_def)
  define s1 where "s1 = s\<lparr>allocs := Suc (allocs s), mmem := st32 (mmem s) l 0\<rparr>"
  have n: "new_spinlock env s = Inr (l, s1)"
    unfolding l_def s1_def by (rule new_spinlock_ok) (use l in \<open>simp add: l_def\<close>)
  obtain mm where mm: "system_alloc_of env a INITIAL_HEAP_SIZE None s1 =
      Inr (p, s1\<lparr>allocs := Suc (allocs s1), memmap := mm\<rparr>)" "mem_map_inv mm"
    "\<And>q. is_templeos_memory mm q \<longleftrightarrow> is_templeos_memory (memmap s) q \<or>
       ((a = CodeAlloc \<or> hv_register_all env) \<and> unat p \<le> unat q \<and> unat q < unat p + 1048576)"
  proof (cases "a = CodeAlloc \<or> hv_register_all env")
    case True
    let ?m = "a = CodeAlloc"
    obtain mm where mm: "register_templeos_memory p INITIAL_HEAP_SIZE ?m (memmap s) = Inr mm"
      "mem_map_inv mm"
      "mm_v mm = mm_v (memmap s) @
         [\<lparr>me_mem = p, me_sz = INITIAL_HEAP_SIZE, me_used = True, me_mmapped = ?m\<rparr>]"
      by (rule register_ok [OF inv])
    have "unat p + unat INITIAL_HEAP_SIZE < 2 ^ 64" using p sz by simp
    from entry_covers_interval [OF this] mm True show ?thesis
      by (cases a; intro that [of mm])
         (auto simp: system_alloc_of_def code_heap_system_alloc_def data_heap_system_alloc_def os_alloc_def store_size_def
           mregister_def s1_def p_def is_templeos_memory_iff sz)
  next
    case False
    then have "a = DataAlloc" by (cases a) simp_all
    then show ?thesis
      by (intro that [of "memmap s"])
         (use inv False in \<open>simp_all add: system_alloc_of_def data_heap_system_alloc_def
            os_alloc_def store_size_def s1_def p_def\<close>)
  qed
  have np: "p \<noteq> MAP_FAILED" using p by (auto simp: MAP_FAILED_def)
  obtain h where h: "stbm_heap_init (unat p) (unat INITIAL_HEAP_SIZE)
      \<lparr>hc_minimum_alignment = 0, hc_align_all_blocks_to_minimum = False\<rparr>
      (raw_heap (\<lambda>x. unat (ld64 (st32 (mmem s) l 0) (of_nat x)))) = Inr (Some h)"
    "heap_addr h = unat p" "\<And>env b. env_ok env \<Longrightarrow> b < 2 ^ 31 \<Longrightarrow> stbm_inv env False b h {}"
    using stbm_heap_init_new [of "unat p" "raw_heap (\<lambda>x. unat (ld64 (st32 (mmem s) l 0) (of_nat x)))"] sz by auto
  show ?thesis
    by (rule that [of "\<lparr>mh_heap = h, mh_system_alloc = a, mh_allocation_mutex = l\<rparr>"
          "s1\<lparr>allocs := Suc (allocs s1), memmap := mm\<rparr>"])
      (use n np mm h in \<open>simp_all add: heap_new_def new_heap_def s1_def\<close>)
qed

text \<open>C25: when the system gives the four blocks that \<open>heaps_init\<close> asks for, both heaps are made: each is a new heap of
  \<open>stb_malloc.h\<close> in its storage, with its own function for more memory and its own lock, and the locks are free. Of the new
  memory the storage of the code heap is registered as memory of TempleOS, and that of the data heap exactly when all
  allocations are registered (\<open>DEBUG_REGISTER_ALL_ALLOCATIONS\<close>).\<close>
theorem heaps_init_ready:
  assumes inv: "mem_map_inv (memmap s)" and ok: "mmap_ok env s"
  shows "\<exists>code data s'. heaps_init env s = Inr ((Some code, Some data), s') \<and> mem_map_inv (memmap s') \<and>
    new_heap code CodeAlloc (heaps_block env s 1) (heaps_block env s 0) \<and>
    new_heap data DataAlloc (heaps_block env s 3) (heaps_block env s 2) \<and>
    ld32 (mmem s') (heaps_block env s 0) = 0 \<and> ld32 (mmem s') (heaps_block env s 2) = 0 \<and>
    (\<forall>q. is_templeos_memory (memmap s') q \<longleftrightarrow> is_templeos_memory (memmap s) q \<or>
       (unat (heaps_block env s 1) \<le> unat q \<and> unat q < unat (heaps_block env s 1) + 1048576) \<or>
       (hv_register_all env \<and> unat (heaps_block env s 3) \<le> unat q \<and> unat q < unat (heaps_block env s 3) + 1048576))"
proof -
  let ?b = "heaps_block env s" and ?n = "\<lambda>i. unat (heaps_request i)"
  have fit: "unat (?b i) + ?n i < 2 ^ 64" if "i < 4" for i
    using ok that by (auto simp: mmap_ok_def)
  have disj: "disjoint_regions (?b i) (?n i) (?b j) (?n j)" if "i < j" "j < 4" for i j
    using ok that by (auto simp: mmap_ok_def)
  obtain h1 s1 where s1: "heap_new env CodeAlloc s = Inr (Some h1, s1)" "new_heap h1 CodeAlloc (?b 1) (?b 0)"
    "allocs s1 = Suc (Suc (allocs s))" "mem_map_inv (memmap s1)" "mmem s1 = st32 (mmem s) (?b 0) 0"
    "\<And>q. is_templeos_memory (memmap s1) q \<longleftrightarrow> is_templeos_memory (memmap s) q \<or>
       (unat (?b 1) \<le> unat q \<and> unat q < unat (?b 1) + 1048576)"
    by (rule heap_new_ok [OF inv, where a = CodeAlloc and env = env])
       (use fit [of 0] fit [of 1] in \<open>simp_all add: heaps_blocks\<close>)
  obtain h2 s2 where s2: "heap_new env DataAlloc s1 = Inr (Some h2, s2)" "new_heap h2 DataAlloc (?b 3) (?b 2)"
    "mem_map_inv (memmap s2)" "mmem s2 = st32 (mmem s1) (?b 2) 0"
    "\<And>q. is_templeos_memory (memmap s2) q \<longleftrightarrow> is_templeos_memory (memmap s1) q \<or>
       (hv_register_all env \<and> unat (?b 3) \<le> unat q \<and> unat q < unat (?b 3) + 1048576)"
    by (rule heap_new_ok [OF s1(4), where a = DataAlloc and env = env])
       (use fit [of 2] fit [of 3] s1(3) in \<open>simp_all add: heaps_blocks\<close>)
  have "ld32 (mmem s2) (?b 0) = ld32 (mmem s1) (?b 0)"
  proof (rule ld32_cong)
    fix x assume "in_region (?b 0) 4 x"
    then have "in_region (?b 0) (?n 0) x" by (auto simp: in_region_def heaps_request_def)
    then have "\<not> in_region (?b 2) (?n 2) x"
      using disj [of 0 2] by (auto simp: disjoint_regions_def)
    then have "\<not> in_region (?b 2) 4 x" by (auto simp: in_region_def heaps_request_def)
    then show "mmem s2 x = mmem s1 x" by (simp add: s2(4) st32_other)
  qed
  then have "ld32 (mmem s2) (?b 0) = 0" "ld32 (mmem s2) (?b 2) = 0" by (simp_all add: s1(5) s2(4) ld32_st32)
  with s1 s2 show ?thesis by (auto simp: heaps_init_def)
qed

text \<open>An environment: the blocks lie side by side.\<close>

definition heaps_demo :: heaps_env where
  "heaps_demo = \<lparr>hv_mmap = (\<lambda>n sz. 0x100000 * of_nat (Suc n) * 2), hv_register_all = False\<rparr>"

lemma heaps_demo_block: "k < 4 \<Longrightarrow> unat (heaps_block heaps_demo empty_machine k) = 0x200000 * Suc k"
proof -
  assume "k < 4"
  then have "k \<in> {0, 1, 2, 3}" by auto
  then show ?thesis by (auto simp: heaps_block_def heaps_demo_def empty_machine_def)
qed

lemma heaps_demo_ok: "mmap_ok heaps_demo empty_machine"
  unfolding mmap_ok_def
proof (intro conjI allI impI)
  fix i :: nat
  assume "i < 4"
  then have "i \<in> {0, 1, 2, 3}" by auto
  then show "unat (heaps_block heaps_demo empty_machine i) + unat (heaps_request i) < 2 ^ 64"
    using heaps_demo_block [of i] by auto
next
  fix i j :: nat
  assume j: "j < 4" and i: "i < j"
  then have "(i, j) \<in> {(0, 1), (0, 2), (0, 3), (1, 2), (1, 3), (2, 3)}" by auto
  then show "disjoint_regions (heaps_block heaps_demo empty_machine i) (unat (heaps_request i))
      (heaps_block heaps_demo empty_machine j) (unat (heaps_request j))"
    using heaps_demo_block [of i] heaps_demo_block [of j]
    by (intro disjoint_regionsI) auto
qed

theorem heaps_init_ready_witness:
  "\<exists>code data s'. heaps_init heaps_demo empty_machine = Inr ((Some code, Some data), s') \<and>
     heap_addr (mh_heap data) = 0x800000 \<and> is_templeos_memory (memmap s') 0x400010 \<and>
     \<not> is_templeos_memory (memmap s') 0x800010"
proof -
  have i: "mem_map_inv (memmap empty_machine)"
    by (simp add: empty_machine_def mem_map_inv_init)
  have e: "\<not> is_templeos_memory (memmap empty_machine) q" for q
    by (simp add: empty_machine_def is_templeos_memory_iff mem_map_init_def)
  from heaps_init_ready [OF i heaps_demo_ok] obtain code data s' where
    h: "heaps_init heaps_demo empty_machine = Inr ((Some code, Some data), s')"
    "new_heap data DataAlloc (heaps_block heaps_demo empty_machine 3) (heaps_block heaps_demo empty_machine 2)"
    "\<And>q. is_templeos_memory (memmap s') q \<longleftrightarrow> is_templeos_memory (memmap empty_machine) q \<or>
       (0x400000 \<le> unat q \<and> unat q < 0x500000) \<or> (hv_register_all heaps_demo \<and> 0x800000 \<le> unat q \<and> unat q < 0x900000)"
    using heaps_demo_block [of 1] heaps_demo_block [of 3] by auto
  have "\<not> hv_register_all heaps_demo" by (simp add: heaps_demo_def)
  then show ?thesis
    using h(1,2) h(3) [of "0x400010"] h(3) [of "0x800010"] e heaps_demo_block [of 3] by (auto simp: new_heap_def)
qed

end
