(* ===== verification/X11.thy ===== *)
theory X11
  imports Keyboard Trace TaskInit
begin

text \<open>
  The windows of TempleOS tasks (\<open>lilith/x11.c\<close>): creating a window, converting a TempleOS screen
  to an X image, finding the task of a window, and the endless loop of \<open>x11_start\<close> that redraws
  the windows and hands events on to TempleOS. What the X server answers comes from the
  environment; what it is asked to do is recorded. The keyboard part of the file is in \<open>Keyboard\<close>.
\<close>

unbundle bit_operations_syntax

section \<open>Windows and the display\<close>

text \<open>
  The window fields of \<open>struct templeos_thread_info\<close>. An image is the \<open>XImage\<close> in shared memory:
  \<open>im_data\<close> says that its data pointer is set, and writing a pixel of an image without data faults.
  \<open>XPutPixel\<close> belongs to Xlib, which does not check the coordinates: they have to be inside the image, and what a pixel
  outside would overwrite is not ours to say, so that is an error of the model.
\<close>

record ximage =
  im_width :: int
  im_height :: int
  im_bytes_per_line :: int
  im_data :: bool
  im_pixels :: "int \<times> int \<Rightarrow> u64"

record window_info = thread_info +
  window_initialized :: bool
  window_failed :: bool
  win :: u64
  image :: "ximage option"
  shmid :: int
  image_used_by_server :: bool
  win_dc :: u64
  win_text_base :: u64

text \<open>What the program asks the X server to do, and what it prints about it.\<close>

datatype xout =
    Serving
  | CreatingWindow u64          \<comment> \<open>the task\<close>
  | CreateWindow u64 int int    \<comment> \<open>window, width, height\<close>
  | MapWindow u64
  | NoImage u64
  | NoShm u64
  | ChangeTitle u64 "cstring option"
  | SendExpose u64 int int
  | PutImage u64 "ximage option"
  | NotTransmitted u64

text \<open>
  The answers of the server, for the \<open>n\<close>-th window: its id, the image made by
  \<open>XShmCreateImage\<close> (its bytes per line) if any, the results of \<open>shmget\<close> and \<open>XShmAttach\<close>; and
  the result of \<open>XShmPutImage\<close> for a window.
\<close>

record xserver =
  xs_open :: bool              \<comment> \<open>\<open>XOpenDisplay\<close> found a display\<close>
  xs_window :: "nat \<Rightarrow> u64"
  xs_image :: "nat \<Rightarrow> int option"
  xs_shmget :: "nat \<Rightarrow> int \<Rightarrow> int"
  xs_attach :: "nat \<Rightarrow> bool"
  xs_put :: "u64 \<Rightarrow> bool"
  xs_completion :: int         \<comment> \<open>\<open>ShmCompletionEventType\<close>\<close>

definition DISPLAY_SHOW :: u32 where "DISPLAY_SHOW = 1"
definition MSG_KEY_DOWN :: u64 where "MSG_KEY_DOWN = 2"
definition MSG_KEY_UP :: u64 where "MSG_KEY_UP = 3"
definition COLORS_NUM :: nat where "COLORS_NUM = 16"

definition create_window :: "xserver \<Rightarrow> nat \<Rightarrow> mem \<Rightarrow> window_info \<Rightarrow> window_info \<times> xout list" where
  "create_window srv n m ti =
     (let Fs = t_Fs (ti_t ti);
          ti = ti\<lparr>window_initialized := True, win := xs_window srv n\<rparr>;
          out = [CreateWindow (win ti) 640 480, MapWindow (win ti)]
      in case xs_image srv n of
           None \<Rightarrow> (ti\<lparr>image := None, window_failed := True\<rparr>, out @ [NoImage Fs])
         | Some bpl \<Rightarrow>
             let im = \<lparr>im_width = 640, im_height = 480, im_bytes_per_line = bpl, im_data = False,
                       im_pixels = (\<lambda>_. 0)\<rparr>;
                 ti = ti\<lparr>image := Some im, shmid := xs_shmget srv n (bpl * im_height im)\<rparr>
             in if shmid ti < 0 then (ti\<lparr>window_failed := True\<rparr>, out @ [NoShm Fs])
                else
                  let ti = ti\<lparr>image := Some (im\<lparr>im_data := True\<rparr>)\<rparr>
                  in if \<not> xs_attach srv n then (ti\<lparr>window_failed := True\<rparr>, out)
                     else (ti, out @ [ChangeTitle (win ti) (cstr_at m (Fs + fld CTask ''task_title''))]))"

section \<open>Pixels\<close>

text \<open>A palette entry has 16 bits for each of blue, green and red; X has eight.\<close>

definition x11_pixel :: "u64 \<Rightarrow> u64" where
  "x11_pixel bgr =
     (let b = bgr AND 0xffff;
          g = drop_bit 16 (bgr AND 0xffff0000);
          r = drop_bit 32 (bgr AND 0xffff00000000)
      in drop_bit 8 b OR (g AND 0xff00) OR push_bit 8 (r AND 0xff00))"

text \<open>
  The \<open>int\<close> fields of the \<open>CDC\<close> at \<open>dc\<close>, and a byte of its body; the index is computed in \<open>int\<close>. There is no body when the
  pointer is NULL.
\<close>

definition dc_int :: "mem \<Rightarrow> u64 \<Rightarrow> string \<Rightarrow> int" where
  "dc_int m dc f = sint (ld32 m (dc + fld CDC f))"

definition dc_body :: "mem \<Rightarrow> u64 \<Rightarrow> u64" where
  "dc_body m dc = ld64 m (dc + fld CDC ''body'')"

definition dc_byte :: "mem \<Rightarrow> u64 \<Rightarrow> int \<Rightarrow> int \<Rightarrow> u8" where
  "dc_byte m dc i j = m (dc_body m dc + word_of_int (i32 (i32 (i * dc_int m dc ''width_internal'') + j)))"

definition dc_pixel :: "mem \<Rightarrow> u64 \<Rightarrow> int \<Rightarrow> int \<Rightarrow> u64 res" where
  "dc_pixel m dc i j =
     (if dc_body m dc = 0 then Inl NullDeref
      else
        let idx = unat (dc_byte m dc i j);
            idx = (if idx \<ge> COLORS_NUM then 0 else idx)
        in Inr (x11_pixel (ld64 m (dc + fld CDC ''palette'' + of_nat (8 * idx)))))"

definition XPutPixel :: "int \<Rightarrow> int \<Rightarrow> u64 \<Rightarrow> ximage option \<Rightarrow> ximage option res" where
  "XPutPixel x y v im =
     (case im of
        None \<Rightarrow> Inl NullDeref
      | Some im \<Rightarrow>
          if \<not> im_data im then Inl NullDeref
          else if 0 \<le> x \<and> x < im_width im \<and> 0 \<le> y \<and> y < im_height im
          then Inr (Some (im\<lparr>im_pixels := (im_pixels im)((x, y) := v)\<rparr>))
          else Inl OutOfBounds)"

definition image_templeos_to_x11 :: "mem \<Rightarrow> u64 \<Rightarrow> ximage option \<Rightarrow> ximage option res" where
  "image_templeos_to_x11 m dc im =
     (if dc = 0 then Inl NullDeref
      else res_fold (\<lambda>i. res_fold (\<lambda>j im. res_bind (dc_pixel m dc i j) (\<lambda>v. XPutPixel j i v im))
                          [0..dc_int m dc ''width'' - 1])
             [0..dc_int m dc ''height'' - 1] im)"

text \<open>\<open>dbg_dc\<close> prints the first 120 bytes of each row as hexadecimal digits.\<close>

definition dbg_char :: "u8 \<Rightarrow> cstring" where
  "dbg_char b = (if b > 0xf then ''B'' else [''0123456789abcdef'' ! unat b])"

definition dbg_dc :: "mem \<Rightarrow> u64 \<Rightarrow> cstring" where
  "dbg_dc m dc =
     (if dc_body m dc \<noteq> 0
      then concat (map (\<lambda>i. concat (map (\<lambda>j. dbg_char (dc_byte m dc i j)) [0..119]) @ [CHR 0x0A])
             [0..dc_int m dc ''height'' - 1])
      else [])"

section \<open>Time\<close>

text \<open>The time from \<open>a\<close> to \<open>b\<close> (seconds and nanoseconds) is more than \<open>d\<close> nanoseconds.\<close>

definition timespec_diff_gt :: "int \<times> int \<Rightarrow> int \<times> int \<Rightarrow> int \<Rightarrow> bool" where
  "timespec_diff_gt a b d =
     (let sec = fst b - fst a
      in if sec = 0 then snd b - snd a > d
         else if sec = 1 then (1000000000 - snd a) + snd b > d
         else True)"
section \<open>The event loop\<close>

text \<open>
  The state of \<open>x11_start\<close>: the threads and memory, the list of threads with their windows, the
  window manager's thread, the time of the last redraw, and what was sent and printed. While
  TempleOS code runs, no other thread changes the list.
\<close>

record xstate =
  x_ts :: tstate
  x_tasks :: "window_info list"
  x_windows :: nat
  x_wm :: tthread
  x_last_redraw :: "int \<times> int"
  x_out :: "xout list"

abbreviation xmem :: "xstate \<Rightarrow> mem" where
  "xmem s \<equiv> tmem (x_ts s)"

definition emit :: "xout list \<Rightarrow> xstate \<Rightarrow> xstate" where
  "emit out s = s\<lparr>x_out := x_out s @ out\<rparr>"

text \<open>What \<open>x11_start\<close> computes once: the addresses of \<open>gr\<close> and \<open>text\<close>.\<close>

record xconf =
  xc_env :: env
  xc_heap :: heap_conf
  xc_server :: xserver
  xc_keyboard :: keyboard
  gr :: u64
  text_glbls :: u64

definition shown :: "mem \<Rightarrow> window_info \<Rightarrow> bool" where
  "shown m ti \<longleftrightarrow> ld32 m (t_Fs (ti_t ti) + fld CTask ''display_flags'') AND DISPLAY_SHOW \<noteq> 0"

definition find_thread_info_for_window :: "u64 \<Rightarrow> xstate \<Rightarrow> nat option" where
  "find_thread_info_for_window w s = find_index (\<lambda>ti. shown (xmem s) ti \<and> win ti = w) 0 (x_tasks s)"

definition x_call :: "xconf \<Rightarrow> cstring \<Rightarrow> u64 list \<Rightarrow> xstate \<Rightarrow> (u64 \<times> xstate) res" where
  "x_call c name args s =
     res_bind (call_with (xc_env c) (x_wm s) name args (x_ts s)) (\<lambda>(r, t, ts).
       Inr (r, s\<lparr>x_wm := t, x_ts := ts\<rparr>))"

definition x_store :: "u64 \<Rightarrow> u64 \<Rightarrow> xstate \<Rightarrow> xstate" where
  "x_store a v s = s\<lparr>x_ts := set_tmem (st64 (xmem s) a v) (x_ts s)\<rparr>"

abbreviation gr_dc2 :: "xconf \<Rightarrow> u64" where
  "gr_dc2 c \<equiv> gr c + fld CGrGlbls ''dc2''"

abbreviation gr_text_base :: "xconf \<Rightarrow> u64" where
  "gr_text_base c \<equiv> gr c + fld CGrGlbls ''text_base''"

text \<open>A new window gets a drawing context and a text layer: those of the screen for the window
  manager itself, new ones for another task.\<close>

definition window_contents :: "xconf \<Rightarrow> window_info \<Rightarrow> xstate \<Rightarrow> (window_info \<times> xstate) res" where
  "window_contents c ti s =
     (let m = xmem s in
      if gr c = 0 \<or> text_glbls c = 0 then Inl NullDeref
      else if t_Fs (ti_t ti) = t_Fs (x_wm s)
      then Inr (ti\<lparr>win_dc := ld64 m (gr_dc2 c), win_text_base := ld64 m (gr_text_base c)\<rparr>, s)
      else
        let dc2 = ld64 m (gr_dc2 c)
        in if dc2 = 0 then Inl NullDeref
           else
             res_bind (x_call c ''DCNew''
                 [scast (ld32 m (dc2 + fld CDC ''width'')), scast (ld32 m (dc2 + fld CDC ''height'')),
                  t_Fs (x_wm s), 0] s) (\<lambda>(dc, s).
               let ti = ti\<lparr>win_dc := dc\<rparr>;
                   rows = ld64 (xmem s) (text_glbls c + fld CTextGlbls ''rows'');
                   cols = ld64 (xmem s) (text_glbls c + fld CTextGlbls ''cols'')
               in res_bind (malloc_for_templeos (xc_heap c) (rows * cols * 4) (data_heap (xc_heap c)) True
                      (mach (x_ts s))) (\<lambda>(p, m).
                    Inr (ti\<lparr>win_text_base := p\<rparr>, s\<lparr>x_ts := (x_ts s)\<lparr>mach := m\<rparr>\<rparr>))))"

definition open_window :: "xconf \<Rightarrow> window_info \<Rightarrow> xstate \<Rightarrow> (window_info \<times> xstate) res" where
  "open_window c ti s =
     (if window_initialized ti then Inr (ti, s)
      else let s = emit [CreatingWindow (t_Fs (ti_t ti))] s;
               (ti, out) = create_window (xc_server c) (x_windows s) (xmem s) ti
           in window_contents c ti (emit out (s\<lparr>x_windows := Suc (x_windows s)\<rparr>)))"

text \<open>The three TempleOS functions that draw a task, on the context and text layer of its window.\<close>

definition draw_task :: "xconf \<Rightarrow> window_info \<Rightarrow> xstate \<Rightarrow> xstate res" where
  "draw_task c ti s =
     (let original_dc = ld64 (xmem s) (gr_dc2 c);
          original_text_base = ld64 (xmem s) (gr_text_base c);
          s = x_store (gr_text_base c) (win_text_base ti) s;
          s = x_store (gr_dc2 c) (win_dc ti) s
      in if gr c = 0 then Inl NullDeref
         else
         res_bind (x_call c ''GrUpdateTextBG'' [] s) (\<lambda>(_, s).
         res_bind (x_call c ''GrUpdateTextFG'' [] s) (\<lambda>(_, s).
         res_bind (x_call c ''GrUpdateTaskWin'' [t_Fs (ti_t ti)] s) (\<lambda>(_, s).
         Inr (x_store (gr_dc2 c) original_dc (x_store (gr_text_base c) original_text_base s))))))"

definition request_expose :: "window_info \<Rightarrow> xstate \<Rightarrow> xstate res" where
  "request_expose ti s =
     (if image_used_by_server ti then Inr s
      else case image ti of
        None \<Rightarrow> Inl NullDeref
      | Some im \<Rightarrow> Inr (emit [SendExpose (win ti) (im_width im) (im_height im)] s))"

definition redraw_window :: "xconf \<Rightarrow> window_info \<Rightarrow> xstate \<Rightarrow> (window_info \<times> xstate) res" where
  "redraw_window c ti s =
     (if \<not> shown (xmem s) ti then Inr (ti, s)
      else if window_failed ti then Inr (ti, s)
      else res_bind (open_window c ti s) (\<lambda>(ti, s).
        if window_failed ti then Inr (ti, s)
        else res_bind (draw_task c ti s) (\<lambda>s.
             res_bind (request_expose ti s) (\<lambda>s. Inr (ti, s)))))"

fun redraw_list :: "xconf \<Rightarrow> window_info list \<Rightarrow> xstate \<Rightarrow> (window_info list \<times> xstate) res" where
  "redraw_list c [] s = Inr ([], s)"
| "redraw_list c (ti # tis) s =
     res_bind (redraw_window c ti s) (\<lambda>(ti, s).
     res_bind (redraw_list c tis s) (\<lambda>(tis, s). Inr (ti # tis, s)))"

text \<open>\<open>timo.tv_nsec\<close>\<close>

definition redraw_interval :: int where
  "redraw_interval = 16670000*2"

definition redraw :: "xconf \<Rightarrow> int \<times> int \<Rightarrow> xstate \<Rightarrow> xstate res" where
  "redraw c curt s =
     (if timespec_diff_gt (x_last_redraw s) curt redraw_interval
      then res_bind (redraw_list c (x_tasks s) (s\<lparr>x_last_redraw := curt\<rparr>)) (\<lambda>(tis, s).
             Inr (s\<lparr>x_tasks := tis\<rparr>))
      else Inr s)"

datatype xevent =
    Expose u64 int            \<comment> \<open>window, count\<close>
  | KeyPress u64 u32 u32      \<comment> \<open>window, state, keycode\<close>
  | KeyRelease u64 u32 u32
  | OtherEvent u64 int        \<comment> \<open>window, type\<close>

text \<open>\<open>*ti = f(*ti)\<close> for the thread info at index \<open>k\<close>.\<close>

definition set_task :: "nat \<Rightarrow> window_info \<Rightarrow> xstate \<Rightarrow> xstate" where
  "set_task k ti s = s\<lparr>x_tasks := (x_tasks s)[k := ti]\<rparr>"

definition expose :: "xconf \<Rightarrow> nat \<Rightarrow> xstate \<Rightarrow> xstate res" where
  "expose c k s =
     (let ti = x_tasks s ! k
      in res_bind (image_templeos_to_x11 (xmem s) (win_dc ti) (image ti)) (\<lambda>im.
         let ti = ti\<lparr>image := im, image_used_by_server := True\<rparr>;
             s = emit [PutImage (win ti) im] (set_task k ti s)
         in case im of
              None \<Rightarrow> Inl NullDeref
            | Some _ \<Rightarrow>
                Inr (if xs_put (xc_server c) (win ti) then s
                     else emit [NotTransmitted (t_Fs (ti_t ti))] s)))"

definition key_event :: "xconf \<Rightarrow> u64 \<Rightarrow> u32 \<Rightarrow> u32 \<Rightarrow> nat \<Rightarrow> xstate \<Rightarrow> xstate res" where
  "key_event c msg_code state keycode k s =
     (let ti = x_tasks s ! k
      in res_bind (keyevent_convert (xc_keyboard c) (xmem s) state keycode (msg_code = MSG_KEY_UP))
           (\<lambda>(ch, scancode).
         res_bind (x_call c ''lilith_TaskMsg''
             [t_Fs (ti_t ti), t_Fs (x_wm s), msg_code, ucast ch, scancode, 0] s) (\<lambda>(_, s). Inr s)))"

definition for_window :: "u64 \<Rightarrow> (nat \<Rightarrow> xstate \<Rightarrow> xstate res) \<Rightarrow> xstate \<Rightarrow> xstate res" where
  "for_window w f s = (case find_thread_info_for_window w s of None \<Rightarrow> Inr s | Some k \<Rightarrow> f k s)"

definition handle_event :: "xconf \<Rightarrow> xevent \<Rightarrow> xstate \<Rightarrow> xstate res" where
  "handle_event c e s =
     (case e of
        Expose w count \<Rightarrow> if count = 0 then for_window w (expose c) s else Inr s
      | KeyPress w state keycode \<Rightarrow> for_window w (key_event c MSG_KEY_DOWN state keycode) s
      | KeyRelease w state keycode \<Rightarrow> for_window w (key_event c MSG_KEY_UP state keycode) s
      | OtherEvent w type \<Rightarrow>
          if type = xs_completion (xc_server c)
          then for_window w (\<lambda>k s. Inr (set_task k ((x_tasks s ! k)\<lparr>image_used_by_server := False\<rparr>) s)) s
          else Inr s)"

text \<open>The endless loop, run on the times and events of its first turns.\<close>

definition x11_turn :: "xconf \<Rightarrow> (int \<times> int) \<times> xevent \<Rightarrow> xstate \<Rightarrow> xstate res" where
  "x11_turn c inp s = res_bind (redraw c (fst inp) s) (handle_event c (snd inp))"

definition x11_start ::
  "env \<Rightarrow> heap_conf \<Rightarrow> xserver \<Rightarrow> keyboard \<Rightarrow> u8 list \<Rightarrow> nat \<Rightarrow> ((int \<times> int) \<times> xevent) list \<Rightarrow> xstate \<Rightarrow> xstate res" where
  "x11_start env conf srv kb modifiermap max_keypermod inputs s =
     (let s = emit [Serving] s in
      if \<not> xs_open srv then Inl NullDeref
      else
      res_bind (find_num_lock_modifier modifiermap max_keypermod kb) (\<lambda>kb.
      res_bind (init_scancode_tables (mach (x_ts s)) kb) (\<lambda>kb.
      res_bind (templeos_var64_ptr (t_Fs (x_wm s)) ''gr'' (mach (x_ts s))) (\<lambda>gr.
      res_bind (templeos_var64_ptr (t_Fs (x_wm s)) ''text'' (mach (x_ts s))) (\<lambda>text.
        res_fold (x11_turn \<lparr>xc_env = env, xc_heap = conf, xc_server = srv, xc_keyboard = kb,
                            gr = gr, text_glbls = text\<rparr>) inputs
          (s\<lparr>x_last_redraw := (0, 0)\<rparr>))))))"
section \<open>Properties of the pixels\<close>

text \<open>Pixels that are put into the image, whose size stays.\<close>

definition in_image :: "ximage \<Rightarrow> int \<Rightarrow> int \<Rightarrow> bool" where
  "in_image im x y \<longleftrightarrow> im_data im \<and> 0 \<le> x \<and> x < im_width im \<and> 0 \<le> y \<and> y < im_height im"

lemma put_row:
  assumes "\<forall>j \<in> set js. in_image im j i \<and> p j = Inr (v j)"
  shows "res_fold (\<lambda>j im. res_bind (p j) (\<lambda>v. XPutPixel j i v im)) js (Some im) =
    Inr (Some (im\<lparr>im_pixels := \<lambda>(x, y). if y = i \<and> x \<in> set js then v x else im_pixels im (x, y)\<rparr>))"
  using assms
proof (induction js arbitrary: im)
  case Nil
  then show ?case by simp
next
  case (Cons j js)
  have "XPutPixel j i (v j) (Some im) = Inr (Some (im\<lparr>im_pixels := (im_pixels im)((j, i) := v j)\<rparr>))"
    using Cons.prems by (simp add: XPutPixel_def in_image_def)
  then show ?case using Cons.IH [of "im\<lparr>im_pixels := (im_pixels im)((j, i) := v j)\<rparr>"] Cons.prems
    by (auto simp: in_image_def intro!: arg_cong [where f = "\<lambda>p. im\<lparr>im_pixels := p\<rparr>"])
qed

lemma put_rows:
  assumes "\<forall>i \<in> set is. \<forall>j \<in> set js. in_image im j i \<and> p i j = Inr (v i j)"
  shows "res_fold (\<lambda>i. res_fold (\<lambda>j im. res_bind (p i j) (\<lambda>v. XPutPixel j i v im)) js) is (Some im) =
    Inr (Some (im\<lparr>im_pixels := \<lambda>(x, y). if y \<in> set is \<and> x \<in> set js then v y x else im_pixels im (x, y)\<rparr>))"
  using assms
proof (induction "is" arbitrary: im)
  case Nil
  then show ?case by simp
next
  case (Cons i "is")
  show ?case
    using Cons.IH [of "im\<lparr>im_pixels := \<lambda>(x, y). if y = i \<and> x \<in> set js then v i x else im_pixels im (x, y)\<rparr>"]
      Cons.prems
    by (auto simp: put_row [where v = "v i"] in_image_def intro!: arg_cong [where f = "\<lambda>p. im\<lparr>im_pixels := p\<rparr>"])
qed

text \<open>The high bytes of the three channels of a palette entry.\<close>

lemma x11_pixel_eq:
  "x11_pixel p = push_bit 16 (drop_bit 40 p AND 0xff) OR push_bit 8 (drop_bit 24 p AND 0xff) OR
     (drop_bit 8 p AND 0xff)"
proof -
  have masks: "(0xff :: u64) = mask 8" "(0xff00 :: u64) = push_bit 8 (mask 8)" "(0xffff :: u64) = mask 16"
    "(0xffff0000 :: u64) = push_bit 16 (mask 16)" "(0xffff00000000 :: u64) = push_bit 32 (mask 16)"
    by (simp_all add: mask_eq_exp_minus_1 push_bit_eq_mult)
  show ?thesis
    unfolding x11_pixel_def Let_def masks
    by (rule bit_word_eqI) (auto simp: bit_simps)
qed

text \<open>The index of a pixel does not overflow in a picture of at most \<open>2 ^ 31\<close> bytes.\<close>

lemma dc_byte_at:
  assumes "0 \<le> x" "x < dc_int m dc ''width''" "0 \<le> y" "y < dc_int m dc ''height''"
    and "dc_int m dc ''width'' \<le> dc_int m dc ''width_internal''"
      "dc_int m dc ''height'' * dc_int m dc ''width_internal'' \<le> 2 ^ 31"
  shows "dc_byte m dc y x = m (dc_body m dc + word_of_int (y * dc_int m dc ''width_internal'' + x))"
proof -
  let ?w = "dc_int m dc ''width_internal''"
  have "(y + 1) * ?w \<le> dc_int m dc ''height'' * ?w" using assms by (intro mult_right_mono) simp_all
  then have "y * ?w + x < 2 ^ 31" using assms by (simp add: algebra_simps)
  moreover have "0 \<le> y * ?w" using assms by simp
  ultimately show ?thesis using assms(1) by (simp add: dc_byte_def)
qed

text \<open>C33: a TempleOS screen with a body that fits into the image (its rows are no longer than their storage, and it has
  at most \<open>2 ^ 31\<close> bytes) is drawn to it without leaving the
  image: exactly the pixels of the screen are written, each with the high bytes of the red, green and blue channels of
  its palette colour; bytes that are not a colour are drawn as colour 0.\<close>
theorem image_shows_screen:
  assumes dc: "dc \<noteq> 0" "dc_body m dc \<noteq> 0" and im: "im_data im"
    and fits: "dc_int m dc ''width'' \<le> im_width im" "dc_int m dc ''height'' \<le> im_height im"
    and size: "dc_int m dc ''width'' \<le> dc_int m dc ''width_internal''"
      "dc_int m dc ''height'' * dc_int m dc ''width_internal'' \<le> 2 ^ 31"
  shows "\<exists>im'. image_templeos_to_x11 m dc (Some im) = Inr (Some im') \<and>
    (\<forall>x y. im_pixels im' (x, y) =
       (if 0 \<le> x \<and> x < dc_int m dc ''width'' \<and> 0 \<le> y \<and> y < dc_int m dc ''height''
        then let b = unat (m (dc_body m dc + word_of_int (y * dc_int m dc ''width_internal'' + x)));
                 p = ld64 m (dc + fld CDC ''palette'' + of_nat (8 * (if b < 16 then b else 0)))
             in push_bit 16 (drop_bit 40 p AND 0xff) OR push_bit 8 (drop_bit 24 p AND 0xff) OR
                (drop_bit 8 p AND 0xff)
        else im_pixels im (x, y)))"
proof -
  define v where "v y x = x11_pixel (ld64 m (dc + fld CDC ''palette'' +
    of_nat (8 * (let b = unat (dc_byte m dc y x) in if b \<ge> COLORS_NUM then 0 else b))))" for y x
  have "\<forall>y \<in> set [0..dc_int m dc ''height'' - 1]. \<forall>x \<in> set [0..dc_int m dc ''width'' - 1].
      in_image im x y \<and> dc_pixel m dc y x = Inr (v y x)"
    using dc(2) im fits by (auto simp: in_image_def dc_pixel_def v_def Let_def)
  from put_rows [OF this] show ?thesis
    using dc(1) size
    by (simp add: image_templeos_to_x11_def v_def x11_pixel_eq COLORS_NUM_def Let_def not_le dc_byte_at cong: if_cong)
qed

text \<open>A screen of two pixels; the second has colour 1.\<close>

definition dot_screen :: mem where
  "dot_screen = (\<lambda>_. 0)(0x1010 := 2, 0x1014 := 8, 0x1018 := 1, 0x1028 := 0xbc, 0x1029 := 0x9a,
     0x102a := 0x78, 0x102b := 0x56, 0x102c := 0x34, 0x102d := 0x12, 0x1181 := 0x80, 0x8001 := 1)"

definition blank_image :: ximage where
  "blank_image = \<lparr>im_width = 640, im_height = 480, im_bytes_per_line = 2560, im_data = True,
     im_pixels = (\<lambda>_. 7)\<rparr>"

lemma ld_four: "ld32 m a = of_nat (le_val [m a, m (a + 1), m (a + 2), m (a + 3)])"
proof -
  have "ld_bytes m a 4 = ld_bytes m a (Suc (Suc (Suc (Suc 0))))" by (simp add: eval_nat_numeral)
  then show ?thesis by (simp add: ld32_def add.assoc)
qed

lemma ld_eight: "ld64 m a = of_nat (le_val [m a, m (a + 1), m (a + 2), m (a + 3), m (a + 4), m (a + 5),
   m (a + 6), m (a + 7)])"
proof -
  have e: "(8 :: nat) = Suc (Suc (Suc (Suc (Suc (Suc (Suc (Suc 0)))))))" by simp
  have "ld_bytes m a 8 = [m a, m (a + 1), m (a + 2), m (a + 3), m (a + 4), m (a + 5), m (a + 6), m (a + 7)]"
    by (simp only: e ld_bytes.simps) (simp add: add.assoc)
  then show ?thesis by (simp only: ld64_def)
qed

lemma fld_cdc: "fld CDC ''width'' = 16" "fld CDC ''width_internal'' = 20" "fld CDC ''height'' = 24"
  "fld CDC ''palette'' = 32" "fld CDC ''body'' = 384"
  by (simp_all add: fld_def offsetof_def CDC_offsets)

lemma dot_screen_fields:
  "dc_int dot_screen 0x1000 ''width'' = 2" "dc_int dot_screen 0x1000 ''width_internal'' = 8"
  "dc_int dot_screen 0x1000 ''height'' = 1" "dc_body dot_screen 0x1000 = 0x8000"
  "ld64 dot_screen 0x1028 = 0x123456789abc"
  by (simp_all add: dc_int_def dc_body_def fld_cdc ld_four ld_eight dot_screen_def)

theorem image_shows_screen_witness:
  "\<exists>im'. image_templeos_to_x11 dot_screen 0x1000 (Some blank_image) = Inr (Some im') \<and>
     im_pixels im' (1, 0) = 0x12569a \<and> im_pixels im' (2, 0) = 7"
proof -
  have "dot_screen (0x8000 + 1) = 1" by (simp add: dot_screen_def)
  then show ?thesis
    using image_shows_screen [of "0x1000" dot_screen blank_image]
    by (auto simp: blank_image_def dot_screen_fields fld_cdc)
qed

text \<open>For times whose nanoseconds are below a second, the second not before the first, and an
  interval of at most a second, \<open>timespec_diff_gt\<close> compares the difference in nanoseconds; when
  the second time is in an earlier second it is always true.\<close>
theorem timespec_diff_correct:
  assumes "0 \<le> snd a" "snd a < 1000000000" "0 \<le> snd b" "snd b < 1000000000" "d \<le> 1000000000"
  shows "timespec_diff_gt a b d \<longleftrightarrow>
    fst b < fst a \<or> fst b * 1000000000 + snd b - (fst a * 1000000000 + snd a) > d"
proof -
  consider "fst b < fst a" | "fst b = fst a" | "fst b = fst a + 1" | "fst b \<ge> fst a + 2" by linarith
  then show ?thesis using assms by cases (auto simp: timespec_diff_gt_def Let_def)
qed

theorem timespec_diff_correct_witness:
  "timespec_diff_gt (5, 999999000) (6, 33340000) redraw_interval"
  using timespec_diff_correct [of "(5, 999999000)" "(6, 33340000)" redraw_interval]
  by (simp add: redraw_interval_def)

section \<open>Redrawing\<close>

text \<open>
  The window manager's thread can call TempleOS: its structs are in order and lie outside the two
  words of \<open>gr\<close> that a redraw exchanges, the three drawing functions exist, and code that is
  called in the TempleOS world returns there and leaves the symbols as they are.
\<close>

definition struct_words :: "tthread \<Rightarrow> u64 list" where
  "struct_words t = [t_Gs t, t_Fs t, t_Gs t + fld CCPU ''glibc_fs'', t_Gs t + fld CCPU ''glibc_gs'']"

definition gr_apart :: "xconf \<Rightarrow> tthread \<Rightarrow> bool" where
  "gr_apart c t \<longleftrightarrow> gr c \<noteq> 0 \<and>
     (\<forall>w \<in> set (struct_words t). disjoint_regions w 8 (gr_dc2 c) 8 \<and> disjoint_regions w 8 (gr_text_base c) 8)"

definition code_returns :: "env \<Rightarrow> tthread \<Rightarrow> bool" where
  "code_returns env t \<longleftrightarrow> (\<forall>entry args s. in_temple (e_prctl env) t s \<longrightarrow>
     (\<exists>r s'. e_code env entry args s = Inr (r, s') \<and> in_temple (e_prctl env) t s' \<and>
        (\<forall>n. find_entry_point t n (mach s') = find_entry_point t n (mach s))))"

definition draw_names :: "cstring set" where
  "draw_names = {''GrUpdateTextBG'', ''GrUpdateTextFG'', ''GrUpdateTaskWin''}"

definition wm_ready :: "xconf \<Rightarrow> xstate \<Rightarrow> bool" where
  "wm_ready c s \<longleftrightarrow> in_host (e_prctl (xc_env c)) (x_wm s) (x_ts s) \<and>
     (\<forall>n \<in> draw_names. \<exists>e. e \<noteq> 0 \<and> find_entry_point (x_wm s) n (mach (x_ts s)) = Inr e)"

lemma find_entry_point_mem [simp]:
  "find_entry_point t n (s\<lparr>mmem := m\<rparr>) = find_entry_point t n s"
proof -
  have "hobjs (s\<lparr>mmem := m\<rparr>) = hobjs s" by simp
  then show ?thesis unfolding find_entry_point_def sym_get_def by (simp only:) simp
qed

lemma wm_ready_store:
  assumes "wm_ready c s" "\<forall>w \<in> set (struct_words (x_wm s)). disjoint_regions w 8 a 8"
  shows "wm_ready c (x_store a v s)"
  using assms
  by (auto simp: wm_ready_def x_store_def in_host_def thread_ok_def struct_words_def fld_addr
      ld64_st64_other set_tmem_def)

lemma x_store_simps [simp]:
  "x_tasks (x_store a v s) = x_tasks s" "x_windows (x_store a v s) = x_windows s"
  "x_wm (x_store a v s) = x_wm s" "x_out (x_store a v s) = x_out s"
  "x_last_redraw (x_store a v s) = x_last_redraw s" "xmem (x_store a v s) = st64 (xmem s) a v"
  by (simp_all add: x_store_def)

lemma x_call_ok:
  assumes "wm_ready c s" "n \<in> draw_names" "code_returns (xc_env c) (x_wm s)"
  obtains r s' where "x_call c n args s = Inr (r, s')" "wm_ready c s'" "x_wm s' = x_wm s"
    "x_tasks s' = x_tasks s" "x_windows s' = x_windows s" "x_out s' = x_out s"
    "x_last_redraw s' = x_last_redraw s"
proof -
  let ?e = "xc_env c" and ?t = "x_wm s"
  have host: "in_host (e_prctl ?e) ?t (x_ts s)" using assms(1) by (simp add: wm_ready_def)
  obtain e where e: "e \<noteq> 0" "find_entry_point ?t n (mach (x_ts s)) = Inr e"
    using assms(1,2) by (auto simp: wm_ready_def)
  have "\<exists>r s2. e_code ?e e args s1 = Inr (r, s2) \<and> in_temple (e_prctl ?e) ?t s2"
    if "in_temple (e_prctl ?e) ?t s1" for s1
    using assms(3) that unfolding code_returns_def by blast
  then obtain s1 r s2 s3 where c: "enter_templeos (e_checks ?e) (e_prctl ?e) ?t (x_ts s) = Inr s1"
    "e_code ?e e args s1 = Inr (r, s2)" "exit_templeos (e_checks ?e) (e_prctl ?e) s2 = Inr (?t, s3)"
    "in_host (e_prctl ?e) ?t s3"
    using ws.call_ok [OF host, of "e_checks ?e" "e_code ?e e args"] by blast
  have s1: "s1 = (x_ts s)\<lparr>gs_base := t_Gs ?t, fs_base := t_Fs ?t\<rparr>"
    using enter_host [OF host, of "e_checks ?e"] c(1) by simp
  have "in_temple (e_prctl ?e) ?t s1" using host by (simp add: s1 in_temple_def in_host_def)
  then have "\<And>n. find_entry_point ?t n (mach s2) = find_entry_point ?t n (mach s1)"
    using assms(3) c(2) unfolding code_returns_def by (metis Inr_inject prod.inject)
  moreover have "mach s3 = mach s2"
    using c(3) by (auto simp: exit_templeos_def Let_def switch_failed_def split: if_splits)
  ultimately have w: "wm_ready c (s\<lparr>x_wm := ?t, x_ts := s3\<rparr>)"
    using assms(1) c(4) by (simp add: wm_ready_def s1)
  have "x_call c n args s = Inr (r, s\<lparr>x_wm := ?t, x_ts := s3\<rparr>)"
    using e c by (simp add: x_call_def call_with_def)
  from that [OF this w] show ?thesis by simp
qed

definition gr_words :: "xconf \<Rightarrow> xstate \<Rightarrow> u64 \<times> u64" where
  "gr_words c s = (ld64 (xmem s) (gr_dc2 c), ld64 (xmem s) (gr_text_base c))"

lemma gr_fields: "fld CGrGlbls ''dc2'' = 40" "fld CGrGlbls ''text_base'' = 64"
  by (simp_all add: fld_def offsetof_def CGrGlbls_offsets)

lemma gr_disjoint: "disjoint_regions (gr_text_base c) 8 (gr_dc2 c) 8"
proof -
  have "\<not> (in_region (a + 64) 8 x \<and> in_region (a + 40) 8 x)" for a x :: u64
  proof
    assume "in_region (a + 64) 8 x \<and> in_region (a + 40) 8 x"
    then have l: "unat (x - (a + 64)) < 8" "unat (x - (a + 40)) < 8" by (simp_all add: in_region_def)
    have "unat (x - (a + 64) + 24) = unat (x - (a + 64)) + unat (24 :: u64)"
      by (rule unat_plus64) (use l(1) in simp)
    moreover have "x - (a + 64) + 24 = x - (a + 40)" by simp
    ultimately show False using l(2) by simp
  qed
  then show ?thesis by (auto simp: disjoint_regions_def gr_fields)
qed

lemma draw_task_ok:
  assumes r: "wm_ready c s" and ret: "code_returns (xc_env c) (x_wm s)" and g: "gr_apart c (x_wm s)"
  obtains s' where "draw_task c ti s = Inr s'" "wm_ready c s'" "gr_words c s' = gr_words c s"
    "x_wm s' = x_wm s" "x_tasks s' = x_tasks s" "x_windows s' = x_windows s" "x_out s' = x_out s"
    "x_last_redraw s' = x_last_redraw s"
proof -
  have g1: "\<forall>w \<in> set (struct_words (x_wm s)). disjoint_regions w 8 (gr_dc2 c) 8"
    "\<forall>w \<in> set (struct_words (x_wm s)). disjoint_regions w 8 (gr_text_base c) 8" "gr c \<noteq> 0"
    using g by (auto simp: gr_apart_def)
  let ?s1 = "x_store (gr_dc2 c) (win_dc ti) (x_store (gr_text_base c) (win_text_base ti) s)"
  have "wm_ready c ?s1" by (intro wm_ready_store r) (use g1 in simp_all)
  then obtain r2 s2 where s2: "x_call c ''GrUpdateTextBG'' [] ?s1 = Inr (r2, s2)" "wm_ready c s2"
    "x_wm s2 = x_wm s" "x_tasks s2 = x_tasks s" "x_windows s2 = x_windows s" "x_out s2 = x_out s"
    "x_last_redraw s2 = x_last_redraw s"
    by (rule x_call_ok [of c ?s1 "''GrUpdateTextBG''" "[]"]) (use ret in \<open>simp_all add: draw_names_def\<close>)
  obtain r3 s3 where s3: "x_call c ''GrUpdateTextFG'' [] s2 = Inr (r3, s3)" "wm_ready c s3"
    "x_wm s3 = x_wm s" "x_tasks s3 = x_tasks s" "x_windows s3 = x_windows s" "x_out s3 = x_out s"
    "x_last_redraw s3 = x_last_redraw s"
    by (rule x_call_ok [OF s2(2), of "''GrUpdateTextFG''" "[]"]) (use ret s2 in \<open>simp_all add: draw_names_def\<close>)
  obtain r4 s4 where s4: "x_call c ''GrUpdateTaskWin'' [t_Fs (ti_t ti)] s3 = Inr (r4, s4)" "wm_ready c s4"
    "x_wm s4 = x_wm s" "x_tasks s4 = x_tasks s" "x_windows s4 = x_windows s" "x_out s4 = x_out s"
    "x_last_redraw s4 = x_last_redraw s"
    by (rule x_call_ok [OF s3(2), of "''GrUpdateTaskWin''" "[t_Fs (ti_t ti)]"])
       (use ret s3 in \<open>simp_all add: draw_names_def\<close>)
  let ?s5 = "x_store (gr_dc2 c) (ld64 (xmem s) (gr_dc2 c)) (x_store (gr_text_base c) (ld64 (xmem s) (gr_text_base c)) s4)"
  have "draw_task c ti s = Inr ?s5"
    using s2(1) s3(1) s4(1) g1(3) by (simp add: draw_task_def Let_def)
  moreover have "wm_ready c ?s5" by (intro wm_ready_store s4(2)) (use g1 s4(3) in simp_all)
  moreover have "gr_words c ?s5 = gr_words c s"
    by (simp add: gr_words_def ld64_st64 ld64_st64_other gr_disjoint)
  ultimately show ?thesis by (rule that) (use s4 in simp_all)
qed

text \<open>The redraws that a window may ask for.\<close>

definition expose_of :: "window_info \<Rightarrow> xout list \<Rightarrow> bool" where
  "expose_of ti out \<longleftrightarrow> out = [] \<or> (\<not> window_failed ti \<and> \<not> image_used_by_server ti \<and>
     (\<exists>im. image ti = Some im \<and> out = [SendExpose (win ti) (im_width im) (im_height im)]))"

definition has_window :: "window_info \<Rightarrow> bool" where
  "has_window ti \<longleftrightarrow> window_failed ti \<or> window_initialized ti \<and> image ti \<noteq> None"

lemma redraw_window_ok:
  assumes "wm_ready c s" "code_returns (xc_env c) (x_wm s)" "gr_apart c (x_wm s)" "has_window ti"
  obtains s' out where "redraw_window c ti s = Inr (ti, s')" "wm_ready c s'" "gr_words c s' = gr_words c s"
    "x_wm s' = x_wm s" "x_tasks s' = x_tasks s" "x_windows s' = x_windows s" "x_out s' = x_out s @ out"
    "expose_of ti out" "x_last_redraw s' = x_last_redraw s"
proof (cases "\<not> shown (xmem s) ti \<or> window_failed ti")
  case True
  then have "redraw_window c ti s = Inr (ti, s)" by (auto simp: redraw_window_def)
  from that [OF this, of "[]"] assms(1) show ?thesis by (simp add: expose_of_def)
next
  case False
  then obtain im where im: "window_initialized ti" "image ti = Some im"
    using assms(4) by (auto simp: has_window_def)
  obtain s1 where s1: "draw_task c ti s = Inr s1" "wm_ready c s1" "gr_words c s1 = gr_words c s"
    "x_wm s1 = x_wm s" "x_tasks s1 = x_tasks s" "x_windows s1 = x_windows s" "x_out s1 = x_out s"
    "x_last_redraw s1 = x_last_redraw s"
    by (rule draw_task_ok [OF assms(1-3)])
  define out where "out = (if image_used_by_server ti then []
     else [SendExpose (win ti) (im_width im) (im_height im)])"
  have "redraw_window c ti s = Inr (ti, emit out s1)"
    using False im s1(1) by (simp add: redraw_window_def open_window_def request_expose_def out_def emit_def)
  moreover have "expose_of ti out"
    using False im by (cases "image_used_by_server ti") (auto simp: expose_of_def out_def)
  ultimately show ?thesis
    using s1 by (intro that [of "emit out s1" out]) (simp_all add: emit_def wm_ready_def gr_words_def)
qed

lemma redraw_list_ok:
  assumes "wm_ready c s" "code_returns (xc_env c) (x_wm s)" "gr_apart c (x_wm s)" "\<forall>ti \<in> set tis. has_window ti"
  shows "\<exists>s' outs. redraw_list c tis s = Inr (tis, s') \<and> wm_ready c s' \<and> gr_words c s' = gr_words c s \<and>
    x_wm s' = x_wm s \<and> x_tasks s' = x_tasks s \<and> x_windows s' = x_windows s \<and>
    x_out s' = x_out s @ concat outs \<and> list_all2 expose_of tis outs \<and> x_last_redraw s' = x_last_redraw s"
  using assms
proof (induction tis arbitrary: s)
  case Nil
  then show ?case by (intro exI [of _ s] exI [of _ "[]"]) simp
next
  case (Cons ti tis)
  obtain s1 out where s1: "redraw_window c ti s = Inr (ti, s1)" "wm_ready c s1" "gr_words c s1 = gr_words c s"
    "x_wm s1 = x_wm s" "x_tasks s1 = x_tasks s" "x_windows s1 = x_windows s" "x_out s1 = x_out s @ out"
    "expose_of ti out" "x_last_redraw s1 = x_last_redraw s"
    by (rule redraw_window_ok [of c s ti]) (use Cons.prems in auto)
  obtain s2 outs where s2: "redraw_list c tis s1 = Inr (tis, s2)" "wm_ready c s2" "gr_words c s2 = gr_words c s1"
    "x_wm s2 = x_wm s1" "x_tasks s2 = x_tasks s1" "x_windows s2 = x_windows s1" "x_out s2 = x_out s1 @ concat outs"
    "list_all2 expose_of tis outs" "x_last_redraw s2 = x_last_redraw s1"
    using Cons.IH [of s1] s1 Cons.prems by auto
  show ?case
    by (intro exI [of _ s2] exI [of _ "out # outs"]) (use s1 s2 in simp)
qed

text \<open>C17: once the tasks have their windows, a redraw that is due always succeeds, opens no window,
  gives the screen its own drawing context and text layer back whatever TempleOS drew, and asks for
  at most one exposure of each task's window, never of one that failed or whose image the server is
  still reading.\<close>
theorem redraw_restores_screen:
  assumes "wm_ready c s" "code_returns (xc_env c) (x_wm s)" "gr_apart c (x_wm s)"
    "\<forall>ti \<in> set (x_tasks s). has_window ti"
    "timespec_diff_gt (x_last_redraw s) now redraw_interval"
  shows "\<exists>s' outs. redraw c now s = Inr s' \<and> wm_ready c s' \<and> gr_words c s' = gr_words c s \<and>
    x_tasks s' = x_tasks s \<and> x_windows s' = x_windows s \<and> x_last_redraw s' = now \<and>
    x_out s' = x_out s @ concat outs \<and> list_all2 expose_of (x_tasks s) outs"
proof -
  have "wm_ready c (s\<lparr>x_last_redraw := now\<rparr>)" using assms(1) by (simp add: wm_ready_def)
  from redraw_list_ok [OF this, of "x_tasks s"] assms(2-4) obtain s' outs where
    s': "redraw_list c (x_tasks s) (s\<lparr>x_last_redraw := now\<rparr>) = Inr (x_tasks s, s')" "wm_ready c s'"
    "gr_words c s' = gr_words c (s\<lparr>x_last_redraw := now\<rparr>)" "x_tasks s' = x_tasks s" "x_windows s' = x_windows s"
    "x_out s' = x_out s @ concat outs" "list_all2 expose_of (x_tasks s) outs" "x_last_redraw s' = now"
    by auto
  have "redraw c now s = Inr (s'\<lparr>x_tasks := x_tasks s\<rparr>)"
    using s'(1) assms(5) by (simp add: redraw_def)
  with s' show ?thesis
    by (intro exI [of _ "s'\<lparr>x_tasks := x_tasks s\<rparr>"] exI [of _ outs])
       (simp add: wm_ready_def gr_words_def)
qed

text \<open>A screen with one window, of the window manager itself.\<close>

definition draw_fun :: "cstring \<Rightarrow> chash" where
  "draw_fun n = \<lparr>he_str = n, he_type = HTT_FUN, ex_val = 0, fn_exe_addr = 0x7000, mod_data0 = 0, gv_data_addr = 0\<rparr>"

definition screen_machine :: machine where
  "screen_machine = late_machine\<lparr>
     mmem := (\<lambda>_. 0)(0x1001 := 0x10, 0x2001 := 0x20, 0x1101 := 0x7f, 0x201c := 1, 0x9028 := 5),
     task_tables := (\<lambda>_. [\<lparr>ht_mask = 0, ht_body = [[1, 2, 3]]\<rparr>]),
     hobjs := (\<lambda>_. draw_fun ''GrUpdateTextBG'')(2 := draw_fun ''GrUpdateTextFG'', 3 := draw_fun ''GrUpdateTaskWin'')\<rparr>"

definition screen_window :: window_info where
  "screen_window = \<lparr>ti_t = demo_thread, ti_fp = 0, ti_data = 0, ti_stk_size = 0, window_initialized = True,
     window_failed = False, win = 77, image = Some blank_image, shmid = 1, image_used_by_server = False,
     win_dc = 0x1000, win_text_base = 0xa000\<rparr>"

definition screen_state :: xstate where
  "screen_state = \<lparr>x_ts = \<lparr>mach = screen_machine, fs_base = 0x7f00, gs_base = 0, first_templeos_task = []\<rparr>,
     x_tasks = [screen_window], x_windows = 1, x_wm = demo_thread, x_last_redraw = (0, 0), x_out = []\<rparr>"

definition idle_server :: xserver where
  "idle_server = \<lparr>xs_open = True, xs_window = of_nat, xs_image = (\<lambda>_. None), xs_shmget = (\<lambda>_ _. 1), xs_attach = (\<lambda>_. True),
     xs_put = (\<lambda>_. True), xs_completion = 65\<rparr>"

definition screen_conf :: xconf where
  "screen_conf = \<lparr>xc_env = \<lparr>e_checks = False, e_prctl = (\<lambda>_. True), e_code = (\<lambda>a args s. Inr (0, s))\<rparr>,
     xc_heap = stbm_conf, xc_server = idle_server, xc_keyboard = one_key_board, gr = 0x9000, text_glbls = 0xb000\<rparr>"

lemma screen_entry: "n \<in> draw_names \<Longrightarrow> find_entry_point demo_thread n screen_machine = Inr 0x7000"
proof -
  assume n: "n \<in> draw_names"
  have i: "hash_inv (symbols screen_machine)"
    by (simp add: screen_machine_def late_machine_def bare_machine_def hello_machine_def hash_inv_init)
  have k: "hash_key_ok n" using n by (auto simp: draw_names_def hash_key_ok_ascii)
  have g: "sym_get screen_machine n = Inr None"
    using hash_get_ok [OF i k] hash_get_init [of 4096 n]
    by (auto simp: sym_get_def screen_machine_def late_machine_def bare_machine_def hello_machine_def)
  have "\<forall>h \<in> set (task_tables screen_machine (t_Fs demo_thread)). table_ok h"
    by (simp add: screen_machine_def table_ok_def)
  from find_entry_point_eq [OF g this] n show ?thesis
    by (auto simp: screen_machine_def draw_names_def table_elems_def late_target_def late_addr_def
        draw_fun_def is_hash_type_def htt_defs)
qed

lemma screen_ready: "wm_ready screen_conf screen_state" "gr_apart screen_conf demo_thread"
proof -
  show "wm_ready screen_conf screen_state"
    using screen_entry
    by (auto simp: wm_ready_def screen_state_def screen_conf_def in_host_def thread_ok_def demo_thread_def
        fld_addr fld_glibc) (simp_all add: screen_machine_def ld_eight)
  show "gr_apart screen_conf demo_thread"
    by (auto simp: gr_apart_def screen_conf_def struct_words_def demo_thread_def fld_glibc gr_fields
        intro!: disjoint_regionsI)
qed

theorem redraw_restores_screen_witness:
  "\<exists>s'. redraw screen_conf (5, 0) screen_state = Inr s' \<and> gr_words screen_conf s' = (5, 0) \<and>
     x_tasks s' = [screen_window]"
proof -
  have "code_returns (xc_env screen_conf) (x_wm screen_state)"
    by (simp add: code_returns_def screen_conf_def)
  moreover have "x_wm screen_state = demo_thread" "x_tasks screen_state = [screen_window]"
    "x_last_redraw screen_state = (0, 0)" by (simp_all add: screen_state_def)
  moreover have "gr_words screen_conf screen_state = (5, 0)"
    by (simp add: gr_words_def screen_conf_def gr_fields ld_eight) (simp add: screen_state_def screen_machine_def)
  ultimately show ?thesis
    using redraw_restores_screen [of screen_conf screen_state "(5, 0)"] screen_ready
    by (auto simp: has_window_def screen_window_def timespec_diff_gt_def)
qed

text \<open>A window whose image could not be made is on the screen all the same, so the server exposes
  it, and the program then faults on the missing image.\<close>
theorem expose_without_image_faults:
  assumes "xs_image srv n = None" "ti = (fst (create_window srv n m ti0))\<lparr>win_dc := dc\<rparr>"
    "find_thread_info_for_window (win ti) s = Some k" "x_tasks s ! k = ti"
    "0 < dc_int (xmem s) dc ''width''" "0 < dc_int (xmem s) dc ''height''"
  shows "MapWindow (win ti) \<in> set (snd (create_window srv n m ti0)) \<and>
    handle_event c (Expose (win ti) 0) s = Inl NullDeref"
proof -
  have im: "image ti = None" "win_dc ti = dc"
    using assms(1,2) by (simp_all add: create_window_def Let_def)
  obtain js where js: "[0..dc_int (xmem s) dc ''width'' - 1] = 0 # js"
    using assms(5) by (simp add: upto_rec1)
  obtain ks where ks: "[0..dc_int (xmem s) dc ''height'' - 1] = 0 # ks"
    using assms(6) by (simp add: upto_rec1)
  have "image_templeos_to_x11 (xmem s) dc None = Inl NullDeref"
    by (simp add: image_templeos_to_x11_def js ks XPutPixel_def dc_pixel_def Let_def)
  with im assms(3,4) have "handle_event c (Expose (win ti) 0) s = Inl NullDeref"
    by (simp add: handle_event_def for_window_def expose_def Let_def)
  moreover have "MapWindow (win ti) \<in> set (snd (create_window srv n m ti0))"
    using assms(1,2) by (simp add: create_window_def Let_def)
  ultimately show ?thesis by blast
qed

definition broken_window :: window_info where
  "broken_window = (fst (create_window idle_server 0 (xmem screen_state) screen_window))\<lparr>win_dc := 0x3000\<rparr>"

definition broken_state :: xstate where
  "broken_state = screen_state\<lparr>x_tasks := [broken_window],
     x_ts := set_tmem ((xmem screen_state)(0x3010 := 2, 0x3018 := 1)) (x_ts screen_state)\<rparr>"

theorem expose_without_image_faults_witness:
  "handle_event screen_conf (Expose 0 0) broken_state = Inl NullDeref"
proof -
  have none: "xs_image idle_server 0 = None" by (simp add: idle_server_def)
  have w: "win broken_window = 0" "x_tasks broken_state ! 0 = broken_window" "t_Fs (ti_t broken_window) = 0x2000"
    by (simp_all add: broken_window_def create_window_def idle_server_def broken_state_def screen_window_def
        demo_thread_def)
  have m: "xmem broken_state = (\<lambda>_. 0)(0x1001 := 0x10, 0x2001 := 0x20, 0x1101 := 0x7f, 0x201c := 1,
      0x9028 := 5, 0x3010 := 2, 0x3018 := 1)"
    by (simp add: broken_state_def screen_state_def screen_machine_def)
  have "shown (xmem broken_state) broken_window"
    by (simp add: shown_def w m ld_four DISPLAY_SHOW_def fld_def CTask_off_display_flags)
  then have "find_thread_info_for_window (win broken_window) broken_state = Some 0"
    by (simp add: find_thread_info_for_window_def broken_state_def)
  moreover have "0 < dc_int (xmem broken_state) 0x3000 ''width''" "0 < dc_int (xmem broken_state) 0x3000 ''height''"
    by (simp_all add: dc_int_def fld_cdc ld_four m)
  ultimately have "handle_event screen_conf (Expose (win broken_window) 0) broken_state = Inl NullDeref"
    using expose_without_image_faults [OF none broken_window_def, of broken_state 0 screen_conf] w(2) by blast
  then show ?thesis by (simp add: w(1))
qed

end
