(* ===== verification/Boot.thy ===== *)
theory Boot
  imports X11 Heaps
begin

text \<open>
  The start of Lilith (\<open>main\<close> of \<open>lilith/lilith.c\<close>): the choice of the TempleOS root and of the
  display, the heaps and the kernel, the globals that the TempleOS start-up code would
  initialise, the run level, and the program given on the command line. Strings that are passed
  to TempleOS are addresses (\<open>be_str\<close>).
\<close>

unbundle bit_operations_syntax

section \<open>Constants\<close>

definition RLF_VGA :: u64 where "RLF_VGA = 0x000002"
definition RLF_64BIT :: u64 where "RLF_64BIT = 0x000020"
definition RLF_RAW :: u64 where "RLF_RAW = 0x000100"
definition RLF_BLKDEV :: u64 where "RLF_BLKDEV = 0x000400"
definition RLF_COMPILER :: u64 where "RLF_COMPILER = 0x001000"
definition FUN_SEG_CACHE_SIZE :: u64 where "FUN_SEG_CACHE_SIZE = 256"
definition FUN_SEG_CACHE_ENTRY_SIZE :: u64 where "FUN_SEG_CACHE_ENTRY_SIZE = 64"
definition EXT_EXTS_NUM :: u64 where "EXT_EXTS_NUM = 5"
definition TASK_HASH_TABLE_SIZE :: u64 where "TASK_HASH_TABLE_SIZE = push_bit 10 1"
definition LDF_SILENT :: u64 where "LDF_SILENT = 4"
definition INT64_MAX :: u64 where "INT64_MAX = 0x7fffffffffffffff"
definition USER_SPACE_TEMPLE :: cstring where "USER_SPACE_TEMPLE = ''/UserSpaceTemple/''"

section \<open>Environment\<close>

record boot_env =
  be_env :: env
  be_heaps :: heaps_env
  be_conf :: heap_conf
  be_exec :: allocator                          \<comment> \<open>the \<open>mmap\<close> of executable memory\<close>
  be_stub :: "cstring \<Rightarrow> u64"                   \<comment> \<open>the assembly stubs of the system calls\<close>
  kernel_bin_c :: u64
  be_getenv :: "cstring \<Rightarrow> cstring option"
  be_realpath :: "cstring \<Rightarrow> cstring option"
  be_cwd :: cstring
  be_stk :: u64                                 \<comment> \<open>\<open>&argc\<close>\<close>
  be_str :: "cstring \<Rightarrow> u64"
  be_server :: xserver
  be_keyboard :: keyboard
  be_modmap :: "u8 list \<times> nat"

section \<open>Root directory and display\<close>

fun strstr :: "cstring \<Rightarrow> cstring \<Rightarrow> nat option" where
  "strstr [] pat = (if pat = [] then Some 0 else None)"
| "strstr (c # s) pat =
     (if take (length pat) (c # s) = pat then Some 0 else map_option Suc (strstr s pat))"

text \<open>\<open>realpath\<close> gives NULL for a file that is not there, and \<open>strstr\<close> reads its argument.\<close>

definition choose_root ::
  "cstring option \<Rightarrow> (cstring \<Rightarrow> cstring option) \<Rightarrow> cstring \<Rightarrow> cstring option res" where
  "choose_root env_root realpath file =
     (if env_root \<noteq> None \<and> env_root \<noteq> Some [] then Inr env_root
      else if extension_is file ''.HC'' then
        (case realpath file of
           None \<Rightarrow> Inl NullDeref
         | Some p \<Rightarrow>
             Inr (map_option (\<lambda>i. take (i + length USER_SPACE_TEMPLE) p) (strstr p USER_SPACE_TEMPLE)))
      else Inr None)"

definition choose_x11 :: "cstring option \<Rightarrow> cstring option \<Rightarrow> bool" where
  "choose_x11 display x11_enabled_str \<longleftrightarrow>
     (display \<noteq> None \<and> display \<noteq> Some []) \<and> (x11_enabled_str = None \<or> x11_enabled_str \<noteq> Some ''0'')"

definition sys_run_level :: "bool \<Rightarrow> u64" where
  "sys_run_level x11_enabled =
     (let l = RLF_64BIT OR RLF_BLKDEV OR RLF_COMPILER
      in if \<not> x11_enabled then l OR RLF_RAW else l OR RLF_VGA)"

section \<open>Doubles\<close>

text \<open>The bits of \<open>(double)i\<close> for an \<open>int\<close> (always exact, since an \<open>int\<close> has 32 bits).\<close>

fun log2_floor :: "nat \<Rightarrow> nat" where
  "log2_floor n = (if n < 2 then 0 else Suc (log2_floor (n div 2)))"

declare log2_floor.simps [simp del]

definition f64_of_int :: "int \<Rightarrow> u64" where
  "f64_of_int i =
     (if i = 0 then 0
      else let n = nat \<bar>i\<bar>; e = log2_floor n
           in of_nat ((if i < 0 then 2 ^ 63 else 0) + (1023 + e) * 2 ^ 52 + (n - 2 ^ e) * 2 ^ (52 - e)))"

section \<open>Start-up\<close>

type_synonym boot = "tthread \<times> tstate"

definition b_call :: "boot_env \<Rightarrow> cstring \<Rightarrow> u64 list \<Rightarrow> boot \<Rightarrow> (u64 \<times> boot) res" where
  "b_call env name args b = call_with (be_env env) (fst b) name args (snd b)"

definition b_mach :: "(machine \<Rightarrow> ('a \<times> machine) res) \<Rightarrow> boot \<Rightarrow> ('a \<times> boot) res" where
  "b_mach f b = res_bind (f (mach (snd b))) (\<lambda>(v, m). Inr (v, fst b, (snd b)\<lparr>mach := m\<rparr>))"

definition b_patch :: "(machine \<Rightarrow> machine res) \<Rightarrow> boot \<Rightarrow> boot res" where
  "b_patch f b = res_bind (f (mach (snd b))) (\<lambda>m. Inr (fst b, (snd b)\<lparr>mach := m\<rparr>))"

definition b_mem :: "(mem \<Rightarrow> mem) \<Rightarrow> boot \<Rightarrow> boot" where
  "b_mem f b = (fst b, set_tmem (f (tmem (snd b))) (snd b))"

definition b_malloc :: "boot_env \<Rightarrow> u64 \<Rightarrow> boot \<Rightarrow> (u64 \<times> boot) res" where
  "b_malloc env sz = b_mach (malloc_for_templeos (be_conf env) sz (data_heap (be_conf env)) True)"

definition pow10_step :: "boot_env \<Rightarrow> u64 \<Rightarrow> int \<Rightarrow> boot \<Rightarrow> boot res" where
  "pow10_step env pow10_I64 i b =
     res_bind (b_call env ''_POW10'' [f64_of_int i] b) (\<lambda>(out, b).
       Inr (b_mem (\<lambda>m. st64 m (pow10_I64 + word_of_int (8 * (i + 309))) out) b))"

definition pow10_table :: "boot_env \<Rightarrow> u64 \<Rightarrow> boot \<Rightarrow> boot res" where
  "pow10_table env pow10_I64 = res_fold (pow10_step env pow10_I64) [-308..308]"

definition sys_glbls_init :: "boot_env \<Rightarrow> boot \<Rightarrow> boot res" where
  "sys_glbls_init env b =
     res_bind (b_call env ''DbgMode'' [1] b) (\<lambda>(_, b).
     res_bind (b_malloc env (EXT_EXTS_NUM * 8) b) (\<lambda>(ext, b).
     res_bind (b_patch (kernel_patch_var64 ''ext'' ext) b) (\<lambda>b.
     res_bind (b_call env ''KeyDevInit'' [] b) (\<lambda>(_, b).
     res_bind (b_malloc env 256 b) (\<lambda>(rev_bits_table, b).
     res_bind (b_malloc env 256 b) (\<lambda>(set_bits_table, b).
     let b = b_mem (bit_tables rev_bits_table set_bits_table) b in
     res_bind (b_patch (kernel_patch_var64 ''rev_bits_table'' rev_bits_table) b) (\<lambda>b.
     res_bind (b_patch (kernel_patch_var64 ''set_bits_table'' set_bits_table) b) (\<lambda>b.
     res_bind (b_malloc env (8 * (308 + 308 + 2)) b) (\<lambda>(pow10_I64, b).
     res_bind (pow10_table env pow10_I64 b) (\<lambda>b.
     res_bind (b_patch (kernel_patch_var64 ''pow10_I64'' pow10_I64) b) (\<lambda>b.
     res_bind (b_malloc env (FUN_SEG_CACHE_SIZE * FUN_SEG_CACHE_ENTRY_SIZE) b) (\<lambda>(cache, b).
     res_bind (b_patch (kernel_patch_var64_off ''dbg'' 0x30 cache) b) (\<lambda>b.
     res_bind (b_call env ''IntFaultHndlrsNew'' [] b) (\<lambda>(hndlrs, b).
       b_patch (kernel_patch_var64_off ''dbg'' 0x20 hndlrs) b))))))))))))))"

text \<open>Up to \<open>SysDefinesLoad\<close> and the run level; \<open>None\<close> is a load that does not end.\<close>

definition boot_adam :: "boot_env \<Rightarrow> bool \<Rightarrow> boot \<Rightarrow> boot res" where
  "boot_adam env x11_enabled b =
     (let adam_task = t_Fs (fst b) in
      res_bind (b_patch (kernel_patch_var64 ''adam_task'' adam_task) b) (\<lambda>b.
      res_bind (b_call env ''HashTableNew'' [TASK_HASH_TABLE_SIZE, 0] b) (\<lambda>(table, b).
      let b = b_mem (\<lambda>m. st64 m (t_Fs (fst b) + fld CTask ''hash_table'') table) b in
      res_bind (sys_glbls_init env b) (\<lambda>b.
      res_bind (b_call env ''LoadKernel'' [] b) (\<lambda>(_, b).
      res_bind (b_patch (kernel_patch_var64 ''adam_task'' (t_Fs (fst b))) b) (\<lambda>b.
      res_bind (b_call env ''SysDefinesLoad'' [] b) (\<lambda>(_, b).
      res_bind (kernel_var64_ptr ''sys_run_level'' (mach (snd b))) (\<lambda>sys_run_level_p.
        Inr (b_mem (\<lambda>m. st64 m sys_run_level_p (sys_run_level x11_enabled)) b)))))))))"

definition start_kernel :: "boot_env \<Rightarrow> tstate \<Rightarrow> (boot_env \<times> boot) res option" where
  "start_kernel env s =
     (case heaps_init (be_heaps env) (mach s) of
        Inl e \<Rightarrow> Some (Inl e)
      | Inr ((code, data), m) \<Rightarrow>
          let env = env\<lparr>be_conf := (be_conf env)\<lparr>code_heap := heap_pointer code, data_heap := heap_pointer data\<rparr>\<rparr>;
              m = m\<lparr>symbols := hash_init 4096\<rparr>
          in Option.bind (load_kernel (be_stub env) (be_exec env) (kernel_bin_c env) m) (\<lambda>r. Some (
               res_bind r (\<lambda>m.
               res_bind (init_templeos (be_conf env) (be_stk env) (be_cwd env) (be_getenv env ''HOME'')
                           (s\<lparr>mach := m\<rparr>)) (\<lambda>b. Inr (env, b))))))"

section \<open>The program\<close>

definition job_trampolines :: "cstring list" where
  "job_trampolines = [''LilithLockTask'', ''LilithUnlockTask'', ''LilithReplaceSyscall'',
     ''LilithWaitForEnqueuedTask'', ''LilithSignalEnqueuedTask'', ''LilithWaitForIdleTask'',
     ''LilithSignalIdleTask'']"

definition job_stub :: "cstring \<Rightarrow> cstring" where
  "job_stub name = the (map_of (zip job_trampolines
     [''asm_lilith_lock_task'', ''asm_lilith_unlock_task'', ''asm_lilith_replace_syscall'',
      ''asm_lilith_wait_for_enqueued_task'', ''asm_lilith_signal_enqueued_task'',
      ''asm_lilith_wait_for_idle_task'', ''asm_lilith_signal_idle_task'']) name)"

definition install_job_control :: "boot_env \<Rightarrow> boot \<Rightarrow> boot res" where
  "install_job_control env b =
     res_bind (b_call env ''ExeFile'' [be_str env ''/Lilith1.HC'', 0] b) (\<lambda>(_, b).
       res_fold (\<lambda>name b. b_patch (trampoline_kernel_patch (Some (t_Fs (fst b))) name
                   (be_stub env (job_stub name))) b) job_trampolines b)"

text \<open>A thread info without a window, as \<open>calloc\<close> makes it.\<close>

definition no_window :: "thread_info \<Rightarrow> window_info" where
  "no_window ti = thread_info.extend ti \<lparr>window_initialized = False, window_failed = False, win = 0,
     image = None, shmid = 0, image_used_by_server = False, win_dc = 0, win_text_base = 0\<rparr>"

definition serve_x11 :: "boot_env \<Rightarrow> ((int \<times> int) \<times> xevent) list \<Rightarrow> boot \<Rightarrow> boot res" where
  "serve_x11 env inputs b =
     res_bind (x11_start (be_env env) (be_conf env) (be_server env) (be_keyboard env)
         (fst (be_modmap env)) (snd (be_modmap env)) inputs
         \<lparr>x_ts = snd b, x_tasks = map no_window (first_templeos_task (snd b)), x_windows = 0,
          x_wm = fst b, x_last_redraw = (0, 0), x_out = []\<rparr>)
       (\<lambda>xs. Inr (x_wm xs, x_ts xs))"

definition run_program ::
  "boot_env \<Rightarrow> cstring option \<Rightarrow> cstring \<Rightarrow> ((int \<times> int) \<times> xevent) list \<Rightarrow> boot \<Rightarrow> boot res" where
  "run_program env templeos_root file inputs b =
     (if extension_is file ''.BIN'' \<or> extension_is file ''.BIN.Z'' then
        res_bind (b_call env ''DbgMode'' [0] b) (\<lambda>(_, b).
        res_bind (b_call env ''Load'' [be_str env file, 0, INT64_MAX] b) (\<lambda>(_, b). Inr b))
      else if extension_is file ''.HC'' \<or> extension_is file ''.HC.Z'' then
        res_bind (b_call env ''Load'' [be_str env ''/Compiler.BIN.Z'', LDF_SILENT, INT64_MAX] b) (\<lambda>(_, b).
        res_bind (if templeos_root \<noteq> None then install_job_control env b else Inr b) (\<lambda>b.
        res_bind (b_call env ''DbgMode'' [0] b) (\<lambda>(_, b).
        res_bind (b_call env ''ExeFile'' [be_str env file, 0] b) (\<lambda>(_, b).
          serve_x11 env inputs b))))
      else Inr (fst b, (snd b)\<lparr>mach := say (''Unknown extension '' @ file) (mach (snd b))\<rparr>))"

definition main ::
  "boot_env \<Rightarrow> cstring list \<Rightarrow> ((int \<times> int) \<times> xevent) list \<Rightarrow> tstate \<Rightarrow> boot res option" where
  "main env argv inputs s =
     (if length argv \<noteq> 2 then Some (Inl (ExitWith EXIT_FAILURE))
      else
        let file = argv ! 1;
            x11_enabled = choose_x11 (be_getenv env ''DISPLAY'') (be_getenv env ''LILITH_X11_ENABLED'')
        in case choose_root (be_getenv env ''TEMPLEOS'') (be_realpath env) file of
             Inl e \<Rightarrow> Some (Inl e)
           | Inr templeos_root \<Rightarrow>
               let s = (if templeos_root = None
                        then s\<lparr>mach := say ''TEMPLEOS environment variable is not set!'' (mach s)\<rparr>
                        else if be_getenv env ''TEMPLEOS'' \<in> {None, Some []}
                        then s\<lparr>mach := say (''TempleOS root set to '' @ the templeos_root) (mach s)\<rparr>
                        else s)
               in Option.bind (start_kernel env s) (\<lambda>r. Some (
                    res_bind r (\<lambda>(env, b).
                    res_bind (boot_adam env x11_enabled b) (run_program env templeos_root file inputs)))))"

section \<open>The root directory\<close>

lemma take_pat_iff: "take (length pat) s = pat \<longleftrightarrow> (\<exists>b. s = pat @ b)"
  by (metis append_eq_conv_conj append_take_drop_id)

lemma strstr_Some:
  "strstr s pat = Some i \<longleftrightarrow>
     i \<le> length s \<and> (\<exists>b. drop i s = pat @ b) \<and> (\<forall>j < i. \<nexists>b. drop j s = pat @ b)"
proof (induction s arbitrary: i)
  case Nil
  show ?case by auto
next
  case (Cons c s)
  show ?case
  proof (cases "\<exists>b. c # s = pat @ b")
    case True
    then have "\<not> (\<forall>j < Suc k. \<nexists>b. drop j (c # s) = pat @ b)" for k
      by (metis drop0 zero_less_Suc)
    with True show ?thesis by (cases i) (auto simp: take_pat_iff)
  next
    case False
    then show ?thesis
      using Cons.IH by (cases i) (auto simp: take_pat_iff All_less_Suc2)
  qed
qed

lemma strstr_None: "strstr s pat = None \<longleftrightarrow> (\<nexists>a b. s = a @ pat @ b)"
proof (induction s)
  case Nil
  show ?case by auto
next
  case (Cons c s)
  have "(\<exists>a b. c # s = a @ pat @ b) \<longleftrightarrow> (\<exists>b. c # s = pat @ b) \<or> (\<exists>a b. s = a @ pat @ b)"
    by (metis append_Cons append_Nil list.inject neq_Nil_conv)
  with Cons.IH show ?case by (auto simp: take_pat_iff)
qed

text \<open>The part of a path up to and with its first component \<open>UserSpaceTemple\<close>.\<close>

definition first_root :: "cstring \<Rightarrow> cstring \<Rightarrow> bool" where
  "first_root p root \<longleftrightarrow> (\<exists>a b. root = a @ USER_SPACE_TEMPLE \<and> p = root @ b \<and>
     (\<forall>a' b'. p = a' @ USER_SPACE_TEMPLE @ b' \<longrightarrow> length a \<le> length a'))"

text \<open>Without the environment variable, the root for an \<open>.HC\<close> program is the part of its real path
  up to and with the first component \<open>UserSpaceTemple\<close>, and there is none exactly when the path has
  no such component.\<close>
theorem choose_root_correct:
  assumes "env_root \<in> {None, Some []}" "extension_is file ''.HC''" "realpath file = Some p"
  shows "\<exists>r. choose_root env_root realpath file = Inr r \<and>
    (case r of None \<Rightarrow> \<nexists>a b. p = a @ USER_SPACE_TEMPLE @ b | Some root \<Rightarrow> first_root p root)"
proof (cases "strstr p USER_SPACE_TEMPLE")
  case None
  then have "choose_root env_root realpath file = Inr None"
    using assms by (auto simp: choose_root_def)
  with None show ?thesis by (simp add: strstr_None)
next
  case (Some i)
  then obtain b where i: "i \<le> length p" and b: "drop i p = USER_SPACE_TEMPLE @ b"
    and least: "\<And>j b. j < i \<Longrightarrow> drop j p \<noteq> USER_SPACE_TEMPLE @ b"
    unfolding strstr_Some by blast
  have "p = take i p @ USER_SPACE_TEMPLE @ b" using b by (metis append_take_drop_id)
  moreover have "take (i + length USER_SPACE_TEMPLE) p = take i p @ USER_SPACE_TEMPLE"
    using b by (simp add: take_add)
  moreover have "length (take i p) \<le> length a'" if "p = a' @ USER_SPACE_TEMPLE @ b'" for a' b'
    using least [of "length a'" b'] that i by fastforce
  moreover have "choose_root env_root realpath file = Inr (Some (take (i + length USER_SPACE_TEMPLE) p))"
    using assms Some by (auto simp: choose_root_def)
  ultimately have "first_root p (take (i + length USER_SPACE_TEMPLE) p)"
    unfolding first_root_def by (metis append_assoc)
  with assms Some show ?thesis by (auto simp: choose_root_def)
qed

theorem choose_root_correct_witness:
  "\<exists>root. choose_root None (\<lambda>f. Some (''/home/a/UserSpaceTemple/Demo/'' @ f)) ''Hello.HC'' = Inr (Some root) \<and>
     length root \<le> 24"
proof -
  let ?p = "''/home/a/UserSpaceTemple/Demo/Hello.HC''"
  obtain r where r: "choose_root None (\<lambda>f. Some (''/home/a/UserSpaceTemple/Demo/'' @ f)) ''Hello.HC'' = Inr r"
    "case r of None \<Rightarrow> \<nexists>a b. ?p = a @ USER_SPACE_TEMPLE @ b | Some root \<Rightarrow> first_root ?p root"
    using choose_root_correct [of None "''Hello.HC''" "\<lambda>f. Some (''/home/a/UserSpaceTemple/Demo/'' @ f)" ?p]
    by (auto simp: extension_is_def)
  have at: "?p = ''/home/a'' @ USER_SPACE_TEMPLE @ ''Demo/Hello.HC''" by (simp add: USER_SPACE_TEMPLE_def)
  show ?thesis
  proof (cases r)
    case None
    from r(2) have "\<nexists>a b. ?p = a @ USER_SPACE_TEMPLE @ b" by (simp only: None option.case not_False_eq_True)
    with at show ?thesis by blast
  next
    case (Some root)
    with r(2) have "first_root ?p root" by simp
    then obtain a where "root = a @ USER_SPACE_TEMPLE" "length a \<le> length ''/home/a''"
      unfolding first_root_def using at by blast
    with r(1) Some show ?thesis by (simp add: USER_SPACE_TEMPLE_def)
  qed
qed

text \<open>A program whose name ends in \<open>.HC\<close> and that does not exist makes \<open>main\<close> read a NULL pointer
  when the root is not given.\<close>
theorem missing_program_faults:
  assumes "be_getenv env ''TEMPLEOS'' \<in> {None, Some []}" "extension_is file ''.HC''"
    "be_realpath env file = None"
  shows "main env [prog, file] inputs s = Some (Inl NullDeref)"
  using assms by (auto simp: main_def choose_root_def Let_def)

section \<open>Doubles\<close>

lemma log2_floor_bounds: "0 < n \<Longrightarrow> 2 ^ log2_floor n \<le> n \<and> n < 2 ^ Suc (log2_floor n)"
proof (induction n rule: log2_floor.induct)
  case (1 n)
  show ?case
  proof (cases "n < 2")
    case True
    then show ?thesis using "1.prems" by (subst (1 2) log2_floor.simps) simp
  next
    case False
    with "1.IH" have "2 ^ log2_floor (n div 2) \<le> n div 2 \<and> n div 2 < 2 ^ Suc (log2_floor (n div 2))"
      by simp
    with False show ?thesis by (subst (1 2) log2_floor.simps) (simp, arith)
  qed
qed

text \<open>The bits passed to \<open>_POW10\<close> are the IEEE encoding of the integer: sign, exponent and mantissa
  give back exactly its value.\<close>
theorem f64_of_int_exact:
  assumes "i \<noteq> 0" "\<bar>i\<bar> < 2 ^ 53"
  shows "(bit (f64_of_int i) 63 \<longleftrightarrow> i < 0) \<and>
    (let e = unat (f64_of_int i) div 2 ^ 52 mod 2048; frac = unat (f64_of_int i) mod 2 ^ 52
     in 1023 \<le> e \<and> e \<le> 1075 \<and> 2 ^ 52 + int frac = \<bar>i\<bar> * 2 ^ (1075 - e))"
proof -
  define n where "n = nat \<bar>i\<bar>"
  define e where "e = log2_floor n"
  define f where "f = (n - 2 ^ e) * 2 ^ (52 - e)"
  define s :: nat where "s = (if i < 0 then 1 else 0)"
  have n: "0 < n" "n < 2 ^ 53" using assms by (auto simp: n_def)
  have b: "2 ^ e \<le> n" "n < 2 ^ Suc e" using log2_floor_bounds [OF n(1)] by (simp_all add: e_def)
  have "(2 :: nat) ^ e < 2 ^ 53" using b(1) n(2) by (rule le_less_trans)
  then have "e < 53" by (rule power_less_imp_less_exp [rotated]) simp
  then have e: "e \<le> 52" by simp
  have p: "(2 :: nat) ^ e * 2 ^ (52 - e) = 2 ^ 52" using e by (simp flip: power_add)
  have "n - 2 ^ e < 2 ^ e" using b by simp
  then have "f < 2 ^ e * 2 ^ (52 - e)" by (simp add: f_def)
  then have f: "f < 2 ^ 52" by (simp only: p)
  have fn: "2 ^ 52 + f = n * 2 ^ (52 - e)"
    using mult_le_mono1 [OF b(1), of "2 ^ (52 - e)"] p by (simp add: f_def diff_mult_distrib)
  have w: "unat (f64_of_int i) = s * 2 ^ 63 + (1023 + e) * 2 ^ 52 + f"
  proof -
    have "s * 2 ^ 63 + (1023 + e) * 2 ^ 52 + f < 2 ^ 64" using e f by (simp add: s_def)
    moreover have "f64_of_int i = of_nat (s * 2 ^ 63 + (1023 + e) * 2 ^ 52 + f)"
      using assms(1) by (simp add: f64_of_int_def s_def f_def e_def n_def Let_def)
    ultimately show ?thesis by (simp only: unat_of_nat) simp
  qed
  have split: "s * 2 ^ 63 + (1023 + e) * 2 ^ 52 + f = (s * 2048 + (1023 + e)) * 2 ^ 52 + f" by simp
  have "((s * 2048 + (1023 + e)) * 2 ^ 52 + f) div 2 ^ 52 = s * 2048 + (1023 + e)"
    using f div_mult_self3 [of "2 ^ 52" "s * 2048 + (1023 + e)" f] by simp
  then have "unat (f64_of_int i) div 2 ^ 52 mod 2048 = 1023 + e"
    using e by (simp only: w split) simp
  moreover have "unat (f64_of_int i) mod 2 ^ 52 = f" using f mod_mult_self3 [of "s * 2048 + (1023 + e)" "2 ^ 52" f] by (simp only: w split) simp
  moreover have "bit (f64_of_int i) 63 \<longleftrightarrow> i < 0"
  proof -
    have "(1023 + e) * 2 ^ 52 + f < 2 ^ 63" using e f by simp
    then have "(s * 2 ^ 63 + ((1023 + e) * 2 ^ 52 + f)) div 2 ^ 63 = s" by simp
    then have "unat (f64_of_int i) div 2 ^ 63 = s" by (simp only: w add.assoc)
    moreover have "bit (f64_of_int i) 63 \<longleftrightarrow> bit (unat (f64_of_int i)) 63"
      by (simp add: bit_unsigned_iff)
    ultimately show ?thesis by (simp add: bit_iff_odd s_def)
  qed
  moreover have "2 ^ 52 + int f = \<bar>i\<bar> * 2 ^ (52 - e)"
  proof -
    have "int (2 ^ 52 + f) = int n * 2 ^ (52 - e)" by (simp only: fn of_nat_mult of_nat_power) simp
    then show ?thesis by (simp add: n_def)
  qed
  ultimately show ?thesis using e by (simp add: Let_def)
qed

theorem f64_of_int_exact_witness:
  "let e = unat (f64_of_int (-308)) div 2 ^ 52 mod 2048; frac = unat (f64_of_int (-308)) mod 2 ^ 52
   in 2 ^ 52 + int frac = 308 * 2 ^ (1075 - e)"
  using f64_of_int_exact [of "-308"] by (simp add: Let_def)

definition boot_demo :: boot_env where
  "boot_demo = \<lparr>be_env = xc_env screen_conf, be_heaps = heaps_demo, be_conf = stbm_conf,
     be_exec = bump_alloc, be_stub = (\<lambda>_. 0x5000), kernel_bin_c = 0x100000, be_getenv = (\<lambda>_. None),
     be_realpath = (\<lambda>_. None), be_cwd = ''/'', be_stk = 0x7fff0000, be_str = (\<lambda>_. 0x6000),
     be_server = idle_server, be_keyboard = one_key_board, be_modmap = ([], 0)\<rparr>"

theorem missing_program_faults_witness:
  "main boot_demo [''lilith'', ''none.HC''] [] demo_state = Some (Inl NullDeref)"
  by (rule missing_program_faults) (simp_all add: extension_is_def boot_demo_def)
section \<open>The table of powers of ten\<close>

definition pow10_slot :: "u64 \<Rightarrow> int \<Rightarrow> u64" where
  "pow10_slot p i = p + word_of_int (8 * (i + 309))"

text \<open>The function \<open>_POW10\<close> exists and computes \<open>g\<close>, and the table lies outside the thread's structs.\<close>

definition pow10_ready :: "boot_env \<Rightarrow> (u64 \<Rightarrow> u64) \<Rightarrow> u64 \<Rightarrow> tthread \<Rightarrow> tstate \<Rightarrow> bool" where
  "pow10_ready env g p t s \<longleftrightarrow> in_host (e_prctl (be_env env)) t s \<and> unat p + 4944 \<le> 2 ^ 64 \<and>
     (\<forall>w \<in> set (struct_words t). disjoint_regions w 8 p 4944) \<and>
     (\<exists>e. e \<noteq> 0 \<and> find_entry_point t ''_POW10'' (mach s) = Inr e \<and>
        (\<forall>x s. e_code (be_env env) e [x] s = Inr (g x, s)))"

lemma pow10_slot_unat:
  assumes "unat p + 4944 \<le> 2 ^ 64" "i \<in> {-309..308}"
  shows "unat (pow10_slot p i) = unat p + 8 * nat (i + 309)"
proof -
  obtain k where k: "i + 309 = int k" "k \<le> 617"
    using assms(2) by (intro that [of "nat (i + 309)"]) auto
  have "(word_of_int (8 * (i + 309)) :: u64) = of_nat (8 * k)" by (simp add: k(1))
  moreover have "unat (of_nat (8 * k) :: u64) = 8 * k"
    using k(2) by (simp only: unat_of_nat) simp
  ultimately have "unat (word_of_int (8 * (i + 309)) :: u64) = 8 * k" by (simp only:)
  then show ?thesis using assms(1) k by (simp add: pow10_slot_def unat_plus64)
qed

lemma pow10_slots_apart:
  assumes "unat p + 4944 \<le> 2 ^ 64" "i \<in> {-309..308}" "j \<in> {-309..308}" "i \<noteq> j"
  shows "disjoint_regions (pow10_slot p i) 8 (pow10_slot p j) 8"
proof -
  have *: "disjoint_regions (pow10_slot p i) 8 (pow10_slot p j) 8"
    if "i < j" "i \<in> {-309..308}" "j \<in> {-309..308}" for i j
    by (rule disjoint_regionsI) (use that assms(1) in \<open>auto simp: pow10_slot_unat\<close>)
  show ?thesis
    using * [of i j] * [of j i] assms by (auto simp: disjoint_regions_sym linorder_neq_iff)
qed

lemma pow10_slot_in:
  assumes "unat p + 4944 \<le> 2 ^ 64" "i \<in> {-309..308}" "in_region (pow10_slot p i) 8 x"
  shows "in_region p 4944 x"
  using assms pow10_slot_unat [OF assms(1,2)]
  by (subst in_region_interval) (auto simp: in_region_interval)

lemma pow10_step_ok:
  assumes r: "pow10_ready env g p t s" and i: "i \<in> {-308..308}"
  obtains s' where "pow10_step env p i (t, s) = Inr (t, s')" "pow10_ready env g p t s'"
    "tmem s' = st64 (tmem s) (pow10_slot p i) (g (f64_of_int i))"
proof -
  let ?e = "be_env env"
  obtain e where host: "in_host (e_prctl ?e) t s" and fit: "unat p + 4944 \<le> 2 ^ 64"
    and apart: "\<forall>w \<in> set (struct_words t). disjoint_regions w 8 p 4944"
    and e: "e \<noteq> 0" "find_entry_point t ''_POW10'' (mach s) = Inr e"
    and code: "\<forall>x s. e_code ?e e [x] s = Inr (g x, s)"
    using r by (auto simp: pow10_ready_def)
  obtain s1 where s1: "enter_templeos (e_checks ?e) (e_prctl ?e) t s = Inr s1"
    using ws.enter_ok [OF host] by blast
  have call: "b_call env ''_POW10'' [f64_of_int i] (t, s) = Inr (g (f64_of_int i), (t, s))"
    using e code s1 ws.leave_enter [OF host s1] by (simp add: b_call_def call_with_def)
  let ?s = "set_tmem (st64 (tmem s) (pow10_slot p i) (g (f64_of_int i))) s"
  have "disjoint_regions w 8 (pow10_slot p i) 8" if "w \<in> set (struct_words t)" for w
    using apart that pow10_slot_in [OF fit, of i] i by (auto simp: disjoint_regions_def)
  then have "in_host (e_prctl ?e) t ?s"
    using host by (auto simp: in_host_def thread_ok_def struct_words_def fld_addr ld64_st64_other)
  then have "pow10_ready env g p t ?s"
    using fit apart e code by (auto simp: pow10_ready_def set_tmem_def)
  moreover have "pow10_step env p i (t, s) = Inr (t, ?s)"
    using call by (simp add: pow10_step_def b_mem_def pow10_slot_def)
  ultimately show ?thesis using that by simp
qed

lemma pow10_loop_ok:
  assumes "pow10_ready env g p t s" "distinct js" "set js \<subseteq> {-308..308}"
  shows "\<exists>s'. res_fold (pow10_step env p) js (t, s) = Inr (t, s') \<and> pow10_ready env g p t s' \<and>
    (\<forall>i \<in> {-309..308}. ld64 (tmem s') (pow10_slot p i) =
       (if i \<in> set js then g (f64_of_int i) else ld64 (tmem s) (pow10_slot p i))) \<and>
    (\<forall>x. \<not> in_region p 4944 x \<longrightarrow> tmem s' x = tmem s x)"
  using assms
proof (induction js arbitrary: s)
  case Nil
  then show ?case by simp
next
  case (Cons j js)
  have j: "j \<in> {-308..308}" using Cons.prems(3) by simp
  have fit: "unat p + 4944 \<le> 2 ^ 64" using Cons.prems(1) by (simp add: pow10_ready_def)
  obtain s1 where s1: "pow10_step env p j (t, s) = Inr (t, s1)" "pow10_ready env g p t s1"
    "tmem s1 = st64 (tmem s) (pow10_slot p j) (g (f64_of_int j))"
    by (rule pow10_step_ok [OF Cons.prems(1) j])
  obtain s2 where s2: "res_fold (pow10_step env p) js (t, s1) = Inr (t, s2)" "pow10_ready env g p t s2"
    "\<forall>i \<in> {-309..308}. ld64 (tmem s2) (pow10_slot p i) =
       (if i \<in> set js then g (f64_of_int i) else ld64 (tmem s1) (pow10_slot p i))"
    "\<forall>x. \<not> in_region p 4944 x \<longrightarrow> tmem s2 x = tmem s1 x"
    using Cons.IH [OF s1(2)] Cons.prems(2,3) by auto
  have "ld64 (tmem s1) (pow10_slot p i) = (if i = j then g (f64_of_int j) else ld64 (tmem s) (pow10_slot p i))"
    if "i \<in> {-309..308}" for i
    using pow10_slots_apart [OF fit that, of j] j by (simp add: s1(3) ld64_st64 ld64_st64_other)
  moreover have "tmem s1 x = tmem s x" if "\<not> in_region p 4944 x" for x
  proof -
    have "\<not> in_region (pow10_slot p j) 8 x" using that pow10_slot_in [OF fit, of j x] j by auto
    then show ?thesis by (simp add: s1(3) st64_other)
  qed
  ultimately show ?case using s1(1) s2 by (intro exI [of _ s2]) auto
qed

text \<open>The loop of \<open>main\<close> fills the table \<open>pow10_I64\<close> with what \<open>_POW10\<close> gives for every integer from
  -308 to 308, at its place; the first entry and all other memory stay as they are, and the thread
  can go on.\<close>
theorem pow10_table_filled:
  assumes "pow10_ready env g p t s"
  shows "\<exists>s'. pow10_table env p (t, s) = Inr (t, s') \<and> in_host (e_prctl (be_env env)) t s' \<and>
    (\<forall>i \<in> {-308..308}. ld64 (tmem s') (p + word_of_int (8 * (i + 309))) = g (f64_of_int i)) \<and>
    ld64 (tmem s') p = ld64 (tmem s) p \<and> (\<forall>x. \<not> in_region p 4944 x \<longrightarrow> tmem s' x = tmem s x)"
proof -
  define js :: "int list" where "js = [-308..308]"
  have js: "distinct js" "set js = {-308..308}" by (simp_all only: js_def distinct_upto set_upto)
  obtain s' where s': "res_fold (pow10_step env p) js (t, s) = Inr (t, s')" "pow10_ready env g p t s'"
    "\<forall>i \<in> {-309..308}. ld64 (tmem s') (pow10_slot p i) =
       (if i \<in> set js then g (f64_of_int i) else ld64 (tmem s) (pow10_slot p i))"
    "\<forall>x. \<not> in_region p 4944 x \<longrightarrow> tmem s' x = tmem s x"
    using pow10_loop_ok [OF assms js(1)] js(2) by blast
  have "ld64 (tmem s') p = ld64 (tmem s) p"
    using s'(3) [rule_format, of "-309"] by (simp add: pow10_slot_def js(2))
  moreover have "\<forall>i \<in> {-308..308}. ld64 (tmem s') (p + word_of_int (8 * (i + 309))) = g (f64_of_int i)"
    using s'(3) by (simp only: js(2) flip: pow10_slot_def) simp
  moreover have "pow10_table env p (t, s) = Inr (t, s')" using s'(1) by (simp only: pow10_table_def js_def)
  ultimately show ?thesis using s'(2,4) unfolding pow10_ready_def by blast
qed

definition pow10_state :: tstate where
  "pow10_state = \<lparr>mach = screen_machine\<lparr>hobjs := (\<lambda>_. draw_fun ''_POW10'')\<rparr>, fs_base = 0x7f00, gs_base = 0,
     first_templeos_task = []\<rparr>"

lemma pow10_demo: "pow10_ready boot_demo (\<lambda>_. 0) 0x10000 demo_thread pow10_state"
proof -
  have i: "hash_inv (symbols (mach pow10_state))"
    by (simp add: pow10_state_def screen_machine_def late_machine_def bare_machine_def hello_machine_def hash_inv_init)
  have g: "sym_get (mach pow10_state) ''_POW10'' = Inr None"
    using hash_get_ok [OF i, of "''_POW10''"] hash_get_init [of 4096 "''_POW10''"]
    by (auto simp: sym_get_def pow10_state_def screen_machine_def late_machine_def bare_machine_def
        hello_machine_def hash_key_ok_ascii)
  have "\<forall>h \<in> set (task_tables (mach pow10_state) (t_Fs demo_thread)). table_ok h"
    by (simp add: pow10_state_def screen_machine_def table_ok_def)
  from find_entry_point_eq [OF g this]
  have e: "find_entry_point demo_thread ''_POW10'' (mach pow10_state) = Inr 0x7000"
    by (auto simp: pow10_state_def screen_machine_def table_elems_def late_target_def late_addr_def
        draw_fun_def is_hash_type_def htt_defs)
  have h: "in_host (\<lambda>_. True) demo_thread pow10_state"
    by (simp add: in_host_def thread_ok_def demo_thread_def fld_addr fld_glibc pow10_state_def
        screen_machine_def ld_eight)
  show ?thesis
    using e h
    by (auto simp: pow10_ready_def boot_demo_def screen_conf_def struct_words_def demo_thread_def fld_glibc
        intro!: disjoint_regionsI)
qed

theorem pow10_table_filled_witness:
  "\<exists>s'. pow10_table boot_demo 0x10000 (demo_thread, pow10_state) = Inr (demo_thread, s') \<and>
     ld64 (tmem s') 0x10008 = 0 \<and> tmem s' 0x9028 = 5"
proof -
  have "tmem pow10_state 0x9028 = 5" by (simp add: pow10_state_def screen_machine_def)
  moreover have "\<not> in_region 0x10000 4944 0x9028" by (simp add: in_region_def)
  moreover obtain s' where s': "pow10_table boot_demo 0x10000 (demo_thread, pow10_state) = Inr (demo_thread, s')"
    "\<forall>i \<in> {-308..308}. ld64 (tmem s') (0x10000 + word_of_int (8 * (i + 309))) = 0"
    "\<forall>x. \<not> in_region 0x10000 4944 x \<longrightarrow> tmem s' x = tmem pow10_state x"
    using pow10_table_filled [OF pow10_demo] by blast
  moreover have "ld64 (tmem s') 0x10008 = 0" using s'(2) [rule_format, of "-308"] by simp
  ultimately show ?thesis by metis
qed

end
