(* ===== verification/Archive.thy ===== *)
theory Archive
  imports CMem
begin

text \<open>
  The decompression of TempleOS files by the tool for other systems
  (\<open>UserSpaceTemple/Downloads/Linux/TOSZ.CPP\<close>): the bit fields, the table of \<open>CArcEntry\<close>s, the
  expansion of a buffer and the conversion of a file. The meaning of a code stream is given by a
  dictionary of byte strings; the table of 4096 entries, which refer to each other by codes, refines it as
  long as entries are not used again.
\<close>

unbundle bit_operations_syntax

section \<open>Bytes and bits\<close>

text \<open>
  \<open>Bt\<close> on a field of bytes; reading past its end is out of bounds, and so is a number from \<open>2 ^ 31\<close> on,
  which the parameter of type \<open>int\<close> takes as negative.
\<close>

definition arc_Bt :: "nat \<Rightarrow> u8 list \<Rightarrow> bool res" where
  "arc_Bt bit_num bit_field =
     (if bit_num < 2 ^ 31 \<and> bit_num div 8 < length bit_field
      then Inr ((bit_field ! (bit_num div 8)) AND push_bit (bit_num mod 8) 1 \<noteq> 0)
      else Inl OutOfBounds)"

text \<open>\<open>Bts\<close> on the bytes of a \<open>DWORD\<close> variable (x86 is little-endian).\<close>

definition arc_Bts :: "nat \<Rightarrow> u32 \<Rightarrow> u32" where
  "arc_Bts bit_num r = r OR push_bit bit_num 1"

fun field_loop :: "u8 list \<Rightarrow> nat \<Rightarrow> nat list \<Rightarrow> u32 \<Rightarrow> u32 res" where
  "field_loop src pos [] r = Inr r"
| "field_loop src pos (i # is) r =
     res_bind (arc_Bt ((pos + i) mod 2 ^ 32) src) (\<lambda>b. field_loop src pos is (if b then arc_Bts i r else r))"

definition BFieldExtDWORD :: "u8 list \<Rightarrow> nat \<Rightarrow> nat \<Rightarrow> u32 res" where
  "BFieldExtDWORD src pos bits = field_loop src pos [0..<bits] 0"

section \<open>The decompressor\<close>

definition ARC_MAX_BITS :: nat where "ARC_MAX_BITS = 12"
definition CT_NONE :: u8 where "CT_NONE = 1"
definition CT_7_BIT :: u8 where "CT_7_BIT = 2"
definition CT_8_BIT :: u8 where "CT_8_BIT = 3"

text \<open>
  An entry of the table. A pointer to an entry is its index in \<open>a_compress\<close>; the chain of
  entries that starts at \<open>hash[i]\<close> and is linked by \<open>next\<close> is the list \<open>a_hash i\<close>. The stack has
  its top first, and the output is the part of the buffer that was written.
\<close>

record arc_entry =
  basecode :: u16
  ch :: u8

record arc_ctrl =
  a_src_pos :: nat
  a_src_size :: nat
  a_src_buf :: "u8 list"
  a_dst_size :: nat
  a_dst :: "u8 list"
  a_min_table_entry :: nat
  a_cur_entry :: "nat option"
  a_next_entry :: "nat option"
  a_cur_bits_in_use :: nat
  a_next_bits_in_use :: nat
  a_stk :: "u8 list"
  a_free_idx :: nat
  a_free_limit :: nat
  a_saved_basecode :: u32
  a_entry_used :: bool
  a_last_ch :: u32
  a_compress :: "nat \<Rightarrow> arc_entry"
  a_hash :: "nat \<Rightarrow> nat list"

text \<open>
  The next entry to be filled: in turn until the codes have their greatest width, then the next
  one that no other entry is based on. \<open>None\<close> is a search that goes round for ever.
\<close>

definition free_entry :: "arc_ctrl \<Rightarrow> nat option" where
  "free_entry c = find (\<lambda>i. a_hash c i = [])
     ([Suc (a_free_idx c)..<a_free_limit c] @ [a_min_table_entry c..<Suc (a_free_idx c)])"

definition ArcEntryGet :: "arc_ctrl \<Rightarrow> arc_ctrl option" where
  "ArcEntryGet c =
     (if a_entry_used c then
        let i = a_free_idx c;
            c = c\<lparr>a_entry_used := False, a_cur_entry := a_next_entry c,
                  a_cur_bits_in_use := a_next_bits_in_use c\<rparr>
        in if a_next_bits_in_use c < ARC_MAX_BITS then
             let c = c\<lparr>a_next_entry := Some i, a_free_idx := i + 1\<rparr>
             in Some (if i + 1 = a_free_limit c
                      then c\<lparr>a_next_bits_in_use := a_next_bits_in_use c + 1,
                             a_free_limit := 2 ^ (a_next_bits_in_use c + 1)\<rparr>
                      else c)
           else
             map_option (\<lambda>i.
               let b = unat (basecode (a_compress c i))
               in c\<lparr>a_next_entry := Some i, a_free_idx := i,
                    a_hash := (a_hash c)(b := remove1 i (a_hash c b))\<rparr>) (free_entry c)
      else Some c)"

text \<open>The bytes a code stands for are pushed, the last one first; the stack has \<open>1 << 12\<close> bytes.\<close>

definition push_byte :: "u8 \<Rightarrow> u8 list \<Rightarrow> u8 list res" where
  "push_byte b stk = (if length stk < 2 ^ ARC_MAX_BITS then Inr (b # stk) else Inl OutOfBounds)"

function push_code :: "(nat \<Rightarrow> arc_entry) \<Rightarrow> nat \<Rightarrow> nat \<Rightarrow> u8 list \<Rightarrow> (nat \<times> u8 list) res" where
  "push_code tab min_entry code stk =
     (if code \<ge> min_entry then
        (case push_byte (ch (tab code)) stk of
           Inl e \<Rightarrow> Inl e
         | Inr stk \<Rightarrow> push_code tab min_entry (unat (basecode (tab code))) stk)
      else Inr (code, stk))"
  by pat_completeness auto
termination
  by (relation "measure (\<lambda>(tab, m, code, stk). 2 ^ ARC_MAX_BITS - length stk)")
     (auto simp: push_byte_def split: if_splits)

declare push_code.simps [simp del]

definition flush_stack :: "arc_ctrl \<Rightarrow> arc_ctrl" where
  "flush_stack c =
     (let k = min (a_dst_size c - length (a_dst c)) (length (a_stk c))
      in c\<lparr>a_dst := a_dst c @ take k (a_stk c), a_stk := drop k (a_stk c)\<rparr>)"

definition read_code :: "arc_ctrl \<Rightarrow> (nat \<times> arc_ctrl) res" where
  "read_code c =
     res_bind (BFieldExtDWORD (a_src_buf c) (a_src_pos c) (a_next_bits_in_use c)) (\<lambda>code.
       Inr (unat code, c\<lparr>a_src_pos := (a_src_pos c + a_next_bits_in_use c) mod 2 ^ 32\<rparr>))"

text \<open>The bytes of a code, and of the entry that is still to be made, on the stack; the last value
  of \<open>code\<close> is the first byte.\<close>

definition push_string :: "nat \<Rightarrow> nat \<Rightarrow> arc_ctrl \<Rightarrow> (nat \<times> u8 list) res" where
  "push_string lastcode basecode0 c =
     res_bind
       (if a_cur_entry c = Some basecode0
        then res_bind (push_byte (ucast (a_last_ch c)) (a_stk c))
               (push_code (a_compress c) (a_min_table_entry c) lastcode)
        else push_code (a_compress c) (a_min_table_entry c) basecode0 (a_stk c))
       (\<lambda>(code, stk). res_bind (push_byte (of_nat code) stk) (\<lambda>stk. Inr (code, stk)))"

definition fill_entry :: "nat \<Rightarrow> nat \<Rightarrow> nat \<Rightarrow> u8 list \<Rightarrow> arc_ctrl \<Rightarrow> arc_ctrl" where
  "fill_entry tmp lastcode code stk c =
     c\<lparr>a_stk := stk, a_last_ch := of_nat code, a_entry_used := True,
       a_compress := (a_compress c)(tmp := \<lparr>basecode = of_nat lastcode, ch = of_nat code\<rparr>),
       a_hash := (a_hash c)(lastcode := tmp # a_hash c lastcode)\<rparr>"

text \<open>One turn of the loop of \<open>ArcExpandBuf\<close>: a code is read and expanded, and the entry for the
  previous code with one more byte is made.\<close>

definition expand_code :: "nat \<Rightarrow> arc_ctrl \<Rightarrow> (nat \<times> arc_ctrl) res option" where
  "expand_code lastcode c =
     (case read_code c of
        Inl e \<Rightarrow> Some (Inl e)
      | Inr (basecode0, c) \<Rightarrow>
          (case push_string lastcode basecode0 c of
             Inl e \<Rightarrow> Some (Inl e)
           | Inr (code, stk) \<Rightarrow>
               (case a_cur_entry c of
                  None \<Rightarrow> Some (Inl NullDeref)
                | Some tmp \<Rightarrow>
                    map_option (\<lambda>c. Inr (basecode0, flush_stack c))
                      (ArcEntryGet (fill_entry tmp lastcode code stk c)))))"

partial_function (option) expand_loop :: "nat \<Rightarrow> arc_ctrl \<Rightarrow> (nat \<times> arc_ctrl) res option" where
  "expand_loop lastcode c =
     (if length (a_dst c) < a_dst_size c \<and> (a_src_pos c + a_next_bits_in_use c) mod 2 ^ 32 \<le> a_src_size c then
        Option.bind (expand_code lastcode c) (\<lambda>r. case r of
          Inl e \<Rightarrow> Some (Inl e)
        | Inr (code, c) \<Rightarrow> expand_loop code c)
      else Some (Inr (lastcode, c)))"

definition first_code :: "arc_ctrl \<Rightarrow> (nat \<times> arc_ctrl) res option" where
  "first_code c =
     (if a_saved_basecode c = 0xFFFFFFFF then
        (case read_code c of
           Inl e \<Rightarrow> Some (Inl e)
         | Inr (code, c) \<Rightarrow>
             map_option (\<lambda>c. Inr (code, c\<lparr>a_last_ch := of_nat code\<rparr>))
               (ArcEntryGet (c\<lparr>a_dst := a_dst c @ [of_nat code]\<rparr>)))
      else Some (Inr (unat (a_saved_basecode c), c)))"

definition ArcExpandBuf :: "arc_ctrl \<Rightarrow> arc_ctrl res option" where
  "ArcExpandBuf c =
     (let c = flush_stack c
      in if a_stk c = [] \<and> length (a_dst c) < a_dst_size c then
           Option.bind (first_code c) (\<lambda>r. case r of
             Inl e \<Rightarrow> Some (Inl e)
           | Inr (lastcode, c) \<Rightarrow>
               Option.bind (expand_loop lastcode c) (\<lambda>r. case r of
                 Inl e \<Rightarrow> Some (Inl e)
               | Inr (lastcode, c) \<Rightarrow> Some (Inr (c\<lparr>a_saved_basecode := of_nat lastcode\<rparr>))))
         else Some (Inr c))"

text \<open>A control structure; its memory is zeroed.\<close>

definition ArcCtrlNew :: "u8 \<Rightarrow> arc_ctrl option" where
  "ArcCtrlNew compression_type =
     (let min_bits = (if compression_type = CT_7_BIT then 7 else 8);
          c = \<lparr>a_src_pos = 0, a_src_size = 0, a_src_buf = [], a_dst_size = 0, a_dst = [],
               a_min_table_entry = 2 ^ min_bits, a_cur_entry = None, a_next_entry = None,
               a_cur_bits_in_use = 0, a_next_bits_in_use = min_bits + 1, a_stk = [],
               a_free_idx = 2 ^ min_bits, a_free_limit = 2 ^ (min_bits + 1),
               a_saved_basecode = 0xFFFFFFFF, a_entry_used = True, a_last_ch = 0,
               a_compress = (\<lambda>_. \<lparr>basecode = 0, ch = 0\<rparr>), a_hash = (\<lambda>_. [])\<rparr>
      in map_option (\<lambda>c. c\<lparr>a_entry_used := True\<rparr>) (ArcEntryGet c))"

text \<open>The head of a compressed file, before the body of the archive.\<close>

record arc_compress =
  compressed_size :: u32
  expanded_size :: u32
  compression_type :: u8
  arc_bytes :: "u8 list"    \<comment> \<open>the whole file, with the head\<close>

definition ARC_HEAD :: nat where "ARC_HEAD = 17"

text \<open>
  The result is \<open>None\<close> for NULL. \<open>malloc\<close> is taken to succeed; \<open>junk\<close> is what its block held before,
  which stays there when the archive ends before its text.
\<close>

definition ExpandBuf :: "(nat \<Rightarrow> u8) \<Rightarrow> arc_compress \<Rightarrow> u8 list option res option" where
  "ExpandBuf junk arc =
     (if \<not> (CT_NONE \<le> compression_type arc \<and> compression_type arc \<le> CT_8_BIT) \<or>
         expanded_size arc \<ge> 0x20000000 then Some (Inr None)
      else if compression_type arc = CT_NONE then
        (if ARC_HEAD + unat (expanded_size arc) \<le> length (arc_bytes arc)
         then Some (Inr (Some (take (unat (expanded_size arc)) (drop ARC_HEAD (arc_bytes arc)))))
         else Some (Inl OutOfBounds))
      else
        Option.bind (ArcCtrlNew (compression_type arc)) (\<lambda>c.
        Option.bind (ArcExpandBuf (c\<lparr>a_src_size := unat (compressed_size arc * 8), a_src_pos := ARC_HEAD * 8,
            a_src_buf := arc_bytes arc, a_dst_size := unat (expanded_size arc), a_dst := []\<rparr>)) (\<lambda>r.
          Some (res_bind r (\<lambda>c.
            Inr (Some (a_dst c @ map junk [length (a_dst c)..<unat (expanded_size arc)])))))))"

text \<open>The characters of TempleOS documents that are not text: 31 is a space, 5 is the cursor.\<close>

definition ascii_step :: "u8 \<Rightarrow> u8 list \<Rightarrow> u8 list" where
  "ascii_step b out = (if b = 31 then out @ [32] else if b \<noteq> 5 then out @ [b] else out)"

definition arc_head :: "u8 list \<Rightarrow> arc_compress" where
  "arc_head file = \<lparr>compressed_size = of_nat (le_val (take 4 file)),
     expanded_size = of_nat (le_val (take 4 (drop 8 file))), compression_type = file ! 16,
     arc_bytes = file\<rparr>"

text \<open>What \<open>Cvt\<close> writes to the new file, if anything; a file shorter than its head is read past its end.\<close>

definition Cvt :: "(nat \<Rightarrow> u8) \<Rightarrow> u8 list option \<Rightarrow> bool \<Rightarrow> u8 list option res option" where
  "Cvt junk file cvt_ascii =
     (case file of
        None \<Rightarrow> Some (Inr None)
      | Some file \<Rightarrow>
          if length file < ARC_HEAD then Some (Inl OutOfBounds)
          else
            let arc = arc_head file
            in if unat (compressed_size arc) = length file \<and> compression_type arc \<noteq> 0 \<and> compression_type arc \<le> 3
               then Option.bind (ExpandBuf junk arc) (\<lambda>r. Some (res_bind r (\<lambda>out_buf. Inr (
                 map_option (\<lambda>out. if cvt_ascii then fold ascii_step out [] else out) out_buf))))
               else Some (Inr None))"
section \<open>Fields of bits\<close>

lemma arc_Bt_bit: "n < 2 ^ 31 \<Longrightarrow> n div 8 < length f \<Longrightarrow> arc_Bt n f = Inr (bit (f ! (n div 8)) (n mod 8))"
  by (simp add: arc_Bt_def bit_iff_and_push_bit_not_eq_0)

lemma field_loop_bits:
  assumes "\<forall>i \<in> set is. pos + i < 2 ^ 31 \<and> (pos + i) div 8 < length src \<and> i < 32"
  shows "\<exists>r'. field_loop src pos is r = Inr r' \<and>
    (\<forall>k. bit r' k \<longleftrightarrow> bit r k \<or> (k \<in> set is \<and> bit (src ! ((pos + k) div 8)) ((pos + k) mod 8)))"
  using assms
proof (induction "is" arbitrary: r)
  case Nil
  then show ?case by simp
next
  case (Cons i "is")
  then have i: "pos + i < 2 ^ 31" "(pos + i) div 8 < length src" "i < 32" by auto
  let ?b = "bit (src ! ((pos + i) div 8)) ((pos + i) mod 8)"
  obtain r' where r': "field_loop src pos is (if ?b then arc_Bts i r else r) = Inr r'"
    "\<forall>k. bit r' k \<longleftrightarrow> bit (if ?b then arc_Bts i r else r) k \<or>
       (k \<in> set is \<and> bit (src ! ((pos + k) div 8)) ((pos + k) mod 8))"
    using Cons.IH [of "if ?b then arc_Bts i r else r"] Cons.prems by auto
  have "bit (arc_Bts i r) k \<longleftrightarrow> bit r k \<or> k = i" for k
    using i(3) by (auto simp: arc_Bts_def bit_or_iff bit_exp_iff)
  with r' i show ?case by (auto simp: arc_Bt_bit)
qed

text \<open>A field of at most 32 bits inside the first 256 megabytes of the buffer holds the bits from its position on.\<close>

lemma BFieldExtDWORD_bits:
  assumes "pos + n \<le> 8 * length src" "n \<le> 32" "pos + n \<le> 2 ^ 31"
  obtains r where "BFieldExtDWORD src pos n = Inr r"
    "\<And>k. bit r k \<longleftrightarrow> k < n \<and> bit (src ! ((pos + k) div 8)) ((pos + k) mod 8)"
proof -
  have "\<forall>i \<in> set [0..<n]. pos + i < 2 ^ 31 \<and> (pos + i) div 8 < length src \<and> i < 32" using assms by auto
  from field_loop_bits [OF this, of 0] show ?thesis
    using that by (auto simp: BFieldExtDWORD_def)
qed

section \<open>What a code stream means\<close>

text \<open>
  The dictionary of the stream, as byte strings: the first \<open>m\<close> codes are bytes, each code read
  after the first one adds the string of the code before it and one byte more. The strings get the
  codes in turn, but 2048 is left out: \<open>ArcEntryGet\<close> skips this entry when it turns to codes of 12 bits.
\<close>

definition slot :: "nat \<Rightarrow> nat" where
  "slot i = (if i < 2048 then i else Suc i)"

definition known :: "nat \<Rightarrow> nat \<Rightarrow> nat \<Rightarrow> bool" where
  "known m n code \<longleftrightarrow> code < m \<or> (\<exists>k < n. code = slot (m + k))"

definition code_string :: "nat \<Rightarrow> u8 list list \<Rightarrow> nat \<Rightarrow> u8 list" where
  "code_string m D code =
     (if code < m then [of_nat code] else D ! ((if code < 2048 then code else code - 1) - m))"

definition code_word :: "nat \<Rightarrow> u8 list list \<Rightarrow> nat \<Rightarrow> nat \<Rightarrow> u8 list" where
  "code_word m D prev c =
     (let p = code_string m D prev in if c = slot (m + length D) then p @ [hd p] else code_string m D c)"

fun lzw :: "nat \<Rightarrow> u8 list list \<Rightarrow> nat \<Rightarrow> nat list \<Rightarrow> u8 list" where
  "lzw m D prev [] = []"
| "lzw m D prev (c # cs) =
     code_word m D prev c @ lzw m (D @ [code_string m D prev @ [hd (code_word m D prev c)]]) c cs"

fun codes_ok :: "nat \<Rightarrow> nat \<Rightarrow> nat list \<Rightarrow> bool" where
  "codes_ok m n [] = True"
| "codes_ok m n (c # cs) = ((known m n c \<or> c = slot (m + n)) \<and> codes_ok m (Suc n) cs)"

text \<open>The width of the code read when \<open>i\<close> codes are taken, and a stream of codes.\<close>

fun bit_len :: "nat \<Rightarrow> nat" where
  "bit_len n = (if n = 0 then 0 else Suc (bit_len (n div 2)))"

declare bit_len.simps [simp del]

definition code_width :: "nat \<Rightarrow> nat" where
  "code_width i = min ARC_MAX_BITS (bit_len (i + 2))"

fun stream_at :: "u8 list \<Rightarrow> nat \<Rightarrow> nat \<Rightarrow> nat \<Rightarrow> nat list \<Rightarrow> bool" where
  "stream_at src sz pos i [] \<longleftrightarrow> pos \<le> sz"
| "stream_at src sz pos i (c # cs) \<longleftrightarrow>
     BFieldExtDWORD src pos (code_width i) = Inr (of_nat c) \<and> stream_at src sz (pos + code_width i) (Suc i) cs"

lemma stream_at_le: "stream_at src sz pos i cs \<Longrightarrow> pos \<le> sz"
  by (induction cs arbitrary: pos i) (auto, meson add_leD1)

lemma bit_len_bounds: "0 < n \<Longrightarrow> 2 ^ (bit_len n - 1) \<le> n \<and> n < 2 ^ bit_len n \<and> 0 < bit_len n"
proof (induction n rule: bit_len.induct)
  case (1 n)
  show ?case
  proof (cases "n = 1")
    case True
    then show ?thesis by (simp add: bit_len.simps [of "Suc 0"] bit_len.simps [of 0])
  next
    case False
    with 1 have IH: "2 ^ (bit_len (n div 2) - 1) \<le> n div 2" "n div 2 < 2 ^ bit_len (n div 2)" "0 < bit_len (n div 2)"
      by auto
    have "bit_len n = Suc (bit_len (n div 2))" using 1 by (subst bit_len.simps) simp
    moreover obtain j where "bit_len (n div 2) = Suc j" using IH(3) gr0_conv_Suc by blast
    ultimately show ?thesis using IH(1,2) by (simp, arith)
  qed
qed

lemma bit_len_unique:
  assumes "2 ^ b \<le> n" "n < 2 ^ Suc b"
  shows "bit_len n = Suc b"
proof -
  have n: "0 < n" using assms(1) by (meson less_le_trans zero_less_numeral zero_less_power)
  from bit_len_bounds [OF n] obtain j where j: "bit_len n = Suc j" "2 ^ j \<le> n" "n < 2 ^ Suc j"
    using gr0_conv_Suc by force
  have "(2 :: nat) ^ b < 2 ^ Suc j" using assms(1) j(3) by (rule le_less_trans)
  moreover have "(2 :: nat) ^ j < 2 ^ Suc b" using j(2) assms(2) by (rule le_less_trans)
  ultimately have "b < Suc j" "j < Suc b" by (simp_all only: power_strict_increasing_iff one_less_numeral_iff semiring_norm)
  with j(1) show ?thesis by simp
qed

lemma code_width_small:
  assumes "i + 2 < 2048"
  obtains b where "code_width i = Suc b" "2 ^ b \<le> i + 2" "i + 2 < 2 ^ Suc b" "Suc b < ARC_MAX_BITS"
proof -
  obtain b where b: "bit_len (i + 2) = Suc b" "2 ^ b \<le> i + 2" "i + 2 < 2 ^ Suc b"
    using bit_len_bounds [of "i + 2"] gr0_conv_Suc by force
  have "(2 :: nat) ^ b < 2 ^ 11" using b(2) assms by simp
  then have "b < 11" by (rule power_less_imp_less_exp [rotated]) simp
  with b show ?thesis by (intro that) (simp_all add: code_width_def ARC_MAX_BITS_def)
qed

lemma code_width_large: "2048 \<le> i + 2 \<Longrightarrow> code_width i = ARC_MAX_BITS"
proof -
  assume i: "2048 \<le> i + 2"
  have "(2 :: nat) ^ 11 < 2 ^ bit_len (i + 2)" using i bit_len_bounds [of "i + 2"] by simp
  then have "11 < bit_len (i + 2)" by (rule power_less_imp_less_exp [rotated]) simp
  then show ?thesis by (simp add: code_width_def ARC_MAX_BITS_def)
qed

lemma code_width_Suc:
  assumes "i + 2 < 2048"
  shows "code_width (Suc i) = (if i + 3 = 2 ^ code_width i then Suc (code_width i) else code_width i)"
proof -
  obtain b where b: "code_width i = Suc b" "2 ^ b \<le> i + 2" "i + 2 < 2 ^ Suc b" "Suc b < ARC_MAX_BITS"
    using code_width_small [OF assms] .
  show ?thesis
  proof (cases "i + 3 = 2 ^ Suc b")
    case True
    then have "bit_len (i + 3) = Suc (Suc b)" by (intro bit_len_unique) simp_all
    then show ?thesis using True b(1,4) by (simp add: code_width_def numeral_3_eq_3)
  next
    case False
    then have "bit_len (i + 3) = Suc b" using b by (intro bit_len_unique) simp_all
    then show ?thesis using False b(1,4) by (simp add: code_width_def numeral_3_eq_3)
  qed
qed

section \<open>The table of entries against the dictionary\<close>

definition tab_ok :: "nat \<Rightarrow> u8 list list \<Rightarrow> (nat \<Rightarrow> arc_entry) \<Rightarrow> bool" where
  "tab_ok m D tab \<longleftrightarrow> (\<forall>k < length D. known m k (unat (basecode (tab (slot (m + k))))) \<and>
     D ! k = code_string m D (unat (basecode (tab (slot (m + k))))) @ [ch (tab (slot (m + k)))])"

lemma slot_less [simp]: "slot i < slot j \<longleftrightarrow> i < j" "slot i = slot j \<longleftrightarrow> i = j"
  by (auto simp: slot_def)

lemma slot_ge: "i \<le> slot i" "slot i \<le> Suc i"
  by (simp_all add: slot_def)

lemma slot_code: "code_string m D (slot (m + k)) = D ! k"
  by (auto simp: code_string_def slot_def)

lemma known_byte: "c < m \<Longrightarrow> known m n c"
  and known_slot: "k < n \<Longrightarrow> known m n (slot (m + k))"
  unfolding known_def by blast+

lemma known_cases:
  assumes "known m n c"
  obtains "c < m" | k where "k < n" "c = slot (m + k)" "m \<le> c"
proof -
  from assms consider "c < m" | k where "k < n" "c = slot (m + k)" unfolding known_def by blast
  then show thesis
  proof cases
    case (2 k)
    moreover have "m \<le> slot (m + k)" using slot_ge(1) [of "m + k"] by (rule add_leD1)
    ultimately show thesis using that(2) by simp
  qed (use that(1) in blast)
qed

lemma known_mono: "known m n c \<Longrightarrow> n \<le> n' \<Longrightarrow> known m n' c"
  by (erule known_cases) (simp_all add: known_byte known_slot)

lemma known_Suc: "known m n c \<or> c = slot (m + n) \<Longrightarrow> known m (Suc n) c"
  using known_mono [of m n c "Suc n"] known_slot [of n "Suc n" m] by auto

lemma known_less: "known m n c \<Longrightarrow> c < slot (m + n)"
  by (erule known_cases) (use slot_ge(1) [of "m + n"] in simp_all)

lemma code_string_small [simp]: "c < m \<Longrightarrow> code_string m D c = [of_nat c]"
  by (simp add: code_string_def)

lemma code_string_append: "known m (length D) c \<Longrightarrow> code_string m (D @ E) c = code_string m D c"
  by (erule known_cases) (simp_all add: slot_code nth_append)

lemma tab_okD:
  assumes "tab_ok m D tab" "k < length D"
  shows "unat (basecode (tab (slot (m + k)))) < slot (m + k)" "known m (length D) (unat (basecode (tab (slot (m + k)))))"
    "D ! k = code_string m D (unat (basecode (tab (slot (m + k))))) @ [ch (tab (slot (m + k)))]"
  using assms known_mono [of m k _ "length D"] known_less by (auto simp: tab_ok_def)

lemma code_string_length:
  assumes "tab_ok m D tab" "known m (length D) c"
  shows "code_string m D c \<noteq> [] \<and> length (code_string m D c) \<le> length D + 2"
proof -
  have "code_string m D c \<noteq> [] \<and> length (code_string m D c) \<le> Suc c - m + 1" if "known m (length D) c" for c
    using that
  proof (induction c rule: less_induct)
    case (less c)
    from less.prems show ?case
    proof (cases rule: known_cases)
      case (2 k)
      note b = tab_okD [OF assms(1) 2(1)]
      have "length (code_string m D (unat (basecode (tab c)))) \<le> Suc (unat (basecode (tab c))) - m + 1"
        using less.IH [of "unat (basecode (tab c))"] b(1,2) 2(2) by simp
      then show ?thesis using b(1,3) 2 slot_code [of m D k] by simp
    qed simp
  qed
  from this [OF assms(2)] known_less [OF assms(2)] slot_ge(2) [of "m + length D"] show ?thesis by auto
qed

lemma push_code_string:
  assumes "tab_ok m D tab" "known m (length D) c" "m \<le> 256" "length stk + length (code_string m D c) \<le> 4097"
  shows "push_code tab m c stk = Inr (unat (hd (code_string m D c)), tl (code_string m D c) @ stk)"
  using assms(2,4)
proof (induction c arbitrary: stk rule: less_induct)
  case (less c)
  from less.prems(1) show ?case
  proof (cases rule: known_cases)
    case 1
    then have "unat (of_nat c :: u8) = c" using assms(3) by (simp add: unat_of_nat)
    with 1 show ?thesis by (subst push_code.simps) simp
  next
    case (2 k)
    let ?b = "unat (basecode (tab c))"
    have b: "?b < c" "known m (length D) ?b" "code_string m D c = code_string m D ?b @ [ch (tab c)]"
      using tab_okD [OF assms(1) 2(1)] slot_code [of m D k] 2(2) by simp_all
    have ne: "code_string m D ?b \<noteq> []" using code_string_length [OF assms(1) b(2)] by simp
    have sp: "length stk < 4096" using less.prems(2) b(3) ne by (cases "code_string m D ?b") auto
    have "push_code tab m ?b (ch (tab c) # stk) =
        Inr (unat (hd (code_string m D ?b)), tl (code_string m D ?b) @ ch (tab c) # stk)"
      using less.IH [OF b(1,2), of "ch (tab c) # stk"] less.prems(2) b(3) by simp
    with 2 sp ne b(3) show ?thesis
      by (subst push_code.simps) (simp add: push_byte_def ARC_MAX_BITS_def)
  qed
qed

text \<open>While codes have less than 12 bits \<open>free_idx\<close> is one ahead of the next entry; then it is the next entry.\<close>

definition arc_rel :: "nat \<Rightarrow> u8 list list \<Rightarrow> nat \<Rightarrow> arc_ctrl \<Rightarrow> bool" where
  "arc_rel m D prev c \<longleftrightarrow> a_min_table_entry c = m \<and> a_cur_entry c = Some (slot (m + length D)) \<and>
     a_next_entry c = Some (slot (m + length D + 1)) \<and>
     a_free_idx c = (if m + length D + 2 \<le> 2048 then m + length D + 2 else slot (m + length D + 1)) \<and>
     a_next_bits_in_use c = code_width (m + length D) \<and> a_free_limit c = 2 ^ code_width (m + length D) \<and>
     \<not> a_entry_used c \<and> a_stk c = [] \<and> tab_ok m D (a_compress c) \<and> known m (length D) prev \<and>
     a_last_ch c = ucast (hd (code_string m D prev)) \<and> (\<forall>j \<ge> slot (m + length D). a_hash c j = [])"

lemma tab_ok_extend:
  assumes t: "tab_ok m D tab" and p: "known m (length D) prev" "m + length D < 65536"
  shows "tab_ok m (D @ [code_string m D prev @ [b]])
    (tab(slot (m + length D) := \<lparr>basecode = of_nat prev, ch = b\<rparr>))"
proof -
  have "prev < 65536" using known_less [OF p(1)] p(2) slot_ge(2) [of "m + length D"] by simp
  then have u: "unat (of_nat prev :: u16) = prev" by (simp add: unat_of_nat)
  show ?thesis
    unfolding tab_ok_def
  proof (intro allI impI)
    fix k assume "k < length (D @ [code_string m D prev @ [b]])"
    then consider "k < length D" | "k = length D" by fastforce
    then show "known m k (unat (basecode ((tab(slot (m + length D) := \<lparr>basecode = of_nat prev, ch = b\<rparr>)) (slot (m + k))))) \<and>
      (D @ [code_string m D prev @ [b]]) ! k = code_string m (D @ [code_string m D prev @ [b]])
        (unat (basecode ((tab(slot (m + length D) := \<lparr>basecode = of_nat prev, ch = b\<rparr>)) (slot (m + k))))) @
        [ch ((tab(slot (m + length D) := \<lparr>basecode = of_nat prev, ch = b\<rparr>)) (slot (m + k)))]"
    proof cases
      case 1
      then show ?thesis
        using t tab_okD(2,3) [OF t 1] by (simp add: tab_ok_def nth_append code_string_append)
    next
      case 2
      then show ?thesis using p u by (simp add: code_string_append)
    qed
  qed
qed

lemma code_word_facts:
  assumes "tab_ok m D tab" "known m (length D) prev" "known m (length D) c \<or> c = slot (m + length D)"
  shows "code_word m D prev c \<noteq> []" "length (code_word m D prev c) \<le> length D + 3"
    "code_string m (D @ [code_string m D prev @ [hd (code_word m D prev c)]]) c = code_word m D prev c"
proof -
  have p: "code_string m D prev \<noteq> []" "length (code_string m D prev) \<le> length D + 2"
    using code_string_length [OF assms(1,2)] by auto
  have ne: "c \<noteq> slot (m + length D)" if "known m (length D) c" using known_less [OF that] by simp
  show "code_word m D prev c \<noteq> []" "length (code_word m D prev c) \<le> length D + 3"
    using p code_string_length [OF assms(1), of c] assms(3) by (auto simp: code_word_def Let_def)
  show "code_string m (D @ [code_string m D prev @ [hd (code_word m D prev c)]]) c = code_word m D prev c"
    using assms(3)
  proof
    assume "c = slot (m + length D)"
    then show ?thesis using p slot_code [of m _ "length D"] by (simp add: code_word_def Let_def)
  qed (use ne in \<open>simp add: code_word_def Let_def code_string_append\<close>)
qed

lemma ucast_up_down: "ucast (ucast (x :: u8) :: u32) = x"
  by (rule bit_word_eqI) (simp add: bit_ucast_iff)

text \<open>The next entry is the next in turn, with codes of less than 12 bits and with codes of 12 bits, until
  the end of the table.\<close>

lemma ArcEntryGet_next:
  assumes c: "a_entry_used c" "a_next_entry c = Some (slot (i + 1))" "a_next_bits_in_use c = code_width i"
      "a_free_idx c = (if i + 2 \<le> 2048 then i + 2 else slot (i + 1))" "a_free_limit c = 2 ^ code_width i"
    and free: "\<forall>j \<ge> slot (i + 1). a_hash c j = []" and room: "i + 3 < 4096"
  obtains H where "ArcEntryGet c = Some (c\<lparr>a_entry_used := False, a_cur_entry := Some (slot (i + 1)),
      a_cur_bits_in_use := code_width i, a_next_entry := Some (slot (i + 2)),
      a_free_idx := (if i + 3 \<le> 2048 then i + 3 else slot (i + 2)), a_next_bits_in_use := code_width (Suc i),
      a_free_limit := 2 ^ code_width (Suc i), a_hash := H\<rparr>)" "\<forall>j \<ge> slot (i + 1). H j = []"
proof (cases "i + 2 < 2048")
  case True
  obtain b where "code_width i = Suc b" "Suc b < ARC_MAX_BITS" using code_width_small [OF True] by blast
  then have w: "code_width i < ARC_MAX_BITS" by simp
  have "slot (i + 2) = i + 2" using True by (simp add: slot_def)
  then have "ArcEntryGet c = Some (c\<lparr>a_entry_used := False, a_cur_entry := Some (slot (i + 1)),
      a_cur_bits_in_use := code_width i, a_next_entry := Some (slot (i + 2)),
      a_free_idx := (if i + 3 \<le> 2048 then i + 3 else slot (i + 2)), a_next_bits_in_use := code_width (Suc i),
      a_free_limit := 2 ^ code_width (Suc i), a_hash := a_hash c\<rparr>)"
    using c True w code_width_Suc [OF True]
    by (simp add: ArcEntryGet_def Let_def numeral_3_eq_3)
  then show thesis using that free by blast
next
  case False
  then have w: "code_width i = ARC_MAX_BITS" "code_width (Suc i) = ARC_MAX_BITS" by (simp_all add: code_width_large)
  have fi: "Suc (a_free_idx c) = slot (i + 2)" using False c(4) by (auto simp: slot_def)
  have lim: "slot (i + 2) < a_free_limit c" using False room c(5) w(1) by (simp add: slot_def ARC_MAX_BITS_def)
  have "a_hash c (slot (i + 2)) = []" using free by (simp add: less_imp_le)
  then have "free_entry c = Some (slot (i + 2))"
    unfolding free_entry_def fi upt_conv_Cons [OF lim] by simp
  moreover define H where
    "H = (a_hash c)(unat (basecode (a_compress c (slot (i + 2)))) :=
       remove1 (slot (i + 2)) (a_hash c (unat (basecode (a_compress c (slot (i + 2)))))))"
  moreover have "free_entry (c\<lparr>a_entry_used := False, a_cur_entry := x, a_cur_bits_in_use := y\<rparr>) = free_entry c" for x y
    by (simp add: free_entry_def)
  ultimately have "ArcEntryGet c = Some (c\<lparr>a_entry_used := False, a_cur_entry := Some (slot (i + 1)),
      a_cur_bits_in_use := code_width i, a_next_entry := Some (slot (i + 2)), a_free_idx := slot (i + 2), a_hash := H\<rparr>)"
    using c(1-3) w(1) by (simp add: ArcEntryGet_def Let_def)
  moreover have "(if i + 3 \<le> 2048 then i + 3 else slot (i + 2)) = slot (i + 2)" using False by (simp add: slot_def)
  moreover have "\<forall>j \<ge> slot (i + 1). H j = []" using free by (auto simp: H_def)
  ultimately show thesis using that [of H] c(3,5) w by simp
qed

text \<open>One turn of the loop puts out the string of the code and makes the dictionary's next entry.\<close>

lemma expand_code_step:
  assumes rel: "arc_rel m D prev c" and m: "128 \<le> m" "m \<le> 256" "m + length D + 3 < 4096"
    and code: "known m (length D) code \<or> code = slot (m + length D)"
    and src: "BFieldExtDWORD (a_src_buf c) (a_src_pos c) (code_width (m + length D)) = Inr (of_nat code)"
    and small: "a_src_pos c + code_width (m + length D) < 2 ^ 32"
    and room: "length (a_dst c) + length (code_word m D prev code) \<le> a_dst_size c"
  obtains c' where "expand_code prev c = Some (Inr (code, c'))"
    "arc_rel m (D @ [code_string m D prev @ [hd (code_word m D prev code)]]) code c'"
    "a_dst c' = a_dst c @ code_word m D prev code" "a_dst_size c' = a_dst_size c"
    "a_src_buf c' = a_src_buf c" "a_src_size c' = a_src_size c"
    "a_src_pos c' = a_src_pos c + code_width (m + length D)"
proof -
  let ?p = "code_string m D prev" and ?w = "code_word m D prev code"
  note r = rel [unfolded arc_rel_def]
  have t: "tab_ok m D (a_compress c)" and pv: "known m (length D) prev" using r by auto
  note w = code_word_facts [OF t pv code]
  have len: "length D + 3 \<le> 4096" using m by simp
  have pne: "?p \<noteq> []" "length ?p \<le> length D + 2" using code_string_length [OF t pv] by auto
  have "code < 4096" using code m slot_ge(2) [of "m + length D"] known_less [of m "length D" code] by auto
  then have uc: "unat (of_nat code :: u32) = code" by (simp add: unat_of_nat)
  let ?cs = "c\<lparr>a_src_pos := a_src_pos c + code_width (m + length D)\<rparr>"
  have top: "push_byte (of_nat (unat (hd ?w))) (tl ?w) = Inr ?w"
    using w(1,2) len by (simp add: push_byte_def ARC_MAX_BITS_def)
  have pushed: "push_string prev code ?cs = Inr (unat (hd ?w), ?w)"
  proof (cases "code = slot (m + length D)")
    case True
    have "ucast (a_last_ch c) = hd ?p"
      using r by (simp add: ucast_up_down)
    moreover have "push_code (a_compress c) m prev [hd ?p] = Inr (unat (hd ?p), tl ?p @ [hd ?p])"
      by (rule push_code_string [OF t pv m(2)]) (use pne len in simp)
    moreover have "?w = ?p @ [hd ?p]" using True by (simp add: code_word_def Let_def)
    ultimately show ?thesis
      using True r pne(1) top by (simp add: push_string_def push_byte_def [of "hd ?p" "[]"] ARC_MAX_BITS_def)
  next
    case False
    then have c: "known m (length D) code" using code by simp
    have "push_code (a_compress c) m code [] = Inr (unat (hd (code_string m D code)), tl (code_string m D code) @ [])"
      by (rule push_code_string [OF t c m(2)]) (use code_string_length [OF t c] len in simp)
    moreover have "?w = code_string m D code" using False by (simp add: code_word_def Let_def)
    ultimately show ?thesis using False r top by (simp add: push_string_def)
  qed
  let ?c1 = "fill_entry (slot (m + length D)) prev (unat (hd ?w)) ?w ?cs"
  have ph: "a_hash ?c1 j = []" if "slot (m + length D + 1) \<le> j" for j
  proof -
    have "slot (m + length D) < slot (m + length D + 1)" by simp
    then have "slot (m + length D) \<le> j" "j \<noteq> prev" using that known_less [OF pv] by linarith+
    moreover have "\<forall>j \<ge> slot (m + length D). a_hash c j = []" using r by blast
    ultimately show ?thesis by (simp add: fill_entry_def)
  qed
  obtain H where get: "ArcEntryGet ?c1 = Some (?c1\<lparr>a_entry_used := False, a_cur_entry := Some (slot (m + length D + 1)),
      a_cur_bits_in_use := code_width (m + length D), a_next_entry := Some (slot (m + length D + 2)),
      a_free_idx := (if m + length D + 3 \<le> 2048 then m + length D + 3 else slot (m + length D + 2)),
      a_next_bits_in_use := code_width (Suc (m + length D)),
      a_free_limit := 2 ^ code_width (Suc (m + length D)), a_hash := H\<rparr>)" (is "_ = Some ?c2")
    and H: "\<forall>j \<ge> slot (m + length D + 1). H j = []"
    by (rule ArcEntryGet_next [of ?c1 "m + length D"]) (use r ph m(3) in \<open>simp_all add: fill_entry_def\<close>)
  from get have step: "expand_code prev c = Some (Inr (code, flush_stack ?c2))"
    using r src uc small pushed by (simp add: expand_code_def read_code_def)
  have fl: "flush_stack ?c2 = ?c2\<lparr>a_dst := a_dst c @ ?w, a_stk := []\<rparr>"
    using room by (simp add: flush_stack_def fill_entry_def Let_def)
  show ?thesis
  proof (rule that [OF step])
    have "tab_ok m (D @ [?p @ [hd ?w]]) ((a_compress c)(slot (m + length D) := \<lparr>basecode = of_nat prev, ch = hd ?w\<rparr>))"
      by (rule tab_ok_extend [OF t pv]) (use m in simp)
    moreover have "known m (Suc (length D)) code"
      using code by (rule known_Suc)
    ultimately show "arc_rel m (D @ [?p @ [hd ?w]]) code (flush_stack ?c2)"
      unfolding fl arc_rel_def using r H w(3) by (simp add: fill_entry_def numeral_3_eq_3)
  qed (simp_all only: fl, simp_all add: fill_entry_def)
qed
section \<open>The whole stream\<close>

lemma expand_loop_stream:
  assumes "arc_rel m D prev c" "128 \<le> m \<and> m \<le> 256" "m + length D + length cs + 2 < 4096" "codes_ok m (length D) cs"
    and "stream_at (a_src_buf c) (a_src_size c) (a_src_pos c) (m + length D) cs"
    and "a_dst_size c = length (a_dst c) + length (lzw m D prev cs)"
    and "a_src_size c < 2 ^ 32"
  shows "\<exists>prev' c'. expand_loop prev c = Some (Inr (prev', c')) \<and> a_dst c' = a_dst c @ lzw m D prev cs"
  using assms
proof (induction cs arbitrary: D prev c)
  case Nil
  then show ?case by (subst expand_loop.simps) simp
next
  case (Cons code cs)
  let ?w = "code_word m D prev code"
  let ?D = "D @ [code_string m D prev @ [hd ?w]]"
  have t: "tab_ok m D (a_compress c)" "known m (length D) prev" "a_next_bits_in_use c = code_width (m + length D)"
    using Cons.prems(1) by (auto simp: arc_rel_def)
  have ok: "known m (length D) code \<or> code = slot (m + length D)" "codes_ok m (Suc (length D)) cs" using Cons.prems(4) by auto
  have src: "BFieldExtDWORD (a_src_buf c) (a_src_pos c) (code_width (m + length D)) = Inr (of_nat code)"
    "stream_at (a_src_buf c) (a_src_size c) (a_src_pos c + code_width (m + length D)) (Suc (m + length D)) cs"
    using Cons.prems(5) by auto
  have ne: "?w \<noteq> []" using code_word_facts(1) [OF t(1,2) ok(1)] .
  obtain c1 where c1: "expand_code prev c = Some (Inr (code, c1))" "arc_rel m ?D code c1"
    "a_dst c1 = a_dst c @ ?w" "a_dst_size c1 = a_dst_size c" "a_src_buf c1 = a_src_buf c"
    "a_src_size c1 = a_src_size c" "a_src_pos c1 = a_src_pos c + code_width (m + length D)"
    by (rule expand_code_step [OF Cons.prems(1) _ _ _ ok(1) src(1)]) (use Cons.prems(2,3,6,7) stream_at_le [OF src(2)] in auto)
  have "\<exists>prev' c'. expand_loop code c1 = Some (Inr (prev', c')) \<and> a_dst c' = a_dst c1 @ lzw m ?D code cs"
    by (rule Cons.IH [OF c1(2)]) (use Cons.prems(2,3,6,7) ok(2) src(2) c1 in auto)
  moreover have "length (a_dst c) < a_dst_size c"
    using Cons.prems(6) ne by simp
  moreover have "(a_src_pos c + a_next_bits_in_use c) mod 2 ^ 32 \<le> a_src_size c"
    using stream_at_le [OF src(2)] t(3) Cons.prems(7) by simp
  ultimately show ?case
    using c1(1,3) by (subst expand_loop.simps) auto
qed

text \<open>The text a stream of codes stands for; its first code is a byte.\<close>

fun lzw_text :: "nat \<Rightarrow> nat list \<Rightarrow> u8 list" where
  "lzw_text m [] = []"
| "lzw_text m (c # cs) = of_nat c # lzw m [] c cs"

definition arc_min :: "u8 \<Rightarrow> nat" where
  "arc_min t = (if t = CT_7_BIT then 128 else 256)"

text \<open>C28: a compressed file of 7 or 8 bits is expanded, without running out of its buffers and in finite time, to
  exactly the text that its stream of codes stands for: for every stream of codes of growing width, up to 12 bits, in which
  each code is a byte, a string of the dictionary or the string about to enter it, whose text has the length that the
  head of the file gives (below 512 MB), as long as \<open>ArcEntryGet\<close> has not come to the end of its table of 4096 entries
  (\<open>m\<close> bytes and at most 4093 - \<open>m\<close> codes after the first): what it does when it uses entries again is not stated.\<close>
theorem ExpandBuf_expands:
  assumes t: "compression_type arc = CT_7_BIT \<or> compression_type arc = CT_8_BIT"
    and m: "m = arc_min (compression_type arc)"
    and codes: "c < m" "codes_ok m 0 cs" "m + length cs + 2 < 4096"
    and src: "stream_at (arc_bytes arc) (unat (compressed_size arc * 8)) (ARC_HEAD * 8) (m - 1) (c # cs)"
    and sz: "unat (expanded_size arc) = length (lzw_text m (c # cs))" "expanded_size arc < 0x20000000"
  shows "ExpandBuf junk arc = Some (Inr (Some (lzw_text m (c # cs))))"
proof -
  define k :: nat where "k = (if compression_type arc = CT_7_BIT then 7 else 8)"
  have mk: "m = 2 ^ k" "k \<le> 8" "7 \<le> k" by (auto simp: m k_def arc_min_def)
  have mb: "128 \<le> m" "m \<le> 256" by (auto simp: m arc_min_def)
  have w: "code_width (m - 1) = Suc k" "code_width m = Suc k"
  proof -
    have "bit_len (m - 1 + 2) = Suc k" "bit_len (m + 2) = Suc k" using mk mb by (auto intro!: bit_len_unique)
    then show "code_width (m - 1) = Suc k" "code_width m = Suc k" using mk(2) by (simp_all add: code_width_def ARC_MAX_BITS_def)
  qed
  have lim: "2 ^ k + 1 \<noteq> (2 ^ Suc k :: nat)" "2 ^ k + 2 \<noteq> (2 ^ Suc k :: nat)"
    using mk mb by (auto)
  obtain c0 where c0: "ArcCtrlNew (compression_type arc) = Some c0" "a_min_table_entry c0 = m"
    "a_cur_entry c0 = None" "a_next_entry c0 = Some m" "a_next_bits_in_use c0 = Suc k" "a_stk c0 = []"
    "a_free_idx c0 = Suc m" "a_free_limit c0 = 2 ^ Suc k" "a_saved_basecode c0 = 0xFFFFFFFF" "a_entry_used c0"
    "a_hash c0 = (\<lambda>_. [])"
    using mk lim by (simp add: ArcCtrlNew_def ArcEntryGet_def ARC_MAX_BITS_def Let_def k_def [symmetric])
  let ?c = "c0\<lparr>a_src_size := unat (compressed_size arc * 8), a_src_pos := ARC_HEAD * 8,
      a_src_buf := arc_bytes arc, a_dst_size := unat (expanded_size arc), a_dst := []\<rparr>"
  let ?c1 = "?c\<lparr>a_src_pos := ARC_HEAD * 8 + Suc k, a_dst := [of_nat c], a_entry_used := False,
      a_cur_entry := Some m, a_cur_bits_in_use := Suc k, a_next_entry := Some (Suc m),
      a_free_idx := Suc (Suc m), a_last_ch := of_nat c\<rparr>"
  have u: "unat (of_nat c :: u32) = c" using codes(1) mb by (simp add: unat_of_nat)
  have rd: "read_code ?c = Inr (c, ?c\<lparr>a_src_pos := ARC_HEAD * 8 + Suc k\<rparr>)"
    using src c0(5) w(1) u mk by (simp add: read_code_def ARC_HEAD_def)
  have first: "first_code ?c = Some (Inr (c, ?c1))"
    unfolding first_code_def using rd c0 mk lim by (simp add: ArcEntryGet_def ARC_MAX_BITS_def Let_def)
  have "(of_nat c :: u32) = ucast (of_nat c :: u8)"
    using codes(1) mb by (simp add: word_unat_eq_iff unsigned_ucast_eq unsigned_of_nat take_bit_nat_eq_self)
  then have "arc_rel m [] c ?c1"
    using c0 codes(1) w(2) mb by (simp add: arc_rel_def tab_ok_def known_byte slot_def)
  then obtain prev' c' where c': "expand_loop c ?c1 = Some (Inr (prev', c'))" "a_dst c' = [of_nat c] @ lzw m [] c cs"
    using expand_loop_stream [of m "[]" c ?c1 cs] codes mb src sz(1) w(1)
      unsigned_less [of "compressed_size arc * 8", where 'a = nat] by auto
  have "flush_stack ?c = ?c" using c0(6) by (simp add: flush_stack_def Let_def)
  then have "ArcExpandBuf ?c = Some (Inr (c'\<lparr>a_saved_basecode := of_nat prev'\<rparr>))"
    using first c'(1) c0(6) sz(1) by (simp add: ArcExpandBuf_def)
  then show ?thesis
    using t sz c0(1) c'(2) by (auto simp: ExpandBuf_def CT_NONE_def CT_7_BIT_def CT_8_BIT_def)
qed

text \<open>The text of three letters a, as the codes 97 and 256 of nine bits.\<close>

definition aaa_file :: "u8 list" where
  "aaa_file = [20, 0, 0, 0, 0, 0, 0, 0, 3, 0, 0, 0, 0, 0, 0, 0, 3, 0x61, 0, 2]"

theorem ExpandBuf_expands_witness:
  "ExpandBuf (\<lambda>_. 0xCD) (arc_head aaa_file) = Some (Inr (Some [0x61, 0x61, 0x61]))"
proof -
  have h: "compression_type (arc_head aaa_file) = CT_8_BIT" "compressed_size (arc_head aaa_file) = 20"
    "expanded_size (arc_head aaa_file) = 3" "arc_bytes (arc_head aaa_file) = aaa_file"
    by (simp_all add: arc_head_def aaa_file_def CT_8_BIT_def)
  have m: "arc_min CT_8_BIT = 256" by (simp add: arc_min_def CT_7_BIT_def CT_8_BIT_def)
  have words: "lzw_text 256 [97, 256] = [0x61, 0x61, 0x61]" by (simp add: code_word_def slot_def)
  have w: "code_width 255 = 9" "code_width 256 = 9"
    by (simp_all add: code_width_def ARC_MAX_BITS_def bit_len_unique [of 8])
  have f: "BFieldExtDWORD aaa_file 136 9 = Inr 97" "BFieldExtDWORD aaa_file 145 9 = Inr 256"
    by (simp_all add: BFieldExtDWORD_def upt_rec arc_Bt_def arc_Bts_def aaa_file_def)
  have "ExpandBuf (\<lambda>_. 0xCD) (arc_head aaa_file) = Some (Inr (Some (lzw_text 256 (97 # [256]))))"
    by (rule ExpandBuf_expands) (simp_all add: h m words w f ARC_HEAD_def slot_def del: lzw_text.simps)
  then show ?thesis by (simp only: words)
qed

text \<open>What \<open>Cvt\<close> writes for text: the cursor mark is dropped and 31 becomes a space.\<close>

lemma ascii_step_fold:
  "fold ascii_step bs out = out @ map (\<lambda>b. if b = 31 then 32 else b) (filter (\<lambda>b. b \<noteq> 5) bs)"
  by (induction bs arbitrary: out) (auto simp: ascii_step_def)

text \<open>A file whose length is not the one in its head, or that is not an archive, is not converted.\<close>

lemma Cvt_refuses:
  assumes "ARC_HEAD \<le> length f" "unat (compressed_size (arc_head f)) \<noteq> length f \<or>
    compression_type (arc_head f) = 0 \<or> 3 < compression_type (arc_head f)"
  shows "Cvt junk (Some f) ascii = Some (Inr None)"
  using assms by (auto simp: Cvt_def Let_def not_less)

end
