(* ===== verification/Pictures.thy ===== *)
theory Pictures
  imports Archive
begin

text \<open>
  The pictures of TempleOS in the tool for other systems (\<open>UserSpaceTemple/Downloads/Linux/TOSZ.CPP\<close>): loading a
  device context from a movie file, copying one onto another, and the conversion to a run-length encoded bitmap.
  A bitmap that is read back by the rules of its format has the pixels of the picture, a picture that is copied is seen
  at its place and nowhere else, and loading gives what was saved.
\<close>

unbundle bit_operations_syntax

section \<open>Pictures\<close>

definition COLORS :: nat where "COLORS = 16"
definition DCF_COMPRESSED :: u32 where "DCF_COMPRESSED = 1"
definition DCF_PALETTE :: u32 where "DCF_PALETTE = 2"

record bgr48 =
  c_b :: u16
  c_g :: u16
  c_r :: u16
  c_pad :: u16

definition gr_palette_std :: "bgr48 list" where
  "gr_palette_std = map (\<lambda>(b, g, r). \<lparr>c_b = b, c_g = g, c_r = r, c_pad = 0\<rparr>)
    [(0x0000,0x0000,0x0000), (0xAAAA,0x0000,0x0000),
     (0x0000,0xAAAA,0x0000), (0xAAAA,0xAAAA,0x0000),
     (0x0000,0x0000,0xAAAA), (0xAAAA,0x0000,0xAAAA),
     (0x0000,0x5555,0xAAAA), (0xAAAA,0xAAAA,0xAAAA),
     (0x5555,0x5555,0x5555), (0xFFFF,0x5555,0x5555),
     (0x5555,0xFFFF,0x5555), (0xFFFF,0xFFFF,0x5555),
     (0x5555,0x5555,0xFFFF), (0xFFFF,0x5555,0xFFFF),
     (0x5555,0xFFFF,0xFFFF), (0xFFFF,0xFFFF,0xFFFF)]"

text \<open>A \<open>CDC\<close> of the tool; \<open>None\<close> is a body that is NULL.\<close>

record picture =
  p_cdt :: int
  p_x0 :: int
  p_y0 :: int
  p_width :: int
  p_width_internal :: int
  p_height :: int
  p_flags :: u32
  p_palette :: "bgr48 list"
  p_body :: "u8 list option"

definition body_size :: "int \<Rightarrow> int \<Rightarrow> nat" where
  "body_size width_internal height = unat (of_int (i32 (width_internal * height)) :: u32)"

text \<open>A new picture; all its memory is zeroed.\<close>

definition DCNew :: "u32 \<Rightarrow> u32 \<Rightarrow> picture" where
  "DCNew width height =
     (let wi = sint ((width + 7) AND NOT 7); h = sint height
      in \<lparr>p_cdt = 0, p_x0 = 0, p_y0 = 0, p_width = sint width, p_width_internal = wi, p_height = h,
          p_flags = 0, p_palette = replicate COLORS \<lparr>c_b = 0, c_g = 0, c_r = 0, c_pad = 0\<rparr>,
          p_body = Some (replicate (body_size wi h) 0)\<rparr>)"

section \<open>Reading a picture\<close>

definition le16 :: "u8 list \<Rightarrow> nat \<Rightarrow> u16" where
  "le16 bs n = of_nat (le_val (take 2 (drop n bs)))"

definition le32 :: "u8 list \<Rightarrow> nat \<Rightarrow> u32" where
  "le32 bs n = of_nat (le_val (take 4 (drop n bs)))"

definition le64 :: "u8 list \<Rightarrow> nat \<Rightarrow> u64" where
  "le64 bs n = of_nat (le_val (take 8 (drop n bs)))"

definition read_palette :: "u8 list \<Rightarrow> bgr48 list" where
  "read_palette bs = map (\<lambda>i. \<lparr>c_b = le16 bs (8 * i), c_g = le16 bs (8 * i + 2),
     c_r = le16 bs (8 * i + 4), c_pad = le16 bs (8 * i + 6)\<rparr>) [0..<COLORS]"

text \<open>\<open>sizeof(CDC)-sizeof(BYTE *)-COLORS_NUM*sizeof(CBGR48)\<close>, and the size of a palette.\<close>

definition DC_HEAD :: nat where "DC_HEAD = 32"
definition PALETTE_SIZE :: nat where "PALETTE_SIZE = COLORS * 8"

definition dc_head :: "u8 list \<Rightarrow> picture" where
  "dc_head src = \<lparr>p_cdt = sint (le64 src 0), p_x0 = sint (le32 src 8), p_y0 = sint (le32 src 12),
     p_width = sint (le32 src 16), p_width_internal = sint (le32 src 20),
     p_height = sint (le32 src 24), p_flags = le32 src 28, p_palette = gr_palette_std, p_body = None\<rparr>"

text \<open>
  \<open>src\<close> are the bytes from the pointer to the end of its block. The result is the picture and the number of
  bytes it took; \<open>malloc\<close> is taken to succeed.
\<close>

definition DCLoad :: "(nat \<Rightarrow> u8) \<Rightarrow> u8 list \<Rightarrow> (picture \<times> u32) res option" where
  "DCLoad junk src =
     (if length src < DC_HEAD then Some (Inl OutOfBounds)
      else
        let res = dc_head src;
            palette = (p_flags res AND DCF_PALETTE \<noteq> 0);
            ptr = (if palette then DC_HEAD + PALETTE_SIZE else DC_HEAD);
            res = (if palette then res\<lparr>p_palette := read_palette (drop DC_HEAD src)\<rparr> else res);
            size = body_size (p_width_internal res) (p_height res)
        in if length src < ptr then Some (Inl OutOfBounds)
           else if p_flags res AND DCF_COMPRESSED \<noteq> 0 then
             (if length src < ptr + ARC_HEAD then Some (Inl OutOfBounds)
              else
                let arc = arc_head (drop ptr src)
                in map_option (\<lambda>r. res_bind r (\<lambda>body. Inr
                     (res\<lparr>p_flags := p_flags res AND NOT DCF_COMPRESSED, p_body := body\<rparr>,
                      of_nat (ptr + unat (compressed_size arc))))) (ExpandBuf junk arc))
           else if length src < ptr + size then Some (Inl OutOfBounds)
           else Some (Inr (res\<lparr>p_body := Some (take size (drop ptr src))\<rparr>, of_nat (ptr + size))))"

section \<open>Copying a picture into another one\<close>

definition mem_copy :: "u8 list option \<Rightarrow> int \<Rightarrow> u8 list option \<Rightarrow> int \<Rightarrow> nat \<Rightarrow> u8 list option res" where
  "mem_copy dst i src j n =
     (case (dst, src) of
        (Some d, Some s) \<Rightarrow>
          if 0 \<le> i \<and> nat i + n \<le> length d \<and> 0 \<le> j \<and> nat j + n \<le> length s
          then Inr (Some (take (nat i) d @ take n (drop (nat j) s) @ drop (nat i + n) d))
          else Inl OutOfBounds
      | _ \<Rightarrow> Inl NullDeref)"

text \<open>The loop of \<open>GrBlot\<close>: the number of rows that are left, the offsets \<open>k\<close> and \<open>k1\<close> and the body
  that is written.\<close>

fun blot_rows :: "picture \<Rightarrow> int \<Rightarrow> nat \<Rightarrow> nat \<Rightarrow> int \<Rightarrow> int \<Rightarrow> u8 list option \<Rightarrow> u8 list option res" where
  "blot_rows img dw n 0 k k1 body = Inr body"
| "blot_rows img dw n (Suc r) k k1 body =
     res_bind (mem_copy body k1 (p_body img) k n) (\<lambda>body.
       blot_rows img dw n r (i32 (k + p_width_internal img)) (i32 (k1 + dw)) body)"

definition GrBlot :: "picture \<Rightarrow> int \<Rightarrow> int \<Rightarrow> picture \<Rightarrow> (bool \<times> picture) res" where
  "GrBlot dc x y img =
     (let w1 = (if x < 0 then i32 (- x) else 0);
          h1 = (if y < 0 then i32 (- y) else 0);
          w2 = (if i32 (x + p_width img) > p_width dc then i32 (p_width dc - x) else p_width img);
          h2 = (if i32 (y + p_height img) > p_height dc then i32 (p_height dc - y) else p_height img)
      in if w1 < w2 \<and> w2 \<le> p_width img \<and> h1 < h2 \<and> h2 \<le> p_height img then
           let k = i32 (h1 * p_width_internal img + w1);
               k1 = i32 (i32 ((h1 + y) * p_width_internal dc) + x + w1)
           in res_bind (blot_rows img (p_width_internal dc) (nat (w2 - w1)) (nat (h2 - h1)) k k1 (p_body dc))
                (\<lambda>body. Inr (True, dc\<lparr>p_body := body\<rparr>))
         else Inr (False, dc))"

section \<open>Run-length encoded bitmaps\<close>

definition BMP_COLORS_NUM :: nat where "BMP_COLORS_NUM = 16"
definition BYTE_MAX :: nat where "BYTE_MAX = 255"

text \<open>\<open>sizeof(CFileBMP)\<close>, without padding.\<close>

definition BMP_SIZE :: nat where "BMP_SIZE = 54 + BMP_COLORS_NUM * 4"

text \<open>The fields that the code does not set are 0: \<open>reserved\<close>, the resolution and the counts of colours.\<close>

record bmp_file =
  bmp_type :: u16
  bmp_file_size :: u32
  bmp_data_offset :: u32
  bmp_header_size :: u32
  bmp_width :: u32
  bmp_height :: u32
  bmp_planes :: u16
  bmp_bit_cnt :: u16
  bmp_compression :: u32
  bmp_image_size :: u32
  bmp_palette :: "(u8 \<times> u8 \<times> u8) list"
  bmp_data :: "u8 list"

definition rd :: "u8 list \<Rightarrow> int \<Rightarrow> u8 res" where
  "rd b i = (if 0 \<le> i \<and> nat i < length b then Inr (b ! nat i) else Inl OutOfBounds)"

text \<open>The inner loop takes pixels of the same colour; \<open>n\<close> is how many there can be at most, which is
  what the two conditions of the loop leave.\<close>

fun rle_run :: "u8 list \<Rightarrow> u8 \<Rightarrow> int \<Rightarrow> nat \<Rightarrow> nat res" where
  "rle_run b pattern src 0 = Inr 0"
| "rle_run b pattern src (Suc n) =
     res_bind (rd b src) (\<lambda>v.
       if v AND 15 = pattern AND 15 then res_bind (rle_run b pattern (src + 1) n) (\<lambda>k. Inr (k + 1))
       else Inr 0)"

definition pattern_of :: "u8 \<Rightarrow> u8 \<Rightarrow> u8" where
  "pattern_of v w = push_bit 4 (v AND 15) + (w AND 15)"

text \<open>One row: \<open>n\<close> pixels are left of it and \<open>src\<close> points to the first of them.\<close>

function rle_row :: "u8 list \<Rightarrow> int \<Rightarrow> nat \<Rightarrow> u8 list \<Rightarrow> u8 list res" where
  "rle_row b src n out =
     (if n = 0 then Inr (out @ [0, 0])
      else case (rd b src, rd b (src + 1)) of
        (Inr v, Inr w) \<Rightarrow>
          let pattern = pattern_of v w
          in if 1 < n \<and> v AND 15 = w AND 15 then
               (case rle_run b pattern (src + 2) (min (n - 2) (BYTE_MAX - 2)) of
                  Inl e \<Rightarrow> Inl e
                | Inr k \<Rightarrow> rle_row b (src + 2 + int k) (n - (2 + k)) (out @ [of_nat (2 + k), pattern]))
             else rle_row b (src + 2) (n - 2) (out @ [if 1 < n then 2 else 1, pattern])
      | _ \<Rightarrow> Inl OutOfBounds)"
  by pat_completeness auto
termination
  by (relation "measure (\<lambda>(b, src, n, out). n)") auto

declare rle_row.simps [simp del]

text \<open>The rows from the last one to the first one; a row of a negative width has no pixels.\<close>

fun rle_rows :: "u8 list \<Rightarrow> int \<Rightarrow> int \<Rightarrow> nat \<Rightarrow> u8 list \<Rightarrow> u8 list res" where
  "rle_rows b wi w 0 out = Inr out"
| "rle_rows b wi w (Suc y) out = res_bind (rle_row b (i32 (int y * wi)) (nat w) out) (rle_rows b wi w y)"

definition bmp_colour :: "bgr48 \<Rightarrow> u8 \<times> u8 \<times> u8" where
  "bmp_colour c = (ucast (drop_bit 8 (c_b c)), ucast (drop_bit 8 (c_g c)), ucast (drop_bit 8 (c_r c)))"

text \<open>A body that is NULL has no bytes to read.\<close>

definition BMPRLE4To :: "picture \<Rightarrow> bmp_file res" where
  "BMPRLE4To dc =
     res_bind (rle_rows (case p_body dc of None \<Rightarrow> [] | Some b \<Rightarrow> b) (p_width_internal dc) (p_width dc)
         (nat (p_height dc)) [])
       (\<lambda>data. Inr \<lparr>bmp_type = 0x4D42, bmp_file_size = of_nat (BMP_SIZE + length data),
          bmp_data_offset = of_nat BMP_SIZE, bmp_header_size = of_nat (BMP_SIZE - BMP_COLORS_NUM * 4 - 14),
          bmp_width = of_int (p_width dc), bmp_height = of_int (p_height dc), bmp_planes = 1,
          bmp_bit_cnt = 4, bmp_compression = 2, bmp_image_size = of_nat (length data),
          bmp_palette = map bmp_colour gr_palette_std, bmp_data = data\<rparr>)"

text \<open>What \<open>BMPWrite\<close> writes: the struct, packed, and the data behind it.\<close>

definition bmp_bytes :: "bmp_file \<Rightarrow> u8 list" where
  "bmp_bytes f =
     take (unat (bmp_file_size f))
      (le_bytes 2 (unat (bmp_type f)) @ le_bytes 4 (unat (bmp_file_size f)) @ le_bytes 4 0 @
       le_bytes 4 (unat (bmp_data_offset f)) @ le_bytes 4 (unat (bmp_header_size f)) @
       le_bytes 4 (unat (bmp_width f)) @ le_bytes 4 (unat (bmp_height f)) @ le_bytes 2 (unat (bmp_planes f)) @
       le_bytes 2 (unat (bmp_bit_cnt f)) @ le_bytes 4 (unat (bmp_compression f)) @
       le_bytes 4 (unat (bmp_image_size f)) @ replicate 16 0 @
       concat (map (\<lambda>(b, g, r). [b, g, r, 0]) (bmp_palette f)) @ bmp_data f)"

definition BMPWrite :: "picture \<Rightarrow> u8 list res" where
  "BMPWrite dc = res_bind (BMPRLE4To dc) (\<lambda>bmp. Inr (bmp_bytes bmp))"

section \<open>Reading a bitmap back\<close>

text \<open>
  Runs of the BMP format: a count, not 0, and two colours that alternate; two zeros end a row. The reference reads
  one row, then a number of rows.
\<close>

definition run_pixels :: "u8 \<Rightarrow> u8 \<Rightarrow> u8 list" where
  "run_pixels c p = map (\<lambda>i. if even i then drop_bit 4 p else p AND 15) [0..<unat c]"

fun rle4_row :: "u8 list \<Rightarrow> (u8 list \<times> u8 list) option" where
  "rle4_row (c # p # bs) =
     (if c \<noteq> 0 then map_option (\<lambda>(row, bs). (run_pixels c p @ row, bs)) (rle4_row bs)
      else if p = 0 then Some ([], bs) else None)"
| "rle4_row _ = None"

fun rle4_rows :: "nat \<Rightarrow> u8 list \<Rightarrow> u8 list list option" where
  "rle4_rows 0 bs = (if bs = [] then Some [] else None)"
| "rle4_rows (Suc h) bs = (case rle4_row bs of None \<Rightarrow> None | Some (row, bs) \<Rightarrow> map_option (\<lambda>rows. row # rows) (rle4_rows h bs))"

lemma rle_run_same:
  "s + n \<le> length b \<Longrightarrow>
   \<exists>k \<le> n. rle_run b p (int s) n = Inr k \<and> (\<forall>i < k. b ! (s + i) AND 15 = p AND 15)"
proof (induction n arbitrary: s)
  case 0
  show ?case by simp
next
  case (Suc n)
  have r: "rd b (int s) = Inr (b ! s)" using Suc.prems by (simp add: rd_def)
  show ?case
  proof (cases "b ! s AND 15 = p AND 15")
    case True
    from Suc.IH [of "s + 1"] Suc.prems obtain k where
      k: "k \<le> n" "rle_run b p (int s + 1) n = Inr k" "\<forall>i < k. b ! (s + 1 + i) AND 15 = p AND 15"
      by (auto simp: add.commute)
    have "b ! (s + i) AND 15 = p AND 15" if "i < k + 1" for i
      using that True k(3) [rule_format, of "i - 1"] by (cases i) simp_all
    then show ?thesis using k(1,2) r True by (intro exI [of _ "k + 1"]) simp
  next
    case False
    then show ?thesis using r by simp
  qed
qed

lemma pattern_nibbles:
  "drop_bit 4 (pattern_of v w) = v AND 15" "pattern_of v w AND 15 = w AND 15"
proof -
  have m: "(15 :: u8) = mask 4" by (simp add: mask_eq_exp_minus_1)
  have "push_bit 4 (v AND 15) AND (w AND 15) = 0"
    unfolding m by (rule bit_eqI) (auto simp: bit_simps)
  then have p: "pattern_of v w = push_bit 4 (v AND 15) OR (w AND 15)"
    unfolding pattern_of_def by (rule disjunctive_add_eq_or)
  show "drop_bit 4 (pattern_of v w) = v AND 15"
    unfolding p m by (rule bit_eqI) (auto simp: bit_simps dest: bit_imp_le_length)
  show "pattern_of v w AND 15 = w AND 15"
    unfolding p m by (rule bit_eqI) (auto simp: bit_simps)
qed

lemma run_pixels_length [simp]: "length (run_pixels c p) = unat c"
  by (simp add: run_pixels_def)

lemma run_pixels_nth: "i < unat c \<Longrightarrow> run_pixels c p ! i = (if even i then drop_bit 4 p else p AND 15)"
  by (simp add: run_pixels_def)

definition pixels :: "u8 list \<Rightarrow> nat \<Rightarrow> nat \<Rightarrow> u8 list" where
  "pixels b s n = map (\<lambda>a. b ! a AND 15) [s..<s + n]"

lemma pixels_split: "k \<le> n \<Longrightarrow> pixels b s n = pixels b s k @ pixels b (s + k) (n - k)"
  using upt_add_eq_append [of s "s + k" "n - k"] by (simp add: pixels_def)

lemma run_pixels_pixels:
  assumes "unat c \<le> n" "\<And>i. i < unat c \<Longrightarrow> b ! (s + i) AND 15 = (if even i then v AND 15 else w AND 15)"
  shows "run_pixels c (pattern_of v w) @ pixels b (s + unat c) (n - unat c) = pixels b s n"
proof -
  have "run_pixels c (pattern_of v w) = pixels b s (unat c)"
    by (rule nth_equalityI) (use assms(2) in \<open>simp_all add: run_pixels_nth pattern_nibbles pixels_def\<close>)
  then show ?thesis using pixels_split [OF assms(1)] by simp
qed

lemma rle_row_pixels:
  "n = 0 \<or> s + n < length b \<Longrightarrow>
   \<exists>bs. rle_row b (int s) n out = Inr (out @ bs) \<and> length bs \<le> 2 * (n + 1) \<and>
     (\<forall>rest. rle4_row (bs @ rest) = Some (pixels b s n, rest))"
proof (induction n arbitrary: s out rule: less_induct)
  case (less n)
  show ?case
  proof (cases "n = 0")
    case True
    then show ?thesis
      by (intro exI [of _ "[0, 0]"]) (simp add: rle_row.simps [of b "int s" 0 out] pixels_def)
  next
    case False
    with less.prems have len: "s + n < length b" by simp
    define v w where "v = b ! s" and "w = b ! (s + 1)"
    have nx: "nat (int s + 1) = s + 1" by simp
    have rds: "rd b (int s) = Inr v" "rd b (int s + 1) = Inr w"
      using len False unfolding rd_def nx by (simp_all add: v_def w_def)
    have step: "\<exists>bs. rle_row b (int s) n out = Inr (out @ bs) \<and> length bs \<le> 2 * (n + 1) \<and>
        (\<forall>rest. rle4_row (bs @ rest) = Some (pixels b s n, rest))"
      if c: "rle_row b (int s) n out = rle_row b (int (s + t)) (n - t) (out @ [c, pattern_of v w])"
        and t: "0 < t" "t \<le> n \<or> n = 1" and u: "unat c = min t n"
        and px: "\<And>i. i < unat c \<Longrightarrow> b ! (s + i) AND 15 = (if even i then v AND 15 else w AND 15)" for t c
    proof -
      have "n - t < n" "n - t = 0 \<or> s + t + (n - t) < length b" using t len False by auto
      from less.IH [OF this, of "out @ [c, pattern_of v w]"] obtain bs where
        bs: "rle_row b (int (s + t)) (n - t) (out @ [c, pattern_of v w]) = Inr ((out @ [c, pattern_of v w]) @ bs)"
        "length bs \<le> 2 * (n - t + 1)" "\<And>rest. rle4_row (bs @ rest) = Some (pixels b (s + t) (n - t), rest)" by blast
      have "c \<noteq> 0" using u t(1) False by auto
      have "pixels b (s + t) (n - t) = pixels b (s + unat c) (n - unat c)"
        using u t by (cases "t \<le> n") (auto simp: pixels_def min_def)
      moreover have "run_pixels c (pattern_of v w) @ pixels b (s + unat c) (n - unat c) = pixels b s n"
        by (rule run_pixels_pixels) (use u px in simp_all)
      ultimately have "run_pixels c (pattern_of v w) @ pixels b (s + t) (n - t) = pixels b s n" by simp
      then show ?thesis using c bs \<open>c \<noteq> 0\<close> t(1) False by (intro exI [of _ "[c, pattern_of v w] @ bs"]) auto
    qed
    note row = rle_row.simps [of b "int s" n out]
    show ?thesis
    proof (cases "1 < n \<and> v AND 15 = w AND 15")
      case True
      let ?m = "min (n - 2) (BYTE_MAX - 2)"
      have "s + 2 + ?m \<le> length b" using len True by linarith
      from rle_run_same [OF this, of "pattern_of v w"] obtain k where k: "k \<le> ?m"
        "rle_run b (pattern_of v w) (int (s + 2)) ?m = Inr k" "\<And>i. i < k \<Longrightarrow> b ! (s + 2 + i) AND 15 = w AND 15"
        unfolding pattern_nibbles by blast
      have kb: "2 + k \<le> n" "2 + k < 256" using k(1) True unfolding BYTE_MAX_def by linarith+
      have u: "unat (of_nat (2 + k) :: u8) = 2 + k" using kb(2) by (simp only: unat_of_nat) simp
      have px: "b ! (s + i) AND 15 = (if even i then v AND 15 else w AND 15)" if "i < 2 + k" for i
      proof -
        show ?thesis
        proof (cases "i < 2")
          case True
          then have "i = 0 \<or> i = 1" by linarith
          then show ?thesis using \<open>1 < n \<and> v AND 15 = w AND 15\<close> by (auto simp: v_def w_def)
        next
          case False
          then have "i - 2 < k" "s + 2 + (i - 2) = s + i" using that by linarith+
          then have "b ! (s + i) AND 15 = w AND 15" using k(3) [of "i - 2"] by metis
          then show ?thesis using \<open>1 < n \<and> v AND 15 = w AND 15\<close> by simp
        qed
      qed
      have c: "rle_row b (int s) n out =
          rle_row b (int (s + (2 + k))) (n - (2 + k)) (out @ [of_nat (2 + k), pattern_of v w])"
        using row rds True False k(2) by (simp add: Let_def ac_simps)
      have "unat (of_nat (2 + k) :: u8) = min (2 + k) n" using u kb(1) by simp
      from step [OF c _ _ this] kb(1) px show ?thesis unfolding u by simp
    next
      case no: False
      have u: "unat (if 1 < n then 2 else 1 :: u8) = min 2 n" using False by auto
      have px: "b ! (s + i) AND 15 = (if even i then v AND 15 else w AND 15)" if "i < min 2 n" for i
        using that by (cases i) (auto simp: v_def w_def)
      have c: "rle_row b (int s) n out = rle_row b (int (s + 2)) (n - 2) (out @ [if 1 < n then 2 else 1, pattern_of v w])"
        using row rds False no by (auto simp: Let_def add.commute)
      have "2 \<le> n \<or> n = 1" using False by auto
      from step [OF c _ this u] px show ?thesis unfolding u by simp
    qed
  qed
qed

lemma rle_rows_pixels:
  assumes wi: "0 \<le> wi" "w \<le> wi" and b: "h * nat wi \<le> length b" "w < wi \<or> h * nat wi < length b"
    "h * nat wi < 2 ^ 31"
  shows "y \<le> h \<Longrightarrow> \<exists>bs. rle_rows b wi w y out = Inr (out @ bs) \<and> length bs \<le> 2 * (nat w + 1) * y \<and>
    rle4_rows y bs = Some (map (\<lambda>y. pixels b (y * nat wi) (nat w)) (rev [0..<y]))"
proof (induction y arbitrary: out)
  case 0
  show ?case by simp
next
  case (Suc y)
  have le: "y * nat wi + nat wi \<le> h * nat wi"
    using mult_le_mono1 [OF Suc.prems, of "nat wi"] by simp
  have "i32 (int y * wi) = int (y * nat wi)"
  proof -
    define k where "k = y * nat wi"
    have "int y * wi = int k" using wi(1) by (simp add: k_def)
    moreover have "k < 2 ^ 31" using le b(3) by (simp add: k_def)
    ultimately show ?thesis by (simp add: k_def [symmetric])
  qed
  moreover have "nat w = 0 \<or> y * nat wi + nat w < length b"
    using le b(1,2) wi by (cases "w < wi") auto
  ultimately obtain bs where bs: "rle_row b (i32 (int y * wi)) (nat w) out = Inr (out @ bs)" "length bs \<le> 2 * (nat w + 1)"
    "\<And>rest. rle4_row (bs @ rest) = Some (pixels b (y * nat wi) (nat w), rest)"
    using rle_row_pixels [of "nat w" "y * nat wi" b out] by auto
  from Suc.IH [of "out @ bs"] Suc.prems obtain cs where cs: "rle_rows b wi w y (out @ bs) = Inr (out @ bs @ cs)"
    "length cs \<le> 2 * (nat w + 1) * y" "rle4_rows y cs = Some (map (\<lambda>y. pixels b (y * nat wi) (nat w)) (rev [0..<y]))"
    by auto
  show ?case using bs cs by (intro exI [of _ "bs @ cs"]) simp
qed

definition bmp_shows :: "picture \<Rightarrow> u8 list \<Rightarrow> bmp_file \<Rightarrow> bool" where
  "bmp_shows dc b bmp \<longleftrightarrow> length (bmp_data bmp) \<le> 2 * (nat (p_width dc) + 1) * nat (p_height dc) \<and>
     rle4_rows (nat (p_height dc)) (bmp_data bmp) = Some (map (\<lambda>y. map (\<lambda>x. b ! (y * nat (p_width_internal dc) + x) AND 15)
       [0..<nat (p_width dc)]) (rev [0..<nat (p_height dc)]))"

lemma bmp_shows_body:
  assumes dc: "p_body dc = Some b" "0 \<le> p_width dc" "p_width dc \<le> p_width_internal dc"
    and b: "nat (p_height dc) * nat (p_width_internal dc) \<le> length b"
      "p_width dc < p_width_internal dc \<or> nat (p_height dc) * nat (p_width_internal dc) < length b"
      "nat (p_height dc) * nat (p_width_internal dc) < 2 ^ 31"
  shows "\<exists>bmp. BMPRLE4To dc = Inr bmp \<and> bmp_shows dc b bmp"
proof -
  have px: "pixels b s n = map (\<lambda>x. b ! (s + x) AND 15) [0..<n]" for s n
    by (rule nth_equalityI) (simp_all add: pixels_def)
  obtain bs where "rle_rows b (p_width_internal dc) (p_width dc) (nat (p_height dc)) [] = Inr bs"
    "length bs \<le> 2 * (nat (p_width dc) + 1) * nat (p_height dc)"
    "rle4_rows (nat (p_height dc)) bs =
      Some (map (\<lambda>y. pixels b (y * nat (p_width_internal dc)) (nat (p_width dc))) (rev [0..<nat (p_height dc)]))"
    using rle_rows_pixels [OF _ dc(3) b, of "nat (p_height dc)" "[]"] dc(2,3) by auto
  then show ?thesis using dc(1) by (simp add: BMPRLE4To_def bmp_shows_def px)
qed

lemma nth_before: "k < n \<Longrightarrow> n \<le> length b \<Longrightarrow> (b @ over) ! k = b ! k"
  by (simp add: nth_append)

lemma bmp_shows_over:
  assumes "0 \<le> p_width dc" "p_width dc \<le> p_width_internal dc"
    "nat (p_height dc) * nat (p_width_internal dc) \<le> length b"
  shows "bmp_shows dc (b @ over) bmp = bmp_shows dc b bmp"
proof -
  have "(b @ over) ! (y * nat (p_width_internal dc) + x) = b ! (y * nat (p_width_internal dc) + x)"
    if "y < nat (p_height dc)" "x < nat (p_width dc)" for x y
  proof (rule nth_before [OF _ assms(3)])
    have "(y + 1) * nat (p_width_internal dc) \<le> nat (p_height dc) * nat (p_width_internal dc)"
      by (rule mult_le_mono1) (use that(1) in simp)
    moreover have "x < nat (p_width_internal dc)" using that(2) assms(2) by linarith
    ultimately show "y * nat (p_width_internal dc) + x < nat (p_height dc) * nat (p_width_internal dc)" by simp
  qed
  then have "map (\<lambda>y. map (\<lambda>x. (b @ over) ! (y * nat (p_width_internal dc) + x) AND 15) [0..<nat (p_width dc)])
        (rev [0..<nat (p_height dc)]) =
      map (\<lambda>y. map (\<lambda>x. b ! (y * nat (p_width_internal dc) + x) AND 15) [0..<nat (p_width dc)])
        (rev [0..<nat (p_height dc)])"
    by (intro map_cong refl) auto
  then show ?thesis by (simp only: bmp_shows_def)
qed


definition demo_picture :: picture where
  "demo_picture = (DCNew 3 2)\<lparr>p_body := Some [1, 1, 2, 0, 0, 0, 0, 0, 7, 8, 8, 0, 0, 0, 0, 0]\<rparr>"

lemma demo_picture_facts:
  "p_body demo_picture = Some [1, 1, 2, 0, 0, 0, 0, 0, 7, 8, 8, 0, 0, 0, 0, 0]" "p_width demo_picture = 3"
  "p_width_internal demo_picture = 8" "p_height demo_picture = 2"
  unfolding demo_picture_def by code_simp+

text \<open>A picture of the size of the screen, all of one colour.\<close>

definition blue_base :: picture where
  "blue_base = (DCNew 640 480)\<lparr>p_body := Some (replicate 307200 1)\<rparr>"

lemma blue_base_facts:
  "p_body blue_base = Some (replicate 307200 1)" "p_width blue_base = 640" "p_width_internal blue_base = 640"
  "p_height blue_base = 480"
  by (simp_all add: blue_base_def DCNew_def)


text \<open>
  When the last pixel of the last row is a run of its own and the row has no padding, the pixel after the end of the
  body is read.
\<close>

lemma bmp_reads_past_body:
  "BMPRLE4To ((DCNew 8 1)\<lparr>p_body := Some [1, 1, 1, 2, 3, 2, 3, 4]\<rparr>) = Inl OutOfBounds"
  by code_simp

section \<open>Copying shows the picture\<close>

lemma mem_copy_ok:
  assumes "i + n \<le> length d" "j + n \<le> length s"
  shows "\<exists>d'. mem_copy (Some d) (int i) (Some s) (int j) n = Inr (Some d') \<and> length d' = length d \<and>
    (\<forall>a < length d. d' ! a = (if i \<le> a \<and> a < i + n then s ! (j + (a - i)) else d ! a))"
proof (intro exI conjI)
  let ?d = "take i d @ take n (drop j s) @ drop (i + n) d"
  show "mem_copy (Some d) (int i) (Some s) (int j) n = Inr (Some ?d)" using assms by (simp add: mem_copy_def)
  show "length ?d = length d" using assms by simp
  show "\<forall>a < length d. ?d ! a = (if i \<le> a \<and> a < i + n then s ! (j + (a - i)) else d ! a)"
  proof -
    have "min (length s - j) n = n" "min (length d) i = i" using assms by auto
    then show ?thesis using assms by (auto simp: nth_append)
  qed
qed

lemma blot_rows_ok:
  assumes img: "p_body img = Some s" "p_width_internal img = int iw" and n: "n \<le> dw"
  shows "r = 0 \<or> k1 + (r - 1) * dw + n \<le> length d \<and> k + (r - 1) * iw + n \<le> length s \<Longrightarrow>
    k1 + r * dw < 2 ^ 31 \<Longrightarrow> k + r * iw < 2 ^ 31 \<Longrightarrow>
    \<exists>d'. blot_rows img (int dw) n r (int k) (int k1) (Some d) = Inr (Some d') \<and> length d' = length d \<and>
      (\<forall>j < r. \<forall>c < n. d' ! (k1 + j * dw + c) = s ! (k + j * iw + c)) \<and>
      (\<forall>a < length d. (\<forall>j < r. \<not> (k1 + j * dw \<le> a \<and> a < k1 + j * dw + n)) \<longrightarrow> d' ! a = d ! a)"
proof (induction r arbitrary: k k1 d)
  case 0
  show ?case by simp
next
  case (Suc r)
  have fit: "k1 + n \<le> length d" "k + n \<le> length s" using Suc.prems(1) by auto
  obtain e where e: "mem_copy (Some d) (int k1) (Some s) (int k) n = Inr (Some e)" "length e = length d"
    "\<And>a. a < length d \<Longrightarrow> e ! a = (if k1 \<le> a \<and> a < k1 + n then s ! (k + (a - k1)) else d ! a)"
    using mem_copy_ok [OF fit] by blast
  have i32: "i32 (int k + int iw) = int (k + iw)" "i32 (int k1 + int dw) = int (k1 + dw)"
    using Suc.prems(2,3) by (simp_all add: algebra_simps)
  have "r = 0 \<or> k1 + dw + (r - 1) * dw + n \<le> length e \<and> k + iw + (r - 1) * iw + n \<le> length s"
    using Suc.prems(1) e(2) by (cases r) (simp_all add: algebra_simps)
  moreover have "k1 + dw + r * dw < 2 ^ 31" "k + iw + r * iw < 2 ^ 31" using Suc.prems(2,3) by (simp_all add: algebra_simps)
  ultimately obtain d' where d': "blot_rows img (int dw) n r (int (k + iw)) (int (k1 + dw)) (Some e) = Inr (Some d')"
    "length d' = length e" "\<And>j c. j < r \<Longrightarrow> c < n \<Longrightarrow> d' ! (k1 + dw + j * dw + c) = s ! (k + iw + j * iw + c)"
    "\<And>a. a < length e \<Longrightarrow> \<forall>j < r. \<not> (k1 + dw + j * dw \<le> a \<and> a < k1 + dw + j * dw + n) \<Longrightarrow> d' ! a = e ! a"
    using Suc.IH [of "k1 + dw" e "k + iw"] by blast
  have row: "d' ! (k1 + j * dw + c) = s ! (k + j * iw + c)" if "j < Suc r" "c < n" for j c
  proof (cases j)
    case 0
    have "d' ! (k1 + c) = e ! (k1 + c)" by (rule d'(4)) (use that(2) fit(1) e(2) n in auto)
    then show ?thesis using 0 that(2) e(3) [of "k1 + c"] fit(1) by simp
  next
    case (Suc i)
    then show ?thesis using d'(3) [of i c] that by (simp add: algebra_simps)
  qed
  have rest: "d' ! a = d ! a" if a: "a < length d" "\<forall>j < Suc r. \<not> (k1 + j * dw \<le> a \<and> a < k1 + j * dw + n)" for a
  proof -
    have "\<not> (k1 + dw + j * dw \<le> a \<and> a < k1 + dw + j * dw + n)" if "j < r" for j
      using a(2) [rule_format, of "Suc j"] that by (simp add: algebra_simps)
    then have "d' ! a = e ! a" using d'(4) a(1) e(2) by simp
    moreover have "\<not> (k1 \<le> a \<and> a < k1 + n)" using a(2) [rule_format, of 0] by simp
    ultimately show ?thesis using e(3) [OF a(1)] by auto
  qed
  show ?case using e(1,2) d'(1,2) row rest i32 by (auto simp: img)
qed

lemma row_column:
  assumes "a * n + b = r * n + c" "b < n" "c < (n :: nat)"
  shows "a = r \<and> b = c"
proof -
  have "(a * n + b) div n = a" "(a * n + b) mod n = b" using assms(2) by simp_all
  moreover have "(r * n + c) div n = r" "(r * n + c) mod n = c" using assms(3) by simp_all
  ultimately show ?thesis using assms(1) by simp
qed

text \<open>The rectangle that is copied, with natural numbers for what the code computes as \<open>int\<close>s.\<close>

lemma blot_rectangle:
  assumes img: "p_body img = Some s" "p_width_internal img = int iw" and n: "n + X1 \<le> dw" "n + W1 \<le> iw"
    and d: "(Y1 + r) * dw \<le> length d" "(Y1 + r) * dw + X1 < 2 ^ 31" and s: "(H1 + r) * iw \<le> length s" "(H1 + r) * iw + W1 < 2 ^ 31"
  shows "\<exists>d'. blot_rows img (int dw) n r (int (H1 * iw + W1)) (int (Y1 * dw + X1)) (Some d) = Inr (Some d') \<and>
    length d' = length d \<and>
    (\<forall>q c. c < dw \<longrightarrow> q * dw + c < length d \<longrightarrow> d' ! (q * dw + c) =
       (if Y1 \<le> q \<and> q < Y1 + r \<and> X1 \<le> c \<and> c < X1 + n then s ! ((H1 + (q - Y1)) * iw + (W1 + (c - X1))) else d ! (q * dw + c)))"
proof -
  have last: "r = 0 \<or> Y1 * dw + X1 + (r - 1) * dw + n \<le> length d \<and> H1 * iw + W1 + (r - 1) * iw + n \<le> length s"
    using n d(1) s(1) by (cases r) (simp_all add: algebra_simps)
  have "Y1 * dw + X1 + r * dw < 2 ^ 31" "H1 * iw + W1 + r * iw < 2 ^ 31" using d(2) s(2) by (simp_all add: algebra_simps)
  from blot_rows_ok [OF img _ last this] n obtain d' where
    d': "blot_rows img (int dw) n r (int (H1 * iw + W1)) (int (Y1 * dw + X1)) (Some d) = Inr (Some d')" "length d' = length d"
      "\<And>j c. j < r \<Longrightarrow> c < n \<Longrightarrow> d' ! (Y1 * dw + X1 + j * dw + c) = s ! (H1 * iw + W1 + j * iw + c)"
      "\<And>a. a < length d \<Longrightarrow> \<forall>j < r. \<not> (Y1 * dw + X1 + j * dw \<le> a \<and> a < Y1 * dw + X1 + j * dw + n) \<Longrightarrow> d' ! a = d ! a"
    by auto
  have "d' ! (q * dw + c) =
       (if Y1 \<le> q \<and> q < Y1 + r \<and> X1 \<le> c \<and> c < X1 + n then s ! ((H1 + (q - Y1)) * iw + (W1 + (c - X1))) else d ! (q * dw + c))"
    if c: "c < dw" "q * dw + c < length d" for q c
  proof (cases "Y1 \<le> q \<and> q < Y1 + r \<and> X1 \<le> c \<and> c < X1 + n")
    case True
    define j where "j = q - Y1"
    define e where "e = c - X1"
    have qc: "q = Y1 + j" "c = X1 + e" "j < r" "e < n" using True by (simp_all add: j_def e_def, linarith+)
    show ?thesis using d'(3) [OF qc(3,4)] unfolding qc(1,2) using qc(3,4) by (simp add: algebra_simps)
  next
    case False
    have "\<not> (Y1 * dw + X1 + j * dw \<le> q * dw + c \<and> q * dw + c < Y1 * dw + X1 + j * dw + n)" if j: "j < r" for j
    proof
      assume a: "Y1 * dw + X1 + j * dw \<le> q * dw + c \<and> q * dw + c < Y1 * dw + X1 + j * dw + n"
      define e where "e = q * dw + c - (Y1 * dw + X1 + j * dw)"
      have e: "e < n" "q * dw + c = (Y1 + j) * dw + (X1 + e)" using a by (simp_all add: e_def algebra_simps, linarith)
      have "X1 + e < dw" using e(1) n(1) by linarith
      from row_column [OF e(2) c(1) this] e(1) j False show False by auto
    qed
    then show ?thesis using d'(4) [OF c(2)] False by auto
  qed
  then show ?thesis using d'(1,2) by blast
qed

text \<open>A picture with a body for all its rows, whose sizes do not overflow.\<close>

lemma i32_int: "k < 2 ^ 31 \<Longrightarrow> i32 (int k) = int k"
  by simp

definition picture_ok :: "picture \<Rightarrow> bool" where
  "picture_ok p \<longleftrightarrow> 0 \<le> p_width p \<and> p_width p \<le> p_width_internal p \<and> 0 \<le> p_height p \<and>
     p_height p < 2 ^ 31 \<and> p_height p * p_width_internal p + p_width_internal p < 2 ^ 31 \<and>
     (\<exists>b. p_body p = Some b \<and> p_height p * p_width_internal p \<le> int (length b))"

lemma picture_okE:
  assumes "picture_ok p"
  obtains w wi h b where "p_width p = int w" "p_width_internal p = int wi" "p_height p = int h" "p_body p = Some b"
    "w \<le> wi" "wi < 2 ^ 31" "h < 2 ^ 31" "h * wi + wi < 2 ^ 31" "h * wi \<le> length b"
proof -
  obtain b where b: "p_body p = Some b" "p_height p * p_width_internal p \<le> int (length b)"
    using assms unfolding picture_ok_def by blast
  obtain w where w: "p_width p = int w" using assms zero_le_imp_eq_int unfolding picture_ok_def by blast
  obtain h where h: "p_height p = int h" using assms zero_le_imp_eq_int unfolding picture_ok_def by blast
  have "0 \<le> p_width_internal p" using assms unfolding picture_ok_def by linarith
  then obtain wi where wi: "p_width_internal p = int wi" using zero_le_imp_eq_int by blast
  have "int (h * wi + wi) < 2 ^ 31" "int (h * wi) \<le> int (length b)"
    using assms b(2) unfolding picture_ok_def w h wi by simp_all
  then have "h * wi + wi < 2 ^ 31" "h * wi \<le> length b" by (metis of_nat_less_iff of_nat_numeral of_nat_power, metis of_nat_le_iff)
  moreover from this have "wi < 2 ^ 31" by linarith
  moreover have "w \<le> wi" "h < 2 ^ 31" using assms unfolding picture_ok_def w h wi by simp_all
  ultimately show thesis using that w h wi b(1) by blast
qed

definition pixel :: "picture \<Rightarrow> int \<Rightarrow> int \<Rightarrow> u8" where
  "pixel p r c = the (p_body p) ! nat (r * p_width_internal p + c)"

text \<open>The part of the picture that is shown: \<open>n\<close> columns and \<open>m\<close> rows from \<open>W1\<close>, \<open>H1\<close> on, put at \<open>X1\<close>, \<open>Y1\<close>.\<close>

definition clip :: "int \<Rightarrow> int \<Rightarrow> int \<Rightarrow> nat \<Rightarrow> nat \<Rightarrow> nat \<Rightarrow> bool" where
  "clip x size1 size2 W1 X1 n \<longleftrightarrow> int X1 = x + int W1 \<and> (x < 0 \<longrightarrow> X1 = 0) \<and> (0 \<le> x \<longrightarrow> W1 = 0) \<and>
     int n = min (size1 - x) size2 - int W1"

lemma clip_exists:
  assumes "0 \<le> size1" "0 \<le> size2" "- (2 ^ 31) < x" "x + size2 < 2 ^ 31" "size1 < 2 ^ 31" "size2 < 2 ^ 31"
    "(if x < 0 then i32 (- x) else 0) < (if i32 (x + size2) > size1 then i32 (size1 - x) else size2)"
  obtains W1 X1 n where "clip x size1 size2 W1 X1 n" "0 < n" "(if x < 0 then i32 (- x) else 0) = int W1"
    "(if i32 (x + size2) > size1 then i32 (size1 - x) else size2) = int (n + W1)"
proof -
  have m: "(if i32 (x + size2) > size1 then i32 (size1 - x) else size2) = min (size1 - x) size2"
    using assms by (auto simp: min_def)
  have w: "(if x < 0 then i32 (- x) else 0) = int (nat (- x))" using assms(3) by auto
  have "clip x size1 size2 (nat (- x)) (nat x) (nat (min (size1 - x) size2 - int (nat (- x))))"
    using assms(7) unfolding m w by (auto simp: clip_def)
  then show thesis by (rule that) (use assms(7) in \<open>unfold m w, auto\<close>)
qed

lemma clip_range:
  "clip x (int w) (int iw) W1 X1 n \<Longrightarrow> e < w \<Longrightarrow> X1 \<le> e \<and> e < X1 + n \<longleftrightarrow> x \<le> int e \<and> int e < x + int iw"
  unfolding clip_def by (auto simp: min_def split: if_splits)

lemma clip_empty:
  assumes "0 \<le> size1" "0 \<le> size2" "- (2 ^ 31) < x" "x + size2 < 2 ^ 31" "size1 < 2 ^ 31" "size2 < 2 ^ 31"
    "\<not> (if x < 0 then i32 (- x) else 0) < (if i32 (x + size2) > size1 then i32 (size1 - x) else size2)"
  shows "0 \<le> c \<Longrightarrow> c < size1 \<Longrightarrow> \<not> (x \<le> c \<and> c < x + size2)"
  using assms by (auto split: if_splits)

text \<open>The offsets at which \<open>GrBlot\<close> starts.\<close>

lemma blot_start:
  assumes "int X1 = x + int W1" "int Y1 = y + int H1" "Y1 * wi + X1 < 2 ^ 31" "H1 * iwi + W1 < 2 ^ 31"
  shows "i32 (int H1 * int iwi + int W1) = int (H1 * iwi + W1)"
    "i32 (i32 ((int H1 + y) * int wi) + x + int W1) = int (Y1 * wi + X1)"
proof -
  show "i32 (int H1 * int iwi + int W1) = int (H1 * iwi + W1)" using i32_int [OF assms(4)] by simp
  have y: "(int H1 + y) * int wi = int (Y1 * wi)" using assms(2) by (simp add: add.commute)
  have "i32 (int (Y1 * wi)) = int (Y1 * wi)" by (rule i32_int) (use assms(3) in linarith)
  then have "i32 ((int H1 + y) * int wi) + x + int W1 = int (Y1 * wi + X1)" unfolding y using assms(1) by simp
  then show "i32 (i32 ((int H1 + y) * int wi) + x + int W1) = int (Y1 * wi + X1)" using i32_int [OF assms(3)] by simp
qed

lemma pixel_nat: "p_body p = Some b \<Longrightarrow> p_width_internal p = int wi \<Longrightarrow> pixel p (int q) (int e) = b ! (q * wi + e)"
  unfolding pixel_def by (metis nat_int of_nat_add of_nat_mult option.sel)

text \<open>A rectangle of bytes that is copied is a rectangle of pixels that is shown.\<close>

lemma blot_pixels:
  assumes p: "p_body dc = Some d" "p_width_internal dc = int wi" "p_body dc' = Some d'" "p_width_internal dc' = int wi"
      "p_body img = Some s" "p_width_internal img = int iwi"
    and cl: "clip x (int w) (int iw) W1 X1 n" "clip y (int h) (int ih) H1 Y1 m" and sz: "w \<le> wi" "h * wi \<le> length d"
    and d': "\<And>q c. c < wi \<Longrightarrow> q * wi + c < length d \<Longrightarrow> d' ! (q * wi + c) =
         (if Y1 \<le> q \<and> q < Y1 + m \<and> X1 \<le> c \<and> c < X1 + n then s ! ((H1 + (q - Y1)) * iwi + (W1 + (c - X1))) else d ! (q * wi + c))"
    and rc: "0 \<le> r" "r < int h" "0 \<le> c" "c < int w"
  shows "pixel dc' r c =
    (if y \<le> r \<and> r < y + int ih \<and> x \<le> c \<and> c < x + int iw then pixel img (r - y) (c - x) else pixel dc r c)"
proof -
  obtain q e where qe: "r = int q" "c = int e" using rc zero_le_imp_eq_int by metis
  have b: "q < h" "e < w" using rc by (simp_all add: qe)
  have "(q + 1) * wi \<le> h * wi" by (rule mult_le_mono1) (use b(1) in simp)
  then have l: "q * wi + e < length d" "e < wi" using sz b(2) by simp_all
  have region: "(Y1 \<le> q \<and> q < Y1 + m \<and> X1 \<le> e \<and> e < X1 + n) \<longleftrightarrow>
      (y \<le> r \<and> r < y + int ih \<and> x \<le> c \<and> c < x + int iw)"
    unfolding qe using clip_range [OF cl(1) b(2)] clip_range [OF cl(2) b(1)] by blast
  have src: "pixel img (r - y) (c - x) = s ! ((H1 + (q - Y1)) * iwi + (W1 + (e - X1)))" if "Y1 \<le> q" "X1 \<le> e"
  proof -
    have "r - y = int (H1 + (q - Y1))" "c - x = int (W1 + (e - X1))" using cl that by (simp_all add: qe clip_def)
    then show ?thesis by (simp only: pixel_nat [OF p(5,6)])
  qed
  note nats = pixel_nat [OF p(1,2)] pixel_nat [OF p(3,4)]
  show ?thesis
  proof (cases "y \<le> r \<and> r < y + int ih \<and> x \<le> c \<and> c < x + int iw")
    case True
    with region have i: "Y1 \<le> q \<and> q < Y1 + m \<and> X1 \<le> e \<and> e < X1 + n" by blast
    then show ?thesis using d' [OF l(2,1)] src True nats qe by simp
  next
    case False
    with region have i: "\<not> (Y1 \<le> q \<and> q < Y1 + m \<and> X1 \<le> e \<and> e < X1 + n)" by blast
    then show ?thesis using d' [OF l(2,1)] False nats qe by auto
  qed
qed

text \<open>C29: copying a picture onto another one, both with a body for all their rows and sizes that do not overflow, never
  leaves the memory of the two, also when it lies partly or wholly outside; the pixels it covers are then its own, all
  others stay, and the result is a picture again. The place may be any at which \<open>-x\<close>, \<open>-y\<close> and the far edges
  of the picture are still numbers of type \<open>int\<close>; the code does not check the place that a file gives, and where
  \<open>x + w2\<close> overflows it writes outside (\<open>GrBlot_overflow\<close>).\<close>

theorem GrBlot_shows_picture:
  assumes "picture_ok dc" "picture_ok img" and x: "- (2 ^ 31) < x" "x + p_width img < 2 ^ 31"
    and y: "- (2 ^ 31) < y" "y + p_height img < 2 ^ 31"
  shows "\<exists>shown dc'. GrBlot dc x y img = Inr (shown, dc') \<and> picture_ok dc' \<and>
    p_width dc' = p_width dc \<and> p_height dc' = p_height dc \<and> p_width_internal dc' = p_width_internal dc \<and>
    (\<forall>r c. 0 \<le> r \<longrightarrow> r < p_height dc \<longrightarrow> 0 \<le> c \<longrightarrow> c < p_width dc \<longrightarrow> pixel dc' r c =
       (if y \<le> r \<and> r < y + p_height img \<and> x \<le> c \<and> c < x + p_width img then pixel img (r - y) (c - x) else pixel dc r c))"
proof -
  obtain w wi h d where dc: "p_width dc = int w" "p_width_internal dc = int wi" "p_height dc = int h" "p_body dc = Some d"
    "w \<le> wi" "wi < 2 ^ 31" "h < 2 ^ 31" "h * wi + wi < 2 ^ 31" "h * wi \<le> length d" by (rule picture_okE [OF assms(1)])
  obtain iw iwi ih s where im: "p_width img = int iw" "p_width_internal img = int iwi" "p_height img = int ih" "p_body img = Some s"
    "iw \<le> iwi" "iwi < 2 ^ 31" "ih < 2 ^ 31" "ih * iwi + iwi < 2 ^ 31" "ih * iwi \<le> length s" by (rule picture_okE [OF assms(2)])
  have small: "0 \<le> int w" "0 \<le> int iw" "0 \<le> int h" "0 \<le> int ih" "int w < 2 ^ 31" "int iw < 2 ^ 31" "int h < 2 ^ 31" "int ih < 2 ^ 31"
    using dc(5-7) im(5-7) by simp_all
  note cx = small(1,2) x [unfolded im] small(5,6) and cy = small(3,4) y [unfolded im] small(7,8)
  let ?w1 = "if x < 0 then i32 (- x) else 0" and ?w2 = "if i32 (x + int iw) > int w then i32 (int w - x) else int iw"
  let ?h1 = "if y < 0 then i32 (- y) else 0" and ?h2 = "if i32 (y + int ih) > int h then i32 (int h - y) else int ih"
  show ?thesis
  proof (cases "?w1 < ?w2 \<and> ?h1 < ?h2")
    case False
    have "GrBlot dc x y img = Inr (False, dc)"
      unfolding GrBlot_def Let_def dc(1-3) im(1-3) using False by auto
    moreover have "\<not> (y \<le> r \<and> r < y + int ih \<and> x \<le> c \<and> c < x + int iw)"
      if "0 \<le> r" "r < int h" "0 \<le> c" "c < int w" for r c
      using False clip_empty [OF cx _ that(3,4)] clip_empty [OF cy _ that(1,2)] by blast
    ultimately show ?thesis using assms(1) by (auto simp: dc im)
  next
    case True
    obtain W1 X1 n where a: "clip x (int w) (int iw) W1 X1 n" "0 < n" "?w1 = int W1" "?w2 = int (n + W1)"
      by (rule clip_exists [OF cx conjunct1 [OF True]])
    obtain H1 Y1 m where b: "clip y (int h) (int ih) H1 Y1 m" "0 < m" "?h1 = int H1" "?h2 = int (m + H1)"
      by (rule clip_exists [OF cy conjunct2 [OF True]])
    have nm: "int X1 = x + int W1" "int Y1 = y + int H1" "int n = min (int w - x) (int iw) - int W1"
      "int m = min (int h - y) (int ih) - int H1" using a(1) b(1) by (simp_all add: clip_def)
    have fits: "n + X1 \<le> wi" "n + W1 \<le> iwi" "Y1 + m \<le> h" "H1 + m \<le> ih" "X1 \<le> wi" "W1 \<le> iwi" "n + W1 \<le> iw" "m + H1 \<le> ih"
      using nm dc(5) im(5) by linarith+
    have rows: "(Y1 + m) * wi \<le> h * wi" "(H1 + m) * iwi \<le> ih * iwi" using fits(3,4) by simp_all
    have sizes: "(Y1 + m) * wi \<le> length d" "(Y1 + m) * wi + X1 < 2 ^ 31" "(H1 + m) * iwi \<le> length s"
      "(H1 + m) * iwi + W1 < 2 ^ 31"
      using rows dc(8,9) im(8,9) fits(5,6) by linarith+
    have start: "Y1 * wi + X1 < 2 ^ 31" "H1 * iwi + W1 < 2 ^ 31" using sizes(2,4) by (simp_all add: algebra_simps)
    obtain d' where d': "blot_rows img (int wi) n m (int (H1 * iwi + W1)) (int (Y1 * wi + X1)) (Some d) = Inr (Some d')"
      "length d' = length d"
      "\<And>q c. c < wi \<Longrightarrow> q * wi + c < length d \<Longrightarrow> d' ! (q * wi + c) =
         (if Y1 \<le> q \<and> q < Y1 + m \<and> X1 \<le> c \<and> c < X1 + n then s ! ((H1 + (q - Y1)) * iwi + (W1 + (c - X1))) else d ! (q * wi + c))"
      using blot_rectangle [OF im(4,2) fits(1,2) sizes] by blast
    let ?dc = "dc\<lparr>p_body := Some d'\<rparr>"
    have "GrBlot dc x y img = Inr (True, ?dc)"
      unfolding GrBlot_def Let_def dc(1-4) im(1-3) a(3,4) b(3,4) blot_start [OF nm(1,2) start]
      using a(2) b(2) fits(7,8) d'(1) by simp
    moreover have "picture_ok ?dc" using assms(1) d'(2) by (simp add: picture_ok_def dc)
    moreover note blot_pixels [OF dc(4,2) _ _ im(4,2) a(1) b(1) dc(5,9) d'(3), of ?dc]
    ultimately show ?thesis by (auto simp: dc im)
  qed
qed

definition demo_screen :: picture where
  "demo_screen = (DCNew 8 4)\<lparr>p_body := Some (replicate 32 15)\<rparr>"

lemma demo_screen_facts:
  "p_body demo_screen = Some (replicate 32 15)" "p_width demo_screen = 8" "p_width_internal demo_screen = 8"
  "p_height demo_screen = 4"
  unfolding demo_screen_def by code_simp+

theorem GrBlot_shows_picture_witness:
  "\<exists>shown dc. GrBlot demo_screen (- 1) 1 demo_picture = Inr (shown, dc) \<and>
     pixel dc 0 0 = 15 \<and> pixel dc 1 0 = 1 \<and> pixel dc 2 1 = 8 \<and> pixel dc 2 2 = 15"
proof -
  have ok: "picture_ok demo_screen" "picture_ok demo_picture"
    by (simp_all add: picture_ok_def demo_screen_facts demo_picture_facts)
  have far: "- (2 ^ 31) < (- 1 :: int)" "- 1 + p_width demo_picture < 2 ^ 31" "- (2 ^ 31) < (1 :: int)"
    "1 + p_height demo_picture < 2 ^ 31" by (simp_all add: demo_picture_facts)
  obtain shown dc where r: "GrBlot demo_screen (- 1) 1 demo_picture = Inr (shown, dc)"
    "\<forall>r c. 0 \<le> r \<longrightarrow> r < p_height demo_screen \<longrightarrow> 0 \<le> c \<longrightarrow> c < p_width demo_screen \<longrightarrow> pixel dc r c =
       (if 1 \<le> r \<and> r < 1 + p_height demo_picture \<and> - 1 \<le> c \<and> c < - 1 + p_width demo_picture
        then pixel demo_picture (r - 1) (c - (- 1)) else pixel demo_screen r c)"
    using GrBlot_shows_picture [OF ok far] by blast
  from r(2) [rule_format, of 0 0] r(2) [rule_format, of 1 0] r(2) [rule_format, of 2 1] r(2) [rule_format, of 2 2]
  have "pixel dc 0 0 = 15" "pixel dc 1 0 = 1" "pixel dc 2 1 = 8" "pixel dc 2 2 = 15"
    by (simp_all add: demo_screen_facts demo_picture_facts pixel_def nth_replicate)
  then show ?thesis using r(1) by blast
qed

text \<open>When the far edge of the picture is not an \<open>int\<close> the test of the edge passes, and the copy is far outside.\<close>

lemma GrBlot_overflow: "GrBlot demo_screen 0x7ffffffe 1 demo_picture = Inl OutOfBounds"
  by code_simp

section \<open>Loading gives what was saved\<close>

text \<open>A picture without compression as it is in a file.\<close>

definition colour_bytes :: "bgr48 \<Rightarrow> u8 list" where
  "colour_bytes c = le_bytes 2 (unat (c_b c)) @ le_bytes 2 (unat (c_g c)) @ le_bytes 2 (unat (c_r c)) @ le_bytes 2 (unat (c_pad c))"

definition head_bytes :: "picture \<Rightarrow> u8 list" where
  "head_bytes p = le_bytes 8 (unat (of_int (p_cdt p) :: u64)) @ le_bytes 4 (unat (of_int (p_x0 p) :: u32)) @
     le_bytes 4 (unat (of_int (p_y0 p) :: u32)) @ le_bytes 4 (unat (of_int (p_width p) :: u32)) @
     le_bytes 4 (unat (of_int (p_width_internal p) :: u32)) @ le_bytes 4 (unat (of_int (p_height p) :: u32)) @
     le_bytes 4 (unat (p_flags p))"

definition palette_bytes :: "picture \<Rightarrow> u8 list" where
  "palette_bytes p = (if p_flags p AND DCF_PALETTE \<noteq> 0 then concat (map colour_bytes (p_palette p)) else [])"

definition dc_bytes :: "picture \<Rightarrow> u8 list" where
  "dc_bytes p = head_bytes p @ palette_bytes p @ the (p_body p)"

definition int_field :: "nat \<Rightarrow> int \<Rightarrow> bool" where
  "int_field n v \<longleftrightarrow> - (2 ^ n) \<le> v \<and> v < 2 ^ n"

definition saved_picture :: "picture \<Rightarrow> bool" where
  "saved_picture p \<longleftrightarrow> int_field 63 (p_cdt p) \<and> int_field 31 (p_x0 p) \<and> int_field 31 (p_y0 p) \<and> int_field 31 (p_width p) \<and>
     int_field 31 (p_width_internal p) \<and> int_field 31 (p_height p) \<and> p_flags p AND DCF_COMPRESSED = 0 \<and>
     length (p_palette p) = COLORS \<and> (p_flags p AND DCF_PALETTE = 0 \<longrightarrow> p_palette p = gr_palette_std) \<and>
     (case p_body p of None \<Rightarrow> False | Some b \<Rightarrow> length b = body_size (p_width_internal p) (p_height p))"

lemma le16_bytes: "take 2 (drop n bs) = le_bytes 2 (unat w) \<Longrightarrow> le16 bs n = w"
  using unsigned_less [of w, where ?'a = nat] by (simp add: le16_def le_val_le_bytes)

lemma le32_bytes: "take 4 (drop n bs) = le_bytes 4 (unat w) \<Longrightarrow> le32 bs n = w"
  using unat_bound32 [of w] by (simp add: le32_def le_val_le_bytes)

lemma le64_bytes: "take 8 (drop n bs) = le_bytes 8 (unat w) \<Longrightarrow> le64 bs n = w"
  using unat_bound64 [of w] by (simp add: le64_def le_val_le_bytes)

lemma int_field_word:
  "int_field 31 v \<Longrightarrow> sint (of_int v :: u32) = v" "int_field 63 v \<Longrightarrow> sint (of_int v :: u64) = v"
  by (simp_all add: int_field_def sint_sbintrunc' signed_take_bit_int_eq_self)

lemma head_length: "length (head_bytes p) = 32"
  by (simp add: head_bytes_def)

lemma dc_head_bytes:
  assumes "saved_picture p"
  shows "dc_head (head_bytes p @ rest) = p\<lparr>p_palette := gr_palette_std, p_body := None\<rparr>"
proof -
  let ?bs = "head_bytes p @ rest"
  have "le64 ?bs 0 = of_int (p_cdt p)" "le32 ?bs 8 = of_int (p_x0 p)" "le32 ?bs 12 = of_int (p_y0 p)"
    "le32 ?bs 16 = of_int (p_width p)" "le32 ?bs 20 = of_int (p_width_internal p)" "le32 ?bs 24 = of_int (p_height p)"
    "le32 ?bs 28 = p_flags p"
    by (rule le64_bytes le32_bytes; simp add: head_bytes_def)+
  then show ?thesis using assms by (cases p) (simp add: dc_head_def saved_picture_def int_field_word)
qed

lemma colour_length [simp]: "length (colour_bytes c) = 8"
  by (simp add: colour_bytes_def)

lemma read_palette_bytes:
  assumes "length cs = COLORS"
  shows "read_palette (concat (map colour_bytes cs) @ rest) = cs"
proof (rule nth_equalityI)
  have at: "drop (8 * i) (concat (map colour_bytes cs) @ rest) = colour_bytes (cs ! i) @ drop (8 * i + 8) (concat (map colour_bytes cs) @ rest)"
    if "i < length cs" for i and cs :: "bgr48 list"
    using that
  proof (induction cs arbitrary: i)
    case (Cons c cs)
    then show ?case by (cases i) (simp_all add: algebra_simps)
  qed simp
  show "length (read_palette (concat (map colour_bytes cs) @ rest)) = length cs" using assms by (simp add: read_palette_def)
  fix i
  assume "i < length (read_palette (concat (map colour_bytes cs) @ rest))"
  then have i: "i < length cs" "i < COLORS" using assms by (simp_all add: read_palette_def)
  let ?bs = "concat (map colour_bytes cs) @ rest"
  have d: "drop (8 * i + k) ?bs = drop k (colour_bytes (cs ! i) @ drop (8 * i + 8) ?bs)" for k
    using at [OF i(1)] by (metis add.commute drop_drop)
  have "le16 ?bs (8 * i + 0) = c_b (cs ! i)" "le16 ?bs (8 * i + 2) = c_g (cs ! i)" "le16 ?bs (8 * i + 4) = c_r (cs ! i)"
    "le16 ?bs (8 * i + 6) = c_pad (cs ! i)"
    by (rule le16_bytes, subst d, simp add: colour_bytes_def)+
  then show "read_palette ?bs ! i = cs ! i" using i(2) by (simp add: read_palette_def)
qed

text \<open>Loading a picture that is not compressed gives its fields, its palette (the standard one when it has none) and
  its body, and the number of bytes it takes in the file.\<close>

theorem DCLoad_saved:
  assumes "saved_picture p"
  shows "DCLoad junk (dc_bytes p @ rest) = Some (Inr (p, of_nat (length (dc_bytes p))))"
proof -
  obtain b where b: "p_body p = Some b" "length b = body_size (p_width_internal p) (p_height p)"
    using assms by (auto simp: saved_picture_def split: option.splits)
  have f: "p_flags p AND DCF_COMPRESSED = 0" "length (p_palette p) = COLORS"
    "p_flags p AND DCF_PALETTE = 0 \<Longrightarrow> p_palette p = gr_palette_std"
    using assms unfolding saved_picture_def by blast+
  have pl: "length (palette_bytes p) = (if p_flags p AND DCF_PALETTE \<noteq> 0 then PALETTE_SIZE else 0)"
    using f(2) by (simp add: palette_bytes_def PALETTE_SIZE_def length_concat sum_list_triv comp_def)
  let ?src = "head_bytes p @ palette_bytes p @ b @ rest"
  have src: "dc_bytes p @ rest = ?src" by (simp add: dc_bytes_def b)
  have head: "dc_head ?src = p\<lparr>p_palette := gr_palette_std, p_body := None\<rparr>" by (rule dc_head_bytes [OF assms])
  show ?thesis
  proof (cases "p_flags p AND DCF_PALETTE = 0")
    case True
    then have "palette_bytes p = []" by (simp add: palette_bytes_def)
    then show ?thesis unfolding src
      using True f b head by (cases p) (simp add: DCLoad_def Let_def DC_HEAD_def head_length dc_bytes_def)
  next
    case False
    then have pb: "palette_bytes p = concat (map colour_bytes (p_palette p))" by (simp add: palette_bytes_def)
    have "read_palette (drop DC_HEAD ?src) = p_palette p"
      using read_palette_bytes [OF f(2), of "b @ rest"] by (simp add: DC_HEAD_def head_length pb)
    then show ?thesis unfolding src
      using False f b head pl by (cases p) (simp add: DCLoad_def Let_def DC_HEAD_def head_length dc_bytes_def)
  qed
qed

theorem DCLoad_saved_witness:
  "DCLoad (\<lambda>_. 0) (dc_bytes (demo_picture\<lparr>p_palette := gr_palette_std\<rparr>) @ [0]) =
     Some (Inr (demo_picture\<lparr>p_palette := gr_palette_std\<rparr>, 48))"
proof -
  have "saved_picture (demo_picture\<lparr>p_palette := gr_palette_std\<rparr>)" by code_simp
  moreover have "of_nat (length (dc_bytes (demo_picture\<lparr>p_palette := gr_palette_std\<rparr>))) = (48 :: u32)" by code_simp
  ultimately show ?thesis by (simp only: DCLoad_saved)
qed

end
