(* ===== verification/StbmProps.thy ===== *)
theory StbmProps
  imports StbmSpec
begin

text \<open>
  The properties of the block allocator: blocks, freeing, programs of allocations, frees and writes, headers, the
  checker of the free lists, size classes and guard bytes.
\<close>

unbundle bit_operations_syntax

section \<open>A heap to look at\<close>

text \<open>A system with room for \<open>2 ^ 20\<close> requests of at most 8 GB, and a heap on it.\<close>

definition bump_env :: system_alloc where
  "bump_env j r = (if j < 2 ^ 20 \<and> r \<le> 2 ^ 33 then (2 ^ 34 * (j + 1), r) else (0, 0))"

lemma bump_env_ok: "env_ok bump_env"
proof -
  have "2 ^ 34 * (i + 1) + r \<le> 2 ^ 34 * (j + 1)" if "i < j" "r \<le> 2 ^ 33" for i j r :: nat
  proof -
    have "2 ^ 34 * (i + 2) \<le> 2 ^ 34 * (j + 1)" using that(1) by (intro mult_le_mono2) simp
    then show ?thesis using that(2) by simp
  qed
  moreover have "(2 ^ 34 * (j + 1)) mod 16 = (0 :: nat)" for j
    using mod_mult_left_eq [of "2 ^ 34" 16 "j + 1 :: nat"] by simp
  moreover have "2 ^ 34 * (j + 1) + r \<le> 2 ^ 62" if "j < 2 ^ 20" "r \<le> 2 ^ 33" for j r :: nat
  proof -
    have "2 ^ 34 * (j + 1) \<le> 2 ^ 34 * 2 ^ 20" using that(1) by (intro mult_le_mono2) simp
    then show ?thesis using that(2) by simp
  qed
  ultimately show ?thesis unfolding env_ok_def bump_env_def by (auto split: if_splits)
qed

definition blank_heap :: stbm_heap where
  "blank_heap = raw_heap (\<lambda>_. 0)"

text \<open>\<open>memset\<close> has cleared the configuration of Lilith's heaps; \<open>mmap\<close> gave 1 MB.\<close>

definition lilith_config :: stbm_heap_config where
  "lilith_config = \<lparr>hc_minimum_alignment = 0, hc_align_all_blocks_to_minimum = False\<rparr>"

definition demo_heap :: stbm_heap where
  "demo_heap = (case stbm_heap_init 0x1000 0x100000 lilith_config blank_heap of Inr (Some h) \<Rightarrow> h | _ \<Rightarrow> blank_heap)"

lemma demo_heap_inv: "stbm_inv bump_env True 100 demo_heap {}"
proof -
  have "sys_calls blank_heap = 0" by (simp add: blank_heap_def raw_heap_def)
  then have "\<exists>h'. stbm_heap_init 0x1000 0x100000 lilith_config blank_heap = Inr (Some h') \<and> stbm_inv bump_env True 100 h' {}"
    by (intro stbm_inv_start) (simp_all add: bump_env_ok bump_env_def lilith_config_def sizeof_stbm_heap_def)
  then show ?thesis unfolding demo_heap_def by auto
qed

section \<open>Properties\<close>

text \<open>C10: a block from the heap is large enough, lies apart from all the others, and no other block's data
  changes; \<open>NULL\<close> is returned only when the system has no memory.\<close>

theorem stbm_alloc_block:
  assumes "stbm_inv env served (Suc b) h L" "n \<le> 2 ^ 32"
  shows "\<exists>p h'. stbm_alloc env n 0 h = Some (Inr (p, h')) \<and> data_kept L h h' \<and>
    (if p = 0 then \<not> served \<and> stbm_inv env served b h' L
     else \<exists>m. n \<le> m \<and> stbm_inv env served b h' (insert (p, m) L) \<and> (\<forall>(q, k) \<in> L. q + k \<le> p \<or> p + m \<le> q))"
proof -
  obtain p h' where a: "stbm_alloc env n 0 h = Some (Inr (p, h'))" "data_kept L h h'"
    "p = 0 \<and> \<not> served \<and> stbm_inv env served b h' L \<or>
     (\<exists>m. p \<noteq> 0 \<and> n \<le> m \<and> stbm_inv env served b h' (insert (p, m) L) \<and> (p, m) \<notin> L)"
    using stb.alloc_law [OF assms] by blast
  have "q + k \<le> p \<or> p + m \<le> q" if "stbm_inv env served b h' (insert (p, m) L)" "(p, m) \<notin> L" "(q, k) \<in> L" for m q k
    using stb.apart_law [OF that(1), of q k p m] that(2,3) by auto
  then show ?thesis using a by (intro exI [of _ p] exI [of _ h']) auto
qed

theorem stbm_alloc_block_witness:
  "\<exists>p h' m. stbm_alloc bump_env 100 0 demo_heap = Some (Inr (p, h')) \<and> p \<noteq> 0 \<and> 100 \<le> m \<and>
     stbm_inv bump_env True 99 h' {(p, m)}"
proof -
  have "stbm_inv bump_env True (Suc 99) demo_heap {}" using demo_heap_inv by simp
  then have "\<exists>p h'. stbm_alloc bump_env 100 0 demo_heap = Some (Inr (p, h')) \<and> data_kept {} demo_heap h' \<and>
      (if p = 0 then \<not> True \<and> stbm_inv bump_env True 99 h' {}
       else \<exists>m. 100 \<le> m \<and> stbm_inv bump_env True 99 h' (insert (p, m) {}) \<and> (\<forall>(q, k) \<in> {}. q + k \<le> p \<or> p + m \<le> q))"
    by (rule stbm_alloc_block) simp
  then show ?thesis by (auto split: if_splits)
qed

text \<open>C11: freeing a block that is held succeeds, takes it and no other away, and changes no data of the others;
  the free lists, the boundary tags and the chunks are in order again.\<close>

theorem stbm_free_block:
  assumes "stbm_inv env served (Suc b) h L" "(p, n) \<in> L"
  shows "\<exists>h'. stbm_free p h = Some (Inr h') \<and> stbm_inv env served b h' (L - {(p, n)}) \<and> data_kept (L - {(p, n)}) h h'"
  using stb.free_law [OF assms] by blast

theorem stbm_free_block_witness:
  "\<exists>p h h'. stbm_alloc bump_env 100 0 demo_heap = Some (Inr (p, h)) \<and> stbm_free p h = Some (Inr h') \<and>
     stbm_inv bump_env True 98 h' {}"
proof -
  have "stbm_inv bump_env True (Suc 99) demo_heap {}" using demo_heap_inv by simp
  from stb.alloc_law [OF this, of 100] obtain p h m where
    h: "stbm_alloc bump_env 100 0 demo_heap = Some (Inr (p, h))" "stbm_inv bump_env True 99 h {(p, m)}" by auto
  have "stbm_inv bump_env True (Suc 98) h {(p, m)}" using h(2) by simp
  from stbm_free_block [OF this, of p m] h(1) show ?thesis by auto
qed

text \<open>C4: whatever a program does with a new heap, in whatever order it allocates, frees and writes, each of its
  blocks is an array of its own: every run ends without an error, the blocks are apart from each other, and a word
  that was stored is read back until the block is freed.\<close>

theorem stbm_runs_as_arrays:
  assumes env: "env_ok env" "\<forall>j r. sys_calls h \<le> j \<longrightarrow> j < sys_calls h + length xs \<longrightarrow> r \<le> 2 ^ 33 \<longrightarrow> fst (env j r) \<noteq> 0"
    and init: "sizeof_stbm_heap \<le> bytes" "hc_minimum_alignment hc \<le> 16" "\<not> hc_align_all_blocks_to_minimum hc"
    and xs: "ops_ok (2 ^ 32) [] xs" "length xs < 2 ^ 31" and A: "A = fold spec_step xs []"
  shows "\<exists>h0 ps h'. stbm_heap_init storage bytes hc h = Inr (Some h0) \<and>
    client_run (\<lambda>n. stbm_alloc env n 0) stbm_free st_word xs ([], h0) = Some (Inr (ps, h')) \<and>
    (\<forall>k < length A. \<forall>n c. A ! k = Some (n, c) \<longrightarrow> ps ! k \<noteq> 0 \<and>
       (\<forall>i v. c i = Some v \<longrightarrow> wd h' (ps ! k + 8 * i) = v) \<and>
       (\<forall>j < length A. \<forall>n' c'. j \<noteq> k \<longrightarrow> A ! j = Some (n', c') \<longrightarrow> ps ! j + n' \<le> ps ! k \<or> ps ! k + n \<le> ps ! j))"
proof -
  obtain h0 where h0: "stbm_heap_init storage bytes hc h = Inr (Some h0)" "stbm_inv env True (length xs) h0 {}"
    using stbm_inv_start [OF env(1) init xs(2)] env(2) by blast
  have "stb.represents env True (length xs + 0) ([], h0) {} []" using stb.represents_start [OF h0(2)] by simp
  from stb.run_represents [OF this xs(1)] obtain ps h' L where
    r: "client_run (\<lambda>n. stbm_alloc env n 0) stbm_free st_word xs ([], h0) = Some (Inr (ps, h'))"
      "stb.represents env True 0 (ps, h') L A"
    unfolding A by (metis surj_pair)
  have "ps ! k \<noteq> 0 \<and> (\<forall>i v. c i = Some v \<longrightarrow> wd h' (ps ! k + 8 * i) = v) \<and>
      (\<forall>j < length A. \<forall>n' c'. j \<noteq> k \<longrightarrow> A ! j = Some (n', c') \<longrightarrow> ps ! j + n' \<le> ps ! k \<or> ps ! k + n \<le> ps ! j)"
    if k: "k < length A" "A ! k = Some (n, c)" for k n c
  proof -
    have nz: "ps ! j \<noteq> 0" if "j < length A" "A ! j = Some nc" for j nc
      by (rule stb.represents_served [OF r(2) TrueI that])
    note arr = stb.represents_arrays [OF r(2) k nz [OF k]]
    show ?thesis using nz k arr by blast
  qed
  then show ?thesis using h0(1) r(1) by blast
qed

definition demo_ops :: "client_op list" where
  "demo_ops = [Alloc 100, Alloc 8, Store 0 3 42, Store 1 0 7, Free 0, Alloc 300000, Store 2 0 5]"

theorem stbm_runs_as_arrays_witness:
  "\<exists>h0 ps h'. stbm_heap_init 0x1000 0x100000 lilith_config blank_heap = Inr (Some h0) \<and>
    client_run (\<lambda>n. stbm_alloc bump_env n 0) stbm_free st_word demo_ops ([], h0) = Some (Inr (ps, h')) \<and>
    wd h' (ps ! 1) = 7 \<and> wd h' (ps ! 2) = 5 \<and> (ps ! 1 + 8 \<le> ps ! 2 \<or> ps ! 2 + 300000 \<le> ps ! 1)"
proof -
  let ?A = "[None, Some (8, [0 \<mapsto> 7]), Some (300000, [0 \<mapsto> 5])] :: arrays"
  have A: "?A = fold spec_step demo_ops []" by (simp add: demo_ops_def)
  obtain h0 ps h' where r: "stbm_heap_init 0x1000 0x100000 lilith_config blank_heap = Inr (Some h0)"
    "client_run (\<lambda>n. stbm_alloc bump_env n 0) stbm_free st_word demo_ops ([], h0) = Some (Inr (ps, h'))"
    "\<forall>k < length ?A. \<forall>n c. ?A ! k = Some (n, c) \<longrightarrow> ps ! k \<noteq> 0 \<and>
       (\<forall>i v. c i = Some v \<longrightarrow> wd h' (ps ! k + 8 * i) = v) \<and>
       (\<forall>j < length ?A. \<forall>n' c'. j \<noteq> k \<longrightarrow> ?A ! j = Some (n', c') \<longrightarrow> ps ! j + n' \<le> ps ! k \<or> ps ! k + n \<le> ps ! j)"
    using stbm_runs_as_arrays [OF bump_env_ok _ _ _ _ _ _ A, where h = blank_heap and bytes = "0x100000" and hc = lilith_config
      and storage = "0x1000"]
    by (auto simp: bump_env_def blank_heap_def raw_heap_def lilith_config_def sizeof_stbm_heap_def demo_ops_def)
  have k: "1 < length ?A" "?A ! 1 = Some (8, [0 \<mapsto> 7])" "2 < length ?A" "?A ! 2 = Some (300000, [0 \<mapsto> 5])" by simp_all
  have "\<forall>i v. [0 \<mapsto> 7] i = Some v \<longrightarrow> wd h' (ps ! 1 + 8 * i) = v" "\<forall>i v. [0 \<mapsto> 5] i = Some v \<longrightarrow> wd h' (ps ! 2 + 8 * i) = v"
    using r(3) k by blast+
  from this(1) [rule_format, of 0 7] this(2) [rule_format, of 0 5]
  have "wd h' (ps ! 1) = 7" "wd h' (ps ! 2) = 5" by simp_all
  moreover have "\<forall>j < length ?A. \<forall>n' c'. j \<noteq> 2 \<longrightarrow> ?A ! j = Some (n', c') \<longrightarrow> ps ! j + n' \<le> ps ! 2 \<or> ps ! 2 + 300000 \<le> ps ! j"
    using r(3) k(3,4) by blast
  from this [rule_format, OF k(1) _ k(2)] have "ps ! 1 + 8 \<le> ps ! 2 \<or> ps ! 2 + 300000 \<le> ps ! 1" by simp
  ultimately show ?thesis using r(1,2) by blast
qed

text \<open>The header of every block of the users tells its heap and its size, which is at least what was asked for.\<close>

theorem stbm_header_tells:
  assumes "stbm_inv env served b h L" "(p, n) \<in> L"
  shows "stbm_get_heap h p = Some (Inr (heap_addr h)) \<and> stbm_get_allocation_size h p = Some (Inr n)"
  using assms stbm_ok_header(1,2) unfolding stbm_inv_def by blast

theorem stbm_header_tells_witness:
  "\<exists>p h m. stbm_alloc bump_env 100 0 demo_heap = Some (Inr (p, h)) \<and> 100 \<le> m \<and>
     stbm_get_heap h p = Some (Inr (heap_addr h)) \<and> stbm_get_allocation_size h p = Some (Inr m)"
proof -
  have "stbm_inv bump_env True (Suc 99) demo_heap {}" using demo_heap_inv by simp
  from stb.alloc_law [OF this, of 100] obtain p h m where
    h: "stbm_alloc bump_env 100 0 demo_heap = Some (Inr (p, h))" "stbm_inv bump_env True 99 h {(p, m)}" "100 \<le> m" by auto
  show ?thesis using stbm_header_tells [OF h(2), of p m] h(1,3) by auto
qed

section \<open>The check of the free lists\<close>

text \<open>The word behind a free block.\<close>

lemma after_free_word:
  assumes ok: "heap_state h B C {} P" "flags_ok P B C" and a: "B a = Some (n, True)"
  shows "wd h (a + n + 8) AND PREVIOUS_MASK = 0"
proof -
  have sh: "shape B C" and hd: "headers (wd h) (heap_addr h) B C {} P" and co: "coalesced B {}"
    using ok(1) by (auto simp: heap_state_def)
  have P: "\<not> P (a + n)" using ok(2) end_not_chunk [OF sh a] flag_free_not [OF sh a] by (simp add: flags_ok_def)
  consider (tail) k s t where "C k = Some (s, t)" "a + n = k + t" | (used) m where "B (a + n) = Some (m, False)"
    using shapeD(5) [OF sh a] co a by (fastforce simp: tail_at_def coalesced_def)
  then show ?thesis
  proof cases
    case tail
    have "wd h (a + n + 8) = BLOCK_MASK" using headersD(2) [OF hd tail(1)] P tail(2) by (simp add: chunk_header_def)
    then show ?thesis by (simp add: BLOCK_MASK_def PREVIOUS_MASK_def)
  next
    case used
    have "alloc_header False m (wd h (a + n + 8))" using headersD(1) [OF hd used] P by (simp add: block_header_def)
    then obtain i s e where "i < 13" "s < 32" "wd h (a + n + 8) = alloc_prefix False i s e"
      unfolding alloc_header_def by blast
    then show ?thesis using alloc_prefix_bits(2) by simp
  qed
qed

text \<open>The block before a free block, if there is one, is in use.\<close>

lemma before_free_flag:
  assumes ok: "heap_state h B C {} P" "flags_ok P B C" and a: "B a = Some (n, True)" and w: "wd h (a - 8) < MEDIUM_CHUNK_PRE_HEADER"
  shows "P a"
proof -
  have sh: "shape B C" and hd: "headers (wd h) (heap_addr h) B C {} P" and co: "coalesced B {}"
    using ok(1) by (auto simp: heap_state_def)
  have C: "C a = None"
  proof (cases "C a")
    case (Some st)
    then obtain s t where "C a = Some (s, t)" by (cases st) auto
    then show ?thesis using headersD(2) [OF hd] w by (fastforce simp: chunk_header_def)
  qed
  then obtain b m g where b: "B b = Some (m, g)" "b + m = a" using shapeD(6) [OF sh a] by blast
  have "\<not> g" using co a b by (auto simp: coalesced_def)
  then have "pv B a" using b by (auto simp: pv_def)
  then show ?thesis using ok(2) C by (simp add: flags_ok_def)
qed

lemma class_of_slot:
  assumes "class_of n = i * 32 + s" "i < 13" "s < 32" "i \<noteq> 12 \<or> s \<noteq> 31"
  shows "index_slot_for_free_block n = Inr (i, s)"
proof -
  obtain j t where j: "block_class n = Inr (j, t)" "j < 13" "t < 32" "class_of n = j * 32 + t" by (rule block_class_ok)
  have c: "j * 32 + t = i * 32 + s" using j(4) assms(1) by simp
  have "(j * 32 + t) div 32 = j" "(i * 32 + s) div 32 = i" using j(3) assms(3) by simp_all
  then have e: "j = i" "t = s" using c by simp_all
  have "\<not> STBM_SIZECLASS_MAX \<le> n"
    using j(1) e assms(4) by (auto simp: block_class_def STBM_NUM_INDICES_def STBM_NUM_SLOTS_def)
  then show ?thesis using j(1) e by (simp add: block_class_def)
qed

lemma medium_check_blocks_ok:
  assumes ok: "heap_state h B C {} P" "flags_ok P B C" and i: "i < 13" "s < 32"
  shows "dll (wd h) v p xs \<Longrightarrow> \<forall>x \<in> set xs. \<exists>n. B x = Some (n, True) \<and> class_of n = i * 32 + s \<Longrightarrow>
    medium_check_blocks i s h p = Some (Inr ())"
proof (induction xs arbitrary: v p)
  case Nil
  then show ?case by (simp add: medium_check_blocks.simps)
next
  case (Cons a xs)
  then obtain n where n: "B a = Some (n, True)" "class_of n = i * 32 + s" and p: "p = a" "a \<noteq> 0"
    and rest: "dll (wd h) a (wd h (a + 16)) xs" by auto
  have sh: "shape B C" and hd: "headers (wd h) (heap_addr h) B C {} P" using ok(1) by (auto simp: heap_state_def)
  have nb: "n mod 16 = 0" "n < 2 ^ 21" using shapeD(2) [OF sh n(1)] block_bound(1) [OF sh n(1)] by simp_all
  have pre: "wd h (a + 8) = free_prefix (P a) n (i * 32 + s)"
    using headersD(1) [OF hd n(1)] n(2) by (simp add: block_header_def)
  note bits = free_prefix_bits [OF nb, of "P a" "i * 32 + s"]
  have c1: "wd h (a - 8) < MEDIUM_CHUNK_PRE_HEADER \<Longrightarrow> P a" by (rule before_free_flag [OF ok n(1)])
  have c2: "i \<noteq> 12 \<or> s \<noteq> 31 \<Longrightarrow> index_slot_for_free_block n = Inr (i, s)" by (rule class_of_slot [OF n(2) i])
  have c3: "wd h (a + 16) \<noteq> 0 \<Longrightarrow> wd h (wd h (a + 16)) = a" using rest by (cases xs) auto
  have c4: "wd h (a + n + 8) AND PREVIOUS_MASK = 0" by (rule after_free_word [OF ok n(1)])
  have c5: "(i * 32 + s) div 32 = i" "(i * 32 + s) mod 32 = s" using i by simp_all
  have "medium_check_blocks i s h p = medium_check_blocks i s h (wd h (a + 16))"
    using c1 c2 c3 c4 c5 p by (subst medium_check_blocks.simps) (auto simp: pre bits)
  also have "\<dots> = Some (Inr ())" by (rule Cons.IH [OF rest]) (use Cons.prems(2) in simp)
  finally show ?case .
qed

lemma all_checks_ok: "list_all (\<lambda>c. c = Some (Inr ())) cs \<Longrightarrow> all_checks cs = Some (Inr ())"
  by (induction cs) simp_all

lemma map_bit_zero: "v AND map_bit i = 0 \<longleftrightarrow> \<not> bit v (31 - i)"
  unfolding map_bit_def push_bit_of_1 and_exp_eq_0_iff_not_bit ..

text \<open>C22: the checker of the library, which walks every free list and its bitmaps, finds nothing wrong in a heap,
  whatever its users did before.\<close>

theorem stbm_check_passes:
  assumes "stbm_inv env served b h L"
  shows "medium_check_all h = Some (Inr ())"
proof -
  obtain B C P S G R where "stbm_state env h B C P S G R {}" using assms unfolding stbm_inv_def stbm_ok_def by blast
  note ok = stbm_stateD(1,2) [OF this]
  have ls: "lists_ok h (free_of B {})" using ok(1) by (simp add: heap_state_def)
  have bits: "\<And>j t. j < 13 \<Longrightarrow> t < 32 \<Longrightarrow> bit (bitmap h j) (31 - t) \<longleftrightarrow> free_lists h j t \<noteq> 0"
    "\<And>j. j < 13 \<Longrightarrow> bit (toplevel_bitmap h) (31 - j) \<longleftrightarrow> bitmap h j \<noteq> 0"
    using ls unfolding lists_ok_def by blast+
  have lists: "medium_check_list h i s = Some (Inr ())" if i: "i < 13" "s < 32" for i s
  proof -
    obtain xs where xs: "dll (wd h) 0 (free_lists h i s) xs" "set xs = {a. free_of B {} a = Some (i * 32 + s)}"
      by (rule list_of [OF ls i])
    have "\<forall>x \<in> set xs. \<exists>n. B x = Some (n, True) \<and> class_of n = i * 32 + s" using xs(2) by (auto simp: free_of_Some)
    from medium_check_blocks_ok [OF ok i xs(1) this] show ?thesis
      using bits(1) [OF i] by (simp add: medium_check_list_def map_bit_zero)
  qed
  have top: "(toplevel_bitmap h AND map_bit i = 0) = (bitmap h i = 0)" if "i < 13" for i
    using bits(2) [OF that] by (simp add: map_bit_zero)
  show ?thesis unfolding medium_check_all_def by (rule all_checks_ok) (simp add: list_all_iff lists top)
qed

theorem stbm_check_passes_witness: "medium_check_all demo_heap = Some (Inr ())"
  by (rule stbm_check_passes [OF demo_heap_inv])

text \<open>C23: size classes fit best. A request gets the smallest class that is large enough; a free block is filed under
  the largest class that is not larger.\<close>

theorem size_class_best_fit:
  assumes "n \<le> STBM_SIZECLASS_MAX"
  shows "(\<exists>i s. index_slot_for_request n = Inr (i, s) \<and> i < 13 \<and> s < 32 \<and> n \<le> size_for_index_slot i s \<and>
      (\<forall>j < 13. \<forall>t < 32. n \<le> size_for_index_slot j t \<longrightarrow> size_for_index_slot i s \<le> size_for_index_slot j t)) \<and>
    (\<exists>i s. index_slot_for_free_block n = Inr (i, s) \<and> i < 13 \<and> s < 32 \<and> size_for_index_slot i s \<le> n \<and>
      (\<forall>j < 13. \<forall>t < 32. size_for_index_slot j t \<le> n \<longrightarrow> size_for_index_slot j t \<le> size_for_index_slot i s))"
proof
  obtain i s where r: "index_slot_for_request n = Inr (i, s)" "i < 13" "s < 32" "n \<le> class_size (i * 32 + s)"
    "\<And>k. n \<le> class_size k \<Longrightarrow> i * 32 + s \<le> k"
    using index_slot_for_request_class [OF assms] by blast
  have "class_size (i * 32 + s) \<le> class_size (j * 32 + t)" if "n \<le> class_size (j * 32 + t)" for j t
    using class_size_le r(5) [OF that] by blast
  then show "\<exists>i s. index_slot_for_request n = Inr (i, s) \<and> i < 13 \<and> s < 32 \<and> n \<le> size_for_index_slot i s \<and>
      (\<forall>j < 13. \<forall>t < 32. n \<le> size_for_index_slot j t \<longrightarrow> size_for_index_slot i s \<le> size_for_index_slot j t)"
    using r(1-4) by (intro exI [of _ i] exI [of _ s]) (simp add: size_for_index_slot_class)
next
  have "n < 2 ^ 20" using assms by (simp add: STBM_SIZECLASS_MAX_def)
  then obtain i s where f: "index_slot_for_free_block n = Inr (i, s)" "i < 13" "s < 32" "class_size (i * 32 + s) \<le> n"
    "n < class_size (Suc (i * 32 + s))"
    by (rule index_slot_for_free_block_class)
  have "class_size (j * 32 + t) \<le> class_size (i * 32 + s)" if "class_size (j * 32 + t) \<le> n" for j t
  proof -
    have "class_size (j * 32 + t) < class_size (Suc (i * 32 + s))" using that f(5) by simp
    then show ?thesis by (simp only: class_size_less_iff class_size_le less_Suc_eq_le)
  qed
  then show "\<exists>i s. index_slot_for_free_block n = Inr (i, s) \<and> i < 13 \<and> s < 32 \<and> size_for_index_slot i s \<le> n \<and>
      (\<forall>j < 13. \<forall>t < 32. size_for_index_slot j t \<le> n \<longrightarrow> size_for_index_slot j t \<le> size_for_index_slot i s)"
    using f(1-4) by (intro exI [of _ i] exI [of _ s]) (simp add: size_for_index_slot_class)
qed

theorem size_class_best_fit_witness:
  "\<exists>i s. index_slot_for_request 1000 = Inr (i, s) \<and> 1000 \<le> size_for_index_slot i s \<and> size_for_index_slot i s \<le> 1024"
proof -
  have "\<exists>i s. index_slot_for_request 1000 = Inr (i, s) \<and> i < 13 \<and> s < 32 \<and> 1000 \<le> size_for_index_slot i s \<and>
      (\<forall>j < 13. \<forall>t < 32. 1000 \<le> size_for_index_slot j t \<longrightarrow> size_for_index_slot i s \<le> size_for_index_slot j t)"
    by (rule size_class_best_fit [THEN conjunct1]) (simp add: STBM_SIZECLASS_MAX_def)
  then obtain i s where f: "index_slot_for_request 1000 = Inr (i, s)" "1000 \<le> size_for_index_slot i s"
    "\<forall>j < 13. \<forall>t < 32. 1000 \<le> size_for_index_slot j t \<longrightarrow> size_for_index_slot i s \<le> size_for_index_slot j t"
    by blast
  from f(3) [rule_format, of 3 0] have "size_for_index_slot i s \<le> 1024"
    by (simp add: size_for_index_slot_def [of 3 0] stbm_size_classes_def)
  with f(1,2) show ?thesis by blast
qed

section \<open>Large requests\<close>

text \<open>The sizes wrap around: the system is asked for 15 bytes, and the block has 80 bytes less than \<open>2 ^ 64\<close>.\<close>

lemma large_alloc_wraps:
  assumes "minimum_alignment h = 16" "env (sys_calls h) 15 = (s, 15)" "0 < s" "s mod 16 = 0" "s < 2 ^ 62"
  shows "\<exists>h'. large_alloc env (2 ^ 64 - 80) h = Inr (s + 80, h') \<and> stbm_get_allocation_size h' (s + 80) = Some (Inr (2 ^ 64 - 65))"
proof -
  have a: "align_address (s + 80) 16 0 = Inr (s + 80)" using align_address_16 [of "s + 80" 0] assms(4,5) by (simp add: mod_add_eq [of s 16 80, symmetric])
  show ?thesis
    using assms
    by (simp add: large_alloc_def large_wrap_def a Let_def st_word_def system_alloc_link_def stats_update_alloc_def
      stbm_get_allocation_size.simps TYPE_of_mod type_values)
qed

section \<open>Guard bytes\<close>

text \<open>Allocating leaves the number of guard bytes as it is.\<close>

named_theorems guard_defs

lemmas [guard_defs] = st_word_def stats_update_alloc_def system_alloc_link_def system_free_def smallchunk_link_full_def
  smallchunk_link_nonfull_def smallchunk_unlink_nonfull_def set_num_full_def Let_def stbm_assert_def res_bind_Inr_iff

lemma res_bindE: "res_bind r f = Inr y \<Longrightarrow> (\<And>v. r = Inr v \<Longrightarrow> f v = Inr y \<Longrightarrow> P) \<Longrightarrow> P"
  by (cases r) auto

lemma stbm_assertE: "stbm_assert b r = Inr y \<Longrightarrow> (r = Inr y \<Longrightarrow> P) \<Longrightarrow> P"
  by (simp add: stbm_assert_def split: if_splits)

lemma ifE: "(if b then r else r') = Inr y \<Longrightarrow> (r = Inr y \<Longrightarrow> P) \<Longrightarrow> (r' = Inr y \<Longrightarrow> P) \<Longrightarrow> P"
  by (simp split: if_splits)

lemma guard_medium_link: "medium_link a n h = Inr h' \<Longrightarrow> num_guard_bytes h' = num_guard_bytes h"
  by (auto simp: medium_link_def guard_defs split: if_splits)

lemma guard_medium_unlink: "medium_unlink a h = Inr h' \<Longrightarrow> num_guard_bytes h' = num_guard_bytes h"
  by (auto simp: medium_unlink_def guard_defs split: if_splits)

lemma guard_medium_init_chunk: "medium_init_chunk r s h = Inr v \<Longrightarrow> num_guard_bytes (snd v) = num_guard_bytes h"
  unfolding medium_init_chunk_def Let_def by (elim res_bindE stbm_assertE) (auto simp: st_word_def)

lemma guard_new_chunk: "new_chunk env e n h = Inr v \<Longrightarrow> num_guard_bytes (snd v) = num_guard_bytes h"
  unfolding new_chunk_def Let_def case_prod_unfold
  by (elim ifE res_bindE stbm_assertE)
    (auto simp: system_alloc_link_def st_word_def system_free_def dest!: guard_medium_init_chunk split: if_splits)

lemma guard_take_block: "take_block i s j t n h = Inr v \<Longrightarrow> num_guard_bytes (snd v) = num_guard_bytes h"
  unfolding take_block_def Let_def by (elim res_bindE stbm_assertE) (auto dest!: guard_medium_unlink)

lemma guard_find_block: "find_block env i s n h = Inr v \<Longrightarrow> num_guard_bytes (snd v) = num_guard_bytes h"
  unfolding find_block_def Let_def by (elim ifE stbm_assertE) (auto dest: guard_take_block guard_new_chunk)

lemma guard_split_block: "split_block a n e h = Inr v \<Longrightarrow> num_guard_bytes (snd v) = num_guard_bytes h"
  unfolding split_block_def Let_def by (elim ifE res_bindE stbm_assertE) (auto simp: st_word_def dest!: guard_medium_link)

lemma guard_make_allocated: "make_allocated a n i s h = Inr v \<Longrightarrow> num_guard_bytes (snd v) = num_guard_bytes h"
  unfolding make_allocated_def Let_def by (elim stbm_assertE) (auto simp: st_word_def stats_update_alloc_def Let_def)

lemma guard_medium_alloc: "medium_alloc env n h = Inr v \<Longrightarrow> num_guard_bytes (snd v) = num_guard_bytes h"
  unfolding medium_alloc_def Let_def case_prod_unfold
  by (elim res_bindE stbm_assertE ifE, drule guard_find_block, force,
    drule guard_find_block, drule guard_split_block, drule guard_make_allocated, simp)

lemma guard_small_new_chunk: "small_new_chunk env h = Inr v \<Longrightarrow> num_guard_bytes (snd v) = num_guard_bytes h"
  unfolding small_new_chunk_def Let_def case_prod_unfold
  by (elim res_bindE stbm_assertE ifE) (auto simp: st_word_def set_num_full_def dest!: guard_medium_alloc)

lemma guard_small_find_chunk: "small_find_chunk env h = Inr v \<Longrightarrow> num_guard_bytes (snd v) = num_guard_bytes h"
  unfolding small_find_chunk_def case_prod_unfold
  by (cases "small_nonfull h")
    (auto simp: smallchunk_link_nonfull_def elim!: res_bindE ifE dest!: guard_small_new_chunk split: if_splits)

lemma guard_small_take_cell: "small_take_cell c n h = Inr v \<Longrightarrow> num_guard_bytes (snd v) = num_guard_bytes h"
  unfolding small_take_cell_def Let_def by (elim stbm_assertE ifE) (auto simp: st_word_def)

lemma guard_small_taken: "num_guard_bytes (small_taken c h) = num_guard_bytes h"
  by (simp add: small_taken_def st_word_def stats_update_alloc_def set_num_full_def smallchunk_link_full_def
    smallchunk_unlink_nonfull_def Let_def)

lemma guard_small_take: "small_take c n h = Inr v \<Longrightarrow> num_guard_bytes (snd v) = num_guard_bytes h"
  unfolding small_take_def case_prod_unfold
  by (elim res_bindE stbm_assertE) (auto simp: guard_small_taken dest!: guard_small_take_cell)

lemma guard_small_alloc: "small_alloc env n h = Inr v \<Longrightarrow> num_guard_bytes (snd v) = num_guard_bytes h"
  unfolding small_alloc_def case_prod_unfold
  by (elim res_bindE ifE) (auto dest!: guard_small_find_chunk guard_small_take)

lemma guard_simps:
  "num_guard_bytes (st_word a v h) = num_guard_bytes h" "num_guard_bytes (stats_update_alloc n h) = num_guard_bytes h"
  "num_guard_bytes (system_alloc_link s m h) = num_guard_bytes h" "num_guard_bytes (h\<lparr>sys_calls := k\<rparr>) = num_guard_bytes h"
  by (simp_all add: st_word_def stats_update_alloc_def system_alloc_link_def Let_def)

lemma Inr_snd: "Inr (a, h) = Inr v \<Longrightarrow> snd v = h"
  by auto

lemma guard_large_alloc: "large_alloc env n h = Inr v \<Longrightarrow> num_guard_bytes (snd v) = num_guard_bytes h"
  unfolding large_alloc_def large_wrap_def Let_def case_prod_unfold
  by (elim ifE res_bindE stbm_assertE; drule Inr_snd; simp only: guard_simps)

lemma guard_heap_alloc: "heap_alloc env n h = Inr v \<Longrightarrow> num_guard_bytes (snd v) = num_guard_bytes h"
  unfolding heap_alloc_def by (elim ifE) (erule guard_small_alloc guard_medium_alloc guard_large_alloc)+

lemma guard_alloc_aligned:
  "alloc_aligned_internal env n al off header footer h = Inr v \<Longrightarrow> num_guard_bytes (snd v) = num_guard_bytes h"
  unfolding alloc_aligned_internal_def Let_def case_prod_unfold
  by (elim res_bindE ifE; drule guard_heap_alloc; drule Inr_snd; simp only: guard_simps)

text \<open>The size that a block with debugging information has, from its header.\<close>

lemma debug_type: "TYPE_of (DEBUG_SETMAGIC (USERDATA_SETBITS (TYPE_debug OR d) u)) = TYPE_of (TYPE_debug OR d)"
proof -
  have t: "TYPE_of x = take_bit 3 x" for x by (simp add: TYPE_of_mod take_bit_eq_mod)
  have m: "take_bit 3 (0xffff :: nat) = mask 3" "take_bit 3 (2 ^ 64 - 1 - 0xff00 :: nat) = mask 3"
    by (simp_all add: take_bit_eq_mod mask_eq_exp_minus_1)
  define v where "v = push_bit 16 u mod 2 ^ 32"
  define y where "y = (if 2 ^ 31 \<le> v then v + (2 ^ 64 - 2 ^ 32) else v)"
  have "(8 :: nat) dvd push_bit 16 u" by (simp add: push_bit_eq_mult)
  then have "(8 :: nat) dvd v" unfolding v_def by (simp add: dvd_mod)
  then have "y mod 8 = 0" unfolding y_def by (auto simp: mod_add_eq [symmetric])
  then have z: "take_bit 3 y = 0" "take_bit 3 DEBUG_MAGIC = 0"
    by (simp_all add: DEBUG_MAGIC_def take_bit_eq_mod)
  show ?thesis
    unfolding t DEBUG_SETMAGIC_def USERDATA_SETBITS_def Let_def v_def [symmetric] y_def [symmetric]
    by (simp only: take_bit_or take_bit_and m z or.right_neutral or.left_neutral flip: take_bit_eq_mask) simp
qed

text \<open>The settings for guard bytes and debugging are not part of what the blocks rely on.\<close>

lemma stbm_ok_guards: "stbm_ok env h L \<Longrightarrow> stbm_ok env (stbm_heapconfig_set_trailing_guard_bytes k c h) L"
  unfolding stbm_ok_def stbm_heapconfig_set_trailing_guard_bytes_def
  by (simp add: stbm_state_def heap_state_def lists_ok_def config_ok_def stats_ok_def settings_ok_def)

text \<open>Under the headers of a block with guard bytes lies a block that the heap has room for; the user's bytes start
  56 or 64 bytes into it.\<close>

lemma guard_block_found:
  assumes inv: "stbm_inv env True (Suc b) h L" and n: "n + g + 64 \<le> 2 ^ 32"
    and hg: "hg = stbm_heapconfig_set_trailing_guard_bytes k c h"
  obtains up base h1 where "alloc_aligned_internal env n 0 off 56 g hg = Inr ((up, base, n + g + 64), h1)"
    "base + 56 \<le> up" "up \<le> base + 64" "base \<noteq> 0"
proof -
  have f: "stbm_ok env hg L" "env_ok env" "cur_outstanding_allocations_count hg + 2 < 2 ^ 32"
    "cur_outstanding_allocations_bytes hg + 2 ^ 22 + (n + g + 64) < 2 ^ 64" "sys_calls hg = sys_calls h"
    using inv n stbm_ok_guards [of env h L k c]
    by (simp_all add: stbm_inv_def hg stbm_heapconfig_set_trailing_guard_bytes_def)
  have min: "minimum_alignment hg = 16"
    using f(1) stbm_stateD(10) unfolding stbm_ok_def config_ok_def by blast
  have round: "round_up_to_multiple_of_power_of_two 56 16 = Inr 64"
    by (simp add: round_up_to_multiple_of_power_of_two_def is_pow2_def stbm_assert_def)
  from f(1,2) n f(3,4) show thesis
  proof (cases rule: heap_alloc_ok)
    case (null h')
    then obtain r where "r \<le> 2 ^ 33" "fst (env (sys_calls h) r) = 0"
      using f(5) unfolding no_memory_def by auto
    moreover have "\<forall>j r. sys_calls h \<le> j \<longrightarrow> j < sys_calls h + Suc b \<longrightarrow> r \<le> 2 ^ 33 \<longrightarrow> fst (env j r) \<noteq> 0"
      using inv by (simp add: stbm_inv_def)
    ultimately show thesis by auto
  next
    case (block p m h')
    have p: "p mod 8 = 0" "p + m \<le> 2 ^ 62"
      using stbm_ok_nonnull [OF block(5), of p m] stbm_ok_bound [OF block(5), of p m] by auto
    define d where "d = (0 + 16 - (p + 56) mod 16) mod 16"
    have "p mod 16 = 0 \<or> p mod 16 = 8" using p(1) by presburger
    then have "(p + 56) mod 16 = 8 \<or> (p + 56) mod 16 = 0" by (auto simp: mod_add_eq [of p 16 56, symmetric])
    then have d: "d \<le> 8" unfolding d_def by auto
    have al: "align_address (p + 56) 16 0 = Inr (p + 56 + d)"
      unfolding d_def using p(2) by (intro align_address_16) simp_all
    let ?h = "st_word (p - 8) (wd h' (p - 8) OR WRAPPED_true) h'"
    have "alloc_aligned_internal env n 0 off 56 g hg = Inr ((p + 56 + d, p, n + g + 64), ?h)"
    proof -
      have e: "(56 + 2 ^ 64 - 0) mod 2 ^ 64 = (56 :: nat)" "(64 + 0) mod 2 ^ 64 = (64 :: nat)" "\<not> 16 < (16 :: nat)"
        by simp_all
      have m: "(64 + n + g) mod 2 ^ 64 = n + g + 64" using n by simp
      show ?thesis
        unfolding alloc_aligned_internal_def Let_def min if_P [OF refl] prod.case e round res_bind_simps if_not_P [OF e(3)]
          m block(1) if_not_P [OF block(2)] al ..
    qed
    then show thesis by (rule that) (use d block(2) in simp_all)
  qed
qed

text \<open>C40: guard bytes may be switched on at any time (\<open>stb_malloc.h:42\<close>), and with them every allocation of a block of
  the default alignment, by \<open>stbm_alloc\<close> or \<open>stbm_alloc_fileline\<close>, aborts the program: for every heap in use whose system
  has memory, every size (with the guard bytes and the 64 bytes of headers at most 4 GB), user data, value and number
  of guard bytes other than 0. The memory is there, but the excess over the user's bytes is computed from the size that
  the block's new header already gives, so it is 0, and the assertion that the guard bytes fit in it fails.\<close>

theorem guard_bytes_abort:
  assumes inv: "stbm_inv env True (Suc b) h L" and g: "num_bytes mod 2 ^ 32 \<noteq> 0"
    and n: "n + num_bytes mod 2 ^ 32 + 64 \<le> 2 ^ 32"
  shows "stbm_alloc env n u (stbm_heapconfig_set_trailing_guard_bytes num_bytes c h) = Some (Inl (ExitWith 1)) \<and>
    stbm_alloc_fileline env n u file line (stbm_heapconfig_set_trailing_guard_bytes num_bytes c h) =
      Some (Inl (ExitWith 1))"
proof -
  define hg where "hg = stbm_heapconfig_set_trailing_guard_bytes num_bytes c h"
  have s: "num_guard_bytes hg = num_bytes mod 2 ^ 32" "force_debug hg"
    by (simp_all add: hg_def stbm_heapconfig_set_trailing_guard_bytes_def)
  obtain up base h1 where a: "alloc_aligned_internal env n 0 0 56 (num_bytes mod 2 ^ 32) hg =
      Inr ((up, base, n + num_bytes mod 2 ^ 32 + 64), h1)" and up: "base + 56 \<le> up" "up \<le> base + 64" "base \<noteq> 0"
    by (rule guard_block_found [OF inv n hg_def])
  have g1: "num_guard_bytes h1 = num_bytes mod 2 ^ 32" using guard_alloc_aligned [OF a] s(1) by simp
  let ?h2 = "st_word (up - 8) (DEBUG_SETMAGIC (USERDATA_SETBITS (TYPE_debug OR DEBUG_2) u)) (st_word (up - 16) n (st_word (up - 24) base h1))"
  have t: "TYPE_of (TYPE_debug OR DEBUG_2) = 3" by (simp add: TYPE_debug_def DEBUG_2_def TYPE_of_mod)
  have w: "wd ?h2 (up - 8) = DEBUG_SETMAGIC (USERDATA_SETBITS (TYPE_debug OR DEBUG_2) u)" by (simp add: st_word_def)
  have "TYPE_of (wd ?h2 (up - 8)) = 3" unfolding w debug_type by (rule t)
  moreover have "up - 16 \<noteq> up - 8" using up(1) by arith
  then have "wd ?h2 (up - 16) = n" by (simp add: st_word_def)
  ultimately have size: "stbm_get_allocation_size ?h2 up = Some (Inr n)"
    by (subst stbm_get_allocation_size.simps) (simp add: type_values)
  have "alloc_debug2 env n u 0 0 f l 0 hg = Some (Inl (ExitWith 1))" for f l
  proof -
    have r: "round_up_to_multiple_of_power_of_two 0 8 = Inr 0"
      by (simp add: round_up_to_multiple_of_power_of_two_def is_pow2_def stbm_assert_def)
    have "up \<noteq> 0" "up + n + num_guard_bytes h1 \<le> base + (n + num_bytes mod 2 ^ 32 + 64)" "base + 32 \<le> up - 24"
      using up g1 by simp_all
    then show ?thesis
      using a size g g1 s(1) by (simp add: alloc_debug2_def r Let_def guard_simps stbm_assert_def)
  qed
  then show ?thesis
    using s g unfolding hg_def [symmetric] by (simp add: stbm_alloc_def stbm_alloc_fileline_def alloc_debug_def)
qed

theorem guard_bytes_abort_witness:
  "stbm_alloc bump_env 100 0xffff (stbm_heapconfig_set_trailing_guard_bytes 16 0xcc demo_heap) = Some (Inl (ExitWith 1)) \<and>
   stbm_alloc_fileline bump_env 100 0xffff 0 0 (stbm_heapconfig_set_trailing_guard_bytes 16 0xcc demo_heap) =
     Some (Inl (ExitWith 1))"
  by (rule guard_bytes_abort [where b = 99 and L = "{}"]) (use demo_heap_inv in simp_all)

end
