(* ===== verification/Spec2Isabelle.thy ===== *)
theory Spec2Isabelle
  imports HashTable MemMap TosTable Loader KernelPatch Utils Layout Task TosAlloc TaskInit
    Keyboard Trace Wildcard FileSys Syscalls TaskSync Heaps X11 Boot Archive Pictures
    StbmProps
begin

text \<open>
  Lilith (\<open>src/lilith\<close>) runs the TempleOS kernel, compiler and programs as a Linux process: it
  loads the kernel image, patches out the privileged instructions, replaces kernel functions by
  system calls into C, runs every TempleOS task as a POSIX thread, and shows the windows of tasks
  with X11. This development models the C code of Lilith.

  \<^bold>\<open>How the parts interact.\<close> \<open>main\<close> (\<open>Boot\<close>) creates the two heaps (\<open>Heaps\<close>), loads and patches the
  kernel (\<open>KernelPatch\<close>, on the load pass of \<open>Loader\<close> and the symbol table of \<open>HashTable\<close>), builds
  the first task (\<open>TaskInit\<close>, at the offsets of \<open>Layout\<close>), initialises globals and hands over to
  TempleOS through \<open>call_templeos\<close> (\<open>Task\<close>). TempleOS calls back through the trampolines into the
  system calls (\<open>Syscalls\<close>, \<open>TosAlloc\<close>, \<open>TaskInit\<close>, \<open>TaskSync\<close>), each of which switches from the
  TempleOS world to the C world and back (\<open>Task\<close>). A signal prints a stack trace (\<open>Trace\<close>). The X11
  loop (\<open>X11\<close>, \<open>Keyboard\<close>) redraws windows and sends key events by calling TempleOS.

  \<^bold>\<open>Theories and the files they model.\<close>
  \<^item> \<open>Prelude\<close>, \<open>CMem\<close>: machine integers, outcomes of C code (a sum type: \<open>Inl\<close> of the way the code
    fails, \<open>Inr\<close> of the result), byte-addressed little-endian memory.
  \<^item> \<open>HashTable\<close> (\<open>hash.c\<close>): the string hash table; the locale \<open>symbol_table\<close> is the contract the symbol
    table and the table of paths rely on.
  \<^item> \<open>MemMap\<close> (\<open>task.c\<close>): the registry of memory that belongs to TempleOS.
  \<^item> \<open>TosTable\<close> (\<open>templeos_hash_table.c\<close>, \<open>defs.h\<close>): symbol tables of tasks and their iterator.
  \<^item> \<open>Machine\<close>: the record of the state the C code works on.
  \<^item> \<open>Loader\<close> (\<open>load.c\<close>): the patch table as a datatype with its encoding; \<open>load_pass1\<close> reads bytes.
  \<^item> \<open>KernelPatch\<close> (\<open>load.c\<close>, \<open>syscalls_tramp.c\<close>, \<open>utils.c\<close>): header checks, placement, patches,
    trampolines.
  \<^item> \<open>Utils\<close> (\<open>utils.c\<close>, \<open>lilith.c\<close>): strings, bit fields, interned paths, the tables of bits.
  \<^item> \<open>Layout\<close> (\<open>templeos_defs.h\<close>, \<open>task.c\<close>, \<open>syscalls.c\<close>): the shared structs as C types, with sizes and
    offsets by the rules of the ABI.
  \<^item> \<open>Task\<close> (\<open>task.c\<close>): the switch between the worlds (locale \<open>world_switch\<close>), entry points, calls.
  \<^item> \<open>TosAlloc\<close> (\<open>task.c\<close>, \<open>syscalls.c\<close>) and \<open>Heaps\<close> (\<open>alloc.c\<close>): memory for TempleOS, the spin locks
    of the heaps and their creation.
  \<^item> \<open>TaskInit\<close> (\<open>task.c\<close>, \<open>syscalls.c\<close>): the first task, new tasks, the thread function.
  \<^item> \<open>TaskSync\<close> (\<open>syscalls.c\<close>, \<open>task.c\<close>): the monitor of a task and the hand-shake of \<open>Spawn\<close> as step
    relations over interleaved threads.
  \<^item> \<open>Wildcard\<close>, \<open>FileSys\<close>, \<open>Syscalls\<close> (\<open>syscalls.c\<close>): file masks, directory search, reading and writing
    files, console and time.
  \<^item> \<open>Trace\<close> (\<open>templeos_hash_table.c\<close>, \<open>utils.c\<close>): symbolication, stack traces, the signal handler.
  \<^item> \<open>Keyboard\<close>, \<open>X11\<close> (\<open>x11.c\<close>): key translation, windows, images, the event loop.
  \<^item> \<open>Boot\<close> (\<open>lilith.c\<close>): \<open>main\<close>.
  \<^item> \<open>Archive\<close>, \<open>Pictures\<close> (\<open>TOSZ.CPP\<close>, a separate tool): the decompression of TempleOS files; loading and
    copying pictures, and their conversion to bitmaps.

  The block allocator behind the heaps (\<open>stb_malloc.h\<close>, about half of the C code that is not data):
  \<^item> \<open>SizeClass\<close>: logarithms, the scan of bitmaps and the \<open>13 * 32\<close> size classes.
  \<^item> \<open>Tlsf\<close>: the record of a heap, headers and the allocator of medium blocks with its free lists, bitmaps,
    boundary tags and chunks. \<open>TlsfLists\<close>, \<open>TlsfShape\<close> and \<open>TlsfInv\<close> have its invariant (doubly linked lists that
    hold the free blocks of their class, blocks that tile their chunks and are coalesced, headers that say so),
    \<open>TlsfOps\<close>, \<open>TlsfAlloc\<close> and \<open>TlsfFree\<close> that every step of allocating and freeing keeps it.
  \<^item> \<open>Stbm\<close>: tiny blocks from small chunks, large ones from the system, the choice between the three;
    \<open>Slab\<close> and \<open>StbmInv\<close> have their invariant, \<open>StbmAlloc\<close> and \<open>StbmFree\<close> that it is kept.
  \<^item> \<open>StbmApi\<close>: the interface above: headers, user data, aligned and debug blocks, guard bytes, reallocation,
    creation, settings, check and destruction of a heap.
  \<^item> \<open>BlockAlloc\<close>: the contract of a block allocator (locale \<open>block_allocator\<close>) and what a program sees of one that
    keeps it: arrays of its own. \<open>StbmSpec\<close> interprets the contract on the model of the heap, and \<open>StbmProps\<close> has the
    properties. \<open>Heaps\<close> makes the two heaps with it; the components that allocate work with the addresses they get.

  \<^bold>\<open>How state corresponds to the code.\<close> Memory shared with TempleOS is the byte memory \<open>mem\<close>; a struct in it
  is read and written at the offsets \<open>fld\<close> of its declaration. The hash tables, the registry and the
  list of threads, which only C code touches, are records and lists; a pointer into them is an index.
  FS and GS bases are fields of \<open>tstate\<close>. The allocator keeps its headers in aligned words between the
  blocks; its heap is a record with the store of these words, in which structs are accessed by the
  offsets of their fields, and natural numbers are its addresses. What lies outside \<open>src\<close> is a parameter: TempleOS machine code
  (\<open>e_code\<close>), \<open>mmap\<close> and \<open>malloc\<close> (an \<open>allocator\<close>: the address given to the \<open>n\<close>-th request; \<open>system_alloc\<close> in the
  allocator), the host file system and clock (\<open>os_env\<close>), the X server (\<open>xserver\<close>), the results of
  the pthread functions. Hypotheses on them state what they document: blocks that do not overlap,
  code that returns to the world it was called in.

  \<^bold>\<open>What the lemmas show.\<close> For each component the functional behaviour on every branch, the invariant and
  its preservation, and the errors. The loader refines an abstract description of the patch table
  (C1); the symbol table behaves as a map (C2, C31); the world switch is a pair of inverses and
  every call and system call is framed by it (C3, C5, C8); the heap gives every program arrays of its
  own, whatever it does (C4), from single steps that keep the invariant (C10, C11); its own checker agrees
  (C22), its size classes fit best (C23), and both heaps of Lilith are made as its new heaps (C25);
  entry points are looked up in the kernel's table and the task's (C24); the
  patched kernel is what the list of
  patches says (C6); the first task and spawned tasks are as described (C7, C27); \<open>wildmatch\<close> agrees
  with a reference matcher on the patterns the program uses (C12, C13); directory search, reading and
  writing terminate and do what they mean to (C9, C14, C15, C36, C39); keys and pixels are translated
  (C16, C33); a redraw gives the screen back (C17); traces name the closest symbol and print the frames of
  the stack (C18, C37); the monitor of a task, when its users unlock only what they locked, and the spin lock exclude
  (C19, C26); spawning waits for the new
  thread but can miss its signal (C20, C21); compressed files expand to their text until the table of the
  decompressor is full, pictures are seen where they are put and bitmaps give their pixels back (C28, C29, C30); guard
  bytes make allocations abort (C40). Where a statement needs a condition that the code does not test, a lemma
  beside it shows what the code does without it: \<open>stray_unlock_breaks_exclusion\<close>, \<open>GrBlot_overflow\<close>,
  \<open>bmp_reads_past_body\<close>, \<open>hash_negative_key_out_of_bounds\<close>.

  \<^bold>\<open>Termination and bounds.\<close> Loops are structural or come with a measure. Where a loop waits for the
  operating system its results are a list of answers and \<open>None\<close> means that the answers ran out;
  \<open>load_pass1\<close> is a partial function, and C1 shows that it ends on every well-formed table. A stack trace
  has at most 20 frames and faults where the stack is not mapped (a parameter of \<open>Trace\<close>; elsewhere memory is total). The event loop of \<open>x11_start\<close> and the search of directories run over the
  list of events and the finite directory tree that are given. The heap is shown to work for requests of at most
  4 GB, for fewer than \<open>2 ^ 31\<close> operations (its counters have 32 bits) and on system memory below \<open>2 ^ 62\<close> that is not
  given out twice (\<open>env_ok\<close>: Lilith's \<open>nop_system_free\<close> takes nothing back); its walks along pointers are partial functions, and
  the theorems show that they end. Integers have the width of the code;
  \<open>int\<close> arithmetic that could overflow is kept as in C on x86-64.

  \<^bold>\<open>Not modelled.\<close> \<open>static.c\<close> and the two \<open>0000Kernel.BIN.C\<close> are generated byte arrays; of \<open>stb_malloc.h\<close> the thread
  cache, which Lilith does not use (it passes \<open>NULL\<close>), frees through another heap, the walk over a heap and the unit tests;
  the assembly stubs of \<open>lilith.s\<close> and \<open>syscalls.s\<close>; the debugging output that is
  switched off in \<open>lilith.c\<close> and \<open>print_templeos_hash_table\<close>; the sound synthesis of \<open>TOSZ.CPP\<close> and its
  calls of \<open>ffmpeg\<close>.
  Threads are interleaved in \<open>TaskSync\<close> and \<open>Heaps\<close>; elsewhere an operation runs on its own.
\<close>

end
